(* ===== verification/Js_Prelude.thy ===== *)
theory Js_Prelude
  imports Main "HOL-Library.List_Lexorder" "HOL-Library.Sublist"
begin

text \<open>
  The shared prelude: JavaScript strings as lists of UTF-16 code units, the string operations
  of the language that the modelled code uses, JavaScript values, and the collections of
  rewrite rules that the component theories share.

  A string is a \<open>jsstring\<close>, a list of code units. A literal of the source is written
  \<open>js ''abc''\<close>; two literals are compared by the rule \<open>js_eq_iff\<close>. Only functions that look at
  code units unfold \<open>js\<close>. The relational order on strings (\<open><\<close> on lists, from
  \<open>HOL-Library.List_Lexorder\<close>) is the lexicographic order of code units that the default
  comparison of \<open>Array.prototype.sort\<close> uses.

  Case folding is modelled on ASCII letters only (\<open>ascii_lower\<close>); where the source applies
  \<open>toLowerCase\<close> to a string with letters outside ASCII the model leaves them as they are.
\<close>

named_theorems js_simps \<open>evaluation of string and value primitives\<close>

section \<open>Strings\<close>

type_synonym jsstring = "nat list"

definition js :: "string \<Rightarrow> jsstring" where
  "js s = map of_char s"

lemma inj_of_char_nat: "inj (of_char :: char \<Rightarrow> nat)"
  by (rule injI) simp

lemma js_eq_iff [simp]: "js s = js t \<longleftrightarrow> s = t"
  by (simp add: js_def inj_map_eq_map inj_of_char_nat)

lemma js_Nil [simp]: "js [] = []"
  by (simp add: js_def)

lemma js_eq_Nil [simp]: "js s = [] \<longleftrightarrow> s = []" "[] = js s \<longleftrightarrow> s = []"
  by (auto simp: js_def)

lemma js_Cons [js_simps]: "js (c # s) = of_char c # js s"
  by (simp add: js_def)

lemma js_append: "js (s @ t) = js s @ js t"
  by (simp add: js_def)

lemma length_js [simp]: "length (js s) = length s"
  by (simp add: js_def)

lemma prefix_js [simp]: "prefix (js p) (js s) \<longleftrightarrow> prefix p s"
  by (auto simp: js_def inj_map_eq_map inj_of_char_nat intro: map_mono_prefix
      dest: prefix_map_rightE)

text \<open>
  \<open>String.prototype.trim\<close> and \<open>\s\<close> use the same set of code units: the white space and the
  line terminators of ECMAScript.
\<close>

definition js_space :: "nat \<Rightarrow> bool" where
  "js_space c \<longleftrightarrow> 9 \<le> c \<and> c \<le> 13 \<or> c = 32 \<or> c = 160 \<or> c = 5760 \<or> 8192 \<le> c \<and> c \<le> 8202
     \<or> c = 8232 \<or> c = 8233 \<or> c = 8239 \<or> c = 8287 \<or> c = 12288 \<or> c = 65279"

definition js_trim :: "jsstring \<Rightarrow> jsstring" where
  "js_trim s = rev (dropWhile js_space (rev (dropWhile js_space s)))"

lemma set_js_trim: "set (js_trim s) \<subseteq> set s"
  by (auto simp: js_trim_def dest!: set_dropWhileD)

definition is_digit :: "nat \<Rightarrow> bool" where
  "is_digit c \<longleftrightarrow> 48 \<le> c \<and> c \<le> 57"

definition is_upper :: "nat \<Rightarrow> bool" where
  "is_upper c \<longleftrightarrow> 65 \<le> c \<and> c \<le> 90"

definition is_lower :: "nat \<Rightarrow> bool" where
  "is_lower c \<longleftrightarrow> 97 \<le> c \<and> c \<le> 122"

definition is_alpha :: "nat \<Rightarrow> bool" where
  "is_alpha c \<longleftrightarrow> is_upper c \<or> is_lower c"

definition is_alnum :: "nat \<Rightarrow> bool" where
  "is_alnum c \<longleftrightarrow> is_alpha c \<or> is_digit c"

text \<open>\<open>\w\<close>: letters, digits and the underscore.\<close>

definition is_word :: "nat \<Rightarrow> bool" where
  "is_word c \<longleftrightarrow> is_alnum c \<or> c = 95"

lemmas char_class_defs = is_digit_def is_upper_def is_lower_def is_alpha_def is_alnum_def
  is_word_def js_space_def

definition ascii_lower_unit :: "nat \<Rightarrow> nat" where
  "ascii_lower_unit c = (if is_upper c then c + 32 else c)"

definition ascii_lower :: "jsstring \<Rightarrow> jsstring" where
  "ascii_lower s = map ascii_lower_unit s"

definition ascii_upper_unit :: "nat \<Rightarrow> nat" where
  "ascii_upper_unit c = (if is_lower c then c - 32 else c)"

definition ascii_upper :: "jsstring \<Rightarrow> jsstring" where
  "ascii_upper s = map ascii_upper_unit s"

text \<open>\<open>xs.join(sep)\<close>.\<close>

fun js_join :: "jsstring \<Rightarrow> jsstring list \<Rightarrow> jsstring" where
  "js_join sep [] = []"
| "js_join sep [x] = x"
| "js_join sep (x # y # zs) = x @ sep @ js_join sep (y # zs)"

lemma js_join_Cons: "xs \<noteq> [] \<Longrightarrow> js_join sep (x # xs) = x @ sep @ js_join sep xs"
  by (cases xs) simp_all

text \<open>A separator that occurs in no part makes the joined text unambiguous.\<close>

lemma separated_eq:
  "c \<notin> set xs \<Longrightarrow> c \<notin> set ys \<Longrightarrow> xs @ c # s = ys @ c # t \<longleftrightarrow> xs = ys \<and> s = t"
proof (induction xs arbitrary: ys)
  case Nil
  then show ?case by (cases ys) auto
next
  case (Cons x xs)
  then show ?case by (cases ys) auto
qed

lemma js_join_inject:
  "length xs = length ys \<Longrightarrow> \<forall>x \<in> set xs \<union> set ys. c \<notin> set x \<Longrightarrow>
     js_join [c] xs = js_join [c] ys \<longleftrightarrow> xs = ys"
proof (induction xs ys rule: list_induct2)
  case (Cons x xs y ys)
  then show ?case
    by (cases xs; cases ys) (auto simp: separated_eq)
qed simp

text \<open>
  \<open>text.indexOf(pat, start)\<close>: the least position at or after the start where the pattern
  occurs; \<open>None\<close> stands for \<open>-1\<close>.
\<close>

fun find_occ :: "jsstring \<Rightarrow> jsstring \<Rightarrow> nat option" where
  "find_occ pat [] = (if pat = [] then Some 0 else None)"
| "find_occ pat (c # cs) =
     (if prefix pat (c # cs) then Some 0 else map_option Suc (find_occ pat cs))"

definition index_of_from :: "jsstring \<Rightarrow> jsstring \<Rightarrow> nat \<Rightarrow> nat option" where
  "index_of_from text pat start = map_option ((+) start) (find_occ pat (drop start text))"

definition js_includes :: "jsstring \<Rightarrow> jsstring \<Rightarrow> bool" where
  "js_includes s pat \<longleftrightarrow> find_occ pat s \<noteq> None"

lemma find_occ_Some:
  "find_occ pat s = Some i \<Longrightarrow>
     i \<le> length s \<and> prefix pat (drop i s) \<and> (\<forall>j < i. \<not> prefix pat (drop j s))"
proof (induction s arbitrary: i)
  case Nil
  then show ?case by (auto split: if_splits)
next
  case (Cons c cs)
  show ?case
  proof (cases "prefix pat (c # cs)")
    case True
    with Cons.prems show ?thesis by simp
  next
    case False
    with Cons.prems obtain k where k: "find_occ pat cs = Some k" "i = Suc k"
      by auto
    have "\<not> prefix pat (drop j (c # cs))" if "j < i" for j
      using that False Cons.IH [OF k(1)] k(2) by (cases j) auto
    with k Cons.IH [OF k(1)] show ?thesis by auto
  qed
qed

lemma find_occ_None: "find_occ pat s = None \<Longrightarrow> \<not> prefix pat (drop i s)"
proof (induction s arbitrary: i)
  case Nil
  then show ?case by (auto split: if_splits)
next
  case (Cons c cs)
  then show ?case by (cases i) (auto split: if_splits)
qed

lemma js_includes_iff_sublist: "js_includes s pat \<longleftrightarrow> sublist pat s"
proof
  assume "js_includes s pat"
  then obtain i where "find_occ pat s = Some i" by (auto simp: js_includes_def)
  then have "prefix pat (drop i s)" by (simp add: find_occ_Some)
  then show "sublist pat s"
    by (metis append_take_drop_id sublist_appendI prefixE append.assoc)
next
  assume "sublist pat s"
  then obtain ps ss where "s = ps @ pat @ ss" by (auto simp: sublist_def)
  then have "prefix pat (drop (length ps) s)" by simp
  then show "js_includes s pat"
    using find_occ_None by (auto simp: js_includes_def)
qed

lemma index_of_from_Some:
  assumes "index_of_from text pat start = Some i"
  shows "start \<le> i" "prefix pat (drop i text)"
    "\<And>j. start \<le> j \<Longrightarrow> j < i \<Longrightarrow> \<not> prefix pat (drop j text)"
proof -
  from assms obtain k where k: "find_occ pat (drop start text) = Some k" "i = start + k"
    by (auto simp: index_of_from_def)
  note f = find_occ_Some [OF k(1)]
  show "start \<le> i" using k by simp
  show "prefix pat (drop i text)" using f k by (simp add: add.commute)
  fix j assume j: "start \<le> j" "j < i"
  then have "j - start < k" using k by simp
  with f have "\<not> prefix pat (drop (j - start) (drop start text))" by blast
  with j show "\<not> prefix pat (drop j text)" by simp
qed

lemma index_of_from_None:
  assumes "index_of_from text pat start = None" and "start \<le> j"
  shows "\<not> prefix pat (drop j text)"
proof -
  from assms(1) have "find_occ pat (drop start text) = None"
    by (simp add: index_of_from_def)
  from find_occ_None [OF this, of "j - start"] assms(2) show ?thesis by simp
qed

section \<open>Decimal numerals\<close>

fun decimal :: "nat \<Rightarrow> jsstring" where
  "decimal n = (if n < 10 then [48 + n] else decimal (n div 10) @ [48 + n mod 10])"

declare decimal.simps [simp del]

lemma decimal_small [simp]: "n < 10 \<Longrightarrow> decimal n = [48 + n]"
  by (subst decimal.simps) simp

lemma decimal_large [simp]: "10 \<le> n \<Longrightarrow> decimal n = decimal (n div 10) @ [48 + n mod 10]"
  by (subst decimal.simps) simp

definition undecimal :: "jsstring \<Rightarrow> nat" where
  "undecimal ds = foldl (\<lambda>a d. 10 * a + (d - 48)) 0 ds"

lemma undecimal_snoc: "undecimal (ds @ [d]) = 10 * undecimal ds + (d - 48)"
  by (simp add: undecimal_def)

lemma undecimal_decimal [simp]: "undecimal (decimal n) = n"
proof (induction n rule: decimal.induct)
  case (1 n)
  then show ?case
    by (subst decimal.simps) (auto simp: undecimal_snoc undecimal_def)
qed

lemma decimal_digits: "c \<in> set (decimal n) \<Longrightarrow> is_digit c"
proof (induction n rule: decimal.induct)
  case (1 n)
  show ?case
  proof (cases "n < 10")
    case True
    with "1.prems" show ?thesis by (simp add: decimal.simps is_digit_def)
  next
    case False
    with "1.prems" have "c \<in> set (decimal (n div 10)) \<or> c = 48 + n mod 10"
      by (subst (asm) decimal.simps) auto
    with False "1.IH" show ?thesis by (auto simp: is_digit_def)
  qed
qed

lemma decimal_nonempty [simp]: "decimal n \<noteq> []"
  by (subst decimal.simps) simp

lemma decimal_inject [simp]: "decimal m = decimal n \<longleftrightarrow> m = n"
  by (metis undecimal_decimal)

lemma undecimal_append:
  "undecimal (xs @ ys) = undecimal xs * 10 ^ length ys + undecimal ys"
proof (induction ys rule: rev_induct)
  case Nil
  then show ?case by (simp add: undecimal_def)
next
  case (snoc y ys)
  have "undecimal (xs @ ys @ [y]) = 10 * undecimal (xs @ ys) + (y - 48)"
    by (metis append.assoc undecimal_snoc)
  with snoc show ?case by (simp add: undecimal_snoc algebra_simps)
qed

lemma undecimal_zeros [simp]: "undecimal (replicate k 48) = 0"
  by (induction k) (simp_all add: undecimal_def)

section \<open>Values\<close>

text \<open>
  Numbers. A finite double is named by the digits that \<open>Number.prototype.toString\<close> prints:
  sign, digits \<open>s\<close> read as a natural number with no trailing zero, and a decimal exponent
  \<open>e\<close>, for the value \<open>\<plusminus>s * 10 ^ e\<close>. Two different doubles never share those digits, and
  the two zeros are the one case where the sign is not printed.
\<close>

datatype jsnum = Fin bool nat int | NaN | Infty bool

fun strip10 :: "nat \<Rightarrow> int \<Rightarrow> nat \<times> int" where
  "strip10 m x = (if m \<noteq> 0 \<and> 10 dvd m then strip10 (m div 10) (x + 1) else (m, x))"

declare strip10.simps [simp del]

definition wf_num :: "jsnum \<Rightarrow> bool" where
  "wf_num n \<longleftrightarrow> (case n of Fin neg s e \<Rightarrow> (s = 0 \<longrightarrow> e = 0) \<and> (s \<noteq> 0 \<longrightarrow> \<not> 10 dvd s) | _ \<Rightarrow> True)"

definition num_of_nat :: "nat \<Rightarrow> jsnum" where
  "num_of_nat n = (if n = 0 then Fin False 0 0 else (case strip10 n 0 of (s, e) \<Rightarrow> Fin False s e))"

lemma strip10_shift: "s \<noteq> 0 \<Longrightarrow> \<not> 10 dvd s \<Longrightarrow> strip10 (s * 10 ^ k) x = (s, x + int k)"
proof (induction k arbitrary: x)
  case 0
  then show ?case by (subst strip10.simps) simp
next
  case (Suc k)
  then show ?case by (subst strip10.simps) (simp add: algebra_simps)
qed

text \<open>
  Values. \<open>Obj\<close> lists the own enumerable string-keyed properties in the order in which
  \<open>Object.keys\<close> lists them; a property that is absent reads as \<open>Undefined\<close>.
\<close>

datatype jsval =
    Undefined
  | Null
  | Bool bool
  | Num jsnum
  | Str jsstring
  | Arr "jsval list"
  | Obj "(jsstring \<times> jsval) list"

type_synonym jsprops = "(jsstring \<times> jsval) list"

definition prop_get :: "jsprops \<Rightarrow> jsstring \<Rightarrow> jsval" where
  "prop_get ps k = (case map_of ps k of None \<Rightarrow> Undefined | Some v \<Rightarrow> v)"

lemma prop_get_Nil [simp]: "prop_get [] k = Undefined"
  by (simp add: prop_get_def)

lemma prop_get_Cons [simp]:
  "prop_get ((k', v) # ps) k = (if k' = k then v else prop_get ps k)"
  by (simp add: prop_get_def)

text \<open>
  Reading a named property of a value. On null and undefined the language throws; on the other
  primitives and on arrays the names used by the code are absent.
\<close>

datatype js_throw = TypeError | RangeError | ThrownError jsstring

fun member_get :: "jsval \<Rightarrow> jsstring \<Rightarrow> js_throw + jsval" where
  "member_get Undefined k = Inl TypeError"
| "member_get Null k = Inl TypeError"
| "member_get (Obj ps) k = Inr (prop_get ps k)"
| "member_get v k = Inr Undefined"

fun truthy :: "jsval \<Rightarrow> bool" where
  "truthy Undefined = False"
| "truthy Null = False"
| "truthy (Bool b) = b"
| "truthy (Num (Fin neg s e)) = (s \<noteq> 0)"
| "truthy (Num NaN) = False"
| "truthy (Num (Infty b)) = True"
| "truthy (Str s) = (s \<noteq> [])"
| "truthy (Arr xs) = True"
| "truthy (Obj ps) = True"

fun is_object :: "jsval \<Rightarrow> bool" where
  "is_object (Arr xs) = True"
| "is_object (Obj ps) = True"
| "is_object v = False"

text \<open>\<open>v == null\<close>\<close>

fun nullish :: "jsval \<Rightarrow> bool" where
  "nullish Undefined = True"
| "nullish Null = True"
| "nullish v = False"

text \<open>\<open>s || undefined\<close> for an optional string.\<close>

definition nonempty :: "jsstring option \<Rightarrow> jsstring option" where
  "nonempty s = (case s of None \<Rightarrow> None | Some t \<Rightarrow> (if t = [] then None else Some t))"

lemma nonempty_Some: "nonempty s = Some t \<longleftrightarrow> s = Some t \<and> t \<noteq> []"
  by (auto simp: nonempty_def split: option.splits)

lemma nonempty_not_empty [simp]: "nonempty s \<noteq> Some []"
  by (simp add: nonempty_Some)

text \<open>\<open>[...new Set(xs)]\<close> keeps the first occurrence of every element.\<close>

definition js_unique :: "'a list \<Rightarrow> 'a list" where
  "js_unique xs = rev (remdups (rev xs))"

lemma js_unique_simps [simp]:
  "js_unique [] = []"
  "js_unique (xs @ [x]) = (if x \<in> set xs then js_unique xs else js_unique xs @ [x])"
  "distinct (js_unique xs)"
  by (simp_all add: js_unique_def)

lemma set_js_unique [simp]: "set (js_unique xs) = set xs"
  by (simp add: js_unique_def)

lemma js_unique_Nil_iff [simp]: "js_unique xs = [] \<longleftrightarrow> xs = []"
  by (simp add: js_unique_def)

section \<open>Insertion-ordered maps\<close>

text \<open>
  A JavaScript \<open>Map\<close> keeps its entries in insertion order: \<open>set\<close> on a present key keeps the
  entry's place, \<open>delete\<close> removes it.
\<close>

type_synonym ('k, 'v) jsmap = "('k \<times> 'v) list"

definition map_get :: "('k, 'v) jsmap \<Rightarrow> 'k \<Rightarrow> 'v option" where
  "map_get m k = map_of m k"

fun map_set :: "'k \<Rightarrow> 'v \<Rightarrow> ('k, 'v) jsmap \<Rightarrow> ('k, 'v) jsmap" where
  "map_set k v [] = [(k, v)]"
| "map_set k v ((k', v') # m) = (if k' = k then (k, v) # m else (k', v') # map_set k v m)"

definition map_delete :: "'k \<Rightarrow> ('k, 'v) jsmap \<Rightarrow> ('k, 'v) jsmap" where
  "map_delete k m = filter (\<lambda>(k', v). k' \<noteq> k) m"

definition wf_map :: "('k, 'v) jsmap \<Rightarrow> bool" where
  "wf_map m \<longleftrightarrow> distinct (map fst m)"

lemma set_keys_map_set [simp]: "fst ` set (map_set k v m) = insert k (fst ` set m)"
  by (induction k v m rule: map_set.induct) auto

lemma set_keys_map_delete [simp]: "fst ` set (map_delete k m) = fst ` set m - {k}"
  by (force simp: map_delete_def)

lemma wf_map_Nil [simp]: "wf_map []"
  by (simp add: wf_map_def)

lemma wf_map_set [simp]: "wf_map m \<Longrightarrow> wf_map (map_set k v m)"
proof (induction k v m rule: map_set.induct)
  case (2 k v k' v' m)
  then show ?case
    using set_keys_map_set [of k v m] by (auto simp: wf_map_def)
qed (simp add: wf_map_def)

lemma wf_map_delete [simp]: "wf_map m \<Longrightarrow> wf_map (map_delete k m)"
  by (simp add: wf_map_def map_delete_def distinct_map_filter)

lemma map_get_set [simp]: "map_get (map_set k v m) = (map_get m)(k \<mapsto> v)"
  by (induction k v m rule: map_set.induct) (auto simp: map_get_def fun_eq_iff)

lemma map_get_delete [simp]: "map_get (map_delete k m) = (map_get m)(k := None)"
  by (induction m) (auto simp: map_get_def map_delete_def fun_eq_iff)

lemma map_get_mem: "wf_map m \<Longrightarrow> map_get m k = Some v \<longleftrightarrow> (k, v) \<in> set m"
  by (simp add: map_get_def wf_map_def)

lemma map_get_None: "map_get m k = None \<longleftrightarrow> k \<notin> fst ` set m"
  by (simp add: map_get_def map_of_eq_None_iff)

lemma map_get_Nil [simp]: "map_get [] k = None"
  by (simp add: map_get_def)

text \<open>
  The contract of a keyed store, the interface that the limiters and the caches use.
\<close>

locale keyed_store =
  fixes get :: "'m \<Rightarrow> 'k \<Rightarrow> 'v option"
    and put :: "'k \<Rightarrow> 'v \<Rightarrow> 'm \<Rightarrow> 'm"
    and del :: "'k \<Rightarrow> 'm \<Rightarrow> 'm"
    and wf :: "'m \<Rightarrow> bool"
  assumes get_put: "wf m \<Longrightarrow> get (put k v m) = (get m)(k \<mapsto> v)"
    and get_del: "wf m \<Longrightarrow> get (del k m) = (get m)(k := None)"
    and wf_put: "wf m \<Longrightarrow> wf (put k v m)"
    and wf_del: "wf m \<Longrightarrow> wf (del k m)"
begin

lemma get_put_same: "wf m \<Longrightarrow> get (put k v m) k = Some v"
  by (simp add: get_put)

lemma get_put_other: "wf m \<Longrightarrow> k' \<noteq> k \<Longrightarrow> get (put k v m) k' = get m k'"
  by (simp add: get_put)

lemma put_del: "wf m \<Longrightarrow> get (put k v (del k m)) = get (put k v m)"
  by (simp add: get_put get_del wf_del)

lemma del_put: "wf m \<Longrightarrow> get (del k (put k v m)) = get (del k m)"
  by (simp add: get_put get_del wf_put)

end

interpretation jm: keyed_store map_get map_set map_delete wf_map
  by unfold_locales simp_all

end
