(* ===== verification/Json_Text.thy ===== *)
theory Json_Text
  imports Js_Prelude
begin

text \<open>
  The texts that the language itself makes of numbers and strings: \<open>Number.prototype.toString\<close>
  and the quoting of \<open>JSON.stringify\<close>. The destructive gate hashes such a text and the TOON
  encoder and the result serializer emit it, so what matters is that different values never
  share a text: both printers have a reader that undoes them, also when more text follows.
\<close>

section \<open>Numbers\<close>

text \<open>ECMAScript, Number::toString: \<open>k\<close> digits, the decimal point after the \<open>n\<close>-th.\<close>

definition number_text :: "jsnum \<Rightarrow> jsstring" where
  "number_text num = (case num of
     NaN \<Rightarrow> js ''NaN''
   | Infty neg \<Rightarrow> (if neg then js ''-Infinity'' else js ''Infinity'')
   | Fin neg s e \<Rightarrow>
       (let ds = decimal s; k = length ds; n = int k + e
        in (if neg \<and> s \<noteq> 0 then [45] else []) @
           (if s = 0 then [48]
            else if int k \<le> n \<and> n \<le> 21 then ds @ replicate (nat (n - int k)) 48
            else if 0 < n \<and> n \<le> 21 then take (nat n) ds @ [46] @ drop (nat n) ds
            else if -6 < n \<and> n \<le> 0 then [48, 46] @ replicate (nat (- n)) 48 @ ds
            else take 1 ds @ (if k = 1 then [] else [46] @ drop 1 ds) @ [101] @
                 (if n - 1 < 0 then [45] else [43]) @ decimal (nat \<bar>n - 1\<bar>))))"

text \<open>The reader: mantissa digits around a point, then an exponent.\<close>

definition split_at :: "nat \<Rightarrow> jsstring \<Rightarrow> jsstring \<times> jsstring" where
  "split_at c s = (takeWhile (\<lambda>x. x \<noteq> c) s, drop 1 (dropWhile (\<lambda>x. x \<noteq> c) s))"

definition read_exponent :: "jsstring \<Rightarrow> int" where
  "read_exponent s = (case s of [] \<Rightarrow> 0
     | sg # ds \<Rightarrow> if sg = 45 then - int (undecimal ds) else int (undecimal ds))"

definition read_unsigned :: "jsstring \<Rightarrow> nat \<times> int" where
  "read_unsigned s =
     (let (m, e) = split_at 101 s; (i, f) = split_at 46 m
      in (undecimal (i @ f), read_exponent e - int (length f)))"

definition read_number :: "jsstring \<Rightarrow> jsnum" where
  "read_number s =
     (let (neg, body) = (case s of [] \<Rightarrow> (False, []) | c # cs \<Rightarrow> if c = 45 then (True, cs) else (False, s));
          (m, x) = read_unsigned body
      in if m = 0 then Fin False 0 0 else (case strip10 m x of (d, e) \<Rightarrow> Fin neg d e))"

lemma split_at_absent: "c \<notin> set s \<Longrightarrow> split_at c s = (s, [])"
proof -
  assume "c \<notin> set s"
  then have "\<forall>x \<in> set s. x \<noteq> c" by auto
  then have "takeWhile (\<lambda>x. x \<noteq> c) s = s" by (simp add: takeWhile_eq_all_conv)
  moreover from this have "dropWhile (\<lambda>x. x \<noteq> c) s = []"
    by (metis append_self_conv takeWhile_dropWhile_id)
  ultimately show ?thesis by (simp only: split_at_def drop_Nil)
qed

lemma split_at_first: "c \<notin> set s \<Longrightarrow> split_at c (s @ c # t) = (s, t)"
proof -
  assume "c \<notin> set s"
  then have "\<forall>x \<in> set s. x \<noteq> c" by auto
  then show ?thesis by (simp add: split_at_def takeWhile_append2 dropWhile_append2)
qed

lemma digit_not_mark: "c \<in> set (decimal n) \<Longrightarrow> c \<noteq> 45 \<and> c \<noteq> 46 \<and> c \<noteq> 101"
  using decimal_digits [of c n] by (auto simp: is_digit_def)

lemma marks_notin_decimal [simp]:
  "45 \<notin> set (decimal n)" "46 \<notin> set (decimal n)" "101 \<notin> set (decimal n)"
  using digit_not_mark by blast+

lemma marks_notin_parts [simp]:
  "46 \<notin> set (take k (decimal n))" "101 \<notin> set (take k (decimal n))"
  "101 \<notin> set (drop k (decimal n))"
  using digit_not_mark in_set_takeD in_set_dropD by metis+

lemma read_unsigned_no_exp:
  assumes "101 \<notin> set i" "101 \<notin> set f" "46 \<notin> set i"
  shows "read_unsigned (i @ 46 # f) = (undecimal (i @ f), - int (length f))"
  using assms by (simp add: read_unsigned_def split_at_absent split_at_first read_exponent_def)

lemma read_unsigned_int:
  assumes "101 \<notin> set i" "46 \<notin> set i"
  shows "read_unsigned i = (undecimal i, 0)"
  using assms by (simp add: read_unsigned_def split_at_absent read_exponent_def)

lemma read_unsigned_exp:
  assumes "101 \<notin> set i" "101 \<notin> set f" "46 \<notin> set i"
  shows "read_unsigned (i @ 46 # f @ 101 # e) = (undecimal (i @ f), read_exponent e - int (length f))"
proof -
  have "split_at 101 ((i @ 46 # f) @ 101 # e) = (i @ 46 # f, e)"
    using assms by (intro split_at_first) auto
  with assms show ?thesis by (simp add: read_unsigned_def split_at_first)
qed

lemma read_unsigned_exp_nodot:
  assumes "101 \<notin> set i" "46 \<notin> set i"
  shows "read_unsigned (i @ 101 # e) = (undecimal i, read_exponent e)"
  using assms by (simp add: read_unsigned_def split_at_first split_at_absent)

lemma read_exponent_sign:
  "read_exponent ((if x < 0 then [45] else [43]) @ decimal (nat \<bar>x\<bar>)) = x"
  by (simp add: read_exponent_def)

lemma read_exponent_neg: "x < 0 \<Longrightarrow> read_exponent (45 # decimal (nat \<bar>x\<bar>)) = x"
  using read_exponent_sign [of x] by simp

lemma read_exponent_pos: "\<not> x < 0 \<Longrightarrow> read_exponent (43 # decimal (nat \<bar>x\<bar>)) = x"
  using read_exponent_sign [of x] by simp

text \<open>The unsigned part of a finite number's text, and what the reader makes of it.\<close>

definition unsigned_text :: "nat \<Rightarrow> int \<Rightarrow> jsstring" where
  "unsigned_text s e =
     (let ds = decimal s; k = length ds; n = int k + e
      in if int k \<le> n \<and> n \<le> 21 then ds @ replicate (nat (n - int k)) 48
         else if 0 < n \<and> n \<le> 21 then take (nat n) ds @ 46 # drop (nat n) ds
         else if -6 < n \<and> n \<le> 0 then [48, 46] @ replicate (nat (- n)) 48 @ ds
         else take 1 ds @ (if k = 1 then [] else [46] @ drop 1 ds) @ [101] @
              (if n - 1 < 0 then [45] else [43]) @ decimal (nat \<bar>n - 1\<bar>))"

lemma number_text_Fin:
  "number_text (Fin neg s e) =
     (if neg \<and> s \<noteq> 0 then [45] else []) @ (if s = 0 then [48] else unsigned_text s e)"
  by (simp add: number_text_def unsigned_text_def Let_def)

lemma unsigned_text_int:
  assumes "0 \<le> e" "int (length (decimal s)) + e \<le> 21"
  shows "read_unsigned (unsigned_text s e) = (s * 10 ^ nat e, 0)"
proof -
  have "unsigned_text s e = decimal s @ replicate (nat e) 48"
    using assms by (simp add: unsigned_text_def Let_def)
  then show ?thesis
    by (simp add: read_unsigned_int undecimal_append)
qed

lemma unsigned_text_frac:
  assumes "e < 0" "0 < int (length (decimal s)) + e" "int (length (decimal s)) + e \<le> 21"
  shows "read_unsigned (unsigned_text s e) = (s, e)"
proof -
  let ?n = "nat (int (length (decimal s)) + e)"
  have "unsigned_text s e = take ?n (decimal s) @ 46 # drop ?n (decimal s)"
    using assms by (simp add: unsigned_text_def Let_def)
  then show ?thesis
    using assms by (simp add: read_unsigned_no_exp of_nat_diff)
qed

lemma unsigned_text_small:
  assumes "-6 < int (length (decimal s)) + e" "int (length (decimal s)) + e \<le> 0"
  shows "read_unsigned (unsigned_text s e) = (s, e)"
proof -
  let ?z = "nat (- (int (length (decimal s)) + e))"
  have "0 < length (decimal s)" by simp
  then have "e < 0" using assms by linarith
  then have "unsigned_text s e = [48] @ 46 # (replicate ?z 48 @ decimal s)"
    using assms by (simp add: unsigned_text_def Let_def)
  moreover have "undecimal ([48] @ replicate ?z 48 @ decimal s) = s"
    by (simp only: undecimal_append undecimal_zeros undecimal_decimal) (simp add: undecimal_def)
  moreover have "read_unsigned ([48] @ 46 # (replicate ?z 48 @ decimal s))
      = (undecimal ([48] @ replicate ?z 48 @ decimal s), - int (length (replicate ?z 48 @ decimal s)))"
    by (rule read_unsigned_no_exp) auto
  ultimately show ?thesis
    using assms by simp
qed

lemma unsigned_text_exp:
  assumes "int (length (decimal s)) + e > 21 \<or> int (length (decimal s)) + e \<le> -6"
  shows "read_unsigned (unsigned_text s e) = (s, e)"
proof -
  let ?ds = "decimal s" and ?x = "int (length (decimal s)) + e - 1"
  let ?es = "(if ?x < 0 then [45] else [43]) @ decimal (nat \<bar>?x\<bar>)"
  have pos: "0 < length ?ds" by simp
  have t: "unsigned_text s e = take 1 ?ds @ (if length ?ds = 1 then [] else [46] @ drop 1 ?ds) @ [101] @ ?es"
    using assms pos unfolding unsigned_text_def Let_def by auto
  have ex: "read_exponent ?es = ?x" by (rule read_exponent_sign)
  show ?thesis
  proof (cases "length ?ds = 1")
    case True
    then have "unsigned_text s e = ?ds @ 101 # ?es" using t by simp
    then have "read_unsigned (unsigned_text s e) = (undecimal ?ds, read_exponent ?es)"
      by (simp only: read_unsigned_exp_nodot marks_notin_decimal not_False_eq_True)
    with ex True show ?thesis by simp
  next
    case False
    then have "unsigned_text s e = take 1 ?ds @ 46 # drop 1 ?ds @ 101 # ?es" using t by simp
    then have "read_unsigned (unsigned_text s e)
      = (undecimal (take 1 ?ds @ drop 1 ?ds), read_exponent ?es - int (length (drop 1 ?ds)))"
      by (simp only: read_unsigned_exp marks_notin_parts not_False_eq_True)
    moreover have "int (length (drop 1 ?ds)) = int (length ?ds) - 1"
      using pos by (simp add: of_nat_diff Suc_le_eq)
    ultimately show ?thesis by (simp only: append_take_drop_id undecimal_decimal ex) simp
  qed
qed

lemma read_unsigned_text:
  assumes "s \<noteq> 0" "\<not> 10 dvd s" "read_unsigned (unsigned_text s e) = (m, x)"
  shows "m \<noteq> 0" "strip10 m x = (s, e)"
proof -
  let ?n = "int (length (decimal s)) + e"
  have "(m, x) = (s * 10 ^ nat e, 0) \<and> 0 \<le> e \<or> (m, x) = (s, e)"
  proof (cases "0 \<le> e \<and> ?n \<le> 21")
    case True
    with assms(3) show ?thesis by (simp add: unsigned_text_int)
  next
    case False
    consider "e < 0" "0 < ?n" "?n \<le> 21" | "-6 < ?n" "?n \<le> 0" | "?n > 21 \<or> ?n \<le> -6"
      using False by linarith
    then show ?thesis
      using assms(3) unsigned_text_frac unsigned_text_small unsigned_text_exp by cases auto
  qed
  then show "m \<noteq> 0" "strip10 m x = (s, e)"
    using assms(1,2) strip10_shift [of s "nat e" 0] strip10_shift [of s 0 e] by auto
qed

lemma unsigned_text_head: "unsigned_text s e \<noteq> [] \<and> is_digit (hd (unsigned_text s e))"
proof -
  have ne: "decimal s \<noteq> []" by simp
  then have "is_digit (hd (decimal s))" by (metis decimal_digits hd_in_set)
  moreover have "take (nat k) (decimal s) \<noteq> []" if "0 < k" for k using ne that by auto
  ultimately show ?thesis
    using ne by (auto simp: unsigned_text_def Let_def hd_append is_digit_def hd_take)
qed

text \<open>Reading back the text of a finite number gives the number; the negative zero reads as zero.\<close>

definition norm_num :: "jsnum \<Rightarrow> jsnum" where
  "norm_num n = (case n of Fin neg s e \<Rightarrow> if s = 0 then Fin False 0 0 else Fin neg s e | _ \<Rightarrow> n)"

lemma read_number_text:
  assumes "wf_num (Fin neg s e)"
  shows "read_number (number_text (Fin neg s e)) = norm_num (Fin neg s e)"
proof (cases "s = 0")
  case True
  then show ?thesis
    by (simp add: number_text_Fin read_number_def norm_num_def read_unsigned_int undecimal_def)
next
  case False
  with assms have nd: "\<not> 10 dvd s" by (simp add: wf_num_def)
  obtain m x where mx: "read_unsigned (unsigned_text s e) = (m, x)" by fastforce
  note r = read_unsigned_text [OF False nd mx]
  obtain c cs where c: "unsigned_text s e = c # cs" "c \<noteq> 45"
    using unsigned_text_head [of s e] by (cases "unsigned_text s e") (auto simp: is_digit_def)
  then show ?thesis
    using False r mx by (simp add: number_text_Fin read_number_def norm_num_def)
qed

lemma number_text_inject:
  assumes "wf_num (Fin a s e)" "wf_num (Fin a' s' e')"
    "number_text (Fin a s e) = number_text (Fin a' s' e')"
  shows "norm_num (Fin a s e) = norm_num (Fin a' s' e')"
  using assms by (metis read_number_text)

section \<open>Strings\<close>

text \<open>
  \<open>JSON.stringify\<close> of a string: short escapes, \<open>\u\<close> escapes for the other control characters
  and for surrogates that have no partner; a well-formed surrogate pair is copied.
\<close>

definition is_high_surrogate :: "nat \<Rightarrow> bool" where
  "is_high_surrogate c \<longleftrightarrow> 55296 \<le> c \<and> c \<le> 56319"

definition is_low_surrogate :: "nat \<Rightarrow> bool" where
  "is_low_surrogate c \<longleftrightarrow> 56320 \<le> c \<and> c \<le> 57343"

definition hex_digit :: "nat \<Rightarrow> nat" where
  "hex_digit d = (if d < 10 then 48 + d else 87 + d)"

definition hex4 :: "nat \<Rightarrow> jsstring" where
  "hex4 c = [hex_digit (c div 4096), hex_digit (c div 256 mod 16),
             hex_digit (c div 16 mod 16), hex_digit (c mod 16)]"

definition unicode_escape :: "nat \<Rightarrow> jsstring" where
  "unicode_escape c = [92, 117] @ hex4 c"

definition json_escape_unit :: "nat \<Rightarrow> jsstring" where
  "json_escape_unit c =
     (if c = 8 then [92, 98] else if c = 9 then [92, 116] else if c = 10 then [92, 110]
      else if c = 12 then [92, 102] else if c = 13 then [92, 114]
      else if c = 34 then [92, 34] else if c = 92 then [92, 92]
      else if c < 32 then unicode_escape c else [c])"

fun json_escape :: "jsstring \<Rightarrow> jsstring" where
  "json_escape [] = []"
| "json_escape (c # cs) =
     (if is_high_surrogate c then
        (case cs of
           d # ds \<Rightarrow> if is_low_surrogate d then c # d # json_escape ds
                     else unicode_escape c @ json_escape cs
         | [] \<Rightarrow> unicode_escape c)
      else if is_low_surrogate c then unicode_escape c @ json_escape cs
      else json_escape_unit c @ json_escape cs)"

definition json_quote :: "jsstring \<Rightarrow> jsstring" where
  "json_quote s = [34] @ json_escape s @ [34]"

text \<open>A reader for quoted text: everything up to the closing quote, escapes undone.\<close>

definition unhex_digit :: "nat \<Rightarrow> nat" where
  "unhex_digit d = (if d < 58 then d - 48 else d - 87)"

definition unescape_unit :: "nat \<Rightarrow> nat" where
  "unescape_unit x = (if x = 98 then 8 else if x = 116 then 9 else if x = 110 then 10
      else if x = 102 then 12 else if x = 114 then 13 else x)"

fun read_quoted :: "jsstring \<Rightarrow> (jsstring \<times> jsstring) option" where
  "read_quoted [] = None"
| "read_quoted (c # r) =
     (if c = 34 then Some ([], r)
      else if c = 92 then
        (case r of
           [] \<Rightarrow> None
         | x # r' \<Rightarrow>
             if x = 117 then
               (case r' of
                  h1 # h2 # h3 # h4 # r'' \<Rightarrow>
                    map_option (apfst ((#) (unhex_digit h1 * 4096 + unhex_digit h2 * 256
                      + unhex_digit h3 * 16 + unhex_digit h4))) (read_quoted r'')
                | _ \<Rightarrow> None)
             else map_option (apfst ((#) (unescape_unit x))) (read_quoted r'))
      else map_option (apfst ((#) c)) (read_quoted r))"

lemma unhex_hex [simp]: "d < 16 \<Longrightarrow> unhex_digit (hex_digit d) = d"
  by (simp add: hex_digit_def unhex_digit_def)

lemma hex4_value:
  "c div 4096 * 4096 + c div 256 mod 16 * 256 + c div 16 mod 16 * 16 + c mod 16 = (c::nat)"
proof -
  have d: "c div 256 = c div 16 div 16" "c div 4096 = c div 16 div 16 div 16"
    by (simp_all flip: div_mult2_eq)
  have "c = c div 16 * 16 + c mod 16" by simp
  moreover have "c div 16 = c div 16 div 16 * 16 + c div 16 mod 16" by simp
  moreover have "c div 16 div 16 = c div 16 div 16 div 16 * 16 + c div 16 div 16 mod 16" by simp
  ultimately show ?thesis unfolding d by linarith
qed

lemma read_quoted_unicode:
  assumes "c < 65536"
  shows "read_quoted (unicode_escape c @ r) = map_option (apfst ((#) c)) (read_quoted r)"
proof -
  have "c div 4096 < 16" using assms by simp
  then show ?thesis by (simp add: unicode_escape_def hex4_def hex4_value)
qed

lemma read_quoted_unit:
  "read_quoted (json_escape_unit c @ r) = map_option (apfst ((#) c)) (read_quoted r)"
  by (simp add: json_escape_unit_def unescape_unit_def read_quoted_unicode)

lemma surrogate_bounds:
  "is_high_surrogate c \<Longrightarrow> c < 65536 \<and> c \<noteq> 34 \<and> c \<noteq> 92"
  "is_low_surrogate c \<Longrightarrow> c < 65536 \<and> c \<noteq> 34 \<and> c \<noteq> 92"
  by (auto simp: is_high_surrogate_def is_low_surrogate_def)

lemma read_quoted_escape: "read_quoted (json_escape s @ 34 # r) = Some (s, r)"
proof (induction s rule: json_escape.induct)
  case 1
  then show ?case by simp
next
  case (2 c cs)
  then show ?case
    using surrogate_bounds
    by (auto simp: read_quoted_unicode read_quoted_unit split: list.split)
qed

lemma json_quote_prefix_free: "json_quote s @ r = json_quote t @ r' \<Longrightarrow> s = t \<and> r = r'"
proof -
  assume "json_quote s @ r = json_quote t @ r'"
  then have "json_escape s @ 34 # r = json_escape t @ 34 # r'" by (simp add: json_quote_def)
  then show ?thesis using read_quoted_escape by (metis option.inject prod.inject)
qed

section \<open>Self-delimiting codes\<close>

text \<open>
  What a printer of list elements must promise so that a comma-separated list of its outputs
  can be read back: read from the left, its output determines the value and where the output
  ends, provided that a separator or the end of the text follows.
\<close>

definition at_stop :: "jsstring \<Rightarrow> bool" where
  "at_stop r \<longleftrightarrow> r = [] \<or> hd r \<in> {44, 93, 125}"

lemma at_stop_simps [simp]:
  "at_stop []" "at_stop (c # r) \<longleftrightarrow> c = 44 \<or> c = 93 \<or> c = 125"
  by (auto simp: at_stop_def)

locale delimited_code =
  fixes enc :: "'a \<Rightarrow> jsstring" and ok :: "'a \<Rightarrow> bool"
  assumes enc_cancel:
      "ok a \<Longrightarrow> ok b \<Longrightarrow> at_stop r \<Longrightarrow> at_stop r' \<Longrightarrow> enc a @ r = enc b @ r' \<Longrightarrow> a = b \<and> r = r'"
    and enc_start: "ok a \<Longrightarrow> \<not> at_stop (enc a @ r)"
begin

lemma enc_inject: "ok a \<Longrightarrow> ok b \<Longrightarrow> enc a = enc b \<longleftrightarrow> a = b"
  using enc_cancel [of a b "[]" "[]"] by auto

lemma enc_nonempty: "ok a \<Longrightarrow> enc a \<noteq> []"
  using enc_start [of a "[]"] by auto

lemma join_start: "xs \<noteq> [] \<Longrightarrow> \<forall>x \<in> set xs. ok x \<Longrightarrow> \<not> at_stop (js_join [44] (map enc xs) @ r)"
proof (cases xs)
  case (Cons x ys)
  assume "\<forall>x \<in> set xs. ok x"
  then have "\<not> at_stop (enc x @ q)" for q using Cons enc_start by simp
  with Cons show ?thesis by (cases ys) simp_all
qed simp

lemma join_cancel:
  assumes "\<forall>x \<in> set xs. ok x" "\<forall>y \<in> set ys. ok y" "c = 93 \<or> c = 125"
    "js_join [44] (map enc xs) @ c # r = js_join [44] (map enc ys) @ c # r'"
  shows "xs = ys \<and> r = r'"
  using assms
proof (induction xs arbitrary: ys)
  case Nil
  show ?case
  proof (cases ys)
    case Nil
    with Nil.prems show ?thesis by simp
  next
    case (Cons y zs)
    with Nil.prems join_start [of ys "c # r'"] show ?thesis
      by (metis append_Nil at_stop_simps(2) js_join.simps(1) list.distinct(1) list.simps(8))
  qed
next
  case (Cons x xs)
  obtain y zs where ys: "ys = y # zs"
  proof (cases ys)
    case Nil
    with Cons.prems join_start [of "x # xs" "c # r"] show ?thesis
      by (metis append_Nil at_stop_simps(2) js_join.simps(1) list.distinct(1) list.simps(8))
  qed (rule that)
  let ?t = "\<lambda>us q. (if us = [] then c # q else 44 # js_join [44] (map enc us) @ c # q)"
  have split: "js_join [44] (map enc (u # us)) @ c # q = enc u @ ?t us q" for u us q
    by (cases us) simp_all
  have "at_stop (?t us q)" for us q using Cons.prems(3) by auto
  with Cons.prems ys have 1: "x = y" "?t xs r = ?t zs r'"
    using enc_cancel [of x y "?t xs r" "?t zs r'"] by (auto simp only: split list.set_intros)
  show ?case
  proof (cases "xs = [] \<or> zs = []")
    case True
    with 1 Cons.prems(3) ys show ?thesis by (auto split: if_splits)
  next
    case False
    with 1 have "js_join [44] (map enc xs) @ c # r = js_join [44] (map enc zs) @ c # r'" by simp
    with Cons.IH [of zs] Cons.prems ys 1 show ?thesis by simp
  qed
qed

end

interpretation jq: delimited_code json_quote "\<lambda>_. True"
  by unfold_locales (use json_quote_prefix_free in blast, simp add: json_quote_def)

end
