(* ===== verification/Canonical_Json.thy ===== *)
theory Canonical_Json
  imports Json_Text
begin

text \<open>
  The canonical text of tool arguments (\<open>canonicalJson\<close> and \<open>securityRelevantArgs\<close> in
  \<open>src/utils/destructive-gate.ts\<close>), the text whose keyed hash binds a human approval to one
  destructive call. The main result is that this text identifies the arguments: two argument
  values have the same canonical text exactly when they are the same JSON value up to the order
  of object keys, where a property with the value undefined counts as absent.
\<close>

section \<open>The code\<close>

fun canonical_json :: "jsval \<Rightarrow> jsstring" where
  "canonical_json Undefined = js ''null''"
| "canonical_json Null = js ''null''"
| "canonical_json (Bool b) = (if b then js ''true'' else js ''false'')"
| "canonical_json (Num n) = (case n of Fin _ _ _ \<Rightarrow> number_text n | _ \<Rightarrow> js ''null'')"
| "canonical_json (Str s) = json_quote s"
| "canonical_json (Arr vs) = [91] @ js_join [44] (map canonical_json vs) @ [93]"
| "canonical_json (Obj ps) =
     [123] @
     js_join [44]
       (map (\<lambda>(k, t). json_quote k @ [58] @ t)
         (sort_key fst
           (map (\<lambda>(k, v). (k, canonical_json v)) (filter (\<lambda>(k, v). v \<noteq> Undefined) ps)))) @
     [125]"

definition securityRelevantArgs :: "jsprops \<Rightarrow> jsprops" where
  "securityRelevantArgs args = filter (\<lambda>(k, v). k \<noteq> js ''confirm'') args"

section \<open>Canonical values\<close>

text \<open>The value that the canonical text denotes, and the plain printer of such values.\<close>

fun canon :: "jsval \<Rightarrow> jsval" where
  "canon Undefined = Null"
| "canon Null = Null"
| "canon (Bool b) = Bool b"
| "canon (Num n) = (case n of Fin _ _ _ \<Rightarrow> Num (norm_num n) | _ \<Rightarrow> Null)"
| "canon (Str s) = Str s"
| "canon (Arr vs) = Arr (map canon vs)"
| "canon (Obj ps) =
     Obj (sort_key fst (map (\<lambda>(k, v). (k, canon v)) (filter (\<lambda>(k, v). v \<noteq> Undefined) ps)))"

fun plain_print :: "jsval \<Rightarrow> jsstring" where
  "plain_print Undefined = js ''null''"
| "plain_print Null = js ''null''"
| "plain_print (Bool b) = (if b then js ''true'' else js ''false'')"
| "plain_print (Num n) = number_text n"
| "plain_print (Str s) = json_quote s"
| "plain_print (Arr vs) = [91] @ js_join [44] (map plain_print vs) @ [93]"
| "plain_print (Obj ps) =
     [123] @ js_join [44] (map (\<lambda>(k, v). json_quote k @ [58] @ plain_print v) ps) @ [125]"

definition printable_num :: "jsnum \<Rightarrow> bool" where
  "printable_num n \<longleftrightarrow> (case n of Fin _ _ _ \<Rightarrow> wf_num n \<and> norm_num n = n | _ \<Rightarrow> False)"

fun printable :: "jsval \<Rightarrow> bool" where
  "printable Undefined = False"
| "printable (Num n) = printable_num n"
| "printable (Arr vs) = (\<forall>v \<in> set vs. printable v)"
| "printable (Obj ps) = (\<forall>p \<in> set ps. printable (snd p))"
| "printable v = True"

fun wf_val :: "jsval \<Rightarrow> bool" where
  "wf_val (Num n) = wf_num n"
| "wf_val (Arr vs) = (\<forall>v \<in> set vs. wf_val v)"
| "wf_val (Obj ps) = (\<forall>p \<in> set ps. wf_val (snd p))"
| "wf_val v = True"

lemma insort_key_map_snd:
  "insort_key fst (k, f v) (map (\<lambda>(k, v). (k, f v)) qs)
     = map (\<lambda>(k, v). (k, f v)) (insort_key fst (k, v) qs)"
  by (induction qs) auto

lemma sort_key_map_snd:
  "sort_key fst (map (\<lambda>(k, v). (k, f v)) ps) = map (\<lambda>(k, v). (k, f v)) (sort_key fst ps)"
  by (induction ps) (auto simp: sort_key_def insort_key_map_snd)

lemma size_elem: "x \<in> set vs \<Longrightarrow> size x < size (Arr vs)"
  by (simp add: less_Suc_eq_le size_list_estimation')

lemma size_member: "p \<in> set ps \<Longrightarrow> size (snd p) < size (Obj ps)"
  by (cases p) (force simp: less_Suc_eq_le intro: size_list_estimation')

lemma number_text_norm: "wf_num n \<Longrightarrow> number_text (norm_num n) = number_text n"
  by (cases n) (auto simp: norm_num_def number_text_Fin wf_num_def)

lemma canonical_json_prints_canon: "wf_val v \<Longrightarrow> canonical_json v = plain_print (canon v)"
proof (induction v rule: canonical_json.induct)
  case (4 n)
  then show ?case by (cases n) (simp_all add: number_text_norm)
next
  case (6 vs)
  then have "map canonical_json vs = map plain_print (map canon vs)" by simp
  then show ?case by (simp only: canonical_json.simps canon.simps plain_print.simps)
next
  case (7 ps)
  let ?qs = "filter (\<lambda>(k, v). v \<noteq> Undefined) ps"
  have "canonical_json v = plain_print (canon v)" if "(k, v) \<in> set ?qs" for k v
    using 7 that by fastforce
  then have "map (\<lambda>(k, v). (k, canonical_json v)) ?qs = map (\<lambda>(k, v). (k, plain_print (canon v))) ?qs"
    by (intro map_cong) auto
  then have "canonical_json (Obj ps) = [123] @ js_join [44]
      (map (\<lambda>(k, t). json_quote k @ [58] @ t) (map (\<lambda>(k, v). (k, plain_print (canon v))) (sort_key fst ?qs)))
      @ [125]"
    by (simp only: canonical_json.simps sort_key_map_snd)
  also have "\<dots> = plain_print (canon (Obj ps))"
    by (simp only: canon.simps plain_print.simps sort_key_map_snd) (simp add: case_prod_unfold comp_def)
  finally show ?case .
qed simp_all

lemma printable_num_norm: "wf_num n \<Longrightarrow> n = Fin neg s e \<Longrightarrow> printable_num (norm_num n)"
  by (auto simp: printable_num_def norm_num_def wf_num_def)

lemma printable_canon: "wf_val v \<Longrightarrow> printable (canon v)"
proof (induction v rule: canon.induct)
  case (4 n)
  then show ?case by (cases n) (auto intro: printable_num_norm)
qed auto

section \<open>The plain text identifies the value\<close>

lemma set_if_subset: "set x \<subseteq> S \<Longrightarrow> set y \<subseteq> S \<Longrightarrow> set (if b then x else y) \<subseteq> S"
  by simp

lemma digit_parts:
  "c \<in> set (take k (decimal m)) \<Longrightarrow> is_digit c" "c \<in> set (drop k (decimal m)) \<Longrightarrow> is_digit c"
  using decimal_digits in_set_takeD in_set_dropD by metis+

lemma unsigned_text_units: "set (unsigned_text s e) \<subseteq> {c. is_digit c} \<union> {43, 45, 46, 101}"
proof -
  have "is_digit 48" by (simp add: is_digit_def)
  then show ?thesis
    unfolding unsigned_text_def Let_def
    by (intro set_if_subset) (auto dest: decimal_digits digit_parts split: if_split_asm
        simp del: decimal_small decimal_large)
qed

lemma number_text_units: "c \<in> set (number_text (Fin neg s e)) \<Longrightarrow> c \<notin> {44, 93, 125}"
  using unsigned_text_units [of s e]
  by (auto simp: number_text_Fin is_digit_def split: if_splits)

lemma number_text_cancel:
  assumes "printable_num m" "printable_num n" "at_stop r" "at_stop r'"
    "number_text m @ r = number_text n @ r'"
  shows "m = n \<and> r = r'"
proof -
  let ?p = "\<lambda>c. c \<notin> {44::nat, 93, 125}"
  obtain a s e b t f where mn: "m = Fin a s e" "n = Fin b t f"
    using assms by (auto simp: printable_num_def split: jsnum.splits)
  have whole: "takeWhile ?p (number_text (Fin x y z) @ u) = number_text (Fin x y z)"
    if "at_stop u" for x y z u
  proof -
    have "\<forall>c \<in> set (number_text (Fin x y z)). ?p c" using number_text_units by blast
    moreover have "takeWhile ?p u = []" using that by (cases u) auto
    ultimately show ?thesis by (simp add: takeWhile_append2)
  qed
  have t: "number_text m = number_text n"
    using whole [OF assms(3), of a s e] whole [OF assms(4), of b t f] assms(5) mn by simp
  have wf: "wf_num m" "norm_num m = m" "wf_num n" "norm_num n = n"
    using assms(1,2) mn by (simp_all add: printable_num_def)
  have "norm_num (Fin a s e) = norm_num (Fin b t f)"
    using wf(1,3) t unfolding mn by (rule number_text_inject)
  with wf assms(5) t mn show ?thesis by (simp only: same_append_eq append_same_eq)
qed

lemma number_text_start: "printable_num n \<Longrightarrow> \<exists>c cs. number_text n = c # cs \<and> (c = 45 \<or> is_digit c)"
proof -
  assume "printable_num n"
  then obtain a s e where n: "n = Fin a s e" by (auto simp: printable_num_def split: jsnum.splits)
  obtain c cs where "unsigned_text s e = c # cs" "is_digit c"
    using unsigned_text_head [of s e] by (cases "unsigned_text s e") auto
  then show ?thesis using n by (auto simp: number_text_Fin is_digit_def)
qed

lemma printable_member_code:
  assumes "delimited_code plain_print P"
  shows "delimited_code (\<lambda>(k, v). json_quote k @ [58] @ plain_print v) (\<lambda>p. P (snd p))"
proof
  fix a b :: "jsstring \<times> jsval" and r r'
  assume "P (snd a)" "P (snd b)" "at_stop r" "at_stop r'"
    "(case a of (k, v) \<Rightarrow> json_quote k @ [58] @ plain_print v) @ r =
     (case b of (k, v) \<Rightarrow> json_quote k @ [58] @ plain_print v) @ r'"
  then show "a = b \<and> r = r'"
    using delimited_code.enc_cancel [OF assms, of "snd a" "snd b" r r']
      json_quote_prefix_free [of "fst a" "58 # plain_print (snd a) @ r" "fst b" "58 # plain_print (snd b) @ r'"]
    by (cases a; cases b) auto
qed (auto simp: json_quote_def)

text \<open>The first code unit of the text tells the constructor.\<close>

definition tag_of :: "jsval \<Rightarrow> nat" where
  "tag_of v = (case v of Null \<Rightarrow> 0 | Undefined \<Rightarrow> 0 | Bool b \<Rightarrow> if b then 1 else 2 | Num _ \<Rightarrow> 3
     | Str _ \<Rightarrow> 4 | Arr _ \<Rightarrow> 5 | Obj _ \<Rightarrow> 6)"

definition unit_tag :: "nat \<Rightarrow> nat" where
  "unit_tag c = (if c = 110 then 0 else if c = 116 then 1 else if c = 102 then 2 else if c = 34 then 4
     else if c = 91 then 5 else if c = 123 then 6 else 3)"

lemma plain_print_start:
  assumes "printable v"
  shows "\<exists>c cs. plain_print v = c # cs \<and> unit_tag c = tag_of v \<and> c \<notin> {44, 93, 125}"
proof (cases v)
  case (Num n)
  with assms obtain c cs where "number_text n = c # cs" "c = 45 \<or> is_digit c"
    using number_text_start [of n] by auto
  with Num show ?thesis
    by (intro exI [of _ c] exI [of _ cs]) (auto simp: unit_tag_def tag_of_def is_digit_def)
qed (use assms in \<open>auto simp: unit_tag_def tag_of_def js_def json_quote_def\<close>)

lemma plain_print_code: "delimited_code plain_print (\<lambda>v. printable v \<and> size v < n)"
proof (induction n)
  case 0
  show ?case by unfold_locales simp_all
next
  case (Suc n)
  note code = Suc.IH and mcode = printable_member_code [OF Suc.IH]
  show ?case
  proof
    fix v w r r'
    assume v: "printable v \<and> size v < Suc n" and w: "printable w \<and> size w < Suc n"
      and stop: "at_stop r" "at_stop r'" and eq: "plain_print v @ r = plain_print w @ r'"
    from v w eq have tag: "tag_of v = tag_of w"
      using plain_print_start [of v] plain_print_start [of w] by auto
    show "v = w \<and> r = r'"
    proof (cases v)
      case (Num m)
      with tag w obtain m' where "w = Num m'" by (cases w) (auto simp: tag_of_def split: if_splits)
      with Num v w stop eq show ?thesis using number_text_cancel [of m m' r r'] by simp
    next
      case (Str s)
      with tag w obtain t where "w = Str t" by (cases w) (auto simp: tag_of_def split: if_splits)
      with Str eq show ?thesis using json_quote_prefix_free [of s r t r'] by simp
    next
      case (Arr vs)
      with tag w obtain ws where ws: "w = Arr ws" by (cases w) (auto simp: tag_of_def split: if_splits)
      have "\<forall>x \<in> set vs. printable x \<and> size x < n" "\<forall>x \<in> set ws. printable x \<and> size x < n"
        using v w Arr ws size_elem [of _ vs] size_elem [of _ ws] by (simp_all, force+)
      from delimited_code.join_cancel [OF code this, of 93 r r'] show ?thesis
        using eq Arr ws by simp
    next
      case (Obj ps)
      with tag w obtain qs where qs: "w = Obj qs" by (cases w) (auto simp: tag_of_def split: if_splits)
      have "\<forall>p \<in> set ps. printable (snd p) \<and> size (snd p) < n" "\<forall>p \<in> set qs. printable (snd p) \<and> size (snd p) < n"
        using v w Obj qs size_member [of _ ps] size_member [of _ qs] by (simp_all, force+)
      from delimited_code.join_cancel [OF mcode this, of 125 r r'] show ?thesis
        using eq Obj qs by simp
    next
      case Null
      with tag w have "w = Null" by (cases w) (auto simp: tag_of_def split: if_splits)
      with Null eq show ?thesis by simp
    next
      case (Bool b)
      with tag w have "w = Bool b" by (cases w) (auto simp: tag_of_def split: if_splits)
      with Bool eq show ?thesis by simp
    next
      case Undefined
      with v show ?thesis by simp
    qed
  next
    fix v r
    assume "printable v \<and> size v < Suc n"
    then show "\<not> at_stop (plain_print v @ r)"
      using plain_print_start [of v] by auto
  qed
qed

section \<open>The canonical text identifies the value\<close>

lemma plain_print_inject:
  assumes "printable v" "printable w" "plain_print v = plain_print w"
  shows "v = w"
proof -
  have "delimited_code plain_print (\<lambda>u. printable u \<and> size u < Suc (size v + size w))"
    by (rule plain_print_code)
  from delimited_code.enc_inject [OF this, of v w] assms show ?thesis by simp
qed

lemma canonical_json_inject:
  assumes "wf_val v" "wf_val w"
  shows "canonical_json v = canonical_json w \<longleftrightarrow> canon v = canon w"
  using assms canonical_json_prints_canon printable_canon plain_print_inject by metis

text \<open>What equality of canonical values says of two objects with distinct keys.\<close>

definition present :: "jsprops \<Rightarrow> jsstring \<Rightarrow> jsval option" where
  "present ps k = (case map_of ps k of Some v \<Rightarrow> if v = Undefined then None else Some v | None \<Rightarrow> None)"

lemma sorted_alist_eq_iff:
  assumes "distinct (map fst P)" "distinct (map fst Q)"
  shows "sort_key fst P = sort_key fst Q \<longleftrightarrow> map_of P = map_of Q"
proof
  assume "sort_key fst P = sort_key fst Q"
  then have "set P = set Q" by (metis set_sort)
  with assms show "map_of P = map_of Q" by (simp add: map_of_inject_set)
next
  assume "map_of P = map_of Q"
  with assms have s: "set P = set Q" by (simp add: map_of_inject_set)
  have d: "distinct (map fst (sort_key fst P))" "distinct (map fst (sort_key fst Q))"
    using assms by (simp_all add: distinct_map)
  show "sort_key fst P = sort_key fst Q"
    by (rule map_sorted_distinct_set_unique [of fst]) (use d s assms in \<open>auto simp: distinct_map\<close>)
qed

lemma present_map_of:
  assumes "distinct (map fst ps)"
  shows "map_of (map (\<lambda>(k, v). (k, canon v)) (filter (\<lambda>(k, v). v \<noteq> Undefined) ps)) k
    = map_option canon (present ps k)"
  using assms
proof (induction ps)
  case (Cons p ps)
  have "map_of qs k = None" if "k \<notin> fst ` set qs" for qs :: jsprops
    using that by (simp add: map_of_eq_None_iff)
  with Cons show ?case
    by (cases p) (auto simp: present_def image_iff split: option.splits)
qed (simp add: present_def)

lemma canon_obj_eq:
  assumes "distinct (map fst ps)" "distinct (map fst qs)"
  shows "canon (Obj ps) = canon (Obj qs) \<longleftrightarrow>
    (\<forall>k. map_option canon (present ps k) = map_option canon (present qs k))"
proof -
  let ?c = "\<lambda>ps. map (\<lambda>(k, v). (k, canon v)) (filter (\<lambda>(k, v). v \<noteq> Undefined) ps)"
  have d: "distinct (map fst (?c ps))" if "distinct (map fst ps)" for ps :: jsprops
  proof -
    have "map fst (?c ps) = map fst (filter (\<lambda>(k, v). v \<noteq> Undefined) ps)"
      by (simp add: case_prod_unfold comp_def)
    then show ?thesis by (simp only: distinct_map_filter that)
  qed
  have "canon (Obj ps) = canon (Obj qs) \<longleftrightarrow> map_of (?c ps) = map_of (?c qs)"
    using sorted_alist_eq_iff [OF d d] assms by simp
  then show ?thesis
    using assms by (simp add: fun_eq_iff present_map_of)
qed

end
