(* ===== verification/B2_Types.thy ===== *)
theory B2_Types
  imports Js_Prelude
begin

text \<open>
  The shared data of the server: the runtime configuration (\<open>B2Config\<close> in
  \<open>src/utils/types.ts\<close>), the normalized error (\<open>B2ApiError\<close> in \<open>src/utils/errors.ts\<close>) with the
  builders of deliberate refusals. Optional fields are \<open>option\<close>s; fields of a closed string type
  that the code re-checks at run time are kept as the string that is checked.
\<close>

datatype secret_sink = SinkFile jsstring | SinkInline | SinkOff "jsstring option"

datatype transport = Stdio | Http

record b2_config =
  applicationKeyId :: jsstring
  applicationKey :: jsstring
  appKeyId :: jsstring
  appKey :: jsstring
  masterKeyId :: jsstring
  masterKey :: jsstring
  region :: jsstring
  allowLocalFiles :: bool
  fileRoot :: "jsstring option"
  destructivePolicy :: "jsstring option"
  outputFormat :: "jsstring option"
  transport :: "transport option"
  secretSink :: "secret_sink option"
  credentialFingerprint :: "jsstring option"
  callerFingerprint :: "jsstring option"
  enableMcpPrompts :: "bool option"

record api_error =
  status :: nat
  code :: jsstring
  message :: jsstring
  requestId :: "jsstring option"
  extendedRequestId :: "jsstring option"

definition codedError :: "nat \<Rightarrow> jsstring \<Rightarrow> jsstring \<Rightarrow> api_error" where
  "codedError st c m =
     \<lparr>status = st, code = c, message = m, requestId = None, extendedRequestId = None\<rparr>"

definition badRequestError :: "jsstring \<Rightarrow> api_error" where
  "badRequestError m = codedError 400 (js ''bad_request'') m"

lemma codedError_simps [simp]:
  "status (codedError st c m) = st" "code (codedError st c m) = c"
  "message (codedError st c m) = m" "requestId (codedError st c m) = None"
  by (simp_all add: codedError_def)

text \<open>
  The parts that both keyed secrets of the destructive gate are made of: the non-empty string
  parts joined by a zero unit.
\<close>

definition key_material :: "b2_config \<Rightarrow> jsstring" where
  "key_material c =
     js_join [0]
       (filter (\<lambda>p. p \<noteq> [])
         ([applicationKey c, appKey c, masterKey c] @
          (case credentialFingerprint c of None \<Rightarrow> [] | Some f \<Rightarrow> [f])))"

end
