(* ===== verification/Destructive_Gate.thy ===== *)
theory Destructive_Gate
  imports Canonical_Json B2_Types
begin

text \<open>
  The policy gate for destructive operations (\<open>src/utils/destructive-gate.ts\<close>): the detector
  table that decides which concrete calls are destructive, the effective policy, the keyed
  digest of the call's target and \<open>checkDestructive\<close>, which every destructive handler calls
  first. The consent that the elicitation wrapper installs in an \<open>AsyncLocalStorage\<close> is an
  argument here. The keyed hash (\<open>createHmac("sha256", key)\<close> of Node's \<open>crypto\<close>) is a parameter
  \<open>hmac key message\<close>.

  A detector may throw: the source casts untyped arguments and reads members of the elements.
\<close>

section \<open>Detectors\<close>

type_synonym detector = "jsprops \<Rightarrow> js_throw + jsstring option"

definition always :: "string \<Rightarrow> detector" where
  "always e = (\<lambda>args. Inr (Some (js e)))"

definition reasons_effect :: "jsstring list \<Rightarrow> js_throw + jsstring option" where
  "reasons_effect reasons = Inr (if reasons \<noteq> [] then Some (js_join (js '' and '') reasons) else None)"

text \<open>\<open>v && v.mode === null\<close>: present, and its \<open>mode\<close> is null.\<close>

definition mode_cleared :: "jsval \<Rightarrow> bool" where
  "mode_cleared v \<longleftrightarrow> truthy v \<and> member_get v (js ''mode'') = Inr Null"

text \<open>\<open>xs.some(p)\<close> for a callback that may throw.\<close>

fun js_some :: "('a \<Rightarrow> js_throw + bool) \<Rightarrow> 'a list \<Rightarrow> js_throw + bool" where
  "js_some p [] = Inr False"
| "js_some p (x # xs) =
     (case p x of Inl e \<Rightarrow> Inl e | Inr b \<Rightarrow> if b then Inr True else js_some p xs)"

text \<open>\<open>r.k != null\<close>\<close>

definition member_present :: "jsstring \<Rightarrow> jsval \<Rightarrow> js_throw + bool" where
  "member_present k r = map_sum id (\<lambda>v. \<not> nullish v) (member_get r k)"

definition js_or :: "js_throw + bool \<Rightarrow> js_throw + bool \<Rightarrow> js_throw + bool" where
  "js_or a b = (case a of Inl e \<Rightarrow> Inl e | Inr x \<Rightarrow> if x then Inr True else b)"

definition detect_delete_objects :: detector where
  "detect_delete_objects args =
     (if prop_get args (js ''bypassGovernance'') = Bool True
      then Inr (Some (js ''permanently delete multiple objects and bypass governance-mode Object Lock retention (irreversible)''))
      else Inr (Some (js ''permanently delete multiple objects (irreversible)'')))"

definition detect_presigned_url :: detector where
  "detect_presigned_url args =
     (if prop_get args (js ''operation'') = Str (js ''PutObject'')
      then Inr (Some (js ''mint a PutObject presigned URL bearer capability that can create or overwrite object data''))
      else Inr None)"

definition detect_file_retention :: detector where
  "detect_file_retention args =
     reasons_effect
       ((if mode_cleared (prop_get args (js ''fileRetention''))
         then [js ''remove Object Lock retention from a file''] else []) @
        (if prop_get args (js ''bypassGovernance'') = Bool True
         then [js ''bypass governance-mode retention''] else []))"

definition detect_legal_hold :: detector where
  "detect_legal_hold args =
     (if prop_get args (js ''legalHold'') = Str (js ''off'')
      then Inr (Some (js ''remove a legal hold, making the file deletable again''))
      else Inr None)"

definition rule_deletes :: "jsval \<Rightarrow> js_throw + bool" where
  "rule_deletes r =
     js_or (member_present (js ''expiration'') r) (member_present (js ''noncurrentVersionExpiration'') r)"

text \<open>\<open>v.length === 0\<close>\<close>

fun length_is_zero :: "jsval \<Rightarrow> bool" where
  "length_is_zero (Arr xs) = (xs = [])"
| "length_is_zero (Str s) = (s = [])"
| "length_is_zero (Obj ps) =
     (case prop_get ps (js ''length'') of Num (Fin neg s e) \<Rightarrow> s = 0 | _ \<Rightarrow> False)"
| "length_is_zero v = False"

definition detect_lifecycle :: detector where
  "detect_lifecycle args =
     (let rules = (if nullish (prop_get args (js ''rules'')) then Arr [] else prop_get args (js ''rules''))
      in if length_is_zero rules
         then Inr (Some (js ''clear the bucket's entire S3 lifecycle configuration, removing cleanup and expiration governance''))
         else (case rules of
             Arr rs \<Rightarrow> map_sum id (\<lambda>deletes. if deletes
                 then Some (js ''set a lifecycle rule that schedules deletion/expiration of objects (irreversible once it runs)'')
                 else None) (js_some rule_deletes rs)
           | _ \<Rightarrow> Inl TypeError))"

definition detect_update_bucket :: detector where
  "detect_update_bucket args =
     (let reasons1 =
          (if prop_get args (js ''bucketType'') = Str (js ''allPublic'')
           then [js ''make the bucket PUBLIC (world-readable)''] else []) @
          (if prop_get args (js ''fileLockEnabled'') = Bool False then [js ''disable Object Lock''] else []) @
          (if mode_cleared (prop_get args (js ''defaultRetention''))
           then [js ''clear the bucket's default Object Lock retention''] else []);
        schedules = (case prop_get args (js ''lifecycleRules'') of
            Arr rs \<Rightarrow> js_some (member_present (js ''daysFromHidingToDeleting'')) rs
          | _ \<Rightarrow> Inr False);
        replicates = prop_get args (js ''replicationConfiguration'') \<noteq> Undefined
      in case schedules of
           Inl e \<Rightarrow> Inl e
         | Inr s \<Rightarrow>
             reasons_effect
               (reasons1 @
                (if s then [js ''set a lifecycle rule that schedules permanent deletion of objects''] else []) @
                (if replicates
                 then [js ''set bucket replication rules that can copy objects to another bucket''] else [])))"

definition DETECTORS :: "(jsstring \<times> detector) list" where
  "DETECTORS =
    [(js ''b2_delete_bucket'', always ''permanently delete a bucket''),
     (js ''s3_delete_object'', always ''permanently delete an object''),
     (js ''s3_delete_objects'', detect_delete_objects),
     (js ''s3_get_presigned_url'', detect_presigned_url),
     (js ''s3_abort_multipart_upload'',
        always ''abort a multipart upload, discarding uploaded parts (irreversible)''),
     (js ''b2_delete_key'',
        always ''permanently delete an application key (anything using it loses access immediately)''),
     (js ''b2_create_key'', always ''create a durable application key credential''),
     (js ''b2_eject_group_member'',
        always ''eject a Group member (locks them out; the account cannot be re-added via API)''),
     (js ''b2_create_group_member'',
        always ''create a real, non-deletable Backblaze account (irreversible; eject cannot remove it; has billing impact)''),
     (js ''b2_reserve_trial_create_account'',
        always ''create a real trial Backblaze account (irreversible; has billing impact)''),
     (js ''b2_update_file_retention'', detect_file_retention),
     (js ''b2_update_file_legal_hold'', detect_legal_hold),
     (js ''s3_put_bucket_lifecycle'', detect_lifecycle),
     (js ''b2_update_bucket'', detect_update_bucket),
     (js ''b2_set_bucket_notification_rules'',
        always ''replace persistent bucket event notification webhook rules'')]"

definition DESTRUCTIVE_TOOL_NAMES :: "jsstring list" where
  "DESTRUCTIVE_TOOL_NAMES = sort (map fst DETECTORS)"

text \<open>
  \<open>toolName in DETECTORS\<close> and \<open>DETECTORS[toolName]\<close> are modelled for names that
  \<open>Object.prototype\<close> does not define (\<open>in\<close> also holds for \<open>toString\<close> and the like).
\<close>

definition isDestructiveTool :: "jsstring \<Rightarrow> bool" where
  "isDestructiveTool toolName \<longleftrightarrow> map_of DETECTORS toolName \<noteq> None"

definition destructiveEffect :: "jsstring \<Rightarrow> jsprops \<Rightarrow> js_throw + jsstring option" where
  "destructiveEffect toolName args =
     (case map_of DETECTORS toolName of None \<Rightarrow> Inr None | Some d \<Rightarrow> d args)"

section \<open>Consent and policy\<close>

record consent =
  c_toolName :: jsstring
  c_argsDigest :: jsstring

type_synonym keyed_hash = "jsstring \<Rightarrow> jsstring \<Rightarrow> jsstring"

definition runWithDestructiveElicitationConsent ::
    "jsstring \<Rightarrow> jsstring \<Rightarrow> (consent option \<Rightarrow> 'a) \<Rightarrow> 'a" where
  "runWithDestructiveElicitationConsent toolName argsDigest callback =
     callback (Some \<lparr>c_toolName = toolName, c_argsDigest = argsDigest\<rparr>)"

definition hasDestructiveElicitationConsent :: "consent option \<Rightarrow> jsstring \<Rightarrow> jsstring \<Rightarrow> bool" where
  "hasDestructiveElicitationConsent store toolName argsDigest \<longleftrightarrow>
     (case store of None \<Rightarrow> False
      | Some c \<Rightarrow> c_toolName c = toolName \<and> c_argsDigest c = argsDigest)"

definition destructiveGateKey :: "b2_config \<Rightarrow> jsstring" where
  "destructiveGateKey config = key_material config"

definition destructiveTargetDigest :: "keyed_hash \<Rightarrow> b2_config \<Rightarrow> jsprops \<Rightarrow> jsstring" where
  "destructiveTargetDigest hmac config args =
     hmac (destructiveGateKey config)
       (js ''b2-mcp-destructive-target-args'' @ [0] @ canonical_json (Obj (securityRelevantArgs args)))"

datatype policy = Allow | Confirm | Block | Elicit

definition getDestructivePolicy :: "b2_config \<Rightarrow> policy" where
  "getDestructivePolicy config =
     (if destructivePolicy config = Some (js ''allow'') then Allow
      else if destructivePolicy config = Some (js ''block'') then Block
      else if destructivePolicy config = Some (js ''elicit'') then Elicit
      else Confirm)"

datatype gate_result = GateAllowed | GateBlocked api_error

definition blocked_message :: "jsstring \<Rightarrow> jsstring" where
  "blocked_message effect =
     js ''Refused: this would '' @ effect @ js ''. Destructive operations are blocked on this '' @
     js ''server (B2_DESTRUCTIVE_POLICY=block).''"

definition elicit_message :: "jsstring \<Rightarrow> jsstring" where
  "elicit_message effect =
     js ''Refused: this would '' @ effect @ js '' '' @ [8212] @ js '' a destructive/irreversible action. '' @
     js ''This server's policy (B2_DESTRUCTIVE_POLICY=elicit) requires an accepted MCP '' @
     js ''elicitation response for this specific action; a model-supplied confirmation '' @
     js ''cannot satisfy it, and the action is refused when no such response can be '' @
     js ''obtained. Report this refusal and the effect above to the human operator.''"

definition confirm_message :: "jsstring \<Rightarrow> jsstring" where
  "confirm_message effect =
     js ''Refused: this would '' @ effect @ js '' '' @ [8212] @ js '' a destructive/irreversible action. '' @
     js ''This server's policy (B2_DESTRUCTIVE_POLICY=confirm) expects a human operator, '' @
     js ''not the calling model, to approve this specific action before it runs. '' @
     js ''Report this refusal and the effect above to the human operator and let them '' @
     js ''decide; do not approve it on their behalf.''"

definition checkDestructive ::
    "keyed_hash \<Rightarrow> consent option \<Rightarrow> jsstring \<Rightarrow> jsprops \<Rightarrow> b2_config \<Rightarrow> js_throw + gate_result" where
  "checkDestructive hmac store toolName args config =
     (case destructiveEffect toolName args of
        Inl e \<Rightarrow> Inl e
      | Inr None \<Rightarrow> Inr GateAllowed
      | Inr (Some effect) \<Rightarrow>
          if effect = [] then Inr GateAllowed
          else
            (let policy = getDestructivePolicy config
             in if policy = Allow then Inr GateAllowed
                else if policy = Block
                  then Inr (GateBlocked (codedError 403 (js ''destructive_policy_blocked'') (blocked_message effect)))
                else if hasDestructiveElicitationConsent store toolName (destructiveTargetDigest hmac config args)
                  then Inr GateAllowed
                else if policy = Elicit
                  then Inr (GateBlocked (codedError 409 (js ''destructive_confirmation_refused'') (elicit_message effect)))
                else if prop_get args (js ''confirm'') = Bool True
                  then Inr GateAllowed
                else Inr (GateBlocked (codedError 409 (js ''destructive_confirmation_required'') (confirm_message effect)))))"

section \<open>Facts about the detectors\<close>

text \<open>
  The part of the arguments that a decision may depend on apart from \<open>confirm\<close>: two argument
  objects that agree on every other property have the same effect and the same digest.
\<close>

definition agree_but_confirm :: "jsprops \<Rightarrow> jsprops \<Rightarrow> bool" where
  "agree_but_confirm a b \<longleftrightarrow> (\<forall>k. k \<noteq> js ''confirm'' \<longrightarrow> prop_get a k = prop_get b k)"

lemma agree_get: "agree_but_confirm a b \<Longrightarrow> k \<noteq> ''confirm'' \<Longrightarrow> prop_get a (js k) = prop_get b (js k)"
  by (simp add: agree_but_confirm_def)

lemmas detector_defs = always_def detect_delete_objects_def detect_presigned_url_def
  detect_file_retention_def detect_legal_hold_def detect_lifecycle_def detect_update_bucket_def

lemma DETECTORS_agree:
  assumes "(t, d) \<in> set DETECTORS" "agree_but_confirm a b"
  shows "d a = d b"
  using assms(1) by (auto simp: DETECTORS_def detector_defs agree_get [OF assms(2)] Let_def)

lemma destructiveEffect_agree:
  "agree_but_confirm a b \<Longrightarrow> destructiveEffect t a = destructiveEffect t b"
  by (auto simp: destructiveEffect_def split: option.splits dest: map_of_SomeD intro: DETECTORS_agree)

lemma agree_set_confirm: "agree_but_confirm (map_set (js ''confirm'') v args) args"
  using map_get_set [of "js ''confirm''" v args]
  by (simp add: agree_but_confirm_def prop_get_def map_get_def [abs_def])

lemma relevant_set_confirm:
  "securityRelevantArgs (map_set (js ''confirm'') v args) = securityRelevantArgs args"
  by (induction "js ''confirm''" v args rule: map_set.induct) (auto simp: securityRelevantArgs_def)

lemma digest_set_confirm:
  "destructiveTargetDigest hmac config (map_set (js ''confirm'') v args)
     = destructiveTargetDigest hmac config args"
  by (simp add: destructiveTargetDigest_def relevant_set_confirm)

lemma js_some_bool: "js_some p xs = Inr b \<Longrightarrow> b \<longleftrightarrow> (\<exists>x \<in> set xs. p x = Inr True)"
  by (induction xs) (auto split: sum.splits if_splits)

lemma js_some_total:
  "\<forall>x \<in> set xs. p x = Inr (q x) \<Longrightarrow> js_some p xs = Inr (\<exists>x \<in> set xs. q x)"
  by (induction xs) auto

lemma reasons_effect_some: "reasons_effect rs = Inr (Some e) \<longleftrightarrow> rs \<noteq> [] \<and> e = js_join (js '' and '') rs"
  by (auto simp: reasons_effect_def)

lemma js_join_nonempty: "x \<in> set xs \<Longrightarrow> x \<noteq> [] \<Longrightarrow> js_join sep xs \<noteq> []"
  by (induction sep xs rule: js_join.induct) auto

section \<open>What a digest binds\<close>

text \<open>
  The same destructive target: the two argument objects are the same JSON object up to the
  order of keys, undefined properties and the \<open>confirm\<close> flag.
\<close>

definition same_target :: "jsprops \<Rightarrow> jsprops \<Rightarrow> bool" where
  "same_target a b \<longleftrightarrow> canon (Obj (securityRelevantArgs a)) = canon (Obj (securityRelevantArgs b))"

text \<open>
  The keyed hash is a parameter. Where it may confuse two targets the statements name the two texts that
  collide under the key of the configuration.
\<close>

definition target_message :: "jsprops \<Rightarrow> jsstring" where
  "target_message args =
     js ''b2-mcp-destructive-target-args'' @ [0] @ canonical_json (Obj (securityRelevantArgs args))"

definition hmac_collision :: "keyed_hash \<Rightarrow> b2_config \<Rightarrow> jsprops \<Rightarrow> jsprops \<Rightarrow> bool" where
  "hmac_collision hmac config a b \<longleftrightarrow>
     target_message a \<noteq> target_message b \<and>
     hmac (destructiveGateKey config) (target_message a) = hmac (destructiveGateKey config) (target_message b)"

definition wf_args :: "jsprops \<Rightarrow> bool" where
  "wf_args args \<longleftrightarrow> distinct (map fst args) \<and> wf_val (Obj args)"

lemma wf_relevant: "wf_args args \<Longrightarrow> wf_val (Obj (securityRelevantArgs args))"
  by (auto simp: wf_args_def securityRelevantArgs_def)

lemma present_relevant:
  "present (securityRelevantArgs args) k = (if k = js ''confirm'' then None else present args k)"
proof -
  have "map_of (securityRelevantArgs args) k = (if k = js ''confirm'' then None else map_of args k)"
    by (induction args) (auto simp: securityRelevantArgs_def)
  then show ?thesis by (simp add: present_def)
qed

lemma same_target_iff:
  assumes "wf_args a" "wf_args b"
  shows "same_target a b \<longleftrightarrow>
    (\<forall>k. k \<noteq> js ''confirm'' \<longrightarrow> map_option canon (present a k) = map_option canon (present b k))"
proof -
  have "distinct (map fst (securityRelevantArgs args))" if "wf_args args" for args
    using that by (simp add: wf_args_def securityRelevantArgs_def distinct_map_filter)
  from canon_obj_eq [OF this this] assms show ?thesis
    by (auto simp: same_target_def present_relevant)
qed

text \<open>
  The interface on which the elicitation wrapper relies: equal digests mean the same target,
  unless the hash has been broken.
\<close>

locale approval_binding =
  fixes digest :: "'a \<Rightarrow> jsstring"
    and valid :: "'a \<Rightarrow> bool"
    and same :: "'a \<Rightarrow> 'a \<Rightarrow> bool"
    and broken :: "'a \<Rightarrow> 'a \<Rightarrow> bool"
  assumes binds: "valid a \<Longrightarrow> valid b \<Longrightarrow> digest a = digest b \<Longrightarrow> same a b \<or> broken a b"
    and complete: "valid a \<Longrightarrow> valid b \<Longrightarrow> same a b \<Longrightarrow> digest a = digest b"
begin

lemma digest_eq_iff: "\<not> broken a b \<Longrightarrow> valid a \<Longrightarrow> valid b \<Longrightarrow> digest a = digest b \<longleftrightarrow> same a b"
  using binds complete by blast

lemma transfer:
  "valid a \<Longrightarrow> valid b \<Longrightarrow> d = digest a \<Longrightarrow> d = digest b \<Longrightarrow> same a b \<or> broken a b"
  using binds by simp

end

lemma digest_binds:
  assumes "wf_args a" "wf_args b"
    "destructiveTargetDigest hmac config a = destructiveTargetDigest hmac config b"
  shows "same_target a b \<or> hmac_collision hmac config a b"
proof (cases "target_message a = target_message b")
  case True
  then have "canonical_json (Obj (securityRelevantArgs a)) = canonical_json (Obj (securityRelevantArgs b))"
    by (simp add: target_message_def)
  then show ?thesis
    using canonical_json_inject [OF wf_relevant wf_relevant] assms(1,2)
    unfolding same_target_def by blast
next
  case False
  then show ?thesis
    using assms(3) by (simp add: hmac_collision_def destructiveTargetDigest_def target_message_def)
qed

lemma digest_complete:
  assumes "wf_args a" "wf_args b" "same_target a b"
  shows "destructiveTargetDigest hmac config a = destructiveTargetDigest hmac config b"
proof -
  have "canonical_json (Obj (securityRelevantArgs a)) = canonical_json (Obj (securityRelevantArgs b))"
    using canonical_json_inject [OF wf_relevant wf_relevant] assms by (simp only: same_target_def)
  then show ?thesis by (simp only: destructiveTargetDigest_def)
qed

interpretation target: approval_binding "destructiveTargetDigest hmac config" wf_args same_target
    "hmac_collision hmac config"
  by unfold_locales (use digest_binds in blast, use digest_complete in blast)

section \<open>Properties\<close>

text \<open>
  (C1) The gate's decision for a destructive call, complete: it is let through exactly under
  policy \<open>allow\<close>, or under \<open>confirm\<close> and \<open>elicit\<close> with an installed consent for this tool and
  this target digest, or under \<open>confirm\<close> alone with \<open>confirm: true\<close>; otherwise the refusal is 403
  under \<open>block\<close> and 409 else.
\<close>

theorem gate_decision:
  assumes "destructiveEffect t args = Inr (Some e)" "e \<noteq> []"
  shows "\<exists>r. checkDestructive hmac store t args config = Inr r \<and>
    (r = GateAllowed \<longleftrightarrow>
       getDestructivePolicy config = Allow \<or>
       getDestructivePolicy config \<in> {Confirm, Elicit} \<and>
         hasDestructiveElicitationConsent store t (destructiveTargetDigest hmac config args) \<or>
       getDestructivePolicy config = Confirm \<and> prop_get args (js ''confirm'') = Bool True) \<and>
    (r = GateAllowed \<or>
       (\<exists>m. r = GateBlocked (codedError
          (if getDestructivePolicy config = Block then 403 else 409)
          (case getDestructivePolicy config of
             Block \<Rightarrow> js ''destructive_policy_blocked''
           | Elicit \<Rightarrow> js ''destructive_confirmation_refused''
           | _ \<Rightarrow> js ''destructive_confirmation_required'') m)))"
  using assms by (cases "getDestructivePolicy config") (auto simp: checkDestructive_def)

definition sample_config :: b2_config where
  "sample_config =
     \<lparr>applicationKeyId = js ''id'', applicationKey = js ''K005secret'', appKeyId = [], appKey = [],
      masterKeyId = [], masterKey = [], region = js ''us-west-004'', allowLocalFiles = False,
      fileRoot = None, destructivePolicy = Some (js ''elicit''), outputFormat = None,
      transport = None, secretSink = None, credentialFingerprint = None, callerFingerprint = None,
      enableMcpPrompts = None\<rparr>"

definition sample_args :: jsprops where
  "sample_args = [(js ''bucketId'', Str (js ''b1'')), (js ''confirm'', Bool True)]"

lemma sample_policy: "getDestructivePolicy sample_config = Elicit"
  by (simp add: getDestructivePolicy_def sample_config_def)

lemma sample_effect:
  "destructiveEffect (js ''b2_delete_bucket'') args = Inr (Some (js ''permanently delete a bucket''))"
  by (simp add: destructiveEffect_def DETECTORS_def always_def)

lemma sample_wf: "wf_args sample_args"
  by (simp add: wf_args_def sample_args_def)

theorem gate_decision_witness:
  "checkDestructive (\<lambda>k m. k @ m) None (js ''b2_delete_bucket'') sample_args sample_config \<noteq> Inr GateAllowed"
  using gate_decision [OF sample_effect, of "\<lambda>k m. k @ m" None sample_args sample_config]
  by (auto simp: sample_policy hasDestructiveElicitationConsent_def)

text \<open>
  Under \<open>elicit\<close> the calling model cannot approve its own call: whatever value it puts in
  \<open>confirm\<close>, or leaves there, the decision is the same, and it is to refuse unless the wrapper has
  installed a consent for exactly this tool and target.
\<close>

theorem elicit_ignores_model_confirm:
  assumes "getDestructivePolicy config = Elicit"
    and "destructiveEffect t args = Inr (Some e)" "e \<noteq> []"
  shows "checkDestructive hmac store t (map_set (js ''confirm'') v args) config
      = checkDestructive hmac store t args config \<and>
    (checkDestructive hmac store t args config = Inr GateAllowed \<longleftrightarrow>
       store = Some \<lparr>c_toolName = t, c_argsDigest = destructiveTargetDigest hmac config args\<rparr>)"
proof -
  have "destructiveEffect t (map_set (js ''confirm'') v args) = destructiveEffect t args"
    by (rule destructiveEffect_agree [OF agree_set_confirm])
  with assms show ?thesis
    by (cases store) (auto simp: checkDestructive_def digest_set_confirm hasDestructiveElicitationConsent_def)
qed

theorem elicit_ignores_model_confirm_witness:
  "checkDestructive (\<lambda>k m. k @ m) None (js ''b2_delete_bucket'')
     (map_set (js ''confirm'') (Bool True) sample_args) sample_config \<noteq> Inr GateAllowed"
  using elicit_ignores_model_confirm [OF sample_policy sample_effect, of "\<lambda>k m. k @ m" None "Bool True" sample_args]
  by simp

text \<open>
  (C2) A human approval is worth one target: if a consent given for tool \<open>t\<close> with arguments \<open>a\<close>
  lets a destructive call of \<open>t'\<close> with arguments \<open>b\<close> through under \<open>elicit\<close>, then the tools are
  the same and the arguments agree on every property other than \<open>confirm\<close> (as JSON values), or the
  keyed hash collides on the texts of these two targets.
\<close>

theorem consent_binds_target:
  assumes "getDestructivePolicy config = Elicit" "wf_args a" "wf_args b"
    and "destructiveEffect t' b = Inr (Some e)" "e \<noteq> []"
    and "runWithDestructiveElicitationConsent t (destructiveTargetDigest hmac config a)
           (\<lambda>store. checkDestructive hmac store t' b config) = Inr GateAllowed"
  shows "t = t' \<and>
    ((\<forall>k. k \<noteq> js ''confirm'' \<longrightarrow> map_option canon (present a k) = map_option canon (present b k)) \<or>
     hmac_collision hmac config a b)"
proof -
  have "t = t'" and d: "destructiveTargetDigest hmac config a = destructiveTargetDigest hmac config b"
    using assms by (auto simp: runWithDestructiveElicitationConsent_def checkDestructive_def
        hasDestructiveElicitationConsent_def split: if_splits)
  moreover have "same_target a b \<or> hmac_collision hmac config a b"
    using target.transfer [OF assms(2,3) refl d] .
  ultimately show ?thesis
    using same_target_iff assms(2,3) by blast
qed

theorem consent_binds_target_witness:
  "(\<forall>k. k \<noteq> js ''confirm'' \<longrightarrow>
      map_option canon (present sample_args k)
        = map_option canon (present [(js ''bucketId'', Str (js ''b1''))] k)) \<or>
    hmac_collision (\<lambda>k m. k @ m) sample_config sample_args [(js ''bucketId'', Str (js ''b1''))]"
proof -
  let ?b = "[(js ''bucketId'', Str (js ''b1''))]"
  have "wf_args ?b" by (simp add: wf_args_def)
  moreover have "securityRelevantArgs sample_args = securityRelevantArgs ?b"
    by (simp add: securityRelevantArgs_def sample_args_def)
  then have "runWithDestructiveElicitationConsent (js ''b2_delete_bucket'')
      (destructiveTargetDigest (\<lambda>k m. k @ m) sample_config sample_args)
      (\<lambda>store. checkDestructive (\<lambda>k m. k @ m) store (js ''b2_delete_bucket'') ?b sample_config) = Inr GateAllowed"
    by (simp add: runWithDestructiveElicitationConsent_def checkDestructive_def sample_effect sample_policy
        hasDestructiveElicitationConsent_def destructiveTargetDigest_def)
  ultimately show ?thesis
    using consent_binds_target [OF sample_policy sample_wf _ sample_effect, of ?b] by simp
qed

text \<open>
  The canonical text that is hashed identifies the destructive target: for well-formed
  arguments with distinct keys, two calls have the same text exactly when they agree on every
  property but \<open>confirm\<close>, as JSON values (undefined is absent, key order and the sign of zero do
  not matter).
\<close>

theorem canonical_text_identifies_target:
  assumes "wf_args a" "wf_args b"
  shows "canonical_json (Obj (securityRelevantArgs a)) = canonical_json (Obj (securityRelevantArgs b)) \<longleftrightarrow>
    (\<forall>k. k \<noteq> js ''confirm'' \<longrightarrow> map_option canon (present a k) = map_option canon (present b k))"
  using same_target_iff [OF assms] canonical_json_inject [OF wf_relevant wf_relevant] assms
  unfolding same_target_def by blast

theorem canonical_text_identifies_target_witness:
  "canonical_json (Obj (securityRelevantArgs sample_args)) \<noteq> canonical_json (Obj (securityRelevantArgs []))"
proof -
  have "wf_args []" by (simp add: wf_args_def)
  moreover have "present sample_args (js ''bucketId'') \<noteq> None" "present [] (js ''bucketId'') = None"
    by (simp_all add: present_def sample_args_def)
  moreover have "js ''bucketId'' \<noteq> js ''confirm''" by simp
  ultimately show ?thesis
    using canonical_text_identifies_target [OF sample_wf, of "[]"]
    by (metis option.map_disc_iff)
qed

text \<open>
  \<open>b2_update_bucket\<close> is let through as not destructive exactly when it does not make the
  bucket public, does not disable Object Lock, does not clear the default retention, schedules no
  deletion by lifecycle rules and sets no replication.
\<close>

theorem update_bucket_not_destructive_iff:
  "destructiveEffect (js ''b2_update_bucket'') args = Inr None \<longleftrightarrow>
     prop_get args (js ''bucketType'') \<noteq> Str (js ''allPublic'') \<and>
     prop_get args (js ''fileLockEnabled'') \<noteq> Bool False \<and>
     \<not> mode_cleared (prop_get args (js ''defaultRetention'')) \<and>
     (\<forall>rs. prop_get args (js ''lifecycleRules'') = Arr rs \<longrightarrow>
        (\<forall>r \<in> set rs. \<exists>v. member_get r (js ''daysFromHidingToDeleting'') = Inr v \<and> nullish v)) \<and>
     prop_get args (js ''replicationConfiguration'') = Undefined"
proof -
  have some: "js_some (member_present k) rs = Inr False \<longleftrightarrow>
      (\<forall>r \<in> set rs. \<exists>v. member_get r k = Inr v \<and> nullish v)" for k rs
    by (induction rs) (auto simp: member_present_def map_sum_def split: sum.splits)
  show ?thesis
    by (simp add: destructiveEffect_def DETECTORS_def detect_update_bucket_def reasons_effect_def Let_def
        some [symmetric] split: jsval.split sum.split)
qed

theorem update_bucket_not_destructive_iff_witness:
  "destructiveEffect (js ''b2_update_bucket'')
     [(js ''lifecycleRules'', Arr [Obj [(js ''daysFromHidingToDeleting'', Null)]])] = Inr None"
  unfolding update_bucket_not_destructive_iff by (simp add: mode_cleared_def)

end
