(* ===== verification/Tool_Capabilities.thy ===== *)
theory Tool_Capabilities
  imports Destructive_Gate
begin

text \<open>
  Which tools a key and a token may see (\<open>src/utils/tool-capabilities.ts\<close>, with the registration
  predicate of \<open>createServer\<close> in \<open>src/server.ts\<close> and the guards of the presigned URL handler in
  \<open>src/s3/presigned.ts\<close>): the capability map, the MCP annotations, the OAuth scope tiers.
  \<open>ReadonlySet<string> | null\<close> is \<open>jsstring set option\<close>. The tables are modelled for tool names
  that \<open>Object.prototype\<close> does not define.
\<close>

section \<open>Tables\<close>

definition TOOL_CAPABILITIES :: "(jsstring \<times> jsstring list) list" where
  "TOOL_CAPABILITIES =
    [(js ''b2_list_buckets'', [js ''listBuckets'']),
     (js ''b2_create_bucket'', [js ''writeBuckets'']),
     (js ''b2_update_bucket'', [js ''writeBuckets'']),
     (js ''b2_delete_bucket'', [js ''deleteBuckets'']),
     (js ''b2_get_bucket_notification_rules'', [js ''readBucketNotifications'', js ''writeBucketNotifications'']),
     (js ''b2_set_bucket_notification_rules'', [js ''writeBucketNotifications'']),
     (js ''b2_create_key'', [js ''writeKeys'']),
     (js ''b2_list_keys'', [js ''listKeys'']),
     (js ''b2_delete_key'', [js ''deleteKeys'']),
     (js ''b2_update_file_retention'', [js ''writeFileRetentions'']),
     (js ''b2_update_file_legal_hold'', [js ''writeFileLegalHolds'']),
     (js ''b2_report_usage_growth'', [js ''readFiles'']),
     (js ''b2_rank_egress_leaders'', [js ''readFiles'']),
     (js ''b2_list_largest_files'', [js ''listFiles'']),
     (js ''b2_unfinished_uploads'', [js ''listFiles'']),
     (js ''s3_put_object'', [js ''writeFiles'']),
     (js ''s3_get_object'', [js ''readFiles'']),
     (js ''s3_head_object'', [js ''readFiles'']),
     (js ''s3_copy_object'', [js ''writeFiles'']),
     (js ''s3_delete_object'', [js ''deleteFiles'']),
     (js ''s3_delete_objects'', [js ''deleteFiles'']),
     (js ''s3_list_objects_v2'', [js ''listFiles'']),
     (js ''s3_list_object_versions'', [js ''listFiles'']),
     (js ''s3_create_multipart_upload'', [js ''writeFiles'']),
     (js ''s3_get_presigned_upload_part_url'', [js ''writeFiles'']),
     (js ''s3_complete_multipart_upload'', [js ''writeFiles'']),
     (js ''s3_abort_multipart_upload'', [js ''writeFiles'']),
     (js ''s3_list_parts'', [js ''listFiles'']),
     (js ''s3_list_multipart_uploads'', [js ''listFiles'']),
     (js ''s3_upload_part_copy'', [js ''writeFiles'']),
     (js ''s3_get_presigned_url'', [js ''readFiles'', js ''writeFiles'']),
     (js ''s3_head_bucket'', [js ''listBuckets'']),
     (js ''s3_get_bucket_location'', [js ''listBuckets'']),
     (js ''s3_put_bucket_lifecycle'', [js ''writeBuckets''])]"

definition READ_ONLY_OPERATION_TOOL_NAMES :: "jsstring list" where
  "READ_ONLY_OPERATION_TOOL_NAMES =
    [js ''b2_authorize_account'',
     js ''b2_list_groups'',
     js ''b2_list_group_members'',
     js ''b2_get_bucket_notification_rules'']"

definition NON_READ_ONLY_TOOL_NAMES :: "jsstring list" where
  "NON_READ_ONLY_TOOL_NAMES = [js ''s3_get_object'']"

definition NON_IDEMPOTENT_DESTRUCTIVE_TOOL_NAMES :: "jsstring list" where
  "NON_IDEMPOTENT_DESTRUCTIVE_TOOL_NAMES =
    [js ''b2_create_key'',
     js ''b2_create_group_member'',
     js ''b2_reserve_trial_create_account'',
     js ''s3_delete_object'',
     js ''s3_delete_objects'']"

definition IDEMPOTENT_NON_READONLY_TOOL_NAMES :: "jsstring list" where
  "IDEMPOTENT_NON_READONLY_TOOL_NAMES =
    [js ''s3_put_object'',
     js ''s3_copy_object'',
     js ''s3_upload_part_copy'',
     js ''s3_complete_multipart_upload'',
     js ''s3_get_presigned_upload_part_url'']"

definition DURABLE_SECRET_PRODUCING_TOOLS :: "jsstring list" where
  "DURABLE_SECRET_PRODUCING_TOOLS =
    [js ''b2_create_key'',
     js ''b2_create_group_member'',
     js ''b2_reserve_trial_create_account'']"

definition PARTNER_TOOLS :: "jsstring list" where
  "PARTNER_TOOLS =
    [js ''b2_list_groups'',
     js ''b2_create_group_member'',
     js ''b2_eject_group_member'',
     js ''b2_list_group_members'',
     js ''b2_reserve_trial_create_account'']"

text \<open>The OAuth tiers, ordered by what they permit.\<close>

datatype tier = TierRead | TierWrite | TierAdmin

fun tier_rank :: "tier \<Rightarrow> nat" where
  "tier_rank TierRead = 0"
| "tier_rank TierWrite = 1"
| "tier_rank TierAdmin = 2"

instantiation tier :: linorder
begin

definition less_eq_tier :: "tier \<Rightarrow> tier \<Rightarrow> bool" where
  "less_eq_tier a b \<longleftrightarrow> tier_rank a \<le> tier_rank b"

definition less_tier :: "tier \<Rightarrow> tier \<Rightarrow> bool" where
  "less_tier a b \<longleftrightarrow> tier_rank a < tier_rank b"

instance
proof
  fix x y :: tier
  show "x \<le> y \<Longrightarrow> y \<le> x \<Longrightarrow> x = y"
    by (cases x; cases y) (simp_all add: less_eq_tier_def)
qed (auto simp: less_eq_tier_def less_tier_def)

end

definition OAUTH_TOOL_SCOPE_POLICY :: "(jsstring \<times> tier) list" where
  "OAUTH_TOOL_SCOPE_POLICY =
    [(js ''b2_authorize_account'', TierRead),
     (js ''b2_create_bucket'', TierWrite),
     (js ''b2_create_group_member'', TierAdmin),
     (js ''b2_create_key'', TierAdmin),
     (js ''b2_delete_bucket'', TierWrite),
     (js ''b2_delete_key'', TierAdmin),
     (js ''b2_eject_group_member'', TierAdmin),
     (js ''b2_rank_egress_leaders'', TierRead),
     (js ''b2_get_bucket_notification_rules'', TierAdmin),
     (js ''b2_list_largest_files'', TierRead),
     (js ''b2_list_buckets'', TierRead),
     (js ''b2_list_group_members'', TierAdmin),
     (js ''b2_list_groups'', TierAdmin),
     (js ''b2_list_keys'', TierAdmin),
     (js ''b2_reserve_trial_create_account'', TierAdmin),
     (js ''b2_set_bucket_notification_rules'', TierAdmin),
     (js ''b2_unfinished_uploads'', TierRead),
     (js ''b2_update_bucket'', TierAdmin),
     (js ''b2_update_file_legal_hold'', TierAdmin),
     (js ''b2_update_file_retention'', TierAdmin),
     (js ''b2_report_usage_growth'', TierRead),
     (js ''s3_abort_multipart_upload'', TierWrite),
     (js ''s3_complete_multipart_upload'', TierWrite),
     (js ''s3_copy_object'', TierWrite),
     (js ''s3_create_multipart_upload'', TierWrite),
     (js ''s3_delete_object'', TierWrite),
     (js ''s3_delete_objects'', TierWrite),
     (js ''s3_get_bucket_location'', TierRead),
     (js ''s3_get_object'', TierRead),
     (js ''s3_get_presigned_url'', TierRead),
     (js ''s3_head_bucket'', TierRead),
     (js ''s3_head_object'', TierRead),
     (js ''s3_list_multipart_uploads'', TierRead),
     (js ''s3_list_object_versions'', TierRead),
     (js ''s3_list_objects_v2'', TierRead),
     (js ''s3_list_parts'', TierRead),
     (js ''s3_get_presigned_upload_part_url'', TierWrite),
     (js ''s3_put_bucket_lifecycle'', TierAdmin),
     (js ''s3_put_object'', TierWrite),
     (js ''s3_upload_part_copy'', TierWrite)]"

section \<open>Annotations\<close>

record annotations =
  readOnlyHint :: bool
  destructiveHint :: bool
  idempotentHint :: bool
  openWorldHint :: bool

definition isReadListCapability :: "jsstring \<Rightarrow> bool" where
  "isReadListCapability capability \<longleftrightarrow> prefix (js ''read'') capability \<or> prefix (js ''list'') capability"

definition hasReadOnlyToolCapabilities :: "jsstring \<Rightarrow> bool" where
  "hasReadOnlyToolCapabilities name \<longleftrightarrow>
     (case map_of TOOL_CAPABILITIES name of
        None \<Rightarrow> False
      | Some capabilities \<Rightarrow> capabilities \<noteq> [] \<and> list_all isReadListCapability capabilities)"

definition hasIdempotentDestructiveGate :: "jsstring \<Rightarrow> bool" where
  "hasIdempotentDestructiveGate name \<longleftrightarrow>
     name \<in> set DESTRUCTIVE_TOOL_NAMES \<and> name \<notin> set NON_IDEMPOTENT_DESTRUCTIVE_TOOL_NAMES"

definition annotationsForTool :: "jsstring \<Rightarrow> annotations" where
  "annotationsForTool name =
     (let destructive = name \<in> set DESTRUCTIVE_TOOL_NAMES;
          readOnly = \<not> destructive \<and> name \<notin> set NON_READ_ONLY_TOOL_NAMES \<and>
            (hasReadOnlyToolCapabilities name \<or> name \<in> set READ_ONLY_OPERATION_TOOL_NAMES)
      in \<lparr>readOnlyHint = readOnly, destructiveHint = destructive,
          idempotentHint = readOnly \<or> hasIdempotentDestructiveGate name \<or>
            name \<in> set IDEMPOTENT_NON_READONLY_TOOL_NAMES,
          openWorldHint = True\<rparr>)"

section \<open>Scopes and capabilities\<close>

definition hasAnyScope :: "jsstring set \<Rightarrow> jsstring list \<Rightarrow> bool" where
  "hasAnyScope scopes candidates \<longleftrightarrow> list_ex (\<lambda>scope. scope \<in> scopes) candidates"

fun OAUTH_OPERATION_SCOPES :: "tier \<Rightarrow> jsstring list" where
  "OAUTH_OPERATION_SCOPES TierRead = [js ''b2:read'', js ''b2:write'', js ''b2:admin'']"
| "OAUTH_OPERATION_SCOPES TierWrite = [js ''b2:write'', js ''b2:admin'']"
| "OAUTH_OPERATION_SCOPES TierAdmin = [js ''b2:admin'']"

definition oauthScopesAllowOperation :: "jsstring set option \<Rightarrow> tier \<Rightarrow> bool" where
  "oauthScopesAllowOperation scopes operation =
     (case scopes of None \<Rightarrow> True | Some s \<Rightarrow> hasAnyScope s (OAUTH_OPERATION_SCOPES operation))"

definition oauthToolScopePolicy :: "jsstring \<Rightarrow> tier option" where
  "oauthToolScopePolicy name = map_of OAUTH_TOOL_SCOPE_POLICY name"

definition isToolEnabled :: "jsstring \<Rightarrow> jsstring set option \<Rightarrow> bool" where
  "isToolEnabled name caps =
     (case caps of
        None \<Rightarrow> True
      | Some cs \<Rightarrow>
          (case map_of TOOL_CAPABILITIES name of
             None \<Rightarrow> True
           | Some required \<Rightarrow> required = [] \<or> list_ex (\<lambda>c. c \<in> cs) required))"

definition isToolAllowedByOAuthScopes :: "jsstring \<Rightarrow> jsstring set option \<Rightarrow> bool" where
  "isToolAllowedByOAuthScopes name scopes =
     (if scopes = None then True
      else if oauthScopesAllowOperation scopes TierAdmin then True
      else (case (case oauthToolScopePolicy name of None \<Rightarrow> TierAdmin | Some t \<Rightarrow> t) of
              TierRead \<Rightarrow> oauthScopesAllowOperation scopes TierRead
            | TierWrite \<Rightarrow> oauthScopesAllowOperation scopes TierWrite
            | TierAdmin \<Rightarrow> False))"

section \<open>Registration\<close>

text \<open>The registration predicate of \<open>createServer\<close>; \<open>capabilities\<close> is \<open>None\<close> for null or undefined.\<close>

definition shouldRegisterForResolvedAuthz ::
    "bool \<Rightarrow> jsstring list option \<Rightarrow> jsstring list option \<Rightarrow> jsstring \<Rightarrow> bool" where
  "shouldRegisterForResolvedAuthz failClosedUnknownCapabilities capabilities oauthScopes name \<longleftrightarrow>
     (\<not> failClosedUnknownCapabilities \<or> name = js ''b2_authorize_account'' \<or>
       map_of TOOL_CAPABILITIES name \<noteq> None \<and> name \<notin> set PARTNER_TOOLS) \<and>
     isToolEnabled name (map_option set capabilities) \<and>
     isToolAllowedByOAuthScopes name (map_option set oauthScopes)"

text \<open>\<open>const allowGetObjectUrl = ..., allowPutObjectUrl = ...\<close>\<close>

definition presignAllowed :: "jsstring list option \<Rightarrow> jsstring list option \<Rightarrow> bool \<times> bool" where
  "presignAllowed capabilities oauthScopes =
     (let has = (\<lambda>c. case capabilities of None \<Rightarrow> True | Some cs \<Rightarrow> c \<in> set cs);
          scopes = map_option set oauthScopes
      in (has (js ''readFiles'') \<and> oauthScopesAllowOperation scopes TierRead,
          has (js ''writeFiles'') \<and> oauthScopesAllowOperation scopes TierWrite))"

text \<open>
  The handler of \<open>s3_get_presigned_url\<close> up to the call of the S3 client: the refusals in their
  order, the gate, and the version binding, which is a call of the native client (\<open>resolve\<close>, that
  returns or throws).
\<close>

datatype presign_outcome = PresignError api_error | PresignThrow js_throw | PresignUrl jsstring

definition presign_handler ::
    "keyed_hash \<Rightarrow> consent option \<Rightarrow> b2_config \<Rightarrow> bool \<Rightarrow> bool \<Rightarrow> bool \<Rightarrow> (jsprops \<Rightarrow> js_throw + unit) \<Rightarrow>
     jsprops \<Rightarrow> presign_outcome" where
  "presign_handler hmac store config allowGetObjectUrl allowPutObjectUrl allowExplicitVersionInspection resolve args =
     (let operation = prop_get args (js ''operation'');
          get = Str (js ''GetObject''); put = Str (js ''PutObject'')
      in if operation = get \<and> \<not> allowGetObjectUrl
           then PresignError (codedError 403 (js ''missing_capability'')
             (js ''GetObject presigned URLs require the readFiles capability.''))
         else if operation = put \<and> \<not> allowPutObjectUrl
           then PresignError (codedError 403 (js ''missing_capability'')
             (js ''PutObject presigned URLs require the writeFiles capability.''))
         else (case checkDestructive hmac store (js ''s3_get_presigned_url'') args config of
             Inl e \<Rightarrow> PresignThrow e
           | Inr (GateBlocked err) \<Rightarrow> PresignError err
           | Inr GateAllowed \<Rightarrow>
               if operation = get \<and> truthy (prop_get args (js ''versionId''))
               then if \<not> allowExplicitVersionInspection
                    then PresignError (codedError 403 (js ''missing_capability'')
                      (js ''Version-targeted S3 presigned URLs require the readFiles capability for native version binding.''))
                    else (case resolve args of
                        Inl e \<Rightarrow> PresignThrow e
                      | Inr _ \<Rightarrow> PresignUrl (js ''GetObject''))
               else PresignUrl (case operation of Str s \<Rightarrow> s | _ \<Rightarrow> [])))"

section \<open>Facts\<close>

lemma set_destructive_names [simp]: "set DESTRUCTIVE_TOOL_NAMES = fst ` set DETECTORS"
  by (simp add: DESTRUCTIVE_TOOL_NAMES_def)


lemma isDestructiveTool_iff: "isDestructiveTool name \<longleftrightarrow> name \<in> set DESTRUCTIVE_TOOL_NAMES"
  by (simp add: isDestructiveTool_def map_of_eq_None_iff)

lemma effect_only_of_registered: "\<not> isDestructiveTool name \<Longrightarrow> destructiveEffect name args = Inr None"
  by (simp add: isDestructiveTool_def destructiveEffect_def)

text \<open>The tier a tool needs; tools without a policy need the highest.\<close>

definition required_tier :: "jsstring \<Rightarrow> tier" where
  "required_tier name = (case oauthToolScopePolicy name of None \<Rightarrow> TierAdmin | Some t \<Rightarrow> t)"

fun tier_scope :: "tier \<Rightarrow> jsstring" where
  "tier_scope TierRead = js ''b2:read''"
| "tier_scope TierWrite = js ''b2:write''"
| "tier_scope TierAdmin = js ''b2:admin''"

lemmas tier_order = less_eq_tier_def less_tier_def

lemma all_tiers: "(\<exists>t. P t) \<longleftrightarrow> P TierRead \<or> P TierWrite \<or> P TierAdmin"
  by (metis tier.exhaust)

lemma operation_allowed_iff:
  "oauthScopesAllowOperation (Some s) op \<longleftrightarrow> (\<exists>t. op \<le> t \<and> tier_scope t \<in> s)"
  by (cases op) (auto simp: oauthScopesAllowOperation_def hasAnyScope_def all_tiers tier_order)

lemma tool_allowed_iff:
  "isToolAllowedByOAuthScopes name (Some s) \<longleftrightarrow> oauthScopesAllowOperation (Some s) (required_tier name)"
  by (cases "required_tier name")
    (auto simp: isToolAllowedByOAuthScopes_def required_tier_def [symmetric] operation_allowed_iff
      all_tiers tier_order)

section \<open>Properties\<close>

text \<open>
  (C16) The OAuth filter is the tier order: a tool is visible under a set of verified scopes exactly
  when some scope of the set grants a tier at or above the one its policy asks for, where a tool
  without a policy asks for \<open>admin\<close>.
\<close>

theorem oauth_filter_is_tier_order:
  "isToolAllowedByOAuthScopes name (Some s) \<longleftrightarrow>
     (\<exists>t. (case oauthToolScopePolicy name of None \<Rightarrow> TierAdmin | Some p \<Rightarrow> p) \<le> t \<and> tier_scope t \<in> s)"
  by (simp add: tool_allowed_iff operation_allowed_iff flip: required_tier_def)

text \<open>
  The scope \<open>b2:read\<close> alone reaches exactly one tool of the destructive registry,
  \<open>s3_get_presigned_url\<close> (whose PutObject branch is refused separately under that scope).
\<close>

theorem read_scope_reaches_one_gated_tool:
  "isDestructiveTool name \<and> isToolAllowedByOAuthScopes name (Some {js ''b2:read''}) \<longleftrightarrow>
     name = js ''s3_get_presigned_url''"
proof -
  have "isToolAllowedByOAuthScopes name (Some {js ''b2:read''}) \<longleftrightarrow> required_tier name = TierRead"
    by (cases "required_tier name")
      (auto simp: tool_allowed_iff operation_allowed_iff all_tiers tier_order)
  moreover have "isDestructiveTool name \<longleftrightarrow> name \<in> fst ` set DETECTORS"
    by (simp add: isDestructiveTool_def map_of_eq_None_iff)
  ultimately show ?thesis
    by (auto simp: DETECTORS_def required_tier_def oauthToolScopePolicy_def OAUTH_TOOL_SCOPE_POLICY_def)
qed

text \<open>
  The MCP annotations agree with the gate: \<open>destructiveHint\<close> holds exactly for the tools of the
  registry, and a tool announced as read-only has no destructive effect for any arguments and, if
  mapped, needs read or list capabilities only.
\<close>

theorem annotations_agree_with_gate:
  "(destructiveHint (annotationsForTool name) \<longleftrightarrow> isDestructiveTool name) \<and>
   (destructiveEffect name args = Inr None \<or> \<not> readOnlyHint (annotationsForTool name)) \<and>
   (\<not> readOnlyHint (annotationsForTool name) \<or> idempotentHint (annotationsForTool name)) \<and>
   (readOnlyHint (annotationsForTool name) \<longrightarrow>
      name \<in> set READ_ONLY_OPERATION_TOOL_NAMES \<or>
      (\<exists>cs. map_of TOOL_CAPABILITIES name = Some cs \<and> cs \<noteq> [] \<and> list_all isReadListCapability cs))"
  using effect_only_of_registered [of name args]
  by (auto simp: annotationsForTool_def isDestructiveTool_iff Let_def hasReadOnlyToolCapabilities_def
      split: option.splits)

theorem annotations_agree_with_gate_witness:
  "readOnlyHint (annotationsForTool (js ''b2_list_buckets'')) \<and>
   destructiveEffect (js ''b2_list_buckets'') [] = Inr None"
proof -
  have "readOnlyHint (annotationsForTool (js ''b2_list_buckets''))"
    by (simp add: annotationsForTool_def Let_def DETECTORS_def
        NON_READ_ONLY_TOOL_NAMES_def hasReadOnlyToolCapabilities_def TOOL_CAPABILITIES_def isReadListCapability_def)
  then show ?thesis
    using annotations_agree_with_gate [of "js ''b2_list_buckets''" "[]"] by blast
qed

text \<open>
  Registration fails closed: with unresolved capabilities no Partner tool and, apart from
  \<open>b2_authorize_account\<close>, no unmapped tool registers; with resolved capabilities a mapped tool
  registers only if the key holds one of its capabilities; and no OAuth scope adds a tool.
\<close>

theorem registration_fails_closed:
  "(name \<in> set PARTNER_TOOLS \<longrightarrow> \<not> shouldRegisterForResolvedAuthz True caps scopes name) \<and>
   (shouldRegisterForResolvedAuthz fc (Some cs) scopes name \<longrightarrow>
      (\<forall>req. map_of TOOL_CAPABILITIES name = Some req \<longrightarrow> (\<exists>c \<in> set req. c \<in> set cs))) \<and>
   (shouldRegisterForResolvedAuthz fc caps (Some sc) name \<longrightarrow>
      shouldRegisterForResolvedAuthz fc caps None name)"
proof -
  have nonempty: "map_of TOOL_CAPABILITIES name \<noteq> Some []"
    by (auto dest!: map_of_SomeD simp: TOOL_CAPABILITIES_def)
  have partner: "name \<in> set PARTNER_TOOLS \<longrightarrow> name \<noteq> js ''b2_authorize_account''"
    by (auto simp: PARTNER_TOOLS_def)
  show ?thesis
    using nonempty partner
    by (auto simp: shouldRegisterForResolvedAuthz_def isToolEnabled_def isToolAllowedByOAuthScopes_def
        list_ex_iff)
qed

theorem registration_fails_closed_witness:
  "\<not> shouldRegisterForResolvedAuthz True None None (js ''b2_eject_group_member'') \<and>
   shouldRegisterForResolvedAuthz False (Some [js ''listBuckets'']) (Some [js ''b2:read'']) (js ''b2_list_buckets'') \<and>
   shouldRegisterForResolvedAuthz False (Some [js ''listBuckets'']) None (js ''b2_list_buckets'')"
proof -
  have "js ''b2_eject_group_member'' \<in> set PARTNER_TOOLS" by (simp add: PARTNER_TOOLS_def)
  moreover have "shouldRegisterForResolvedAuthz False (Some [js ''listBuckets'']) (Some [js ''b2:read'']) (js ''b2_list_buckets'')"
    by (simp add: shouldRegisterForResolvedAuthz_def isToolEnabled_def TOOL_CAPABILITIES_def tool_allowed_iff
        required_tier_def oauthToolScopePolicy_def OAUTH_TOOL_SCOPE_POLICY_def operation_allowed_iff all_tiers tier_order)
  ultimately show ?thesis
    using registration_fails_closed [of "js ''b2_eject_group_member''" None None False "[]" "[]"]
      registration_fails_closed [of "js ''b2_list_buckets''" "Some [js ''listBuckets'']" None False "[js ''listBuckets'']" "[js ''b2:read'']"]
    by blast
qed

text \<open>
  (C15) A PutObject presigned URL is minted only for a key with \<open>writeFiles\<close> (or in full-surface
  mode), only under a write or admin scope when OAuth is active, and only when the destructive gate
  lets this very call through.
\<close>

theorem presigned_put_needs_write:
  assumes "(allowGet, allowPut) = presignAllowed capabilities scopes"
    and "prop_get args (js ''operation'') = Str (js ''PutObject'')"
    and "presign_handler hmac store config allowGet allowPut allowVersion resolve args = PresignUrl u"
  shows "(\<forall>cs. capabilities = Some cs \<longrightarrow> js ''writeFiles'' \<in> set cs) \<and>
    (\<forall>sc. scopes = Some sc \<longrightarrow> js ''b2:write'' \<in> set sc \<or> js ''b2:admin'' \<in> set sc) \<and>
    checkDestructive hmac store (js ''s3_get_presigned_url'') args config = Inr GateAllowed \<and>
    u = js ''PutObject''"
proof -
  have "allowPut"
    using assms(2,3) by (auto simp: presign_handler_def Let_def split: if_splits)
  then show ?thesis
    using assms by (auto simp: presign_handler_def Let_def presignAllowed_def operation_allowed_iff all_tiers
        tier_order split: if_splits sum.splits gate_result.splits option.splits)
qed

definition put_args :: jsprops where
  "put_args = [(js ''operation'', Str (js ''PutObject'')), (js ''confirm'', Bool True)]"

theorem presigned_put_needs_write_witness:
  "checkDestructive (\<lambda>k m. k @ m) None (js ''s3_get_presigned_url'') put_args
     (sample_config\<lparr>destructivePolicy := None\<rparr>) = Inr GateAllowed"
proof -
  let ?c = "sample_config\<lparr>destructivePolicy := None\<rparr>"
  have "destructiveEffect (js ''s3_get_presigned_url'') put_args = Inr (Some
      (js ''mint a PutObject presigned URL bearer capability that can create or overwrite object data''))"
    by (simp add: destructiveEffect_def DETECTORS_def detect_presigned_url_def put_args_def)
  then have "checkDestructive (\<lambda>k m. k @ m) None (js ''s3_get_presigned_url'') put_args ?c = Inr GateAllowed"
    by (simp add: checkDestructive_def getDestructivePolicy_def put_args_def)
  then have h: "presign_handler (\<lambda>k m. k @ m) None ?c True True True (\<lambda>_. Inr ()) put_args = PresignUrl (js ''PutObject'')"
    by (simp add: presign_handler_def put_args_def Let_def)
  have "(True, True) = presignAllowed None None"
    by (simp add: presignAllowed_def oauthScopesAllowOperation_def)
  from presigned_put_needs_write [OF this _ h] show ?thesis
    by (simp add: put_args_def)
qed

text \<open>
  The two registries cover the same tools: the tools with an OAuth policy are the capability
  mapped tools, the Partner tools and \<open>b2_authorize_account\<close>, forty in all with no name twice; and
  every tool that produces a durable secret is gated, not idempotent and needs \<open>admin\<close>.
\<close>

theorem registries_are_complete:
  "fst ` set OAUTH_TOOL_SCOPE_POLICY
     = fst ` set TOOL_CAPABILITIES \<union> set PARTNER_TOOLS \<union> {js ''b2_authorize_account''} \<and>
   length OAUTH_TOOL_SCOPE_POLICY = 40 \<and> distinct (map fst OAUTH_TOOL_SCOPE_POLICY) \<and>
   list_all (\<lambda>n. isDestructiveTool n \<and> \<not> idempotentHint (annotationsForTool n) \<and>
       oauthToolScopePolicy n = Some TierAdmin) DURABLE_SECRET_PRODUCING_TOOLS"
proof (intro conjI)
  show "fst ` set OAUTH_TOOL_SCOPE_POLICY
     = fst ` set TOOL_CAPABILITIES \<union> set PARTNER_TOOLS \<union> {js ''b2_authorize_account''}"
    by (simp add: OAUTH_TOOL_SCOPE_POLICY_def TOOL_CAPABILITIES_def PARTNER_TOOLS_def set_eq_iff) blast
  show "length OAUTH_TOOL_SCOPE_POLICY = 40" by (simp add: OAUTH_TOOL_SCOPE_POLICY_def)
  show "distinct (map fst OAUTH_TOOL_SCOPE_POLICY)" by (simp add: OAUTH_TOOL_SCOPE_POLICY_def)
  show "list_all (\<lambda>n. isDestructiveTool n \<and> \<not> idempotentHint (annotationsForTool n) \<and>
       oauthToolScopePolicy n = Some TierAdmin) DURABLE_SECRET_PRODUCING_TOOLS"
    by (simp add: DURABLE_SECRET_PRODUCING_TOOLS_def isDestructiveTool_def annotationsForTool_def Let_def
        hasIdempotentDestructiveGate_def NON_IDEMPOTENT_DESTRUCTIVE_TOOL_NAMES_def
        IDEMPOTENT_NON_READONLY_TOOL_NAMES_def oauthToolScopePolicy_def OAUTH_TOOL_SCOPE_POLICY_def
        DETECTORS_def)
qed

end
