(* ===== verification/Js_Number.thy ===== *)
theory Js_Number
  imports Js_Prelude Complex_Main
begin

text \<open>
  Conversions of text to numbers: \<open>parseInt(raw, 10)\<close>, \<open>Number(raw)\<close> and the helper
  \<open>parseIntEnv\<close> of \<open>src/utils/config.ts\<close>. A numeric result is the exact rational that the text
  denotes: the rounding to a double, the loss of the sign of zero and the overflow of huge
  literals to infinity are not modelled.
\<close>

datatype real_or_nan = NotANumber | Infinite bool | Finite rat

section \<open>parseInt\<close>

fun signed :: "jsstring \<Rightarrow> bool \<times> jsstring" where
  "signed s = (case s of c # r \<Rightarrow>
      (if c = 45 then (True, r) else if c = 43 then (False, r) else (False, s))
    | [] \<Rightarrow> (False, s))"

text \<open>\<open>parseInt(raw, 10)\<close>; \<open>None\<close> is \<open>NaN\<close>.\<close>

definition parse_int :: "jsstring \<Rightarrow> int option" where
  "parse_int raw =
     (let (neg, r) = signed (dropWhile js_space raw); ds = takeWhile is_digit r in
      if ds = [] then None
      else Some (if neg then - int (undecimal ds) else int (undecimal ds)))"

definition parseIntEnv :: "jsstring option \<Rightarrow> int \<Rightarrow> int" where
  "parseIntEnv raw fallback =
     (case raw of None \<Rightarrow> fallback
      | Some r \<Rightarrow> (case parse_int r of None \<Rightarrow> fallback | Some n \<Rightarrow> n))"

lemma takeWhile_all [simp]: "\<forall>x \<in> set xs. P x \<Longrightarrow> takeWhile P (xs @ ys) = xs @ takeWhile P ys"
  by (simp add: takeWhile_append)

lemma digit_not_space [simp]: "is_digit c \<Longrightarrow> \<not> js_space c"
  by (simp add: char_class_defs)

lemma digit_bounds: "is_digit c \<Longrightarrow> 48 \<le> c \<and> c \<le> 57"
  by (simp add: is_digit_def)

lemma hd_decimal_digit [simp]: "is_digit (hd (decimal n))"
  by (rule decimal_digits [OF hd_in_set]) (rule decimal_nonempty)

lemma last_decimal_digit [simp]: "is_digit (last (decimal n))"
  by (rule decimal_digits [OF last_in_set]) (rule decimal_nonempty)

lemma takeWhile_decimal [simp]: "takeWhile is_digit (decimal n) = decimal n"
  by (simp add: takeWhile_eq_all_conv decimal_digits)

lemma dropWhile_decimal_digits [simp]: "dropWhile is_digit (decimal n) = []"
  by (simp add: dropWhile_eq_Nil_conv decimal_digits)

lemma dropWhile_decimal_space [simp]: "dropWhile js_space (decimal n) = decimal n"
  by (metis decimal_nonempty digit_not_space dropWhile_eq_self_iff hd_decimal_digit)

lemma signed_decimal [simp]: "signed (decimal n) = (False, decimal n)"
proof (cases "decimal n")
  case (Cons c r)
  then have "is_digit c" using hd_decimal_digit [of n] by simp
  then show ?thesis using Cons by (auto dest: digit_bounds)
qed simp

lemma parse_int_decimal [simp]: "parse_int (decimal n) = Some (int n)"
  by (simp add: parse_int_def del: signed.simps)

lemma parse_int_suffix:
  "r \<noteq> [] \<Longrightarrow> \<not> is_digit (hd r) \<Longrightarrow> parse_int (decimal n @ r) = Some (int n)"
proof -
  assume r: "r \<noteq> []" "\<not> is_digit (hd r)"
  obtain c d where c: "decimal n = c # d" by (cases "decimal n") auto
  have "is_digit c" using c hd_decimal_digit [of n] by simp
  then have s: "signed (decimal n @ r) = (False, decimal n @ r)"
    using c by (auto dest: digit_bounds)
  have "dropWhile js_space (decimal n @ r) = decimal n @ r"
    using c \<open>is_digit c\<close> by simp
  moreover have "takeWhile is_digit (decimal n @ r) = decimal n"
    using r by (cases r) (simp_all add: takeWhile_append decimal_digits)
  ultimately show ?thesis using s by (simp add: parse_int_def del: signed.simps)
qed

section \<open>Number(text)\<close>

definition digit_value :: "nat \<Rightarrow> nat" where
  "digit_value c = (if is_digit c then c - 48
     else if is_lower c then c - 87 else if is_upper c then c - 55 else 99)"

definition radix_value :: "nat \<Rightarrow> jsstring \<Rightarrow> real_or_nan" where
  "radix_value b ds =
     (if ds \<noteq> [] \<and> (\<forall>d \<in> set ds. digit_value d < b)
      then Finite (of_nat (foldl (\<lambda>a d. b * a + digit_value d) 0 ds)) else NotANumber)"

definition exponent_value :: "jsstring \<Rightarrow> int option" where
  "exponent_value r = (case r of [] \<Rightarrow> Some 0
     | c # t \<Rightarrow> (if c = 101 \<or> c = 69
         then (let (neg, ds) = signed t in
               if ds \<noteq> [] \<and> (\<forall>d \<in> set ds. is_digit d)
               then Some (if neg then - int (undecimal ds) else int (undecimal ds)) else None)
         else None))"

definition pow10 :: "int \<Rightarrow> rat" where
  "pow10 e = (if 0 \<le> e then 10 ^ nat e else 1 / 10 ^ nat (- e))"

definition unsigned_literal :: "jsstring \<Rightarrow> rat option" where
  "unsigned_literal s =
     (let ip = takeWhile is_digit s; r = dropWhile is_digit s;
          (fp, r') = (case r of c # t \<Rightarrow>
              (if c = 46 then (takeWhile is_digit t, dropWhile is_digit t) else ([], r))
            | [] \<Rightarrow> ([], r)) in
      if ip = [] \<and> fp = [] then None
      else map_option (\<lambda>e. of_nat (undecimal (ip @ fp)) * pow10 (e - int (length fp)))
             (exponent_value r'))"

definition decimal_literal :: "jsstring \<Rightarrow> real_or_nan" where
  "decimal_literal s =
     (let (neg, t) = signed s in
      if t = js ''Infinity'' then Infinite neg
      else case unsigned_literal t of None \<Rightarrow> NotANumber
           | Some q \<Rightarrow> Finite (if neg then - q else q))"

text \<open>\<open>Number(text)\<close> for a string: white space around the literal is ignored, the empty text is 0.\<close>

definition js_number :: "jsstring \<Rightarrow> real_or_nan" where
  "js_number raw =
     (let s = js_trim raw in
      if s = [] then Finite 0
      else case s of
        z # x # ds \<Rightarrow>
          (if z = 48 \<and> (x = 120 \<or> x = 88) then radix_value 16 ds
           else if z = 48 \<and> (x = 111 \<or> x = 79) then radix_value 8 ds
           else if z = 48 \<and> (x = 98 \<or> x = 66) then radix_value 2 ds
           else decimal_literal s)
      | _ \<Rightarrow> decimal_literal s)"

lemma js_trim_id: "s \<noteq> [] \<Longrightarrow> \<not> js_space (hd s) \<Longrightarrow> \<not> js_space (last s) \<Longrightarrow> js_trim s = s"
proof -
  assume s: "s \<noteq> []" "\<not> js_space (hd s)" "\<not> js_space (last s)"
  then have "dropWhile js_space s = s" "dropWhile js_space (rev s) = rev s"
    by (simp_all add: dropWhile_eq_self_iff hd_rev)
  then show ?thesis by (simp add: js_trim_def)
qed

lemma js_trim_decimal [simp]: "js_trim (decimal n) = decimal n"
  by (rule js_trim_id) simp_all

lemma js_number_decimal [simp]: "js_number (decimal n) = Finite (of_nat n)"
proof -
  note [simp del] = decimal_small decimal_large
  have inf: "decimal n \<noteq> js ''Infinity''"
  proof
    assume "decimal n = js ''Infinity''"
    with hd_decimal_digit [of n] show False by (simp add: js_def is_digit_def)
  qed
  have lit: "decimal_literal (decimal n) = Finite (of_nat n)"
    using inf by (simp add: decimal_literal_def unsigned_literal_def exponent_value_def pow10_def
        del: signed.simps)
  have nx: "x \<noteq> 120 \<and> x \<noteq> 88 \<and> x \<noteq> 111 \<and> x \<noteq> 79 \<and> x \<noteq> 98 \<and> x \<noteq> 66"
    if "decimal n = z # x # ds" for z x ds
    using decimal_digits [of x n] that by (auto simp: is_digit_def)
  obtain c d where c: "decimal n = c # d" by (cases "decimal n") auto
  have tr: "js_trim (c # d) = c # d" using js_trim_decimal [of n] c by simp
  show ?thesis
  proof (cases d)
    case Nil
    with lit c tr show ?thesis by (simp add: js_number_def)
  next
    case (Cons x ds)
    with nx [of c x ds] lit c tr show ?thesis by (simp add: js_number_def)
  qed
qed

lemma js_number_letter:
  assumes "s = c # r" "is_alpha c" "\<not> js_space (last s)" "s \<noteq> js ''Infinity''"
  shows "js_number s = NotANumber"
proof -
  have c: "\<not> js_space c" "\<not> is_digit c" "c \<noteq> 45" "c \<noteq> 43" "c \<noteq> 46" "c \<noteq> 48"
    using assms(2) by (auto simp: char_class_defs)
  have t: "js_trim s = s" using assms c by (intro js_trim_id) auto
  have s: "signed s = (False, s)" using assms(1) c by simp
  have "unsigned_literal s = None"
    using assms(1) c by (simp add: unsigned_literal_def)
  then have "decimal_literal s = NotANumber"
    using s assms(4) by (simp add: decimal_literal_def del: signed.simps)
  then show ?thesis using t assms(1) c by (cases r) (simp_all add: js_number_def)
qed

end
