(* ===== verification/Config_Cli.thy ===== *)
theory Config_Cli
  imports B2_Types Js_Number
begin

text \<open>
  Runtime configuration parsing: \<open>src/utils/config.ts\<close> (port and host flags) and \<open>src/cli.ts\<close>
  (the argument parser of the packaged binary). The two error classes are the constructors of
  \<open>usage_error\<close>, and a function that may throw one returns a sum. The environment is a function
  from variable names to optional values.
\<close>

datatype usage_error = PortUsageError jsstring | CliUsageError jsstring

type_synonym process_env = "jsstring \<Rightarrow> jsstring option"

section \<open>Ports and hosts\<close>

definition DEFAULT_HTTP_PORT :: nat where
  "DEFAULT_HTTP_PORT = 3000"

definition parsePort :: "jsstring \<Rightarrow> usage_error + nat" where
  "parsePort raw =
     (case js_number raw of
        Finite q \<Rightarrow>
          (if of_int \<lfloor>q\<rfloor> \<noteq> q \<or> q \<le> 0 \<or> 65535 < q
           then Inl (PortUsageError (js ''Invalid port: '' @ raw)) else Inr (nat \<lfloor>q\<rfloor>))
      | _ \<Rightarrow> Inl (PortUsageError (js ''Invalid port: '' @ raw)))"

text \<open>\<open>argv[index]\<close>, absent or empty is falsy.\<close>

definition arg_at :: "jsstring list \<Rightarrow> nat \<Rightarrow> jsstring option" where
  "arg_at argv index =
     (if index < length argv \<and> argv ! index \<noteq> [] then Some (argv ! index) else None)"

definition readPortArg :: "jsstring list \<Rightarrow> nat \<Rightarrow> usage_error + (nat \<times> nat) option" where
  "readPortArg argv index =
     (let arg = argv ! index in
      if arg = js ''--port'' then
        (case arg_at argv (Suc index) of
           None \<Rightarrow> Inl (PortUsageError (js ''--port requires a value''))
         | Some raw \<Rightarrow> (case parsePort raw of Inl e \<Rightarrow> Inl e
             | Inr p \<Rightarrow> Inr (Some (p, Suc index))))
      else if prefix (js ''--port='') arg then
        (let raw = drop 7 arg in
         if raw = [] then Inl (PortUsageError (js ''--port requires a value''))
         else (case parsePort raw of Inl e \<Rightarrow> Inl e | Inr p \<Rightarrow> Inr (Some (p, index))))
      else Inr None)"

definition parseHttpHost :: "jsstring option \<Rightarrow> usage_error + jsstring option" where
  "parseHttpHost raw =
     (case raw of None \<Rightarrow> Inr None
      | Some r \<Rightarrow>
          (let host = js_trim r in
           if host = [] then Inl (PortUsageError (js ''Invalid host''))
           else if 13 \<in> set host \<or> 10 \<in> set host then Inl (PortUsageError (js ''Invalid host''))
           else Inr (Some host)))"

definition host_value :: "jsstring \<Rightarrow> nat \<Rightarrow> usage_error + (jsstring \<times> nat) option" where
  "host_value raw nextIndex =
     (case parseHttpHost (Some raw) of Inl e \<Rightarrow> Inl e
      | Inr None \<Rightarrow> Inl (PortUsageError (js ''--host requires a value''))
      | Inr (Some host) \<Rightarrow> Inr (Some (host, nextIndex)))"

definition readHostArg :: "jsstring list \<Rightarrow> nat \<Rightarrow> usage_error + (jsstring \<times> nat) option" where
  "readHostArg argv index =
     (let arg = argv ! index in
      if arg = js ''--host'' then
        (case arg_at argv (Suc index) of
           None \<Rightarrow> Inl (PortUsageError (js ''--host requires a value''))
         | Some raw \<Rightarrow> host_value raw (Suc index))
      else if prefix (js ''--host='') arg then
        (let raw = drop 7 arg in
         if raw = [] then Inl (PortUsageError (js ''--host requires a value''))
         else host_value raw index)
      else Inr None)"

function port_flag_from :: "jsstring list \<Rightarrow> nat \<Rightarrow> usage_error + nat option" where
  "port_flag_from argv index =
     (if index < length argv then
        (case readPortArg argv index of Inl e \<Rightarrow> Inl e
         | Inr (Some (p, n)) \<Rightarrow> Inr (Some p)
         | Inr None \<Rightarrow> port_flag_from argv (Suc index))
      else Inr None)"
  by pat_completeness auto
termination by (relation "measure (\<lambda>(argv, index). length argv - index)") auto

function host_flag_from :: "jsstring list \<Rightarrow> nat \<Rightarrow> usage_error + jsstring option" where
  "host_flag_from argv index =
     (if index < length argv then
        (case readHostArg argv index of Inl e \<Rightarrow> Inl e
         | Inr (Some (h, n)) \<Rightarrow> Inr (Some h)
         | Inr None \<Rightarrow> host_flag_from argv (Suc index))
      else Inr None)"
  by pat_completeness auto
termination by (relation "measure (\<lambda>(argv, index). length argv - index)") auto

declare port_flag_from.simps [simp del] host_flag_from.simps [simp del]

definition resolveHttpPort :: "jsstring list \<Rightarrow> process_env \<Rightarrow> usage_error + nat" where
  "resolveHttpPort argv env =
     (case port_flag_from argv 0 of Inl e \<Rightarrow> Inl e
      | Inr (Some p) \<Rightarrow> Inr p
      | Inr None \<Rightarrow> parsePort (case env (js ''PORT'') of None \<Rightarrow> decimal DEFAULT_HTTP_PORT | Some s \<Rightarrow> s))"

definition resolveHttpHost :: "jsstring list \<Rightarrow> process_env \<Rightarrow> usage_error + jsstring option" where
  "resolveHttpHost argv env =
     (case host_flag_from argv 0 of Inl e \<Rightarrow> Inl e
      | Inr (Some h) \<Rightarrow> Inr (Some h)
      | Inr None \<Rightarrow> parseHttpHost (env (js ''B2_HTTP_HOST'')))"

section \<open>The command line\<close>

datatype cli_action = Run | Help | Version

record cli_options =
  action :: cli_action
  cli_transport :: transport
  cli_port :: "nat option"
  cli_host :: "jsstring option"

definition parseTransport :: "jsstring \<Rightarrow> usage_error + transport" where
  "parseTransport raw =
     (if raw = js ''stdio'' then Inr Stdio else if raw = js ''http'' then Inr Http
      else Inl (CliUsageError (js ''Invalid transport: '' @ raw)))"

definition envTransport :: "process_env \<Rightarrow> usage_error + transport option" where
  "envTransport env =
     (case env (js ''B2_MCP_TRANSPORT'') of None \<Rightarrow> Inr None
      | Some v \<Rightarrow>
          (let raw = ascii_lower (js_trim v) in
           if raw = [] then Inr None
           else (case parseTransport raw of Inl e \<Rightarrow> Inl e | Inr t \<Rightarrow> Inr (Some t))))"

text \<open>
  One pass of the argument loop: an error, an early return (help and version), or the next value
  of \<open>index\<close> before its increment with the updated options and whether a transport was named.
\<close>

datatype cli_flow = Throw usage_error | Return cli_options | Continue nat cli_options bool

definition set_transport :: "jsstring \<Rightarrow> nat \<Rightarrow> cli_options \<Rightarrow> cli_flow" where
  "set_transport raw index opts =
     (case parseTransport raw of Inl e \<Rightarrow> Throw e
      | Inr t \<Rightarrow> Continue index (opts\<lparr>cli_transport := t\<rparr>) True)"

definition cli_arg :: "jsstring list \<Rightarrow> nat \<Rightarrow> cli_options \<Rightarrow> bool \<Rightarrow> cli_flow" where
  "cli_arg argv index opts explicit =
     (let arg = argv ! index in
      if arg = js ''--help'' \<or> arg = js ''-h'' then Return (opts\<lparr>action := Help\<rparr>)
      else if arg = js ''--version'' \<or> arg = js ''-v'' then Return (opts\<lparr>action := Version\<rparr>)
      else if arg = js ''stdio'' \<or> arg = js ''http'' then set_transport arg index opts
      else if arg = js ''--transport'' then
        (case arg_at argv (Suc index) of
           None \<Rightarrow> Throw (CliUsageError (js ''--transport requires stdio or http''))
         | Some value \<Rightarrow> set_transport value (Suc index) opts)
      else if prefix (js ''--transport='') arg then set_transport (drop 12 arg) index opts
      else
        (case readPortArg argv index of Inl e \<Rightarrow> Throw e
         | Inr (Some (p, n)) \<Rightarrow> Continue n (opts\<lparr>cli_port := Some p\<rparr>) explicit
         | Inr None \<Rightarrow>
             (case readHostArg argv index of Inl e \<Rightarrow> Throw e
              | Inr (Some (h, n)) \<Rightarrow> Continue n (opts\<lparr>cli_host := Some h\<rparr>) explicit
              | Inr None \<Rightarrow> Throw (CliUsageError (js ''Unknown argument: '' @ arg)))))"

lemma readPortArg_next: "readPortArg argv i = Inr (Some (p, n)) \<Longrightarrow> i \<le> n"
  by (auto simp: readPortArg_def Let_def split: if_splits option.splits sum.splits)

lemma readHostArg_next: "readHostArg argv i = Inr (Some (h, n)) \<Longrightarrow> i \<le> n"
  by (auto simp: readHostArg_def host_value_def Let_def
      split: if_splits option.splits sum.splits)

lemma cli_arg_next: "cli_arg argv i opts ex = Continue n o' ex' \<Longrightarrow> i \<le> n"
  by (auto simp: cli_arg_def set_transport_def Let_def
      split: if_splits option.splits sum.splits dest: readPortArg_next readHostArg_next)

text \<open>The loop: \<open>Inr (Inl options)\<close> is an early return.\<close>

function cli_loop ::
  "jsstring list \<Rightarrow> nat \<Rightarrow> cli_options \<Rightarrow> bool \<Rightarrow> usage_error + cli_options + cli_options \<times> bool"
where
  "cli_loop argv index opts explicit =
     (if index < length argv then
        (case cli_arg argv index opts explicit of
           Throw e \<Rightarrow> Inl e
         | Return opts' \<Rightarrow> Inr (Inl opts')
         | Continue n opts' explicit' \<Rightarrow> cli_loop argv (Suc n) opts' explicit')
      else Inr (Inr (opts, explicit)))"
  by pat_completeness auto
termination
  by (relation "measure (\<lambda>(argv, index, opts, explicit). length argv - index)")
    (auto dest: cli_arg_next)

declare cli_loop.simps [simp del]

definition default_options :: cli_options where
  "default_options = \<lparr>action = Run, cli_transport = Stdio, cli_port = None, cli_host = None\<rparr>"

definition check_flags :: "cli_options \<Rightarrow> usage_error + cli_options" where
  "check_flags opts =
     (if cli_port opts \<noteq> None \<and> cli_transport opts \<noteq> Http
      then Inl (CliUsageError (js ''--port is only valid with the HTTP transport''))
      else if cli_host opts \<noteq> None \<and> cli_transport opts \<noteq> Http
      then Inl (CliUsageError (js ''--host is only valid with the HTTP transport''))
      else Inr opts)"

definition parseCliArgs :: "jsstring list \<Rightarrow> process_env \<Rightarrow> usage_error + cli_options" where
  "parseCliArgs argv env =
     (case cli_loop argv 0 default_options False of
        Inl e \<Rightarrow> Inl e
      | Inr (Inl opts) \<Rightarrow> Inr opts
      | Inr (Inr (opts, explicit)) \<Rightarrow>
          (if explicit then check_flags opts
           else (case envTransport env of Inl e \<Rightarrow> Inl e
                 | Inr None \<Rightarrow> check_flags opts
                 | Inr (Some t) \<Rightarrow> check_flags (opts\<lparr>cli_transport := t\<rparr>))))"

section \<open>What the parsers guarantee\<close>

definition valid_port :: "nat \<Rightarrow> bool" where
  "valid_port p \<longleftrightarrow> 1 \<le> p \<and> p \<le> 65535"

definition valid_host :: "jsstring \<Rightarrow> bool" where
  "valid_host h \<longleftrightarrow> h \<noteq> [] \<and> js_trim h = h \<and> 13 \<notin> set h \<and> 10 \<notin> set h"

lemma parsePort_valid: "parsePort raw = Inr p \<Longrightarrow> valid_port p"
proof -
  assume "parsePort raw = Inr p"
  then obtain q where q: "of_int \<lfloor>q\<rfloor> = (q :: rat)" "0 < q" "q \<le> 65535" "p = nat \<lfloor>q\<rfloor>"
    by (auto simp: parsePort_def not_le not_less split: real_or_nan.splits if_splits)
  obtain z where z: "q = of_int z" using q(1) by metis
  then have "0 < z" "z \<le> 65535" "p = nat z" using q by simp_all
  then show ?thesis by (auto simp: valid_port_def)
qed

lemma parsePort_decimal: "valid_port n \<Longrightarrow> parsePort (decimal n) = Inr n"
  by (simp add: parsePort_def valid_port_def del: decimal_small decimal_large)

lemma js_trim_idem [simp]: "js_trim (js_trim s) = js_trim s"
proof (cases "js_trim s = []")
  case False
  let ?t = "dropWhile js_space s"
  let ?u = "dropWhile js_space (rev ?t)"
  have u: "?u \<noteq> []" using False by (simp add: js_trim_def)
  have h: "\<not> js_space (hd ?u)" using u hd_dropWhile by blast
  have t: "?t \<noteq> []"
  proof
    assume "?t = []"
    with u show False by (simp only: rev.simps dropWhile.simps simp_thms)
  qed
  have ht: "\<not> js_space (hd ?t)" using t hd_dropWhile by blast
  have "suffix ?u (rev ?t)" by (rule suffix_dropWhile)
  then have "prefix (rev ?u) ?t" by (simp add: suffix_to_prefix)
  then obtain zs where zs: "?t = rev ?u @ zs" by (auto simp only: prefix_def)
  have "rev ?u \<noteq> []" using u by (simp only: rev_is_Nil_conv not_False_eq_True)
  then have "hd (rev ?u) = hd ?t" using hd_append2 [of "rev ?u" zs] zs by metis
  then have "\<not> js_space (hd (rev ?u))" using ht by simp
  moreover have "\<not> js_space (last (rev ?u))" using h u by (simp add: last_rev)
  ultimately have "js_trim (rev ?u) = rev ?u" using u by (intro js_trim_id) auto
  then show ?thesis by (simp add: js_trim_def)
next
  case True
  have "js_trim [] = []" by (simp add: js_trim_def)
  with True show ?thesis by metis
qed

lemma parseHttpHost_valid: "parseHttpHost raw = Inr (Some h) \<Longrightarrow> valid_host h"
  by (auto simp: parseHttpHost_def valid_host_def Let_def split: option.splits if_splits)

lemma parseHttpHost_id: "valid_host h \<Longrightarrow> parseHttpHost (Some h) = Inr (Some h)"
  by (simp add: parseHttpHost_def valid_host_def)

lemma readPortArg_valid: "readPortArg argv i = Inr (Some (p, n)) \<Longrightarrow> valid_port p"
  by (auto simp: readPortArg_def Let_def split: if_splits option.splits sum.splits
      dest: parsePort_valid)

lemma host_value_valid: "host_value raw i = Inr (Some (h, n)) \<Longrightarrow> valid_host h"
  by (auto simp: host_value_def split: sum.splits option.splits dest: parseHttpHost_valid)

lemma readHostArg_valid: "readHostArg argv i = Inr (Some (h, n)) \<Longrightarrow> valid_host h"
  by (auto simp: readHostArg_def Let_def split: if_splits option.splits dest: host_value_valid)

text \<open>The invariant of the argument loop.\<close>

definition wf_options :: "cli_options \<Rightarrow> bool" where
  "wf_options opts \<longleftrightarrow> (\<forall>p. cli_port opts = Some p \<longrightarrow> valid_port p)
     \<and> (\<forall>h. cli_host opts = Some h \<longrightarrow> valid_host h)"

lemma wf_options_update [simp]:
  "wf_options opts \<Longrightarrow> wf_options (opts\<lparr>cli_transport := t\<rparr>)"
  "wf_options opts \<Longrightarrow> wf_options (opts\<lparr>action := a\<rparr>)"
  "wf_options opts \<Longrightarrow> valid_port p \<Longrightarrow> wf_options (opts\<lparr>cli_port := Some p\<rparr>)"
  "wf_options opts \<Longrightarrow> valid_host h \<Longrightarrow> wf_options (opts\<lparr>cli_host := Some h\<rparr>)"
  by (auto simp: wf_options_def)

lemma cli_arg_wf:
  assumes "wf_options opts"
  shows "cli_arg argv i opts ex = Return o' \<Longrightarrow> wf_options o' \<and> action o' \<noteq> Run"
    and "cli_arg argv i opts ex = Continue n o' ex' \<Longrightarrow>
           wf_options o' \<and> action o' = action opts \<and> (ex \<longrightarrow> ex')"
  using assms
  by (auto simp: cli_arg_def set_transport_def Let_def
      split: if_splits option.splits sum.splits dest: readPortArg_valid readHostArg_valid)

lemma cli_loop_wf:
  "cli_loop argv i opts ex = Inr r \<Longrightarrow> wf_options opts \<Longrightarrow>
     (case r of Inl o' \<Rightarrow> wf_options o' \<and> action o' \<noteq> Run
      | Inr (o', b) \<Rightarrow> wf_options o' \<and> action o' = action opts)"
proof (induction argv i opts ex rule: cli_loop.induct)
  case (1 argv i opts ex)
  show ?case
  proof (cases "cli_arg argv i opts ex")
    case (Continue n o' ex')
    show ?thesis
    proof (cases "i < length argv")
      case True
      with Continue "1.prems" have "cli_loop argv (Suc n) o' ex' = Inr r"
        by (simp add: cli_loop.simps [of argv i])
      from "1.IH" [OF True Continue this] cli_arg_wf(2) [OF "1.prems"(2) Continue]
      show ?thesis by (auto split: sum.splits)
    qed (use "1.prems" in \<open>auto simp: cli_loop.simps [of argv i]\<close>)
  qed (use "1.prems" in \<open>auto simp: cli_loop.simps [of argv i] split: if_splits
      dest: cli_arg_wf(1)\<close>)
qed

lemma cli_arg_explicit: "cli_arg argv i opts True = Continue n o' ex' \<Longrightarrow> ex'"
  by (auto simp: cli_arg_def set_transport_def Let_def
      split: if_splits option.splits sum.splits)

lemma cli_loop_explicit:
  "cli_loop argv i opts ex = Inr (Inr (o', b)) \<Longrightarrow> ex \<Longrightarrow> b"
proof (induction argv i opts ex rule: cli_loop.induct)
  case (1 argv i opts ex)
  then show ?case
    by (subst (asm) (2) cli_loop.simps)
      (auto split: if_splits cli_flow.splits dest: cli_arg_explicit)
qed

lemma check_flags_Inr: "check_flags opts = Inr o' \<Longrightarrow> o' = opts \<and>
    (cli_port opts \<noteq> None \<or> cli_host opts \<noteq> None \<longrightarrow> cli_transport opts = Http)"
  by (auto simp: check_flags_def split: if_splits)

text \<open>
  What a successful parse guarantees: a port that is set is a TCP port, a host that is set is
  non-empty, trimmed and on one line, and when the program is to run, a port or a host occurs
  only with the HTTP transport. (The help and version actions are returned before the flags are
  checked against the transport, so the last part is about running.)
\<close>

theorem cli_result_valid:
  assumes "parseCliArgs argv env = Inr opts"
  shows "(\<forall>p. cli_port opts = Some p \<longrightarrow> 1 \<le> p \<and> p \<le> 65535)
    \<and> (\<forall>h. cli_host opts = Some h \<longrightarrow> h \<noteq> [] \<and> js_trim h = h \<and> 13 \<notin> set h \<and> 10 \<notin> set h)
    \<and> (action opts = Run \<longrightarrow> cli_port opts \<noteq> None \<or> cli_host opts \<noteq> None \<longrightarrow>
         cli_transport opts = Http)"
proof -
  have init: "wf_options default_options" by (simp add: wf_options_def default_options_def)
  obtain r where r: "cli_loop argv 0 default_options False = Inr r"
    using assms by (auto simp: parseCliArgs_def split: sum.splits)
  have "wf_options opts \<and> (action opts = Run \<longrightarrow>
      cli_port opts \<noteq> None \<or> cli_host opts \<noteq> None \<longrightarrow> cli_transport opts = Http)"
    using assms cli_loop_wf [OF r init] r
    by (auto simp: parseCliArgs_def split: sum.splits if_splits option.splits
        dest!: check_flags_Inr)
  then show ?thesis by (auto simp: wf_options_def valid_port_def valid_host_def)
qed

lemma cli_arg_http:
  "argv ! i = js ''http'' \<Longrightarrow> cli_arg argv i opts ex = Continue i (opts\<lparr>cli_transport := Http\<rparr>) True"
  by (simp add: cli_arg_def set_transport_def parseTransport_def)

lemma cli_arg_port:
  assumes "argv ! i = js ''--port='' @ decimal p" "valid_port p"
  shows "cli_arg argv i opts ex = Continue i (opts\<lparr>cli_port := Some p\<rparr>) ex"
proof -
  have r: "readPortArg argv i = Inr (Some (p, i))"
    using assms parsePort_decimal [OF assms(2)]
    by (simp add: readPortArg_def js_def Let_def del: decimal_small decimal_large)
  have "argv ! i \<noteq> js ''--help'' \<and> argv ! i \<noteq> js ''-h'' \<and> argv ! i \<noteq> js ''--version''
      \<and> argv ! i \<noteq> js ''-v'' \<and> argv ! i \<noteq> js ''stdio'' \<and> argv ! i \<noteq> js ''http''
      \<and> argv ! i \<noteq> js ''--transport'' \<and> \<not> prefix (js ''--transport='') (argv ! i)"
    using assms(1) by (simp add: js_def del: decimal_small decimal_large)
  with r show ?thesis by (simp add: cli_arg_def Let_def)
qed

lemma cli_arg_host:
  assumes "argv ! i = js ''--host''" "Suc i < length argv" "valid_host (argv ! Suc i)"
  shows "cli_arg argv i opts ex = Continue (Suc i) (opts\<lparr>cli_host := Some (argv ! Suc i)\<rparr>) ex"
  using assms
  by (simp add: cli_arg_def readPortArg_def readHostArg_def arg_at_def host_value_def
      parseHttpHost_id) (simp add: valid_host_def)

lemma cli_render_parse:
  assumes "valid_port p" "valid_host h"
  shows "parseCliArgs [js ''http'', js ''--port='' @ decimal p, js ''--host'', h] env =
      Inr \<lparr>action = Run, cli_transport = Http, cli_port = Some p, cli_host = Some h\<rparr>"
  using assms
  by (simp add: parseCliArgs_def cli_loop.simps cli_arg_http cli_arg_port cli_arg_host
      default_options_def check_flags_def del: decimal_small decimal_large)

text \<open>
  Rendering options for the HTTP transport as arguments and parsing them gives the options
  back, whatever the environment holds.
\<close>

theorem cli_roundtrip:
  assumes "1 \<le> p" "p \<le> 65535" "h \<noteq> []" "js_trim h = h" "13 \<notin> set h" "10 \<notin> set h"
  shows "parseCliArgs [js ''http'', js ''--port='' @ decimal p, js ''--host'', h] env =
      Inr \<lparr>action = Run, cli_transport = Http, cli_port = Some p, cli_host = Some h\<rparr>"
  by (rule cli_render_parse) (use assms in \<open>simp_all add: valid_port_def valid_host_def\<close>)

theorem cli_roundtrip_witness:
  "parseCliArgs [js ''http'', js ''--port='' @ decimal 8080, js ''--host'', js ''::1''] (\<lambda>_. None) =
     Inr \<lparr>action = Run, cli_transport = Http, cli_port = Some 8080, cli_host = Some (js ''::1'')\<rparr>"
  by (rule cli_roundtrip) (simp_all add: js_def js_trim_def js_space_def)

theorem cli_result_valid_witness:
  "cli_port \<lparr>action = Run, cli_transport = Http, cli_port = Some 8080, cli_host = Some (js ''::1'')\<rparr>
      = Some (8080 :: nat) \<and> (8080 :: nat) \<le> 65535"
  using cli_result_valid [of "[js ''http'', js ''--port='' @ decimal 8080, js ''--host'', js ''::1'']"
      "\<lambda>_. None"
      "\<lparr>action = Run, cli_transport = Http, cli_port = Some 8080, cli_host = Some (js ''::1'')\<rparr>"]
    cli_render_parse [of 8080 "js ''::1''" "\<lambda>_. None"]
  by (simp add: valid_port_def valid_host_def js_def js_trim_def js_space_def
      del: decimal_small decimal_large)

text \<open>
  A transport named first on the command line decides: the environment is not read, so an
  invalid \<open>B2_MCP_TRANSPORT\<close> neither fails the parse nor changes its result.
\<close>

theorem explicit_transport_wins:
  assumes "t = js ''stdio'' \<or> t = js ''http''"
  shows "parseCliArgs (t # rest) env = parseCliArgs (t # rest) env'"
proof -
  have "\<exists>opts. cli_loop (t # rest) 0 default_options False = cli_loop (t # rest) 1 opts True"
    using assms by (subst cli_loop.simps) (auto simp: cli_arg_def set_transport_def parseTransport_def)
  then obtain opts where
    l: "cli_loop (t # rest) 0 default_options False = cli_loop (t # rest) 1 opts True" ..
  show ?thesis
    unfolding parseCliArgs_def l
    by (auto split: sum.split dest: cli_loop_explicit)
qed

theorem explicit_transport_wins_witness:
  "parseCliArgs [js ''stdio''] (\<lambda>_. Some (js ''bogus'')) = parseCliArgs [js ''stdio''] (\<lambda>_. None)"
  by (rule explicit_transport_wins) simp

lemma resolve_sample: "resolveHttpPort [js ''--port=8080''] (\<lambda>_. None) = Inr 8080"
proof -
  have "decimal 8080 = js ''8080''" by (simp add: js_def)
  then have d: "parsePort (js ''8080'') = Inr 8080"
    using parsePort_decimal [of 8080] by (simp add: valid_port_def del: decimal_large)
  have "drop 7 (js ''--port=8080'') = js ''8080''" by (simp add: js_def)
  with d show ?thesis
    by (simp add: resolveHttpPort_def port_flag_from.simps readPortArg_def)
qed

text \<open>
  The port that the HTTP entry listens on is always a TCP port. The first port flag decides and
  the environment is read only without one; with neither, the port is 3000.
\<close>

theorem http_port_resolution:
  "(\<forall>p. resolveHttpPort argv env = Inr p \<longrightarrow> 1 \<le> p \<and> p \<le> 65535)
   \<and> (resolveHttpPort [] (\<lambda>_. None) = Inr 3000)
   \<and> (resolveHttpPort argv env = resolveHttpPort argv env'
      \<or> port_flag_from argv 0 = Inr None)"
proof -
  have f: "valid_port p" if "port_flag_from argv i = Inr (Some p)" for i p
    using that
  proof (induction argv i rule: port_flag_from.induct)
    case (1 argv i)
    show ?case
      using "1.prems" "1.IH"
      by (subst (asm) port_flag_from.simps)
        (auto split: if_splits sum.splits option.splits dest!: readPortArg_valid)
  qed
  have 1: "1 \<le> p \<and> p \<le> 65535" if "resolveHttpPort argv env = Inr p" for p
  proof -
    have "valid_port p"
      using that by (auto simp: resolveHttpPort_def split: sum.splits option.splits
          dest: f parsePort_valid)
    then show ?thesis by (simp add: valid_port_def)
  qed
  have 2: "resolveHttpPort [] (\<lambda>_. None) = Inr 3000"
    by (simp add: resolveHttpPort_def port_flag_from.simps parsePort_decimal DEFAULT_HTTP_PORT_def
        valid_port_def del: decimal_small decimal_large)
  show ?thesis using 1 2 by (auto simp: resolveHttpPort_def split: sum.split option.split)
qed

theorem http_port_resolution_witness:
  "resolveHttpPort [js ''--port=8080''] (\<lambda>_. None) = Inr 8080 \<and> (8080 :: nat) \<le> 65535"
  using http_port_resolution [of "[js ''--port=8080'']" "\<lambda>_. None" "\<lambda>_. None"] resolve_sample
  by simp

end
