(* ===== verification/Token_Bucket.thy ===== *)
theory Token_Bucket
  imports Js_Number
begin

text \<open>
  The two token buckets of the server: the per-key request limiter
  (\<open>src/utils/rate-limiter.ts\<close>) and the process-wide retry budget (\<open>src/utils/retry.ts\<close>). Time
  is the value of \<open>Date.now()\<close>, an argument of every operation, which may also go backwards. Token
  counts are exact rationals where the code has doubles. A bucket that refills at rate \<open>r\<close> up to a
  capacity is one contract, the locale \<open>token_bucket\<close>; both pieces of code are instances.
\<close>

section \<open>The code\<close>

record bucket =
  tokens :: rat
  lastRefill :: int

definition DEFAULT_RPS :: int where
  "DEFAULT_RPS = 60"

definition DEFAULT_BURST :: int where
  "DEFAULT_BURST = 120"

definition IDLE_TTL_MS :: int where
  "IDLE_TTL_MS = 600000"

definition rate_env_int :: "jsstring option \<Rightarrow> int \<Rightarrow> int" where
  "rate_env_int raw fallback =
     (case raw of None \<Rightarrow> fallback
      | Some r \<Rightarrow> (if r = [] then fallback
          else (case parse_int r of None \<Rightarrow> fallback
                | Some n \<Rightarrow> if 0 < n then n else fallback)))"

record rate_config =
  rps :: int
  burst :: int

definition currentRateLimiterConfig :: "(jsstring \<Rightarrow> jsstring option) \<Rightarrow> rate_config" where
  "currentRateLimiterConfig env =
     \<lparr>rps = rate_env_int (env (js ''B2_MCP_RATE_LIMIT_RPS'')) DEFAULT_RPS,
      burst = rate_env_int (env (js ''B2_MCP_RATE_LIMIT_BURST'')) DEFAULT_BURST\<rparr>"

text \<open>The module state: the buckets by key and the time of the next opportunistic sweep.\<close>

record limiter =
  buckets :: "(jsstring, bucket) jsmap"
  nextSweepAt :: int

definition idle_bucket :: "rate_config \<Rightarrow> int \<Rightarrow> bucket \<Rightarrow> bool" where
  "idle_bucket cfg now b =
     (let idleMs = now - lastRefill b;
          refilled = min (of_int (burst cfg))
                         (tokens b + of_int (max 0 idleMs) * (of_int (rps cfg) / 1000))
      in idleMs > IDLE_TTL_MS \<and> refilled \<ge> of_int (burst cfg))"

definition sweepIdleBuckets :: "rate_config \<Rightarrow> int \<Rightarrow> limiter \<Rightarrow> limiter" where
  "sweepIdleBuckets cfg now l =
     l\<lparr>buckets := filter (\<lambda>(k, b). \<not> idle_bucket cfg now b) (buckets l)\<rparr>"

definition maybeSweepIdleBuckets :: "rate_config \<Rightarrow> int \<Rightarrow> limiter \<Rightarrow> limiter" where
  "maybeSweepIdleBuckets cfg now l =
     (if now < nextSweepAt l then l
      else sweepIdleBuckets cfg now (l\<lparr>nextSweepAt := now + IDLE_TTL_MS\<rparr>))"

text \<open>The refill and the spending of one token, written the same way in both files.\<close>

definition refill :: "rat \<Rightarrow> rat \<Rightarrow> int \<Rightarrow> bucket \<Rightarrow> bucket" where
  "refill cap rate now b =
     (if now - lastRefill b > 0
      then \<lparr>tokens = min cap (tokens b + of_int (now - lastRefill b) * rate), lastRefill = now\<rparr>
      else b)"

definition take_token :: "bucket \<Rightarrow> bool \<times> bucket" where
  "take_token b = (if tokens b \<ge> 1 then (True, b\<lparr>tokens := tokens b - 1\<rparr>) else (False, b))"

definition allowRequest :: "rate_config \<Rightarrow> int \<Rightarrow> jsstring \<Rightarrow> limiter \<Rightarrow> bool \<times> limiter" where
  "allowRequest cfg now key l =
     (let l1 = maybeSweepIdleBuckets cfg now l;
          b = (case map_get (buckets l1) key of
                 None \<Rightarrow> \<lparr>tokens = of_int (burst cfg), lastRefill = now\<rparr> | Some b \<Rightarrow> b);
          (ok, b') = take_token (refill (of_int (burst cfg)) (of_int (rps cfg) / 1000) now b)
      in (ok, l1\<lparr>buckets := map_set key b' (buckets l1)\<rparr>))"

definition BUDGET_TOKENS :: rat where
  "BUDGET_TOKENS = 100"

definition BUDGET_WINDOW_MS :: rat where
  "BUDGET_WINDOW_MS = 10000"

definition BUDGET_REFILL_PER_MS :: rat where
  "BUDGET_REFILL_PER_MS = BUDGET_TOKENS / BUDGET_WINDOW_MS"

definition consumeRetryBudgetToken :: "int \<Rightarrow> bucket \<Rightarrow> bool \<times> bucket" where
  "consumeRetryBudgetToken now b = take_token (refill BUDGET_TOKENS BUDGET_REFILL_PER_MS now b)"

section \<open>The contract of a token bucket\<close>

text \<open>
  A state with a level and a clock, and an operation \<open>attempt e now s\<close> that may grant one token (the
  event \<open>e\<close> says which operation of the code is called). The laws bound how much the level may rise
  while time passes and what a grant costs. In any run with a clock that does not step back, the
  number of grants is bounded by the level at its start and the time that passes.
\<close>

locale token_bucket =
  fixes level :: "'s \<Rightarrow> rat"
    and clock :: "'s \<Rightarrow> int"
    and attempt :: "'e \<Rightarrow> int \<Rightarrow> 's \<Rightarrow> bool \<times> 's"
    and rate :: rat
    and ok :: "'s \<Rightarrow> bool"
  assumes ok_level: "ok s \<Longrightarrow> 0 \<le> level s"
    and ok_attempt: "ok s \<Longrightarrow> clock s \<le> now \<Longrightarrow> ok (snd (attempt e now s))"
    and clock_attempt: "ok s \<Longrightarrow> clock s \<le> now \<Longrightarrow> clock (snd (attempt e now s)) = now"
    and level_attempt: "ok s \<Longrightarrow> clock s \<le> now \<Longrightarrow>
      level (snd (attempt e now s)) + (if fst (attempt e now s) then 1 else 0)
        \<le> level s + of_int (now - clock s) * rate"
begin

fun grants :: "('e \<times> int) list \<Rightarrow> 's \<Rightarrow> nat \<times> 's" where
  "grants [] s = (0, s)"
| "grants ((e, t) # ts) s =
     (let (b, s') = attempt e t s; (n, s'') = grants ts s' in ((if b then Suc n else n), s''))"

lemma grants_level:
  "ok s \<Longrightarrow> sorted (clock s # map snd ts) \<Longrightarrow>
     ok (snd (grants ts s)) \<and> clock (snd (grants ts s)) = last (clock s # map snd ts) \<and>
     of_nat (fst (grants ts s)) + level (snd (grants ts s))
       \<le> level s + of_int (clock (snd (grants ts s)) - clock s) * rate"
proof (induction ts arbitrary: s)
  case (Cons et ts)
  obtain e t where et: "et = (e, t)" by (cases et)
  let ?s = "snd (attempt e t s)"
  have t: "clock s \<le> t" using Cons.prems(2) et by simp
  have ok': "ok ?s" using ok_attempt [OF Cons.prems(1) t] .
  have c: "clock ?s = t" using clock_attempt [OF Cons.prems(1) t] .
  have "sorted (clock ?s # map snd ts)" using Cons.prems(2) c et by simp
  note ih = Cons.IH [OF ok' this]
  have st: "level ?s + (if fst (attempt e t s) then 1 else 0)
      \<le> level s + of_int (t - clock s) * rate"
    by (rule level_attempt [OF Cons.prems(1) t])
  have "of_nat (fst (grants ts ?s)) + level (snd (grants ts ?s))
      \<le> level ?s + of_int (clock (snd (grants ts ?s)) - t) * rate"
    using ih unfolding c by blast
  with st have "of_nat (fst (grants (et # ts) s)) + level (snd (grants ts ?s))
      \<le> level s + of_int (t - clock s) * rate + of_int (clock (snd (grants ts ?s)) - t) * rate"
    by (simp add: split_beta et split: if_splits)
  then show ?case using ih c by (simp add: split_beta et algebra_simps)
qed simp

theorem grants_bound:
  assumes "ok s" "sorted (clock s # map snd ts)"
  shows "of_nat (fst (grants ts s)) \<le> level s + of_int (last (clock s # map snd ts) - clock s) * rate"
proof -
  note g = grants_level [OF assms]
  then have "0 \<le> level (snd (grants ts s))" by (intro ok_level) simp
  moreover have "of_nat (fst (grants ts s)) + level (snd (grants ts s))
      \<le> level s + of_int (last (clock s # map snd ts) - clock s) * rate"
    using g by metis
  ultimately show ?thesis by linarith
qed

end

section \<open>The retry budget meets the contract\<close>

lemma take_token_simps [simp]:
  "fst (take_token b) = (1 \<le> tokens b)"
  "tokens (snd (take_token b)) = (if 1 \<le> tokens b then tokens b - 1 else tokens b)"
  "lastRefill (snd (take_token b)) = lastRefill b"
  by (simp_all add: take_token_def)

lemma lastRefill_refill [simp]: "lastRefill (refill cap rate now b) = max (lastRefill b) now"
  by (simp add: refill_def)

lemma tokens_refill:
  "tokens b \<le> cap \<Longrightarrow> lastRefill b \<le> now \<Longrightarrow>
     tokens (refill cap rate now b) = min cap (tokens b + of_int (now - lastRefill b) * rate)"
  by (auto simp: refill_def)

definition wf_bucket :: "rat \<Rightarrow> bucket \<Rightarrow> bool" where
  "wf_bucket cap b \<longleftrightarrow> 0 \<le> tokens b \<and> tokens b \<le> cap"

lemma wf_refill [simp]: "0 \<le> rate \<Longrightarrow> wf_bucket cap b \<Longrightarrow> wf_bucket cap (refill cap rate now b)"
  by (auto simp: wf_bucket_def refill_def)

lemma wf_take_token [simp]: "wf_bucket cap b \<Longrightarrow> wf_bucket cap (snd (take_token b))"
  by (auto simp: wf_bucket_def)

definition budget_attempt :: "unit \<Rightarrow> int \<Rightarrow> bucket \<Rightarrow> bool \<times> bucket" where
  "budget_attempt e now b = consumeRetryBudgetToken now b"

interpretation budget: token_bucket tokens lastRefill budget_attempt BUDGET_REFILL_PER_MS
  "wf_bucket BUDGET_TOKENS"
proof
  fix now :: int and b :: bucket and e
  have r: "0 \<le> BUDGET_REFILL_PER_MS"
    by (simp add: BUDGET_REFILL_PER_MS_def BUDGET_TOKENS_def BUDGET_WINDOW_MS_def)
  assume b: "wf_bucket BUDGET_TOKENS b"
  show "0 \<le> tokens b" using b by (simp add: wf_bucket_def)
  assume t: "lastRefill b \<le> now"
  show "wf_bucket BUDGET_TOKENS (snd (budget_attempt e now b))"
    using b r by (simp add: budget_attempt_def consumeRetryBudgetToken_def)
  show "lastRefill (snd (budget_attempt e now b)) = now"
    using t by (simp add: budget_attempt_def consumeRetryBudgetToken_def)
  show "tokens (snd (budget_attempt e now b)) + (if fst (budget_attempt e now b) then 1 else 0)
      \<le> tokens b + of_int (now - lastRefill b) * BUDGET_REFILL_PER_MS"
    using b t by (simp add: budget_attempt_def consumeRetryBudgetToken_def wf_bucket_def
        tokens_refill)
qed

section \<open>The request limiter meets the contract\<close>

text \<open>
  The abstract view of the limiter: at a time, every key has a level; a key without a bucket has
  the full burst. Evicting idle buckets is invisible in this view.
\<close>

abbreviation rate_of :: "rate_config \<Rightarrow> rat" where
  "rate_of cfg \<equiv> of_int (rps cfg) / 1000"

definition abs_level :: "rate_config \<Rightarrow> int \<Rightarrow> limiter \<Rightarrow> jsstring \<Rightarrow> rat" where
  "abs_level cfg t l k =
     (case map_get (buckets l) k of None \<Rightarrow> of_int (burst cfg)
      | Some b \<Rightarrow> tokens (refill (of_int (burst cfg)) (rate_of cfg) t b))"

definition wf_limiter :: "rate_config \<Rightarrow> int \<Rightarrow> limiter \<Rightarrow> bool" where
  "wf_limiter cfg t l \<longleftrightarrow> wf_map (buckets l) \<and> 0 < rps cfg \<and> 0 < burst cfg \<and>
     (\<forall>(k, b) \<in> set (buckets l). wf_bucket (of_int (burst cfg)) b \<and> lastRefill b \<le> t)"

lemma map_get_in: "map_get m k = Some v \<Longrightarrow> (k, v) \<in> set m"
  by (simp add: map_get_def map_of_SomeD)

lemma wf_limiter_get:
  "wf_limiter cfg t l \<Longrightarrow> map_get (buckets l) k = Some b \<Longrightarrow>
     wf_bucket (of_int (burst cfg)) b \<and> lastRefill b \<le> t"
  by (auto simp: wf_limiter_def dest!: map_get_in)

lemma wf_limiter_mono: "wf_limiter cfg t l \<Longrightarrow> t \<le> t' \<Longrightarrow> wf_limiter cfg t' l"
  by (fastforce simp: wf_limiter_def)

lemma map_of_filter_snd:
  "distinct (map fst m) \<Longrightarrow> map_of (filter (\<lambda>(k, b). P b) m) k =
     (case map_of m k of None \<Rightarrow> None | Some b \<Rightarrow> if P b then Some b else None)"
proof (induction m)
  case (Cons a m)
  have "map_of m k = None" if "k \<notin> fst ` set m" for k
    using that by (simp add: map_of_eq_None_iff)
  with Cons show ?case by (cases a) (auto split: option.split)
qed simp

lemma wf_sweep: "wf_limiter cfg t l \<Longrightarrow> wf_limiter cfg t (sweepIdleBuckets cfg now l)"
  by (auto simp: wf_limiter_def sweepIdleBuckets_def wf_map_def distinct_map_filter)

lemma abs_level_sweep:
  assumes "wf_limiter cfg t l" "t \<le> now"
  shows "abs_level cfg now (sweepIdleBuckets cfg now l) k = abs_level cfg now l k"
proof -
  have d: "distinct (map fst (buckets l))"
    using assms(1) by (simp add: wf_limiter_def wf_map_def)
  show ?thesis
  proof (cases "map_get (buckets l) k")
    case (Some b)
    with wf_limiter_get [OF assms(1) Some] assms(2) d show ?thesis
      by (auto simp: abs_level_def sweepIdleBuckets_def map_get_def map_of_filter_snd
          idle_bucket_def Let_def tokens_refill wf_bucket_def min_def max_def split: if_splits)
  qed (use d in \<open>simp add: abs_level_def sweepIdleBuckets_def map_get_def map_of_filter_snd\<close>)
qed

lemma abs_level_cong: "buckets l = buckets l' \<Longrightarrow> abs_level cfg t l = abs_level cfg t l'"
  by (rule ext) (simp add: abs_level_def)

lemma wf_limiter_cong: "buckets l = buckets l' \<Longrightarrow> wf_limiter cfg t l = wf_limiter cfg t l'"
  by (simp add: wf_limiter_def)

lemma maybe_sweep:
  assumes "wf_limiter cfg t l" "t \<le> now"
  shows "wf_limiter cfg t (maybeSweepIdleBuckets cfg now l)"
    and "abs_level cfg now (maybeSweepIdleBuckets cfg now l) = abs_level cfg now l"
proof -
  let ?l = "l\<lparr>nextSweepAt := now + IDLE_TTL_MS\<rparr>"
  have wf: "wf_limiter cfg t ?l" using assms(1) wf_limiter_cong [of ?l l] by simp
  show "wf_limiter cfg t (maybeSweepIdleBuckets cfg now l)"
    using assms(1) wf_sweep [OF wf] by (simp add: maybeSweepIdleBuckets_def)
  show "abs_level cfg now (maybeSweepIdleBuckets cfg now l) = abs_level cfg now l"
    using abs_level_sweep [OF wf assms(2)] abs_level_cong [of ?l l cfg now]
    by (auto simp: maybeSweepIdleBuckets_def)
qed

lemma min_shift: "0 \<le> d \<Longrightarrow> min B (a + (x + d)) = min B (min B (a + x) + d)" for d :: rat
  by (simp add: min_def)

lemma abs_level_advance:
  assumes "wf_limiter cfg t l" "t \<le> t'"
  shows "abs_level cfg t' l k = min (of_int (burst cfg))
           (abs_level cfg t l k + of_int (t' - t) * rate_of cfg)"
proof (cases "map_get (buckets l) k")
  case None
  moreover have "0 \<le> of_int (t' - t) * rate_of cfg"
    using assms by (simp add: wf_limiter_def)
  ultimately show ?thesis by (simp add: abs_level_def)
next
  case (Some b)
  have wfb: "wf_bucket (of_int (burst cfg)) b" "lastRefill b \<le> t"
    using wf_limiter_get [OF assms(1) Some] by simp_all
  have d: "0 \<le> of_int (t' - t) * rate_of cfg" using assms by (simp add: wf_limiter_def)
  have e: "of_int (t' - lastRefill b) * rate_of cfg =
      of_int (t - lastRefill b) * rate_of cfg + of_int (t' - t) * rate_of cfg"
    by (simp add: algebra_simps diff_divide_distrib)
  have tk: "tokens b \<le> of_int (burst cfg)" "lastRefill b \<le> t" "lastRefill b \<le> t'"
    using wfb assms(2) by (auto simp: wf_bucket_def)
  show ?thesis
    unfolding abs_level_def Some option.case tokens_refill [OF tk(1,2)] tokens_refill [OF tk(1,3)] e
    by (rule min_shift [OF d])
qed

lemma abs_level_nonneg: "wf_limiter cfg t l \<Longrightarrow> 0 \<le> abs_level cfg t l k"
proof (cases "map_get (buckets l) k")
  case (Some b)
  assume wf: "wf_limiter cfg t l"
  have "wf_bucket (of_int (burst cfg)) (refill (of_int (burst cfg)) (rate_of cfg) t b)"
    using wf wf_limiter_get [OF wf Some] by (simp add: wf_limiter_def)
  then show ?thesis using Some by (simp add: abs_level_def wf_bucket_def)
qed (simp add: abs_level_def wf_limiter_def)

lemma allowRequest_spec:
  assumes wf: "wf_limiter cfg t l" and t: "t \<le> now"
    and r: "allowRequest cfg now key l = (ok, l')"
  shows "ok \<longleftrightarrow> 1 \<le> abs_level cfg now l key"
    and "abs_level cfg now l' =
          (abs_level cfg now l)(key := abs_level cfg now l key - (if ok then 1 else 0))"
    and "wf_limiter cfg now l'"
proof -
  define l1 where "l1 = maybeSweepIdleBuckets cfg now l"
  define b where "b = (case map_get (buckets l1) key of
      None \<Rightarrow> \<lparr>tokens = of_int (burst cfg), lastRefill = now\<rparr> | Some b \<Rightarrow> b)"
  define c where "c = refill (of_int (burst cfg)) (rate_of cfg) now b"
  have wf1: "wf_limiter cfg now l1" and lv: "abs_level cfg now l1 = abs_level cfg now l"
    using maybe_sweep [OF wf t] wf_limiter_mono [OF _ t] by (simp_all add: l1_def)
  have pos: "0 < rps cfg" "0 < burst cfg" using wf by (simp_all add: wf_limiter_def)
  have bw: "wf_bucket (of_int (burst cfg)) b \<and> lastRefill b \<le> now"
    using wf_limiter_get [OF wf1, of key] pos by (auto simp: b_def wf_bucket_def split: option.split)
  have cw: "wf_bucket (of_int (burst cfg)) c" "lastRefill c = now"
    using bw pos by (simp_all add: c_def)
  have ck: "tokens c = abs_level cfg now l key"
    using lv pos by (auto simp: c_def b_def abs_level_def refill_def fun_eq_iff
        dest!: spec [of _ key] split: option.splits)
  have ok: "ok \<longleftrightarrow> 1 \<le> tokens c" and
    l': "l' = l1\<lparr>buckets := map_set key (snd (take_token c)) (buckets l1)\<rparr>"
    using r by (auto simp: allowRequest_def Let_def l1_def b_def c_def split_beta)
  show "ok \<longleftrightarrow> 1 \<le> abs_level cfg now l key" using ok ck by simp
  have same: "refill B r now (snd (take_token c)) = snd (take_token c)" for B r
    using cw by (simp add: refill_def)
  have get: "map_get (buckets l') = (map_get (buckets l1))(key \<mapsto> snd (take_token c))"
    by (simp add: l')
  show "abs_level cfg now l' =
      (abs_level cfg now l)(key := abs_level cfg now l key - (if ok then 1 else 0))"
    using ck ok unfolding lv [symmetric]
    by (auto simp: abs_level_def get same fun_eq_iff)
  have "wf_map (buckets l')" using wf1 by (simp add: l' wf_limiter_def)
  moreover have "wf_bucket (of_int (burst cfg)) b' \<and> lastRefill b' \<le> now"
    if "(k, b') \<in> set (buckets l')" for k b'
  proof -
    have "map_get (buckets l') k = Some b'"
      using that \<open>wf_map (buckets l')\<close> by (simp add: map_get_def wf_map_def)
    then have "k = key \<and> b' = snd (take_token c) \<or> map_get (buckets l1) k = Some b'"
      unfolding get by (auto split: if_splits)
    then show ?thesis using cw wf_limiter_get [OF wf1, of k b'] by auto
  qed
  ultimately show "wf_limiter cfg now l'" using pos by (auto simp: wf_limiter_def)
qed

lemma sweep_spec:
  assumes "wf_limiter cfg t l" "t \<le> now"
  shows "abs_level cfg now (sweepIdleBuckets cfg now l) = abs_level cfg now l"
    and "wf_limiter cfg now (sweepIdleBuckets cfg now l)"
  using abs_level_sweep [OF assms] wf_limiter_mono [OF wf_sweep [OF assms(1)] assms(2)] by auto

text \<open>
  The events on the limiter, and the run of a limiter seen from one key: a grant is counted when a
  request of that key is allowed.
\<close>

datatype limiter_event = Request jsstring | Sweep

fun limiter_step :: "rate_config \<Rightarrow> limiter_event \<Rightarrow> int \<Rightarrow> limiter \<Rightarrow> bool \<times> limiter" where
  "limiter_step cfg (Request k) now l = allowRequest cfg now k l"
| "limiter_step cfg Sweep now l = (False, sweepIdleBuckets cfg now l)"

definition key_attempt ::
  "rate_config \<Rightarrow> jsstring \<Rightarrow> limiter_event \<Rightarrow> int \<Rightarrow> limiter \<times> int \<Rightarrow> bool \<times> limiter \<times> int" where
  "key_attempt cfg k e now s =
     (let (ok, l') = limiter_step cfg e now (fst s) in (ok \<and> e = Request k, (l', now)))"

interpretation limiter: token_bucket "\<lambda>s. abs_level cfg (snd s) (fst s) k" snd "key_attempt cfg k"
  "rate_of cfg" "\<lambda>s. wf_limiter cfg (snd s) (fst s)" for cfg k
proof
  fix s :: "limiter \<times> int" and now :: int and e
  assume wf: "wf_limiter cfg (snd s) (fst s)"
  show "0 \<le> abs_level cfg (snd s) (fst s) k" using abs_level_nonneg [OF wf] .
  assume t: "snd s \<le> now"
  obtain okb l' where r: "limiter_step cfg e now (fst s) = (okb, l')" by fastforce
  have step: "wf_limiter cfg now l' \<and>
      abs_level cfg now l' k + (if okb \<and> e = Request k then 1 else 0) \<le> abs_level cfg now (fst s) k"
  proof (cases e)
    case (Request key)
    with r have "allowRequest cfg now key (fst s) = (okb, l')" by simp
    from allowRequest_spec [OF wf t this] Request show ?thesis by auto
  next
    case Sweep
    with r sweep_spec [OF wf t] show ?thesis by auto
  qed
  show "wf_limiter cfg (snd (snd (key_attempt cfg k e now s))) (fst (snd (key_attempt cfg k e now s)))"
    using step r by (simp add: key_attempt_def)
  show "snd (snd (key_attempt cfg k e now s)) = now"
    using r by (simp add: key_attempt_def)
  have "abs_level cfg now (fst s) k \<le> abs_level cfg (snd s) (fst s) k + of_int (now - snd s) * rate_of cfg"
    unfolding abs_level_advance [OF wf t] by simp
  with step r show "abs_level cfg (snd (snd (key_attempt cfg k e now s)))
        (fst (snd (key_attempt cfg k e now s))) k
      + (if fst (key_attempt cfg k e now s) then 1 else 0)
      \<le> abs_level cfg (snd s) (fst s) k + of_int (now - snd s) * rate_of cfg"
    by (simp add: key_attempt_def)
qed

fun run_limiter :: "rate_config \<Rightarrow> jsstring \<Rightarrow> (limiter_event \<times> int) list \<Rightarrow> limiter \<Rightarrow> nat" where
  "run_limiter cfg k [] l = 0"
| "run_limiter cfg k ((e, t) # evs) l =
     (let (ok, l') = limiter_step cfg e t l
      in (if ok \<and> e = Request k then 1 else 0) + run_limiter cfg k evs l')"

lemma run_limiter_grants: "run_limiter cfg k evs l = fst (limiter.grants cfg k evs (l, c))"
proof (induction evs arbitrary: l c)
  case (Cons et evs)
  obtain e t where et: "et = (e, t)" by (cases et)
  obtain okb l' where r: "limiter_step cfg e t l = (okb, l')" by fastforce
  have "fst (limiter.grants cfg k (et # evs) (l, c)) =
      (if okb \<and> e = Request k then 1 else 0) + fst (limiter.grants cfg k evs (l', t))"
    using r et by (simp add: key_attempt_def split_beta)
  then show ?case using Cons.IH [of l' t] r et by simp
qed simp

section \<open>Properties\<close>

text \<open>
  The rate limit. Whatever other keys do and whenever idle buckets are swept, the requests of one
  key that are allowed in a run are at most the burst plus the refill of the time that passes.
\<close>

theorem rate_limit_bound:
  assumes "wf_limiter cfg t0 l" "sorted (t0 # map snd evs)"
  shows "of_nat (run_limiter cfg k evs l)
    \<le> of_int (burst cfg) + of_int (last (t0 # map snd evs) - t0) * (of_int (rps cfg) / 1000 :: rat)"
proof -
  have "of_nat (run_limiter cfg k evs l)
      \<le> abs_level cfg t0 l k + of_int (last (t0 # map snd evs) - t0) * rate_of cfg"
    using limiter.grants_bound [of cfg "(l, t0)" evs k] assms
    by (simp add: run_limiter_grants [of cfg k evs l t0])
  moreover have "abs_level cfg t0 l k \<le> of_int (burst cfg)"
    using abs_level_advance [OF assms(1) order_refl, of k] by linarith
  ultimately show ?thesis by linarith
qed

lemma wf_empty_limiter: "0 < rps cfg \<Longrightarrow> 0 < burst cfg \<Longrightarrow>
    wf_limiter cfg t \<lparr>buckets = [], nextSweepAt = n\<rparr>"
  by (simp add: wf_limiter_def)

theorem rate_limit_bound_witness:
  "of_nat (run_limiter \<lparr>rps = 60, burst = 120\<rparr> (js ''rate:a'')
      [(Request (js ''rate:a''), 5), (Request (js ''rate:b''), 7), (Sweep, 8), (Request (js ''rate:a''), 55)]
      \<lparr>buckets = [], nextSweepAt = 0\<rparr>)
   \<le> (123 :: rat)"
  using rate_limit_bound [of "\<lparr>rps = 60, burst = 120\<rparr>" 5 "\<lparr>buckets = [], nextSweepAt = 0\<rparr>"
      "[(Request (js ''rate:a''), 5), (Request (js ''rate:b''), 7), (Sweep, 8), (Request (js ''rate:a''), 55)]"
      "js ''rate:a''"]
  by (simp add: wf_empty_limiter)

text \<open>
  (C26) The limiter implements a table of levels, one for each key, in which no bucket is ever created or
  evicted: a request is allowed exactly when the level of its key has a token, it spends that token
  and touches no other key. The sweeps that \<open>allowRequest\<close> runs do not show.
\<close>

theorem allow_request_refines:
  assumes "wf_limiter cfg t l" "t \<le> now" "allowRequest cfg now key l = (ok, l')"
  shows "(ok \<longleftrightarrow> 1 \<le> abs_level cfg now l key)
    \<and> abs_level cfg now l' = (abs_level cfg now l)(key := abs_level cfg now l key - (if ok then 1 else 0))
    \<and> wf_limiter cfg now l'"
  using allowRequest_spec [OF assms] by blast

theorem allow_request_refines_witness:
  "fst (allowRequest \<lparr>rps = 60, burst = 120\<rparr> 5 (js ''rate:a'') \<lparr>buckets = [], nextSweepAt = 0\<rparr>)"
  using allow_request_refines [of "\<lparr>rps = 60, burst = 120\<rparr>" 5 "\<lparr>buckets = [], nextSweepAt = 0\<rparr>" 5
      "js ''rate:a''", OF _ order_refl prod.collapse [symmetric]]
  by (simp add: abs_level_def wf_empty_limiter)

text \<open>
  Memory. When a bucket refills within the idle time, as with the default settings, what a sweep
  leaves was used within the last ten minutes; and a sweep never drops a bucket that is not full.
\<close>

theorem sweep_bounds_memory:
  assumes "wf_limiter cfg t l" "t \<le> now" "burst cfg * 1000 \<le> rps cfg * IDLE_TTL_MS"
  shows "(\<forall>(k, b) \<in> set (buckets (sweepIdleBuckets cfg now l)). now - lastRefill b \<le> IDLE_TTL_MS)
    \<and> (\<forall>k. map_get (buckets l) k \<noteq> None \<longrightarrow> abs_level cfg now l k < of_int (burst cfg) \<longrightarrow>
         map_get (buckets (sweepIdleBuckets cfg now l)) k = map_get (buckets l) k)"
proof -
  have recent: "now - lastRefill b \<le> IDLE_TTL_MS"
    if "(k, b) \<in> set (buckets (sweepIdleBuckets cfg now l))" for k b
  proof (rule ccontr)
    assume idle: "\<not> now - lastRefill b \<le> IDLE_TTL_MS"
    have b: "(k, b) \<in> set (buckets l)" "\<not> idle_bucket cfg now b"
      using that by (auto simp: sweepIdleBuckets_def)
    have tk: "0 \<le> tokens b" and r: "0 < rps cfg"
      using assms(1) b(1) by (auto simp: wf_limiter_def wf_bucket_def)
    have "rps cfg * IDLE_TTL_MS \<le> rps cfg * (now - lastRefill b)"
      using idle r by (intro mult_left_mono) auto
    then have "burst cfg * 1000 \<le> rps cfg * (now - lastRefill b)" using assms(3) by linarith
    then have "(of_int (burst cfg * 1000) :: rat) \<le> of_int (rps cfg * (now - lastRefill b))"
      by (simp only: of_int_le_iff)
    then have "of_int (burst cfg) \<le> tokens b + of_int (now - lastRefill b) * (rate_of cfg)"
      using tk by (simp add: mult.commute)
    with idle b(2) show False
      by (auto simp: idle_bucket_def Let_def IDLE_TTL_MS_def max_def split: if_splits)
  qed
  have keep: "map_get (buckets (sweepIdleBuckets cfg now l)) k = map_get (buckets l) k"
    if k: "map_get (buckets l) k \<noteq> None" "abs_level cfg now l k < of_int (burst cfg)" for k
  proof -
    obtain b where b: "map_get (buckets l) k = Some b" using k(1) by auto
    have d: "distinct (map fst (buckets l))"
      using assms(1) by (simp add: wf_limiter_def wf_map_def)
    have "\<not> idle_bucket cfg now b"
      using k(2) b wf_limiter_get [OF assms(1) b] assms(2)
      by (auto simp: idle_bucket_def Let_def abs_level_def tokens_refill wf_bucket_def max_def
          split: if_splits)
    with b d show ?thesis
      by (simp add: sweepIdleBuckets_def map_get_def map_of_filter_snd)
  qed
  from recent keep show ?thesis by blast
qed

theorem sweep_bounds_memory_witness:
  "let l = \<lparr>buckets = [(js ''rate:a'', \<lparr>tokens = 3, lastRefill = 10\<rparr>)], nextSweepAt = 0\<rparr>;
       cfg = \<lparr>rps = 60, burst = 120\<rparr>
   in map_get (buckets (sweepIdleBuckets cfg 20 l)) (js ''rate:a'') = map_get (buckets l) (js ''rate:a'')"
  using sweep_bounds_memory [of "\<lparr>rps = 60, burst = 120\<rparr>" 10
      "\<lparr>buckets = [(js ''rate:a'', \<lparr>tokens = 3, lastRefill = 10\<rparr>)], nextSweepAt = 0\<rparr>" 20]
  by (simp add: wf_limiter_def wf_map_def wf_bucket_def IDLE_TTL_MS_def abs_level_def map_get_def
      refill_def)

fun granted_retries :: "int list \<Rightarrow> bucket \<Rightarrow> nat" where
  "granted_retries [] b = 0"
| "granted_retries (t # ts) b =
     (let (ok, b') = consumeRetryBudgetToken t b in (if ok then 1 else 0) + granted_retries ts b')"

lemma granted_retries_grants:
  "granted_retries ts b = fst (budget.grants (map (Pair ()) ts) b)"
  by (induction ts arbitrary: b) (simp_all add: budget_attempt_def split_beta)

text \<open>
  The retry budget. However many callers retry and however their retries interleave, the retries
  granted process-wide are at most the tokens at hand plus ten for each second that passes.
\<close>

theorem retry_budget_bound:
  assumes "0 \<le> tokens b" "tokens b \<le> 100" "sorted (lastRefill b # ts)"
  shows "of_nat (granted_retries ts b)
    \<le> tokens b + of_int (last (lastRefill b # ts) - lastRefill b) / (100 :: rat)"
proof -
  have m: "map snd (map (Pair ()) ts) = ts" by (induction ts) simp_all
  have "wf_bucket BUDGET_TOKENS b" using assms by (simp add: wf_bucket_def BUDGET_TOKENS_def)
  from budget.grants_bound [OF this, of "map (Pair ()) ts"] assms(3)
  show ?thesis
    unfolding m granted_retries_grants
    by (simp add: BUDGET_REFILL_PER_MS_def BUDGET_TOKENS_def BUDGET_WINDOW_MS_def)
qed

theorem retry_budget_bound_witness:
  "of_nat (granted_retries [10, 20, 120] \<lparr>tokens = 1, lastRefill = 10\<rparr>) \<le> (2 + 1 / 10 :: rat)"
  using retry_budget_bound [of "\<lparr>tokens = 1, lastRefill = 10\<rparr>" "[10, 20, 120]"] by simp

end
