(* ===== verification/Admission.thy ===== *)
theory Admission
  imports Js_Prelude "HOL-Library.Multiset"
begin

text \<open>
  Bounded concurrency: the in-flight request limiter of \<open>src/http-fetch-handler.ts\<close>
  (\<open>createInFlightLimiter\<close>) and the bounded worker loop of \<open>src/utils/concurrency.ts\<close>
  (\<open>forEachBounded\<close>).

  The limiter's abstraction is the multiset of keys under which requests are in flight; a request
  acquires a slot, may move it to another key once its principal is known, and releases it. The
  worker loop is a step relation: any worker may take the next step, the callbacks may settle in any
  order, and the signal may abort at any time.
\<close>

section \<open>The in-flight limiter\<close>

record in_flight =
  active :: nat
  byKey :: "(jsstring, nat) jsmap"

datatype admission = Admitted | Refused nat jsstring

definition total_refusal :: admission where
  "total_refusal = Refused 503 (js ''Too many in-flight MCP requests'')"

definition key_refusal :: admission where
  "key_refusal = Refused 429 (js ''Too many in-flight MCP requests for credential'')"

definition slots :: "in_flight \<Rightarrow> jsstring \<Rightarrow> nat" where
  "slots s k = (case map_get (byKey s) k of None \<Rightarrow> 0 | Some n \<Rightarrow> n)"

definition acquire :: "nat \<Rightarrow> nat \<Rightarrow> jsstring \<Rightarrow> in_flight \<Rightarrow> admission \<times> in_flight" where
  "acquire maxTotal maxPerKey k s =
     (if maxTotal \<le> active s then (total_refusal, s)
      else if maxPerKey \<le> slots s k then (key_refusal, s)
      else (Admitted, s\<lparr>active := active s + 1, byKey := map_set k (slots s k + 1) (byKey s)\<rparr>))"

definition drop_slot :: "jsstring \<Rightarrow> in_flight \<Rightarrow> (jsstring, nat) jsmap" where
  "drop_slot k s =
     (if slots s k \<le> 1 then map_delete k (byKey s) else map_set k (slots s k - 1) (byKey s))"

definition rekey :: "nat \<Rightarrow> jsstring \<Rightarrow> jsstring \<Rightarrow> in_flight \<Rightarrow> admission \<times> in_flight" where
  "rekey maxPerKey fromKey toKey s =
     (if fromKey = toKey then (Admitted, s)
      else let nextCurrent = slots s toKey in
        if maxPerKey \<le> nextCurrent then (key_refusal, s)
        else (Admitted, s\<lparr>byKey := map_set toKey (nextCurrent + 1) (drop_slot fromKey s)\<rparr>))"

definition release :: "jsstring \<Rightarrow> in_flight \<Rightarrow> in_flight" where
  "release k s = s\<lparr>byKey := drop_slot k s, active := active s - 1\<rparr>"

definition empty_in_flight :: in_flight where
  "empty_in_flight = \<lparr>active = 0, byKey = []\<rparr>"

section \<open>The contract of a slot pool\<close>

text \<open>
  What the request pipeline relies on: the state represents a multiset of held keys, an admitted
  acquisition adds its key, a refused one changes nothing, a release removes a key that is held.
\<close>

locale slot_pool =
  fixes holds :: "'s \<Rightarrow> 'k multiset \<Rightarrow> bool"
    and get_slot :: "'k \<Rightarrow> 's \<Rightarrow> bool \<times> 's"
    and put_slot :: "'k \<Rightarrow> 's \<Rightarrow> 's"
    and move_slot :: "'k \<Rightarrow> 'k \<Rightarrow> 's \<Rightarrow> bool \<times> 's"
  assumes get_slot: "holds s M \<Longrightarrow>
      holds (snd (get_slot k s)) (if fst (get_slot k s) then add_mset k M else M)"
    and put_slot: "holds s M \<Longrightarrow> k \<in># M \<Longrightarrow> holds (put_slot k s) (M - {#k#})"
    and move_slot: "holds s M \<Longrightarrow> k \<in># M \<Longrightarrow>
      holds (snd (move_slot k k' s)) (if fst (move_slot k k' s) then add_mset k' (M - {#k#}) else M)"
begin

text \<open>
  The life of one request: it enters under a key; when it is admitted it may be moved to a second
  key (a refusal of the move ends it), and it gives its slot back under the key that it then holds.
\<close>

definition request_cycle :: "'k \<Rightarrow> 'k option \<Rightarrow> ('s \<Rightarrow> 's) \<Rightarrow> 's \<Rightarrow> 's" where
  "request_cycle k k' body s =
     (let (ok, s1) = get_slot k s in
      if \<not> ok then s1
      else case k' of None \<Rightarrow> put_slot k (body s1)
        | Some q \<Rightarrow> (let (moved, s2) = move_slot k q s1 in
            if moved then put_slot q (body s2) else put_slot k s2))"

lemma cycle_restores:
  assumes "holds s M" and body: "\<And>N s. holds s N \<Longrightarrow> holds (body s) N"
  shows "holds (request_cycle k k' body s) M"
proof -
  obtain b s1 where g: "get_slot k s = (b, s1)" by fastforce
  have s1: "holds s1 (if b then add_mset k M else M)" using get_slot [OF assms(1), of k] g by simp
  show ?thesis
  proof (cases b)
    case True
    with s1 have h: "holds s1 (add_mset k M)" by simp
    show ?thesis
    proof (cases k')
      case None
      from put_slot [OF body [OF h], of k] True None g show ?thesis
        by (simp add: request_cycle_def)
    next
      case (Some q)
      obtain m s2 where mv: "move_slot k q s1 = (m, s2)" by fastforce
      have s2: "holds s2 (if m then add_mset q M else add_mset k M)"
        using move_slot [OF h, of k q] mv by (simp split: if_splits)
      show ?thesis
      proof (cases m)
        case True
        with put_slot [OF body [OF s2], of q] Some g mv \<open>b\<close> show ?thesis
          by (simp add: request_cycle_def)
      next
        case False
        with put_slot [OF s2, of k] Some g mv \<open>b\<close> show ?thesis
          by (simp add: request_cycle_def)
      qed
    qed
  qed (use s1 g in \<open>simp add: request_cycle_def\<close>)
qed

end

section \<open>The limiter is a slot pool\<close>

definition in_use :: "nat \<Rightarrow> nat \<Rightarrow> in_flight \<Rightarrow> jsstring multiset \<Rightarrow> bool" where
  "in_use maxTotal maxPerKey s M \<longleftrightarrow>
     (\<forall>k. slots s k = count M k) \<and> wf_map (byKey s) \<and> active s = size M
     \<and> size M \<le> maxTotal \<and> (\<forall>k. count M k \<le> maxPerKey)"

lemma in_use_empty: "in_use maxTotal maxPerKey empty_in_flight {#}"
  by (simp add: in_use_def empty_in_flight_def slots_def)

lemma slots_drop:
  "wf_map (byKey s) \<Longrightarrow>
     (case map_get (drop_slot k s) k' of None \<Rightarrow> 0 | Some n \<Rightarrow> n)
       = (if k' = k then slots s k - 1 else slots s k')"
  by (auto simp: drop_slot_def slots_def)

lemma wf_drop [simp]: "wf_map (byKey s) \<Longrightarrow> wf_map (drop_slot k s)"
  by (simp add: drop_slot_def)

lemma acquire_spec:
  assumes "in_use maxTotal maxPerKey s M"
  shows "fst (acquire maxTotal maxPerKey k s) = Admitted \<longleftrightarrow> size M < maxTotal \<and> count M k < maxPerKey"
    and "fst (acquire maxTotal maxPerKey k s) = Admitted \<Longrightarrow>
      in_use maxTotal maxPerKey (snd (acquire maxTotal maxPerKey k s)) (add_mset k M)"
    and "fst (acquire maxTotal maxPerKey k s) \<noteq> Admitted \<Longrightarrow> snd (acquire maxTotal maxPerKey k s) = s"
  using assms
  by (auto simp: acquire_def in_use_def slots_def total_refusal_def key_refusal_def not_le
      split: if_splits option.splits)

lemma release_spec:
  assumes "in_use maxTotal maxPerKey s M" "k \<in># M"
  shows "in_use maxTotal maxPerKey (release k s) (M - {#k#})"
proof -
  have "wf_map (byKey s)" using assms(1) by (simp add: in_use_def)
  then have s: "slots (release k s) k' = (if k' = k then slots s k - 1 else slots s k')" for k'
    using slots_drop [of s k k'] by (simp add: release_def slots_def)
  have "size (M - {#k#}) = size M - 1" using assms(2) by (simp add: size_Diff_singleton)
  then show ?thesis
    using assms s by (auto simp: in_use_def release_def le_diff_conv intro: order_trans)
qed

lemma rekey_spec:
  assumes u: "in_use maxTotal maxPerKey s M" and k: "k \<in># M"
  shows "fst (rekey maxPerKey k k' s) = Admitted \<longleftrightarrow> k = k' \<or> count M k' < maxPerKey"
    and "fst (rekey maxPerKey k k' s) = Admitted \<Longrightarrow>
      in_use maxTotal maxPerKey (snd (rekey maxPerKey k k' s)) (add_mset k' (M - {#k#}))"
    and "fst (rekey maxPerKey k k' s) \<noteq> Admitted \<Longrightarrow> snd (rekey maxPerKey k k' s) = s"
proof -
  show "fst (rekey maxPerKey k k' s) = Admitted \<longleftrightarrow> k = k' \<or> count M k' < maxPerKey"
    using u by (auto simp: rekey_def in_use_def key_refusal_def Let_def not_le)
  show "fst (rekey maxPerKey k k' s) \<noteq> Admitted \<Longrightarrow> snd (rekey maxPerKey k k' s) = s"
    by (auto simp: rekey_def Let_def split: if_splits)
  assume ok: "fst (rekey maxPerKey k k' s) = Admitted"
  show "in_use maxTotal maxPerKey (snd (rekey maxPerKey k k' s)) (add_mset k' (M - {#k#}))"
  proof (cases "k = k'")
    case True
    then show ?thesis using u k by (simp add: rekey_def)
  next
    case False
    let ?s = "snd (rekey maxPerKey k k' s)"
    have wf: "wf_map (byKey s)" and room: "slots s k' < maxPerKey"
      using u ok False by (auto simp: rekey_def in_use_def key_refusal_def Let_def split: if_splits)
    have s': "?s = s\<lparr>byKey := map_set k' (slots s k' + 1) (drop_slot k s)\<rparr>"
      using room False by (simp add: rekey_def Let_def)
    have sl: "slots ?s q = (if q = k' then slots s k' + 1 else if q = k then slots s k - 1 else slots s q)"
      for q
      using slots_drop [OF wf, of k q] False by (simp add: s' slots_def)
    have sz: "size (add_mset k' (M - {#k#})) = size M"
      using k by (simp add: size_Diff_singleton) (metis Suc_pred count_empty mset_subset_eq_single
          not_gr_zero not_in_iff size_eq_0_iff_empty)
    have "count M q - 1 \<le> maxPerKey" for q
      using u by (auto simp: in_use_def intro: order_trans [OF diff_le_self])
    then show ?thesis
      using u wf sl room sz False unfolding in_use_def
      by (auto simp: s' Suc_le_eq)
  qed
qed

interpretation pool: slot_pool "in_use maxTotal maxPerKey"
  "\<lambda>k s. (fst (acquire maxTotal maxPerKey k s) = Admitted, snd (acquire maxTotal maxPerKey k s))"
  release
  "\<lambda>k k' s. (fst (rekey maxPerKey k k' s) = Admitted, snd (rekey maxPerKey k k' s))"
  for maxTotal maxPerKey
proof
  fix s k M
  assume u: "in_use maxTotal maxPerKey s M"
  show "in_use maxTotal maxPerKey
      (snd (fst (acquire maxTotal maxPerKey k s) = Admitted, snd (acquire maxTotal maxPerKey k s)))
      (if fst (fst (acquire maxTotal maxPerKey k s) = Admitted, snd (acquire maxTotal maxPerKey k s))
       then add_mset k M else M)"
    using acquire_spec(2) [OF u, of k] acquire_spec(3) [OF u, of k] u
    by (cases "fst (acquire maxTotal maxPerKey k s) = Admitted") simp_all
  assume k: "k \<in># M"
  show "in_use maxTotal maxPerKey (release k s) (M - {#k#})" by (rule release_spec [OF u k])
  fix k'
  show "in_use maxTotal maxPerKey
      (snd (fst (rekey maxPerKey k k' s) = Admitted, snd (rekey maxPerKey k k' s)))
      (if fst (fst (rekey maxPerKey k k' s) = Admitted, snd (rekey maxPerKey k k' s))
       then add_mset k' (M - {#k#}) else M)"
    using rekey_spec(2) [OF u k, of k'] rekey_spec(3) [OF u k, of k'] u
    by (cases "fst (rekey maxPerKey k k' s) = Admitted") simp_all
qed

section \<open>Bounded workers\<close>

text \<open>
  A worker is about to take an index, is running the callback on one, has returned, or its callback
  has rejected. The shared state of \<open>forEachBounded\<close> is \<open>nextIndex\<close>, \<open>aborted\<close> and the signal;
  \<open>started\<close> logs the indexes on which the callback was called, in order.
\<close>

datatype worker = Ready | Running nat | Returned | Rejected

record loop_state =
  nextIndex :: nat
  seen_abort :: bool
  signal_aborted :: bool
  workers :: "worker list"
  started :: "nat list"

definition DEFAULT_BOUNDED_WORKER_CONCURRENCY :: nat where
  "DEFAULT_BOUNDED_WORKER_CONCURRENCY = 8"

definition worker_count :: "nat option \<Rightarrow> nat \<Rightarrow> nat" where
  "worker_count maxConcurrency n =
     (if n = 0 then 0
      else min (case maxConcurrency of None \<Rightarrow> DEFAULT_BOUNDED_WORKER_CONCURRENCY | Some m \<Rightarrow> m) n)"

definition loop_start :: "nat option \<Rightarrow> bool \<Rightarrow> nat \<Rightarrow> loop_state" where
  "loop_start maxConcurrency sig n =
     \<lparr>nextIndex = 0, seen_abort = sig, signal_aborted = sig,
      workers = replicate (worker_count maxConcurrency n) Ready, started = []\<rparr>"

text \<open>The pass of a worker through the loop head: abort check, then the next index.\<close>

definition take_index :: "nat \<Rightarrow> nat \<Rightarrow> loop_state \<Rightarrow> loop_state" where
  "take_index n w s =
     (if signal_aborted s then s\<lparr>seen_abort := True, workers := (workers s)[w := Returned]\<rparr>
      else let index = nextIndex s; s' = s\<lparr>nextIndex := index + 1\<rparr> in
        if n \<le> index then s'\<lparr>workers := (workers s)[w := Returned]\<rparr>
        else s'\<lparr>workers := (workers s)[w := Running index], started := started s @ [index]\<rparr>)"

inductive loop_step :: "nat \<Rightarrow> loop_state \<Rightarrow> loop_state \<Rightarrow> bool" for n where
  Take: "w < length (workers s) \<Longrightarrow> workers s ! w = Ready \<Longrightarrow> loop_step n s (take_index n w s)"
| Resolve: "w < length (workers s) \<Longrightarrow> workers s ! w = Running i \<Longrightarrow>
    loop_step n s (s\<lparr>workers := (workers s)[w := Ready]\<rparr>)"
| Reject: "w < length (workers s) \<Longrightarrow> workers s ! w = Running i \<Longrightarrow>
    loop_step n s (s\<lparr>workers := (workers s)[w := Rejected]\<rparr>)"
| Abort: "\<not> signal_aborted s \<Longrightarrow> loop_step n s (s\<lparr>signal_aborted := True\<rparr>)"

inductive loop_run :: "nat \<Rightarrow> loop_state \<Rightarrow> loop_state \<Rightarrow> bool" for n where
  Stop: "loop_run n s s"
| More: "loop_run n s s' \<Longrightarrow> loop_step n s' s'' \<Longrightarrow> loop_run n s s''"

definition running :: "worker \<Rightarrow> bool" where
  "running w \<longleftrightarrow> (\<exists>i. w = Running i)"

definition all_returned :: "loop_state \<Rightarrow> bool" where
  "all_returned s \<longleftrightarrow> (\<forall>w \<in> set (workers s). w = Returned)"

text \<open>\<open>aborted || options.signal?.aborted === true\<close>\<close>

definition loop_aborted :: "loop_state \<Rightarrow> bool" where
  "loop_aborted s \<longleftrightarrow> seen_abort s \<or> signal_aborted s"

definition loop_inv :: "nat \<Rightarrow> nat \<Rightarrow> loop_state \<Rightarrow> bool" where
  "loop_inv n m s \<longleftrightarrow> length (workers s) = m \<and> started s = [0..<min (nextIndex s) n]
     \<and> (\<forall>w i. w < m \<longrightarrow> workers s ! w = Running i \<longrightarrow> i < min (nextIndex s) n)
     \<and> (\<forall>w w' i. w < m \<longrightarrow> w' < m \<longrightarrow> workers s ! w = Running i \<longrightarrow> workers s ! w' = Running i \<longrightarrow> w = w')
     \<and> (seen_abort s \<longrightarrow> signal_aborted s)
     \<and> (\<not> signal_aborted s \<longrightarrow> (\<exists>w < m. workers s ! w = Returned) \<longrightarrow> n \<le> nextIndex s)"

lemma loop_inv_start: "loop_inv n (worker_count mc n) (loop_start mc sig n)"
  by (auto simp: loop_inv_def loop_start_def)

lemma take_index_inv:
  assumes inv: "loop_inv n m s" and w: "w < m" "workers s ! w = Ready"
  shows "loop_inv n m (take_index n w s)"
proof (cases "signal_aborted s")
  case True
  with inv w show ?thesis by (auto simp: loop_inv_def take_index_def nth_list_update)
next
  case False
  note inv' = inv [unfolded loop_inv_def]
  show ?thesis
  proof (cases "n \<le> nextIndex s")
    case True
    have m: "min (nextIndex s) n = n" "min (Suc (nextIndex s)) n = n" using True by simp_all
    have ran: "workers s ! v = Running i" if "(workers s)[w := Returned] ! v = Running i" for v i
    proof (cases "w < length (workers s) \<and> v = w")
      case True
      with that show ?thesis by simp
    next
      case False
      with that inv' w show ?thesis by simp
    qed
    from True False inv' show ?thesis
      unfolding loop_inv_def take_index_def Let_def
      by (simp add: m) (metis ran)
  next
    case le: False
    have fresh: "workers s ! v \<noteq> Running (nextIndex s)" if "v < m" for v
      using inv' that by fastforce
    have old: "i < Suc (nextIndex s)" if "v < m" "workers s ! v = Running i" for v i
      using inv' that by fastforce
    let ?s = "take_index n w s"
    have s': "nextIndex ?s = Suc (nextIndex s)" "workers ?s = (workers s)[w := Running (nextIndex s)]"
      "started ?s = started s @ [nextIndex s]" "seen_abort ?s = seen_abort s"
      "signal_aborted ?s = signal_aborted s"
      using le False by (simp_all add: take_index_def Let_def)
    have "started ?s = [0..<min (nextIndex ?s) n]"
      using inv' le by (simp add: s' min_def)
    moreover have "i < min (nextIndex ?s) n" if "v < m" "workers ?s ! v = Running i" for v i
      using that old [of v i] le inv' w by (auto simp: s' nth_list_update min_def split: if_splits)
    moreover have "v = v'"
      if "v < m" "v' < m" "workers ?s ! v = Running i" "workers ?s ! v' = Running i" for v v' i
      using that fresh [of v] fresh [of v'] inv' w
      by (cases "v = w"; cases "v' = w") (auto simp: s' nth_list_update)
    moreover have "n \<le> nextIndex ?s" if "\<exists>v < m. workers ?s ! v = Returned"
      using that inv' w False by (auto simp: s' nth_list_update split: if_splits)
    ultimately show ?thesis using inv' False unfolding loop_inv_def by (simp add: s')
  qed
qed

lemma step_inv: "loop_step n s s' \<Longrightarrow> loop_inv n m s \<Longrightarrow> loop_inv n m s'"
proof (induction rule: loop_step.induct)
  case (Take w s)
  then show ?case using take_index_inv [of n m s w] by (simp add: loop_inv_def)
next
  case (Resolve w s i)
  then show ?case by (auto simp: loop_inv_def nth_list_update)
next
  case (Reject w s i)
  then show ?case by (auto simp: loop_inv_def nth_list_update)
qed (auto simp: loop_inv_def)

lemma run_inv: "loop_run n s s' \<Longrightarrow> loop_inv n m s \<Longrightarrow> loop_inv n m s'"
  by (induction rule: loop_run.induct) (auto intro: step_inv)

text \<open>Every pass is finite: the measure that each step decreases.\<close>

fun worker_weight :: "worker \<Rightarrow> nat" where
  "worker_weight Ready = 1"
| "worker_weight (Running i) = 2"
| "worker_weight w = 0"

definition loop_measure :: "nat \<Rightarrow> loop_state \<Rightarrow> nat" where
  "loop_measure n s = 2 * (n - nextIndex s) + sum_list (map worker_weight (workers s))
     + (if signal_aborted s then 0 else 1)"

lemma sum_weight_update:
  "w < length ws \<Longrightarrow> sum_list (map worker_weight (ws[w := x])) + worker_weight (ws ! w)
     = sum_list (map worker_weight ws) + worker_weight x"
proof (induction ws arbitrary: w)
  case (Cons a ws)
  then show ?case by (cases w) auto
qed simp

lemma step_decreases: "loop_step n s s' \<Longrightarrow> loop_measure n s' < loop_measure n s"
proof (induction rule: loop_step.induct)
  case (Take w s)
  then show ?case
    using sum_weight_update [of w "workers s" Returned]
      sum_weight_update [of w "workers s" "Running (nextIndex s)"]
    by (auto simp: loop_measure_def take_index_def Let_def)
next
  case (Resolve w s i)
  then show ?case using sum_weight_update [of w "workers s" Ready] by (simp add: loop_measure_def)
next
  case (Reject w s i)
  then show ?case using sum_weight_update [of w "workers s" Rejected] by (simp add: loop_measure_def)
qed (simp add: loop_measure_def)

lemma steps_bounded: "(loop_step n ^^ k) s s' \<Longrightarrow> k + loop_measure n s' \<le> loop_measure n s"
proof (induction k arbitrary: s')
  case (Suc k)
  then obtain t where "(loop_step n ^^ k) s t" "loop_step n t s'" by auto
  with Suc.IH [of t] step_decreases [of n t s'] show ?case by simp
qed simp

section \<open>Properties\<close>

text \<open>
  The in-flight limiter implements a multiset of held keys with two limits: an acquisition is
  admitted exactly when the total and the key have room (the total is checked first), a move to
  another key exactly when that key has room, a refusal changes nothing, and the counters always
  equal the multiset.
\<close>

theorem in_flight_refines_multiset:
  assumes "in_use maxTotal maxPerKey s M"
  shows "(fst (acquire maxTotal maxPerKey k s) =
            (if maxTotal \<le> size M then total_refusal
             else if maxPerKey \<le> count M k then key_refusal else Admitted))
    \<and> in_use maxTotal maxPerKey (snd (acquire maxTotal maxPerKey k s))
        (if size M < maxTotal \<and> count M k < maxPerKey then add_mset k M else M)
    \<and> (k \<in># M \<longrightarrow> in_use maxTotal maxPerKey (release k s) (M - {#k#}))
    \<and> (k \<in># M \<longrightarrow> in_use maxTotal maxPerKey (snd (rekey maxPerKey k k' s))
        (if k = k' \<or> count M k' < maxPerKey then add_mset k' (M - {#k#}) else M))"
proof (intro conjI impI)
  show "fst (acquire maxTotal maxPerKey k s) =
          (if maxTotal \<le> size M then total_refusal
           else if maxPerKey \<le> count M k then key_refusal else Admitted)"
    using assms by (simp add: in_use_def acquire_def)
  show "in_use maxTotal maxPerKey (snd (acquire maxTotal maxPerKey k s))
      (if size M < maxTotal \<and> count M k < maxPerKey then add_mset k M else M)"
    using acquire_spec [OF assms, of k] assms by auto
  assume k: "k \<in># M"
  show "in_use maxTotal maxPerKey (release k s) (M - {#k#})" by (rule release_spec [OF assms k])
  show "in_use maxTotal maxPerKey (snd (rekey maxPerKey k k' s))
      (if k = k' \<or> count M k' < maxPerKey then add_mset k' (M - {#k#}) else M)"
    using rekey_spec [OF assms k, of k'] assms by auto
qed

theorem in_flight_refines_multiset_witness:
  "fst (acquire 2 1 (js ''a'') empty_in_flight) = Admitted"
  using in_flight_refines_multiset [OF in_use_empty [of 2 1], of "js ''a''"] by simp

text \<open>
  No slot leaks and none is freed twice: a request that enters under one key, may be moved to the
  key of its principal, and leaves under the key it then holds, restores exactly the slots that
  were held before, whether it was refused, refused at the move, or served.
\<close>

theorem request_cycle_restores_slots:
  assumes "in_use maxTotal maxPerKey s M"
    and "\<And>N s. in_use maxTotal maxPerKey s N \<Longrightarrow> in_use maxTotal maxPerKey (body s) N"
  shows "in_use maxTotal maxPerKey (pool.request_cycle maxTotal maxPerKey k k' body s) M"
  using assms by (rule pool.cycle_restores)

theorem request_cycle_restores_slots_witness:
  "in_use 2 1 (pool.request_cycle 2 1 (js ''a'') (Some (js ''b'')) id empty_in_flight) {#}"
  by (rule request_cycle_restores_slots [OF in_use_empty]) simp

text \<open>
  In every interleaving of the workers, callback outcomes and aborts, the callback is called on
  the indexes in order without a gap and on none twice, and never on more of them at once than
  there are workers; there are never more workers than items.
\<close>

theorem bounded_each_once:
  assumes "loop_run n (loop_start mc sig n) s"
  shows "started s = [0..<length (started s)] \<and> length (started s) \<le> n
    \<and> length (filter running (workers s)) \<le> worker_count mc n \<and> worker_count mc n \<le> n
    \<and> (\<forall>i. length (filter (\<lambda>w. w = Running i) (workers s)) \<le> 1)"
proof -
  note inv = run_inv [OF assms loop_inv_start, unfolded loop_inv_def]
  have one: "length (filter (\<lambda>w. w = Running i) (workers s)) \<le> 1" for i
  proof -
    have "card {v. v < length (workers s) \<and> workers s ! v = Running i} \<le> 1"
      using inv by (subst One_nat_def, subst card_le_Suc0_iff_eq) auto
    then show ?thesis by (simp add: length_filter_conv_card)
  qed
  have st: "started s = [0..<min (nextIndex s) n]" and m: "length (workers s) = worker_count mc n"
    using inv by blast+
  have "length (started s) = min (nextIndex s) n" by (simp add: st)
  moreover have "length (filter running (workers s)) \<le> worker_count mc n"
    using length_filter_le [of running "workers s"] m by simp
  moreover have "worker_count mc n \<le> n" by (simp add: worker_count_def)
  ultimately show ?thesis using st one by (metis min.cobounded2)
qed

theorem bounded_each_once_witness:
  "length (started (take_index 3 0 (loop_start (Some 2) False 3))) \<le> 3"
proof -
  have "loop_step 3 (loop_start (Some 2) False 3) (take_index 3 0 (loop_start (Some 2) False 3))"
    by (rule loop_step.Take) (simp_all add: loop_start_def worker_count_def)
  from bounded_each_once [OF loop_run.More [OF loop_run.Stop this]] show ?thesis by blast
qed

text \<open>
  When every worker has returned and no abort was seen, the callback has been called on every
  item; this needs at least one worker (a limit of zero visits nothing).
\<close>

theorem bounded_visits_all:
  assumes "loop_run n (loop_start mc sig n) s" "all_returned s" "\<not> loop_aborted s" "mc \<noteq> Some 0"
  shows "started s = [0..<n]"
proof (cases "n = 0")
  case False
  note inv = run_inv [OF assms(1) loop_inv_start, unfolded loop_inv_def]
  have m: "0 < worker_count mc n"
    using False assms(4) by (auto simp: worker_count_def DEFAULT_BOUNDED_WORKER_CONCURRENCY_def
        split: option.split)
  then have "workers s ! 0 = Returned"
    using inv assms(2) by (auto simp: all_returned_def)
  then have "n \<le> nextIndex s" using inv m assms(3) by (auto simp: loop_aborted_def)
  then show ?thesis using inv by (simp add: min_def)
qed (use run_inv [OF assms(1) loop_inv_start] in \<open>simp add: loop_inv_def\<close>)

theorem bounded_visits_all_witness:
  "started (loop_start None False 0) = [0..<0]"
  by (rule bounded_visits_all [OF loop_run.Stop])
    (simp_all add: loop_start_def worker_count_def all_returned_def loop_aborted_def)

text \<open>
  The loop ends: no run has more than \<open>2 n\<close> steps and one for each worker and for the abort, and
  as long as a worker has neither returned nor rejected some worker can take a step.
\<close>

theorem bounded_loop_terminates:
  "((loop_step n ^^ k) (loop_start mc sig n) s \<longrightarrow> k \<le> 2 * n + worker_count mc n + 1)
   \<and> ((\<exists>w < length (workers s). workers s ! w \<notin> {Returned, Rejected}) \<longrightarrow> (\<exists>s'. loop_step n s s'))"
proof (intro conjI impI)
  assume "(loop_step n ^^ k) (loop_start mc sig n) s"
  from steps_bounded [OF this] show "k \<le> 2 * n + worker_count mc n + 1"
    by (simp add: loop_measure_def loop_start_def sum_list_replicate split: if_splits)
next
  assume "\<exists>w < length (workers s). workers s ! w \<notin> {Returned, Rejected}"
  then obtain w where w: "w < length (workers s)" "workers s ! w \<notin> {Returned, Rejected}" by blast
  show "\<exists>s'. loop_step n s s'"
    using w by (cases "workers s ! w") (auto intro: loop_step.intros)
qed

theorem bounded_loop_terminates_witness: "\<exists>s'. loop_step 3 (loop_start (Some 2) False 3) s'"
proof -
  let ?s = "loop_start (Some 2) False 3"
  have "\<exists>w < length (workers ?s). workers ?s ! w \<notin> {Returned, Rejected}"
    by (rule exI [of _ 0]) (simp add: loop_start_def worker_count_def)
  then show ?thesis using bounded_loop_terminates [where s = ?s and n = 3] by blast
qed

end
