(* ===== verification/Retry.thy ===== *)
theory Retry
  imports Token_Bucket
begin

text \<open>
  Retries with exponential backoff (\<open>src/utils/retry.ts\<close>) and the abort errors they raise
  (\<open>src/utils/named-error.ts\<close>). An error is the JavaScript value that was thrown. One call of
  \<open>withRetry\<close> runs against a world that answers, for each attempt, what the signal shows at the two
  checks and during the sleep, what the operation returns and what the clock reads when the budget
  is asked; the retry budget is the state that all callers share. The trace lists the operation
  calls, the budget tokens taken and the sleeps.
\<close>

definition namedError :: "jsstring \<Rightarrow> jsstring \<Rightarrow> jsval" where
  "namedError message name = Obj [(js ''message'', Str message), (js ''name'', Str name)]"

definition abortError :: "jsstring \<Rightarrow> jsval" where
  "abortError message = namedError message (js ''AbortError'')"

text \<open>A property of a value that \<open>typeof\<close> calls an object.\<close>

fun own_prop :: "jsval \<Rightarrow> jsstring \<Rightarrow> jsval" where
  "own_prop (Obj ps) k = prop_get ps k"
| "own_prop v k = Undefined"

fun is_number :: "jsval \<Rightarrow> bool" where
  "is_number (Num n) = True"
| "is_number v = False"

definition status_of :: "jsval \<Rightarrow> jsstring \<Rightarrow> jsstring \<Rightarrow> jsnum option" where
  "status_of err holder field =
     (if is_object (own_prop err holder)
      then (case own_prop (own_prop err holder) field of Num n \<Rightarrow> Some n | _ \<Rightarrow> None) else None)"

definition getStatusCode :: "jsval \<Rightarrow> jsnum option" where
  "getStatusCode err =
     (if is_object err then
        (case status_of err (js ''response'') (js ''status'') of
           Some n \<Rightarrow> Some n
         | None \<Rightarrow> (case status_of err (js ''$metadata'') (js ''httpStatusCode'') of
             Some n \<Rightarrow> Some n
           | None \<Rightarrow> (case own_prop err (js ''status'') of Num n \<Rightarrow> Some n | _ \<Rightarrow> None)))
      else None)"

definition RETRYABLE_STATUS_CODES :: "jsnum set" where
  "RETRYABLE_STATUS_CODES = set (map num_of_nat [408, 429, 500, 502, 503, 504])"

definition isRetryableError :: "jsval \<Rightarrow> bool" where
  "isRetryableError err =
     (if is_object err \<and> own_prop err (js ''retryable'') = Bool True then True
      else if is_object err \<and> own_prop err (js ''retryable'') = Bool False then False
      else (case getStatusCode err of None \<Rightarrow> False | Some n \<Rightarrow> n \<in> RETRYABLE_STATUS_CODES))"

definition MAX_RETRIES :: nat where
  "MAX_RETRIES = 3"

definition BASE_DELAY_MS :: nat where
  "BASE_DELAY_MS = 1000"

text \<open>What the world answers during one attempt; an aborted signal is given with its reason.\<close>

record 'a attempt_world =
  aborted_before :: "jsval option"
  outcome :: "jsval + 'a"
  aborted_after :: "jsval option"
  clock_reads :: int
  aborted_asleep :: "jsval option"

datatype retry_event = Call nat | Spend | Sleep nat

definition abort_reason :: "jsval \<Rightarrow> jsval" where
  "abort_reason reason = (if nullish reason then abortError (js ''Aborted'') else reason)"

text \<open>
  The loop from attempt \<open>attempt\<close>: the result, the shared budget afterwards and the trace. The
  recursion is on the attempts that are left, so \<open>retries - attempt\<close>.
\<close>

fun retry_from ::
  "nat \<Rightarrow> nat \<Rightarrow> (nat \<Rightarrow> 'a attempt_world) \<Rightarrow> bucket \<Rightarrow> (jsval + 'a) \<times> bucket \<times> retry_event list"
where
  "retry_from left attempt world b =
     (let w = world attempt in
      case aborted_before w of
        Some reason \<Rightarrow> (Inl (abort_reason reason), b, [])
      | None \<Rightarrow>
        (case outcome w of
           Inr v \<Rightarrow> (Inr v, b, [Call attempt])
         | Inl err \<Rightarrow>
           (case aborted_after w of
              Some reason \<Rightarrow> (Inl (abort_reason reason), b, [Call attempt])
            | None \<Rightarrow>
              (if \<not> isRetryableError err then (Inl err, b, [Call attempt])
               else case left of
                 0 \<Rightarrow> (Inl err, b, [Call attempt])
               | Suc left' \<Rightarrow>
                 (case consumeRetryBudgetToken (clock_reads w) b of
                    (False, b') \<Rightarrow> (Inl err, b', [Call attempt])
                  | (True, b') \<Rightarrow>
                    (let delay = BASE_DELAY_MS * 2 ^ attempt in
                     case aborted_asleep w of
                       Some reason \<Rightarrow> (Inl (abort_reason reason), b', [Call attempt, Spend, Sleep delay])
                     | None \<Rightarrow>
                         (let (r, b'', tr) = retry_from left' (Suc attempt) world b'
                          in (r, b'', Call attempt # Spend # Sleep delay # tr))))))))"

declare retry_from.simps [simp del]

definition withRetry ::
  "nat \<Rightarrow> (nat \<Rightarrow> 'a attempt_world) \<Rightarrow> bucket \<Rightarrow> (jsval + 'a) \<times> bucket \<times> retry_event list" where
  "withRetry retries world b = retry_from retries 0 world b"

section \<open>The shape of a trace\<close>

text \<open>\<open>n\<close> failed attempts, each followed by its token and its sleep.\<close>

definition failed_attempts :: "nat \<Rightarrow> nat \<Rightarrow> retry_event list" where
  "failed_attempts a n = concat (map (\<lambda>i. [Call i, Spend, Sleep (1000 * 2 ^ i)]) [a..<a + n])"

lemma failed_attempts_0 [simp]: "failed_attempts a 0 = []"
  by (simp add: failed_attempts_def)

lemma failed_attempts_Suc:
  "failed_attempts a (Suc n) = [Call a, Spend, Sleep (1000 * 2 ^ a)] @ failed_attempts (Suc a) n"
proof -
  have "[a..<a + Suc n] = a # [Suc a..<Suc a + n]" by (simp add: upt_rec)
  then show ?thesis by (simp add: failed_attempts_def)
qed

text \<open>An attempt that fails in a way that is retried, with no abort around it.\<close>

definition retried :: "'a attempt_world \<Rightarrow> bool" where
  "retried w \<longleftrightarrow> aborted_before w = None \<and> aborted_after w = None \<and>
     (\<exists>err. outcome w = Inl err \<and> isRetryableError err)"

section \<open>When the loop goes on\<close>

text \<open>
  An attempt after which the loop goes on: it failed in a way that is retried, nothing was aborted,
  and the budget had a token.
\<close>

definition goes_on :: "'a attempt_world \<Rightarrow> bucket \<Rightarrow> bool" where
  "goes_on w b \<longleftrightarrow> aborted_before w = None \<and> aborted_after w = None \<and> aborted_asleep w = None \<and>
     (\<exists>err. outcome w = Inl err \<and> isRetryableError err) \<and> fst (consumeRetryBudgetToken (clock_reads w) b)"

fun budget_after :: "nat \<Rightarrow> nat \<Rightarrow> (nat \<Rightarrow> 'a attempt_world) \<Rightarrow> bucket \<Rightarrow> bucket" where
  "budget_after 0 a world b = b"
| "budget_after (Suc n) a world b =
     budget_after n (Suc a) world (snd (consumeRetryBudgetToken (clock_reads (world a)) b))"

lemma retry_goes_on:
  assumes "goes_on (world a) b"
  shows "retry_from (Suc left) a world b =
    (let (r, b', tr) = retry_from left (Suc a) world
        (snd (consumeRetryBudgetToken (clock_reads (world a)) b))
     in (r, b', [Call a, Spend, Sleep (1000 * 2 ^ a)] @ tr))"
  using assms
  by (subst retry_from.simps)
    (auto simp: goes_on_def BASE_DELAY_MS_def Let_def split: prod.split bool.split)

definition retry_stop :: "'a attempt_world \<Rightarrow> (jsval + 'a) \<Rightarrow> bool" where
  "retry_stop w r \<longleftrightarrow>
     (case r of Inr v \<Rightarrow> aborted_before w = None \<and> outcome w = Inr v
      | Inl e \<Rightarrow> (aborted_before w = None \<and> outcome w = Inl e)
          \<or> (\<exists>reason \<in> set_option (aborted_before w) \<union> set_option (aborted_after w)
               \<union> set_option (aborted_asleep w). e = abort_reason reason))"

lemma retry_stops:
  assumes "left = 0 \<or> \<not> goes_on (world a) b" "retry_from left a world b = (r, b', tr)"
  shows "retry_stop (world a) r"
    and "r = Inr v \<longleftrightarrow> aborted_before (world a) = None \<and> outcome (world a) = Inr v"
    and "tr = [] \<or> tr = [Call a] \<or> left \<noteq> 0 \<and> tr = [Call a, Spend, Sleep (1000 * 2 ^ a)]"
    and "tr = [] \<longleftrightarrow> aborted_before (world a) \<noteq> None"
  using assms
  by (auto simp: retry_from.simps [of left] goes_on_def retry_stop_def BASE_DELAY_MS_def Let_def
      split: option.splits sum.splits if_splits nat.splits prod.splits bool.splits)

lemma retry_success:
  "fst (retry_from left a world b) = Inr v \<longleftrightarrow>
     (\<exists>n \<le> left. (\<forall>i < n. goes_on (world (a + i)) (budget_after i a world b))
        \<and> aborted_before (world (a + n)) = None \<and> outcome (world (a + n)) = Inr v)"
proof (induction left arbitrary: a b)
  case 0
  obtain r b' tr where r: "retry_from 0 a world b = (r, b', tr)" by (cases "retry_from 0 a world b")
  show ?case using retry_stops(2) [OF _ r] r by auto
next
  case (Suc left)
  show ?case
  proof (cases "goes_on (world a) b")
    case True
    let ?b = "snd (consumeRetryBudgetToken (clock_reads (world a)) b)"
    have "fst (retry_from (Suc left) a world b) = fst (retry_from left (Suc a) world ?b)"
      by (simp add: retry_goes_on [of world a b, OF True] split_beta Let_def)
    also have "\<dots> = Inr v \<longleftrightarrow> (\<exists>n \<le> left.
        (\<forall>i < n. goes_on (world (Suc a + i)) (budget_after i (Suc a) world ?b))
        \<and> aborted_before (world (Suc a + n)) = None \<and> outcome (world (Suc a + n)) = Inr v)"
      by (rule Suc.IH)
    also have "\<dots> \<longleftrightarrow> (\<exists>n \<le> Suc left.
        (\<forall>i < n. goes_on (world (a + i)) (budget_after i a world b))
        \<and> aborted_before (world (a + n)) = None \<and> outcome (world (a + n)) = Inr v)"
      (is "?L \<longleftrightarrow> ?R")
    proof
      assume ?L
      then obtain n where n: "n \<le> left"
        "\<forall>i < n. goes_on (world (Suc a + i)) (budget_after i (Suc a) world ?b)"
        "aborted_before (world (Suc a + n)) = None" "outcome (world (Suc a + n)) = Inr v" by blast
      have "goes_on (world (a + i)) (budget_after i a world b)" if "i < Suc n" for i
        using that n(2) True by (cases i) auto
      then show ?R using n by (intro exI [of _ "Suc n"]) auto
    next
      assume ?R
      then obtain n where n: "n \<le> Suc left" "\<forall>i < n. goes_on (world (a + i)) (budget_after i a world b)"
        "aborted_before (world (a + n)) = None" "outcome (world (a + n)) = Inr v" by blast
      have "n \<noteq> 0"
      proof
        assume "n = 0"
        with n(4) True show False by (auto simp: goes_on_def)
      qed
      then obtain m where m: "n = Suc m" by (cases n) auto
      have "goes_on (world (Suc a + i)) (budget_after i (Suc a) world ?b)" if "i < m" for i
        using n(2) that m by (auto dest!: spec [of _ "Suc i"])
      then show ?L using n m by (intro exI [of _ m]) auto
    qed
    finally show ?thesis .
  next
    case False
    obtain r b' tr where r: "retry_from (Suc left) a world b = (r, b', tr)"
      by (cases "retry_from (Suc left) a world b")
    have "n = 0" if "\<forall>i < n. goes_on (world (a + i)) (budget_after i a world b)" for n
      using that False by (cases n) auto
    then show ?thesis using retry_stops(2) [OF _ r] r False by fastforce
  qed
qed

lemma retry_trace:
  "retry_from left a world b = (r, b', tr) \<Longrightarrow>
     \<exists>n tail. tr = failed_attempts a n @ tail \<and> n \<le> left \<and> (tail = [] \<or> tail = [Call (a + n)])
       \<and> (\<exists>k. a \<le> k \<and> k \<le> a + n \<and> retry_stop (world k) r)"
proof (induction left arbitrary: a b r b' tr)
  case 0
  then show ?case
    using retry_stops(1,3) [OF _ "0.prems"] by (intro exI [of _ 0]) auto
next
  case (Suc left)
  show ?case
  proof (cases "goes_on (world a) b")
    case True
    obtain tr' where t: "retry_from left (Suc a) world
        (snd (consumeRetryBudgetToken (clock_reads (world a)) b)) = (r, b', tr')"
      and tr: "tr = [Call a, Spend, Sleep (1000 * 2 ^ a)] @ tr'"
      using Suc.prems unfolding retry_goes_on [of world a b, OF True] by (auto simp: Let_def split: prod.splits)
    from Suc.IH [OF t] obtain n tail k where
      "tr' = failed_attempts (Suc a) n @ tail" "n \<le> left" "tail = [] \<or> tail = [Call (Suc a + n)]"
      "Suc a \<le> k" "k \<le> Suc a + n" "retry_stop (world k) r" by blast
    then show ?thesis
      by (intro exI [of _ "Suc n"] exI [of _ tail])
        (auto simp: tr failed_attempts_Suc intro!: exI [of _ k])
  next
    case False
    note st = retry_stops(1,3) [OF _ Suc.prems]
    from False st(2) consider "tr = [] \<or> tr = [Call a]" | "tr = [Call a, Spend, Sleep (1000 * 2 ^ a)]"
      by blast
    then show ?thesis
    proof cases
      case 1
      with st(1) False show ?thesis by (intro exI [of _ 0]) auto
    next
      case 2
      with st(1) False show ?thesis
        by (intro exI [of _ 1] exI [of _ "[]"]) (auto simp: failed_attempts_def)
    qed
  qed
qed

section \<open>Properties\<close>

text \<open>
  Success. A call of \<open>withRetry\<close> returns a value exactly when some attempt within the limit returns
  it and every earlier attempt failed retryably, with no abort and with a token in the budget.
\<close>

theorem retry_succeeds_iff:
  "fst (withRetry retries world b) = Inr v \<longleftrightarrow>
     (\<exists>n \<le> retries. (\<forall>i < n. goes_on (world i) (budget_after i 0 world b))
        \<and> aborted_before (world n) = None \<and> outcome (world n) = Inr v)"
  using retry_success [of retries 0 world b v] by (simp add: withRetry_def)

definition flaky :: "nat \<Rightarrow> nat attempt_world" where
  "flaky n = \<lparr>aborted_before = None,
     outcome = (if n < 2 then Inl (Obj [(js ''status'', Num (num_of_nat 503))]) else Inr 7),
     aborted_after = None, clock_reads = 5, aborted_asleep = None\<rparr>"

lemma flaky_retryable: "isRetryableError (Obj [(js ''status'', Num (num_of_nat 503))])"
  by (simp add: isRetryableError_def getStatusCode_def status_of_def RETRYABLE_STATUS_CODES_def)

theorem retry_succeeds_iff_witness:
  "fst (withRetry 3 flaky \<lparr>tokens = 2, lastRefill = 5\<rparr>) = Inr 7"
proof -
  have "goes_on (flaky i) (budget_after i 0 flaky \<lparr>tokens = 2, lastRefill = 5\<rparr>)" if "i < 2" for i
  proof -
    from that consider "i = 0" | "i = Suc 0" by linarith
    then show ?thesis
      by cases (simp_all add: goes_on_def flaky_def flaky_retryable consumeRetryBudgetToken_def
          refill_def take_token_def)
  qed
  then show ?thesis
    unfolding retry_succeeds_iff by (intro exI [of _ 2]) (simp add: flaky_def)
qed

text \<open>
  Cost. Whatever happens, the trace is a row of failed attempts, each with its token of the budget
  and its sleep of one second doubled every time, and at most one last call; so there are at most
  \<open>retries + 1\<close> calls and one token less than that. The result is decided by one of these attempts: its
  outcome, or the reason of an abort seen there.
\<close>

theorem retry_cost:
  assumes "withRetry retries world b = (r, b', tr)"
  shows "\<exists>n tail. tr = concat (map (\<lambda>i. [Call i, Spend, Sleep (1000 * 2 ^ i)]) [0..<n]) @ tail
    \<and> n \<le> retries \<and> (tail = [] \<or> tail = [Call n]) \<and> (\<exists>k \<le> n. retry_stop (world k) r)"
  using retry_trace [of retries 0 world b r b' tr] assms
  by (auto simp: withRetry_def failed_attempts_def)

theorem retry_cost_witness:
  "\<exists>n tail. snd (snd (withRetry 3 flaky \<lparr>tokens = 2, lastRefill = 5\<rparr>)) =
     concat (map (\<lambda>i. [Call i, Spend, Sleep (1000 * 2 ^ i)]) [0..<n]) @ tail \<and> n \<le> 3"
proof -
  obtain r b' tr where w: "withRetry 3 flaky \<lparr>tokens = 2, lastRefill = 5\<rparr> = (r, b', tr)"
    by (cases "withRetry 3 flaky \<lparr>tokens = 2, lastRefill = 5\<rparr>")
  from retry_cost [OF w] show ?thesis by (auto simp: w)
qed

text \<open>
  An error that is not retryable ends the call at once: one operation call, the same error, and
  the shared budget is not touched. An error that says it is not retryable is not, whatever its
  status.
\<close>

theorem non_retryable_fails_fast:
  assumes "aborted_before (world 0) = None" "outcome (world 0) = Inl err"
    "aborted_after (world 0) = None"
    "\<not> isRetryableError err \<or> own_prop err (js ''retryable'') = Bool False"
  shows "withRetry retries world b = (Inl err, b, [Call 0])"
proof -
  have "\<not> isRetryableError err"
  proof
    assume r: "isRetryableError err"
    with assms(4) have f: "own_prop err (js ''retryable'') = Bool False" by blast
    then have "is_object err" by (cases err) simp_all
    with f have "\<not> isRetryableError err" unfolding isRetryableError_def by simp
    with r show False by blast
  qed
  with assms(1-3) show ?thesis
    unfolding withRetry_def by (subst retry_from.simps) (simp add: Let_def)
qed

theorem non_retryable_fails_fast_witness:
  "withRetry 3 (\<lambda>n. \<lparr>aborted_before = None, outcome = Inl (Obj [(js ''retryable'', Bool False)]) :: jsval + nat,
       aborted_after = None, clock_reads = 5, aborted_asleep = None\<rparr>) \<lparr>tokens = 2, lastRefill = 5\<rparr> =
   (Inl (Obj [(js ''retryable'', Bool False)]), \<lparr>tokens = 2, lastRefill = 5\<rparr>, [Call 0])"
  by (rule non_retryable_fails_fast) simp_all

end
