(* ===== verification/Caches.thy ===== *)
theory Caches
  imports B2_Types Js_Number
begin

text \<open>
  The process-wide caches of \<open>src/server.ts\<close>: resolved key capabilities with their in-flight
  discoveries, and B2 auth managers. A cache is an insertion-ordered map whose entries expire;
  reading a live entry moves it to the end, so that the front is the least recently used. Time is an
  argument, and the environment a function from names to values.
\<close>

record 'v entry =
  payload :: 'v
  expiresAt :: int

type_synonym 'v cache = "(jsstring, 'v entry) jsmap"

definition DEFAULT_CAPABILITY_CACHE_TTL_MS :: int where
  "DEFAULT_CAPABILITY_CACHE_TTL_MS = 300000"

definition DEFAULT_CAPABILITY_CACHE_MAX_ENTRIES :: int where
  "DEFAULT_CAPABILITY_CACHE_MAX_ENTRIES = 10000"

definition DEFAULT_AUTH_MANAGER_CACHE_TTL_MS :: int where
  "DEFAULT_AUTH_MANAGER_CACHE_TTL_MS = 82800000"

type_synonym env = "jsstring \<Rightarrow> jsstring option"

text \<open>\<open>process.env.X ? parseIntEnv(process.env.X, d) : d\<close>\<close>

definition env_int_or :: "jsstring option \<Rightarrow> int \<Rightarrow> int" where
  "env_int_or raw d = (case raw of None \<Rightarrow> d | Some r \<Rightarrow> if r = [] then d else parseIntEnv raw d)"

definition capabilityCacheTtlMs :: "env \<Rightarrow> int" where
  "capabilityCacheTtlMs env =
     max 0 (env_int_or (env (js ''B2_CAPABILITY_CACHE_TTL_MS'')) DEFAULT_CAPABILITY_CACHE_TTL_MS)"

definition capabilityCacheMaxEntries :: "env \<Rightarrow> int" where
  "capabilityCacheMaxEntries env =
     max 1 (env_int_or (env (js ''B2_CAPABILITY_CACHE_MAX_ENTRIES''))
              DEFAULT_CAPABILITY_CACHE_MAX_ENTRIES)"

definition registerAllTools :: "env \<Rightarrow> bool" where
  "registerAllTools env \<longleftrightarrow> env (js ''B2_REGISTER_ALL_TOOLS'') = Some (js ''true'')"

section \<open>Operations on one cache\<close>

definition live :: "int \<Rightarrow> 'v entry \<Rightarrow> bool" where
  "live now e \<longleftrightarrow> \<not> expiresAt e \<le> now"

definition sweep_cache :: "int \<Rightarrow> 'v cache \<Rightarrow> 'v cache" where
  "sweep_cache now m = filter (\<lambda>(k, e). live now e) m"

text \<open>The eviction loop; it stops at an empty key, which the code cannot tell from no key.\<close>

function enforceCacheMax :: "int \<Rightarrow> 'v cache \<Rightarrow> 'v cache" where
  "enforceCacheMax maxEntries m =
     (if int (length m) > maxEntries then
        (case m of [] \<Rightarrow> m
         | (oldest, e) # rest \<Rightarrow>
             (if oldest = [] then m else enforceCacheMax maxEntries (map_delete oldest m)))
      else m)"
  by pat_completeness auto
termination
  by (relation "measure (\<lambda>(n, m). length m)")
    (auto simp: map_delete_def le_imp_less_Suc)

declare enforceCacheMax.simps [simp del]

lemma enforce_small [simp]: "int (length m) \<le> n \<Longrightarrow> enforceCacheMax n m = m"
  by (subst enforceCacheMax.simps) simp

definition touch :: "jsstring \<Rightarrow> 'v entry \<Rightarrow> 'v cache \<Rightarrow> 'v cache" where
  "touch k e m = map_set k e (map_delete k m)"

section \<open>Auth managers\<close>

definition getCachedAuthManager ::
  "env \<Rightarrow> int \<Rightarrow> jsstring \<Rightarrow> 'v \<Rightarrow> 'v cache \<Rightarrow> 'v \<times> 'v cache" where
  "getCachedAuthManager env now cacheKey fresh m =
     (let m1 = sweep_cache now m in
      case map_get m1 cacheKey of
        Some e \<Rightarrow>
          (if expiresAt e > now then (payload e, touch cacheKey e m1)
           else (fresh, enforceCacheMax (capabilityCacheMaxEntries env)
                  (map_set cacheKey \<lparr>payload = fresh, expiresAt = now + DEFAULT_AUTH_MANAGER_CACHE_TTL_MS\<rparr> m1)))
      | None \<Rightarrow>
          (fresh, enforceCacheMax (capabilityCacheMaxEntries env)
             (map_set cacheKey \<lparr>payload = fresh, expiresAt = now + DEFAULT_AUTH_MANAGER_CACHE_TTL_MS\<rparr> m1)))"

definition invalidateAuthManagerCache :: "jsstring option \<Rightarrow> 'v cache \<Rightarrow> 'v cache" where
  "invalidateAuthManagerCache cacheKey m =
     (case cacheKey of None \<Rightarrow> [] | Some k \<Rightarrow> if k = [] then [] else map_delete k m)"

section \<open>Capabilities\<close>

text \<open>
  The completed cache, the in-flight map from keys to discoveries, and the discoveries that have
  not settled: each with its number, key and start time.
\<close>

record capability_state =
  capabilityCache :: "jsstring list cache"
  capabilityInflight :: "(jsstring, nat) jsmap"
  pending :: "(nat \<times> jsstring \<times> int) list"
  next_discovery :: nat

definition empty_capability_state :: capability_state where
  "empty_capability_state =
     \<lparr>capabilityCache = [], capabilityInflight = [], pending = [], next_discovery = 0\<rparr>"

definition rememberCapabilities ::
  "env \<Rightarrow> jsstring \<Rightarrow> jsstring list \<Rightarrow> int \<Rightarrow> jsstring list cache \<Rightarrow> jsstring list cache" where
  "rememberCapabilities env cacheKey capabilities now m =
     (let ttl = capabilityCacheTtlMs env in
      if ttl \<le> 0 \<or> capabilities = [] then m
      else enforceCacheMax (capabilityCacheMaxEntries env)
             (map_set cacheKey \<lparr>payload = capabilities, expiresAt = now + ttl\<rparr> (sweep_cache now m)))"

definition invalidateCapabilityCache :: "jsstring option \<Rightarrow> capability_state \<Rightarrow> capability_state" where
  "invalidateCapabilityCache cacheKey s =
     (case cacheKey of
        None \<Rightarrow> s\<lparr>capabilityCache := [], capabilityInflight := []\<rparr>
      | Some k \<Rightarrow>
          (if k = [] then s\<lparr>capabilityCache := [], capabilityInflight := []\<rparr>
           else s\<lparr>capabilityCache := map_delete k (capabilityCache s),
                  capabilityInflight := map_delete k (capabilityInflight s)\<rparr>))"

definition requiresCapabilityDiscovery ::
  "env \<Rightarrow> jsstring \<Rightarrow> int \<Rightarrow> capability_state \<Rightarrow> bool \<times> capability_state" where
  "requiresCapabilityDiscovery env cacheKey now s =
     (if registerAllTools env then (False, s)
      else case map_get (capabilityCache s) cacheKey of
        None \<Rightarrow> (map_get (capabilityInflight s) cacheKey = None, s)
      | Some e \<Rightarrow>
          (if expiresAt e > now then (False, s)
           else (map_get (capabilityInflight s) cacheKey = None,
                 s\<lparr>capabilityCache := map_delete cacheKey (capabilityCache s)\<rparr>)))"

text \<open>
  \<open>fetchCapabilities\<close> up to its first wait: skipped (the operator escape hatch), served from the
  cache, joined to a running discovery, or the start of a new one.
\<close>

datatype fetch_start = Skipped | Hit "jsstring list" | Joined nat | Discovering nat

definition fetch_begin ::
  "env \<Rightarrow> jsstring \<Rightarrow> int \<Rightarrow> capability_state \<Rightarrow> fetch_start \<times> capability_state" where
  "fetch_begin env k now s =
     (if registerAllTools env then (Skipped, s)
      else
        let s1 = s\<lparr>capabilityCache := sweep_cache now (capabilityCache s)\<rparr>;
            discover = (let d = next_discovery s in
              (Discovering d,
               s1\<lparr>capabilityInflight := map_set k d (capabilityInflight s),
                  pending := pending s @ [(d, k, now)], next_discovery := d + 1\<rparr>));
            join = (case map_get (capabilityInflight s) k of
                Some d \<Rightarrow> (Joined d, s1) | None \<Rightarrow> discover)
        in case map_get (capabilityCache s1) k of
            Some e \<Rightarrow>
              (if expiresAt e > now
               then (Hit (payload e), s1\<lparr>capabilityCache := touch k e (capabilityCache s1)\<rparr>)
               else join)
          | None \<Rightarrow> join)"

text \<open>A discovery settles: with capabilities, or (\<open>None\<close>) with an error.\<close>

definition fetch_settle ::
  "env \<Rightarrow> nat \<Rightarrow> jsstring list option \<Rightarrow> capability_state \<Rightarrow> capability_state" where
  "fetch_settle env d result s =
     (case map_of (pending s) d of
        None \<Rightarrow> s
      | Some (k, startedAt) \<Rightarrow>
          s\<lparr>capabilityCache :=
               (case result of None \<Rightarrow> capabilityCache s
                | Some caps \<Rightarrow> rememberCapabilities env k caps startedAt (capabilityCache s)),
             capabilityInflight := map_delete k (capabilityInflight s),
             pending := filter (\<lambda>(d', x). d' \<noteq> d) (pending s)\<rparr>)"

section \<open>Lemmas\<close>

definition named_keys :: "'v cache \<Rightarrow> bool" where
  "named_keys m \<longleftrightarrow> (\<forall>(k, e) \<in> set m. k \<noteq> [])"

lemma map_delete_head: "distinct (map fst ((k, e) # m)) \<Longrightarrow> map_delete k ((k, e) # m) = m"
  by (force simp: map_delete_def filter_id_conv)

lemma enforce_drop:
  "wf_map m \<Longrightarrow> named_keys m \<Longrightarrow> 0 \<le> n \<Longrightarrow> enforceCacheMax n m = drop (length m - nat n) m"
proof (induction n m rule: enforceCacheMax.induct)
  case (1 n m)
  show ?case
  proof (cases "int (length m) > n")
    case True
    then obtain k e r where m: "m = (k, e) # r" using "1.prems"(3) by (cases m) auto
    have k: "k \<noteq> []" using "1.prems"(2) m by (simp add: named_keys_def)
    have d: "map_delete k m = r" using "1.prems"(1) m map_delete_head [of k e r]
      by (simp add: wf_map_def)
    have r: "wf_map r" "named_keys r" using "1.prems" m by (simp_all add: wf_map_def named_keys_def)
    have "enforceCacheMax n m = enforceCacheMax n r"
      using True m k d by (subst enforceCacheMax.simps) simp
    also have "\<dots> = drop (length r - nat n) r"
      using "1.IH" [OF True m refl k] "1.prems"(3) r d m by simp
    also have "\<dots> = drop (length m - nat n) m"
      using True m by (simp add: Suc_diff_le nat_le_iff)
    finally show ?thesis .
  qed (simp add: enforceCacheMax.simps [of n m] nat_le_iff)
qed

lemma wf_sweep_cache [simp]: "wf_map m \<Longrightarrow> wf_map (sweep_cache now m)"
  by (simp add: sweep_cache_def wf_map_def distinct_map_filter)

lemma named_sweep [simp]: "named_keys m \<Longrightarrow> named_keys (sweep_cache now m)"
  by (auto simp: sweep_cache_def named_keys_def)

lemma map_get_sweep:
  "wf_map m \<Longrightarrow> map_get (sweep_cache now m) k =
     (case map_get m k of None \<Rightarrow> None | Some e \<Rightarrow> if live now e then Some e else None)"
proof (induction m)
  case (Cons a m)
  have "map_of m k = None" if "k \<notin> fst ` set m" using that by (simp add: map_of_eq_None_iff)
  with Cons show ?case
    by (cases a) (auto simp: sweep_cache_def map_get_def wf_map_def split: option.splits)
qed (simp add: sweep_cache_def)

lemma map_set_absent: "k \<notin> fst ` set m \<Longrightarrow> map_set k v m = m @ [(k, v)]"
  by (induction k v m rule: map_set.induct) auto

lemma touch_last: "touch k e m = map_delete k m @ [(k, e)]"
  by (simp add: touch_def map_set_absent)

lemma named_delete [simp]: "named_keys m \<Longrightarrow> named_keys (map_delete k m)"
  by (auto simp: named_keys_def map_delete_def)

lemma length_delete: "wf_map m \<Longrightarrow> k \<in> fst ` set m \<Longrightarrow> length (map_delete k m) = length m - 1"
proof (induction m)
  case (Cons a m)
  obtain k' v where a: "a = (k', v)" by (cases a)
  show ?case
  proof (cases "k' = k")
    case True
    then have "map_delete k (a # m) = m" using Cons.prems(1) a map_delete_head [of k v m]
      by (simp add: wf_map_def)
    then show ?thesis by simp
  next
    case False
    then have "k \<in> fst ` set m" "wf_map m" using Cons.prems a by (auto simp: wf_map_def)
    moreover have "m \<noteq> []" using calculation by auto
    ultimately show ?thesis using Cons.IH False a by (simp add: map_delete_def)
  qed
qed simp

lemma max_entries_pos: "1 \<le> capabilityCacheMaxEntries env"
  by (simp add: capabilityCacheMaxEntries_def)

lemma length_sweep: "length (sweep_cache now m) \<le> length m"
  by (simp add: sweep_cache_def)

lemma insert_enforced:
  assumes "wf_map m" "named_keys m" "k \<noteq> []" "k \<notin> fst ` set m" "int (length m) \<le> n" "1 \<le> n"
  shows "enforceCacheMax n (map_set k e m) = drop (if int (length m) = n then 1 else 0) m @ [(k, e)]"
proof -
  have "wf_map (map_set k e m)" "named_keys (map_set k e m)"
    using assms by (simp_all add: map_set_absent named_keys_def wf_map_def)
  then have "enforceCacheMax n (map_set k e m) = drop (length (m @ [(k, e)]) - nat n) (m @ [(k, e)])"
    using enforce_drop [of "map_set k e m" n] assms(4,6) by (simp add: map_set_absent)
  moreover have "length (m @ [(k, e)]) - nat n = (if int (length m) = n then 1 else 0)"
    using assms(5,6) by auto
  moreover have "int (length m) = n \<Longrightarrow> m \<noteq> []" using assms(6) by auto
  ultimately show ?thesis by (cases m) (simp_all only: drop_append split: if_splits, auto)
qed

section \<open>The auth-manager cache\<close>

definition manager_entry :: "int \<Rightarrow> jsstring \<Rightarrow> 'v \<Rightarrow> 'v cache \<Rightarrow> 'v entry" where
  "manager_entry now k fresh m =
     (case map_get m k of
        Some e \<Rightarrow> if live now e then e
          else \<lparr>payload = fresh, expiresAt = now + DEFAULT_AUTH_MANAGER_CACHE_TTL_MS\<rparr>
      | None \<Rightarrow> \<lparr>payload = fresh, expiresAt = now + DEFAULT_AUTH_MANAGER_CACHE_TTL_MS\<rparr>)"

lemma get_manager:
  assumes "wf_map m" "named_keys m" "k \<noteq> []" "int (length m) \<le> capabilityCacheMaxEntries env"
  shows "\<exists>j \<le> 1. getCachedAuthManager env now k fresh m =
      (payload (manager_entry now k fresh m),
       drop j (map_delete k (sweep_cache now m)) @ [(k, manager_entry now k fresh m)])
    \<and> int (length (drop j (map_delete k (sweep_cache now m)))) + 1 \<le> capabilityCacheMaxEntries env"
proof -
  let ?m = "sweep_cache now m" and ?n = "capabilityCacheMaxEntries env"
  have wf: "wf_map ?m" "named_keys ?m" using assms by simp_all
  have len: "int (length ?m) \<le> ?n" using length_sweep [of now m] assms(4) by linarith
  note get = map_get_sweep [OF assms(1), of now k]
  show ?thesis
  proof (cases "map_get ?m k")
    case (Some e)
    have e: "map_get m k = Some e" "live now e"
      using Some get by (auto split: option.splits if_splits)
    have in_m: "k \<in> fst ` set ?m" using Some map_get_None [of ?m k] by auto
    have "length (map_delete k ?m) = length ?m - 1" by (rule length_delete [OF wf(1) in_m])
    moreover have "0 < length ?m" using in_m by (cases ?m) auto
    ultimately have "int (length (map_delete k ?m)) + 1 \<le> ?n" using len by linarith
    then show ?thesis using Some e len
      by (intro exI [of _ 0])
        (simp add: getCachedAuthManager_def Let_def touch_last manager_entry_def live_def)
  next
    case None
    have abs: "k \<notin> fst ` set ?m" using None map_get_None [of ?m k] by simp
    have del: "map_delete k ?m = ?m"
      using abs by (force simp: map_delete_def filter_id_conv)
    have "manager_entry now k fresh m =
        \<lparr>payload = fresh, expiresAt = now + DEFAULT_AUTH_MANAGER_CACHE_TTL_MS\<rparr>"
      using None get by (auto simp: manager_entry_def split: option.splits if_splits)
    moreover have "int (length (drop (if int (length ?m) = ?n then 1 else 0) ?m)) + 1 \<le> ?n"
      using len max_entries_pos [of env] by auto
    ultimately show ?thesis
      using None insert_enforced [OF wf assms(3) abs len max_entries_pos]
      by (intro exI [of _ "if int (length ?m) = ?n then 1 else 0"])
        (auto simp: getCachedAuthManager_def Let_def del)
  qed
qed

text \<open>
  The auth-manager cache. A manager is reused exactly while its entry is live; the key just used
  ends as the newest entry and is never the one evicted; at most one entry, the least recently used
  one, is evicted, every other live entry keeps its place, and the size stays within its limit.
\<close>

theorem auth_manager_cache:
  assumes "wf_map m" "named_keys m" "k \<noteq> []" "int (length m) \<le> capabilityCacheMaxEntries env"
    and "getCachedAuthManager env now k fresh m = (v, m')"
  shows "v = (case map_get m k of None \<Rightarrow> fresh | Some e \<Rightarrow> if live now e then payload e else fresh)
    \<and> (\<exists>e j. j \<le> 1 \<and> m' = drop j (map_delete k (sweep_cache now m)) @ [(k, e)]
          \<and> payload e = v \<and> live now e)
    \<and> int (length m') \<le> capabilityCacheMaxEntries env"
proof -
  let ?e = "manager_entry now k fresh m"
  obtain j where j: "j \<le> 1" "v = payload ?e"
    "m' = drop j (map_delete k (sweep_cache now m)) @ [(k, ?e)]"
    "int (length (drop j (map_delete k (sweep_cache now m)))) + 1 \<le> capabilityCacheMaxEntries env"
    using get_manager [OF assms(1-4), of now fresh] assms(5) by auto
  have "live now ?e"
    by (auto simp: manager_entry_def live_def DEFAULT_AUTH_MANAGER_CACHE_TTL_MS_def
        split: option.split)
  moreover have "v = (case map_get m k of None \<Rightarrow> fresh
      | Some e \<Rightarrow> if live now e then payload e else fresh)"
    using j(2) by (auto simp: manager_entry_def split: option.split)
  moreover have "int (length m') \<le> capabilityCacheMaxEntries env" using j(3,4) by simp
  ultimately show ?thesis using j(1-3) by (intro conjI exI [of _ ?e] exI [of _ j]) simp_all
qed

theorem auth_manager_cache_witness:
  "fst (getCachedAuthManager (\<lambda>_. None) 10 (js ''k'') (2 :: nat)
     [(js ''k'', \<lparr>payload = 1, expiresAt = 5\<rparr>)]) = 2"
  using auth_manager_cache [where k = "js ''k''" and env = "\<lambda>_. None" and now = 10
      and m = "[(js ''k'', \<lparr>payload = 1 :: nat, expiresAt = 5\<rparr>)]" and fresh = 2, OF _ _ _ _ prod.collapse [symmetric]]
  by (simp add: wf_map_def named_keys_def capabilityCacheMaxEntries_def env_int_or_def
      DEFAULT_CAPABILITY_CACHE_MAX_ENTRIES_def live_def map_get_def)

section \<open>Capability discovery\<close>

inductive capability_step :: "env \<Rightarrow> capability_state \<Rightarrow> capability_state \<Rightarrow> bool" for env where
  Begin: "k \<noteq> [] \<Longrightarrow> capability_step env s (snd (fetch_begin env k now s))"
| Settle: "capability_step env s (fetch_settle env d result s)"
| Probe: "capability_step env s (snd (requiresCapabilityDiscovery env k now s))"
| Sweep: "capability_step env s (s\<lparr>capabilityCache := sweep_cache now (capabilityCache s)\<rparr>)"

inductive capability_run :: "env \<Rightarrow> capability_state \<Rightarrow> bool" for env where
  Start: "capability_run env empty_capability_state"
| Next: "capability_run env s \<Longrightarrow> capability_step env s s' \<Longrightarrow> capability_run env s'"

definition cache_ok :: "env \<Rightarrow> jsstring list cache \<Rightarrow> bool" where
  "cache_ok env m \<longleftrightarrow> wf_map m \<and> named_keys m \<and> int (length m) \<le> capabilityCacheMaxEntries env
     \<and> (\<forall>(k, e) \<in> set m. payload e \<noteq> [])"

definition flights_ok :: "capability_state \<Rightarrow> bool" where
  "flights_ok s \<longleftrightarrow> wf_map (capabilityInflight s) \<and> distinct (map fst (pending s))
     \<and> (\<forall>(d, k, t) \<in> set (pending s). d < next_discovery s \<and> k \<noteq> [])
     \<and> (\<forall>k d. map_get (capabilityInflight s) k = Some d \<longleftrightarrow> (\<exists>t. (d, k, t) \<in> set (pending s)))"

lemma cache_ok_filter: "cache_ok env m \<Longrightarrow> cache_ok env (filter (\<lambda>(k, e). P k e) m)"
proof -
  assume ok: "cache_ok env m"
  have "int (length (filter (\<lambda>(k, e). P k e) m)) \<le> int (length m)"
    using length_filter_le [of "\<lambda>(k, e). P k e" m] by (simp only: of_nat_le_iff)
  with ok show ?thesis
    by (auto simp only: cache_ok_def wf_map_def distinct_map_filter named_keys_def set_filter)
qed

lemma cache_ok_sweep: "cache_ok env m \<Longrightarrow> cache_ok env (sweep_cache now m)"
  unfolding sweep_cache_def by (rule cache_ok_filter)

lemma cache_ok_delete: "cache_ok env m \<Longrightarrow> cache_ok env (map_delete k m)"
  unfolding map_delete_def by (rule cache_ok_filter)

lemma cache_ok_touch:
  "cache_ok env m \<Longrightarrow> map_get m k = Some e \<Longrightarrow> cache_ok env (touch k e m)"
proof -
  assume ok: "cache_ok env m" and g: "map_get m k = Some e"
  have in_m: "(k, e) \<in> set m" using g by (simp add: map_get_def map_of_SomeD)
  have "k \<in> fst ` set m" by (rule rev_image_eqI [OF in_m]) simp
  then have "length (map_delete k m) = length m - 1" "0 < length m"
    using ok in_m length_delete [of m k] by (auto simp: cache_ok_def)
  then have "length (touch k e m) = length m" by (simp add: touch_last)
  moreover have "k \<noteq> []" "payload e \<noteq> []" using ok in_m by (auto simp: cache_ok_def named_keys_def)
  ultimately show ?thesis
    using ok cache_ok_delete [OF ok, of k]
    by (auto simp: cache_ok_def touch_last wf_map_def named_keys_def map_delete_def)
qed

lemma cache_ok_remember:
  assumes "cache_ok env m" "k \<noteq> []"
  shows "cache_ok env (rememberCapabilities env k caps now m)"
proof (cases "capabilityCacheTtlMs env \<le> 0 \<or> caps = []")
  case False
  let ?e = "\<lparr>payload = caps, expiresAt = now + capabilityCacheTtlMs env\<rparr>"
  let ?m = "map_set k ?e (sweep_cache now m)" and ?n = "capabilityCacheMaxEntries env"
  have sw: "cache_ok env (sweep_cache now m)" by (rule cache_ok_sweep [OF assms(1)])
  have keys: "fst ` set ?m = insert k (fst ` set (sweep_cache now m))" by simp
  have "named_keys ?m"
  proof (unfold named_keys_def, safe)
    fix e assume "([], e) \<in> set ?m"
    then have "[] \<in> fst ` set ?m" by (metis fst_conv image_eqI)
    then show False using keys assms(2) sw by (auto simp: cache_ok_def named_keys_def)
  qed
  moreover have "wf_map ?m" using sw by (simp add: cache_ok_def)
  ultimately have "enforceCacheMax ?n ?m = drop (length ?m - nat ?n) ?m"
    using enforce_drop [of ?m ?n] max_entries_pos [of env] by simp
  moreover have "payload e \<noteq> []" if "(k', e) \<in> set ?m" for k' e
  proof -
    have "map_get ?m k' = Some e"
      using that map_get_mem [OF \<open>wf_map ?m\<close>] by blast
    then have "e = ?e \<or> map_get (sweep_cache now m) k' = Some e" by (auto split: if_splits)
    then show ?thesis using False sw
      by (auto simp: cache_ok_def map_get_def dest!: map_of_SomeD)
  qed
  moreover have "int (length ?m - (length ?m - nat ?n)) \<le> ?n" using max_entries_pos [of env] by auto
  ultimately have "cache_ok env (enforceCacheMax ?n ?m)"
    using \<open>named_keys ?m\<close> \<open>wf_map ?m\<close>
    by (auto simp: cache_ok_def named_keys_def wf_map_def drop_map [symmetric] dest: in_set_dropD)
  then show ?thesis using False by (simp add: rememberCapabilities_def Let_def)
qed (use assms in \<open>simp add: rememberCapabilities_def Let_def\<close>)

lemma flights_ok_cong:
  "capabilityInflight s' = capabilityInflight s \<Longrightarrow> pending s' = pending s \<Longrightarrow>
     next_discovery s' = next_discovery s \<Longrightarrow> flights_ok s' = flights_ok s"
  by (simp add: flights_ok_def)

lemma fetch_begin_ok:
  assumes "cache_ok env (capabilityCache s)" "flights_ok s" "k \<noteq> []"
  shows "cache_ok env (capabilityCache (snd (fetch_begin env k now s)))"
    and "flights_ok (snd (fetch_begin env k now s))"
proof -
  let ?c = "sweep_cache now (capabilityCache s)" and ?d = "next_discovery s"
  have sw: "cache_ok env ?c" by (rule cache_ok_sweep [OF assms(1)])
  show "cache_ok env (capabilityCache (snd (fetch_begin env k now s)))"
    using sw assms(1) cache_ok_touch [OF sw]
    by (auto simp: fetch_begin_def Let_def split: option.split)
  have new: "flights_ok (s\<lparr>capabilityCache := ?c, capabilityInflight := map_set k ?d (capabilityInflight s),
      pending := pending s @ [(?d, k, now)], next_discovery := ?d + 1\<rparr>)"
    if "map_get (capabilityInflight s) k = None"
  proof -
    have "?d \<notin> fst ` set (pending s)" using assms(2) by (auto simp: flights_ok_def)
    moreover have "\<nexists>d t. (d, k, t) \<in> set (pending s)"
      using assms(2) that unfolding flights_ok_def by (metis option.distinct(1))
    ultimately show ?thesis
      using assms(2,3) by (fastforce simp: flights_ok_def)
  qed
  have same: "flights_ok (s\<lparr>capabilityCache := c\<rparr>)" for c
    using assms(2) flights_ok_cong [of "s\<lparr>capabilityCache := c\<rparr>" s] by simp
  show "flights_ok (snd (fetch_begin env k now s))"
    using assms(2) new same by (auto simp: fetch_begin_def Let_def split: option.split)
qed

lemma map_of_pending:
  "flights_ok s \<Longrightarrow> map_of (pending s) d = Some (k, t) \<longleftrightarrow> (d, k, t) \<in> set (pending s)"
  by (simp add: flights_ok_def)

lemma fetch_settle_ok:
  assumes "cache_ok env (capabilityCache s)" "flights_ok s"
  shows "cache_ok env (capabilityCache (fetch_settle env d result s))"
    and "flights_ok (fetch_settle env d result s)"
proof -
  have both: "cache_ok env (capabilityCache (fetch_settle env d result s))
      \<and> flights_ok (fetch_settle env d result s)"
  proof (cases "map_of (pending s) d")
    case (Some kt)
    obtain k t where kt: "kt = (k, t)" by (cases kt)
    have in_p: "(d, k, t) \<in> set (pending s)" using Some kt map_of_pending [OF assms(2)] by simp
    have k: "k \<noteq> []" using assms(2) in_p by (auto simp: flights_ok_def)
    have uniq: "d' = d \<and> t' = t" if "(d', k, t') \<in> set (pending s)" for d' t'
    proof -
      have "map_get (capabilityInflight s) k = Some d'" "map_get (capabilityInflight s) k = Some d"
        using assms(2) that in_p by (auto simp: flights_ok_def)
      then have "d' = d" by simp
      with that in_p assms(2) show ?thesis
        by (metis map_of_pending option.inject prod.inject)
    qed
    have other: "d' \<noteq> d" if "(d', k', t') \<in> set (pending s)" "k' \<noteq> k" for d' k' t'
    proof
      assume "d' = d"
      with that in_p assms(2) show False by (metis map_of_pending option.inject prod.inject)
    qed
    have "cache_ok env (capabilityCache (fetch_settle env d result s))"
      using Some kt assms(1) cache_ok_remember [OF assms(1) k]
      by (auto simp: fetch_settle_def split: option.split)
    moreover have "flights_ok (fetch_settle env d result s)"
    proof -
      let ?s = "fetch_settle env d result s"
      have s': "capabilityInflight ?s = map_delete k (capabilityInflight s)"
        "pending ?s = filter (\<lambda>(d', x). d' \<noteq> d) (pending s)"
        "next_discovery ?s = next_discovery s"
        using Some kt by (simp_all add: fetch_settle_def)
      have "map_get (capabilityInflight ?s) k' = Some d' \<longleftrightarrow> (\<exists>t'. (d', k', t') \<in> set (pending ?s))"
        for k' d'
      proof (cases "k' = k")
        case True
        with uniq show ?thesis by (auto simp: s')
      next
        case False
        then have "map_get (capabilityInflight ?s) k' = Some d' \<longleftrightarrow> (\<exists>t'. (d', k', t') \<in> set (pending s))"
          using assms(2) by (simp add: s' flights_ok_def)
        with other False show ?thesis by (auto simp: s')
      qed
      moreover have "distinct (map fst (pending ?s))" "wf_map (capabilityInflight ?s)"
        using assms(2) by (simp_all add: s' flights_ok_def distinct_map_filter)
      moreover have "d' < next_discovery ?s \<and> k' \<noteq> []" if "(d', k', t') \<in> set (pending ?s)" for d' k' t'
        using assms(2) that by (auto simp: s' flights_ok_def)
      ultimately show ?thesis unfolding flights_ok_def by blast
    qed
    ultimately show ?thesis ..
  qed (use assms in \<open>simp add: fetch_settle_def\<close>)
  then show "cache_ok env (capabilityCache (fetch_settle env d result s))"
    "flights_ok (fetch_settle env d result s)" by blast+
qed

lemma capability_run_ok:
  "capability_run env s \<Longrightarrow> cache_ok env (capabilityCache s) \<and> flights_ok s"
proof (induction rule: capability_run.induct)
  case Start
  then show ?case
    using max_entries_pos [of env]
    by (simp add: empty_capability_state_def cache_ok_def flights_ok_def named_keys_def)
next
  case (Next s s')
  note ok = Next.IH [THEN conjunct1] Next.IH [THEN conjunct2]
  from Next.hyps(2) show ?case
  proof cases
    case (Begin k now)
    with fetch_begin_ok [OF ok Begin(2)] show ?thesis by simp
  next
    case (Settle d result)
    with fetch_settle_ok [OF ok] show ?thesis by simp
  next
    case (Probe k now)
    have "flights_ok (s\<lparr>capabilityCache := c\<rparr>)" for c
      using ok(2) flights_ok_cong [of "s\<lparr>capabilityCache := c\<rparr>" s] by simp
    with Probe ok show ?thesis
      by (auto simp: requiresCapabilityDiscovery_def cache_ok_delete split: option.split)
  next
    case (Sweep now)
    have "flights_ok (s\<lparr>capabilityCache := c\<rparr>)" for c
      using ok(2) flights_ok_cong [of "s\<lparr>capabilityCache := c\<rparr>" s] by simp
    with Sweep ok cache_ok_sweep show ?thesis by simp
  qed
qed

text \<open>
  Single flight. In every run without invalidation there is at most one authorize call in flight for
  a credential, the in-flight map names exactly the calls that have not settled, an empty capability
  list is never cached, and the cache keeps within its limit.
\<close>

theorem capability_single_flight:
  assumes "capability_run env s"
  shows "(\<forall>d d' k t t'. (d, k, t) \<in> set (pending s) \<longrightarrow> (d', k, t') \<in> set (pending s) \<longrightarrow> d = d')
    \<and> (\<forall>k d. map_get (capabilityInflight s) k = Some d \<longleftrightarrow> (\<exists>t. (d, k, t) \<in> set (pending s)))
    \<and> (\<forall>(k, e) \<in> set (capabilityCache s). payload e \<noteq> [])
    \<and> int (length (capabilityCache s)) \<le> capabilityCacheMaxEntries env"
proof -
  from capability_run_ok [OF assms] have c: "cache_ok env (capabilityCache s)"
    and f: "\<forall>k d. map_get (capabilityInflight s) k = Some d \<longleftrightarrow> (\<exists>t. (d, k, t) \<in> set (pending s))"
    by (auto simp: flights_ok_def)
  have "d = d'" if "(d, k, t) \<in> set (pending s)" "(d', k, t') \<in> set (pending s)" for d d' k t t'
    using f that by (metis option.inject)
  with f c show ?thesis by (auto simp: cache_ok_def)
qed

theorem capability_single_flight_witness:
  "int (length (capabilityCache (snd (fetch_begin (\<lambda>_. None) (js ''k'') 5 empty_capability_state))))
     \<le> capabilityCacheMaxEntries (\<lambda>_. None)"
  using capability_single_flight [OF capability_run.Next [OF capability_run.Start
      capability_step.Begin [of "js ''k''" _ _ 5]], of "\<lambda>_. None"]
  by simp

text \<open>
  The pre-check agrees with the fetch. When \<open>requiresCapabilityDiscovery\<close> answers false, a fetch at
  the same time makes no authorize call; when it answers true, it makes one.
\<close>

theorem discovery_precheck_exact:
  assumes "capability_run env s"
    and "requiresCapabilityDiscovery env k now s = (needed, s')"
  shows "needed \<longleftrightarrow> (\<exists>d. fst (fetch_begin env k now s') = Discovering d)"
proof -
  have wf: "wf_map (capabilityCache s)"
    using capability_run_ok [OF assms(1)] by (simp add: cache_ok_def)
  show ?thesis
  proof (cases "map_get (capabilityCache s) k")
    case None
    then show ?thesis
      using assms(2) wf
      by (auto simp: requiresCapabilityDiscovery_def fetch_begin_def Let_def map_get_sweep
          split: if_splits option.splits)
  next
    case (Some e)
    then show ?thesis
      using assms(2) wf
      by (auto simp: requiresCapabilityDiscovery_def fetch_begin_def Let_def map_get_sweep live_def
          split: if_splits option.splits)
  qed
qed

theorem discovery_precheck_exact_witness:
  "fst (requiresCapabilityDiscovery (\<lambda>_. None) (js ''k'') 5 empty_capability_state)"
  using discovery_precheck_exact [OF capability_run.Start prod.collapse [symmetric],
      of "\<lambda>_. None" "js ''k''" 5]
  by (simp add: requiresCapabilityDiscovery_def empty_capability_state_def registerAllTools_def
      fetch_begin_def Let_def sweep_cache_def)

text \<open>
  Invalidation does not cancel a running discovery: when one is invalidated and a second one is
  started for the same credential, the settling of the first caches its result and removes the
  second from the in-flight map, so that a third fetch after the entry is gone starts another
  authorize call beside it.
\<close>

theorem invalidation_race:
  "let k = js ''k''; env = (\<lambda>_. None);
       s1 = snd (fetch_begin env k 0 empty_capability_state);
       s2 = snd (fetch_begin env k 1 (invalidateCapabilityCache (Some k) s1));
       s3 = fetch_settle env 0 (Some [js ''readFiles'']) s2
   in fst (fetch_begin env k 2 s3) = Hit [js ''readFiles'']
      \<and> map_of (pending s3) 1 = Some (k, 1) \<and> map_get (capabilityInflight s3) k = None
      \<and> fst (fetch_begin env k 2 (invalidateCapabilityCache (Some k) s3)) = Discovering 2"
proof -
  let ?k = "js ''k''" and ?env = "\<lambda>_ :: jsstring. None :: jsstring option"
  let ?e = "\<lparr>payload = [js ''readFiles''], expiresAt = 300000\<rparr>"
  have s1: "snd (fetch_begin ?env ?k 0 empty_capability_state) =
      \<lparr>capabilityCache = [], capabilityInflight = [(?k, 0)], pending = [(0, ?k, 0)], next_discovery = 1\<rparr>"
    by (simp add: fetch_begin_def registerAllTools_def empty_capability_state_def sweep_cache_def)
  have s2: "snd (fetch_begin ?env ?k 1 (invalidateCapabilityCache (Some ?k)
        \<lparr>capabilityCache = [], capabilityInflight = [(?k, 0)], pending = [(0, ?k, 0)], next_discovery = 1\<rparr>)) =
      \<lparr>capabilityCache = [], capabilityInflight = [(?k, 1)], pending = [(0, ?k, 0), (1, ?k, 1)],
       next_discovery = 2\<rparr>"
    by (simp add: fetch_begin_def registerAllTools_def sweep_cache_def invalidateCapabilityCache_def
        map_delete_def)
  have s3: "fetch_settle ?env 0 (Some [js ''readFiles''])
      \<lparr>capabilityCache = [], capabilityInflight = [(?k, 1)], pending = [(0, ?k, 0), (1, ?k, 1)],
       next_discovery = 2\<rparr> =
      \<lparr>capabilityCache = [(?k, ?e)], capabilityInflight = [], pending = [(1, ?k, 1)], next_discovery = 2\<rparr>"
    by (simp add: fetch_settle_def rememberCapabilities_def capabilityCacheTtlMs_def env_int_or_def
        capabilityCacheMaxEntries_def DEFAULT_CAPABILITY_CACHE_TTL_MS_def map_delete_def
        DEFAULT_CAPABILITY_CACHE_MAX_ENTRIES_def sweep_cache_def)
  show ?thesis
    unfolding Let_def s1 s2 s3
    by (simp add: fetch_begin_def registerAllTools_def sweep_cache_def invalidateCapabilityCache_def
        map_delete_def map_get_def live_def)
qed

end
