(* ===== verification/Secret_Text.thy ===== *)
theory Secret_Text
  imports Js_Prelude "HOL-Library.Product_Lexorder"
begin

text \<open>
  Redaction of secrets in text (\<open>src/utils/secret-sanitizer.ts\<close>): exact values, and the three regular
  expressions. Each expression is a scanner, a function that at a position returns how much of the
  text its first group and the whole match take; none of the three can match in two ways at one
  position, because the class that ends a part never contains the unit that starts the next. A
  global replacement with a group reference is \<open>scan\<close>. The contract of a scanner, and what follows
  for the text it leaves, is the locale \<open>redactor\<close>; all three expressions are instances.
\<close>

definition REDACTED :: jsstring where
  "REDACTED = js ''[redacted]''"

definition bracket_free :: "jsstring \<Rightarrow> bool" where
  "bracket_free s \<longleftrightarrow> 91 \<notin> set s \<and> 93 \<notin> set s"

lemma REDACTED_parts: "REDACTED = 91 # js ''redacted'' @ [93]"
  by (simp add: REDACTED_def js_def)

section \<open>Exact values\<close>

type_synonym span = "nat \<times> nat"

text \<open>The search loop of one secret: every occurrence, overlapping ones included.\<close>

function secret_spans :: "jsstring \<Rightarrow> jsstring \<Rightarrow> nat \<Rightarrow> span list" where
  "secret_spans text secret start =
     (if start < length text then
        (case index_of_from text secret start of
           None \<Rightarrow> []
         | Some index \<Rightarrow> (index, index + length secret) # secret_spans text secret (index + 1))
      else [])"
  by pat_completeness auto
termination
  by (relation "measure (\<lambda>(text, secret, start). length text - start)")
    (auto dest: index_of_from_Some(1))

declare secret_spans.simps [simp del]

definition skipped_secret :: "jsstring \<Rightarrow> bool" where
  "skipped_secret secret \<longleftrightarrow> js_trim secret = [] \<or> secret = REDACTED"

definition all_spans :: "jsstring \<Rightarrow> jsstring list \<Rightarrow> span list" where
  "all_spans text secrets =
     concat (map (\<lambda>secret. if skipped_secret secret then [] else secret_spans text secret 0)
       (js_unique secrets))"

text \<open>\<open>spans.sort((a, b) => a.start - b.start || b.end - a.end)\<close>\<close>

definition sort_spans :: "span list \<Rightarrow> span list" where
  "sort_spans spans = sort_key (\<lambda>(s, e). (int s, - int e)) spans"

text \<open>The merge of a sorted list: a span that starts no later than the previous one ends joins it.\<close>

fun merge_spans :: "span list \<Rightarrow> span list" where
  "merge_spans [] = []"
| "merge_spans [a] = [a]"
| "merge_spans ((s, e) # (s', e') # rest) =
     (if s' \<le> e then merge_spans ((s, max e e') # rest)
      else (s, e) # merge_spans ((s', e') # rest))"

definition slice :: "jsstring \<Rightarrow> nat \<Rightarrow> nat \<Rightarrow> jsstring" where
  "slice text a b = take (b - a) (drop a text)"

fun render_spans :: "jsstring \<Rightarrow> nat \<Rightarrow> span list \<Rightarrow> jsstring" where
  "render_spans text offset [] = drop offset text"
| "render_spans text offset ((s, e) # rest) = slice text offset s @ REDACTED @ render_spans text e rest"

definition redactExactTextSecrets :: "jsstring \<Rightarrow> jsstring list \<Rightarrow> jsstring" where
  "redactExactTextSecrets text secrets =
     (let spans = all_spans text secrets in
      if spans = [] then text else render_spans text 0 (merge_spans (sort_spans spans)))"

section \<open>Pieces between markers\<close>

lemma sublist_split:
  assumes "sublist p (xs @ c # ys)" "c \<notin> set p"
  shows "sublist p xs \<or> sublist p ys"
proof -
  obtain as bs where e: "xs @ c # ys = as @ p @ bs" using assms(1) by (auto simp: sublist_def)
  from e consider us where "xs = as @ us" "us @ c # ys = p @ bs"
    | us where "xs @ us = as" "c # ys = us @ p @ bs"
    by (auto simp: append_eq_append_conv2)
  then show ?thesis
  proof cases
    case 1
    then consider vs where "us = p @ vs" | vs where "us @ vs = p" "c # ys = vs @ bs"
      by (auto simp: append_eq_append_conv2)
    then show ?thesis
    proof cases
      case 1
      with \<open>xs = as @ us\<close> show ?thesis by (auto simp: sublist_def)
    next
      case 2
      show ?thesis
      proof (cases vs)
        case Nil
        with 2 \<open>xs = as @ us\<close> have "xs = as @ p @ []" by simp
        then show ?thesis by (metis sublist_appendI)
      next
        case (Cons v vs')
        with 2 assms(2) show ?thesis by auto
      qed
    qed
  next
    case 2
    then show ?thesis
    proof (cases us)
      case Nil
      then show ?thesis using 2 assms(2) by (cases p) auto
    next
      case (Cons u us')
      then show ?thesis using 2 by (auto simp: sublist_def)
    qed
  qed
qed

lemma sublist_marker:
  assumes "sublist p (xs @ REDACTED @ ys)" "bracket_free p"
  shows "sublist p xs \<or> sublist p (js ''redacted'') \<or> sublist p ys"
proof -
  have "sublist p (xs @ 91 # (js ''redacted'' @ 93 # ys))"
    using assms(1) by (simp add: REDACTED_parts)
  then have "sublist p xs \<or> sublist p (js ''redacted'' @ 93 # ys)"
    using assms(2) by (intro sublist_split) (auto simp: bracket_free_def)
  then show ?thesis
    using assms(2) sublist_split [of p "js ''redacted''" 93 ys] by (auto simp: bracket_free_def)
qed

lemma prefix_marker:
  assumes "prefix p (xs @ REDACTED @ ys)" "bracket_free p"
  shows "prefix p xs"
proof -
  from assms(1) consider "prefix p xs" | us where "p = xs @ us" "prefix us (REDACTED @ ys)"
    by (auto simp: prefix_append)
  then show ?thesis
  proof cases
    case 2
    then show ?thesis
      using assms(2) by (cases us) (auto simp: REDACTED_parts bracket_free_def)
  qed
qed

section \<open>Correctness of the exact redaction\<close>

definition covers :: "span list \<Rightarrow> nat \<Rightarrow> nat \<Rightarrow> bool" where
  "covers ms s e \<longleftrightarrow> (\<exists>(a, b) \<in> set ms. a \<le> s \<and> e \<le> b)"

lemma secret_spans_complete:
  "start \<le> i \<Longrightarrow> i < length text \<Longrightarrow> prefix secret (drop i text) \<Longrightarrow>
     (i, i + length secret) \<in> set (secret_spans text secret start)"
proof (induction "text" secret start rule: secret_spans.induct)
  case (1 t secret start)
  have lt: "start < length t" using "1.prems" by simp
  obtain j where j: "index_of_from t secret start = Some j"
    using "1.prems" index_of_from_None [of t secret start i]
    by (cases "index_of_from t secret start") auto
  have "\<not> i < j" using index_of_from_Some(3) [OF j, of i] "1.prems" by blast
  then consider "i = j" | "j + 1 \<le> i" by linarith
  then show ?case
  proof cases
    case 1
    then show ?thesis using lt j by (simp add: secret_spans.simps [of t secret start])
  next
    case 2
    with "1.IH" [OF lt j] "1.prems" show ?thesis
      using lt j by (simp add: secret_spans.simps [of t secret start])
  qed
qed

lemma set_sort_spans [simp]: "set (sort_spans xs) = set xs"
  by (simp add: sort_spans_def)

lemma sort_spans_sorted: "sorted (map fst (sort_spans xs))"
proof -
  have "sorted (map (\<lambda>(s, e). (int s, - int e)) (sort_spans xs))"
    by (simp add: sort_spans_def)
  then show ?thesis
    by (force simp: sorted_iff_nth_mono less_eq_prod_def split_beta nth_map)
qed

text \<open>Merged spans are in order with a gap between neighbours, and cover what was merged.\<close>

fun gapped :: "span list \<Rightarrow> bool" where
  "gapped [] = True"
| "gapped [a] = True"
| "gapped ((s, e) # (s', e') # rest) = (e < s' \<and> gapped ((s', e') # rest))"

lemma merge_head: "\<exists>e' rest. merge_spans ((s, e) # xs) = (s, e') # rest \<and> e \<le> e'"
proof (induction xs arbitrary: e)
  case (Cons b xs)
  obtain s' e' where b: "b = (s', e')" by (cases b)
  show ?case
  proof (cases "s' \<le> e")
    case True
    then show ?thesis using Cons.IH [of "max e e'"] b by force
  next
    case False
    then show ?thesis by (simp add: b)
  qed
qed simp

lemma merge_gapped: "gapped (merge_spans xs)"
proof (induction xs rule: merge_spans.induct)
  case (3 s e s' e' rest)
  show ?case
  proof (cases "s' \<le> e")
    case False
    then show ?thesis using 3(2) merge_head [of s' e' rest] by auto
  qed (use 3(1) in simp)
qed simp_all

lemma covers_mono: "covers ms s e \<Longrightarrow> s \<le> s' \<Longrightarrow> e' \<le> e \<Longrightarrow> covers ms s' e'"
proof -
  assume a: "covers ms s e" "s \<le> s'" "e' \<le> e"
  then obtain x y where "(x, y) \<in> set ms" "x \<le> s" "e \<le> y" by (auto simp: covers_def)
  with a(2,3) have "(x, y) \<in> set ms" "x \<le> s'" "e' \<le> y" by simp_all
  then show ?thesis unfolding covers_def by blast
qed

lemma covers_Cons: "covers ms s e \<Longrightarrow> covers (m # ms) s e"
  by (auto simp: covers_def)

lemma merge_covers:
  "sorted (map fst xs) \<Longrightarrow> (s, e) \<in> set xs \<Longrightarrow> covers (merge_spans xs) s e"
proof (induction xs arbitrary: s e rule: merge_spans.induct)
  case (2 a)
  then show ?case by (auto simp: covers_def)
next
  case (3 a b a' b' rest)
  show ?case
  proof (cases "a' \<le> b")
    case True
    have srt: "sorted (map fst ((a, max b b') # rest))" using "3.prems"(1) by simp
    have eq: "merge_spans ((a, b) # (a', b') # rest) = merge_spans ((a, max b b') # rest)"
      using True by simp
    have hd: "covers (merge_spans ((a, max b b') # rest)) a (max b b')"
      using "3.IH"(1) [OF True srt, of a "max b b'"] by simp
    have "a \<le> a'" using "3.prems"(1) by simp
    from "3.prems"(2) consider "s = a \<and> e = b" | "s = a' \<and> e = b'" | "(s, e) \<in> set rest" by auto
    then show ?thesis
    proof cases
      case 3
      with "3.IH"(1) [OF True srt, of s e] show ?thesis unfolding eq by simp
    qed (use covers_mono [OF hd] \<open>a \<le> a'\<close> in \<open>auto simp only: eq\<close>)
  next
    case False
    have srt: "sorted (map fst ((a', b') # rest))" using "3.prems"(1) by simp
    from "3.prems"(2) consider "s = a \<and> e = b" | "(s, e) \<in> set ((a', b') # rest)" by auto
    then show ?thesis
    proof cases
      case 1
      with False show ?thesis by (auto simp: covers_def)
    next
      case 2
      from "3.IH"(2) [OF False srt 2] False show ?thesis by (simp add: covers_Cons)
    qed
  qed
qed simp

definition wf_spans :: "span list \<Rightarrow> bool" where
  "wf_spans ms \<longleftrightarrow> (\<forall>(a, b) \<in> set ms. a \<le> b)"

lemma merge_wf: "wf_spans xs \<Longrightarrow> wf_spans (merge_spans xs)"
proof (induction xs rule: merge_spans.induct)
  case (3 s e s' e' rest)
  then show ?case by (cases "s' \<le> e") (simp_all add: wf_spans_def le_max_iff_disj)
qed simp_all

lemma gapped_starts: "gapped ((s, e) # ms) \<Longrightarrow> wf_spans ms \<Longrightarrow> (a, b) \<in> set ms \<Longrightarrow> e < a"
proof (induction ms arbitrary: s e)
  case (Cons m ms)
  obtain s' e' where m: "m = (s', e')" by (cases m)
  have "e < s'" "gapped ((s', e') # ms)" "s' \<le> e'" "wf_spans ms"
    using Cons.prems(1,2) m by (auto simp: wf_spans_def)
  with Cons.IH [of s' e'] Cons.prems(3) m show ?case by fastforce
qed simp

lemma gapped_tl: "gapped (m # ms) \<Longrightarrow> gapped ms"
  by (cases m; cases ms) auto

lemma drop_occurrence: "sublist p (drop k t) \<Longrightarrow> \<exists>i \<ge> k. prefix p (drop i t)"
proof -
  assume "sublist p (drop k t)"
  then obtain ps ss where "drop k t = ps @ p @ ss" by (auto simp: sublist_def)
  then have "drop (length ps + k) t = p @ ss" by (metis append_eq_conv_conj drop_drop)
  then show ?thesis by (metis le_add2 prefixI)
qed

lemma sublist_slice:
  assumes "sublist p (slice t a b)" "p \<noteq> []"
  shows "\<exists>i \<ge> a. prefix p (drop i t) \<and> i + length p \<le> b"
proof -
  obtain ps ss where e: "take (b - a) (drop a t) = ps @ p @ ss"
    using assms(1) by (auto simp: sublist_def slice_def)
  let ?i = "a + length ps"
  have "drop (length ps) (take (b - a) (drop a t)) = p @ ss" by (simp add: e)
  then have "take (b - a - length ps) (drop ?i t) = p @ ss" by (simp add: drop_take add.commute)
  then have "prefix p (drop ?i t)" by (metis append_take_drop_id append.assoc prefixI)
  moreover have "length ps + length p + length ss \<le> b - a"
    using arg_cong [OF e, of length] by simp
  moreover have "0 < length p" using assms(2) by simp
  ultimately have "prefix p (drop ?i t)" "?i + length p \<le> b" by linarith+
  then show ?thesis by (intro exI [of _ ?i]) simp
qed

lemma render_occurrence:
  "sublist p (render_spans t off ms) \<Longrightarrow> bracket_free p \<Longrightarrow> p \<noteq> [] \<Longrightarrow> gapped ms \<Longrightarrow> wf_spans ms \<Longrightarrow>
     (\<forall>(a, b) \<in> set ms. off \<le> a) \<Longrightarrow>
     sublist p (js ''redacted'') \<or>
     (\<exists>i \<ge> off. prefix p (drop i t) \<and> \<not> covers ms i (i + length p))"
proof (induction ms arbitrary: off)
  case Nil
  then show ?case using drop_occurrence [of p off t] by (simp add: covers_def)
next
  case (Cons m ms)
  obtain s e where m: "m = (s, e)" by (cases m)
  have len: "0 < length p" using Cons.prems(3) by simp
  have wf: "s \<le> e" "wf_spans ms" and off: "off \<le> s"
    using Cons.prems(5,6) m by (auto simp: wf_spans_def)
  have after: "e < a" if "(a, b) \<in> set ms" for a b
    using gapped_starts [of s e ms a b] Cons.prems(4) wf(2) that m by simp
  from sublist_marker [of p "slice t off s" "render_spans t e ms"] Cons.prems(1,2) m
  consider "sublist p (slice t off s)" | "sublist p (js ''redacted'')" | "sublist p (render_spans t e ms)"
    by auto
  then show ?case
  proof cases
    case 1
    then obtain i where i: "off \<le> i" "prefix p (drop i t)" "i + length p \<le> s"
      using sublist_slice [OF 1 Cons.prems(3)] by blast
    have "\<not> covers (m # ms) i (i + length p)"
    proof
      assume "covers (m # ms) i (i + length p)"
      then obtain a b where ab: "(a, b) \<in> set (m # ms)" "a \<le> i" by (auto simp: covers_def)
      then have "a = s \<or> e < a" using after m by auto
      with ab i(3) len wf(1) show False by linarith
    qed
    with i show ?thesis by blast
  next
    case 3
    have "\<forall>(a, b) \<in> set ms. e \<le> a" using after by fastforce
    from Cons.IH [OF 3 Cons.prems(2,3) gapped_tl [OF Cons.prems(4)] wf(2) this]
    show ?thesis
    proof
      assume "\<exists>i \<ge> e. prefix p (drop i t) \<and> \<not> covers ms i (i + length p)"
      then obtain i where i: "e \<le> i" "prefix p (drop i t)" "\<not> covers ms i (i + length p)" by blast
      have "\<not> covers (m # ms) i (i + length p)" using i len m
        by (cases "i + length p \<le> e") (auto simp: covers_def simp del: length_greater_0_conv)
      moreover have "off \<le> i" using off wf(1) i(1) by simp
      ultimately show ?thesis using i(2) by blast
    qed blast
  qed blast
qed

lemma spans_wf: "(s, e) \<in> set (secret_spans t secret start) \<Longrightarrow> s \<le> e"
proof (induction t secret start rule: secret_spans.induct)
  case (1 t secret start)
  note eq = secret_spans.simps [of t secret start]
  show ?case
  proof (cases "start < length t")
    case lt: True
    show ?thesis
    proof (cases "index_of_from t secret start")
      case None
      then have "secret_spans t secret start = []" by (simp add: eq)
      with "1.prems" show ?thesis by simp
    next
      case (Some i)
      then have "secret_spans t secret start =
          (i, i + length secret) # secret_spans t secret (i + 1)" using lt by (simp add: eq)
      with "1.prems" have "s = i \<and> e = i + length secret \<or> (s, e) \<in> set (secret_spans t secret (i + 1))"
        by simp
      with "1.IH" [OF lt Some] show ?thesis by auto
    qed
  next
    case False
    then have "secret_spans t secret start = []" by (simp add: eq)
    with "1.prems" show ?thesis by simp
  qed
qed

text \<open>
  An occurrence in the output comes from one in the text that is not among the spans.
\<close>

lemma redact_occurrence:
  assumes "sublist p (redactExactTextSecrets t secrets)" "bracket_free p" "p \<noteq> []"
  shows "sublist p (js ''redacted'') \<or> (\<exists>i. prefix p (drop i t) \<and> (i, i + length p) \<notin> set (all_spans t secrets))"
proof (cases "all_spans t secrets = []")
  case True
  with assms(1) have "sublist p (drop 0 t)" by (simp add: redactExactTextSecrets_def)
  from drop_occurrence [OF this] True show ?thesis by auto
next
  case False
  let ?ms = "merge_spans (sort_spans (all_spans t secrets))"
  have "wf_spans (all_spans t secrets)"
    by (auto simp: wf_spans_def all_spans_def split: if_splits dest: spans_wf)
  then have "wf_spans ?ms" by (intro merge_wf) (simp add: wf_spans_def)
  moreover have "sublist p (render_spans t 0 ?ms)"
    using assms(1) False by (simp add: redactExactTextSecrets_def)
  ultimately consider "sublist p (js ''redacted'')"
    | i where "prefix p (drop i t)" "\<not> covers ?ms i (i + length p)"
    using render_occurrence [of p t 0 ?ms] merge_gapped assms(2,3) by auto
  then show ?thesis
  proof cases
    case 2
    have "(i, i + length p) \<notin> set (all_spans t secrets)"
      using merge_covers [OF sort_spans_sorted, of i "i + length p" "all_spans t secrets"] 2(2) by auto
    with 2(1) show ?thesis by blast
  qed blast
qed

lemma exact_keeps_out:
  assumes "bracket_free p" "\<not> sublist p (js ''redacted'')" "\<not> sublist p t"
  shows "\<not> sublist p (redactExactTextSecrets t secrets)"
proof
  assume s: "sublist p (redactExactTextSecrets t secrets)"
  have "p \<noteq> []" using assms(3) by auto
  from redact_occurrence [OF s assms(1) this] assms(2) obtain i where "prefix p (drop i t)" by blast
  then have "sublist p t" by (meson prefix_imp_sublist sublist_drop sublist_order.order.trans)
  with assms(3) show False ..
qed

lemma exact_redaction:
  assumes "secret \<in> set secrets" "js_trim secret \<noteq> []" "bracket_free secret"
    and "\<not> sublist secret (js ''redacted'')"
  shows "\<not> sublist secret (redactExactTextSecrets t secrets)"
proof
  assume sub: "sublist secret (redactExactTextSecrets t secrets)"
  have ne: "secret \<noteq> []" using assms(2) by (auto simp: js_trim_def)
  have "secret \<noteq> REDACTED" using assms(3) by (auto simp: bracket_free_def REDACTED_parts)
  then have active: "\<not> skipped_secret secret" using assms(2) by (simp add: skipped_secret_def)
  from redact_occurrence [OF sub assms(3) ne] assms(4) obtain i where
    i: "prefix secret (drop i t)" "(i, i + length secret) \<notin> set (all_spans t secrets)" by blast
  have "i < length t" using i(1) ne by (cases "i < length t") auto
  then have "(i, i + length secret) \<in> set (secret_spans t secret 0)"
    by (intro secret_spans_complete) (use i(1) in auto)
  then show False using i(2) assms(1) active by (auto simp: all_spans_def)
qed

lemma exact_redaction_id:
  assumes "\<forall>secret \<in> set secrets. skipped_secret secret \<or> \<not> sublist secret t"
  shows "redactExactTextSecrets t secrets = t"
proof -
  have "secret_spans t secret 0 = []" if "\<not> sublist secret t" for secret
    using that by (subst secret_spans.simps)
      (auto simp: index_of_from_def dest!: find_occ_Some split: option.split
        intro: prefix_order.trans dest: prefix_imp_sublist sublist_order.order.trans)
  then have "all_spans t secrets = []" using assms by (auto simp: all_spans_def)
  then show ?thesis by (simp add: redactExactTextSecrets_def)
qed

section \<open>Scanners\<close>

text \<open>
  A global regular-expression replacement with \<open>$1[redacted]\<close>: the scanner says, at the start of the
  rest of the text, how many units the kept group and the whole match take.
\<close>

function scan :: "(jsstring \<Rightarrow> (nat \<times> nat) option) \<Rightarrow> jsstring \<Rightarrow> jsstring" where
  "scan m [] = []"
| "scan m (c # cs) =
     (case m (c # cs) of
        None \<Rightarrow> c # scan m cs
      | Some (k, n) \<Rightarrow> take k (c # cs) @ REDACTED @ scan m (drop (max 1 n) (c # cs)))"
  by pat_completeness auto
termination by (relation "measure (\<lambda>(m, s). length s)") auto

lemma scan_rule [case_names Nil Cons]:
  fixes m :: "jsstring \<Rightarrow> (nat \<times> nat) option"
  assumes "P []"
    and "\<And>c cs. (m (c # cs) = None \<Longrightarrow> P cs) \<Longrightarrow>
      (\<And>k n. m (c # cs) = Some (k, n) \<Longrightarrow> P (drop (max 1 n) (c # cs))) \<Longrightarrow> P (c # cs)"
  shows "P s"
proof -
  have "m' = m \<longrightarrow> P s" for m' :: "jsstring \<Rightarrow> (nat \<times> nat) option"
    by (induction m' s rule: scan.induct) (use assms in auto)
  then show ?thesis by simp
qed

text \<open>
  The contract of a scanner: a match is not empty and lies in the text, the kept group comes first;
  a match of a text without brackets stays one when text follows; nothing that starts in the kept
  group matches within it; nothing inside the marker matches.
\<close>

locale redactor =
  fixes m :: "jsstring \<Rightarrow> (nat \<times> nat) option"
  assumes bounds: "m s = Some (k, n) \<Longrightarrow> k \<le> n \<and> n \<le> length s \<and> 0 < n"
    and extends: "m w \<noteq> None \<Longrightarrow> bracket_free w \<Longrightarrow> m (w @ s) \<noteq> None"
    and group_silent: "m s = Some (k, n) \<Longrightarrow> q < k \<Longrightarrow> m (drop q (take k s)) = None"
    and marker_silent: "sublist w (js ''redacted'') \<Longrightarrow> m w = None"
begin

lemma no_match_Nil: "m [] = None"
  using bounds [of "[]"] by (cases "m []") auto

lemma scan_prefix: "prefix p (scan m s) \<Longrightarrow> bracket_free p \<Longrightarrow> prefix p s"
proof (induction s arbitrary: p rule: scan_rule [where m = m])
  case (Cons c cs)
  show ?case
  proof (cases "m (c # cs)")
    case None
    show ?thesis
    proof (cases p)
      case p: (Cons a p')
      with Cons.prems None have "a = c" "prefix p' (scan m cs)" "bracket_free p'"
        by (auto simp: bracket_free_def)
      with Cons.IH(1) [OF None, of p'] p show ?thesis by simp
    qed simp
  next
    case (Some kn)
    obtain k n where kn: "kn = (k, n)" by (cases kn)
    from Cons.prems Some kn have "prefix p (take k (c # cs))"
      using prefix_marker [of p "take k (c # cs)"] by simp
    then show ?thesis by (meson prefix_order.trans take_is_prefix)
  qed
qed simp

lemma scan_keeps_out:
  "sublist p (scan m s) \<Longrightarrow> bracket_free p \<Longrightarrow> sublist p s \<or> sublist p (js ''redacted'')"
proof (induction s rule: scan_rule [where m = m])
  case (Cons c cs)
  show ?case
  proof (cases "m (c # cs)")
    case None
    with Cons.prems(1) consider "prefix p (c # scan m cs)" | "sublist p (scan m cs)"
      by (auto simp: sublist_Cons_right)
    then show ?thesis
    proof cases
      case 1
      then have "prefix p (scan m (c # cs))" using None by simp
      from scan_prefix [OF this Cons.prems(2)] show ?thesis by (blast intro: prefix_imp_sublist)
    next
      case 2
      with Cons.IH(1) [OF None 2 Cons.prems(2)] show ?thesis by (auto simp: sublist_Cons_right)
    qed
  next
    case (Some kn)
    obtain k n where kn: "kn = (k, n)" by (cases kn)
    from Cons.prems Some kn consider "sublist p (take k (c # cs))" | "sublist p (js ''redacted'')"
      | "sublist p (scan m (drop (max 1 n) (c # cs)))"
      using sublist_marker [of p "take k (c # cs)"] by auto
    then show ?thesis
    proof cases
      case 1
      then show ?thesis by (meson sublist_order.order.trans sublist_take)
    next
      case 3
      with Cons.IH(2) [OF Some [unfolded kn] 3 Cons.prems(2)] show ?thesis
        by (meson sublist_order.order.trans sublist_drop)
    qed blast
  qed
qed simp

lemma scan_removes:
  "m w \<noteq> None \<Longrightarrow> bracket_free w \<Longrightarrow> \<not> sublist w (scan m s)"
proof (induction s rule: scan_rule [where m = m])
  case Nil
  then show ?case using no_match_Nil by auto
next
  case (Cons c cs)
  show ?case
  proof (cases "m (c # cs)")
    case None
    have "\<not> prefix w (c # scan m cs)"
    proof
      assume "prefix w (c # scan m cs)"
      then have "prefix w (scan m (c # cs))" using None by simp
      from scan_prefix [OF this Cons.prems(2)] obtain r where "c # cs = w @ r" by (auto simp: prefix_def)
      with extends [OF Cons.prems] None show False by metis
    qed
    with Cons.IH(1) [OF None Cons.prems] None show ?thesis by (simp add: sublist_Cons_right)
  next
    case (Some kn)
    obtain k n where kn: "kn = (k, n)" by (cases kn)
    have "\<not> sublist w (take k (c # cs))"
    proof
      assume "sublist w (take k (c # cs))"
      then obtain ps ss where e: "take k (c # cs) = ps @ w @ ss" by (auto simp: sublist_def)
      have "w \<noteq> []" using Cons.prems(1) no_match_Nil by auto
      then have "length ps < length (take k (c # cs))" by (simp add: e)
      then have "length ps < k" by (simp only: length_take min_less_iff_conj)
      then have "m (drop (length ps) (take k (c # cs))) = None"
        using group_silent [OF Some [unfolded kn]] by blast
      moreover have "drop (length ps) (take k (c # cs)) = w @ ss" by (simp add: e)
      ultimately show False using extends [OF Cons.prems, of ss] by simp
    qed
    moreover have "\<not> sublist w (js ''redacted'')" 
      using marker_silent [of w] Cons.prems(1) by metis
    moreover have "\<not> sublist w (scan m (drop (max 1 n) (c # cs)))"
      using Cons.IH(2) [OF Some [unfolded kn] Cons.prems] .
    moreover have "scan m (c # cs) = take k (c # cs) @ REDACTED @ scan m (drop (max 1 n) (c # cs))"
      using Some kn by simp
    ultimately show ?thesis
      using sublist_marker [of w "take k (c # cs)" "scan m (drop (max 1 n) (c # cs))"] Cons.prems(2)
      by metis
  qed
qed

end

end
