(* ===== verification/Secret_Patterns.thy ===== *)
theory Secret_Patterns
  imports Secret_Text
begin

text \<open>
  The patterns and the entry points of text redaction (\<open>src/utils/secret-sanitizer.ts\<close>): the name
  tables, the three regular expressions as scanners, the configured secret values and
  \<open>sanitizeText\<close> with the helpers built on it. The process environment and the options are
  arguments. Every scanner is an instance of \<open>redactor\<close>.
\<close>

section \<open>Name tables\<close>

definition STRUCTURED_SECRET_FIELD_NAMES :: "jsstring list" where
  "STRUCTURED_SECRET_FIELD_NAMES =
     [js ''applicationKey'', js ''appKey'', js ''authorization'', js ''authorizationToken'',
      js ''authToken'', js ''bearerToken'', js ''customerKey'', js ''customerKeyMd5'',
      js ''downloadAuthorizationToken'', js ''hmacSha256SigningSecret'',
      js ''masterApplicationKey'', js ''masterKey'', js ''password'', js ''privateKey'',
      js ''secret'', js ''secretAccessKey'', js ''sessionToken'', js ''uploadAuthToken'',
      js ''uploadAuthorizationToken'', js ''uploadToken'', js ''uploadUrl'']"

definition SECRET_HEADER_NAMES :: "jsstring list" where
  "SECRET_HEADER_NAMES =
     [js ''authorization'', js ''cookie'', js ''set-cookie'', js ''x-b2-mcp-key'',
      js ''x-b2-mcp-master-key'', js ''x-b2-key'', js ''x-b2-master-key'', js ''x-b2-app-key'',
      js ''x-b2-mcp-app-key'']"

definition SECRET_ENV_VAR_NAMES :: "jsstring list" where
  "SECRET_ENV_VAR_NAMES =
     [js ''AWS_SECRET_ACCESS_KEY'', js ''B2_APPLICATION_KEY'', js ''B2_MASTER_KEY'',
      js ''B2_APP_KEY'']"

definition SECRET_KEY_ID_ENV_VAR_NAMES :: "jsstring list" where
  "SECRET_KEY_ID_ENV_VAR_NAMES =
     [js ''B2_APPLICATION_KEY_ID'', js ''B2_MASTER_KEY_ID'', js ''B2_APP_KEY_ID'']"

definition LOGGER_SECRET_FIELD_NAMES :: "jsstring list" where
  "LOGGER_SECRET_FIELD_NAMES =
     STRUCTURED_SECRET_FIELD_NAMES @
     [js ''accessKeyId'', js ''appKeyId'', js ''applicationKeyId'', js ''masterKeyId'']"

definition TEXT_SECRET_LABELS :: "jsstring list" where
  "TEXT_SECRET_LABELS = STRUCTURED_SECRET_FIELD_NAMES @ SECRET_HEADER_NAMES @ SECRET_ENV_VAR_NAMES"

section \<open>The three expressions\<close>

definition CANARY_LITERAL :: jsstring where
  "CANARY_LITERAL = js ''B2_MCP_CANARY_SECRET_''"

definition canary_unit :: "nat \<Rightarrow> bool" where
  "canary_unit c \<longleftrightarrow> is_alnum c \<or> c = 95 \<or> c = 45"

text \<open>\<open>/B2_MCP_CANARY_SECRET_[A-Za-z0-9_-]+/\<close>: no group is kept.\<close>

definition match_canary :: "jsstring \<Rightarrow> (nat \<times> nat) option" where
  "match_canary s =
     (if prefix CANARY_LITERAL s then
        (let v = takeWhile canary_unit (drop (length CANARY_LITERAL) s) in
         if v = [] then None else Some (0, length CANARY_LITERAL + length v))
      else None)"

text \<open>\<open>/((?:Bearer|Basic)\s+)([A-Za-z0-9._~+/=-]{8,})/\<close>\<close>

definition token_unit :: "nat \<Rightarrow> bool" where
  "token_unit c \<longleftrightarrow> is_alnum c \<or> c \<in> {46, 95, 126, 43, 47, 61, 45}"

definition match_after_scheme :: "jsstring \<Rightarrow> jsstring \<Rightarrow> (nat \<times> nat) option" where
  "match_after_scheme scheme s =
     (if prefix scheme s then
        (let r = drop (length scheme) s; sp = takeWhile js_space r;
             tok = takeWhile token_unit (dropWhile js_space r) in
         if sp = [] \<or> length tok < 8 then None
         else Some (length scheme + length sp, length scheme + length sp + length tok))
      else None)"

definition match_bearer :: "jsstring \<Rightarrow> (nat \<times> nat) option" where
  "match_bearer s =
     (case match_after_scheme (js ''Bearer'') s of
        Some r \<Rightarrow> Some r
      | None \<Rightarrow> match_after_scheme (js ''Basic'') s)"

text \<open>
  The labelled values: an optional quote, a label (case does not matter), an optional quote, white
  space, a colon or an equals sign, white space, an optional quote; then a value that does not start
  with the marker. Labels are tried longest first.
\<close>

definition quote_unit :: "nat \<Rightarrow> bool" where
  "quote_unit c \<longleftrightarrow> c = 34 \<or> c = 39"

definition opt_quote :: "jsstring \<Rightarrow> jsstring" where
  "opt_quote s = (case s of [] \<Rightarrow> [] | c # r \<Rightarrow> if quote_unit c then r else s)"

definition value_unit :: "nat \<Rightarrow> bool" where
  "value_unit c \<longleftrightarrow> \<not> (quote_unit c \<or> c = 44 \<or> js_space c \<or> c = 125 \<or> c = 93)"

definition prefix_ci :: "jsstring \<Rightarrow> jsstring \<Rightarrow> bool" where
  "prefix_ci p s \<longleftrightarrow> prefix (ascii_lower p) (ascii_lower s)"

definition sep_unit :: "nat \<Rightarrow> bool" where
  "sep_unit c \<longleftrightarrow> c = 58 \<or> c = 61"

text \<open>What is left of the text at the value, after the label.\<close>

definition after_label :: "jsstring \<Rightarrow> jsstring option" where
  "after_label s =
     (case dropWhile js_space (opt_quote s) of
        [] \<Rightarrow> None
      | c # r \<Rightarrow>
          (if sep_unit c then
             (let v = opt_quote (dropWhile js_space r) in
              if prefix_ci REDACTED v \<or> takeWhile value_unit v = [] then None else Some v)
           else None))"

definition SORTED_LABELS :: "jsstring list" where
  "SORTED_LABELS = sort_key (\<lambda>l. - int (length l)) TEXT_SECRET_LABELS"

definition label_rest :: "jsstring \<Rightarrow> jsstring \<Rightarrow> jsstring option" where
  "label_rest s l = (if prefix_ci l s then after_label (drop (length l) s) else None)"

fun first_some :: "('a \<Rightarrow> 'b option) \<Rightarrow> 'a list \<Rightarrow> 'b option" where
  "first_some f [] = None"
| "first_some f (x # xs) = (case f x of None \<Rightarrow> first_some f xs | Some y \<Rightarrow> Some y)"

definition match_labeled :: "jsstring \<Rightarrow> (nat \<times> nat) option" where
  "match_labeled s =
     (case first_some (label_rest (opt_quote s)) SORTED_LABELS of
        None \<Rightarrow> None
      | Some v \<Rightarrow> Some (length s - length v, length s - length v + length (takeWhile value_unit v)))"

section \<open>Configured values\<close>

definition MIN_CONFIGURED_SECRET_LENGTH :: nat where
  "MIN_CONFIGURED_SECRET_LENGTH = 8"

fun secretCandidate :: "jsval \<Rightarrow> jsstring option" where
  "secretCandidate (Str s) =
     (if length s < MIN_CONFIGURED_SECRET_LENGTH then None
      else if js_trim s = [] \<or> s = REDACTED then None else Some s)"
| "secretCandidate v = None"

definition env_unit :: "nat \<Rightarrow> bool" where
  "env_unit c \<longleftrightarrow> is_upper c \<or> is_digit c \<or> c = 95"

text \<open>\<open>/^B2_CREDENTIAL_[A-Z0-9_]+_(?:APP_KEY|APPLICATION_KEY|MASTER_KEY)$/\<close> and its key-ID variant\<close>

definition credential_env_name :: "jsstring list \<Rightarrow> jsstring \<Rightarrow> bool" where
  "credential_env_name sufs upper \<longleftrightarrow>
     prefix (js ''B2_CREDENTIAL_'') upper \<and>
     (\<exists>suf \<in> set sufs.
        (let body = drop 14 upper; mid = take (length body - length suf) body in
         suffix suf body \<and> mid \<noteq> [] \<and> (\<forall>c \<in> set mid. env_unit c)))"

definition isSecretEnvName :: "jsstring \<Rightarrow> bool" where
  "isSecretEnvName name =
     (let upper = ascii_upper name in
      upper \<in> set SECRET_ENV_VAR_NAMES \<or>
      credential_env_name [js ''_APP_KEY'', js ''_APPLICATION_KEY'', js ''_MASTER_KEY''] upper)"

definition isSecretKeyIdEnvName :: "jsstring \<Rightarrow> bool" where
  "isSecretKeyIdEnvName name =
     (let upper = ascii_upper name in
      upper \<in> set SECRET_KEY_ID_ENV_VAR_NAMES \<or>
      credential_env_name [js ''_APP_KEY_ID'', js ''_APPLICATION_KEY_ID'', js ''_MASTER_KEY_ID''] upper)"

text \<open>Options: \<open>secrets\<close> and \<open>env\<close>; without an environment the process environment is used.\<close>

record sanitizer_options =
  secrets :: "jsval list option"
  san_env :: "jsprops option"

definition no_options :: sanitizer_options where
  "no_options = \<lparr>secrets = None, san_env = None\<rparr>"

definition env_of :: "jsprops \<Rightarrow> jsprops option \<Rightarrow> jsprops" where
  "env_of penv e = (case e of None \<Rightarrow> penv | Some x \<Rightarrow> x)"

definition candidates :: "jsval list \<Rightarrow> jsstring list" where
  "candidates vs = List.map_filter secretCandidate vs"

definition configuredSecretValuesFromEnv :: "jsprops \<Rightarrow> jsprops option \<Rightarrow> jsstring list" where
  "configuredSecretValuesFromEnv penv e =
     candidates (map snd (filter (\<lambda>(name, v). isSecretEnvName name) (env_of penv e)))"

definition keyIdSecretValuesFromEnv :: "jsprops \<Rightarrow> jsprops option \<Rightarrow> jsstring list" where
  "keyIdSecretValuesFromEnv penv e =
     candidates (map snd (filter (\<lambda>(name, v). isSecretKeyIdEnvName name) (env_of penv e)))"

definition withKeyIdLogSecrets :: "jsprops \<Rightarrow> sanitizer_options \<Rightarrow> sanitizer_options" where
  "withKeyIdLogSecrets penv opts =
     (let keyIds = keyIdSecretValuesFromEnv penv (san_env opts) in
      if keyIds = [] then opts
      else opts\<lparr>secrets := Some ((case secrets opts of None \<Rightarrow> [] | Some s \<Rightarrow> s) @ map Str keyIds)\<rparr>)"

definition configuredSecretValuesFromConfig :: "jsprops option \<Rightarrow> jsstring list" where
  "configuredSecretValuesFromConfig config =
     (case config of None \<Rightarrow> []
      | Some c \<Rightarrow> candidates
          (map (prop_get c) [js ''applicationKey'', js ''appKey'', js ''masterKey'',
             js ''secretAccessKey'', js ''authorizationToken'']))"

definition configuredSecretValues :: "jsprops \<Rightarrow> sanitizer_options \<Rightarrow> jsstring list" where
  "configuredSecretValues penv opts =
     (let values = candidates
        (map Str (configuredSecretValuesFromEnv penv (san_env opts)) @
         (case secrets opts of None \<Rightarrow> [] | Some s \<Rightarrow> s))
      in sort_key (\<lambda>s. - int (length s)) (js_unique values))"

definition sanitizerOptionsFromConfig :: "jsprops option \<Rightarrow> sanitizer_options" where
  "sanitizerOptionsFromConfig config =
     \<lparr>secrets = Some (map Str (configuredSecretValuesFromConfig config)), san_env = None\<rparr>"

text \<open>\<open>sanitizeText\<close>, on the text that \<open>String(text)\<close> gives.\<close>

definition sanitizeText :: "jsprops \<Rightarrow> jsstring \<Rightarrow> sanitizer_options \<Rightarrow> jsstring" where
  "sanitizeText penv t opts =
     scan match_labeled (scan match_bearer (scan match_canary
       (redactExactTextSecrets t (configuredSecretValues penv opts))))"

section \<open>Provider identifiers\<close>

definition sanitizedIdentifier ::
  "jsprops \<Rightarrow> jsstring option \<Rightarrow> (jsstring \<Rightarrow> bool) \<Rightarrow> sanitizer_options \<Rightarrow> jsstring option" where
  "sanitizedIdentifier penv value allowed opts =
     (case value of None \<Rightarrow> None
      | Some v \<Rightarrow>
          (if v = [] then None
           else if sanitizeText penv v opts \<noteq> v then Some REDACTED
           else if allowed v then Some v else Some REDACTED))"

definition identifier_shape :: "(nat \<Rightarrow> bool) \<Rightarrow> nat \<Rightarrow> jsstring \<Rightarrow> bool" where
  "identifier_shape P n s \<longleftrightarrow>
     (case s of [] \<Rightarrow> False | c # r \<Rightarrow> is_alnum c \<and> (\<forall>x \<in> set r. P x) \<and> length r \<le> n)"

definition code_unit :: "nat \<Rightarrow> bool" where
  "code_unit c \<longleftrightarrow> is_alnum c \<or> c \<in> {95, 46, 45}"

definition request_id_unit :: "nat \<Rightarrow> bool" where
  "request_id_unit c \<longleftrightarrow> is_alnum c \<or> c \<in> {95, 46, 58, 47, 43, 61, 45}"

definition sanitizeProviderCode ::
  "jsprops \<Rightarrow> jsstring option \<Rightarrow> sanitizer_options \<Rightarrow> jsstring" where
  "sanitizeProviderCode penv c opts =
     (case sanitizedIdentifier penv c (identifier_shape code_unit 127) opts of
        None \<Rightarrow> js ''unknown_error'' | Some v \<Rightarrow> v)"

definition sanitizeProviderRequestId ::
  "jsprops \<Rightarrow> jsstring option \<Rightarrow> sanitizer_options \<Rightarrow> jsstring option" where
  "sanitizeProviderRequestId penv r opts =
     sanitizedIdentifier penv r (identifier_shape request_id_unit 255) opts"

section \<open>Request headers\<close>

definition SECRET_REQUEST_HEADERS :: "jsstring list" where
  "SECRET_REQUEST_HEADERS =
     [js ''authorization'', js ''cookie'', js ''x-b2-mcp-key'', js ''x-b2-mcp-key-id'',
      js ''x-b2-mcp-master-key'', js ''x-b2-mcp-master-key-id'', js ''x-b2-key'',
      js ''x-b2-key-id'', js ''x-b2-master-key'', js ''x-b2-master-key-id'', js ''x-b2-app-key'',
      js ''x-b2-app-key-id'', js ''x-b2-mcp-app-key'', js ''x-b2-mcp-app-key-id'']"

definition line_terminator :: "nat \<Rightarrow> bool" where
  "line_terminator c \<longleftrightarrow> c = 10 \<or> c = 13 \<or> c = 8232 \<or> c = 8233"

text \<open>\<open>/^\S+\s+(.+)$/.exec(value.trim())\<close>; the trimmed text ends in no white space.\<close>

definition authorizationCredentialValues :: "jsstring \<Rightarrow> jsstring list" where
  "authorizationCredentialValues value =
     (let t = js_trim value;
          scheme = takeWhile (\<lambda>c. \<not> js_space c) t; r = dropWhile (\<lambda>c. \<not> js_space c) t;
          credential = dropWhile js_space r in
      if scheme = [] \<or> r = [] \<or> credential = [] \<or> (\<exists>c \<in> set credential. line_terminator c)
      then [] else [credential])"

fun split_on :: "nat \<Rightarrow> jsstring \<Rightarrow> jsstring list" where
  "split_on x [] = [[]]"
| "split_on x (c # cs) =
     (if c = x then [] # split_on x cs
      else case split_on x cs of [] \<Rightarrow> [[c]] | p # ps \<Rightarrow> (c # p) # ps)"

text \<open>\<open>/^"(.*)"$/\<close>\<close>

definition unquoted :: "jsstring \<Rightarrow> jsstring option" where
  "unquoted v =
     (if 2 \<le> length v \<and> hd v = 34 \<and> last v = 34 \<and> (\<forall>c \<in> set (butlast (tl v)). \<not> line_terminator c)
      then Some (butlast (tl v)) else None)"

definition cookie_part_values :: "jsstring \<Rightarrow> jsstring list" where
  "cookie_part_values part =
     (let cookie = js_trim part in
      if cookie = [] then []
      else case index_of_from cookie [61] 0 of
          None \<Rightarrow> [cookie]
        | Some equalsIndex \<Rightarrow>
            (let cookieValue = js_trim (drop (equalsIndex + 1) cookie) in
             if cookieValue = [] then [cookie]
             else [cookie, cookieValue] @
               (case unquoted cookieValue of None \<Rightarrow> [] | Some u \<Rightarrow> if u = [] then [] else [u])))"

definition cookieSecretValues :: "jsstring \<Rightarrow> jsstring list" where
  "cookieSecretValues value = concat (map cookie_part_values (split_on 59 value))"

definition secretHeaderValues :: "jsstring \<Rightarrow> jsstring \<Rightarrow> jsstring list" where
  "secretHeaderValues name value =
     (if name = js ''authorization'' then value # authorizationCredentialValues value
      else if name = js ''cookie'' then value # cookieSecretValues value
      else [value])"

text \<open>A header lookup gives nothing, one value or a list.\<close>

datatype header_value = NoHeader | OneHeader jsstring | ManyHeaders "jsstring list"

fun header_list :: "header_value \<Rightarrow> jsstring list" where
  "header_list NoHeader = []"
| "header_list (OneHeader v) = (if v = [] then [] else [v])"
| "header_list (ManyHeaders vs) = vs"

definition requestSecretHeaderValues :: "(jsstring \<Rightarrow> header_value) \<Rightarrow> jsstring list" where
  "requestSecretHeaderValues lookup =
     concat (map (\<lambda>name. concat (map (secretHeaderValues name) (header_list (lookup name))))
       SECRET_REQUEST_HEADERS)"

text \<open>
  \<open>safeErrorText\<close>; the text of the error is \<open>None\<close> when coercing the thrown value to text throws.
\<close>

definition LOG_SANITIZER_FAILURE :: jsstring where
  "LOG_SANITIZER_FAILURE = js ''[log_sanitizer_failed]''"

definition safeErrorText :: "jsprops \<Rightarrow> jsstring option \<Rightarrow> jsstring list \<Rightarrow> jsstring" where
  "safeErrorText penv err_text secret_values =
     (case err_text of None \<Rightarrow> LOG_SANITIZER_FAILURE
      | Some t \<Rightarrow>
          (let exact = filter (\<lambda>s. s \<noteq> REDACTED) secret_values in
           sanitizeText penv (redactExactTextSecrets t exact)
             \<lparr>secrets = Some (map Str exact), san_env = None\<rparr>))"

definition bootstrapErrorMessage :: "jsprops \<Rightarrow> jsstring option \<Rightarrow> jsstring" where
  "bootstrapErrorMessage penv err_text =
     (case err_text of None \<Rightarrow> LOG_SANITIZER_FAILURE
      | Some t \<Rightarrow> sanitizeText penv t (withKeyIdLogSecrets penv no_options))"

section \<open>The expressions meet the contract\<close>

lemma takeWhile_append_prefix: "prefix (takeWhile P w) (takeWhile P (w @ s))"
proof (induction w)
  case (Cons a w)
  then show ?case by simp
qed simp

lemma bracket_free_append [simp]:
  "bracket_free (xs @ ys) \<longleftrightarrow> bracket_free xs \<and> bracket_free ys"
  by (auto simp: bracket_free_def)

lemma prefix_drop_append: "prefix p w \<Longrightarrow> drop (length p) (w @ s) = drop (length p) w @ s"
  by (auto simp: prefix_def)

interpretation canary: redactor match_canary
proof
  fix s k n
  assume m: "match_canary s = Some (k, n)"
  let ?v = "takeWhile canary_unit (drop (length CANARY_LITERAL) s)"
  have kn: "prefix CANARY_LITERAL s" "?v \<noteq> []" "k = 0" "n = length CANARY_LITERAL + length ?v"
    using m by (auto simp: match_canary_def Let_def split: if_splits)
  have "length ?v \<le> length (drop (length CANARY_LITERAL) s)" by (rule length_takeWhile_le)
  moreover have "length CANARY_LITERAL \<le> length s" using kn(1) by (rule prefix_length_le)
  ultimately show "k \<le> n \<and> n \<le> length s \<and> 0 < n" using kn by auto
  fix q assume "q < k"
  then show "match_canary (drop q (take k s)) = None" using kn by simp
next
  fix w s
  assume m: "match_canary w \<noteq> None"
  then have p: "prefix CANARY_LITERAL w" "takeWhile canary_unit (drop (length CANARY_LITERAL) w) \<noteq> []"
    by (auto simp: match_canary_def Let_def split: if_splits)
  have "takeWhile canary_unit (drop (length CANARY_LITERAL) (w @ s)) \<noteq> []"
    unfolding prefix_drop_append [OF p(1)]
    using takeWhile_append_prefix [of canary_unit "drop (length CANARY_LITERAL) w" s] p(2) by auto
  then show "match_canary (w @ s) \<noteq> None"
    using p(1) by (auto simp: match_canary_def Let_def)
next
  fix w
  assume s: "sublist w (js ''redacted'')"
  have "length w \<le> 8" using sublist_length_le [OF s] by simp
  then have "\<not> prefix CANARY_LITERAL w"
    by (auto dest!: prefix_length_le simp: CANARY_LITERAL_def)
  then show "match_canary w = None" by (simp add: match_canary_def)
qed

text \<open>
  The kept group of the two other expressions is silent: after a unit of one kind (white space, a
  separator) it holds only units of another kind, while a match needs something else there.
\<close>

definition silent :: "(nat \<Rightarrow> bool) \<Rightarrow> (nat \<Rightarrow> bool) \<Rightarrow> jsstring \<Rightarrow> bool" where
  "silent C D t \<longleftrightarrow> (\<forall>us a vs b ws. t = us @ a # vs @ b # ws \<longrightarrow> C a \<longrightarrow> D b)"

lemma silent_suffix: "silent C D (xs @ t) \<Longrightarrow> silent C D t"
  unfolding silent_def by (metis append.assoc)

lemma silent_drop: "silent C D t \<Longrightarrow> silent C D (drop q t)"
  using silent_suffix [of C D "take q t" "drop q t"] by simp

lemma silent_intro:
  assumes "\<forall>c \<in> set A. \<not> C c" "\<forall>c \<in> set B. D c"
  shows "silent C D (A @ x # B)"
  unfolding silent_def
proof (intro allI impI)
  fix us a vs b ws
  assume e: "A @ x # B = us @ a # vs @ b # ws" and a: "C a"
  have "length A \<le> length us"
  proof (rule ccontr)
    assume "\<not> length A \<le> length us"
    then have l: "length us < length A" by simp
    have "(A @ x # B) ! length us = a" by (simp add: e)
    with l have "A ! length us = a" by (simp add: nth_append)
    with l assms(1) a show False by (metis nth_mem)
  qed
  then obtain k where k: "length us = length A + k" using le_iff_add by blast
  have "drop (Suc (length A + k)) (A @ x # B) = vs @ b # ws" by (simp add: e k [symmetric])
  then have "drop k B = vs @ b # ws" by simp
  then have "b \<in> set B" by (metis in_set_conv_decomp in_set_dropD)
  with assms(2) show "D b" by blast
qed

lemma token_not_space: "token_unit c \<Longrightarrow> \<not> js_space c"
  by (auto simp: token_unit_def char_class_defs)

lemma space_split:
  "dropWhile P r \<noteq> [] \<Longrightarrow> takeWhile P (r @ s) = takeWhile P r \<and> dropWhile P (r @ s) = dropWhile P r @ s"
  by (induction r) auto

lemma scheme_shape:
  assumes "match_after_scheme scheme s = Some (k, n)"
  obtains sp tok r where "s = scheme @ sp @ tok @ r" "sp \<noteq> []" "\<forall>c \<in> set sp. js_space c" "tok \<noteq> []"
    "\<forall>c \<in> set tok. token_unit c" "k = length scheme + length sp" "n = k + length tok"
proof
  let ?r = "drop (length scheme) s"
  let ?t = "dropWhile js_space ?r"
  have p: "prefix scheme s" and sp: "takeWhile js_space ?r \<noteq> []" "8 \<le> length (takeWhile token_unit ?t)"
    and kn: "k = length scheme + length (takeWhile js_space ?r)" "n = k + length (takeWhile token_unit ?t)"
    using assms by (auto simp: match_after_scheme_def Let_def split: if_splits)
  have "s = scheme @ ?r" using p by (metis append_eq_conv_conj prefix_def)
  also have "?r = takeWhile js_space ?r @ takeWhile token_unit ?t @ dropWhile token_unit ?t"
    by simp
  finally show "s = scheme @ takeWhile js_space ?r @ takeWhile token_unit ?t @ dropWhile token_unit ?t" .
  show "takeWhile token_unit ?t \<noteq> []" using sp(2) by auto
qed (use assms in \<open>auto simp: match_after_scheme_def Let_def dest: set_takeWhileD split: if_splits\<close>)

lemma scheme_extends:
  assumes "match_after_scheme scheme w \<noteq> None"
  shows "match_after_scheme scheme (w @ s) \<noteq> None"
proof -
  let ?r = "drop (length scheme) w"
  let ?t = "dropWhile js_space ?r"
  have p: "prefix scheme w" and sp: "takeWhile js_space ?r \<noteq> []" "8 \<le> length (takeWhile token_unit ?t)"
    using assms by (auto simp: match_after_scheme_def Let_def split: if_splits)
  have "?t \<noteq> []" using sp(2) by (metis le_zero_eq list.size(3) takeWhile.simps(1) zero_neq_numeral)
  note sl = space_split [OF this, of s]
  have "prefix (takeWhile token_unit ?t) (takeWhile token_unit (?t @ s))"
    by (rule takeWhile_append_prefix)
  then have "8 \<le> length (takeWhile token_unit (?t @ s))"
    using sp(2) by (meson order.trans prefix_length_le)
  then show ?thesis
    unfolding match_after_scheme_def Let_def prefix_drop_append [OF p] using p sp(1) sl by simp
qed

lemma bearer_cases: "match_bearer s = Some kn \<Longrightarrow> \<exists>scheme \<in> {js ''Bearer'', js ''Basic''}.
    match_after_scheme scheme s = Some kn"
  by (auto simp: match_bearer_def split: option.splits)

lemma scheme_units: "scheme \<in> {js ''Bearer'', js ''Basic''} \<Longrightarrow> \<forall>c \<in> set scheme. \<not> js_space c"
  by (auto simp: js_def js_space_def)

lemma bearer_not_silent: "match_bearer t = Some kn \<Longrightarrow> \<not> silent js_space js_space t"
proof
  assume m: "match_bearer t = Some kn" and s: "silent js_space js_space t"
  obtain scheme k n where "match_after_scheme scheme t = Some (k, n)"
    using bearer_cases [OF m] by (cases kn) auto
  then obtain sp tok r where t: "t = scheme @ sp @ tok @ r" "sp \<noteq> []" "\<forall>c \<in> set sp. js_space c"
    "tok \<noteq> []" "\<forall>c \<in> set tok. token_unit c" by (rule scheme_shape)
  obtain a vs where a: "sp = a # vs" using t(2) by (cases sp) auto
  obtain b ws where b: "tok = b # ws" using t(4) by (cases tok) auto
  have "t = scheme @ a # vs @ b # (ws @ r)" using t(1) a b by simp
  then have "js_space b" using s t(3) a unfolding silent_def by (metis list.set_intros(1))
  with t(5) b token_not_space show False by auto
qed

interpretation bearer: redactor match_bearer
proof
  fix s k n
  assume m: "match_bearer s = Some (k, n)"
  obtain scheme where sch: "scheme \<in> {js ''Bearer'', js ''Basic''}" "match_after_scheme scheme s = Some (k, n)"
    using bearer_cases [OF m] by auto
  from sch(2) obtain sp tok r where t: "s = scheme @ sp @ tok @ r" "sp \<noteq> []" "\<forall>c \<in> set sp. js_space c"
    "tok \<noteq> []" "k = length scheme + length sp" "n = k + length tok" by (rule scheme_shape)
  show "k \<le> n \<and> n \<le> length s \<and> 0 < n" using t by auto
  obtain a vs where a: "sp = a # vs" using t(2) by (cases sp) auto
  have "take k s = scheme @ a # vs" using t(1,5) a by simp
  then have "silent js_space js_space (take k s)"
    using silent_intro [of scheme js_space vs js_space a] scheme_units [OF sch(1)] t(3) a by simp
  then have "silent js_space js_space (drop q (take k s))" for q by (rule silent_drop)
  then show "match_bearer (drop q (take k s)) = None" for q
    using bearer_not_silent by (cases "match_bearer (drop q (take k s))") blast+
next
  fix w s
  assume "match_bearer w \<noteq> None"
  then show "match_bearer (w @ s) \<noteq> None"
    using scheme_extends [of "js ''Bearer''" w s] scheme_extends [of "js ''Basic''" w s]
    by (auto simp: match_bearer_def split: option.splits)
next
  fix w
  assume s: "sublist w (js ''redacted'')"
  then have "set w \<subseteq> set (js ''redacted'')" by (rule set_mono_sublist)
  then have "\<forall>c \<in> set w. \<not> js_space c" by (auto simp: js_def js_space_def)
  then have "silent js_space js_space w" by (auto simp: silent_def)
  then show "match_bearer w = None" using bearer_not_silent by (cases "match_bearer w") blast+
qed

section \<open>The labelled expression\<close>

lemma first_some_None: "first_some f xs = None \<longleftrightarrow> (\<forall>x \<in> set xs. f x = None)"
  by (induction xs) (auto split: option.split)

lemma first_some_Some: "first_some f xs = Some y \<Longrightarrow> \<exists>x \<in> set xs. f x = Some y"
  by (induction xs) (auto split: option.splits)

lemma opt_quote_split: "\<exists>q. s = q @ opt_quote s \<and> (\<forall>c \<in> set q. quote_unit c)"
proof (cases s)
  case (Cons c r)
  then show ?thesis
    by (cases "quote_unit c") (auto simp: opt_quote_def intro: exI [of _ "[c]"])
qed (simp add: opt_quote_def)

lemma opt_quote_append: "s \<noteq> [] \<Longrightarrow> opt_quote (s @ t) = opt_quote s @ t"
  by (cases s) (auto simp: opt_quote_def)

lemma sep_classes: "sep_unit c \<Longrightarrow> \<not> quote_unit c \<and> \<not> js_space c"
  by (auto simp: sep_unit_def quote_unit_def js_space_def)

definition filler :: "nat \<Rightarrow> bool" where
  "filler c \<longleftrightarrow> js_space c \<or> quote_unit c"

lemma after_label_shape:
  assumes "after_label s = Some v"
  obtains A c B where "s = A @ c # B @ v" "\<forall>x \<in> set A. filler x" "sep_unit c" "\<forall>x \<in> set B. filler x"
    "takeWhile value_unit v \<noteq> []"
proof -
  let ?d = "dropWhile js_space (opt_quote s)"
  obtain c r where d: "?d = c # r" and c: "sep_unit c" and v: "v = opt_quote (dropWhile js_space r)"
    "takeWhile value_unit v \<noteq> []"
    using assms by (auto simp: after_label_def Let_def split: list.splits if_splits)
  obtain q where q: "s = q @ opt_quote s" "\<forall>c \<in> set q. quote_unit c" using opt_quote_split by blast
  obtain q' where q': "dropWhile js_space r = q' @ v" "\<forall>c \<in> set q'. quote_unit c"
    using opt_quote_split [of "dropWhile js_space r"] v(1) by blast
  have "opt_quote s = takeWhile js_space (opt_quote s) @ c # r" using d by (metis takeWhile_dropWhile_id)
  moreover have "r = takeWhile js_space r @ q' @ v" using q'(1) by (metis takeWhile_dropWhile_id)
  ultimately have "s = (q @ takeWhile js_space (opt_quote s)) @ c # (takeWhile js_space r @ q') @ v"
    using q(1) by (metis append.assoc append_Cons)
  then show thesis
    using that [of "q @ takeWhile js_space (opt_quote s)" c "takeWhile js_space r @ q'"] q(2) q'(2) c v(2)
    by (auto simp: filler_def dest: set_takeWhileD)
qed

lemma after_label_extends:
  assumes "after_label w \<noteq> None" "bracket_free w"
  shows "after_label (w @ s) \<noteq> None"
proof -
  obtain v where v: "after_label w = Some v" using assms(1) by auto
  let ?d = "dropWhile js_space (opt_quote w)"
  obtain c r where d: "?d = c # r" and c: "sep_unit c" and vr: "v = opt_quote (dropWhile js_space r)"
    "takeWhile value_unit v \<noteq> []"
    using v by (auto simp: after_label_def Let_def split: list.splits if_splits)
  have w: "w \<noteq> []" using d by (auto simp: opt_quote_def)
  have dr: "dropWhile js_space r \<noteq> []"
  proof
    assume "dropWhile js_space r = []"
    with vr show False by (simp only: opt_quote_def list.case takeWhile.simps simp_thms)
  qed
  have d': "dropWhile js_space (opt_quote (w @ s)) = c # r @ s"
    using opt_quote_append [OF w, of s] space_split [of js_space "opt_quote w" s] d by simp
  have v': "opt_quote (dropWhile js_space (r @ s)) = v @ s"
    using opt_quote_append [OF dr, of s] space_split [OF dr, of s] vr(1) by simp
  obtain x xs where x: "v = x # xs" using vr(2) by (cases v) auto
  obtain A c' B where "w = A @ c' # B @ v" by (rule after_label_shape [OF v])
  then have "x \<noteq> 91" using assms(2) x by (auto simp: bracket_free_def)
  then have "\<not> prefix_ci REDACTED (v @ s)"
    by (auto simp: prefix_ci_def x REDACTED_parts ascii_lower_def ascii_lower_unit_def is_upper_def
        split: if_splits)
  moreover have "takeWhile value_unit (v @ s) \<noteq> []" using vr(2) by (simp add: x split: if_splits)
  ultimately show ?thesis using d' v' c by (simp add: after_label_def Let_def)
qed

lemma label_units: "l \<in> set TEXT_SECRET_LABELS \<Longrightarrow> c \<in> set l \<Longrightarrow> \<not> sep_unit (ascii_lower_unit c)"
  by (auto simp: TEXT_SECRET_LABELS_def STRUCTURED_SECRET_FIELD_NAMES_def SECRET_HEADER_NAMES_def
      SECRET_ENV_VAR_NAMES_def js_def sep_unit_def ascii_lower_unit_def is_upper_def)

lemma sep_lower: "sep_unit (ascii_lower_unit c) = sep_unit c"
  by (auto simp: sep_unit_def ascii_lower_unit_def is_upper_def)

lemma label_text:
  assumes "l \<in> set TEXT_SECRET_LABELS" "prefix_ci l s"
  shows "\<forall>c \<in> set (take (length l) s). \<not> sep_unit c"
proof
  fix c assume c: "c \<in> set (take (length l) s)"
  have "ascii_lower l = take (length l) (ascii_lower s)"
    using assms(2) by (auto simp: prefix_ci_def prefix_def ascii_lower_def append_eq_conv_conj)
  then have "map ascii_lower_unit (take (length l) s) = map ascii_lower_unit l"
    by (simp add: ascii_lower_def take_map)
  moreover have "ascii_lower_unit c \<in> set (map ascii_lower_unit (take (length l) s))" using c by simp
  ultimately have "ascii_lower_unit c \<in> set (map ascii_lower_unit l)" by simp
  then obtain d where d: "d \<in> set l" "ascii_lower_unit c = ascii_lower_unit d" by auto
  have "\<not> sep_unit (ascii_lower_unit c)" using label_units [OF assms(1) d(1)] by (simp add: d(2))
  then show "\<not> sep_unit c" by (simp add: sep_lower)
qed

lemma set_SORTED_LABELS [simp]: "set SORTED_LABELS = set TEXT_SECRET_LABELS"
  by (simp add: SORTED_LABELS_def)

lemma labeled_shape:
  assumes "match_labeled s = Some (k, n)"
  obtains A c B v where "s = A @ c # B @ v" "\<forall>x \<in> set A. \<not> sep_unit x" "sep_unit c"
    "\<forall>x \<in> set B. filler x" "takeWhile value_unit v \<noteq> []" "k = length A + 1 + length B"
    "n = k + length (takeWhile value_unit v)"
proof -
  obtain v where v: "first_some (label_rest (opt_quote s)) SORTED_LABELS = Some v"
    and kn: "k = length s - length v" "n = length s - length v + length (takeWhile value_unit v)"
    using assms by (auto simp: match_labeled_def split: option.splits)
  obtain l where l: "l \<in> set TEXT_SECRET_LABELS" "label_rest (opt_quote s) l = Some v"
    using first_some_Some [OF v] by auto
  have pl: "prefix_ci l (opt_quote s)" and al: "after_label (drop (length l) (opt_quote s)) = Some v"
    using l(2) by (simp_all add: label_rest_def split: if_splits)
  obtain A c B where ab: "drop (length l) (opt_quote s) = A @ c # B @ v" "\<forall>x \<in> set A. filler x"
    "sep_unit c" "\<forall>x \<in> set B. filler x" "takeWhile value_unit v \<noteq> []"
    using after_label_shape [OF al] by metis
  obtain q where q: "s = q @ opt_quote s" "\<forall>c \<in> set q. quote_unit c" using opt_quote_split by blast
  let ?A = "q @ take (length l) (opt_quote s) @ A"
  have s: "s = ?A @ c # B @ v"
    using q(1) ab(1) by (metis append.assoc append_take_drop_id)
  have "\<forall>x \<in> set ?A. \<not> sep_unit x"
    using q(2) ab(2) label_text [OF l(1) pl] sep_classes by (auto simp: filler_def)
  moreover have "length s - length v = length ?A + 1 + length B"
    using arg_cong [OF s, of length] by simp
  ultimately show thesis using that [OF s] ab kn by simp
qed

lemma value_not_filler: "value_unit c \<Longrightarrow> \<not> filler c"
  by (auto simp: value_unit_def filler_def)

lemma labeled_not_silent: "match_labeled t = Some kn \<Longrightarrow> \<not> silent sep_unit filler t"
proof
  assume m: "match_labeled t = Some kn" and s: "silent sep_unit filler t"
  obtain k n where "match_labeled t = Some (k, n)" using m by (cases kn) simp
  then obtain A c B v where t: "t = A @ c # B @ v" "sep_unit c" "takeWhile value_unit v \<noteq> []"
    by (rule labeled_shape)
  obtain x xs where x: "v = x # xs" "value_unit x" using t(3) by (cases v) (auto split: if_splits)
  have "filler x" using s t(1,2) x(1) unfolding silent_def by metis
  with x(2) value_not_filler show False by blast
qed

lemma match_labeled_None: "match_labeled s = None \<longleftrightarrow>
    (\<forall>l \<in> set TEXT_SECRET_LABELS. label_rest (opt_quote s) l = None)"
proof -
  have "match_labeled s = None \<longleftrightarrow> first_some (label_rest (opt_quote s)) SORTED_LABELS = None"
    by (simp add: match_labeled_def split: option.split)
  then show ?thesis by (simp add: first_some_None)
qed

lemma prefix_ci_append: "prefix_ci l s \<Longrightarrow> prefix_ci l (s @ t)"
  by (simp add: prefix_ci_def ascii_lower_def prefix_order.order_trans [of _ "map ascii_lower_unit s"])

lemma prefix_ci_length: "prefix_ci l s \<Longrightarrow> length l \<le> length s"
  by (auto simp: prefix_ci_def ascii_lower_def dest: prefix_length_le)

interpretation labeled: redactor match_labeled
proof
  fix s k n
  assume m: "match_labeled s = Some (k, n)"
  obtain A c B v where t: "s = A @ c # B @ v" "\<forall>x \<in> set A. \<not> sep_unit x"
    "\<forall>x \<in> set B. filler x" "k = length A + 1 + length B" "n = k + length (takeWhile value_unit v)"
    using labeled_shape [OF m] by metis
  show "k \<le> n \<and> n \<le> length s \<and> 0 < n" using t length_takeWhile_le [of value_unit v] by simp
  have "take k s = A @ c # B" using t(1,4) by simp
  then have "silent sep_unit filler (take k s)"
    using silent_intro [of A sep_unit B filler c] t(2,3) by simp
  then have "silent sep_unit filler (drop q (take k s))" for q by (rule silent_drop)
  then show "match_labeled (drop q (take k s)) = None" for q
    using labeled_not_silent by (cases "match_labeled (drop q (take k s))") blast+
next
  fix w s
  assume m: "match_labeled w \<noteq> None" and b: "bracket_free w"
  obtain l where l: "l \<in> set TEXT_SECRET_LABELS" "label_rest (opt_quote w) l \<noteq> None"
    using m match_labeled_None [of w] by auto
  have p: "prefix_ci l (opt_quote w)" and a: "after_label (drop (length l) (opt_quote w)) \<noteq> None"
    using l(2) by (simp_all add: label_rest_def split: if_splits)
  have ne: "w \<noteq> []"
  proof
    assume "w = []"
    with a show False by (simp add: opt_quote_def after_label_def)
  qed
  obtain q where q: "w = q @ opt_quote w" using opt_quote_split by blast
  have "bracket_free (opt_quote w)" using b q by (metis bracket_free_append)
  then have "bracket_free (drop (length l) (opt_quote w))"
    by (auto simp: bracket_free_def dest: in_set_dropD)
  from after_label_extends [OF a this, of s]
  have "label_rest (opt_quote (w @ s)) l \<noteq> None"
    using prefix_ci_append [OF p, of s] prefix_ci_length [OF p]
    by (simp add: label_rest_def opt_quote_append [OF ne])
  then show "match_labeled (w @ s) \<noteq> None" using l(1) match_labeled_None [of "w @ s"] by auto
next
  fix w
  assume s: "sublist w (js ''redacted'')"
  then have "set w \<subseteq> set (js ''redacted'')" by (rule set_mono_sublist)
  then have "\<forall>c \<in> set w. \<not> sep_unit c" by (auto simp: js_def sep_unit_def)
  then have "silent sep_unit filler w" by (auto simp: silent_def)
  then show "match_labeled w = None" using labeled_not_silent by (cases "match_labeled w") blast+
qed

section \<open>What no output contains\<close>

definition redactable :: "jsstring \<Rightarrow> bool" where
  "redactable s \<longleftrightarrow> js_trim s \<noteq> [] \<and> bracket_free s \<and> \<not> sublist s (js ''redacted'')"

lemma scans_keep_out:
  assumes "bracket_free p" "\<not> sublist p (js ''redacted'')" "\<not> sublist p t"
  shows "\<not> sublist p (scan match_labeled (scan match_bearer (scan match_canary t)))"
  using assms canary.scan_keeps_out [of p t] bearer.scan_keeps_out [of p "scan match_canary t"]
    labeled.scan_keeps_out [of p "scan match_bearer (scan match_canary t)"]
  by blast

lemma configured_redacted:
  assumes "s \<in> set (configuredSecretValues penv opts)" "redactable s"
  shows "\<not> sublist s (sanitizeText penv t opts)"
  using assms exact_redaction [of s "configuredSecretValues penv opts" t]
  unfolding sanitizeText_def redactable_def by (intro scans_keep_out) auto

lemma candidates_iff: "s \<in> set (candidates vs) \<longleftrightarrow> Str s \<in> set vs \<and> secretCandidate (Str s) = Some s"
proof -
  have "secretCandidate v = Some s \<Longrightarrow> v = Str s" for v
    by (cases v) (auto split: if_splits)
  then show ?thesis
    by (force simp: candidates_def List.map_filter_def split: if_splits)
qed

lemma configured_values_iff:
  "s \<in> set (configuredSecretValues penv opts) \<longleftrightarrow>
     secretCandidate (Str s) = Some s \<and>
     ((\<exists>name. (name, Str s) \<in> set (env_of penv (san_env opts)) \<and> isSecretEnvName name)
      \<or> (\<exists>vs. secrets opts = Some vs \<and> Str s \<in> set vs))"
proof -
  have e: "s \<in> set (configuredSecretValuesFromEnv penv (san_env opts)) \<longleftrightarrow>
      (\<exists>name. (name, Str s) \<in> set (env_of penv (san_env opts)) \<and> isSecretEnvName name)
      \<and> secretCandidate (Str s) = Some s"
    unfolding configuredSecretValuesFromEnv_def candidates_iff by (auto simp: image_iff)
  have "s \<in> set (configuredSecretValues penv opts) \<longleftrightarrow>
      Str s \<in> set (map Str (configuredSecretValuesFromEnv penv (san_env opts)) @
        (case secrets opts of None \<Rightarrow> [] | Some vs \<Rightarrow> vs)) \<and> secretCandidate (Str s) = Some s"
    by (simp only: configuredSecretValues_def Let_def set_sort set_js_unique candidates_iff)
  moreover have "Str s \<in> set (map Str vs) \<longleftrightarrow> s \<in> set vs" for vs by auto
  ultimately have m: "s \<in> set (configuredSecretValues penv opts) \<longleftrightarrow>
      (s \<in> set (configuredSecretValuesFromEnv penv (san_env opts)) \<or>
       Str s \<in> set (case secrets opts of None \<Rightarrow> [] | Some vs \<Rightarrow> vs)) \<and> secretCandidate (Str s) = Some s"
    by (simp only: set_append Un_iff)
  have o: "Str s \<in> set (case secrets opts of None \<Rightarrow> [] | Some vs \<Rightarrow> vs) \<longleftrightarrow>
      (\<exists>vs. secrets opts = Some vs \<and> Str s \<in> set vs)"
    by (cases "secrets opts") simp_all
  show ?thesis unfolding m e o by blast
qed

lemma candidate_long: "secretCandidate (Str s) = Some s \<longleftrightarrow> 8 \<le> length s \<and> js_trim s \<noteq> [] \<and> s \<noteq> REDACTED"
  by (auto simp: MIN_CONFIGURED_SECRET_LENGTH_def)

lemma sublist_redacted_long:
  assumes "sublist s (js ''redacted'')" "8 \<le> length s"
  shows "s = js ''redacted''"
proof -
  obtain a b where e: "js ''redacted'' = a @ s @ b" using assms(1) by (auto simp: sublist_def)
  have "length a + (length s + length b) = 8" using arg_cong [OF e, of length] by simp
  then have "length a = 0" "length b = 0" using assms(2) by linarith+
  with e show ?thesis by simp
qed

lemma scan_id: "(\<And>q. m (drop q s) = None) \<Longrightarrow> scan m s = s"
proof (induction s)
  case (Cons c cs)
  have "m (drop q cs) = None" for q using Cons.prems [of "Suc q"] by simp
  with Cons.IH Cons.prems [of 0] show ?case by simp
qed simp

section \<open>Properties\<close>

text \<open>
  Exact redaction. After \<open>redactExactTextSecrets\<close> no secret of the list occurs in the text, however
  the occurrences overlap or touch, also not across a marker that was put in; the secret must not be
  blank, contain a bracket, or be a piece of the word in the marker. A text in which no secret
  occurs is returned as it is.
\<close>

theorem exact_secrets_removed:
  assumes "secret \<in> set secret_values" "js_trim secret \<noteq> []" "91 \<notin> set secret \<and> 93 \<notin> set secret"
    "\<not> sublist secret (js ''redacted'')"
  shows "\<not> sublist secret (redactExactTextSecrets t secret_values)
    \<and> ((\<forall>s \<in> set secret_values. \<not> sublist s t) \<longrightarrow> redactExactTextSecrets t secret_values = t)"
  using exact_redaction [of secret secret_values t] exact_redaction_id [of secret_values t] assms
  by (simp add: bracket_free_def)

theorem exact_secrets_removed_witness:
  "\<not> sublist (js ''aba'') (redactExactTextSecrets (js ''xababay'') [js ''aba'', js ''bab''])"
  by (rule exact_secrets_removed [THEN conjunct1])
    (auto simp: js_def js_trim_def js_space_def sublist_def Cons_eq_append_conv)

text \<open>
  (C12) Configured secrets. A string of eight units or more that is configured, as an option or in a secret
  environment variable, never occurs in what \<open>sanitizeText\<close> returns, whatever the other patterns replace
  (unless it holds a bracket or is the word of the marker).
\<close>

theorem configured_secrets_never_printed:
  assumes "8 \<le> length s" "js_trim s \<noteq> []" "91 \<notin> set s \<and> 93 \<notin> set s" "s \<noteq> js ''redacted''"
    and "(\<exists>name. (name, Str s) \<in> set (env_of penv (san_env opts)) \<and> isSecretEnvName name)
      \<or> (\<exists>vs. secrets opts = Some vs \<and> Str s \<in> set vs)"
  shows "\<not> sublist s (sanitizeText penv t opts)"
proof (rule configured_redacted)
  have "s \<noteq> REDACTED" using assms(3) by (auto simp: REDACTED_parts)
  then show "s \<in> set (configuredSecretValues penv opts)"
    using assms(1,2,5) unfolding configured_values_iff candidate_long by blast
  show "redactable s"
    using assms sublist_redacted_long [of s] by (auto simp: redactable_def bracket_free_def)
qed

theorem configured_secrets_never_printed_witness:
  "\<not> sublist (js ''K0123456789'')
     (sanitizeText [(js ''B2_APPLICATION_KEY'', Str (js ''K0123456789''))] (js ''key=K0123456789!'') no_options)"
  by (rule configured_secrets_never_printed)
    (auto simp: js_def js_trim_def js_space_def env_of_def no_options_def isSecretEnvName_def Let_def
      SECRET_ENV_VAR_NAMES_def ascii_upper_def ascii_upper_unit_def is_lower_def)

text \<open>
  Patterns. What \<open>sanitizeText\<close> returns contains no canary, no bearer or basic credential and no
  labelled value (text without brackets that one of the three expressions matches), not even one
  that another replacement would have put together.
\<close>

theorem patterns_never_printed:
  assumes "match_canary w \<noteq> None \<or> match_bearer w \<noteq> None \<or> match_labeled w \<noteq> None"
    and "91 \<notin> set w \<and> 93 \<notin> set w"
  shows "\<not> sublist w (sanitizeText penv t opts)"
proof -
  let ?a = "redactExactTextSecrets t (configuredSecretValues penv opts)"
  have b: "bracket_free w" using assms(2) by (simp add: bracket_free_def)
  have r: "\<not> sublist w (js ''redacted'')"
    using assms(1) canary.marker_silent [of w] bearer.marker_silent [of w] labeled.marker_silent [of w]
    by argo
  from assms(1) consider "match_canary w \<noteq> None" | "match_bearer w \<noteq> None" | "match_labeled w \<noteq> None"
    by blast
  then show ?thesis
  proof cases
    case 1
    from canary.scan_removes [OF 1 b, of ?a] show ?thesis
      using b r bearer.scan_keeps_out [of w "scan match_canary ?a"]
        labeled.scan_keeps_out [of w "scan match_bearer (scan match_canary ?a)"]
      by (auto simp: sanitizeText_def)
  next
    case 2
    from bearer.scan_removes [OF 2 b, of "scan match_canary ?a"] show ?thesis
      using b r labeled.scan_keeps_out [of w "scan match_bearer (scan match_canary ?a)"]
      by (auto simp: sanitizeText_def)
  next
    case 3
    from labeled.scan_removes [OF 3 b] show ?thesis by (simp add: sanitizeText_def)
  qed
qed

theorem patterns_never_printed_witness:
  "\<not> sublist (js ''Bearer abcdefgh'') (sanitizeText [] (js ''Authorization: Bearer abcdefgh'') no_options)"
  by (rule patterns_never_printed)
    (auto simp: match_bearer_def match_after_scheme_def js_def js_space_def token_unit_def
      char_class_defs)

text \<open>
  Nothing else is touched: a text in which no configured value occurs and at no position of which an
  expression matches is returned as it is.
\<close>

lemma clean_text:
  assumes "\<forall>s \<in> set (configuredSecretValues penv opts). \<not> sublist s t"
    and "\<And>q. match_canary (drop q t) = None \<and> match_bearer (drop q t) = None \<and> match_labeled (drop q t) = None"
  shows "sanitizeText penv t opts = t"
  using assms exact_redaction_id [of "configuredSecretValues penv opts" t]
  by (simp add: sanitizeText_def scan_id)

lemma no_colon_no_label: "\<forall>c \<in> set t. \<not> sep_unit c \<Longrightarrow> match_labeled t = None"
  using labeled_not_silent [of t] by (cases "match_labeled t") (auto simp: silent_def)

lemma no_space_no_bearer: "\<forall>c \<in> set t. \<not> js_space c \<Longrightarrow> match_bearer t = None"
  using bearer_not_silent [of t] by (cases "match_bearer t") (auto simp: silent_def)

lemma short_no_canary: "length t < 21 \<Longrightarrow> match_canary t = None"
  by (auto simp: match_canary_def CANARY_LITERAL_def dest: prefix_length_le)

text \<open>
  Request secrets. The text that the HTTP error path logs contains none of the secret header values
  of the request, however short, nor the credential of its authorization header.
\<close>

theorem header_secrets_never_logged:
  assumes "s \<in> set (requestSecretHeaderValues lookup)" "js_trim s \<noteq> []" "91 \<notin> set s \<and> 93 \<notin> set s"
    "\<not> sublist s (js ''redacted'')"
  shows "\<not> sublist s (safeErrorText penv (Some t) (requestSecretHeaderValues lookup))"
proof -
  have b: "bracket_free s" using assms(3) by (simp add: bracket_free_def)
  have "s \<noteq> REDACTED" using assms(3) by (auto simp: REDACTED_parts)
  then have "s \<in> set (filter (\<lambda>s. s \<noteq> REDACTED) (requestSecretHeaderValues lookup))" using assms(1) by simp
  from exact_redaction [OF this assms(2) b assms(4)] have
    "\<not> sublist s (redactExactTextSecrets t (filter (\<lambda>s. s \<noteq> REDACTED) (requestSecretHeaderValues lookup)))" .
  from scans_keep_out [OF b assms(4) exact_keeps_out [OF b assms(4) this]] show ?thesis
    by (simp add: safeErrorText_def sanitizeText_def Let_def)
qed

lemma sample_authorization:
  "requestSecretHeaderValues (\<lambda>n. if n = js ''authorization'' then OneHeader (js ''Token xyz'') else NoHeader) =
     [js ''Token xyz'', js ''xyz'']"
  by (simp add: requestSecretHeaderValues_def SECRET_REQUEST_HEADERS_def secretHeaderValues_def
      authorizationCredentialValues_def js_trim_def js_space_def line_terminator_def js_def)

theorem header_secrets_never_logged_witness:
  "\<not> sublist (js ''xyz'') (safeErrorText [] (Some (js ''bad xyz'')) [js ''Token xyz'', js ''xyz''])"
  using header_secrets_never_logged [of "js ''xyz''" "\<lambda>n. if n = js ''authorization'' then
      OneHeader (js ''Token xyz'') else NoHeader" "[]" "js ''bad xyz''"]
  unfolding sample_authorization
  by (auto simp: js_def js_trim_def js_space_def sublist_def Cons_eq_append_conv)

text \<open>
  Provider identifiers. A code or request id that is printed is the marker, the fixed fallback, or
  the given text unchanged, and then it has the narrow shape and the text sanitizer leaves it as it
  is, so that it holds no configured secret.
\<close>

theorem provider_code_safe:
  "sanitizeProviderCode penv c opts \<in> {js ''unknown_error'', REDACTED}
   \<or> (c = Some (sanitizeProviderCode penv c opts)
      \<and> identifier_shape code_unit 127 (sanitizeProviderCode penv c opts)
      \<and> sanitizeText penv (sanitizeProviderCode penv c opts) opts = sanitizeProviderCode penv c opts
      \<and> (\<forall>s \<in> set (configuredSecretValues penv opts).
           redactable s \<longrightarrow> \<not> sublist s (sanitizeProviderCode penv c opts)))"
proof (cases "sanitizedIdentifier penv c (identifier_shape code_unit 127) opts")
  case (Some v)
  then have p: "sanitizeProviderCode penv c opts = v" by (simp add: sanitizeProviderCode_def)
  show ?thesis
  proof (cases "v = REDACTED")
    case False
    with Some have v: "c = Some v" "sanitizeText penv v opts = v" "identifier_shape code_unit 127 v"
      by (auto simp: sanitizedIdentifier_def split: option.splits if_splits)
    have "\<not> sublist s v" if "s \<in> set (configuredSecretValues penv opts)" "redactable s" for s
      using configured_redacted [OF that, of v] v(2) by simp
    with v show ?thesis unfolding p by blast
  qed (simp add: p)
qed (simp add: sanitizeProviderCode_def)

theorem provider_code_safe_witness:
  "sanitizeProviderCode [] (Some (js ''no such'')) no_options \<in> {js ''unknown_error'', REDACTED}"
proof -
  have "\<not> identifier_shape code_unit 127 (js ''no such'')"
    by (simp add: identifier_shape_def code_unit_def js_def char_class_defs)
  moreover have "sanitizeProviderCode [] (Some (js ''no such'')) no_options = js ''no such'' \<Longrightarrow>
      sanitizeProviderCode [] (Some (js ''no such'')) no_options \<in> {js ''unknown_error'', REDACTED}"
    using provider_code_safe [of "[]" "Some (js ''no such'')" no_options] calculation by auto
  ultimately show ?thesis
    using provider_code_safe [of "[]" "Some (js ''no such'')" no_options] by auto
qed

end
