(* ===== verification/Secret_Values.thy ===== *)
theory Secret_Values
  imports Secret_Patterns Json_Text
begin

text \<open>
  The structured sanitizer (\<open>sanitizeValue\<close> and \<open>sanitizeErrorForLog\<close> in
  \<open>src/utils/secret-sanitizer.ts\<close>). A value may be cyclic and may share objects, so it lives in a
  heap: a list of objects, each with its kind, its own property descriptors in key order and its
  prototype; a value is a primitive or the index of an object. The code's \<open>seen\<close> set is threaded
  through, and the fuel counts nested objects; one more than the number of objects is always enough.
  The result is a tree. Symbols, big integers, proxies and class instances with exotic internals
  other than errors, dates, buffers, arrays and functions are not modelled.
\<close>

section \<open>Sensitive fields\<close>

datatype sanitizer_mode = Mcp | Log

definition normalizeKey :: "jsstring \<Rightarrow> jsstring" where
  "normalizeKey key = filter (\<lambda>c. c \<noteq> 45 \<and> c \<noteq> 95) (ascii_lower key)"

definition NON_SECRET_TOKEN_FIELD_NAMES :: "jsstring list" where
  "NON_SECRET_TOKEN_FIELD_NAMES =
     [js ''continuationtoken'', js ''nextcontinuationtoken'', js ''nexttoken'']"

definition isSensitiveField :: "jsstring \<Rightarrow> jsstring list \<Rightarrow> sanitizer_mode \<Rightarrow> bool" where
  "isSensitiveField key path mode =
     (let normalized = normalizeKey key in
      if normalized \<in> set (map normalizeKey STRUCTURED_SECRET_FIELD_NAMES) then True
      else if mode = Log \<and> normalized \<in> set (map normalizeKey LOGGER_SECRET_FIELD_NAMES) then True
      else if suffix (js ''secret'') normalized \<and> normalized \<noteq> js ''secretname'' then True
      else if suffix (js ''token'') normalized \<and> normalized \<notin> set NON_SECRET_TOKEN_FIELD_NAMES then True
      else if key = js ''value'' \<and> (\<exists>seg \<in> set path. normalizeKey seg = js ''customheaders'') then True
      else ascii_lower key \<in> set SECRET_HEADER_NAMES)"

section \<open>Heap values and results\<close>

datatype hval = HUndef | HNull | HBool bool | HNum jsnum | HStr jsstring | HFun | HRef nat

datatype descriptor = DataProp hval bool | Accessor bool

text \<open>An array carries its length, a date its ISO text when it is valid, a buffer its byte length.\<close>

datatype obj_kind = PlainObj | ArrayObj nat | ErrorObj | DateObj "jsstring option" | BufferObj nat

record heap_object =
  okind :: obj_kind
  oprops :: "(jsstring \<times> descriptor) list"
  oproto :: "nat option"

type_synonym obj_heap = "heap_object list"

text \<open>
  The result. \<open>SSame\<close> is a value that is handed back as it is (a date, a buffer or a function in MCP
  mode). An error result has a message, a name, a stack unless the fresh one is kept, and fields.
\<close>

datatype sval =
    SUndef | SNull | SBool bool | SNum jsnum | SStr jsstring | SSame hval
  | SArr nat "(jsstring \<times> sval) list"
  | SObj "(jsstring \<times> sval) list"
  | SErr jsstring jsstring "jsstring option" "(jsstring \<times> sval) list"

definition enumerable :: "descriptor \<Rightarrow> bool" where
  "enumerable d = (case d of DataProp v e \<Rightarrow> e | Accessor e \<Rightarrow> e)"

definition enumerableDescriptors :: "heap_object \<Rightarrow> (jsstring \<times> descriptor) list" where
  "enumerableDescriptors ob = filter (\<lambda>(k, d). enumerable d) (oprops ob)"

text \<open>
  \<open>output[key] = v\<close> on a fresh object: the key \<open>__proto__\<close> sets the prototype and adds no property.
\<close>

definition put_prop :: "jsstring \<Rightarrow> sval \<Rightarrow> (jsstring \<times> sval) list \<Rightarrow> (jsstring \<times> sval) list" where
  "put_prop key v out = (if key = js ''__proto__'' then out else map_set key v out)"

definition CIRCULAR :: jsstring where "CIRCULAR = js ''[circular]''"
definition ACCESSOR_VALUE :: jsstring where "ACCESSOR_VALUE = js ''[accessor]''"
definition FUNCTION_VALUE :: jsstring where "FUNCTION_VALUE = js ''[function]''"
definition INVALID_DATE_VALUE :: jsstring where "INVALID_DATE_VALUE = js ''[invalid_date]''"

section \<open>Error fields\<close>

text \<open>\<open>findPropertyDescriptor\<close>: the walk up the prototype chain, with fuel for the chain.\<close>

fun find_descriptor :: "nat \<Rightarrow> obj_heap \<Rightarrow> nat option \<Rightarrow> jsstring \<Rightarrow> descriptor option" where
  "find_descriptor n h None key = None"
| "find_descriptor 0 h (Some a) key = None"
| "find_descriptor (Suc n) h (Some a) key =
     (if a < length h then
        (case map_of (oprops (h ! a)) key of
           Some d \<Rightarrow> Some d
         | None \<Rightarrow> find_descriptor n h (oproto (h ! a)) key)
      else None)"

definition sanitizeErrorStringField ::
  "jsprops \<Rightarrow> sanitizer_options \<Rightarrow> obj_heap \<Rightarrow> nat \<Rightarrow> jsstring \<Rightarrow> jsstring option" where
  "sanitizeErrorStringField penv opts h a key =
     (case find_descriptor (length h) h (Some a) key of
        None \<Rightarrow> None
      | Some (Accessor e) \<Rightarrow> Some ACCESSOR_VALUE
      | Some (DataProp v e) \<Rightarrow>
          (case v of
             HStr s \<Rightarrow> Some (sanitizeText penv s opts)
           | HNum n \<Rightarrow> Some (sanitizeText penv (number_text n) opts)
           | HBool b \<Rightarrow> Some (sanitizeText penv (if b then js ''true'' else js ''false'') opts)
           | _ \<Rightarrow> Some ACCESSOR_VALUE))"

section \<open>The traversal\<close>

definition own_error_field :: "jsstring \<Rightarrow> bool" where
  "own_error_field k \<longleftrightarrow> k = js ''message'' \<or> k = js ''name'' \<or> k = js ''stack''"

text \<open>
  \<open>sanitize_value\<close> is \<open>sanitizeValue\<close>; \<open>sanitize_props\<close> is the loop over the enumerable descriptors
  with the output so far. The path given to the loop is the one its keys are judged by.
\<close>

function sanitize_value ::
    "jsprops \<Rightarrow> sanitizer_options \<Rightarrow> obj_heap \<Rightarrow> nat \<Rightarrow> sanitizer_mode \<Rightarrow> jsstring list \<Rightarrow>
       nat set \<Rightarrow> hval \<Rightarrow> (sval \<times> nat set) option"
  and sanitize_props ::
    "jsprops \<Rightarrow> sanitizer_options \<Rightarrow> obj_heap \<Rightarrow> nat \<Rightarrow> sanitizer_mode \<Rightarrow> jsstring list \<Rightarrow>
       nat set \<Rightarrow> (jsstring \<times> descriptor) list \<Rightarrow> (jsstring \<times> sval) list \<Rightarrow>
       ((jsstring \<times> sval) list \<times> nat set) option"
where
  "sanitize_value penv opts h n mode path seen v =
     (case v of
        HUndef \<Rightarrow> Some (SUndef, seen)
      | HNull \<Rightarrow> Some (SNull, seen)
      | HBool b \<Rightarrow> Some (SBool b, seen)
      | HNum x \<Rightarrow> Some (SNum x, seen)
      | HStr s \<Rightarrow> Some (SStr (sanitizeText penv s opts), seen)
      | HFun \<Rightarrow> Some (if mode = Log then SStr FUNCTION_VALUE else SSame v, seen)
      | HRef a \<Rightarrow>
          (case n of
             0 \<Rightarrow> None
           | Suc m \<Rightarrow>
               (let ob = h ! a in
                case okind ob of
                  DateObj iso_text \<Rightarrow>
                    Some (if mode = Log
                          then SStr (case iso_text of None \<Rightarrow> INVALID_DATE_VALUE | Some s \<Rightarrow> s)
                          else SSame v, seen)
                | BufferObj len \<Rightarrow>
                    Some (if mode = Log
                          then SObj [(js ''type'', SStr (js ''Buffer'')),
                                     (js ''byteLength'', SNum (num_of_nat len))]
                          else SSame v, seen)
                | k \<Rightarrow>
                    (if a \<in> seen then Some (SStr CIRCULAR, seen)
                     else if mode = Log \<and> k = ErrorObj then
                       (case sanitize_props penv opts h m Log [] (insert a seen)
                               (filter (\<lambda>(key, d). \<not> own_error_field key) (enumerableDescriptors ob)) [] of
                          None \<Rightarrow> None
                        | Some (out, seen') \<Rightarrow>
                            Some (SErr
                              (case sanitizeErrorStringField penv opts h a (js ''message'') of
                                 None \<Rightarrow> [] | Some s \<Rightarrow> s)
                              (case sanitizeErrorStringField penv opts h a (js ''name'') of
                                 None \<Rightarrow> js ''Error'' | Some s \<Rightarrow> s)
                              (sanitizeErrorStringField penv opts h a (js ''stack'')) out, seen'))
                     else
                       (case sanitize_props penv opts h m mode path (insert a seen)
                               (enumerableDescriptors ob) [] of
                          None \<Rightarrow> None
                        | Some (out, seen') \<Rightarrow>
                            Some (case k of ArrayObj len \<Rightarrow> SArr len out | _ \<Rightarrow> SObj out, seen'))))))"
| "sanitize_props penv opts h n mode path seen ps out =
     (case ps of
        [] \<Rightarrow> Some (out, seen)
      | (key, d) # rest \<Rightarrow>
          (if isSensitiveField key path mode
           then sanitize_props penv opts h n mode path seen rest (put_prop key (SStr REDACTED) out)
           else (case d of
               Accessor e \<Rightarrow>
                 sanitize_props penv opts h n mode path seen rest (put_prop key (SStr ACCESSOR_VALUE) out)
             | DataProp v e \<Rightarrow>
                 (case sanitize_value penv opts h n mode (path @ [key]) seen v of
                    None \<Rightarrow> None
                  | Some (sv, seen') \<Rightarrow>
                      sanitize_props penv opts h n mode path seen' rest (put_prop key sv out)))))"
  by pat_completeness auto
termination
  by (relation "measures [\<lambda>x. case x of Inl (_, _, _, n, _) \<Rightarrow> n | Inr (_, _, _, n, _) \<Rightarrow> n,
       \<lambda>x. case x of Inl _ \<Rightarrow> 0 | Inr (_, _, _, _, _, _, _, ps, _) \<Rightarrow> Suc (length ps)]") auto

declare sanitize_value.simps [simp del] sanitize_props.simps [simp del]

definition heap_fuel :: "obj_heap \<Rightarrow> nat" where
  "heap_fuel h = Suc (length h)"

definition sanitizeForMcpOutput ::
  "jsprops \<Rightarrow> sanitizer_options \<Rightarrow> obj_heap \<Rightarrow> hval \<Rightarrow> sval option" where
  "sanitizeForMcpOutput penv opts h v =
     map_option fst (sanitize_value penv opts h (heap_fuel h) Mcp [] {} v)"

definition sanitizeStructuredLogValue ::
  "jsprops \<Rightarrow> sanitizer_options \<Rightarrow> obj_heap \<Rightarrow> hval \<Rightarrow> sval option" where
  "sanitizeStructuredLogValue penv opts h v =
     map_option fst (sanitize_value penv (withKeyIdLogSecrets penv opts) h (heap_fuel h) Log [] {} v)"

section \<open>The traversal ends\<close>

definition wf_hval :: "obj_heap \<Rightarrow> hval \<Rightarrow> bool" where
  "wf_hval h v \<longleftrightarrow> (case v of HRef a \<Rightarrow> a < length h | _ \<Rightarrow> True)"

definition wf_descriptor :: "obj_heap \<Rightarrow> descriptor \<Rightarrow> bool" where
  "wf_descriptor h d \<longleftrightarrow> (case d of DataProp v e \<Rightarrow> wf_hval h v | Accessor e \<Rightarrow> True)"

definition wf_heap :: "obj_heap \<Rightarrow> bool" where
  "wf_heap h \<longleftrightarrow> (\<forall>ob \<in> set h. \<forall>(k, d) \<in> set (oprops ob). wf_descriptor h d)"

definition unseen :: "obj_heap \<Rightarrow> nat set \<Rightarrow> nat" where
  "unseen h seen = card ({0..<length h} - seen)"

lemma unseen_mono: "seen \<subseteq> seen' \<Longrightarrow> unseen h seen' \<le> unseen h seen"
  unfolding unseen_def by (rule card_mono) auto

lemma unseen_insert: "a < length h \<Longrightarrow> a \<notin> seen \<Longrightarrow> unseen h (insert a seen) < unseen h seen"
proof -
  assume a: "a < length h" "a \<notin> seen"
  have e: "{0..<length h} - insert a seen = ({0..<length h} - seen) - {a}" by blast
  have "a \<in> {0..<length h} - seen" using a by simp
  then show ?thesis unfolding unseen_def e by (intro card_Diff1_less) simp_all
qed

lemma wf_heap_props:
  assumes "wf_heap h" "a < length h" "(k, d) \<in> set (enumerableDescriptors (h ! a))"
  shows "wf_descriptor h d"
proof -
  have "h ! a \<in> set h" using assms(2) by simp
  moreover have "(k, d) \<in> set (oprops (h ! a))" using assms(3) by (simp add: enumerableDescriptors_def)
  ultimately show ?thesis using assms(1) unfolding wf_heap_def by blast
qed

lemma props_total:
  assumes "\<And>v path seen. wf_hval h v \<Longrightarrow> unseen h seen < n \<Longrightarrow>
      \<exists>sv seen'. sanitize_value penv opts h n mode path seen v = Some (sv, seen') \<and> seen \<subseteq> seen'"
  shows "(\<forall>(k, d) \<in> set ps. wf_descriptor h d) \<Longrightarrow> unseen h seen < n \<Longrightarrow>
     \<exists>out' seen'. sanitize_props penv opts h n mode path seen ps out = Some (out', seen') \<and> seen \<subseteq> seen'"
proof (induction ps arbitrary: seen out)
  case Nil
  then show ?case by (simp add: sanitize_props.simps)
next
  case (Cons kd ps)
  obtain key d where kd: "kd = (key, d)" by (cases kd)
  have wf: "wf_descriptor h d" "\<forall>(k, d) \<in> set ps. wf_descriptor h d" using Cons.prems(1) kd by auto
  note rest = Cons.IH [OF wf(2)]
  show ?case
  proof (cases "isSensitiveField key path mode")
    case True
    then show ?thesis
      using rest [OF Cons.prems(2)] kd by (subst sanitize_props.simps) simp
  next
    case False
    show ?thesis
    proof (cases d)
      case (Accessor e)
      with False rest [OF Cons.prems(2)] kd show ?thesis by (subst sanitize_props.simps) simp
    next
      case (DataProp v e)
      then have "wf_hval h v" using wf(1) by (simp add: wf_descriptor_def)
      from assms [OF this Cons.prems(2)] obtain sv seen1 where
        v: "sanitize_value penv opts h n mode (path @ [key]) seen v = Some (sv, seen1)" "seen \<subseteq> seen1"
        by blast
      have "unseen h seen1 < n" using unseen_mono [OF v(2)] Cons.prems(2) by (rule le_less_trans)
      from rest [OF this, of "put_prop key sv out"] v False DataProp kd show ?thesis
        by (subst sanitize_props.simps) auto
    qed
  qed
qed

lemma sanitize_total:
  "wf_heap h \<Longrightarrow> wf_hval h v \<Longrightarrow> unseen h seen < n \<Longrightarrow>
     \<exists>sv seen'. sanitize_value penv opts h n mode path seen v = Some (sv, seen') \<and> seen \<subseteq> seen'"
proof (induction n arbitrary: v mode path seen)
  case (Suc m)
  show ?case
  proof (cases v)
    case (HRef a)
    have a: "a < length h" using Suc.prems(2) HRef by (simp add: wf_hval_def)
    show ?thesis
    proof (cases "a \<in> seen")
      case True
      then show ?thesis
        using HRef by (subst sanitize_value.simps) (auto simp: Let_def split: obj_kind.split)
    next
      case False
      have lt: "unseen h (insert a seen) < m"
        using unseen_insert [OF a False] Suc.prems(3) by linarith
      have wf: "\<forall>(k, d) \<in> set (filter P (enumerableDescriptors (h ! a))). wf_descriptor h d" for P
        using wf_heap_props [OF Suc.prems(1) a] by auto
      have tot: "\<exists>out' seen'. sanitize_props penv opts h m md pth (insert a seen)
          (filter P (enumerableDescriptors (h ! a))) [] = Some (out', seen') \<and> insert a seen \<subseteq> seen'"
        for md pth P
        by (rule props_total [OF Suc.IH [OF Suc.prems(1)] wf lt])
      from tot [of Log "[]" "\<lambda>(key, d). \<not> own_error_field key"] obtain o1 s1 where
        1: "sanitize_props penv opts h m Log [] (insert a seen)
          (filter (\<lambda>(key, d). \<not> own_error_field key) (enumerableDescriptors (h ! a))) [] = Some (o1, s1)"
          "insert a seen \<subseteq> s1" by blast
      from tot [of mode path "\<lambda>_. True"] obtain o2 s2 where
        2: "sanitize_props penv opts h m mode path (insert a seen)
          (enumerableDescriptors (h ! a)) [] = Some (o2, s2)" "insert a seen \<subseteq> s2" by auto
      show ?thesis
        using 1 2 False HRef by (subst sanitize_value.simps)
          (cases "okind (h ! a)"; cases "mode = Log"; simp add: Let_def)
    qed
  qed (auto simp: sanitize_value.simps)
qed simp

section \<open>What a result contains\<close>

text \<open>
  Every string that came from the input is clean, and every field that the tables call sensitive
  holds the marker. The fields of an error are judged with an empty path.
\<close>

lemma size_field: "(k, v) \<in> set kvs \<Longrightarrow> size v < Suc (size_list (size_prod (\<lambda>_. 0) size) kvs)"
  by (induction kvs) (auto simp: less_Suc_eq_le)

function safe_tree :: "(jsstring \<Rightarrow> bool) \<Rightarrow> sanitizer_mode \<Rightarrow> jsstring list \<Rightarrow> sval \<Rightarrow> bool" where
  "safe_tree C m p SUndef = True"
| "safe_tree C m p SNull = True"
| "safe_tree C m p (SBool b) = True"
| "safe_tree C m p (SNum x) = True"
| "safe_tree C m p (SStr s) = C s"
| "safe_tree C m p (SSame v) = True"
| "safe_tree C m p (SArr n kvs) = (\<forall>(k, v) \<in> set kvs.
     if isSensitiveField k p m then v = SStr REDACTED else safe_tree C m (p @ [k]) v)"
| "safe_tree C m p (SObj kvs) = (\<forall>(k, v) \<in> set kvs.
     if isSensitiveField k p m then v = SStr REDACTED else safe_tree C m (p @ [k]) v)"
| "safe_tree C m p (SErr msg nm st kvs) = (C msg \<and> C nm \<and> (\<forall>s \<in> set_option st. C s) \<and>
     (\<forall>(k, v) \<in> set kvs.
        if isSensitiveField k [] m then v = SStr REDACTED else safe_tree C m [k] v))"
  by pat_completeness auto
termination
  by (relation "measure (\<lambda>(C, m, p, v). size v)")
    (auto simp: less_Suc_eq_le dest!: size_field)

definition safe_fields ::
  "(jsstring \<Rightarrow> bool) \<Rightarrow> sanitizer_mode \<Rightarrow> jsstring list \<Rightarrow> (jsstring \<times> sval) list \<Rightarrow> bool" where
  "safe_fields C m p kvs \<longleftrightarrow> (\<forall>(k, v) \<in> set kvs.
     if isSensitiveField k p m then v = SStr REDACTED else safe_tree C m (p @ [k]) v)"

lemma safe_fields_Nil [simp]: "safe_fields C m p []"
  by (simp add: safe_fields_def)

lemma set_map_set: "set (map_set k v m) \<subseteq> insert (k, v) (set m)"
  by (induction k v m rule: map_set.induct) auto

lemma safe_put:
  assumes "safe_fields C m p out"
    and "if isSensitiveField k p m then v = SStr REDACTED else safe_tree C m (p @ [k]) v"
  shows "safe_fields C m p (put_prop k v out)"
  unfolding safe_fields_def
proof
  fix x assume "x \<in> set (put_prop k v out)"
  then have "x = (k, v) \<or> x \<in> set out"
    using set_map_set [of k v out] by (auto simp: put_prop_def split: if_splits)
  then show "case x of (k, v) \<Rightarrow>
      if isSensitiveField k p m then v = SStr REDACTED else safe_tree C m (p @ [k]) v"
    using assms unfolding safe_fields_def by blast
qed

text \<open>
  A predicate on texts that the sanitizer's text results and its fixed values satisfy; dates in log
  mode print their ISO text.
\<close>

definition admits :: "jsprops \<Rightarrow> sanitizer_options \<Rightarrow> obj_heap \<Rightarrow> (jsstring \<Rightarrow> bool) \<Rightarrow> bool" where
  "admits penv opts h C \<longleftrightarrow> (\<forall>t. C (sanitizeText penv t opts))
     \<and> (\<forall>s \<in> {REDACTED, CIRCULAR, ACCESSOR_VALUE, FUNCTION_VALUE, INVALID_DATE_VALUE,
              js ''Buffer'', js ''Error'', []}. C s)
     \<and> (\<forall>a s. okind (h ! a) = DateObj (Some s) \<longrightarrow> C s)"

lemma error_field_safe:
  "admits penv opts h C \<Longrightarrow> sanitizeErrorStringField penv opts h a key = Some s \<Longrightarrow> C s"
  by (auto simp: admits_def sanitizeErrorStringField_def split: option.splits descriptor.splits
      hval.splits)

lemma buffer_fields: "\<not> isSensitiveField (js ''type'') p m" "\<not> isSensitiveField (js ''byteLength'') p m"
proof -
  have n: "normalizeKey (js ''type'') = js ''type''" "normalizeKey (js ''byteLength'') = js ''bytelength''"
    by (simp_all add: normalizeKey_def js_def ascii_lower_def ascii_lower_unit_def is_upper_def)
  have l: "ascii_lower (js ''type'') = js ''type''" "ascii_lower (js ''byteLength'') = js ''bytelength''"
    by (simp_all add: js_def ascii_lower_def ascii_lower_unit_def is_upper_def)
  have t: "\<forall>s \<in> set LOGGER_SECRET_FIELD_NAMES. normalizeKey s \<noteq> js ''type'' \<and> normalizeKey s \<noteq> js ''bytelength''"
    by (simp add: LOGGER_SECRET_FIELD_NAMES_def STRUCTURED_SECRET_FIELD_NAMES_def normalizeKey_def
        js_def ascii_lower_def ascii_lower_unit_def is_upper_def)
  then have t': "\<forall>s \<in> set STRUCTURED_SECRET_FIELD_NAMES. normalizeKey s \<noteq> js ''type'' \<and> normalizeKey s \<noteq> js ''bytelength''"
    by (simp add: LOGGER_SECRET_FIELD_NAMES_def)
  have sfx: "\<not> suffix (js ''secret'') (js ''type'')" "\<not> suffix (js ''token'') (js ''type'')"
    "\<not> suffix (js ''secret'') (js ''bytelength'')" "\<not> suffix (js ''token'') (js ''bytelength'')"
    by (simp_all add: suffix_to_prefix js_def)
  have h: "js ''type'' \<notin> set SECRET_HEADER_NAMES" "js ''bytelength'' \<notin> set SECRET_HEADER_NAMES"
    by (simp_all add: SECRET_HEADER_NAMES_def)
  show "\<not> isSensitiveField (js ''type'') p m" "\<not> isSensitiveField (js ''byteLength'') p m"
    using t t' sfx h by (auto simp: isSensitiveField_def Let_def n l)
qed

lemma props_safe:
  assumes "\<And>v path seen sv seen'. sanitize_value penv opts h n mode path seen v = Some (sv, seen') \<Longrightarrow>
      safe_tree C mode path sv"
    and "C ACCESSOR_VALUE"
  shows "sanitize_props penv opts h n mode path seen ps out = Some (out', seen') \<Longrightarrow>
     safe_fields C mode path out \<Longrightarrow> safe_fields C mode path out'"
proof (induction ps arbitrary: seen out)
  case Nil
  then show ?case by (simp add: sanitize_props.simps)
next
  case (Cons kd ps)
  obtain key d where kd: "kd = (key, d)" by (cases kd)
  note eq = sanitize_props.simps [of penv opts h n mode path seen "kd # ps" out]
  show ?case
  proof (cases "isSensitiveField key path mode")
    case True
    with Cons.prems(1) kd eq have
      "sanitize_props penv opts h n mode path seen ps (put_prop key (SStr REDACTED) out) = Some (out', seen')"
      by simp
    from Cons.IH [OF this] safe_put [OF Cons.prems(2)] True show ?thesis by simp
  next
    case False
    show ?thesis
    proof (cases d)
      case (Accessor e)
      with Cons.prems(1) kd eq False have
        "sanitize_props penv opts h n mode path seen ps (put_prop key (SStr ACCESSOR_VALUE) out) = Some (out', seen')"
        by simp
      from Cons.IH [OF this] safe_put [OF Cons.prems(2)] False assms(2) show ?thesis by simp
    next
      case (DataProp v e)
      obtain sv s1 where v: "sanitize_value penv opts h n mode (path @ [key]) seen v = Some (sv, s1)"
        and r: "sanitize_props penv opts h n mode path s1 ps (put_prop key sv out) = Some (out', seen')"
        using Cons.prems(1) kd eq False DataProp by (auto split: option.splits)
      from Cons.IH [OF r] safe_put [OF Cons.prems(2)] False assms(1) [OF v] show ?thesis by simp
    qed
  qed
qed

lemma sanitize_safe:
  assumes C: "admits penv opts h C"
  shows "sanitize_value penv opts h n mode path seen v = Some (sv, seen') \<Longrightarrow> safe_tree C mode path sv"
proof (induction n arbitrary: v mode path seen sv seen')
  case 0
  then show ?case
    using C by (cases v) (auto simp: sanitize_value.simps admits_def split: if_splits)
next
  case (Suc m)
  have acc: "C ACCESSOR_VALUE" using C by (simp add: admits_def)
  have pr: "safe_fields C md pth out'"
    if "sanitize_props penv opts h m md pth s ps [] = Some (out', s')" for md pth s ps out' s'
    by (rule props_safe [where C = C, OF Suc.IH acc that]) simp_all
  note eq = sanitize_value.simps [of penv opts h "Suc m" mode path seen v]
  show ?case
  proof (cases v)
    case (HRef a)
    note eqa = eq [unfolded HRef, simplified]
    consider (date) d where "okind (h ! a) = DateObj d" | (buffer) l where "okind (h ! a) = BufferObj l"
      | (seen) "a \<in> seen" "\<forall>d l. okind (h ! a) \<noteq> DateObj d \<and> okind (h ! a) \<noteq> BufferObj l"
      | (error) "mode = Log" "okind (h ! a) = ErrorObj" "a \<notin> seen"
      | (obj) "mode \<noteq> Log \<or> okind (h ! a) \<noteq> ErrorObj" "a \<notin> seen"
          "\<forall>d l. okind (h ! a) \<noteq> DateObj d \<and> okind (h ! a) \<noteq> BufferObj l"
      by (cases "okind (h ! a)") auto
    then show ?thesis
    proof cases
      case date
      then show ?thesis using Suc.prems C HRef eqa
        by (auto simp: admits_def split: if_splits option.splits)
    next
      case buffer
      then show ?thesis using Suc.prems C HRef eqa
        by (auto simp: admits_def buffer_fields split: if_splits)
    next
      case seen
      then show ?thesis using Suc.prems C HRef eqa
        by (cases "okind (h ! a)") (auto simp: admits_def)
    next
      case error
      then obtain out where p: "sanitize_props penv opts h m Log [] (insert a seen)
          (filter (\<lambda>(key, d). \<not> own_error_field key) (enumerableDescriptors (h ! a))) [] = Some (out, seen')"
        and sv: "sv = SErr
          (case sanitizeErrorStringField penv opts h a (js ''message'') of None \<Rightarrow> [] | Some s \<Rightarrow> s)
          (case sanitizeErrorStringField penv opts h a (js ''name'') of None \<Rightarrow> js ''Error'' | Some s \<Rightarrow> s)
          (sanitizeErrorStringField penv opts h a (js ''stack'')) out"
        using Suc.prems HRef eqa by (auto simp: Let_def split: option.splits)
      have "safe_fields C Log [] out" by (rule pr [OF p])
      moreover have "C []" "C (js ''Error'')" using C by (simp_all add: admits_def)
      ultimately show ?thesis
        using error_field_safe [OF C] error(1) unfolding sv
        by (auto simp: safe_fields_def split: option.split)
    next
      case obj
      then obtain out where p: "sanitize_props penv opts h m mode path (insert a seen)
          (enumerableDescriptors (h ! a)) [] = Some (out, seen')"
        and sv: "sv = SObj out \<or> (\<exists>n. sv = SArr n out)"
        using Suc.prems HRef eqa by (cases "okind (h ! a)") (auto simp: Let_def split: option.splits)
      have "safe_fields C mode path out" by (rule pr [OF p])
      then show ?thesis using sv by (auto simp: safe_fields_def)
    qed
  qed (use Suc.prems C in \<open>auto simp: sanitize_value.simps admits_def split: if_splits\<close>)
qed

section \<open>Properties\<close>

text \<open>
  The structured sanitizer always returns, on cyclic and shared object graphs too: the traversal
  never runs out of its fuel of one more than the number of objects.
\<close>

theorem sanitizer_terminates:
  assumes "wf_heap h" "wf_hval h v"
  shows "sanitizeForMcpOutput penv opts h v \<noteq> None \<and> sanitizeStructuredLogValue penv opts h v \<noteq> None"
proof -
  have u: "unseen h {} < heap_fuel h" by (simp add: unseen_def heap_fuel_def)
  show ?thesis
    using sanitize_total [OF assms u, of penv opts Mcp "[]"]
      sanitize_total [OF assms u, of penv "withKeyIdLogSecrets penv opts" Log "[]"]
    by (auto simp: sanitizeForMcpOutput_def sanitizeStructuredLogValue_def)
qed

definition loop_heap :: obj_heap where
  "loop_heap = [\<lparr>okind = PlainObj, oprops = [(js ''self'', DataProp (HRef 0) True)], oproto = None\<rparr>]"

theorem sanitizer_terminates_witness:
  "sanitizeForMcpOutput [] no_options loop_heap (HRef 0) \<noteq> None"
  by (rule sanitizer_terminates [THEN conjunct1])
    (simp_all add: loop_heap_def wf_heap_def wf_descriptor_def wf_hval_def)

text \<open>
  (C13) MCP output. In what the sanitizer returns, every string leaf is free of every configured secret of
  eight units or more, and every field that the tables or the name rules call sensitive holds the
  marker, at any depth. (Property names are kept as they are; secrets that hold a bracket or are a
  piece of one of the three fixed markers are excluded.)
\<close>

theorem mcp_output_safe:
  assumes "s \<in> set (configuredSecretValues penv opts)" "91 \<notin> set s \<and> 93 \<notin> set s"
    "\<forall>m \<in> {js ''redacted'', js ''circular'', js ''accessor''}. s \<noteq> m"
    and "sanitizeForMcpOutput penv opts h v = Some out"
  shows "safe_tree (\<lambda>x. \<not> sublist s x \<or> x \<in> {FUNCTION_VALUE, INVALID_DATE_VALUE, js ''Buffer'', js ''Error''}
      \<or> (\<exists>a. okind (h ! a) = DateObj (Some x))) Mcp [] out"
proof -
  have c: "8 \<le> length s" "js_trim s \<noteq> []"
    using assms(1) configured_values_iff candidate_long by blast+
  have b: "bracket_free s" using assms(2) by (simp add: bracket_free_def)
  have "\<not> sublist s (js ''redacted'')" using sublist_redacted_long [of s] c assms(3) by auto
  then have r: "redactable s" using c b by (simp add: redactable_def)
  have inner: "s = m" if "sublist s m" "length m = 8" for m
  proof -
    obtain x y where e: "m = x @ s @ y" using \<open>sublist s m\<close> unfolding sublist_def by blast
    have "length x + (length s + length y) = 8" using \<open>length m = 8\<close> by (simp add: e)
    then have "length x = 0" "length y = 0" using c(1) by linarith+
    then show ?thesis by (simp add: e)
  qed
  have out: "\<not> sublist s (91 # m @ [93])" if "\<not> sublist s m" for m
  proof
    assume "sublist s (91 # m @ [93])"
    then have "sublist s (m @ 93 # [])"
      using sublist_split [of s "[]" 91 "m @ [93]"] b c(2) by (auto simp: bracket_free_def js_trim_def)
    then show False using sublist_split [of s m 93 "[]"] b c(2) that
      by (auto simp: bracket_free_def js_trim_def)
  qed
  have mk: "REDACTED = 91 # js ''redacted'' @ [93]" "CIRCULAR = 91 # js ''circular'' @ [93]"
    "ACCESSOR_VALUE = 91 # js ''accessor'' @ [93]"
    by (simp_all add: REDACTED_def CIRCULAR_def ACCESSOR_VALUE_def js_def)
  have "\<not> sublist s REDACTED" "\<not> sublist s CIRCULAR" "\<not> sublist s ACCESSOR_VALUE"
    unfolding mk using assms(3) by (auto intro!: out dest: inner)
  moreover have "\<not> sublist s []" using c(2) by (auto simp: js_trim_def)
  ultimately have "admits penv opts h (\<lambda>x. \<not> sublist s x
      \<or> x \<in> {FUNCTION_VALUE, INVALID_DATE_VALUE, js ''Buffer'', js ''Error''}
      \<or> (\<exists>a. okind (h ! a) = DateObj (Some x)))"
    using configured_redacted [OF assms(1) r] by (auto simp: admits_def)
  from sanitize_safe [OF this] assms(4) show ?thesis
    by (auto simp: sanitizeForMcpOutput_def)
qed

theorem mcp_output_safe_witness:
  "\<exists>out. sanitizeForMcpOutput [] \<lparr>secrets = Some [Str (js ''K0123456789'')], san_env = None\<rparr>
       loop_heap (HRef 0) = Some out
     \<and> safe_tree (\<lambda>x. \<not> sublist (js ''K0123456789'') x
           \<or> x \<in> {FUNCTION_VALUE, INVALID_DATE_VALUE, js ''Buffer'', js ''Error''}
           \<or> (\<exists>a. okind (loop_heap ! a) = DateObj (Some x))) Mcp [] out"
proof -
  let ?o = "\<lparr>secrets = Some [Str (js ''K0123456789'')], san_env = None\<rparr>"
  have "wf_heap loop_heap" "wf_hval loop_heap (HRef 0)"
    by (simp_all add: loop_heap_def wf_heap_def wf_descriptor_def wf_hval_def)
  then obtain out where out: "sanitizeForMcpOutput [] ?o loop_heap (HRef 0) = Some out"
    using sanitize_total [of loop_heap "HRef 0" "{}" "heap_fuel loop_heap" "[]" ?o Mcp "[]"]
    by (auto simp: sanitizeForMcpOutput_def unseen_def heap_fuel_def)
  have "js ''K0123456789'' \<in> set (configuredSecretValues [] ?o)"
    unfolding configured_values_iff candidate_long
    by (simp add: js_def js_trim_def js_space_def REDACTED_parts)
  from mcp_output_safe [OF this _ _ out] show ?thesis
    using out by (simp add: js_def)
qed

text \<open>
  The \<open>seen\<close> set is never emptied, so an object that is shared without any cycle is printed as
  circular at its second occurrence.
\<close>

theorem shared_object_printed_circular:
  "sanitizeForMcpOutput [] no_options
     [\<lparr>okind = PlainObj, oprops = [(js ''a'', DataProp (HRef 1) True), (js ''b'', DataProp (HRef 1) True)],
       oproto = None\<rparr>,
      \<lparr>okind = PlainObj, oprops = [], oproto = None\<rparr>] (HRef 0)
   = Some (SObj [(js ''a'', SObj []), (js ''b'', SStr CIRCULAR)])"
proof -
  have n: "\<not> isSensitiveField (js ''a'') [] Mcp" "\<not> isSensitiveField (js ''b'') [] Mcp"
    by (simp_all add: isSensitiveField_def Let_def normalizeKey_def STRUCTURED_SECRET_FIELD_NAMES_def
        SECRET_HEADER_NAMES_def NON_SECRET_TOKEN_FIELD_NAMES_def js_def ascii_lower_def
        ascii_lower_unit_def is_upper_def suffix_to_prefix)
  show ?thesis
    by (simp add: sanitizeForMcpOutput_def heap_fuel_def sanitize_value.simps sanitize_props.simps
        enumerableDescriptors_def enumerable_def n put_prop_def)
qed

end
