(* ===== verification/Js_Effects.thy ===== *)
theory Js_Effects
  imports Js_Prelude
begin

text \<open>
  Computations that may throw, shared by the components: a result is a sum whose left side is the
  exception. Sequencing, mapping over a list, and running two generators of lists one after the
  other; with what it means for such a computation to return.
\<close>

definition js_bind :: "'e + 'a \<Rightarrow> ('a \<Rightarrow> 'e + 'b) \<Rightarrow> 'e + 'b" where
  "js_bind m f = (case m of Inl e \<Rightarrow> Inl e | Inr x \<Rightarrow> f x)"

lemma js_bind_simps [simp]: "js_bind (Inl e) f = Inl e" "js_bind (Inr x) f = f x"
  by (simp_all add: js_bind_def)

lemma js_bind_cong [fundef_cong]:
  "m = m' \<Longrightarrow> (\<And>x. m' = Inr x \<Longrightarrow> f x = f' x) \<Longrightarrow> js_bind m f = js_bind m' f'"
  by (cases m') simp_all

lemma js_bind_Inr: "js_bind m f = Inr y \<longleftrightarrow> (\<exists>x. m = Inr x \<and> f x = Inr y)"
  by (cases m) simp_all

lemma js_bind_Inl: "js_bind m f = Inl e \<longleftrightarrow> m = Inl e \<or> (\<exists>x. m = Inr x \<and> f x = Inl e)"
  by (cases m) simp_all

text \<open>\<open>xs.map(f)\<close> where \<open>f\<close> may throw, and two generators run one after the other.\<close>

fun js_map :: "('a \<Rightarrow> 'e + 'b) \<Rightarrow> 'a list \<Rightarrow> 'e + 'b list" where
  "js_map f [] = Inr []"
| "js_map f (x # xs) = js_bind (f x) (\<lambda>y. js_bind (js_map f xs) (\<lambda>ys. Inr (y # ys)))"

definition js_seq :: "'e + 'a list \<Rightarrow> 'e + 'a list \<Rightarrow> 'e + 'a list" where
  "js_seq m k = js_bind m (\<lambda>xs. js_bind k (\<lambda>ys. Inr (xs @ ys)))"

lemma js_map_cong [fundef_cong]:
  "xs = ys \<Longrightarrow> (\<And>x. x \<in> set ys \<Longrightarrow> f x = g x) \<Longrightarrow> js_map f xs = js_map g ys"
proof (induction ys arbitrary: xs)
  case (Cons y ys)
  from Cons.IH [of ys] Cons.prems show ?case by simp
qed simp

lemma js_map_Inr: "js_map f xs = Inr ys \<longleftrightarrow> list_all2 (\<lambda>x y. f x = Inr y) xs ys"
  by (induction xs arbitrary: ys) (auto simp: js_bind_Inr list_all2_Cons1)

lemma js_map_pure: "\<forall>x \<in> set xs. f x = Inr (g x) \<Longrightarrow> js_map f xs = Inr (map g xs)"
  by (induction xs) simp_all

lemma js_seq_Inr: "js_seq m k = Inr zs \<longleftrightarrow> (\<exists>xs ys. m = Inr xs \<and> k = Inr ys \<and> zs = xs @ ys)"
  by (auto simp: js_seq_def js_bind_Inr)

text \<open>A computation that returns.\<close>

definition returns :: "'e + 'a \<Rightarrow> bool" where
  "returns m \<longleftrightarrow> (case m of Inl e \<Rightarrow> False | Inr x \<Rightarrow> True)"

lemma returns_simps [simp]: "returns (Inr x)" "\<not> returns (Inl e)"
  by (simp_all add: returns_def)

lemma returns_Inr: "returns m \<longleftrightarrow> (\<exists>x. m = Inr x)"
  by (cases m) simp_all

lemma returns_bind: "returns (js_bind m f) \<longleftrightarrow> (\<exists>x. m = Inr x \<and> returns (f x))"
  by (cases m) simp_all

lemma returns_bind_pure [simp]: "returns (js_bind m (\<lambda>x. Inr (f x))) \<longleftrightarrow> returns m"
  by (cases m) simp_all

lemma returns_seq [simp]: "returns (js_seq m k) \<longleftrightarrow> returns m \<and> returns k"
  by (cases m; cases k) (simp_all add: js_seq_def)

lemma returns_map: "returns (js_map f xs) \<longleftrightarrow> (\<forall>x \<in> set xs. returns (f x))"
proof (induction xs)
  case (Cons x xs)
  then show ?case by (cases "f x") simp_all
qed simp

text \<open>A computation whose result, if any, has a property; the rules follow the shape of the code.\<close>

definition yields :: "('a \<Rightarrow> bool) \<Rightarrow> 'e + 'a \<Rightarrow> bool" where
  "yields P m \<longleftrightarrow> (\<forall>x. m = Inr x \<longrightarrow> P x)"

lemma yields_simps [simp]: "yields P (Inl e)" "yields P (Inr x) \<longleftrightarrow> P x"
  by (simp_all add: yields_def)

lemma yields_bind: "yields Q m \<Longrightarrow> (\<And>x. m = Inr x \<Longrightarrow> Q x \<Longrightarrow> yields P (f x)) \<Longrightarrow> yields P (js_bind m f)"
  by (cases m) simp_all

lemma yields_seq:
  "yields (list_all P) m \<Longrightarrow> yields (list_all P) k \<Longrightarrow> yields (list_all P) (js_seq m k)"
  by (cases m; cases k) (simp_all add: js_seq_def)

lemma yields_map: "(\<And>x. x \<in> set xs \<Longrightarrow> yields P (f x)) \<Longrightarrow> yields (list_all P) (js_map f xs)"
proof (induction xs)
  case (Cons x xs)
  have "yields P (f x)" "yields (list_all P) (js_map f xs)" using Cons by simp_all
  then show ?case by (cases "f x"; cases "js_map f xs") simp_all
qed simp

end
