(* ===== verification/Toon.thy ===== *)
theory Toon
  imports Canonical_Json Js_Effects
begin

text \<open>
  The TOON encoder (\<open>src/utils/toon-encoder.ts\<close>): the compact text in which tool results are shown to
  the model. A generator of lines is the list of the lines; a function that may throw returns a sum,
  and as every exception of the encoder is a \<open>TypeError\<close> that its caller only catches, the messages
  are left out. A value is a JSON value: \<open>Undefined\<close> does not occur in it (\<open>toon_value\<close>), and the keys of
  an object are distinct.
\<close>

section \<open>Values, keys and strings\<close>

fun isPrimitive :: "jsval \<Rightarrow> bool" where
  "isPrimitive Null = True"
| "isPrimitive (Bool b) = True"
| "isPrimitive (Num n) = True"
| "isPrimitive (Str s) = True"
| "isPrimitive v = False"

fun isObjectRecord :: "jsval \<Rightarrow> bool" where
  "isObjectRecord (Obj ps) = True"
| "isObjectRecord v = False"

fun isArray :: "jsval \<Rightarrow> bool" where
  "isArray (Arr vs) = True"
| "isArray v = False"

fun props_of :: "jsval \<Rightarrow> jsprops" where
  "props_of (Obj ps) = ps"
| "props_of v = []"

fun items_of :: "jsval \<Rightarrow> jsval list" where
  "items_of (Arr vs) = vs"
| "items_of v = []"

definition isEmptyObject :: "jsprops \<Rightarrow> bool" where
  "isEmptyObject ps \<longleftrightarrow> ps = []"

definition isNonEmptyObjectRecord :: "jsval \<Rightarrow> bool" where
  "isNonEmptyObjectRecord v \<longleftrightarrow> isObjectRecord v \<and> \<not> isEmptyObject (props_of v)"

definition isArrayOfPrimitives :: "jsval list \<Rightarrow> bool" where
  "isArrayOfPrimitives vs \<longleftrightarrow> list_all isPrimitive vs"

definition isArrayOfArrays :: "jsval list \<Rightarrow> bool" where
  "isArrayOfArrays vs \<longleftrightarrow> list_all isArray vs"

definition isArrayOfObjects :: "jsval list \<Rightarrow> bool" where
  "isArrayOfObjects vs \<longleftrightarrow> list_all isObjectRecord vs"

text \<open>
  \<open>assertNoLoneSurrogate\<close>: every surrogate is one half of a pair. The scan after a high surrogate
  looks at the next unit and, when it is a low one, skips it.
\<close>

fun no_lone_surrogate :: "jsstring \<Rightarrow> bool" where
  "no_lone_surrogate [] = True"
| "no_lone_surrogate (c # cs) =
     (if is_high_surrogate c then
        (case cs of d # ds \<Rightarrow> is_low_surrogate d \<and> no_lone_surrogate ds | [] \<Rightarrow> False)
      else \<not> is_low_surrogate c \<and> no_lone_surrogate cs)"

definition assertNoLoneSurrogate :: "jsstring \<Rightarrow> js_throw + unit" where
  "assertNoLoneSurrogate s = (if no_lone_surrogate s then Inr () else Inl TypeError)"

text \<open>
  \<open>escapeString\<close> walks over code points; both halves of a pair are copied, so that a walk over code
  units does the same.
\<close>

definition escape_unit :: "nat \<Rightarrow> jsstring" where
  "escape_unit c =
     (if c = 92 then [92, 92] else if c = 34 then [92, 34] else if c = 10 then [92, 110]
      else if c = 13 then [92, 114] else if c = 9 then [92, 116]
      else if c < 32 then unicode_escape c else [c])"

definition escapeString :: "jsstring \<Rightarrow> jsstring" where
  "escapeString s = concat (map escape_unit s)"

definition toon_quote :: "jsstring \<Rightarrow> jsstring" where
  "toon_quote s = [34] @ escapeString s @ [34]"

text \<open>The regular expression for plain keys, \<open>^[A-Z_][\w.]*$\<close> without regard to case.\<close>

definition plain_key :: "jsstring \<Rightarrow> bool" where
  "plain_key key \<longleftrightarrow> (case key of [] \<Rightarrow> False
     | c # cs \<Rightarrow> (is_alpha c \<or> c = 95) \<and> list_all (\<lambda>d. is_word d \<or> d = 46) cs)"

definition encodeKey :: "jsstring \<Rightarrow> js_throw + jsstring" where
  "encodeKey key =
     js_bind (assertNoLoneSurrogate key)
       (\<lambda>_. Inr (if plain_key key then key else toon_quote key))"

text \<open>
  \<open>NUMERIC_LIKE_PATTERN\<close>, \<open>^[+-]?\d+(?:\.\d+)?(?:e[+-]?\d+)?$\<close> without regard to case, as a
  scanner: the sign, the digits, then either of the optional parts and the end.
\<close>

definition skip_sign :: "jsstring \<Rightarrow> jsstring" where
  "skip_sign s = (case s of c # cs \<Rightarrow> if c = 43 \<or> c = 45 then cs else s | [] \<Rightarrow> s)"

definition digits_then :: "jsstring \<Rightarrow> jsstring option" where
  "digits_then s = (case s of c # cs \<Rightarrow> if is_digit c then Some (dropWhile is_digit cs) else None
     | [] \<Rightarrow> None)"

definition exponent_end :: "jsstring \<Rightarrow> bool" where
  "exponent_end s = (case s of [] \<Rightarrow> True
     | c # cs \<Rightarrow> (c = 101 \<or> c = 69) \<and> digits_then (skip_sign cs) = Some [])"

definition numeric_like :: "jsstring \<Rightarrow> bool" where
  "numeric_like s = (case digits_then (skip_sign s) of None \<Rightarrow> False
     | Some r \<Rightarrow> exponent_end r \<or>
         (case r of c # cs \<Rightarrow> c = 46 \<and> (case digits_then cs of None \<Rightarrow> False | Some q \<Rightarrow> exponent_end q)
          | [] \<Rightarrow> False))"

definition hasControlCharacter :: "jsstring \<Rightarrow> bool" where
  "hasControlCharacter s = list_ex (\<lambda>c. c < 32) s"

definition isSafeUnquoted :: "jsstring \<Rightarrow> bool" where
  "isSafeUnquoted s =
     (if s = [] then False
      else if hd s \<in> {32, 9} \<or> last s \<in> {32, 9} then False
      else if s = js ''true'' \<or> s = js ''false'' \<or> s = js ''null'' then False
      else if numeric_like s then False
      else if 58 \<in> set s then False
      else if 34 \<in> set s \<or> 92 \<in> set s then False
      else if 91 \<in> set s \<or> 93 \<in> set s \<or> 123 \<in> set s \<or> 125 \<in> set s then False
      else if hasControlCharacter s then False
      else if 44 \<in> set s then False
      else if hd s = 45 then False
      else if hd s = 35 then False
      else True)"

definition encodeStringLiteral :: "jsstring \<Rightarrow> js_throw + jsstring" where
  "encodeStringLiteral s =
     js_bind (assertNoLoneSurrogate s) (\<lambda>_. Inr (if isSafeUnquoted s then s else toon_quote s))"

fun encodePrimitive :: "jsval \<Rightarrow> js_throw + jsstring" where
  "encodePrimitive Null = Inr (js ''null'')"
| "encodePrimitive (Bool b) = Inr (if b then js ''true'' else js ''false'')"
| "encodePrimitive (Num n) = Inr (number_text n)"
| "encodePrimitive (Str s) = encodeStringLiteral s"
| "encodePrimitive v = Inl TypeError"

definition encodeAndJoinPrimitives :: "jsval list \<Rightarrow> js_throw + jsstring" where
  "encodeAndJoinPrimitives vs = js_bind (js_map encodePrimitive vs) (\<lambda>ts. Inr (js_join [44] ts))"

section \<open>Tables\<close>

text \<open>A column of a table is a plain field or a group of columns that flattens nested objects.\<close>

datatype toon_field = ToonField (fname: jsstring) (fchildren: "toon_field list option")

text \<open>
  \<open>extractTabularFields\<close> on rows, its loop over the keys of the first row and \<open>classifyColumn\<close> on the
  values of a column.
\<close>

definition row_size :: "jsval list \<Rightarrow> nat" where
  "row_size vs = sum_list (map size vs)"

definition same_keys :: "jsstring list \<Rightarrow> jsprops \<Rightarrow> bool" where
  "same_keys keys row \<longleftrightarrow>
     length (map fst row) = length keys \<and> list_all (\<lambda>k. k \<in> set (map fst row)) keys"

lemma size_prop_get: "size (prop_get ps k) < size (Obj ps)"
  by (induction ps) (auto simp: prop_get_def split: option.splits)

lemma row_size_column:
  "rows \<noteq> [] \<Longrightarrow> row_size (map (\<lambda>row. prop_get row key) rows) < row_size (map Obj rows)"
proof (induction rows)
  case (Cons row rows)
  then show ?case
    using size_prop_get [of row key] by (cases "rows = []") (auto simp: row_size_def)
qed simp

lemma map_Obj_props_of: "list_all isObjectRecord vs \<Longrightarrow> map Obj (map props_of vs) = vs"
proof (induction vs)
  case (Cons v vs)
  then show ?case by (cases v) simp_all
qed simp

function extractTabularFields :: "jsprops list \<Rightarrow> toon_field list option"
  and fields_from :: "jsstring list \<Rightarrow> jsprops list \<Rightarrow> toon_field list option"
  and classifyColumn :: "jsstring \<Rightarrow> jsval list \<Rightarrow> toon_field option"
where
  "extractTabularFields rows =
     (case rows of [] \<Rightarrow> None
      | row # _ \<Rightarrow>
          (let firstKeys = map fst row in
           if firstKeys = [] then None
           else if \<not> list_all (same_keys firstKeys) rows then None
           else fields_from firstKeys rows))"
| "fields_from keys rows =
     (case keys of [] \<Rightarrow> Some []
      | key # rest \<Rightarrow>
          (case classifyColumn key (map (\<lambda>row. prop_get row key) rows) of None \<Rightarrow> None
           | Some f \<Rightarrow> (case fields_from rest rows of None \<Rightarrow> None | Some fs \<Rightarrow> Some (f # fs))))"
| "classifyColumn name vs =
     (if list_all isPrimitive vs then Some (ToonField name None)
      else if \<not> list_all isNonEmptyObjectRecord vs then None
      else (case extractTabularFields (map props_of vs) of None \<Rightarrow> None
            | Some cs \<Rightarrow> Some (ToonField name (Some cs))))"
  by pat_completeness auto
termination
proof (relation "measures
    [\<lambda>x. case x of Inl rows \<Rightarrow> row_size (map Obj rows)
      | Inr (Inl (keys, rows)) \<Rightarrow> row_size (map Obj rows)
      | Inr (Inr (name, vs)) \<Rightarrow> row_size vs,
     \<lambda>x. case x of Inl rows \<Rightarrow> 2
      | Inr (Inl (keys, rows)) \<Rightarrow> (if rows = [] then 4 else 1)
      | Inr (Inr (name, vs)) \<Rightarrow> 3,
     \<lambda>x. case x of Inr (Inl (keys, rows)) \<Rightarrow> length keys | _ \<Rightarrow> 0]", goal_cases)
  case (3 keys rows key rest)
  then show ?case using row_size_column [of rows key] by (cases "rows = []") auto
next
  case (5 name vs)
  have "list_all isObjectRecord vs"
    using 5(2) by (auto simp: list_all_iff isNonEmptyObjectRecord_def)
  from map_Obj_props_of [OF this] show ?case by simp
qed auto

declare extractTabularFields.simps [simp del] fields_from.simps [simp del]
  classifyColumn.simps [simp del]

lemma extract_Nil [simp]: "extractTabularFields [] = None"
  by (simp add: extractTabularFields.simps)

definition extractKeyedTabularFields :: "jsprops \<Rightarrow> toon_field list option" where
  "extractKeyedTabularFields ps =
     (let entryValues = map snd ps in
      if length entryValues < 2 then None
      else if \<not> list_all isNonEmptyObjectRecord entryValues then None
      else extractTabularFields (map props_of entryValues))"

text \<open>\<open>collectLeafValues\<close>, with the leaves of one field and of the rest in order.\<close>

fun collectRowLeaves :: "jsprops \<Rightarrow> toon_field list \<Rightarrow> jsval list"
  and field_leaves :: "jsval \<Rightarrow> toon_field \<Rightarrow> jsval list"
where
  "collectRowLeaves row [] = []"
| "collectRowLeaves row (f # fs) =
     field_leaves (prop_get row (fname f)) f @ collectRowLeaves row fs"
| "field_leaves v (ToonField name None) = [v]"
| "field_leaves v (ToonField name (Some cs)) =
     (if isObjectRecord v then collectRowLeaves (props_of v) cs else [v])"

fun formatFieldSegment :: "toon_field list \<Rightarrow> js_throw + jsstring"
  and field_text :: "toon_field \<Rightarrow> js_throw + jsstring"
where
  "formatFieldSegment [] = Inr []"
| "formatFieldSegment (f # fs) =
     js_bind (field_text f) (\<lambda>t.
       if fs = [] then Inr t else js_bind (formatFieldSegment fs) (\<lambda>ts. Inr (t @ [44] @ ts)))"
| "field_text (ToonField name None) = encodeKey name"
| "field_text (ToonField name (Some cs)) =
     js_bind (encodeKey name) (\<lambda>k.
       js_bind (formatFieldSegment cs) (\<lambda>ts. Inr (k @ [123] @ ts @ [125])))"

definition formatHeader ::
  "nat \<Rightarrow> jsstring option \<Rightarrow> toon_field list option \<Rightarrow> bool \<Rightarrow> js_throw + jsstring" where
  "formatHeader len key fields keyed =
     js_bind (case key of None \<Rightarrow> Inr [] | Some k \<Rightarrow> encodeKey k) (\<lambda>ktext.
     js_bind (case fields of None \<Rightarrow> Inr []
              | Some fs \<Rightarrow> js_bind (formatFieldSegment fs) (\<lambda>ts. Inr ([123] @ ts @ [125]))) (\<lambda>ftext.
     Inr (ktext @ [91] @ decimal len @ (if keyed then [58] else []) @ [93] @ ftext @ [58])))"

definition indentedLine :: "nat \<Rightarrow> jsstring \<Rightarrow> jsstring" where
  "indentedLine depth content = replicate (2 * depth) 32 @ content"

definition indentedListItem :: "nat \<Rightarrow> jsstring \<Rightarrow> jsstring" where
  "indentedListItem depth content = indentedLine depth ([45, 32] @ content)"

definition line_of :: "nat \<Rightarrow> js_throw + jsstring \<Rightarrow> js_throw + jsstring list" where
  "line_of depth m = js_bind m (\<lambda>t. Inr [indentedLine depth t])"

definition item_of :: "nat \<Rightarrow> js_throw + jsstring \<Rightarrow> js_throw + jsstring list" where
  "item_of depth m = js_bind m (\<lambda>t. Inr [indentedListItem depth t])"

definition encodeInlineArrayLine :: "jsval list \<Rightarrow> jsstring option \<Rightarrow> js_throw + jsstring" where
  "encodeInlineArrayLine vs key =
     js_bind (formatHeader (length vs) key None False) (\<lambda>header.
       if vs = [] then Inr header
       else js_bind (encodeAndJoinPrimitives vs) (\<lambda>t. Inr (header @ [32] @ t)))"

definition table_rows :: "nat \<Rightarrow> toon_field list \<Rightarrow> jsprops list \<Rightarrow> js_throw + jsstring list" where
  "table_rows depth fields rows =
     js_map (\<lambda>row. js_bind (encodeAndJoinPrimitives (collectRowLeaves row fields))
       (\<lambda>t. Inr (indentedLine depth t))) rows"

definition encodeArrayOfObjectsAsTabularLines ::
  "jsstring option \<Rightarrow> jsprops list \<Rightarrow> toon_field list \<Rightarrow> nat \<Rightarrow> js_throw + jsstring list" where
  "encodeArrayOfObjectsAsTabularLines key rows fields depth =
     js_seq (line_of depth (formatHeader (length rows) key (Some fields) False))
       (table_rows (Suc depth) fields rows)"

definition encodeArrayOfArraysAsListItemsLines ::
  "jsstring option \<Rightarrow> jsval list \<Rightarrow> nat \<Rightarrow> js_throw + jsstring list" where
  "encodeArrayOfArraysAsListItemsLines key vs depth =
     js_seq (line_of depth (formatHeader (length vs) key None False))
       (js_map (\<lambda>arr. js_bind (encodeInlineArrayLine (items_of arr) None)
          (\<lambda>t. Inr (indentedListItem (Suc depth) t))) vs)"

definition encodeKeyedEntryRowsLines ::
  "jsprops \<Rightarrow> toon_field list \<Rightarrow> nat \<Rightarrow> js_throw + jsstring list" where
  "encodeKeyedEntryRowsLines entries fields depth =
     js_map (\<lambda>(k, v). js_bind (encodeKey k) (\<lambda>kt.
        js_bind (encodeAndJoinPrimitives (collectRowLeaves (props_of v) fields))
          (\<lambda>t. Inr (indentedLine depth (kt @ [58, 32] @ t)))))
       (filter (\<lambda>(k, v). isObjectRecord v) entries)"

definition encodeKeyedObjectLines ::
  "jsstring option \<Rightarrow> jsprops \<Rightarrow> toon_field list \<Rightarrow> nat \<Rightarrow> js_throw + jsstring list" where
  "encodeKeyedObjectLines key ps fields depth =
     js_seq (line_of depth (formatHeader (length ps) key (Some fields) True))
       (encodeKeyedEntryRowsLines ps fields (Suc depth))"

section \<open>The encoder\<close>

text \<open>
  One function for each generator of the code; \<open>encode_items\<close> is the loop of list items that two of them
  share. \<open>encodeRemainingObjectEntries\<close> is \<open>encodeObjectLines\<close> on the rest of the entries, one level in.
\<close>

function encodeObjectLines :: "jsprops \<Rightarrow> nat \<Rightarrow> js_throw + jsstring list"
  and encodeKeyValuePairLines :: "jsstring \<Rightarrow> jsval \<Rightarrow> nat \<Rightarrow> js_throw + jsstring list"
  and encodeArrayLines :: "jsstring option \<Rightarrow> jsval list \<Rightarrow> nat \<Rightarrow> js_throw + jsstring list"
  and encode_items :: "jsval list \<Rightarrow> nat \<Rightarrow> js_throw + jsstring list"
  and encodeListItemValueLines :: "jsval \<Rightarrow> nat \<Rightarrow> js_throw + jsstring list"
  and encodeObjectAsListItemLines :: "jsprops \<Rightarrow> nat \<Rightarrow> js_throw + jsstring list"
where
  "encodeObjectLines ps depth =
     (case ps of [] \<Rightarrow> Inr []
      | (k, v) # rest \<Rightarrow> js_seq (encodeKeyValuePairLines k v depth) (encodeObjectLines rest depth))"
| "encodeKeyValuePairLines key v depth =
     js_bind (encodeKey key) (\<lambda>encodedKey.
       if isPrimitive v then
         line_of depth (js_bind (encodePrimitive v) (\<lambda>t. Inr (encodedKey @ [58, 32] @ t)))
       else case v of
         Arr vs \<Rightarrow> encodeArrayLines (Some key) vs depth
       | Obj ps \<Rightarrow>
           (case extractKeyedTabularFields ps of
              Some fields \<Rightarrow> encodeKeyedObjectLines (Some key) ps fields depth
            | None \<Rightarrow>
                js_seq (line_of depth (Inr (encodedKey @ [58])))
                  (if \<not> isEmptyObject ps then encodeObjectLines ps (Suc depth) else Inr []))
       | _ \<Rightarrow> Inl TypeError)"
| "encodeArrayLines key vs depth =
     (if vs = [] then
        line_of depth (case key of None \<Rightarrow> Inr [91, 93]
          | Some k \<Rightarrow> js_bind (encodeKey k) (\<lambda>t. Inr (t @ [58, 32, 91, 93])))
      else if isArrayOfPrimitives vs then line_of depth (encodeInlineArrayLine vs key)
      else if isArrayOfArrays vs \<and> list_all (isArrayOfPrimitives \<circ> items_of) vs then
        encodeArrayOfArraysAsListItemsLines key vs depth
      else if isArrayOfObjects vs then
        (case extractTabularFields (map props_of vs) of
           Some fields \<Rightarrow> encodeArrayOfObjectsAsTabularLines key (map props_of vs) fields depth
         | None \<Rightarrow>
             js_seq (line_of depth (formatHeader (length vs) key None False)) (encode_items vs (Suc depth)))
      else js_seq (line_of depth (formatHeader (length vs) key None False)) (encode_items vs (Suc depth)))"
| "encode_items vs depth =
     (case vs of [] \<Rightarrow> Inr []
      | v # rest \<Rightarrow> js_seq (encodeListItemValueLines v depth) (encode_items rest depth))"
| "encodeListItemValueLines v depth =
     (if isPrimitive v then item_of depth (encodePrimitive v)
      else case v of
        Arr vs \<Rightarrow>
          (if isArrayOfPrimitives vs then item_of depth (encodeInlineArrayLine vs None)
           else js_seq (item_of depth (formatHeader (length vs) None None False))
                  (encode_items vs (Suc depth)))
      | Obj ps \<Rightarrow> encodeObjectAsListItemLines ps depth
      | _ \<Rightarrow> Inl TypeError)"
| "encodeObjectAsListItemLines obj depth =
     (case obj of
        [] \<Rightarrow> Inr [indentedLine depth [45]]
      | (firstKey, firstValue) # restEntries \<Rightarrow>
          js_bind (encodeKey firstKey) (\<lambda>encodedKey.
            js_seq
              (case firstValue of
                 Arr vs \<Rightarrow>
                   (case (if isArrayOfObjects vs then extractTabularFields (map props_of vs) else None) of
                      Some fields \<Rightarrow>
                        js_seq (item_of depth (formatHeader (length vs) (Some firstKey) (Some fields) False))
                          (table_rows (depth + 2) fields (map props_of vs))
                    | None \<Rightarrow>
                        (if vs = [] then item_of depth (Inr (encodedKey @ [58, 32, 91, 93]))
                         else if isArrayOfPrimitives vs then
                           item_of depth (js_bind (encodeInlineArrayLine vs None) (\<lambda>t. Inr (encodedKey @ t)))
                         else
                           js_seq (item_of depth (js_bind (formatHeader (length vs) None None False)
                                     (\<lambda>t. Inr (encodedKey @ t))))
                             (encode_items vs (depth + 2))))
               | Obj ps \<Rightarrow>
                   (case extractKeyedTabularFields ps of
                      Some fields \<Rightarrow>
                        js_seq (item_of depth (formatHeader (length ps) (Some firstKey) (Some fields) True))
                          (encodeKeyedEntryRowsLines ps fields (depth + 2))
                    | None \<Rightarrow>
                        js_seq (item_of depth (Inr (encodedKey @ [58])))
                          (if \<not> isEmptyObject ps then encodeObjectLines ps (depth + 2) else Inr []))
               | _ \<Rightarrow>
                   item_of depth (js_bind (encodePrimitive firstValue)
                     (\<lambda>t. Inr (encodedKey @ [58, 32] @ t))))
              (encodeObjectLines restEntries (Suc depth))))"
  by pat_completeness auto
termination
  by (relation "measures
    [\<lambda>x. case x of Inl (Inl (ps, d)) \<Rightarrow> size (Obj ps)
       | Inl (Inr (Inl (k, v, d))) \<Rightarrow> size v
       | Inl (Inr (Inr (k, vs, d))) \<Rightarrow> size (Arr vs)
       | Inr (Inl (vs, d)) \<Rightarrow> size (Arr vs)
       | Inr (Inr (Inl (v, d))) \<Rightarrow> size v
       | Inr (Inr (Inr (ps, d))) \<Rightarrow> size (Obj ps),
     \<lambda>x. case x of Inl (Inr (Inl _)) \<Rightarrow> 2 | Inl (Inr (Inr _)) \<Rightarrow> 1 | Inr (Inr (Inl _)) \<Rightarrow> 2
       | Inr (Inr (Inr _)) \<Rightarrow> 1 | _ \<Rightarrow> 0]") auto

declare encodeObjectLines.simps [simp del] encodeKeyValuePairLines.simps [simp del]
  encodeArrayLines.simps [simp del] encode_items.simps [simp del]
  encodeListItemValueLines.simps [simp del] encodeObjectAsListItemLines.simps [simp del]

definition encodeJsonValue :: "jsval \<Rightarrow> nat \<Rightarrow> js_throw + jsstring list" where
  "encodeJsonValue v depth =
     (if isPrimitive v then
        js_bind (encodePrimitive v) (\<lambda>t. if t \<noteq> [] then Inr [t] else Inr [])
      else case v of
        Arr vs \<Rightarrow> encodeArrayLines None vs depth
      | Obj ps \<Rightarrow>
          (case extractKeyedTabularFields ps of
             Some fields \<Rightarrow> encodeKeyedObjectLines None ps fields depth
           | None \<Rightarrow> encodeObjectLines ps depth)
      | _ \<Rightarrow> Inl TypeError)"

definition encodeToon :: "jsval \<Rightarrow> js_throw + jsstring" where
  "encodeToon v = js_bind (encodeJsonValue v 0) (\<lambda>ls. Inr (js_join [10] ls))"

section \<open>Lines hold no control characters\<close>

definition clean :: "jsstring \<Rightarrow> bool" where
  "clean s \<longleftrightarrow> (\<forall>c \<in> set s. 32 \<le> c)"

lemma clean_simps [simp]:
  "clean []" "clean (c # s) \<longleftrightarrow> 32 \<le> c \<and> clean s" "clean (s @ t) \<longleftrightarrow> clean s \<and> clean t"
  "clean (replicate n 32)"
  by (auto simp: clean_def)

lemma clean_js_join: "clean sep \<Longrightarrow> \<forall>x \<in> set xs. clean x \<Longrightarrow> clean (js_join sep xs)"
  by (induction sep xs rule: js_join.induct) simp_all

lemma clean_decimal [simp]: "clean (decimal n)"
  using decimal_digits [of _ n] by (force simp: clean_def is_digit_def)

lemma clean_number_text [simp]: "clean (number_text n)"
proof (cases n)
  case (Fin neg s e)
  have "32 \<le> c" if "c \<in> set (unsigned_text s e)" for c
    using that unsigned_text_units [of s e] by (auto simp: is_digit_def)
  then have "clean (unsigned_text s e)" by (simp add: clean_def)
  then show ?thesis by (simp add: Fin number_text_Fin)
qed (simp_all add: number_text_def js_def)

lemma clean_unicode_escape [simp]: "clean (unicode_escape c)"
  by (simp add: unicode_escape_def hex4_def hex_digit_def)

lemma clean_escapeString [simp]: "clean (escapeString s)"
  by (induction s) (simp_all add: escapeString_def escape_unit_def)

lemma clean_toon_quote [simp]: "clean (toon_quote s)"
  by (simp add: toon_quote_def)

lemma clean_plain_key: "plain_key k \<Longrightarrow> clean k"
  by (auto simp: plain_key_def clean_def list_all_iff char_class_defs split: list.splits)

lemma clean_safe: "isSafeUnquoted s \<Longrightarrow> clean s"
  by (auto simp: isSafeUnquoted_def hasControlCharacter_def clean_def list_ex_iff not_less split: if_splits)

lemma encodeKey_clean: "yields clean (encodeKey k)"
  by (simp add: encodeKey_def assertNoLoneSurrogate_def clean_plain_key)

lemma encodePrimitive_clean: "yields clean (encodePrimitive v)"
  by (cases v) (simp_all add: encodeStringLiteral_def assertNoLoneSurrogate_def clean_safe js_def)

lemma joined_clean: "yields clean (encodeAndJoinPrimitives vs)"
  unfolding encodeAndJoinPrimitives_def
  by (rule yields_bind [OF yields_map [OF encodePrimitive_clean]])
    (simp add: clean_js_join list_all_iff)

lemma fields_clean: "yields clean (formatFieldSegment fs)" "yields clean (field_text f)"
proof (induction fs and f rule: formatFieldSegment_field_text.induct)
  case (2 f fs)
  show ?case
    unfolding formatFieldSegment.simps
  proof (rule yields_bind [OF 2(1)])
    fix x assume x: "field_text f = Inr x" "clean x"
    show "yields clean (if fs = [] then Inr x else js_bind (formatFieldSegment fs) (\<lambda>ts. Inr (x @ [44] @ ts)))"
      using x by (auto intro!: yields_bind [OF 2(2)])
  qed
next
  case (4 name cs)
  show ?case
    by (simp, rule yields_bind [OF encodeKey_clean], rule yields_bind [OF 4]) simp_all
qed (simp_all add: encodeKey_clean)

lemma header_clean: "yields clean (formatHeader n key fields keyed)"
  unfolding formatHeader_def
proof (rule yields_bind [where Q = clean])
  show "yields clean (case key of None \<Rightarrow> Inr [] | Some k \<Rightarrow> encodeKey k)"
    by (simp add: encodeKey_clean split: option.split)
  fix k :: jsstring assume "clean k"
  moreover have "yields clean (case fields of None \<Rightarrow> Inr []
      | Some fs \<Rightarrow> js_bind (formatFieldSegment fs) (\<lambda>ts. Inr ([123] @ ts @ [125])))"
    by (cases fields) (auto intro!: yields_bind [OF fields_clean(1)])
  ultimately show "yields clean (js_bind (case fields of None \<Rightarrow> Inr []
      | Some fs \<Rightarrow> js_bind (formatFieldSegment fs) (\<lambda>ts. Inr ([123] @ ts @ [125])))
      (\<lambda>ft. Inr (k @ [91] @ decimal n @ (if keyed then [58] else []) @ [93] @ ft @ [58])))"
    by (auto elim!: yields_bind)
qed

lemma inline_clean: "yields clean (encodeInlineArrayLine vs key)"
  unfolding encodeInlineArrayLine_def
  by (rule yields_bind [OF header_clean]) (auto intro!: yields_bind [OF joined_clean])

lemma line_of_clean: "yields clean m \<Longrightarrow> yields (list_all clean) (line_of d m)"
  unfolding line_of_def by (rule yields_bind) (simp_all add: indentedLine_def)

lemma item_of_clean: "yields clean m \<Longrightarrow> yields (list_all clean) (item_of d m)"
  unfolding item_of_def by (rule yields_bind) (simp_all add: indentedListItem_def indentedLine_def)

lemma rows_clean: "yields (list_all clean) (table_rows d fields rows)"
  unfolding table_rows_def
  by (rule yields_map, rule yields_bind [OF joined_clean]) (simp add: indentedLine_def)

lemma entries_clean: "yields (list_all clean) (encodeKeyedEntryRowsLines ps fields d)"
proof -
  have "yields clean (case p of (k, v) \<Rightarrow> js_bind (encodeKey k) (\<lambda>kt.
      js_bind (encodeAndJoinPrimitives (collectRowLeaves (props_of v) fields))
        (\<lambda>t. Inr (indentedLine d (kt @ [58, 32] @ t)))))" for p
    by (cases p) (auto intro!: yields_bind [OF encodeKey_clean] yields_bind [OF joined_clean]
        simp: indentedLine_def)
  then show ?thesis unfolding encodeKeyedEntryRowsLines_def by (intro yields_map) blast
qed

lemma arrays_clean: "yields (list_all clean) (encodeArrayOfArraysAsListItemsLines key vs d)"
  unfolding encodeArrayOfArraysAsListItemsLines_def
  by (intro yields_seq line_of_clean header_clean yields_map yields_bind [OF inline_clean])
    (simp add: indentedListItem_def indentedLine_def)

lemmas lines_clean = yields_seq line_of_clean item_of_clean header_clean rows_clean entries_clean
  arrays_clean inline_clean encodePrimitive_clean

lemma tabular_clean: "yields (list_all clean) (encodeArrayOfObjectsAsTabularLines key rows fs d)"
  unfolding encodeArrayOfObjectsAsTabularLines_def by (intro lines_clean)

lemma keyed_clean: "yields (list_all clean) (encodeKeyedObjectLines key ps fs d)"
  unfolding encodeKeyedObjectLines_def by (intro lines_clean)

lemma colon_clean: "clean k \<Longrightarrow> yields clean m \<Longrightarrow> yields clean (js_bind m (\<lambda>t. Inr (k @ 58 # 32 # t)))"
  by (erule yields_bind) simp

lemma after_key_clean: "clean k \<Longrightarrow> yields clean m \<Longrightarrow> yields clean (js_bind m (\<lambda>t. Inr (k @ t)))"
  by (erule yields_bind) simp

lemma key_suffix_clean: "clean sep \<Longrightarrow> yields clean (js_bind (encodeKey k) (\<lambda>t. Inr (t @ sep)))"
  by (rule yields_bind [OF encodeKey_clean]) simp

lemmas encoder_induct = encodeObjectLines_encodeKeyValuePairLines_encodeArrayLines_encode_items_encodeListItemValueLines_encodeObjectAsListItemLines.induct

lemma encoder_clean:
  "yields (list_all clean) (encodeObjectLines ps d)"
  "yields (list_all clean) (encodeKeyValuePairLines k v d)"
  "yields (list_all clean) (encodeArrayLines key vs d)"
  "yields (list_all clean) (encode_items vs d)"
  "yields (list_all clean) (encodeListItemValueLines v d)"
  "yields (list_all clean) (encodeObjectAsListItemLines ps d)"
proof (induction ps d and k v d and key vs d and vs d and v d and ps d rule: encoder_induct)
  case (1 ps d)
  show ?case
    by (subst encodeObjectLines.simps) (auto intro!: yields_seq 1 split: list.split prod.split)
next
  case (2 key v d)
  show ?case
    unfolding encodeKeyValuePairLines.simps [of key v d]
  proof (rule yields_bind [OF encodeKey_clean])
    fix kt assume kt: "encodeKey key = Inr kt" "clean kt"
    then show "yields (list_all clean) (if isPrimitive v
        then line_of d (js_bind (encodePrimitive v) (\<lambda>t. Inr (kt @ [58, 32] @ t)))
        else case v of
          Arr vs \<Rightarrow> encodeArrayLines (Some key) vs d
        | Obj ps \<Rightarrow>
            (case extractKeyedTabularFields ps of
               Some fields \<Rightarrow> encodeKeyedObjectLines (Some key) ps fields d
             | None \<Rightarrow>
                 js_seq (line_of d (Inr (kt @ [58])))
                   (if \<not> isEmptyObject ps then encodeObjectLines ps (Suc d) else Inr []))
        | _ \<Rightarrow> Inl TypeError)"
      by (auto simp del: encodePrimitive.simps intro!: lines_clean colon_clean keyed_clean
          2 [OF kt(1)] split: jsval.split option.split)
  qed
next
  case (3 key vs d)
  have items: "yields (list_all clean) (encode_items vs (Suc d))"
    if "vs \<noteq> []" "\<not> isArrayOfPrimitives vs"
      "\<not> (isArrayOfArrays vs \<and> list_all (isArrayOfPrimitives \<circ> items_of) vs)"
      "isArrayOfObjects vs \<longrightarrow> extractTabularFields (map props_of vs) = None"
    using 3(1) [OF that(1-3)] 3(2) [OF that(1-3)] that(4) by (cases "isArrayOfObjects vs") simp_all
  show ?case
    by (subst encodeArrayLines.simps)
      (auto intro!: lines_clean tabular_clean key_suffix_clean items split: option.split)
next
  case (4 vs d)
  show ?case
    by (subst encode_items.simps) (auto intro!: yields_seq 4 split: list.split)
next
  case (5 v d)
  show ?case
    by (subst encodeListItemValueLines.simps)
      (auto simp del: encodePrimitive.simps intro!: lines_clean 5 split: jsval.split)
next
  case (6 ps d)
  show ?case
  proof (cases ps)
    case Nil
    then show ?thesis by (simp add: encodeObjectAsListItemLines.simps indentedLine_def)
  next
    case (Cons p rest)
    obtain k v where p: "p = (k, v)" by fastforce
    have items: "yields (list_all clean) (encode_items vs (d + 2))"
      if "encodeKey k = Inr kt" "v = Arr vs" "vs \<noteq> []" "\<not> isArrayOfPrimitives vs"
        "isArrayOfObjects vs \<longrightarrow> extractTabularFields (map props_of vs) = None" for kt vs
      using 6(1) [OF Cons p [symmetric] that(1,2)] that by simp
    show ?thesis
      unfolding Cons p encodeObjectAsListItemLines.simps list.case prod.case
      by (rule yields_bind [OF encodeKey_clean], rule yields_seq)
        (auto simp del: encodePrimitive.simps add_2_eq_Suc' intro!: lines_clean colon_clean
          after_key_clean items 6(2,3) [OF Cons p [symmetric]] split: jsval.split option.split)
  qed
qed

section \<open>Which values can be encoded\<close>

text \<open>JSON values: finite numbers, distinct keys, nothing undefined.\<close>

fun json_value :: "jsval \<Rightarrow> bool" where
  "json_value Undefined = False"
| "json_value (Num n) = (case n of Fin neg s e \<Rightarrow> wf_num n | _ \<Rightarrow> False)"
| "json_value (Arr vs) = (\<forall>v \<in> set vs. json_value v)"
| "json_value (Obj ps) = (distinct (map fst ps) \<and> (\<forall>p \<in> set ps. json_value (snd p)))"
| "json_value v = True"

text \<open>Every string in the value, keys included, is well-formed UTF-16.\<close>

fun utf16_ok :: "jsval \<Rightarrow> bool" where
  "utf16_ok (Str s) = no_lone_surrogate s"
| "utf16_ok (Arr vs) = (\<forall>v \<in> set vs. utf16_ok v)"
| "utf16_ok (Obj ps) = (\<forall>p \<in> set ps. no_lone_surrogate (fst p) \<and> utf16_ok (snd p))"
| "utf16_ok v = True"

text \<open>A row fits fields: every column is there, leaf columns are primitive, groups have no other key.\<close>

fun fits :: "toon_field list \<Rightarrow> jsprops \<Rightarrow> bool"
  and field_fits :: "toon_field \<Rightarrow> jsval \<Rightarrow> bool"
where
  "fits [] row = True"
| "fits (f # fs) row \<longleftrightarrow> fname f \<in> fst ` set row \<and> field_fits f (prop_get row (fname f)) \<and> fits fs row"
| "field_fits (ToonField name None) v \<longleftrightarrow> isPrimitive v"
| "field_fits (ToonField name (Some cs)) v \<longleftrightarrow>
     isObjectRecord v \<and> fst ` set (props_of v) \<subseteq> fname ` set cs \<and> fits cs (props_of v)"

lemma json_prop_get: "json_value (Obj ps) \<Longrightarrow> k \<in> fst ` set ps \<Longrightarrow> json_value (prop_get ps k)"
  by (auto simp: prop_get_def dest: map_of_SomeD split: option.split)

lemma prop_get_mem: "distinct (map fst ps) \<Longrightarrow> (k, v) \<in> set ps \<Longrightarrow> prop_get ps k = v"
  by (simp add: prop_get_def)

lemma json_props_of: "json_value v \<Longrightarrow> json_value (Obj (props_of v))"
  by (cases v) simp_all

lemma same_keys_set:
  assumes "same_keys keys row" "distinct keys" "distinct (map fst row)"
  shows "fst ` set row = set keys"
proof -
  have "set keys \<subseteq> set (map fst row)" using assms(1) by (auto simp: same_keys_def list_all_iff)
  moreover have "card (set keys) = card (set (map fst row))"
    using assms by (simp add: same_keys_def distinct_card del: set_map)
  ultimately show ?thesis by (metis List.finite_set card_subset_eq set_map)
qed

lemma extract_fits:
  "extractTabularFields rows = Some fs \<Longrightarrow> \<forall>row \<in> set rows. json_value (Obj row) \<Longrightarrow>
     map fname fs = map fst (hd rows) \<and> (\<forall>row \<in> set rows. fst ` set row \<subseteq> fname ` set fs \<and> fits fs row)"
  "fields_from keys rows = Some fs \<Longrightarrow> \<forall>row \<in> set rows. json_value (Obj row) \<and> set keys \<subseteq> fst ` set row \<Longrightarrow>
     map fname fs = keys \<and> (\<forall>row \<in> set rows. fits fs row)"
  "classifyColumn name vs = Some f \<Longrightarrow> \<forall>v \<in> set vs. json_value v \<Longrightarrow>
     fname f = name \<and> (\<forall>v \<in> set vs. field_fits f v)"
proof (induction rows and keys rows and name vs arbitrary: fs and fs and f
    rule: extractTabularFields_fields_from_classifyColumn.induct)
  case (1 rows)
  obtain row rest where rows: "rows = row # rest"
    using "1.prems" by (cases rows) (simp_all add: extractTabularFields.simps)
  from "1.prems"(1) have g: "map fst row \<noteq> []" "list_all (same_keys (map fst row)) rows"
      "fields_from (map fst row) rows = Some fs"
    unfolding rows extractTabularFields.simps [of "row # rest"] by (auto simp: Let_def split: if_splits)
  have keys: "fst ` set r = set (map fst row)" if "r \<in> set rows" for r
    using that g(2) "1.prems"(2) rows by (intro same_keys_set) (auto simp: list_all_iff)
  have "\<forall>r \<in> set rows. json_value (Obj r) \<and> set (map fst row) \<subseteq> fst ` set r"
    using keys "1.prems"(2) by blast
  from "1.IH" [OF rows refl _ _ g(3) this] g(1,2)
  have fs: "map fname fs = map fst row" "\<forall>r \<in> set rows. fits fs r" by simp_all
  have "fname ` set fs = set (map fst row)" using fs(1) by (metis set_map)
  then have "\<forall>r \<in> set rows. fst ` set r \<subseteq> fname ` set fs" using keys by simp
  with fs rows show ?case by simp
next
  case (2 keys rows)
  show ?case
  proof (cases keys)
    case Nil
    with "2.prems" show ?thesis by (simp add: fields_from.simps)
  next
    case (Cons key rest)
    from "2.prems"(1) obtain f gs where g: "fs = f # gs"
        "classifyColumn key (map (\<lambda>row. prop_get row key) rows) = Some f" "fields_from rest rows = Some gs"
      unfolding Cons fields_from.simps [of "key # rest"] by (auto split: option.splits)
    have "\<forall>v \<in> set (map (\<lambda>row. prop_get row key) rows). json_value v"
    proof
      fix v assume "v \<in> set (map (\<lambda>row. prop_get row key) rows)"
      then obtain row where "row \<in> set rows" "v = prop_get row key" by auto
      with "2.prems"(2) Cons show "json_value v" using json_prop_get [of row key] by auto
    qed
    from "2.IH"(1) [OF Cons g(2) this]
    have f: "fname f = key" "\<forall>row \<in> set rows. field_fits f (prop_get row key)" by auto
    have "map fname gs = rest \<and> (\<forall>row \<in> set rows. fits gs row)"
      using "2.IH"(2) [OF Cons g(2,3)] "2.prems"(2) Cons by auto
    with f "2.prems"(2) Cons g(1) show ?thesis by auto
  qed
next
  case (3 name vs)
  show ?case
  proof (cases "list_all isPrimitive vs")
    case True
    with "3.prems" show ?thesis by (auto simp: classifyColumn.simps list_all_iff)
  next
    case False
    with "3.prems"(1) obtain cs where c: "list_all isNonEmptyObjectRecord vs" "f = ToonField name (Some cs)"
        "extractTabularFields (map props_of vs) = Some cs"
      by (auto simp: classifyColumn.simps split: if_splits option.splits)
    have "\<forall>row \<in> set (map props_of vs). json_value (Obj row)" using "3.prems"(2) json_props_of by auto
    with "3.IH" [OF False _ c(3)] c(1)
    have "\<forall>row \<in> set (map props_of vs). fst ` set row \<subseteq> fname ` set cs \<and> fits cs row" by simp
    with c show ?thesis by (auto simp: list_all_iff isNonEmptyObjectRecord_def)
  qed
qed

fun field_names :: "toon_field list \<Rightarrow> jsstring list"
  and names_below :: "toon_field \<Rightarrow> jsstring list"
where
  "field_names [] = []"
| "field_names (f # fs) = fname f # names_below f @ field_names fs"
| "names_below (ToonField name None) = []"
| "names_below (ToonField name (Some cs)) = field_names cs"

lemma fits_leaves:
  "fits fs row \<Longrightarrow> list_all isPrimitive (collectRowLeaves row fs)"
  "field_fits f v \<Longrightarrow> list_all isPrimitive (field_leaves v f)"
  by (induction fs row and f v rule: fits_field_fits.induct) auto

lemma fits_keys: "fits fs row \<Longrightarrow> fname ` set fs \<subseteq> fst ` set row"
  by (induction fs) auto

lemma props_eq_fields:
  assumes "distinct (map fst ps)" "fst ` set ps = fname ` set cs"
  shows "(\<forall>p \<in> set ps. Q (fst p) (snd p)) \<longleftrightarrow> (\<forall>f \<in> set cs. Q (fname f) (prop_get ps (fname f)))"
proof
  assume l: "\<forall>p \<in> set ps. Q (fst p) (snd p)"
  show "\<forall>f \<in> set cs. Q (fname f) (prop_get ps (fname f))"
  proof
    fix f assume "f \<in> set cs"
    then have "fname f \<in> fst ` set ps" using assms(2) by auto
    then obtain v where "(fname f, v) \<in> set ps" by auto
    with assms(1) l show "Q (fname f) (prop_get ps (fname f))" using prop_get_mem by fastforce
  qed
next
  assume r: "\<forall>f \<in> set cs. Q (fname f) (prop_get ps (fname f))"
  show "\<forall>p \<in> set ps. Q (fst p) (snd p)"
  proof
    fix p assume p: "p \<in> set ps"
    then have "fst p \<in> fname ` set cs" using assms(2) by auto
    with r p assms(1) show "Q (fst p) (snd p)" using prop_get_mem [of ps "fst p" "snd p"] by auto
  qed
qed

lemma fits_utf16:
  "fits fs row \<Longrightarrow> json_value (Obj row) \<Longrightarrow>
     (\<forall>k \<in> set (field_names fs). no_lone_surrogate k) \<and> list_all utf16_ok (collectRowLeaves row fs)
     \<longleftrightarrow> (\<forall>f \<in> set fs. no_lone_surrogate (fname f) \<and> utf16_ok (prop_get row (fname f)))"
  "field_fits f v \<Longrightarrow> json_value v \<Longrightarrow>
     (\<forall>k \<in> set (names_below f). no_lone_surrogate k) \<and> list_all utf16_ok (field_leaves v f) \<longleftrightarrow> utf16_ok v"
proof (induction fs row and f v rule: fits_field_fits.induct)
  case (2 f fs row)
  have "json_value (prop_get row (fname f))" using 2 by (intro json_prop_get) simp_all
  with 2 show ?case by auto
next
  case (4 name cs v)
  then obtain ps where v: "v = Obj ps" by (cases v) simp_all
  with 4 have "fst ` set ps = fname ` set cs" using fits_keys [of cs ps] by auto
  with 4 v props_eq_fields [of ps cs "\<lambda>k v. no_lone_surrogate k \<and> utf16_ok v"] show ?case by simp
qed auto

lemma encodeKey_returns [simp]: "returns (encodeKey k) \<longleftrightarrow> no_lone_surrogate k"
  by (simp add: encodeKey_def assertNoLoneSurrogate_def)

lemma encodeKey_Inr: "encodeKey k = Inr t \<Longrightarrow> no_lone_surrogate k"
  by (metis encodeKey_returns returns_simps(1))

lemma encodePrimitive_returns:
  "isPrimitive v \<Longrightarrow> returns (encodePrimitive v) \<longleftrightarrow> utf16_ok v"
  by (cases v) (simp_all add: encodeStringLiteral_def assertNoLoneSurrogate_def)

lemma joined_returns:
  "list_all isPrimitive vs \<Longrightarrow> returns (encodeAndJoinPrimitives vs) \<longleftrightarrow> list_all utf16_ok vs"
  by (auto simp: encodeAndJoinPrimitives_def returns_map list_all_iff encodePrimitive_returns)

lemma fields_return:
  "returns (formatFieldSegment fs) \<longleftrightarrow> (\<forall>k \<in> set (field_names fs). no_lone_surrogate k)"
  "returns (field_text f) \<longleftrightarrow> (\<forall>k \<in> set (fname f # names_below f). no_lone_surrogate k)"
proof (induction fs and f rule: formatFieldSegment_field_text.induct)
  case (2 f fs)
  show ?case
  proof (cases "field_text f")
    case (Inl e)
    with 2(1) show ?thesis by auto
  next
    case (Inr t)
    with 2(1) 2(2) [OF Inr] show ?thesis by (cases fs) auto
  qed
next
  case (4 name cs)
  show ?case
  proof (cases "encodeKey name")
    case (Inl e)
    then have "\<not> no_lone_surrogate name" by (metis encodeKey_returns returns_simps(2))
    with Inl show ?thesis by simp
  next
    case (Inr t)
    with 4 [OF Inr] encodeKey_Inr [OF Inr] show ?thesis by simp
  qed
qed simp_all

definition key_ok :: "jsstring option \<Rightarrow> bool" where
  "key_ok key \<longleftrightarrow> (case key of None \<Rightarrow> True | Some k \<Rightarrow> no_lone_surrogate k)"

lemma key_ok_simps [simp]: "key_ok None" "key_ok (Some k) \<longleftrightarrow> no_lone_surrogate k"
  by (simp_all add: key_ok_def)

lemma header_returns:
  "returns (formatHeader n key fields keyed) \<longleftrightarrow>
     key_ok key \<and> (case fields of None \<Rightarrow> True | Some fs \<Rightarrow> \<forall>k \<in> set (field_names fs). no_lone_surrogate k)"
proof -
  have k: "returns (case key of None \<Rightarrow> Inr [] | Some k \<Rightarrow> encodeKey k) \<longleftrightarrow> key_ok key"
    by (cases key) simp_all
  have f: "returns (case fields of None \<Rightarrow> Inr []
      | Some fs \<Rightarrow> js_bind (formatFieldSegment fs) (\<lambda>ts. Inr ([123] @ ts @ [125])))
    \<longleftrightarrow> (case fields of None \<Rightarrow> True | Some fs \<Rightarrow> \<forall>k \<in> set (field_names fs). no_lone_surrogate k)"
    by (cases fields) (simp_all add: fields_return)
  show ?thesis
    using k f unfolding formatHeader_def
    by (cases "case key of None \<Rightarrow> Inr [] | Some k \<Rightarrow> encodeKey k") simp_all
qed

lemma line_of_returns [simp]: "returns (line_of d m) \<longleftrightarrow> returns m"
  by (simp add: line_of_def)

lemma item_of_returns [simp]: "returns (item_of d m) \<longleftrightarrow> returns m"
  by (simp add: item_of_def)

lemma inline_returns:
  "isArrayOfPrimitives vs \<Longrightarrow>
     returns (encodeInlineArrayLine vs key) \<longleftrightarrow> key_ok key \<and> list_all utf16_ok vs"
  using header_returns [of "length vs" key None False] joined_returns [of vs]
  by (cases "formatHeader (length vs) key None False")
    (auto simp: encodeInlineArrayLine_def isArrayOfPrimitives_def)

lemma utf16_row:
  assumes "fits fs row" "fst ` set row \<subseteq> fname ` set fs" "json_value (Obj row)"
  shows "(\<forall>k \<in> set (field_names fs). no_lone_surrogate k) \<and> list_all utf16_ok (collectRowLeaves row fs)
    \<longleftrightarrow> utf16_ok (Obj row)"
proof -
  have "fst ` set row = fname ` set fs" using assms(1,2) fits_keys by blast
  with props_eq_fields [of row fs "\<lambda>k v. no_lone_surrogate k \<and> utf16_ok v"] fits_utf16(1) [OF assms(1,3)]
    assms(3) show ?thesis by simp
qed

lemma rows_return:
  assumes "extractTabularFields rows = Some fs" "\<forall>row \<in> set rows. json_value (Obj row)"
  shows "(\<forall>k \<in> set (field_names fs). no_lone_surrogate k) \<and> returns (table_rows d fs rows) \<longleftrightarrow>
    (\<forall>row \<in> set rows. utf16_ok (Obj row))"
proof -
  have ne: "rows \<noteq> []" using assms(1) by auto
  have fits: "fits fs row" "fst ` set row \<subseteq> fname ` set fs" if "row \<in> set rows" for row
    using extract_fits(1) [OF assms] that by auto
  have "returns (table_rows d fs rows) \<longleftrightarrow> (\<forall>row \<in> set rows. list_all utf16_ok (collectRowLeaves row fs))"
    using fits fits_leaves(1) by (auto simp: table_rows_def returns_map joined_returns)
  with ne utf16_row fits assms(2) show ?thesis
    by (metis last_in_set)
qed

lemma keyed_rows:
  assumes "extractKeyedTabularFields ps = Some fs" "json_value (Obj ps)"
  shows "list_all isObjectRecord (map snd ps)" "extractTabularFields (map (props_of \<circ> snd) ps) = Some fs"
    "\<forall>row \<in> set (map (props_of \<circ> snd) ps). json_value (Obj row)"
proof -
  from assms(1) show "list_all isObjectRecord (map snd ps)" "extractTabularFields (map (props_of \<circ> snd) ps) = Some fs"
    by (auto simp: extractKeyedTabularFields_def Let_def list_all_iff isNonEmptyObjectRecord_def split: if_splits)
  show "\<forall>row \<in> set (map (props_of \<circ> snd) ps). json_value (Obj row)" using assms(2) json_props_of by fastforce
qed

lemma entries_return:
  assumes "extractKeyedTabularFields ps = Some fs" "json_value (Obj ps)"
  shows "(\<forall>k \<in> set (field_names fs). no_lone_surrogate k) \<and> returns (encodeKeyedEntryRowsLines ps fs d)
    \<longleftrightarrow> utf16_ok (Obj ps)"
proof -
  note k = keyed_rows [OF assms]
  have all: "filter (\<lambda>(k, v). isObjectRecord v) ps = ps"
    using k(1) by (intro filter_True) (auto simp: list_all_iff)
  have "returns (case p of (k, v) \<Rightarrow> js_bind (encodeKey k) (\<lambda>kt.
      js_bind (encodeAndJoinPrimitives (collectRowLeaves (props_of v) fs))
        (\<lambda>t. Inr (indentedLine d (kt @ [58, 32] @ t)))))
     \<longleftrightarrow> no_lone_surrogate (fst p) \<and> returns (encodeAndJoinPrimitives (collectRowLeaves (props_of (snd p)) fs))" for p
    by (cases p; cases "encodeKey (fst p)") (auto dest: encodeKey_Inr simp flip: encodeKey_returns)
  then have "returns (encodeKeyedEntryRowsLines ps fs d) \<longleftrightarrow>
      (\<forall>p \<in> set ps. no_lone_surrogate (fst p)) \<and> returns (table_rows d fs (map (props_of \<circ> snd) ps))"
    by (auto simp: encodeKeyedEntryRowsLines_def table_rows_def all returns_map)
  moreover have "utf16_ok (Obj (props_of (snd p))) \<longleftrightarrow> utf16_ok (snd p)" if "p \<in> set ps" for p
    using k(1) that by (cases "snd p") (auto simp: list_all_iff)
  ultimately show ?thesis using rows_return [OF k(2,3), of d] by auto
qed

lemma tabular_returns:
  assumes "extractTabularFields (map props_of vs) = Some fs" "isArrayOfObjects vs" "json_value (Arr vs)"
  shows "(\<forall>k \<in> set (field_names fs). no_lone_surrogate k) \<and> returns (table_rows d fs (map props_of vs))
    \<longleftrightarrow> utf16_ok (Arr vs)"
proof -
  have "\<forall>row \<in> set (map props_of vs). json_value (Obj row)"
    using assms(3) json_props_of by (simp del: json_value.simps(4))
  from rows_return [OF assms(1) this]
  have "(\<forall>k \<in> set (field_names fs). no_lone_surrogate k) \<and> returns (table_rows d fs (map props_of vs))
    \<longleftrightarrow> (\<forall>v \<in> set vs. utf16_ok (Obj (props_of v)))" by simp
  moreover have "utf16_ok (Obj (props_of v)) \<longleftrightarrow> utf16_ok v" if "v \<in> set vs" for v
    using assms(2) that by (cases v) (auto simp: isArrayOfObjects_def list_all_iff)
  ultimately show ?thesis by simp
qed

lemma arrays_return:
  assumes "isArrayOfArrays vs" "list_all (isArrayOfPrimitives \<circ> items_of) vs"
  shows "returns (encodeArrayOfArraysAsListItemsLines key vs d) \<longleftrightarrow> key_ok key \<and> utf16_ok (Arr vs)"
proof -
  have "utf16_ok v \<longleftrightarrow> list_all utf16_ok (items_of v)" if "v \<in> set vs" for v
    using assms(1) that by (cases v) (auto simp: isArrayOfArrays_def list_all_iff)
  with assms(2) show ?thesis
    by (auto simp: encodeArrayOfArraysAsListItemsLines_def header_returns returns_map inline_returns list_all_iff)
qed

lemma prims_utf16: "isArrayOfPrimitives vs \<Longrightarrow> list_all utf16_ok vs \<longleftrightarrow> utf16_ok (Arr vs)"
  by (simp add: list_all_iff)

lemma json_Cons: "json_value (Obj ((k, v) # rest)) \<Longrightarrow> json_value v \<and> json_value (Obj rest)"
  by simp

lemma encoder_returns:
  "json_value (Obj ps) \<Longrightarrow> returns (encodeObjectLines ps d) \<longleftrightarrow> utf16_ok (Obj ps)"
  "json_value v \<Longrightarrow> returns (encodeKeyValuePairLines k v d) \<longleftrightarrow> no_lone_surrogate k \<and> utf16_ok v"
  "json_value (Arr vs) \<Longrightarrow> returns (encodeArrayLines key vs d) \<longleftrightarrow> key_ok key \<and> utf16_ok (Arr vs)"
  "json_value (Arr vs) \<Longrightarrow> returns (encode_items vs d) \<longleftrightarrow> utf16_ok (Arr vs)"
  "json_value v \<Longrightarrow> returns (encodeListItemValueLines v d) \<longleftrightarrow> utf16_ok v"
  "json_value (Obj ps) \<Longrightarrow> returns (encodeObjectAsListItemLines ps d) \<longleftrightarrow> utf16_ok (Obj ps)"
proof (induction ps d and k v d and key vs d and vs d and v d and ps d rule: encoder_induct)
  case (1 ps d)
  show ?case
  proof (cases ps)
    case Nil
    then show ?thesis by (simp add: encodeObjectLines.simps)
  next
    case (Cons p rest)
    obtain k v where p: "p = (k, v)" by fastforce
    have "json_value v" "json_value (Obj rest)" using 1(3) Cons p by simp_all
    with 1(1,2) [OF Cons p [symmetric]] show ?thesis
      unfolding Cons p encodeObjectLines.simps [of "(k, v) # rest"] by simp
  qed
next
  case (2 key v d)
  show ?case
  proof (cases "encodeKey key")
    case (Inl e)
    then have "\<not> no_lone_surrogate key" by (metis encodeKey_returns returns_simps(2))
    with Inl show ?thesis by (simp add: encodeKeyValuePairLines.simps)
  next
    case (Inr kt)
    note e = encodeKeyValuePairLines.simps [of key v d, unfolded Inr js_bind_simps]
    have k: "no_lone_surrogate key" using encodeKey_Inr [OF Inr] .
    show ?thesis
    proof (cases "isPrimitive v")
      case True
      then show ?thesis using k by (simp add: e encodePrimitive_returns)
    next
      case False
      then consider vs where "v = Arr vs" | ps where "v = Obj ps" using 2(3) by (cases v) simp_all
      then show ?thesis
      proof cases
        case (1 vs)
        with 2(1) [OF Inr False 1] 2(3) k show ?thesis unfolding e by simp
      next
        case o: (2 ps)
        show ?thesis
        proof (cases "extractKeyedTabularFields ps")
          case None
          with 2(2) [OF Inr False o None] 2(3) o k show ?thesis unfolding e
            by (cases "isEmptyObject ps") (simp_all add: isEmptyObject_def)
        next
          case (Some fs)
          with entries_return [OF Some] 2(3) o k show ?thesis unfolding e
            by (simp add: encodeKeyedObjectLines_def header_returns)
        qed
      qed
    qed
  qed
next
  case (3 key vs d)
  let ?list = "js_seq (line_of d (formatHeader (length vs) key None False)) (encode_items vs (Suc d))"
  consider "vs = []" | "vs \<noteq> []" "isArrayOfPrimitives vs"
    | "vs \<noteq> []" "\<not> isArrayOfPrimitives vs" "isArrayOfArrays vs" "list_all (isArrayOfPrimitives \<circ> items_of) vs"
    | fs where "vs \<noteq> []" "\<not> isArrayOfPrimitives vs"
        "\<not> (isArrayOfArrays vs \<and> list_all (isArrayOfPrimitives \<circ> items_of) vs)"
        "isArrayOfObjects vs" "extractTabularFields (map props_of vs) = Some fs"
    | "vs \<noteq> []" "\<not> isArrayOfPrimitives vs"
        "\<not> (isArrayOfArrays vs \<and> list_all (isArrayOfPrimitives \<circ> items_of) vs)"
        "isArrayOfObjects vs \<longrightarrow> extractTabularFields (map props_of vs) = None"
    by (cases "extractTabularFields (map props_of vs)") blast+
  then show ?case
  proof cases
    case 1
    then show ?thesis by (cases key) (simp_all add: encodeArrayLines.simps)
  next
    case 2
    then show ?thesis by (simp add: encodeArrayLines.simps inline_returns list_all_iff)
  next
    case c: 3
    then show ?thesis using arrays_return [OF c(3,4), of key d] by (simp add: encodeArrayLines.simps)
  next
    case c: (4 fs)
    have "encodeArrayLines key vs d = encodeArrayOfObjectsAsTabularLines key (map props_of vs) fs d"
      using c by (subst encodeArrayLines.simps) auto
    then show ?thesis using tabular_returns [OF c(5,4) 3(3)]
      by (auto simp: encodeArrayOfObjectsAsTabularLines_def header_returns)
  next
    case c: 5
    have "encodeArrayLines key vs d = ?list"
      using c by (subst encodeArrayLines.simps) auto
    moreover have "returns (encode_items vs (Suc d)) \<longleftrightarrow> utf16_ok (Arr vs)"
    proof (cases "isArrayOfObjects vs")
      case True
      with c(4) have "extractTabularFields (map props_of vs) = None" by simp
      from 3(1) [OF c(1,2,3) True this 3(3)] show ?thesis .
    next
      case False
      from 3(2) [OF c(1,2,3) False 3(3)] show ?thesis .
    qed
    ultimately show ?thesis by (simp add: header_returns)
  qed
next
  case (4 vs d)
  show ?case
  proof (cases vs)
    case Nil
    then show ?thesis by (simp add: encode_items.simps)
  next
    case (Cons v rest)
    with 4 show ?thesis unfolding Cons encode_items.simps [of "v # rest"] by simp
  qed
next
  case (5 v d)
  show ?case
  proof (cases "isPrimitive v")
    case True
    then show ?thesis by (simp add: encodeListItemValueLines.simps encodePrimitive_returns)
  next
    case False
    then consider vs where "v = Arr vs" | ps where "v = Obj ps" using 5(3) by (cases v) simp_all
    then show ?thesis
    proof cases
      case (1 vs)
      with 5(1) [OF False 1] 5(3) False show ?thesis
        by (cases "isArrayOfPrimitives vs")
          (simp_all add: encodeListItemValueLines.simps inline_returns header_returns list_all_iff)
    next
      case (2 ps)
      with 5(2) [OF False 2] 5(3) False show ?thesis by (simp add: encodeListItemValueLines.simps)
    qed
  qed
next
  case (6 ps d)
  show ?case
  proof (cases ps)
    case Nil
    then show ?thesis by (simp add: encodeObjectAsListItemLines.simps)
  next
    case (Cons p rest)
    obtain k v where p: "p = (k, v)" by fastforce
    note ih = 6 (1,2) [OF Cons p [symmetric]] 6(3) [OF Cons p [symmetric]]
    have j: "json_value v" "json_value (Obj rest)" using 6(4) Cons p by simp_all
    show ?thesis
    proof (cases "encodeKey k")
      case (Inl e)
      then have "\<not> no_lone_surrogate k" by (metis encodeKey_returns returns_simps(2))
      with Inl show ?thesis by (simp add: Cons p encodeObjectAsListItemLines.simps [of "(k, v) # rest"])
    next
      case (Inr kt)
      have k: "no_lone_surrogate k" using encodeKey_Inr [OF Inr] .
      have rest: "returns (encodeObjectLines rest (Suc d)) \<longleftrightarrow> utf16_ok (Obj rest)" using ih(3) [OF Inr j(2)] .
      have goal: "returns (js_seq m (encodeObjectLines rest (Suc d))) \<longleftrightarrow> utf16_ok (Obj ps)"
        if "returns m \<longleftrightarrow> utf16_ok v" for m
        using that rest k by (auto simp: Cons p)
      note e = encodeObjectAsListItemLines.simps [of "(k, v) # rest", unfolded list.case prod.case Inr js_bind_simps,
          folded p, folded Cons]
      show ?thesis
      proof (cases v)
        case (Arr vs)
        let ?fs = "if isArrayOfObjects vs then extractTabularFields (map props_of vs) else None"
        consider fs where "?fs = Some fs" | "?fs = None" "vs = []"
          | "?fs = None" "vs \<noteq> []" "isArrayOfPrimitives vs"
          | "?fs = None" "vs \<noteq> []" "\<not> isArrayOfPrimitives vs"
          by fastforce
        then show ?thesis
        proof cases
          case (1 fs)
          then have "isArrayOfObjects vs" "extractTabularFields (map props_of vs) = Some fs"
            by (auto split: if_splits)
          note t = tabular_returns [OF this(2,1) j(1) [unfolded Arr], of "d + 2"]
          show ?thesis unfolding e
            by (rule goal) (use t Arr 1 k in \<open>auto simp: header_returns\<close>)
        next
          case 2
          show ?thesis unfolding e by (rule goal) (use Arr 2 k in simp)
        next
          case 3
          show ?thesis unfolding e
            by (rule goal) (use Arr 3 k in \<open>simp add: inline_returns list_all_iff\<close>)
        next
          case 4
          note i = ih(1) [OF Inr Arr 4(1,2,3) j(1) [unfolded Arr]]
          show ?thesis unfolding e
            by (rule goal) (use i Arr 4 in \<open>simp add: header_returns\<close>)
        qed
      next
        case (Obj qs)
        show ?thesis
        proof (cases "extractKeyedTabularFields qs")
          case None
          have "\<not> isEmptyObject qs \<Longrightarrow> returns (encodeObjectLines qs (d + 2)) \<longleftrightarrow> utf16_ok (Obj qs)"
            using ih(2) [OF Inr Obj None _ j(1) [unfolded Obj]] .
          with None Obj show ?thesis unfolding e
            by (intro goal, cases "isEmptyObject qs") (simp_all add: isEmptyObject_def)
        next
          case (Some fs)
          note s = entries_return [OF Some j(1) [unfolded Obj], of "d + 2"]
          show ?thesis unfolding e
            by (rule goal) (use s Obj Some k in \<open>auto simp: header_returns\<close>)
        qed
      qed (unfold e, (rule goal, use j(1) encodePrimitive_returns [of v] in simp)+)
    qed
  qed
qed

end
