(* ===== verification/Toon_Cells.thy ===== *)
theory Toon_Cells
  imports Toon
begin

text \<open>
  Reading TOON cells back. A cell is the text of a primitive; a row of a table is a list of cells
  between commas. The reader undoes the encoder's quoting and tells numbers, the three words and plain
  strings apart, and a table line determines its row up to the order of its keys.
\<close>

section \<open>Number texts look like numbers\<close>

lemma digits_then_append:
  assumes "ds \<noteq> []" "\<forall>c \<in> set ds. is_digit c" "q = [] \<or> \<not> is_digit (hd q)"
  shows "digits_then (ds @ q) = Some q"
proof -
  obtain d es where d: "ds = d # es" using assms(1) by (cases ds) simp_all
  have "dropWhile is_digit (es @ q) = q"
    using assms(2,3) d by (cases q) (simp_all add: dropWhile_append2)
  with d assms(2) show ?thesis by (simp add: digits_then_def)
qed

lemma skip_sign_digits: "ds \<noteq> [] \<Longrightarrow> \<forall>c \<in> set ds. is_digit c \<Longrightarrow> skip_sign (ds @ q) = ds @ q"
  by (cases ds) (auto simp: skip_sign_def is_digit_def)

lemma skip_sign_minus: "skip_sign (45 # s) = s" "skip_sign (43 # s) = s"
  by (simp_all add: skip_sign_def)

lemma decimal_all_digits: "\<forall>c \<in> set (decimal n). is_digit c"
  using decimal_digits by blast

definition exponent_text :: "int \<Rightarrow> jsstring" where
  "exponent_text x = [101] @ (if x < 0 then [45] else [43]) @ decimal (nat \<bar>x\<bar>)"

lemma exponent_text_end: "exponent_end (exponent_text x)"
proof -
  have "digits_then (decimal k) = Some []" for k
    using digits_then_append [OF _ decimal_all_digits, of k "[]"] by simp
  then show ?thesis by (simp add: exponent_text_def exponent_end_def skip_sign_minus)
qed

text \<open>The three shapes of the pattern, behind an optional sign.\<close>

lemma numeric_like_int:
  assumes "ds \<noteq> []" "\<forall>c \<in> set ds. is_digit c" "q = [] \<or> (\<exists>x. q = exponent_text x)"
  shows "numeric_like (ds @ q)" "numeric_like (45 # ds @ q)"
proof -
  have "q = [] \<or> \<not> is_digit (hd q)" "exponent_end q"
    using assms(3) exponent_text_end by (auto simp: exponent_text_def is_digit_def exponent_end_def)
  with digits_then_append [OF assms(1,2), of q] skip_sign_digits [OF assms(1,2), of q]
  show "numeric_like (ds @ q)" "numeric_like (45 # ds @ q)"
    by (simp_all add: numeric_like_def skip_sign_minus)
qed

lemma numeric_like_frac:
  assumes "ds \<noteq> []" "\<forall>c \<in> set ds. is_digit c" "fs \<noteq> []" "\<forall>c \<in> set fs. is_digit c"
    "q = [] \<or> (\<exists>x. q = exponent_text x)"
  shows "numeric_like (ds @ 46 # fs @ q)" "numeric_like (45 # ds @ 46 # fs @ q)"
proof -
  have "q = [] \<or> \<not> is_digit (hd q)" "exponent_end q"
    using assms(5) exponent_text_end by (auto simp: exponent_text_def is_digit_def exponent_end_def)
  moreover have "\<not> is_digit 46" by (simp add: is_digit_def)
  ultimately show "numeric_like (ds @ 46 # fs @ q)" "numeric_like (45 # ds @ 46 # fs @ q)"
    using digits_then_append [OF assms(1,2), of "46 # fs @ q"] digits_then_append [OF assms(3,4), of q]
      skip_sign_digits [OF assms(1,2), of "46 # fs @ q"]
    by (simp_all add: numeric_like_def skip_sign_minus)
qed

lemma digit_48: "is_digit 48"
  by (simp add: is_digit_def)

lemma unsigned_text_numeric:
  "numeric_like (unsigned_text s e) \<and> numeric_like (45 # unsigned_text s e)"
proof -
  let ?ds = "decimal s"
  let ?n = "int (length ?ds) + e"
  have pos: "0 < length ?ds" by simp
  have dig: "\<forall>c \<in> set ?ds. is_digit c" by (rule decimal_all_digits)
  have parts: "\<forall>c \<in> set (take k ?ds). is_digit c" "\<forall>c \<in> set (drop k ?ds). is_digit c" for k
    using digit_parts by blast+
  consider "0 \<le> e" "?n \<le> 21" | "e < 0" "0 < ?n" "?n \<le> 21" | "-6 < ?n" "?n \<le> 0" "e < 0"
    | "?n > 21 \<or> ?n \<le> -6" using pos by linarith
  then show ?thesis
  proof cases
    case 1
    then have t: "unsigned_text s e = (?ds @ replicate (nat e) 48) @ []"
      by (simp add: unsigned_text_def Let_def)
    have "\<forall>c \<in> set (?ds @ replicate (nat e) 48). is_digit c" using dig digit_48 by auto
    then show ?thesis unfolding t by (intro conjI numeric_like_int) simp_all
  next
    case 2
    let ?k = "nat ?n"
    have t: "unsigned_text s e = take ?k ?ds @ 46 # drop ?k ?ds @ []"
      using 2 by (simp add: unsigned_text_def Let_def)
    have "take ?k ?ds \<noteq> []" "drop ?k ?ds \<noteq> []" using 2 pos by simp_all
    then show ?thesis unfolding t by (intro conjI numeric_like_frac parts) simp_all
  next
    case 3
    then have t: "unsigned_text s e = [48] @ 46 # (replicate (nat (- ?n)) 48 @ ?ds) @ []"
      by (simp add: unsigned_text_def Let_def)
    have "\<forall>c \<in> set (replicate (nat (- ?n)) 48 @ ?ds). is_digit c" using dig digit_48 by auto
    then show ?thesis unfolding t
      by (intro conjI numeric_like_frac) (simp_all add: digit_48)
  next
    case 4
    then have t: "unsigned_text s e = take 1 ?ds @ (if length ?ds = 1 then [] else [46] @ drop 1 ?ds)
        @ exponent_text (?n - 1)"
      using pos unfolding unsigned_text_def Let_def exponent_text_def by auto
    have ne: "take 1 ?ds \<noteq> []" using pos by simp
    show ?thesis
    proof (cases "length ?ds = 1")
      case True
      then have t': "unsigned_text s e = take 1 ?ds @ exponent_text (?n - 1)" using t by simp
      show ?thesis unfolding t' using ne parts by (intro conjI numeric_like_int) auto
    next
      case False
      then have t': "unsigned_text s e = take 1 ?ds @ 46 # drop 1 ?ds @ exponent_text (?n - 1)" using t by simp
      have "1 < length ?ds" using False pos by linarith
      then have "drop 1 ?ds \<noteq> []" by simp
      then show ?thesis unfolding t' using ne parts by (intro conjI numeric_like_frac) auto
    qed
  qed
qed

lemma number_text_numeric: "numeric_like (number_text (Fin neg s e))"
proof (cases "s = 0")
  case True
  have "numeric_like ([48] @ [])" by (rule numeric_like_int) (simp_all add: digit_48)
  with True show ?thesis by (simp add: number_text_Fin)
next
  case False
  with unsigned_text_numeric [of s e] show ?thesis by (simp add: number_text_Fin)
qed

section \<open>The reader of cells\<close>

definition read_cell :: "jsstring \<Rightarrow> (jsval \<times> jsstring) option" where
  "read_cell s =
     (if s \<noteq> [] \<and> hd s = 34 then map_option (apfst Str) (read_quoted (tl s))
      else
        (let t = takeWhile (\<lambda>c. c \<notin> {44, 93, 125}) s; r = dropWhile (\<lambda>c. c \<notin> {44, 93, 125}) s in
         Some (if t = js ''null'' then Null
               else if t = js ''true'' then Bool True
               else if t = js ''false'' then Bool False
               else if numeric_like t then Num (read_number t)
               else Str t, r)))"

text \<open>The primitives that a JSON document can name: printable numbers and well-formed strings.\<close>

fun cell_ok :: "jsval \<Rightarrow> bool" where
  "cell_ok Null = True"
| "cell_ok (Bool b) = True"
| "cell_ok (Num n) = printable_num n"
| "cell_ok (Str s) = no_lone_surrogate s"
| "cell_ok v = False"

definition cell_text :: "jsval \<Rightarrow> jsstring" where
  "cell_text v = (case encodePrimitive v of Inl e \<Rightarrow> [] | Inr t \<Rightarrow> t)"

lemma encode_cell: "cell_ok v \<Longrightarrow> encodePrimitive v = Inr (cell_text v)"
  by (cases v) (simp_all add: cell_text_def encodeStringLiteral_def assertNoLoneSurrogate_def)

lemma take_plain:
  assumes "\<forall>c \<in> set t. c \<notin> {44, 93, 125}" "at_stop r"
  shows "takeWhile (\<lambda>c. c \<notin> {44, 93, 125}) (t @ r) = t" "dropWhile (\<lambda>c. c \<notin> {44, 93, 125}) (t @ r) = r"
proof -
  have "takeWhile (\<lambda>c. c \<notin> {44, 93, 125}) r = []" "dropWhile (\<lambda>c. c \<notin> {44, 93, 125}) r = r"
    using assms(2) by (cases r; auto)+
  then show "takeWhile (\<lambda>c. c \<notin> {44, 93, 125}) (t @ r) = t" "dropWhile (\<lambda>c. c \<notin> {44, 93, 125}) (t @ r) = r"
    using assms(1) by (simp_all add: takeWhile_append2 dropWhile_append2)
qed

lemma read_plain:
  assumes "t \<noteq> []" "hd t \<noteq> 34" "\<forall>c \<in> set t. c \<notin> {44, 93, 125}" "at_stop r"
  shows "read_cell (t @ r) = Some (if t = js ''null'' then Null
               else if t = js ''true'' then Bool True
               else if t = js ''false'' then Bool False
               else if numeric_like t then Num (read_number t)
               else Str t, r)"
  using assms(1,2) take_plain [OF assms(3,4)] by (simp add: read_cell_def Let_def)

lemma read_quoted_escape_unit:
  "read_quoted (escape_unit c @ r) = map_option (apfst ((#) c)) (read_quoted r)"
  by (simp add: escape_unit_def unescape_unit_def read_quoted_unicode)

lemma read_toon_quoted: "read_quoted (escapeString s @ 34 # r) = Some (s, r)"
  by (induction s) (simp_all add: escapeString_def read_quoted_escape_unit)

lemma words_not_numeric:
  "\<not> numeric_like (js ''null'')" "\<not> numeric_like (js ''true'')" "\<not> numeric_like (js ''false'')"
  by (simp_all add: numeric_like_def skip_sign_def digits_then_def js_def is_digit_def)

lemma read_cell_text: "cell_ok v \<Longrightarrow> at_stop r \<Longrightarrow> read_cell (cell_text v @ r) = Some (v, r)"
proof (cases v)
  case Null
  moreover assume "at_stop r"
  ultimately show ?thesis
    using read_plain [of "js ''null''" r] by (simp add: cell_text_def js_def)
next
  case (Bool b)
  moreover assume "at_stop r"
  ultimately show ?thesis
    using read_plain [of "js ''true''" r] read_plain [of "js ''false''" r]
    by (cases b) (simp_all add: cell_text_def js_def)
next
  case (Num n)
  assume ok: "cell_ok v" "at_stop r"
  then obtain neg s e where n: "n = Fin neg s e" "wf_num n" "norm_num n = n"
    using Num by (auto simp: printable_num_def split: jsnum.splits)
  have "printable_num n" using ok(1) Num by simp
  from number_text_start [OF this] obtain c cs where c: "number_text n = c # cs" "c = 45 \<or> is_digit c"
    by blast
  have num: "numeric_like (number_text n)" using number_text_numeric n(1) by simp
  have "number_text n \<noteq> js ''null''" "number_text n \<noteq> js ''true''" "number_text n \<noteq> js ''false''"
    using num words_not_numeric by metis+
  moreover have "\<forall>c \<in> set (number_text n). c \<notin> {44, 93, 125}" using number_text_units n(1) by blast
  moreover have "hd (number_text n) \<noteq> 34" "number_text n \<noteq> []" using c by (auto simp: is_digit_def)
  moreover have "read_number (number_text n) = n" using read_number_text n by simp
  ultimately show ?thesis
    using read_plain [of "number_text n" r] num ok(2) Num by (simp add: cell_text_def)
next
  case (Str s)
  assume ok: "cell_ok v" "at_stop r"
  show ?thesis
  proof (cases "isSafeUnquoted s")
    case True
    then have "s \<noteq> []" "s \<noteq> js ''null''" "s \<noteq> js ''true''" "s \<noteq> js ''false''" "\<not> numeric_like s"
        "34 \<notin> set s" "93 \<notin> set s" "125 \<notin> set s" "44 \<notin> set s"
      by (auto simp: isSafeUnquoted_def split: if_splits)
    moreover from this have "hd s \<noteq> 34" by (metis hd_in_set)
    ultimately show ?thesis
      using read_plain [of s r] ok Str True
      by (auto simp: cell_text_def encodeStringLiteral_def assertNoLoneSurrogate_def)
  next
    case False
    then show ?thesis
      using read_toon_quoted [of s r] ok Str
      by (simp add: cell_text_def encodeStringLiteral_def assertNoLoneSurrogate_def toon_quote_def read_cell_def)
  qed
qed simp_all

lemma cell_text_head: "cell_ok v \<Longrightarrow> \<not> at_stop (cell_text v @ r)"
proof -
  assume ok: "cell_ok v"
  show ?thesis
  proof (cases v)
    case (Num n)
    with ok number_text_start [of n] show ?thesis by (auto simp: cell_text_def is_digit_def)
  next
    case (Str s)
    have "s \<noteq> [] \<and> hd s \<notin> {44, 93, 125}" if "isSafeUnquoted s"
    proof -
      from that have "s \<noteq> []" "93 \<notin> set s" "125 \<notin> set s" "44 \<notin> set s"
        by (auto simp: isSafeUnquoted_def split: if_splits)
      then show ?thesis by (metis hd_in_set insertE singletonD)
    qed
    with Str ok show ?thesis
      by (cases s) (auto simp: cell_text_def encodeStringLiteral_def assertNoLoneSurrogate_def toon_quote_def)
  qed (use ok in \<open>auto simp: cell_text_def js_def\<close>)
qed

interpretation cell: delimited_code cell_text cell_ok
proof unfold_locales
  fix a b r r' assume "cell_ok a" "cell_ok b" "at_stop r" "at_stop r'" "cell_text a @ r = cell_text b @ r'"
  then have "Some (a, r) = Some (b, r')" by (metis read_cell_text)
  then show "a = b \<and> r = r'" by simp
qed (rule cell_text_head)

section \<open>Rows\<close>

text \<open>The reader of a row with a known number of cells, which the header of a table or array states.\<close>

fun read_row :: "nat \<Rightarrow> jsstring \<Rightarrow> (jsval list \<times> jsstring) option" where
  "read_row 0 s = Some ([], s)"
| "read_row (Suc n) s =
     (case read_cell s of
        None \<Rightarrow> None
      | Some (v, r) \<Rightarrow>
          if n = 0 then Some ([v], r)
          else (case r of [] \<Rightarrow> None
            | c # r' \<Rightarrow> if c = 44 then map_option (apfst ((#) v)) (read_row n r') else None))"

lemma read_row_cells:
  "\<forall>v \<in> set vs. cell_ok v \<Longrightarrow> read_row (length vs) (js_join [44] (map cell_text vs)) = Some (vs, [])"
proof (induction vs)
  case (Cons v vs)
  show ?case
  proof (cases "vs = []")
    case True
    with Cons.prems read_cell_text [of v "[]"] show ?thesis by simp
  next
    case False
    then have "js_join [44] (map cell_text (v # vs)) = cell_text v @ 44 # js_join [44] (map cell_text vs)"
      by (simp add: js_join_Cons)
    moreover have "read_cell (cell_text v @ 44 # js_join [44] (map cell_text vs))
        = Some (v, 44 # js_join [44] (map cell_text vs))"
      using Cons.prems by (intro read_cell_text) simp_all
    ultimately show ?thesis using Cons False by simp
  qed
qed simp

lemma leaves_json:
  "fits fs row \<Longrightarrow> json_value (Obj row) \<Longrightarrow> list_all json_value (collectRowLeaves row fs)"
  "field_fits f v \<Longrightarrow> json_value v \<Longrightarrow> list_all json_value (field_leaves v f)"
proof (induction fs row and f v rule: fits_field_fits.induct)
  case (2 f fs row)
  then have "json_value (prop_get row (fname f))" by (intro json_prop_get) simp_all
  with 2 show ?case by simp
next
  case (4 name cs v)
  with json_props_of [of v] show ?case by simp
qed simp_all

text \<open>What a cell keeps of a primitive: \<open>canon\<close> only forgets the sign of a zero.\<close>

lemma canon_cell:
  assumes "isPrimitive v" "json_value v"
  shows "encodePrimitive (canon v) = encodePrimitive v" "cell_ok (canon v) \<longleftrightarrow> utf16_ok v"
  using assms by (cases v; auto simp: number_text_norm printable_num_norm split: jsnum.splits)+

lemma joined_cells:
  assumes "list_all isPrimitive vs" "list_all json_value vs" "encodeAndJoinPrimitives vs = Inr t"
  shows "t = js_join [44] (map cell_text (map canon vs))" "\<forall>v \<in> set (map canon vs). cell_ok v"
proof -
  have "list_all utf16_ok vs"
    using joined_returns [OF assms(1)] assms(3) by simp
  then show ok: "\<forall>v \<in> set (map canon vs). cell_ok v"
    using assms(1,2) canon_cell(2) by (auto simp: list_all_iff)
  have "encodePrimitive v = Inr (cell_text (canon v))" if "v \<in> set vs" for v
    using canon_cell(1) [of v] encode_cell [of "canon v"] ok assms(1,2) that by (auto simp: list_all_iff)
  then have "js_map encodePrimitive vs = Inr (map (\<lambda>v. cell_text (canon v)) vs)"
    by (intro js_map_pure) simp
  with assms(3) show "t = js_join [44] (map cell_text (map canon vs))"
    by (simp add: encodeAndJoinPrimitives_def comp_def)
qed

section \<open>A table line determines its row\<close>

lemma leaves_length:
  "fits fs row \<Longrightarrow> fits fs row' \<Longrightarrow> length (collectRowLeaves row fs) = length (collectRowLeaves row' fs)"
  "field_fits f v \<Longrightarrow> field_fits f v' \<Longrightarrow> length (field_leaves v f) = length (field_leaves v' f)"
proof (induction fs row and f v arbitrary: row' and v' rule: fits_field_fits.induct)
  case (2 f fs row)
  have "length (field_leaves (prop_get row (fname f)) f) = length (field_leaves (prop_get row' (fname f)) f)"
    using 2(1) [of "prop_get row' (fname f)"] 2(3,4) by simp
  moreover have "length (collectRowLeaves row fs) = length (collectRowLeaves row' fs)"
    using 2(2) [of row'] 2(3,4) by simp
  ultimately show ?case by simp
next
  case (4 name cs v)
  then show ?case using 4(1) [of "props_of v'"] by simp
qed simp_all

lemma json_present: "json_value (Obj ps) \<Longrightarrow> present ps k = map_of ps k"
  by (auto simp: present_def split: option.split dest!: map_of_SomeD)

lemma rows_canon_eq:
  assumes "json_value (Obj r)" "json_value (Obj r')" "fst ` set r = fname ` set fs" "fst ` set r' = fname ` set fs"
    and "\<forall>f \<in> set fs. canon (prop_get r (fname f)) = canon (prop_get r' (fname f))"
  shows "canon (Obj r) = canon (Obj r')"
proof -
  have "map_option canon (map_of r k) = map_option canon (map_of r' k)" for k
  proof (cases "k \<in> fname ` set fs")
    case True
    then obtain v v' where "map_of r k = Some v" "map_of r' k = Some v'"
      using assms(3,4) by (metis map_of_eq_None_iff not_None_eq)
    moreover have "canon (prop_get r k) = canon (prop_get r' k)" using True assms(5) by auto
    ultimately show ?thesis by (simp add: prop_get_def)
  next
    case False
    then have "map_of r k = None" "map_of r' k = None"
      using assms(3,4) by (simp_all add: map_of_eq_None_iff)
    then show ?thesis by simp
  qed
  then show ?thesis using assms(1,2) canon_obj_eq json_present by auto
qed

lemma leaves_determine:
  "fits fs row \<Longrightarrow> fits fs row' \<Longrightarrow> json_value (Obj row) \<Longrightarrow> json_value (Obj row') \<Longrightarrow>
     map canon (collectRowLeaves row fs) = map canon (collectRowLeaves row' fs) \<Longrightarrow>
     \<forall>f \<in> set fs. canon (prop_get row (fname f)) = canon (prop_get row' (fname f))"
  "field_fits f v \<Longrightarrow> field_fits f v' \<Longrightarrow> json_value v \<Longrightarrow> json_value v' \<Longrightarrow>
     map canon (field_leaves v f) = map canon (field_leaves v' f) \<Longrightarrow> canon v = canon v'"
proof (induction fs row and f v arbitrary: row' and v' rule: fits_field_fits.induct)
  case (2 f fs row)
  let ?v = "prop_get row (fname f)" and ?v' = "prop_get row' (fname f)"
  have fit: "field_fits f ?v" "field_fits f ?v'" "fits fs row" "fits fs row'" using 2 by simp_all
  have j: "json_value ?v" "json_value ?v'" using 2 by (auto intro: json_prop_get)
  have "map canon (field_leaves ?v f) @ map canon (collectRowLeaves row fs)
      = map canon (field_leaves ?v' f) @ map canon (collectRowLeaves row' fs)" using 2 by simp
  then have "map canon (field_leaves ?v f) = map canon (field_leaves ?v' f)"
      "map canon (collectRowLeaves row fs) = map canon (collectRowLeaves row' fs)"
    using leaves_length(2) [OF fit(1,2)] by simp_all
  with 2(1) [OF fit(1,2) j] 2(2) [OF fit(3,4) 2(5,6)] show ?case by simp
next
  case (4 name cs v)
  obtain ps ps' where v: "v = Obj ps" "v' = Obj ps'" using 4 by (cases v; cases v') simp_all
  have f: "fits cs ps" "fits cs ps'" "fst ` set ps \<subseteq> fname ` set cs" "fst ` set ps' \<subseteq> fname ` set cs"
    using 4 v by simp_all
  with fits_keys have k: "fst ` set ps = fname ` set cs" "fst ` set ps' = fname ` set cs" by blast+
  have "map canon (collectRowLeaves ps cs) = map canon (collectRowLeaves ps' cs)" using 4 v by simp
  with 4(1) [of ps'] f v 4(4,5)
  have "\<forall>f \<in> set cs. canon (prop_get ps (fname f)) = canon (prop_get ps' (fname f))" by simp
  with rows_canon_eq [OF _ _ k] 4(4,5) v show ?case by simp
qed auto

section \<open>Properties\<close>

lemma encodeJsonValue_returns: "json_value v \<Longrightarrow> returns (encodeJsonValue v 0) \<longleftrightarrow> utf16_ok v"
proof (cases v)
  case (Obj ps)
  assume j: "json_value v"
  show ?thesis
  proof (cases "extractKeyedTabularFields ps")
    case None
    with Obj encoder_returns(1) [of ps 0] j show ?thesis by (simp add: encodeJsonValue_def)
  next
    case (Some fs)
    with entries_return [OF Some, of "Suc 0"] j Obj show ?thesis
      by (auto simp: encodeJsonValue_def encodeKeyedObjectLines_def header_returns)
  qed
next
  case (Arr vs)
  assume "json_value v"
  with Arr encoder_returns(3) [of vs None 0] show ?thesis by (simp add: encodeJsonValue_def)
next
  case (Str s)
  then show ?thesis
    by (simp add: encodeJsonValue_def encodeStringLiteral_def assertNoLoneSurrogate_def)
qed (simp_all add: encodeJsonValue_def)

text \<open>
  A JSON value can be encoded exactly when every string in it, keys included, is well-formed UTF-16:
  no other value makes the encoder throw, whatever tables it tries, and a lone surrogate anywhere always
  does (the caller then falls back to JSON).
\<close>

theorem toon_encodes_exactly_utf16:
  assumes "json_value v"
  shows "(\<exists>t. encodeToon v = Inr t) \<longleftrightarrow> utf16_ok v"
  using encodeJsonValue_returns [OF assms]
  by (cases "encodeJsonValue v 0") (simp_all add: encodeToon_def)

theorem toon_encodes_exactly_utf16_witness:
  "\<nexists>t. encodeToon (Arr [Obj [(js ''a'', Str [55296])], Obj [(js ''a'', Null)]]) = Inr t"
  using toon_encodes_exactly_utf16 [of "Arr [Obj [(js ''a'', Str [55296])], Obj [(js ''a'', Null)]]"]
  by (simp add: is_high_surrogate_def)

lemma encodeJsonValue_clean: "yields (list_all clean) (encodeJsonValue v 0)"
proof (cases "isPrimitive v")
  case True
  then show ?thesis
    unfolding encodeJsonValue_def by (auto intro!: yields_bind [OF encodePrimitive_clean])
next
  case False
  then show ?thesis
    by (cases v) (auto simp: encodeJsonValue_def encoder_clean keyed_clean split: option.split)
qed

lemma count_newlines: "\<forall>l \<in> set ls. 10 \<notin> set l \<Longrightarrow> count_list (js_join [10] ls) 10 = length ls - 1"
proof (induction "[10::nat]" ls rule: js_join.induct)
  case (3 x y zs)
  then have "count_list x 10 = 0" by (simp add: count_list_0_iff)
  with 3 show ?case by simp
qed simp_all

text \<open>
  (C36) Data cannot forge structure: every line that the encoder emits is free of control characters, so
  that the newlines of the text are exactly the ones between its lines, whatever the strings and keys of
  the value hold.
\<close>

theorem toon_lines_unforgeable:
  assumes "encodeToon v = Inr t"
  shows "\<exists>ls. encodeJsonValue v 0 = Inr ls \<and> t = js_join [10] ls \<and>
    (\<forall>l \<in> set ls. \<forall>c \<in> set l. 32 \<le> c) \<and> count_list t 10 = length ls - 1"
proof -
  obtain ls where ls: "encodeJsonValue v 0 = Inr ls" "t = js_join [10] ls"
    using assms by (auto simp: encodeToon_def js_bind_Inr)
  have c: "\<forall>l \<in> set ls. \<forall>c \<in> set l. 32 \<le> c"
    using encodeJsonValue_clean [of v] ls(1) by (simp add: list_all_iff clean_def)
  then have "\<forall>l \<in> set ls. 10 \<notin> set l" by fastforce
  with ls c count_newlines [of ls] show ?thesis by blast
qed

theorem toon_lines_unforgeable_witness:
  "\<exists>ls. encodeJsonValue (Str [97, 10, 98]) 0 = Inr ls \<and> (\<forall>l \<in> set ls. \<forall>c \<in> set l. 32 \<le> c)"
proof -
  have "\<exists>t. encodeToon (Str [97, 10, 98]) = Inr t"
    by (simp add: encodeToon_def encodeJsonValue_def encodeStringLiteral_def assertNoLoneSurrogate_def
        is_high_surrogate_def is_low_surrogate_def)
  then show ?thesis using toon_lines_unforgeable by blast
qed

text \<open>
  Cells read back: a row of primitives, as a table line or an inline array prints it, is read back
  cell by cell, with numbers, the three words and strings told apart and the quoting undone (only the
  sign of a zero is lost).
\<close>

theorem toon_cells_roundtrip:
  assumes "list_all isPrimitive vs" "list_all json_value vs" "encodeAndJoinPrimitives vs = Inr t"
  shows "read_row (length vs) t = Some (map canon vs, [])"
  using read_row_cells [OF joined_cells(2) [OF assms]] joined_cells(1) [OF assms] by simp

theorem toon_cells_roundtrip_witness:
  "\<exists>t. encodeAndJoinPrimitives [Str (js ''null''), Null, Num (Fin False 12 0), Str (js ''12''), Str (js ''a,b'')] = Inr t
     \<and> read_row 5 t = Some ([Str (js ''null''), Null, Num (Fin False 12 0), Str (js ''12''), Str (js ''a,b'')], [])"
proof -
  let ?vs = "[Str (js ''null''), Null, Num (Fin False 12 0), Str (js ''12''), Str (js ''a,b'')]"
  have p: "list_all isPrimitive ?vs" "list_all json_value ?vs" by (simp_all add: wf_num_def)
  have "list_all utf16_ok ?vs" by (simp add: js_def is_high_surrogate_def is_low_surrogate_def)
  with joined_returns [OF p(1)] obtain t where t: "encodeAndJoinPrimitives ?vs = Inr t"
    unfolding returns_Inr by blast
  have "map canon ?vs = ?vs" "length ?vs = 5" by (simp_all add: norm_num_def)
  with toon_cells_roundtrip [OF p t] t show ?thesis by metis
qed

text \<open>
  Tables lose nothing: when the encoder chooses the table form for some objects, two of them that
  print the same line are the same object up to the order of keys, nested objects included.
\<close>

theorem table_line_identifies_row:
  assumes "extractTabularFields rows = Some fs" "\<forall>row \<in> set rows. json_value (Obj row)"
    and "r \<in> set rows" "r' \<in> set rows"
    and "encodeAndJoinPrimitives (collectRowLeaves r fs) = Inr t"
    and "encodeAndJoinPrimitives (collectRowLeaves r' fs) = Inr t"
  shows "canon (Obj r) = canon (Obj r')"
proof -
  have all: "\<forall>row \<in> set rows. fst ` set row \<subseteq> fname ` set fs \<and> fits fs row"
    using extract_fits(1) [OF assms(1,2)] by (rule conjunct2)
  have fit: "fits fs r" "fits fs r'" using bspec [OF all assms(3)] bspec [OF all assms(4)] by simp_all
  have keys: "fst ` set r = fname ` set fs" "fst ` set r' = fname ` set fs"
    using bspec [OF all assms(3)] bspec [OF all assms(4)] fits_keys [OF fit(1)] fits_keys [OF fit(2)]
    by (simp_all add: subset_antisym)
  have j: "json_value (Obj r)" "json_value (Obj r')"
    using bspec [OF assms(2,3)] bspec [OF assms(2,4)] by simp_all
  note l = leaves_json(1) [OF fit(1) j(1)] leaves_json(1) [OF fit(2) j(2)]
  have "read_row (length (collectRowLeaves r fs)) t = Some (map canon (collectRowLeaves r fs), [])"
    using read_row_cells [OF joined_cells(2) [OF fits_leaves(1) [OF fit(1)] l(1) assms(5)]]
      joined_cells(1) [OF fits_leaves(1) [OF fit(1)] l(1) assms(5)] by simp
  moreover have "read_row (length (collectRowLeaves r' fs)) t = Some (map canon (collectRowLeaves r' fs), [])"
    using read_row_cells [OF joined_cells(2) [OF fits_leaves(1) [OF fit(2)] l(2) assms(6)]]
      joined_cells(1) [OF fits_leaves(1) [OF fit(2)] l(2) assms(6)] by simp
  ultimately have "map canon (collectRowLeaves r fs) = map canon (collectRowLeaves r' fs)"
    using leaves_length(1) [OF fit(1,2)] by simp
  from rows_canon_eq [OF j keys leaves_determine(1) [OF fit(1,2) j this]] show ?thesis .
qed

theorem table_line_identifies_row_witness:
  "canon (Obj [(js ''a'', Null), (js ''b'', Bool True)]) = canon (Obj [(js ''b'', Bool True), (js ''a'', Null)])"
proof -
  let ?r = "[(js ''a'', Null), (js ''b'', Bool True)]" and ?r' = "[(js ''b'', Bool True), (js ''a'', Null)]"
  let ?fs = "[ToonField (js ''a'') None, ToonField (js ''b'') None]"
  have e: "extractTabularFields [?r, ?r'] = Some ?fs"
    by (simp add: extractTabularFields.simps fields_from.simps classifyColumn.simps same_keys_def)
  obtain t where t: "encodeAndJoinPrimitives [Null, Bool True] = Inr t"
    by (simp add: encodeAndJoinPrimitives_def)
  show ?thesis
    by (rule table_line_identifies_row [OF e, where t = t]) (use t in simp_all)
qed

end
