(* ===== verification/Result_Serializer.thy ===== *)
theory Result_Serializer
  imports Toon_Cells Secret_Values
begin

text \<open>
  Structured tool results (\<open>src/utils/result-serializer.ts\<close>): the sanitized data goes through JSON and
  back, and the text block beside it is the JSON text or, when TOON is configured, the value is within
  the encoder's bounds and the encoder does not throw, the TOON text. The set of fallback reasons
  already logged is threaded through. \<open>JSON.stringify\<close> and \<open>JSON.parse\<close> are modelled on values.
\<close>

section \<open>JSON and back\<close>

text \<open>
  \<open>json_clean v\<close> is \<open>JSON.parse(JSON.stringify(v))\<close>: undefined members are dropped, undefined elements and
  numbers that are not finite become null, and the negative zero loses its sign.
\<close>

fun json_clean :: "jsval \<Rightarrow> jsval" where
  "json_clean Undefined = Null"
| "json_clean Null = Null"
| "json_clean (Bool b) = Bool b"
| "json_clean (Num n) = (case n of Fin neg s e \<Rightarrow> Num (norm_num n) | _ \<Rightarrow> Null)"
| "json_clean (Str s) = Str s"
| "json_clean (Arr vs) = Arr (map json_clean vs)"
| "json_clean (Obj ps) = Obj (map (\<lambda>(k, v). (k, json_clean v)) (filter (\<lambda>(k, v). v \<noteq> Undefined) ps))"

text \<open>\<open>JSON.stringify(v)\<close>, which is undefined for undefined.\<close>

definition json_stringify :: "jsval \<Rightarrow> jsstring option" where
  "json_stringify v = (if v = Undefined then None else Some (plain_print (json_clean v)))"

fun distinct_keys :: "jsval \<Rightarrow> bool" where
  "distinct_keys (Arr vs) = (\<forall>v \<in> set vs. distinct_keys v)"
| "distinct_keys (Obj ps) = (distinct (map fst ps) \<and> (\<forall>p \<in> set ps. distinct_keys (snd p)))"
| "distinct_keys v = True"

lemma json_value_clean: "wf_val v \<Longrightarrow> distinct_keys v \<Longrightarrow> json_value (json_clean v)"
proof (induction v rule: json_clean.induct)
  case (4 n)
  then show ?case by (cases n) (auto simp: norm_num_def wf_num_def)
next
  case (7 ps)
  let ?qs = "filter (\<lambda>(k, v). v \<noteq> Undefined) ps"
  have "map fst (map (\<lambda>(k, v). (k, json_clean v)) ?qs) = map fst ?qs"
    by (simp add: case_prod_unfold comp_def)
  moreover have "distinct (map fst ?qs)" using 7(3) by (simp add: distinct_map_filter)
  moreover have "json_value (json_clean v)" if "(k, v) \<in> set ?qs" for k v
    using 7 that by fastforce
  ultimately show ?case by (auto simp del: map_map)
qed auto

section \<open>Output format\<close>

datatype output_format = FormatJson | FormatToon

definition DEFAULT_MCP_OUTPUT_FORMAT :: output_format where
  "DEFAULT_MCP_OUTPUT_FORMAT = FormatJson"

definition parseMcpOutputFormat :: "jsstring option \<Rightarrow> js_throw + output_format" where
  "parseMcpOutputFormat raw =
     (case raw of
        None \<Rightarrow> Inr DEFAULT_MCP_OUTPUT_FORMAT
      | Some s \<Rightarrow>
          if js_trim s = [] then Inr DEFAULT_MCP_OUTPUT_FORMAT
          else
            (let normalized = ascii_lower (js_trim s) in
             if normalized = js ''toon'' then Inr FormatToon
             else if normalized = js ''json'' then Inr FormatJson
             else Inl (ThrownError (js ''Invalid B2_MCP_OUTPUT_FORMAT. Expected \"json\" or \"toon\".''))))"

definition preflightMcpOutputFormat :: "output_format \<Rightarrow> js_throw + unit" where
  "preflightMcpOutputFormat format =
     (if format \<noteq> FormatToon then Inr ()
      else js_bind (encodeToon (Obj [(js ''ok'', Bool True)])) (\<lambda>t.
        if t \<noteq> js ''ok: true'' then Inl (ThrownError (js ''TOON serializer preflight failed'')) else Inr ()))"

definition currentMcpOutputFormat :: "output_format option \<Rightarrow> output_format" where
  "currentMcpOutputFormat store = (case store of None \<Rightarrow> DEFAULT_MCP_OUTPUT_FORMAT | Some f \<Rightarrow> f)"

section \<open>The bounds of the encoder\<close>

definition MAX_TOON_INPUT_JSON_CHARS :: nat where "MAX_TOON_INPUT_JSON_CHARS = 200000"
definition MAX_TOON_INPUT_DEPTH :: nat where "MAX_TOON_INPUT_DEPTH = 64"
definition MAX_TOON_INPUT_NODES :: nat where "MAX_TOON_INPUT_NODES = 50000"

fun json_children :: "jsval \<Rightarrow> jsval list" where
  "json_children (Arr vs) = vs"
| "json_children (Obj ps) = map snd ps"
| "json_children v = []"

text \<open>
  The walk with an explicit stack, whose head is the top: popping takes the head, and pushing the
  children one after the other leaves them in reverse order on top.
\<close>

lemma size_children: "sum_list (map (\<lambda>v. Suc (size v)) (json_children v)) \<le> size v"
proof (cases v)
  case (Arr vs)
  then show ?thesis by (induction vs arbitrary: v) simp_all
next
  case (Obj ps)
  then show ?thesis
  proof (induction ps arbitrary: v)
    case (Cons p ps)
    then show ?case by (cases p) simp
  qed simp
qed simp_all

function within_walk :: "nat \<Rightarrow> (jsval \<times> nat) list \<Rightarrow> bool" where
  "within_walk nodes [] = True"
| "within_walk nodes ((v, depth) # stack) =
     (if Suc nodes > MAX_TOON_INPUT_NODES \<or> depth > MAX_TOON_INPUT_DEPTH then False
      else within_walk (Suc nodes) (rev (map (\<lambda>c. (c, Suc depth)) (json_children v)) @ stack))"
  by pat_completeness auto
termination
proof (relation "measure (\<lambda>(nodes, stack). sum_list (map (\<lambda>(v, d). Suc (size v)) stack))", goal_cases)
  case (2 nodes v depth stack)
  have "map (\<lambda>(v, d). Suc (size v)) (rev (map (\<lambda>c. (c, Suc depth)) (json_children v)))
      = rev (map (\<lambda>v. Suc (size v)) (json_children v))"
    by (simp add: rev_map comp_def)
  then have "sum_list (map (\<lambda>(v, d). Suc (size v)) (rev (map (\<lambda>c. (c, Suc depth)) (json_children v))))
      \<le> size v"
    using size_children [of v] by (simp only: sum_list_rev)
  then show ?case by simp
qed simp

definition withinToonEncodingBounds :: "jsval \<Rightarrow> jsstring \<Rightarrow> bool" where
  "withinToonEncodingBounds v jsonText =
     (if length jsonText > MAX_TOON_INPUT_JSON_CHARS then False else within_walk 0 [(v, 0)])"

section \<open>The text block\<close>

datatype fallback_reason = Bounds | EncodeError

text \<open>The warnings logged so far, in order: a reason is logged once.\<close>

definition logToonFallback :: "fallback_reason \<Rightarrow> fallback_reason list \<Rightarrow> fallback_reason list" where
  "logToonFallback reason logged = (if reason \<in> set logged then logged else logged @ [reason])"

definition serializeStructuredText ::
  "jsval \<Rightarrow> jsstring \<Rightarrow> output_format \<Rightarrow> fallback_reason list \<Rightarrow> jsstring \<times> fallback_reason list" where
  "serializeStructuredText v jsonText format logged =
     (if format = FormatJson then (jsonText, logged)
      else if \<not> withinToonEncodingBounds v jsonText then (jsonText, logToonFallback Bounds logged)
      else (case encodeToon v of
          Inl e \<Rightarrow> (jsonText, logToonFallback EncodeError logged)
        | Inr t \<Rightarrow> (if t = [] \<and> v = Obj [] then js ''{}'' else t, logged)))"

record tool_result =
  content_text :: jsstring
  structured_content :: jsval

definition json_roundtrip_or_throw :: "jsval \<Rightarrow> js_throw + (jsval \<times> jsstring)" where
  "json_roundtrip_or_throw data =
     (case json_stringify data of
        None \<Rightarrow> Inl TypeError
      | Some json \<Rightarrow> Inr (json_clean data, json))"

definition serializeUnsanitizedStructuredToolResult ::
  "jsval \<Rightarrow> output_format \<Rightarrow> fallback_reason list \<Rightarrow> js_throw + (tool_result \<times> fallback_reason list)" where
  "serializeUnsanitizedStructuredToolResult data format logged =
     js_bind (json_roundtrip_or_throw data) (\<lambda>(structured, json).
       (let (txt, logged') = serializeStructuredText structured json format logged in
        Inr (\<lparr>content_text = txt, structured_content = structured\<rparr>, logged')))"

text \<open>
  What JSON sees of a sanitized value: functions vanish, a date gives its ISO text or null, an array is
  read by its indexes, and a buffer gives what its \<open>toJSON\<close> makes of its bytes, a parameter here as
  the bytes are not in the heap model. Error results occur in log mode only.
\<close>

fun sval_json :: "(nat \<Rightarrow> jsval) \<Rightarrow> obj_heap \<Rightarrow> sval \<Rightarrow> jsval" where
  "sval_json buf h SUndef = Undefined"
| "sval_json buf h SNull = Null"
| "sval_json buf h (SBool b) = Bool b"
| "sval_json buf h (SNum n) = Num n"
| "sval_json buf h (SStr s) = Str s"
| "sval_json buf h (SSame v) =
     (case v of
        HRef a \<Rightarrow> (case okind (h ! a) of
            DateObj (Some t) \<Rightarrow> Str t
          | DateObj None \<Rightarrow> Null
          | BufferObj len \<Rightarrow> buf a
          | _ \<Rightarrow> Undefined)
      | _ \<Rightarrow> Undefined)"
| "sval_json buf h (SArr len out) =
     (let ps = map (\<lambda>(k, s). (k, sval_json buf h s)) out in
      Arr (map (\<lambda>i. prop_get ps (decimal i)) [0..<len]))"
| "sval_json buf h (SObj out) = Obj (map (\<lambda>(k, s). (k, sval_json buf h s)) out)"
| "sval_json buf h (SErr m n st out) = Obj (map (\<lambda>(k, s). (k, sval_json buf h s)) out)"

definition sanitizeJsonCompatible ::
  "(nat \<Rightarrow> jsval) \<Rightarrow> jsprops \<Rightarrow> sanitizer_options \<Rightarrow> obj_heap \<Rightarrow> hval \<Rightarrow> js_throw + jsval" where
  "sanitizeJsonCompatible buf penv opts h data =
     (case sanitizeForMcpOutput penv opts h data of
        None \<Rightarrow> Inl RangeError
      | Some sanitized \<Rightarrow> js_bind (json_roundtrip_or_throw (sval_json buf h sanitized)) (\<lambda>(v, json). Inr v))"

definition serializeStructuredToolResult ::
  "(nat \<Rightarrow> jsval) \<Rightarrow> jsprops \<Rightarrow> sanitizer_options \<Rightarrow> obj_heap \<Rightarrow> hval \<Rightarrow> output_format \<Rightarrow>
     fallback_reason list \<Rightarrow> js_throw + (tool_result \<times> fallback_reason list)" where
  "serializeStructuredToolResult buf penv opts h data format logged =
     js_bind (sanitizeJsonCompatible buf penv opts h data) (\<lambda>structured.
       (let jsonText = plain_print (json_clean structured);
            (txt, logged') = serializeStructuredText structured jsonText format logged in
        Inr (\<lparr>content_text = txt, structured_content = structured\<rparr>, logged')))"

section \<open>Properties\<close>

text \<open>The number of nodes of a value and the depth of its deepest node.\<close>

fun json_nodes :: "jsval \<Rightarrow> nat" where
  "json_nodes (Arr vs) = Suc (sum_list (map json_nodes vs))"
| "json_nodes (Obj ps) = Suc (sum_list (map (\<lambda>(k, v). json_nodes v) ps))"
| "json_nodes v = 1"

fun json_height :: "jsval \<Rightarrow> nat" where
  "json_height (Arr vs) = foldr max (map (\<lambda>v. Suc (json_height v)) vs) 0"
| "json_height (Obj ps) = foldr max (map (\<lambda>(k, v). Suc (json_height v)) ps) 0"
| "json_height v = 0"

lemma json_nodes_children: "json_nodes v = Suc (sum_list (map json_nodes (json_children v)))"
  by (cases v) (simp_all add: comp_def case_prod_unfold)

lemma foldr_max_le: "foldr max ns (0::nat) \<le> m \<longleftrightarrow> (\<forall>n \<in> set ns. n \<le> m)"
  by (induction ns) auto

lemma json_height_children:
  "d + json_height v \<le> m \<longleftrightarrow> d \<le> m \<and> (\<forall>c \<in> set (json_children v). Suc d + json_height c \<le> m)"
proof -
  have "json_height v = foldr max (map (\<lambda>c. Suc (json_height c)) (json_children v)) 0"
    by (cases v) (simp_all add: comp_def case_prod_unfold)
  moreover have "d + foldr max ns 0 \<le> m \<longleftrightarrow> d \<le> m \<and> (\<forall>n \<in> set ns. d + n \<le> m)" for ns
    using foldr_max_le [of ns "m - d"] by fastforce
  ultimately show ?thesis by simp
qed

lemma within_walk_iff:
  "n \<le> MAX_TOON_INPUT_NODES \<Longrightarrow>
     within_walk n stack \<longleftrightarrow>
       n + sum_list (map (\<lambda>p. json_nodes (fst p)) stack) \<le> MAX_TOON_INPUT_NODES \<and>
       (\<forall>p \<in> set stack. snd p + json_height (fst p) \<le> MAX_TOON_INPUT_DEPTH)"
proof (induction n stack rule: within_walk.induct)
  case (2 nodes v depth stack)
  let ?cs = "map (\<lambda>c. (c, Suc depth)) (json_children v)"
  have "map (\<lambda>p. json_nodes (fst p)) (rev ?cs) = rev (map json_nodes (json_children v))"
    by (simp add: rev_map comp_def)
  then have sum: "sum_list (map (\<lambda>p. json_nodes (fst p)) (rev ?cs @ stack))
      = sum_list (map json_nodes (json_children v)) + sum_list (map (\<lambda>p. json_nodes (fst p)) stack)"
    by (simp only: map_append sum_list_append sum_list_rev)
  show ?case
  proof (cases "Suc nodes > MAX_TOON_INPUT_NODES \<or> depth > MAX_TOON_INPUT_DEPTH")
    case True
    then show ?thesis using json_nodes_children [of v] by auto
  next
    case False
    have h: "depth + json_height v \<le> MAX_TOON_INPUT_DEPTH \<longleftrightarrow>
        (\<forall>c \<in> set (json_children v). Suc depth + json_height c \<le> MAX_TOON_INPUT_DEPTH)"
      using False json_height_children [of depth v] by simp
    have w: "within_walk nodes ((v, depth) # stack) = within_walk (Suc nodes) (rev ?cs @ stack)"
      using False by simp
    have n: "Suc nodes \<le> MAX_TOON_INPUT_NODES" using False by simp
    show ?thesis
      unfolding w "2.IH" [OF False n] sum using h json_nodes_children [of v] by (simp add: ball_Un)
  qed
qed simp

lemma within_bounds_iff:
  "withinToonEncodingBounds v jsonText \<longleftrightarrow>
     length jsonText \<le> 200000 \<and> json_nodes v \<le> 50000 \<and> json_height v \<le> 64"
  using within_walk_iff [of 0 "[(v, 0)]"]
  by (simp add: withinToonEncodingBounds_def MAX_TOON_INPUT_JSON_CHARS_def MAX_TOON_INPUT_NODES_def
      MAX_TOON_INPUT_DEPTH_def not_less)

text \<open>
  The bounds check, a walk with an explicit stack, is exactly the specification: the JSON text has at
  most 200000 units, the value at most 50000 nodes, and no node is deeper than 64.
\<close>

theorem toon_bounds_exact:
  "withinToonEncodingBounds v jsonText \<longleftrightarrow>
     length jsonText \<le> 200000 \<and> json_nodes v \<le> 50000 \<and> json_height v \<le> 64"
  by (rule within_bounds_iff)

lemma clean_twice: "wf_val v \<Longrightarrow> json_clean (json_clean v) = json_clean v"
proof (induction v rule: json_clean.induct)
  case (4 n)
  then show ?case by (cases n) (simp_all add: norm_num_def)
next
  case (7 ps)
  have "json_clean v \<noteq> Undefined" for v by (cases v) (simp_all split: jsnum.split)
  moreover have "json_clean (json_clean v) = json_clean v" if "(k, v) \<in> set ps" "v \<noteq> Undefined" for k v
    using 7 that by fastforce
  ultimately show ?case by (auto simp: filter_id_conv)
qed simp_all

text \<open>
  A structured result is always produced from data that JSON can represent: the call succeeds exactly
  when the data is not undefined, the structured content is a JSON value, and the text block is its JSON
  text, the word for an empty object, or, only under TOON, within the bounds and with well-formed strings
  throughout, its TOON text. A warning is logged at most once for each reason.
\<close>

theorem structured_result_total:
  assumes "wf_val data" "distinct_keys data" "distinct logged"
  shows "(data = Undefined \<and> serializeUnsanitizedStructuredToolResult data format logged = Inl TypeError) \<or>
    (data \<noteq> Undefined \<and> (\<exists>r logged'.
       serializeUnsanitizedStructuredToolResult data format logged = Inr (r, logged') \<and>
       json_value (structured_content r) \<and> distinct logged' \<and>
       (let v = structured_content r; json = plain_print v;
            toon = (format = FormatToon \<and> length json \<le> 200000 \<and> json_nodes v \<le> 50000 \<and>
                    json_height v \<le> 64 \<and> utf16_ok v) in
        (\<not> toon \<longrightarrow> content_text r = json) \<and>
        (toon \<longrightarrow> (if v = Obj [] then content_text r = js ''{}'' else encodeToon v = Inr (content_text r))))))"
proof (cases "data = Undefined")
  case True
  then show ?thesis
    by (simp add: serializeUnsanitizedStructuredToolResult_def json_roundtrip_or_throw_def json_stringify_def)
next
  case False
  let ?v = "json_clean data"
  let ?json = "plain_print ?v"
  have j: "json_value ?v" using json_value_clean assms by blast
  have run: "serializeUnsanitizedStructuredToolResult data format logged
      = Inr (\<lparr>content_text = fst (serializeStructuredText ?v ?json format logged), structured_content = ?v\<rparr>,
             snd (serializeStructuredText ?v ?json format logged))"
    using False
    by (simp add: serializeUnsanitizedStructuredToolResult_def json_roundtrip_or_throw_def json_stringify_def
        case_prod_unfold Let_def)
  have enc: "(\<exists>t. encodeToon ?v = Inr t) \<longleftrightarrow> utf16_ok ?v"
    using encodeJsonValue_returns [OF j] by (cases "encodeJsonValue ?v 0") (simp_all add: encodeToon_def)
  have empty: "encodeToon (Obj []) = Inr []"
    by (simp add: encodeToon_def encodeJsonValue_def extractKeyedTabularFields_def encodeObjectLines.simps)
  have d: "distinct (snd (serializeStructuredText ?v ?json format logged))"
    using assms(3) by (auto simp: serializeStructuredText_def logToonFallback_def split: sum.split)
  have t: "fst (serializeStructuredText ?v ?json format logged) =
      (if format = FormatToon \<and> length ?json \<le> 200000 \<and> json_nodes ?v \<le> 50000 \<and> json_height ?v \<le> 64 \<and> utf16_ok ?v
       then (case encodeToon ?v of Inl e \<Rightarrow> ?json | Inr t \<Rightarrow> if t = [] \<and> ?v = Obj [] then js ''{}'' else t)
       else ?json)"
    using enc within_bounds_iff [of ?v ?json]
    by (cases format; cases "encodeToon ?v") (auto simp: serializeStructuredText_def)
  show ?thesis
  proof (rule disjI2, intro conjI exI)
    show "data \<noteq> Undefined" by (rule False)
    show "serializeUnsanitizedStructuredToolResult data format logged
      = Inr (\<lparr>content_text = fst (serializeStructuredText ?v ?json format logged), structured_content = ?v\<rparr>,
             snd (serializeStructuredText ?v ?json format logged))" by (rule run)
    show "distinct (snd (serializeStructuredText ?v ?json format logged))" by (rule d)
  qed (use t enc empty j in \<open>auto simp: Let_def\<close>)
qed

theorem structured_result_total_witness:
  "\<exists>r. serializeUnsanitizedStructuredToolResult (Obj [(js ''a'', Undefined)]) FormatToon [] = Inr (r, [])
     \<and> content_text r = js ''{}''"
proof -
  have "wf_val (Obj [(js ''a'', Undefined)])" "distinct_keys (Obj [(js ''a'', Undefined)])" "distinct []"
    by simp_all
  from structured_result_total [OF this, of FormatToon]
  obtain r logged' where r: "serializeUnsanitizedStructuredToolResult (Obj [(js ''a'', Undefined)]) FormatToon [] = Inr (r, logged')"
    by auto
  then have "r = \<lparr>content_text = js ''{}'', structured_content = Obj []\<rparr> \<and> logged' = []"
    by (simp add: serializeUnsanitizedStructuredToolResult_def json_roundtrip_or_throw_def json_stringify_def
        serializeStructuredText_def within_bounds_iff encodeToon_def encodeJsonValue_def
        extractKeyedTabularFields_def encodeObjectLines.simps)
  with r show ?thesis by simp
qed

end
