(* ===== verification/Elicitation_Prompt.thy ===== *)
theory Elicitation_Prompt
  imports Secret_Patterns Json_Text
begin

text \<open>
  The text of the approval prompt (\<open>src/utils/destructive-elicitation.ts\<close>): a human sees the tool, the
  effect and details of the target taken from the call's arguments, each one sanitized, put on one
  line and cut to 120 units. The arguments come from the model, so what matters is that they can
  neither smuggle a configured secret into the prompt nor break out of their line.
\<close>

section \<open>One value\<close>

text \<open>\<open>text.replace(/\s+/g, " ")\<close>\<close>

function collapse_space :: "jsstring \<Rightarrow> jsstring" where
  "collapse_space [] = []"
| "collapse_space (c # cs) =
     (if js_space c then 32 # collapse_space (dropWhile js_space cs) else c # collapse_space cs)"
  by pat_completeness auto
termination
  by (relation "measure length") (auto simp: less_Suc_eq_le length_dropWhile_le)

fun primitive_text :: "jsval \<Rightarrow> jsstring option" where
  "primitive_text (Str s) = Some s"
| "primitive_text (Num n) = Some (number_text n)"
| "primitive_text (Bool b) = Some (if b then js ''true'' else js ''false'')"
| "primitive_text v = None"

definition safePromptValue :: "jsprops \<Rightarrow> sanitizer_options \<Rightarrow> jsval \<Rightarrow> jsstring option" where
  "safePromptValue penv opts v =
     (case primitive_text v of
        None \<Rightarrow> None
      | Some raw \<Rightarrow>
          (let t = js_trim (collapse_space (sanitizeText penv raw opts)) in
           if t = [] then None
           else if js_includes t REDACTED then Some REDACTED
           else Some (if length t > 120 then take 117 t @ js ''...'' else t)))"

definition promptDetail :: "jsprops \<Rightarrow> sanitizer_options \<Rightarrow> jsstring \<Rightarrow> jsval \<Rightarrow> jsstring list" where
  "promptDetail penv opts label v =
     (case safePromptValue penv opts v of None \<Rightarrow> [] | Some safe \<Rightarrow> [label @ js '': '' @ safe @ js ''.''])"

definition PROMPT_TARGET_DETAIL_LIMIT :: nat where "PROMPT_TARGET_DETAIL_LIMIT = 5"

definition promptListDetail :: "jsprops \<Rightarrow> sanitizer_options \<Rightarrow> jsstring \<Rightarrow> jsval \<Rightarrow> jsstring list" where
  "promptListDetail penv opts label v =
     (case v of
        Arr vs \<Rightarrow>
          (let safeValues = List.map_filter (safePromptValue penv opts) (take PROMPT_TARGET_DETAIL_LIMIT vs) in
           if safeValues = [] then []
           else
             (let omitted = length vs - length safeValues;
                  suf = (if omitted > 0 then js '', +'' @ decimal omitted @ js '' more'' else [])
              in [label @ js '': '' @ js_join (js '', '') safeValues @ suf @ js ''.'']))
      | _ \<Rightarrow> [])"

definition promptTruncationDetail :: "jsstring \<Rightarrow> nat \<Rightarrow> jsstring list" where
  "promptTruncationDetail label count =
     (if count > PROMPT_TARGET_DETAIL_LIMIT
      then [js ''Additional '' @ label @ js '': '' @ decimal (count - PROMPT_TARGET_DETAIL_LIMIT) @ js ''.'']
      else [])"

section \<open>Records in the arguments\<close>

fun objectRecord :: "jsval \<Rightarrow> jsprops option" where
  "objectRecord (Obj ps) = Some ps"
| "objectRecord v = None"

fun recordValue :: "jsprops \<Rightarrow> jsstring list \<Rightarrow> jsval" where
  "recordValue r [] = Undefined"
| "recordValue r (key # keys) = (if \<not> nullish (prop_get r key) then prop_get r key else recordValue r keys)"

definition recordObject :: "jsprops \<Rightarrow> jsstring list \<Rightarrow> jsprops option" where
  "recordObject r keys = objectRecord (recordValue r keys)"

definition value_in :: "jsprops option \<Rightarrow> jsstring list \<Rightarrow> jsval" where
  "value_in r keys = (case r of None \<Rightarrow> Undefined | Some ps \<Rightarrow> recordValue ps keys)"

text \<open>\<open>value.slice(0, 5).flatMap((item, index) => ...)\<close> over the elements that are plain objects.\<close>

definition record_details :: "jsval list \<Rightarrow> (nat \<Rightarrow> jsprops \<Rightarrow> jsstring list) \<Rightarrow> jsstring list" where
  "record_details vs f =
     concat (map (\<lambda>(i, item). case objectRecord item of None \<Rightarrow> [] | Some r \<Rightarrow> f (Suc i) r)
       (enumerate 0 (take PROMPT_TARGET_DETAIL_LIMIT vs)))"

definition bulkObjectTargetDetails :: "jsprops \<Rightarrow> sanitizer_options \<Rightarrow> jsval \<Rightarrow> jsstring list" where
  "bulkObjectTargetDetails penv opts v =
     (case v of
        Arr vs \<Rightarrow>
          record_details vs (\<lambda>i r.
            (let pre = js ''Object '' @ decimal i in
             promptDetail penv opts (pre @ js '' key'') (recordValue r [js ''key'', js ''Key'']) @
             promptDetail penv opts (pre @ js '' version ID'')
               (recordValue r [js ''versionId'', js ''VersionId'']))) @
          promptTruncationDetail (js ''object targets'') (length vs)
      | _ \<Rightarrow> [])"

definition lifecycleRuleTargetDetails :: "jsprops \<Rightarrow> sanitizer_options \<Rightarrow> jsval \<Rightarrow> jsstring list" where
  "lifecycleRuleTargetDetails penv opts v =
     (case v of
        Arr vs \<Rightarrow>
          record_details vs (\<lambda>i rule.
            (let pre = js ''Rule '' @ decimal i;
                 filt = recordObject rule [js ''filter'', js ''Filter''];
                 expiration = recordObject rule [js ''expiration'', js ''Expiration''];
                 noncurrent = recordObject rule
                   [js ''noncurrentVersionExpiration'', js ''NoncurrentVersionExpiration''];
                 abortIncomplete = recordObject rule
                   [js ''abortIncompleteMultipartUpload'', js ''AbortIncompleteMultipartUpload''] in
             promptDetail penv opts (pre @ js '' ID'') (recordValue rule [js ''id'', js ''ID'']) @
             promptDetail penv opts (pre @ js '' status'') (recordValue rule [js ''status'', js ''Status'']) @
             promptDetail penv opts (pre @ js '' prefix'') (value_in filt [js ''prefix'', js ''Prefix'']) @
             promptDetail penv opts (pre @ js '' expiration days'')
               (value_in expiration [js ''days'', js ''Days'']) @
             promptDetail penv opts (pre @ js '' expired object delete marker'')
               (value_in expiration [js ''expiredObjectDeleteMarker'', js ''ExpiredObjectDeleteMarker'']) @
             promptDetail penv opts (pre @ js '' noncurrent expiration days'')
               (value_in noncurrent [js ''noncurrentDays'', js ''NoncurrentDays'']) @
             promptDetail penv opts (pre @ js '' abort incomplete upload days'')
               (value_in abortIncomplete [js ''daysAfterInitiation'', js ''DaysAfterInitiation'']))) @
          promptTruncationDetail (js ''lifecycle rules'') (length vs)
      | _ \<Rightarrow> [])"

definition notificationRuleTargetDetails :: "jsprops \<Rightarrow> sanitizer_options \<Rightarrow> jsval \<Rightarrow> jsstring list" where
  "notificationRuleTargetDetails penv opts v =
     (case v of
        Arr vs \<Rightarrow>
          record_details vs (\<lambda>i rule.
            (let pre = js ''Notification rule '' @ decimal i in
             promptDetail penv opts (pre @ js '' name'') (recordValue rule [js ''name'']) @
             promptDetail penv opts (pre @ js '' object prefix'') (recordValue rule [js ''objectNamePrefix'']) @
             promptListDetail penv opts (pre @ js '' event types'') (recordValue rule [js ''eventTypes'']) @
             promptDetail penv opts (pre @ js '' enabled'') (recordValue rule [js ''isEnabled'']))) @
          promptTruncationDetail (js ''notification rules'') (length vs)
      | _ \<Rightarrow> [])"

definition arrayCount :: "jsval \<Rightarrow> jsval" where
  "arrayCount v = (case v of Arr vs \<Rightarrow> Num (num_of_nat (length vs)) | _ \<Rightarrow> Null)"

definition deletes_objects :: "jsval \<Rightarrow> bool" where
  "deletes_objects rule =
     (case rule of
        Obj ps \<Rightarrow> js ''expiration'' \<in> fst ` set ps \<or> js ''noncurrentVersionExpiration'' \<in> fst ` set ps
      | _ \<Rightarrow> False)"

definition lifecycleDeletionRuleCount :: "jsval \<Rightarrow> jsval" where
  "lifecycleDeletionRuleCount v =
     (case v of Arr vs \<Rightarrow> Num (num_of_nat (length (filter deletes_objects vs))) | _ \<Rightarrow> Null)"

section \<open>The message\<close>

definition PROMPT_FIELDS :: "(jsstring \<times> jsstring) list" where
  "PROMPT_FIELDS =
    [(js ''Bucket ID'', js ''bucketId''),
     (js ''Bucket'', js ''bucket''),
     (js ''Object key'', js ''key''),
     (js ''Version ID'', js ''versionId''),
     (js ''File ID'', js ''fileId''),
     (js ''File name'', js ''fileName''),
     (js ''Application key ID'', js ''applicationKeyId''),
     (js ''Application key name'', js ''keyName''),
     (js ''Admin account ID'', js ''adminAccountId''),
     (js ''Group ID'', js ''groupId''),
     (js ''Member account ID'', js ''memberAccountId''),
     (js ''Member email'', js ''memberEmail''),
     (js ''Account email'', js ''email''),
     (js ''Operation'', js ''operation''),
     (js ''Expiry seconds'', js ''expiresIn''),
     (js ''Upload ID'', js ''uploadId'')]"

definition destructiveElicitationDetails :: "jsprops \<Rightarrow> sanitizer_options \<Rightarrow> jsprops \<Rightarrow> jsstring list" where
  "destructiveElicitationDetails penv opts args =
     concat (map (\<lambda>(label, key). promptDetail penv opts label (prop_get args key)) PROMPT_FIELDS) @
     promptDetail penv opts (js ''Object count'') (arrayCount (prop_get args (js ''objects''))) @
     bulkObjectTargetDetails penv opts (prop_get args (js ''objects'')) @
     promptDetail penv opts (js ''Rule count'') (arrayCount (prop_get args (js ''rules''))) @
     lifecycleRuleTargetDetails penv opts (prop_get args (js ''rules'')) @
     promptDetail penv opts (js ''Notification rule count'')
       (arrayCount (prop_get args (js ''eventNotificationRules''))) @
     notificationRuleTargetDetails penv opts (prop_get args (js ''eventNotificationRules'')) @
     promptDetail penv opts (js ''Deletion rule count'')
       (lifecycleDeletionRuleCount (prop_get args (js ''rules''))) @
     (if prop_get args (js ''bypassGovernance'') = Bool True
      then [js ''Governance bypass requested.''] else [])"

definition destructiveElicitationMessage ::
  "jsprops \<Rightarrow> sanitizer_options \<Rightarrow> jsstring \<Rightarrow> jsstring \<Rightarrow> jsprops \<Rightarrow> jsstring" where
  "destructiveElicitationMessage penv opts toolName effect args =
     js_join [32]
       ([toolName @ js '' would '' @ sanitizeText penv effect opts @ js ''.''] @
        destructiveElicitationDetails penv opts args @
        [js ''Approve this destructive B2 operation?''])"

section \<open>What a value in the prompt can be\<close>

lemma collapse_no_space: "32 \<noteq> c \<Longrightarrow> js_space c \<Longrightarrow> c \<notin> set (collapse_space t)"
  by (induction t rule: collapse_space.induct) auto

definition one_line :: "jsstring \<Rightarrow> bool" where
  "one_line t \<longleftrightarrow> (\<forall>c \<in> set t. js_space c \<longrightarrow> c = 32)"

lemma one_line_simps [simp]:
  "one_line []" "one_line (c # t) \<longleftrightarrow> (js_space c \<longrightarrow> c = 32) \<and> one_line t"
  "one_line (s @ t) \<longleftrightarrow> one_line s \<and> one_line t"
  by (auto simp: one_line_def)

lemma one_line_subset: "set s \<subseteq> set t \<Longrightarrow> one_line t \<Longrightarrow> one_line s"
  by (auto simp: one_line_def)

lemma one_line_collapse: "one_line (collapse_space t)"
  using collapse_no_space by (auto simp: one_line_def)

lemma sublist_js_trim: "sublist (js_trim s) s"
proof -
  have "prefix (js_trim s) (dropWhile js_space s)"
    using suffix_dropWhile [of js_space "rev (dropWhile js_space s)"]
    by (simp add: js_trim_def suffix_to_prefix)
  then show ?thesis
    by (meson prefix_imp_sublist sublist_order.order.trans suffix_imp_sublist suffix_dropWhile)
qed

text \<open>Collapsing white space puts no word together: what has no white space was there before.\<close>

lemma space_free_prefix_collapse:
  "\<forall>c \<in> set w. \<not> js_space c \<Longrightarrow> prefix w (collapse_space t) \<Longrightarrow> prefix w t"
proof (induction t arbitrary: w rule: collapse_space.induct)
  case (2 c cs)
  show ?case
  proof (cases w)
    case (Cons d u)
    have "js_space 32" by (simp add: js_space_def)
    then have c: "\<not> js_space c" "d = c" "prefix u (collapse_space cs)"
      using 2(3,4) Cons by (auto split: if_splits)
    with 2(2) [OF c(1), of u] 2(3) Cons show ?thesis by simp
  qed simp
qed simp

lemma sublist_Cons_iff: "sublist w (c # t) \<longleftrightarrow> prefix w (c # t) \<or> sublist w t"
  by (rule sublist_Cons_right)

lemma space_free_sublist_collapse:
  "w \<noteq> [] \<Longrightarrow> \<forall>c \<in> set w. \<not> js_space c \<Longrightarrow> sublist w (collapse_space t) \<Longrightarrow> sublist w t"
proof (induction t rule: collapse_space.induct)
  case (2 c cs)
  have s32: "js_space 32" by (simp add: js_space_def)
  show ?case
  proof (cases "js_space c")
    case True
    with 2 s32 have "sublist w (collapse_space (dropWhile js_space cs))"
      by (cases w) (auto simp: sublist_Cons_iff)
    with 2(1) [OF True] 2(3,4) have "sublist w (dropWhile js_space cs)" by simp
    then show ?thesis
      by (meson sublist_Cons_iff sublist_order.order.trans suffix_dropWhile suffix_imp_sublist)
  next
    case False
    with 2(5) consider "prefix w (collapse_space (c # cs))" | "sublist w (collapse_space cs)"
      by (auto simp: sublist_Cons_iff)
    then show ?thesis
    proof cases
      case 1
      from space_free_prefix_collapse [OF 2(4) 1] show ?thesis by (simp add: sublist_Cons_iff)
    next
      case 2
      with "2.IH"(2) [OF False] "2.prems" show ?thesis by (simp add: sublist_Cons_iff)
    qed
  qed
qed simp

text \<open>A cut value with its three dots holds no word without a dot that was not there before.\<close>

lemma sublist_dots:
  assumes "sublist w (take n t @ replicate k 46)" "46 \<notin> set w"
  shows "sublist w t"
proof -
  obtain a b where ab: "take n t @ replicate k 46 = a @ w @ b" using assms(1) by (auto simp: sublist_def)
  have "length (a @ w) \<le> length (take n t) \<or> w = []"
  proof (rule ccontr)
    assume c: "\<not> (length (a @ w) \<le> length (take n t) \<or> w = [])"
    have "last w = last (a @ w)" using c by simp
    also have "\<dots> = (a @ w) ! (length (a @ w) - 1)" using c by (intro last_conv_nth) simp
    also have "\<dots> = ((a @ w) @ b) ! (length (a @ w) - 1)" using c by (simp add: nth_append)
    finally have l: "last w = (take n t @ replicate k 46) ! (length (a @ w) - 1)"
      by (simp only: ab append.assoc)
    have "length (a @ w) \<le> length (take n t @ replicate k 46)" unfolding ab by simp
    moreover have "0 < length (a @ w)" using c by simp
    ultimately have i: "\<not> length (a @ w) - 1 < length (take n t)" "length (a @ w) - 1 - length (take n t) < k"
      using c by (auto simp del: length_append length_take simp: length_append [of "take n t"])
    then have "last w = 46" unfolding l nth_append by (simp only: if_False nth_replicate)
    with assms(2) c show False using last_in_set by force
  qed
  then consider "length (a @ w) \<le> length (take n t)" | "w = []" by blast
  then show ?thesis
  proof cases
    case 1
    have "prefix (a @ w) (take n t)"
    proof (rule prefix_length_prefix)
      show "prefix (a @ w) (take n t @ replicate k 46)" unfolding ab by simp
      show "prefix (take n t) (take n t @ replicate k 46)" by simp
    qed (rule 1)
    then show ?thesis
      by (metis sublist_append_leftI prefix_imp_sublist sublist_order.order.trans sublist_order.order.refl take_is_prefix)
  qed simp
qed

definition one_word :: "jsstring \<Rightarrow> bool" where
  "one_word s \<longleftrightarrow> s \<noteq> [] \<and> (\<forall>c \<in> set s. \<not> js_space c \<and> c \<noteq> 46)"

lemma prompt_value_cases:
  assumes "safePromptValue penv opts v = Some t"
  obtains raw u where "primitive_text v = Some raw" "u = js_trim (collapse_space (sanitizeText penv raw opts))"
    "u \<noteq> []" "t = REDACTED \<or> t = u \<and> length u \<le> 120 \<or> t = take 117 u @ replicate 3 46"
  using assms
  by (auto simp: safePromptValue_def Let_def numeral_3_eq_3 js_def split: option.splits if_splits)

lemma prompt_value_safe:
  assumes "safePromptValue penv opts v = Some t"
    and "s \<in> set (configuredSecretValues penv opts)" "redactable s" "one_word s"
  shows "\<not> sublist s t"
proof
  assume s: "sublist s t"
  obtain raw u where u: "u = js_trim (collapse_space (sanitizeText penv raw opts))"
      "t = REDACTED \<or> t = u \<and> length u \<le> 120 \<or> t = take 117 u @ replicate 3 46"
    using prompt_value_cases [OF assms(1)] by metis
  have w: "s \<noteq> []" "\<forall>c \<in> set s. \<not> js_space c" "46 \<notin> set s" using assms(4) by (auto simp: one_word_def)
  have "sublist s ([] @ REDACTED @ []) \<Longrightarrow> False"
    using sublist_marker [of s "[]" "[]"] assms(3) w(1) by (auto simp: redactable_def)
  then have "\<not> sublist s REDACTED" by auto
  then have "sublist s u" using u(2) s sublist_dots [of s 117 u 3] w(3) by blast
  then have "sublist s (collapse_space (sanitizeText penv raw opts))"
    using sublist_js_trim sublist_order.order.trans unfolding u(1) by blast
  then have "sublist s (sanitizeText penv raw opts)" by (rule space_free_sublist_collapse [OF w(1,2)])
  with configured_redacted [OF assms(2,3)] show False by blast
qed

lemma prompt_value_shape:
  assumes "safePromptValue penv opts v = Some t"
  shows "t \<noteq> []" "length t \<le> 120" "one_line t"
proof -
  obtain raw u where u: "u = js_trim (collapse_space (sanitizeText penv raw opts))" "u \<noteq> []"
      "t = REDACTED \<or> t = u \<and> length u \<le> 120 \<or> t = take 117 u @ replicate 3 46"
    using prompt_value_cases [OF assms] by metis
  have one: "one_line u" unfolding u(1)
    by (rule one_line_subset [OF set_js_trim one_line_collapse])
  have "one_line (take 117 u)" by (rule one_line_subset [OF set_take_subset one])
  moreover have "one_line (replicate 3 46)" by (simp add: one_line_def js_space_def)
  moreover have "one_line REDACTED" "length REDACTED \<le> 120" "REDACTED \<noteq> []"
    by (auto simp: REDACTED_def js_def one_line_def js_space_def)
  ultimately show "t \<noteq> []" "length t \<le> 120" "one_line t"
    using u one by auto
qed

section \<open>Properties\<close>

text \<open>
  What the model's arguments can put in front of the human: a value shown in the prompt is not empty,
  has at most 120 units, holds no line break or other white space than single blanks between words, and
  contains no configured secret (that is one word of eight units or more without brackets and full
  stops), not even one put together by the white space that is removed or by the cut.
\<close>

theorem prompt_values_safe:
  assumes "safePromptValue penv opts v = Some t"
    and "s \<in> set (configuredSecretValues penv opts)"
    and "\<forall>c \<in> set s. \<not> js_space c \<and> c \<noteq> 46 \<and> c \<noteq> 91 \<and> c \<noteq> 93" "s \<noteq> js ''redacted''"
  shows "t \<noteq> [] \<and> length t \<le> 120 \<and> (\<forall>c \<in> set t. js_space c \<longrightarrow> c = 32) \<and> \<not> sublist s t"
proof -
  have "secretCandidate (Str s) = Some s" using assms(2) by (simp only: configured_values_iff)
  then have "8 \<le> length s \<and> js_trim s \<noteq> [] \<and> s \<noteq> REDACTED" unfolding candidate_long .
  then have "8 \<le> length s" "js_trim s \<noteq> []" by simp_all
  moreover from this have "s \<noteq> []" by auto
  ultimately have "redactable s" "one_word s"
    using assms(3,4) sublist_redacted_long [of s] by (auto simp: redactable_def bracket_free_def one_word_def)
  from prompt_value_safe [OF assms(1,2) this] prompt_value_shape [OF assms(1)] show ?thesis
    by (simp add: one_line_def)
qed

lemma short_word_unchanged:
  assumes "length t < 8" "\<forall>c \<in> set t. \<not> js_space c \<and> \<not> sep_unit c"
  shows "sanitizeText penv t opts = t"
proof -
  have "\<not> sublist s t" if "s \<in> set (configuredSecretValues penv opts)" for s
  proof -
    from that have "secretCandidate (Str s) = Some s" by (simp only: configured_values_iff)
    then have "8 \<le> length s" by (simp only: candidate_long)
    with assms(1) show ?thesis using sublist_length_le [of s t] by linarith
  qed
  then have e: "redactExactTextSecrets t (configuredSecretValues penv opts) = t"
    using exact_redaction_id by blast
  have "match_canary (drop q t) = None" "match_bearer (drop q t) = None" "match_labeled (drop q t) = None" for q
    using assms set_drop_subset [of q t]
    by (auto intro!: short_no_canary no_space_no_bearer no_colon_no_label)
  then show ?thesis by (simp add: sanitizeText_def e scan_id)
qed

theorem prompt_values_safe_witness:
  "safePromptValue [(js ''B2_APPLICATION_KEY'', Str (js ''K0123456789''))] no_options (Bool True) = Some (js ''true'')
   \<and> \<not> sublist (js ''K0123456789'') (js ''true'')"
proof -
  let ?p = "[(js ''B2_APPLICATION_KEY'', Str (js ''K0123456789''))]"
  have c: "js ''K0123456789'' \<in> set (configuredSecretValues ?p no_options)"
    unfolding configured_values_iff candidate_long
    by (auto simp: js_def js_trim_def js_space_def env_of_def no_options_def isSecretEnvName_def Let_def
      SECRET_ENV_VAR_NAMES_def ascii_upper_def ascii_upper_unit_def is_lower_def REDACTED_def)
  have u: "\<forall>c \<in> set (js ''K0123456789''). \<not> js_space c \<and> c \<noteq> 46 \<and> c \<noteq> 91 \<and> c \<noteq> 93"
    by (simp add: js_def js_space_def)
  have "sanitizeText ?p (js ''true'') no_options = js ''true''"
    by (rule short_word_unchanged) (simp_all add: js_def js_space_def sep_unit_def)
  moreover have "js_trim (collapse_space (js ''true'')) = js ''true''"
    by (simp add: js_def js_trim_def js_space_def)
  moreover have "\<not> js_includes (js ''true'') REDACTED"
    by (simp add: js_includes_def js_def REDACTED_def)
  ultimately have s: "safePromptValue ?p no_options (Bool True) = Some (js ''true'')"
    by (simp add: safePromptValue_def Let_def)
  from prompt_values_safe [OF s c u] s show ?thesis by simp
qed

end
