(* ===== verification/Js_Num_Value.thy ===== *)
theory Js_Num_Value
  imports Js_Prelude Complex_Main
begin

text \<open>
  The value of a finite number as a rational, and the comparisons of a number with a constant.
\<close>

definition num_value :: "bool \<Rightarrow> nat \<Rightarrow> int \<Rightarrow> rat" where
  "num_value neg s e = (if neg then -1 else 1) * of_nat s * 10 powi e"

definition num_eq :: "jsnum \<Rightarrow> nat \<Rightarrow> bool" where
  "num_eq n k \<longleftrightarrow> (case n of Fin neg s e \<Rightarrow> num_value neg s e = of_nat k | _ \<Rightarrow> False)"

definition num_ge :: "jsnum \<Rightarrow> nat \<Rightarrow> bool" where
  "num_ge n k \<longleftrightarrow> (case n of Fin neg s e \<Rightarrow> of_nat k \<le> num_value neg s e | Infty neg \<Rightarrow> \<not> neg | NaN \<Rightarrow> False)"

definition num_less :: "jsnum \<Rightarrow> nat \<Rightarrow> bool" where
  "num_less n k \<longleftrightarrow> (case n of Fin neg s e \<Rightarrow> num_value neg s e < of_nat k | Infty neg \<Rightarrow> neg | NaN \<Rightarrow> False)"

lemma strip10_value: "strip10 m x = (s, e) \<Longrightarrow> x \<le> e \<and> m = s * 10 ^ nat (e - x)"
proof (induction m x rule: strip10.induct)
  case (1 m x)
  show ?case
  proof (cases "m \<noteq> 0 \<and> 10 dvd m")
    case True
    then have "strip10 (m div 10) (x + 1) = (s, e)" using "1.prems" by (simp add: strip10.simps [of m x])
    from "1.IH" [OF True this] have ih: "x + 1 \<le> e" "m div 10 = s * 10 ^ nat (e - (x + 1))" by simp_all
    then have "nat (e - x) = Suc (nat (e - (x + 1)))" by simp
    then have "s * 10 ^ nat (e - x) = 10 * (m div 10)" using ih(2) by simp
    with True ih(1) show ?thesis by simp
  next
    case False
    then have "strip10 m x = (m, x)" by (subst strip10.simps) auto
    then show ?thesis using "1.prems" by simp
  qed
qed

lemma num_of_nat_value: "num_of_nat n = Fin neg s e \<Longrightarrow> num_value neg s e = of_nat n"
proof (cases "n = 0")
  case False
  assume "num_of_nat n = Fin neg s e"
  with False have "strip10 n 0 = (s, e)" "\<not> neg" by (auto simp: num_of_nat_def split: prod.splits)
  with strip10_value [of n 0 s e] have "0 \<le> e" "n = s * 10 ^ nat e" by simp_all
  moreover have "(10 :: rat) powi e = 10 ^ nat e" using \<open>0 \<le> e\<close> by (simp add: power_int_def)
  ultimately show ?thesis using \<open>\<not> neg\<close> by (simp add: num_value_def)
qed (auto simp: num_of_nat_def num_value_def)

lemma num_of_nat_cases: obtains neg s e where "num_of_nat n = Fin neg s e" "num_value neg s e = of_nat n"
proof -
  obtain neg s e where "num_of_nat n = Fin neg s e"
    by (cases "num_of_nat n") (auto simp: num_of_nat_def split: if_splits prod.splits)
  with num_of_nat_value that show thesis by blast
qed

lemma num_of_nat_compare [simp]:
  "num_eq (num_of_nat n) k \<longleftrightarrow> n = k" "num_ge (num_of_nat n) k \<longleftrightarrow> k \<le> n" "num_less (num_of_nat n) k \<longleftrightarrow> n < k"
proof -
  obtain neg s e where n: "num_of_nat n = Fin neg s e" "num_value neg s e = of_nat n"
    by (rule num_of_nat_cases)
  show "num_eq (num_of_nat n) k \<longleftrightarrow> n = k" "num_ge (num_of_nat n) k \<longleftrightarrow> k \<le> n" "num_less (num_of_nat n) k \<longleftrightarrow> n < k"
    using n(2) by (simp_all add: num_eq_def num_ge_def num_less_def n(1))
qed

end
