(* ===== verification/Elicitation.thy ===== *)
theory Elicitation
  imports Destructive_Gate Elicitation_Prompt Js_Effects Js_Num_Value
begin

text \<open>
  Human approval of destructive calls (\<open>src/utils/destructive-elicitation.ts\<close>). A call that needs it is
  answered with a prompt and a signed state; the client calls again with the human's answer and that
  state, and only then the original callback runs, inside a consent for this tool and target, which
  the gate of the handler looks for.

  What the MCP SDK and Node's \<open>crypto\<close> provide is a record of functions, \<open>externals\<close>: the keys of two
  entries of the request envelope, the reader of input responses, the request-state codec for a key
  and a time to live, and the two hashes.
\<close>

section \<open>The request\<close>

datatype input_response = Missing | ElicitResponse jsstring jsval | OtherResponse

text \<open>The request state is a value or a function of no arguments, with what a call returns.\<close>

datatype state_source = StateValue jsval | StateFunction jsval

record mcp_req =
  inputResponses :: jsval
  requestState :: state_source
  req_clientCapabilities :: jsval
  envelope :: jsval

record request_extra =
  mcpReq :: "mcp_req option"
  clientCapabilities :: jsval

text \<open>The codec reads a clock of its own, the first argument of both operations, in milliseconds.\<close>

record state_codec =
  mint :: "nat \<Rightarrow> jsval \<Rightarrow> request_extra option \<Rightarrow> js_throw + jsstring"
  verify :: "nat \<Rightarrow> jsstring \<Rightarrow> request_extra option \<Rightarrow> js_throw + jsval"

text \<open>What the clock shows in one call: where this code reads it, and where the codec does.\<close>

record readings =
  own_now :: nat
  codec_now :: nat

record providers =
  getClientCapabilities :: "jsval option"
  getProtocolVersion :: "jsval option"
  requestStateCodec :: "state_codec option"

record externals =
  capabilities_key :: jsstring
  protocol_key :: jsstring
  inputResponse :: "jsval \<Rightarrow> jsstring \<Rightarrow> input_response"
  createRequestStateCodec :: "jsstring \<Rightarrow> nat \<Rightarrow> state_codec"
  sha256 :: "jsstring \<Rightarrow> jsstring"
  hmac256 :: keyed_hash

text \<open>\<open>v?.[k]\<close>\<close>

definition opt_get :: "jsval \<Rightarrow> jsstring \<Rightarrow> jsval" where
  "opt_get v k = (case member_get v k of Inl e \<Rightarrow> Undefined | Inr x \<Rightarrow> x)"

definition coalesce :: "jsval \<Rightarrow> jsval \<Rightarrow> jsval" where
  "coalesce v w = (if nullish v then w else v)"

definition mcpRequestExtra :: "request_extra option \<Rightarrow> request_extra" where
  "mcpRequestExtra extra =
     (case extra of None \<Rightarrow> \<lparr>mcpReq = None, clientCapabilities = Undefined\<rparr> | Some x \<Rightarrow> x)"

definition mcpInputResponses :: "request_extra \<Rightarrow> jsval" where
  "mcpInputResponses extra = (case mcpReq extra of None \<Rightarrow> Undefined | Some r \<Rightarrow> inputResponses r)"

definition mcpClientCapabilities :: "externals \<Rightarrow> request_extra \<Rightarrow> jsval" where
  "mcpClientCapabilities ext extra =
     coalesce (case mcpReq extra of None \<Rightarrow> Undefined | Some r \<Rightarrow> req_clientCapabilities r)
       (coalesce (case mcpReq extra of None \<Rightarrow> Undefined
                  | Some r \<Rightarrow> opt_get (envelope r) (capabilities_key ext))
         (clientCapabilities extra))"

definition mcpProtocolVersion :: "externals \<Rightarrow> request_extra \<Rightarrow> providers \<Rightarrow> jsval" where
  "mcpProtocolVersion ext extra prov =
     (case getProtocolVersion prov of
        Some v \<Rightarrow> if truthy v then v else
          (case mcpReq extra of None \<Rightarrow> Undefined
           | Some r \<Rightarrow> (case opt_get (envelope r) (protocol_key ext) of Str s \<Rightarrow> Str s | _ \<Rightarrow> Undefined))
      | None \<Rightarrow>
          (case mcpReq extra of None \<Rightarrow> Undefined
           | Some r \<Rightarrow> (case opt_get (envelope r) (protocol_key ext) of Str s \<Rightarrow> Str s | _ \<Rightarrow> Undefined)))"

definition mcpRequestState :: "request_extra \<Rightarrow> jsval" where
  "mcpRequestState extra =
     (case mcpReq extra of None \<Rightarrow> Undefined
      | Some r \<Rightarrow> (case requestState r of StateValue v \<Rightarrow> v | StateFunction v \<Rightarrow> v))"

definition RETURN_BASED_INPUT_PROTOCOL_VERSION :: jsstring where
  "RETURN_BASED_INPUT_PROTOCOL_VERSION = js ''2026-07-28''"

definition requestSupportsReturnBasedInput :: "externals \<Rightarrow> request_extra \<Rightarrow> providers \<Rightarrow> bool" where
  "requestSupportsReturnBasedInput ext extra prov \<longleftrightarrow>
     mcpProtocolVersion ext extra prov = Str RETURN_BASED_INPUT_PROTOCOL_VERSION"

definition clientSupportsFormElicitation :: "externals \<Rightarrow> request_extra \<Rightarrow> jsval option \<Rightarrow> bool" where
  "clientSupportsFormElicitation ext extra getCaps =
     (let capabilities = coalesce (case getCaps of None \<Rightarrow> Undefined | Some v \<Rightarrow> v)
            (mcpClientCapabilities ext extra)
      in (case opt_get capabilities (js ''elicitation'') of
            Obj ps \<Rightarrow> ps = [] \<or> js ''form'' \<in> fst ` set ps
          | _ \<Rightarrow> False))"

definition clientCanUseReturnBasedElicitation ::
  "externals \<Rightarrow> request_extra option \<Rightarrow> providers \<Rightarrow> bool" where
  "clientCanUseReturnBasedElicitation ext extra prov \<longleftrightarrow>
     requestSupportsReturnBasedInput ext (mcpRequestExtra extra) prov \<and>
     clientSupportsFormElicitation ext (mcpRequestExtra extra) (getClientCapabilities prov)"

text \<open>\<open>B2_DESTRUCTIVE_ELICITATION\<close> switches the prompts off by a few values only.\<close>

definition destructiveElicitationEnabled :: "(jsstring \<Rightarrow> jsstring option) \<Rightarrow> bool" where
  "destructiveElicitationEnabled env \<longleftrightarrow>
     (case env (js ''B2_DESTRUCTIVE_ELICITATION'') of
        None \<Rightarrow> True
      | Some v \<Rightarrow> v = [] \<or> ascii_lower (js_trim v) \<notin> {js ''0'', js ''false'', js ''off''})"

section \<open>The signed state\<close>

record elicitation_state =
  es_toolName :: jsstring
  es_effect :: jsstring
  es_argsDigest :: jsstring
  es_issuedAt :: jsnum

definition STATE_MAX_AGE_MS :: int where "STATE_MAX_AGE_MS = 10 * 60 * 1000"
definition STATE_TTL_SECONDS :: nat where "STATE_TTL_SECONDS = 600"

definition REQUEST_STATE_PREFIX :: jsstring where
  "REQUEST_STATE_PREFIX = js ''b2-mcp-destructive-elicitation-v1.''"

definition destructiveElicitationKeyMaterial :: "b2_config \<Rightarrow> jsstring" where
  "destructiveElicitationKeyMaterial config = key_material config"

definition destructiveElicitationStateKey :: "externals \<Rightarrow> b2_config \<Rightarrow> jsstring" where
  "destructiveElicitationStateKey ext config =
     sha256 ext (js ''b2-mcp-destructive-elicitation-request-state'' @ [0]
       @ destructiveElicitationKeyMaterial config)"

definition createDestructiveElicitationRequestStateCodec :: "externals \<Rightarrow> b2_config \<Rightarrow> state_codec" where
  "createDestructiveElicitationRequestStateCodec ext config =
     (let codec = createRequestStateCodec ext (destructiveElicitationStateKey ext config) STATE_TTL_SECONDS in
      \<lparr>mint = \<lambda>now payload ctx. js_bind (mint codec now payload ctx) (\<lambda>t. Inr (REQUEST_STATE_PREFIX @ t)),
       verify = \<lambda>now state ctx.
         if \<not> prefix REQUEST_STATE_PREFIX state then Inl (ThrownError (js ''malformed''))
         else verify codec now (drop (length REQUEST_STATE_PREFIX) state) ctx\<rparr>)"

definition request_codec :: "externals \<Rightarrow> b2_config \<Rightarrow> providers \<Rightarrow> state_codec" where
  "request_codec ext config prov =
     (case requestStateCodec prov of Some c \<Rightarrow> c
      | None \<Rightarrow> createDestructiveElicitationRequestStateCodec ext config)"

definition state_payload :: "elicitation_state \<Rightarrow> jsval" where
  "state_payload s =
     Obj [(js ''v'', Num (num_of_nat 1)), (js ''kind'', Str (js ''destructive-elicitation'')),
          (js ''toolName'', Str (es_toolName s)), (js ''effect'', Str (es_effect s)),
          (js ''argsDigest'', Str (es_argsDigest s)), (js ''issuedAt'', Num (es_issuedAt s))]"

definition new_state :: "externals \<Rightarrow> b2_config \<Rightarrow> jsstring \<Rightarrow> jsstring \<Rightarrow> jsprops \<Rightarrow> nat \<Rightarrow> elicitation_state" where
  "new_state ext config toolName effect args now =
     \<lparr>es_toolName = toolName, es_effect = effect,
      es_argsDigest = destructiveTargetDigest (hmac256 ext) config args, es_issuedAt = num_of_nat now\<rparr>"

definition mintDestructiveElicitationState ::
  "externals \<Rightarrow> b2_config \<Rightarrow> jsstring \<Rightarrow> jsstring \<Rightarrow> jsprops \<Rightarrow> request_extra option \<Rightarrow> providers \<Rightarrow> readings \<Rightarrow>
     js_throw + jsstring" where
  "mintDestructiveElicitationState ext config toolName effect args extra prov now =
     mint (request_codec ext config prov) (codec_now now)
       (state_payload (new_state ext config toolName effect args (own_now now))) extra"

fun parseDestructiveElicitationState :: "jsval \<Rightarrow> elicitation_state option" where
  "parseDestructiveElicitationState (Obj ps) =
     (if prop_get ps (js ''v'') \<noteq> Num (num_of_nat 1) then None
      else if prop_get ps (js ''kind'') \<noteq> Str (js ''destructive-elicitation'') then None
      else (case (prop_get ps (js ''toolName''), prop_get ps (js ''effect''),
                  prop_get ps (js ''argsDigest''), prop_get ps (js ''issuedAt'')) of
              (Str t, Str e, Str d, Num n) \<Rightarrow>
                Some \<lparr>es_toolName = t, es_effect = e, es_argsDigest = d, es_issuedAt = n\<rparr>
            | _ \<Rightarrow> None))"
| "parseDestructiveElicitationState v = None"

text \<open>
  \<open>Date.now() - issuedAt > max\<close> over the doubles: \<open>NaN\<close> and positive infinity never expire, negative infinity
  always has. A state that this server minted has an integer here.
\<close>

definition state_expired :: "nat \<Rightarrow> jsnum \<Rightarrow> bool" where
  "state_expired now issued =
     (case issued of
        NaN \<Rightarrow> False
      | Infty neg \<Rightarrow> neg
      | Fin neg s e \<Rightarrow> of_nat now - num_value neg s e > of_int STATE_MAX_AGE_MS)"

definition verifyRawDestructiveElicitationState ::
  "externals \<Rightarrow> b2_config \<Rightarrow> nat \<Rightarrow> jsstring \<Rightarrow> request_extra option \<Rightarrow> providers \<Rightarrow> elicitation_state option" where
  "verifyRawDestructiveElicitationState ext config now state extra prov =
     (case verify (request_codec ext config prov) now state extra of
        Inl e \<Rightarrow> None
      | Inr payload \<Rightarrow> parseDestructiveElicitationState payload)"

definition verifyDestructiveElicitationState ::
  "externals \<Rightarrow> b2_config \<Rightarrow> jsval \<Rightarrow> jsstring \<Rightarrow> jsstring \<Rightarrow> jsprops \<Rightarrow> request_extra option \<Rightarrow> providers \<Rightarrow>
     readings \<Rightarrow> jsstring + elicitation_state" where
  "verifyDestructiveElicitationState ext config state toolName effect args extra prov now =
     (if state = Undefined then Inl (js ''requestState is missing'')
      else
        (case (case state of
                 Str s \<Rightarrow> verifyRawDestructiveElicitationState ext config (codec_now now) s extra prov
               | _ \<Rightarrow> parseDestructiveElicitationState state) of
           None \<Rightarrow> Inl (js ''requestState payload was invalid'')
         | Some st \<Rightarrow>
             if state_expired (own_now now) (es_issuedAt st) then Inl (js ''requestState expired'')
             else if es_toolName st \<noteq> toolName \<or> es_effect st \<noteq> effect \<or>
                     es_argsDigest st \<noteq> destructiveTargetDigest (hmac256 ext) config args
             then Inl (js ''approved destructive target did not match this call'')
             else Inr st))"

section \<open>Decisions and their audit\<close>

datatype fallback_reason = ElicitationDisabled | ClientCannotElicit

datatype audit_event =
    Requested
  | Accepted
  | FallbackAccepted fallback_reason
  | RefusedEvent jsstring jsstring

fun event_outcome :: "audit_event \<Rightarrow> jsstring" where
  "event_outcome Requested = js ''requested''"
| "event_outcome Accepted = js ''accepted''"
| "event_outcome (FallbackAccepted r) = js ''fallback_accepted''"
| "event_outcome (RefusedEvent outcome reason) = outcome"

fun destructiveConfirmationLogFields :: "audit_event \<Rightarrow> jsprops" where
  "destructiveConfirmationLogFields Accepted =
     [(js ''destructiveConfirmationSource'', Str (js ''human_mcp_elicitation''))]"
| "destructiveConfirmationLogFields (FallbackAccepted r) =
     [(js ''destructiveConfirmationSource'', Str (js ''model_confirm_parameter'')),
      (js ''destructiveConfirmationFallbackReason'',
         Str (case r of ElicitationDisabled \<Rightarrow> js ''elicitation_disabled''
              | ClientCannotElicit \<Rightarrow> js ''client_cannot_elicit''))]"
| "destructiveConfirmationLogFields e = []"

definition logDestructiveElicitation ::
  "jsprops \<Rightarrow> sanitizer_options \<Rightarrow> jsstring \<Rightarrow> jsstring \<Rightarrow> audit_event \<Rightarrow> jsprops" where
  "logDestructiveElicitation penv opts toolName effect event =
     [(js ''tool'', Str toolName), (js ''effect'', Str (sanitizeText penv effect opts)),
      (js ''decision'', Str (event_outcome event)), (js ''outcome'', Str (event_outcome event))] @
     destructiveConfirmationLogFields event @
     (case event of RefusedEvent outcome reason \<Rightarrow> [(js ''reason'', Str reason)] | _ \<Rightarrow> [])"

text \<open>The result of a wrapped call: the original's, a prompt with its signed state, or a tool error.\<close>

datatype 'r wrapped = Original 'r | InputRequired jsstring jsstring | ToolError api_error

definition recordLegacyConfirmFallback :: "jsprops \<Rightarrow> fallback_reason \<Rightarrow> audit_event list" where
  "recordLegacyConfirmFallback args reason =
     (if prop_get args (js ''confirm'') \<noteq> Bool True then [] else [FallbackAccepted reason])"

definition refusal_message :: "jsstring \<Rightarrow> jsstring \<Rightarrow> jsstring" where
  "refusal_message toolName reason =
     js ''Refused: '' @ toolName @ js '' requires explicit human approval by MCP elicitation; '' @ reason @ js ''.''"

definition refuse_as :: "jsstring \<Rightarrow> jsstring \<Rightarrow> jsstring \<Rightarrow> audit_event list \<times> 'r wrapped" where
  "refuse_as outcome toolName reason =
     ([RefusedEvent outcome reason],
      ToolError (codedError 409 (js ''destructive_confirmation_refused'') (refusal_message toolName reason)))"

definition destructiveElicitationRefused :: "jsstring \<Rightarrow> jsstring \<Rightarrow> audit_event list \<times> 'r wrapped" where
  "destructiveElicitationRefused toolName reason = refuse_as (js ''refused'') toolName reason"

text \<open>
  The wrapper. \<open>store\<close> is the ambient consent, \<open>run\<close> the original callback; the answer lists the audit
  events in order, for each of which \<open>logDestructiveElicitation\<close> gives the log entry.
\<close>

definition maybeRequireDestructiveElicitation ::
  "externals \<Rightarrow> (jsstring \<Rightarrow> jsstring option) \<Rightarrow> jsprops \<Rightarrow> readings \<Rightarrow> jsstring \<Rightarrow> jsprops \<Rightarrow> request_extra option \<Rightarrow>
     b2_config \<Rightarrow> sanitizer_options \<Rightarrow> providers \<Rightarrow> consent option \<Rightarrow> (consent option \<Rightarrow> 'r) \<Rightarrow>
     js_throw + (audit_event list \<times> 'r wrapped)" where
  "maybeRequireDestructiveElicitation ext env penv now toolName args extra config opts prov store run =
     js_bind (destructiveEffect toolName args) (\<lambda>eff.
       case eff of
         None \<Rightarrow> Inr ([], Original (run store))
       | Some effect \<Rightarrow>
         if effect = [] then Inr ([], Original (run store))
         else
           (let policy = getDestructivePolicy config; x = mcpRequestExtra extra in
            if policy \<noteq> Confirm \<and> policy \<noteq> Elicit then Inr ([], Original (run store))
            else if \<not> destructiveElicitationEnabled env then
              (if policy = Elicit
               then Inr (destructiveElicitationRefused toolName
                 (js ''MCP elicitation is disabled on this server (B2_DESTRUCTIVE_ELICITATION), so no human can be prompted''))
               else Inr (recordLegacyConfirmFallback args ElicitationDisabled, Original (run store)))
            else if \<not> clientCanUseReturnBasedElicitation ext (Some x) prov then
              (if policy = Elicit
               then Inr (destructiveElicitationRefused toolName
                 (js ''this client cannot present an MCP elicitation prompt, so no human can approve''))
               else Inr (recordLegacyConfirmFallback args ClientCannotElicit, Original (run store)))
            else
              (let response = inputResponse ext (mcpInputResponses x) (js ''destructiveConfirmation'') in
               if response = Missing then
                 (if mcpRequestState x \<noteq> Undefined
                  then Inr (destructiveElicitationRefused toolName (js ''human confirmation was not provided''))
                  else
                    js_bind (mintDestructiveElicitationState ext config toolName effect args extra prov now)
                      (\<lambda>state. Inr ([Requested],
                         InputRequired (destructiveElicitationMessage penv opts toolName effect args) state)))
               else
                 (case verifyDestructiveElicitationState ext config (mcpRequestState x) toolName effect args
                         extra prov now of
                    Inl reason \<Rightarrow> Inr (destructiveElicitationRefused toolName reason)
                  | Inr st \<Rightarrow>
                      (case response of
                         ElicitResponse action content \<Rightarrow>
                           if action \<noteq> js ''accept'' then
                             Inr (refuse_as (if action = js ''decline'' then js ''declined'' else js ''cancelled'')
                               toolName (js ''human confirmation was '' @ action))
                           else if opt_get content (js ''confirm'') \<noteq> Bool True then
                             Inr (destructiveElicitationRefused toolName (js ''human confirmation did not approve''))
                           else
                             Inr ([Accepted],
                               Original (runWithDestructiveElicitationConsent toolName
                                 (destructiveTargetDigest (hmac256 ext) config args) run))
                       | _ \<Rightarrow>
                           Inr (destructiveElicitationRefused toolName
                             (js ''human confirmation response was invalid'')))))))"

section \<open>Minting and verifying\<close>

lemma expired_num_of_nat: "state_expired now (num_of_nat t) \<longleftrightarrow> int now - int t > STATE_MAX_AGE_MS"
proof -
  obtain neg s e where n: "num_of_nat t = Fin neg s e"
    by (cases "num_of_nat t") (auto simp: num_of_nat_def split: if_splits prod.splits)
  have "(of_nat now :: rat) - of_nat t > of_int STATE_MAX_AGE_MS \<longleftrightarrow> int now - int t > STATE_MAX_AGE_MS"
    by (metis of_int_diff of_int_less_iff of_int_of_nat_eq)
  with num_of_nat_value [OF n] show ?thesis by (simp add: state_expired_def n)
qed

lemma parse_payload: "parseDestructiveElicitationState (state_payload s) = Some s"
  by (simp add: state_payload_def)

text \<open>
  What the code relies on the SDK codec for. An approval that it minted verifies, with the same key, to its payload until
  its time to live has passed, and throws afterwards; \<open>live ttl minted now\<close> says which, and is pinned but for
  the second at the end, as the codec may count in whole seconds. With another key the state throws.
\<close>

definition ttl_clock :: "(nat \<Rightarrow> nat \<Rightarrow> nat \<Rightarrow> bool) \<Rightarrow> bool" where
  "ttl_clock live \<longleftrightarrow>
     (\<forall>ttl minted now. (now + 1000 \<le> minted + ttl * 1000 \<longrightarrow> live ttl minted now) \<and>
        (minted + ttl * 1000 + 1000 \<le> now \<longrightarrow> \<not> live ttl minted now))"

definition codec_returns :: "externals \<Rightarrow> (nat \<Rightarrow> nat \<Rightarrow> nat \<Rightarrow> bool) \<Rightarrow> bool" where
  "codec_returns ext live \<longleftrightarrow> ttl_clock live \<and>
     (\<forall>key key' ttl st ctx ctx' minted now t.
        mint (createRequestStateCodec ext key ttl) minted (state_payload st) ctx = Inr t \<longrightarrow>
        (if key' = key \<and> live ttl minted now
         then verify (createRequestStateCodec ext key' ttl) now t ctx' = Inr (state_payload st)
         else \<exists>e. verify (createRequestStateCodec ext key' ttl) now t ctx' = Inl e))"

text \<open>The keys of two configurations are confused by the hash that makes them.\<close>

definition key_collision :: "externals \<Rightarrow> b2_config \<Rightarrow> b2_config \<Rightarrow> bool" where
  "key_collision ext c c' \<longleftrightarrow> destructiveElicitationKeyMaterial c' \<noteq> destructiveElicitationKeyMaterial c \<and>
     destructiveElicitationStateKey ext c' = destructiveElicitationStateKey ext c"

lemma minted_verifies:
  assumes "codec_returns ext live" "requestStateCodec prov = None" "requestStateCodec prov' = None"
    and "mintDestructiveElicitationState ext config t e args extra prov minted = Inr token"
  shows "verifyRawDestructiveElicitationState ext config' now token extra' prov' =
    (if destructiveElicitationStateKey ext config' = destructiveElicitationStateKey ext config \<and>
        live STATE_TTL_SECONDS (codec_now minted) now
     then Some (new_state ext config t e args (own_now minted)) else None)"
proof -
  let ?c = "\<lambda>config. createRequestStateCodec ext (destructiveElicitationStateKey ext config) STATE_TTL_SECONDS"
  let ?p = "state_payload (new_state ext config t e args (own_now minted))"
  from assms(2,4) obtain base where b: "mint (?c config) (codec_now minted) ?p extra = Inr base"
      "token = REQUEST_STATE_PREFIX @ base"
    by (auto simp: mintDestructiveElicitationState_def request_codec_def Let_def
        createDestructiveElicitationRequestStateCodec_def js_bind_Inr)
  from assms(1) b(1) have "if destructiveElicitationStateKey ext config' = destructiveElicitationStateKey ext config \<and>
      live STATE_TTL_SECONDS (codec_now minted) now
    then verify (?c config') now base extra' = Inr ?p else \<exists>e. verify (?c config') now base extra' = Inl e"
    unfolding codec_returns_def by blast
  with b(2) assms(3) show ?thesis
    by (auto simp: verifyRawDestructiveElicitationState_def request_codec_def Let_def parse_payload
        createDestructiveElicitationRequestStateCodec_def split: if_splits)
qed

text \<open>A codec's state lives as long as our own clock says that fewer than 599 seconds have passed.\<close>

lemma live_margin:
  assumes "codec_returns ext live" "own_now minted \<le> codec_now minted" "codec_now read \<le> own_now read"
    and "int (own_now read) - int (own_now minted) \<le> 599000"
  shows "live STATE_TTL_SECONDS (codec_now minted) (codec_now read)"
proof -
  have "codec_now read + 1000 \<le> codec_now minted + STATE_TTL_SECONDS * 1000"
    using assms(2-4) by (simp add: STATE_TTL_SECONDS_def)
  then show ?thesis using assms(1) unfolding codec_returns_def ttl_clock_def by blast
qed

text \<open>
  (C10) The round trip of the approval state, minted by this code's own codec under one configuration and presented
  later, to the same server or to one with another configuration. It is accepted exactly if the two have the
  same key material, the tool and its effect are the same, the target arguments are the same, the code's own
  clock says that at most ten minutes have passed, and the codec's time to live of ten minutes has not run
  out; in particular it is accepted for 599 seconds. Excluded are collisions: of the keyed hash on the two
  targets, and of the hash that derives the codec's key on the two configurations.
\<close>

theorem approval_state_roundtrip:
  assumes "codec_returns ext live" "requestStateCodec prov = None" "requestStateCodec prov' = None"
    and "mintDestructiveElicitationState ext config t e args extra prov minted = Inr token"
    and "wf_args args" "wf_args args'" "\<not> hmac_collision (hmac256 ext) config args args'"
    and "\<not> key_collision ext config config'"
  shows "((\<exists>st. verifyDestructiveElicitationState ext config' (Str token) t' e' args' extra' prov' read = Inr st)
    \<longleftrightarrow> destructiveElicitationKeyMaterial config' = destructiveElicitationKeyMaterial config \<and>
      t' = t \<and> e' = e \<and> same_target args args' \<and>
      int (own_now read) - int (own_now minted) \<le> 600000 \<and> live 600 (codec_now minted) (codec_now read)) \<and>
    (destructiveElicitationKeyMaterial config' = destructiveElicitationKeyMaterial config \<and>
      t' = t \<and> e' = e \<and> same_target args args' \<and>
      own_now minted \<le> codec_now minted \<and> codec_now read \<le> own_now read \<and>
      int (own_now read) - int (own_now minted) \<le> 599000 \<longrightarrow>
     (\<exists>st. verifyDestructiveElicitationState ext config' (Str token) t' e' args' extra' prov' read = Inr st))"
proof -
  let ?same = "destructiveElicitationKeyMaterial config' = destructiveElicitationKeyMaterial config"
  have k: "destructiveElicitationStateKey ext config' = destructiveElicitationStateKey ext config \<longleftrightarrow> ?same"
    using assms(8) by (auto simp: key_collision_def destructiveElicitationStateKey_def)
  have d: "destructiveTargetDigest (hmac256 ext) config args = destructiveTargetDigest (hmac256 ext) config' args'
      \<longleftrightarrow> same_target args args'" if ?same
  proof -
    have "destructiveTargetDigest (hmac256 ext) config' args' = destructiveTargetDigest (hmac256 ext) config args'"
      using that by (simp add: destructiveTargetDigest_def destructiveGateKey_def destructiveElicitationKeyMaterial_def)
    then show ?thesis using target.digest_eq_iff [OF assms(7,5,6)] by simp
  qed
  note v = minted_verifies [OF assms(1-4), of config' "codec_now read" extra', unfolded k]
  have ttl: "STATE_TTL_SECONDS = 600" by (simp add: STATE_TTL_SECONDS_def)
  have exact: "(\<exists>st. verifyDestructiveElicitationState ext config' (Str token) t' e' args' extra' prov' read = Inr st)
    \<longleftrightarrow> ?same \<and> t' = t \<and> e' = e \<and> same_target args args' \<and>
      int (own_now read) - int (own_now minted) \<le> 600000 \<and> live 600 (codec_now minted) (codec_now read)"
  proof (cases ?same)
    case True
    then show ?thesis
      using v d [OF True]
      by (auto simp: verifyDestructiveElicitationState_def new_state_def expired_num_of_nat STATE_MAX_AGE_MS_def ttl)
  next
    case False
    then show ?thesis using v by (simp add: verifyDestructiveElicitationState_def)
  qed
  then show ?thesis using live_margin [OF assms(1), of minted read] by (auto simp: ttl)
qed

section \<open>The wrapper and the gate together\<close>

text \<open>
  A human's answer to this very call: an accepted form with the box ticked and a state that verifies.
\<close>

definition human_approved ::
  "externals \<Rightarrow> jsstring \<Rightarrow> jsstring \<Rightarrow> jsprops \<Rightarrow> request_extra option \<Rightarrow> b2_config \<Rightarrow> providers \<Rightarrow> readings \<Rightarrow> bool" where
  "human_approved ext t e args extra config prov now \<longleftrightarrow>
     (\<exists>content. inputResponse ext (mcpInputResponses (mcpRequestExtra extra)) (js ''destructiveConfirmation'')
         = ElicitResponse (js ''accept'') content \<and> opt_get content (js ''confirm'') = Bool True) \<and>
     (\<exists>st. verifyDestructiveElicitationState ext config (mcpRequestState (mcpRequestExtra extra)) t e args
         extra prov now = Inr st)"

definition can_ask :: "externals \<Rightarrow> (jsstring \<Rightarrow> jsstring option) \<Rightarrow> request_extra option \<Rightarrow> providers \<Rightarrow> bool" where
  "can_ask ext env extra prov \<longleftrightarrow>
     destructiveElicitationEnabled env \<and> clientCanUseReturnBasedElicitation ext extra prov"

text \<open>A destructive tool: the wrapper around a handler whose first step is the gate.\<close>

definition guarded_call ::
  "externals \<Rightarrow> (jsstring \<Rightarrow> jsstring option) \<Rightarrow> jsprops \<Rightarrow> readings \<Rightarrow> jsstring \<Rightarrow> jsprops \<Rightarrow> request_extra option \<Rightarrow>
     b2_config \<Rightarrow> sanitizer_options \<Rightarrow> providers \<Rightarrow> js_throw + (audit_event list \<times> (js_throw + gate_result) wrapped)" where
  "guarded_call ext env penv now t args extra config opts prov =
     maybeRequireDestructiveElicitation ext env penv now t args extra config opts prov None
       (\<lambda>store. checkDestructive (hmac256 ext) store t args config)"

definition executes :: "js_throw + (audit_event list \<times> (js_throw + gate_result) wrapped) \<Rightarrow> bool" where
  "executes m \<longleftrightarrow> (\<exists>evs. m = Inr (evs, Original (Inr GateAllowed)))"

lemma same_extra: "mcpRequestExtra (Some (mcpRequestExtra extra)) = mcpRequestExtra extra"
  by (simp add: mcpRequestExtra_def)

lemma can_ask_extra:
  "clientCanUseReturnBasedElicitation ext (Some (mcpRequestExtra extra)) prov
     = clientCanUseReturnBasedElicitation ext extra prov"
  by (simp add: clientCanUseReturnBasedElicitation_def same_extra)

lemma gate_with_consent:
  assumes "destructiveEffect t args = Inr (Some e)" "e \<noteq> []" "getDestructivePolicy config \<in> {Confirm, Elicit}"
  shows "runWithDestructiveElicitationConsent t (destructiveTargetDigest hmac config args)
    (\<lambda>store. checkDestructive hmac store t args config) = Inr GateAllowed"
  using assms
  by (auto simp: runWithDestructiveElicitationConsent_def checkDestructive_def hasDestructiveElicitationConsent_def)

lemma gate_without_consent:
  assumes "destructiveEffect t args = Inr (Some e)" "e \<noteq> []"
  shows "checkDestructive hmac None t args config = Inr GateAllowed \<longleftrightarrow>
    getDestructivePolicy config = Allow \<or>
    getDestructivePolicy config = Confirm \<and> prop_get args (js ''confirm'') = Bool True"
  using assms
  by (cases "getDestructivePolicy config") (simp_all add: checkDestructive_def hasDestructiveElicitationConsent_def)

lemma executes_simps [simp]:
  "executes (Inr (evs, Original r)) \<longleftrightarrow> r = Inr GateAllowed"
  "\<not> executes (Inr (evs, ToolError err))" "\<not> executes (Inr (evs, InputRequired m s))" "\<not> executes (Inl th)"
  by (auto simp: executes_def)

lemma executes_refused [simp]:
  "\<not> executes (Inr (destructiveElicitationRefused t reason))" "\<not> executes (Inr (refuse_as out t reason))"
  by (simp_all add: destructiveElicitationRefused_def refuse_as_def)

lemma executes_prompt [simp]: "\<not> executes (js_bind m (\<lambda>s. Inr (evs, InputRequired (f s) s)))"
  by (cases m) simp_all

lemma guarded_asks:
  assumes "destructiveEffect t args = Inr (Some e)" "e \<noteq> []" "getDestructivePolicy config \<in> {Confirm, Elicit}"
    and "can_ask ext env extra prov"
  shows "executes (guarded_call ext env penv now t args extra config opts prov) \<longleftrightarrow>
    human_approved ext t e args extra config prov now"
proof -
  let ?x = "mcpRequestExtra extra"
  let ?r = "inputResponse ext (mcpInputResponses ?x) (js ''destructiveConfirmation'')"
  let ?v = "verifyDestructiveElicitationState ext config (mcpRequestState ?x) t e args extra prov now"
  have run: "guarded_call ext env penv now t args extra config opts prov =
      (if ?r = Missing then
         (if mcpRequestState ?x \<noteq> Undefined
          then Inr (destructiveElicitationRefused t (js ''human confirmation was not provided''))
          else js_bind (mintDestructiveElicitationState ext config t e args extra prov now)
            (\<lambda>state. Inr ([Requested], InputRequired (destructiveElicitationMessage penv opts t e args) state)))
       else (case ?v of Inl reason \<Rightarrow> Inr (destructiveElicitationRefused t reason)
         | Inr st \<Rightarrow> (case ?r of
             ElicitResponse action content \<Rightarrow>
               if action \<noteq> js ''accept'' then
                 Inr (refuse_as (if action = js ''decline'' then js ''declined'' else js ''cancelled'')
                   t (js ''human confirmation was '' @ action))
               else if opt_get content (js ''confirm'') \<noteq> Bool True then
                 Inr (destructiveElicitationRefused t (js ''human confirmation did not approve''))
               else Inr ([Accepted], Original (Inr GateAllowed))
           | _ \<Rightarrow> Inr (destructiveElicitationRefused t (js ''human confirmation response was invalid'')))))"
    using assms gate_with_consent [OF assms(1-3), of "hmac256 ext"]
    by (auto simp: guarded_call_def maybeRequireDestructiveElicitation_def Let_def can_ask_def can_ask_extra
        intro!: sum.case_cong input_response.case_cong split: sum.split input_response.split)
  show ?thesis
    unfolding run human_approved_def
    by (cases ?r; cases ?v) simp_all
qed

text \<open>
  (C7) Who can let a destructive call run, wrapper and gate together. Under \<open>elicit\<close> only a human's answer
  to this very call, never the model. Under \<open>confirm\<close> a human's answer, or, only when no human can be
  asked, the model's \<open>confirm: true\<close>: a client that can show the prompt takes that flag's power away.
  Under \<open>allow\<close> every call runs, under \<open>block\<close> none.
\<close>

theorem guarded_call_executes_iff:
  assumes "destructiveEffect t args = Inr (Some e)" "e \<noteq> []"
  shows "executes (guarded_call ext env penv now t args extra config opts prov) \<longleftrightarrow>
    (case getDestructivePolicy config of
       Allow \<Rightarrow> True
     | Block \<Rightarrow> False
     | Elicit \<Rightarrow> can_ask ext env extra prov \<and> human_approved ext t e args extra config prov now
     | Confirm \<Rightarrow> if can_ask ext env extra prov then human_approved ext t e args extra config prov now
         else prop_get args (js ''confirm'') = Bool True)"
proof (cases "getDestructivePolicy config \<in> {Confirm, Elicit} \<and> can_ask ext env extra prov")
  case True
  with guarded_asks [OF assms, of config ext env extra prov penv now opts] show ?thesis by auto
next
  case False
  note gate = gate_without_consent [OF assms, of "hmac256 ext" config]
  show ?thesis
  proof (cases "getDestructivePolicy config")
    case Elicit
    with False have "\<not> destructiveElicitationEnabled env \<or> \<not> clientCanUseReturnBasedElicitation ext extra prov"
      by (simp add: can_ask_def)
    with Elicit False assms show ?thesis
      by (auto simp: guarded_call_def maybeRequireDestructiveElicitation_def Let_def can_ask_extra)
  next
    case Confirm
    with False have "\<not> destructiveElicitationEnabled env \<or> \<not> clientCanUseReturnBasedElicitation ext extra prov"
      by (simp add: can_ask_def)
    with Confirm False assms gate show ?thesis
      by (auto simp: guarded_call_def maybeRequireDestructiveElicitation_def Let_def can_ask_extra)
  qed (use assms gate in \<open>auto simp: guarded_call_def maybeRequireDestructiveElicitation_def Let_def\<close>)
qed

text \<open>A codec for one payload, and requests that use it.\<close>

definition sample_payload :: jsval where
  "sample_payload = state_payload \<lparr>es_toolName = js ''b2_delete_bucket'', es_effect = js ''permanently delete a bucket'',
     es_argsDigest = destructiveTargetDigest (\<lambda>k m. m) sample_config sample_args, es_issuedAt = num_of_nat 1000\<rparr>"

definition sample_ext :: externals where
  "sample_ext =
     \<lparr>capabilities_key = js ''caps'', protocol_key = js ''proto'',
      inputResponse = \<lambda>v k. if v = Undefined then Missing else ElicitResponse (js ''accept'') v,
      createRequestStateCodec = \<lambda>key ttl.
        \<lparr>mint = \<lambda>now p ctx. if p = sample_payload then Inr (now # key) else Inl TypeError,
         verify = \<lambda>now s ctx.
           if s \<noteq> [] \<and> tl s = key \<and> now < hd s + ttl * 1000 then Inr sample_payload else Inl TypeError\<rparr>,
      sha256 = \<lambda>m. m, hmac256 = \<lambda>k m. m\<rparr>"

definition sample_live :: "nat \<Rightarrow> nat \<Rightarrow> nat \<Rightarrow> bool" where
  "sample_live ttl minted now \<longleftrightarrow> now < minted + ttl * 1000"

text \<open>Times in milliseconds at which everything is read at once, and the state that is minted at the first second.\<close>

definition at_once :: "nat \<Rightarrow> readings" where
  "at_once now = \<lparr>own_now = now, codec_now = now\<rparr>"

definition sample_token :: jsstring where
  "sample_token = REQUEST_STATE_PREFIX @ 1000 # destructiveElicitationStateKey sample_ext sample_config"

definition no_providers :: providers where
  "no_providers = \<lparr>getClientCapabilities = None, getProtocolVersion = None, requestStateCodec = None\<rparr>"

lemma sample_codec: "codec_returns sample_ext sample_live"
  by (auto simp: codec_returns_def ttl_clock_def sample_ext_def sample_live_def)

lemma sample_mint:
  "mintDestructiveElicitationState sample_ext sample_config (js ''b2_delete_bucket'')
     (js ''permanently delete a bucket'') sample_args extra no_providers (at_once 1000) = Inr sample_token"
proof -
  have "state_payload (new_state sample_ext sample_config (js ''b2_delete_bucket'')
      (js ''permanently delete a bucket'') sample_args 1000) = sample_payload"
    by (simp add: new_state_def sample_payload_def sample_ext_def)
  then show ?thesis
    by (simp add: mintDestructiveElicitationState_def request_codec_def no_providers_def at_once_def sample_token_def
        createDestructiveElicitationRequestStateCodec_def sample_ext_def [THEN arg_cong, of createRequestStateCodec])
qed

definition rekeyed_config :: b2_config where
  "rekeyed_config = sample_config\<lparr>applicationKey := js ''other''\<rparr>"

lemma rekeyed: "destructiveElicitationKeyMaterial rekeyed_config \<noteq> destructiveElicitationKeyMaterial sample_config"
  by (simp add: destructiveElicitationKeyMaterial_def key_material_def rekeyed_config_def sample_config_def js_simps)

theorem approval_state_roundtrip_witness:
  "(\<exists>st. verifyDestructiveElicitationState sample_ext sample_config (Str sample_token)
      (js ''b2_delete_bucket'') (js ''permanently delete a bucket'') sample_args None no_providers (at_once 600000) = Inr st) \<and>
   \<not> (\<exists>st. verifyDestructiveElicitationState sample_ext sample_config (Str sample_token)
      (js ''b2_delete_bucket'') (js ''permanently delete a bucket'') sample_args None no_providers (at_once 601001) = Inr st) \<and>
   \<not> (\<exists>st. verifyDestructiveElicitationState sample_ext rekeyed_config (Str sample_token)
      (js ''b2_delete_bucket'') (js ''permanently delete a bucket'') sample_args None no_providers (at_once 2000) = Inr st)"
proof -
  have none: "requestStateCodec no_providers = None" by (simp add: no_providers_def)
  have hmac: "\<not> hmac_collision (hmac256 sample_ext) sample_config sample_args sample_args"
    by (simp add: hmac_collision_def)
  have keys: "\<not> key_collision sample_ext sample_config config" for config
    by (simp add: key_collision_def destructiveElicitationStateKey_def sample_ext_def)
  note roundtrip = approval_state_roundtrip [OF sample_codec none none sample_mint sample_wf sample_wf hmac keys]
  have "same_target sample_args sample_args" by (simp add: same_target_def)
  then show ?thesis using rekeyed unfolding roundtrip [THEN conjunct1] by (simp add: at_once_def sample_live_def)
qed

definition sample_request :: "jsval \<Rightarrow> jsval \<Rightarrow> request_extra option" where
  "sample_request responses state = Some
     \<lparr>mcpReq = Some \<lparr>inputResponses = responses, requestState = StateValue state,
        req_clientCapabilities = Obj [(js ''elicitation'', Obj [])],
        envelope = Obj [(js ''proto'', Str (js ''2026-07-28''))]\<rparr>,
      clientCapabilities = Undefined\<rparr>"

theorem guarded_call_executes_iff_witness:
  "executes (guarded_call sample_ext (\<lambda>_. None) [] (at_once 2000) (js ''b2_delete_bucket'') sample_args
     (sample_request (Obj [(js ''confirm'', Bool True)]) (Str sample_token))
     sample_config no_options no_providers) \<and>
   \<not> executes (guarded_call sample_ext (\<lambda>_. None) [] (at_once 2000) (js ''b2_delete_bucket'') sample_args
     (sample_request Undefined Undefined) sample_config no_options no_providers)"
proof -
  note iff = guarded_call_executes_iff [OF sample_effect, where ext = sample_ext and env = "\<lambda>_. None"
      and penv = "[]" and now = "at_once 2000" and args = sample_args and config = sample_config
      and opts = no_options and prov = no_providers]
  let ?r = "sample_request (Obj [(js ''confirm'', Bool True)]) (Str sample_token)"
  have "can_ask sample_ext (\<lambda>_. None) ?r no_providers"
    by (simp add: can_ask_def destructiveElicitationEnabled_def clientCanUseReturnBasedElicitation_def
        requestSupportsReturnBasedInput_def mcpProtocolVersion_def no_providers_def mcpRequestExtra_def
        sample_request_def sample_ext_def opt_get_def RETURN_BASED_INPUT_PROTOCOL_VERSION_def
        clientSupportsFormElicitation_def mcpClientCapabilities_def coalesce_def)
  moreover have "\<exists>st. verifyDestructiveElicitationState sample_ext sample_config (Str sample_token)
      (js ''b2_delete_bucket'') (js ''permanently delete a bucket'') sample_args ?r no_providers (at_once 2000) = Inr st"
    using minted_verifies [OF sample_codec _ _ sample_mint, of no_providers sample_config "codec_now (at_once 2000)" ?r]
    by (simp add: no_providers_def verifyDestructiveElicitationState_def new_state_def expired_num_of_nat
        STATE_MAX_AGE_MS_def at_once_def sample_live_def STATE_TTL_SECONDS_def)
  then have "human_approved sample_ext (js ''b2_delete_bucket'') (js ''permanently delete a bucket'') sample_args ?r
      sample_config no_providers (at_once 2000)"
    by (simp add: human_approved_def mcpRequestExtra_def mcpInputResponses_def mcpRequestState_def
        sample_request_def sample_ext_def opt_get_def)
  moreover have "\<not> human_approved sample_ext (js ''b2_delete_bucket'') (js ''permanently delete a bucket'') sample_args
      (sample_request Undefined Undefined) sample_config no_providers (at_once 2000)"
    by (simp add: human_approved_def mcpRequestExtra_def mcpInputResponses_def sample_request_def sample_ext_def)
  ultimately show ?thesis using iff sample_policy by simp
qed

end
