(* ===== verification/Error_Chain.thy ===== *)
theory Error_Chain
  imports Json_Text
begin

text \<open>
  Error values and the helpers that classify them (\<open>src/utils/named-error.ts\<close>). An object that is thrown
  or is a cause of one is a node of a heap, as a chain of causes may be cyclic; a node has the
  properties as reading them yields them (inherited ones included), its cause, and says whether it is
  an \<open>Error\<close>. Nested data such as \<open>response\<close> and \<open>$metadata\<close> are plain values.
\<close>

section \<open>Error values\<close>

datatype errval = EPrim jsval | ERef nat

record error_node =
  eprops :: jsprops
  ecause :: errval
  is_error :: bool

type_synonym error_heap = "error_node list"

definition no_cause :: errval where
  "no_cause = EPrim Undefined"

definition new_error :: "jsprops \<Rightarrow> error_node" where
  "new_error ps = \<lparr>eprops = ps, ecause = no_cause, is_error = True\<rparr>"

text \<open>\<open>(value as Record<string, unknown>)[key]\<close> on an object; primitives have none of the keys used.\<close>

definition eprop :: "error_heap \<Rightarrow> errval \<Rightarrow> jsstring \<Rightarrow> jsval" where
  "eprop h v k = (case v of ERef a \<Rightarrow> if a < length h then prop_get (eprops (h ! a)) k else Undefined
                          | EPrim x \<Rightarrow> Undefined)"

text \<open>\<open>v?.k\<close>; an array or a primitive has none of the names used.\<close>

definition member_of :: "jsval \<Rightarrow> jsstring \<Rightarrow> jsval" where
  "member_of v k = (case v of Obj ps \<Rightarrow> prop_get ps k | _ \<Rightarrow> Undefined)"

definition named_node :: "jsstring \<Rightarrow> jsstring \<Rightarrow> error_node" where
  "named_node message name = new_error [(js ''name'', Str name), (js ''message'', Str message)]"

definition timeout_node :: "jsstring \<Rightarrow> error_node" where
  "timeout_node message = named_node message (js ''TimeoutError'')"

definition errorCause :: "error_heap \<Rightarrow> errval \<Rightarrow> errval" where
  "errorCause h v = (case v of EPrim x \<Rightarrow> EPrim Undefined
     | ERef a \<Rightarrow> if a < length h then ecause (h ! a) else EPrim Undefined)"

text \<open>\<open>findInCauseChainInner\<close> with its set of visited objects.\<close>

function find_in_chain :: "error_heap \<Rightarrow> (errval \<Rightarrow> 'a option) \<Rightarrow> nat set \<Rightarrow> errval \<Rightarrow> 'a option" where
  "find_in_chain h p seen v =
     (case p v of
        Some r \<Rightarrow> Some r
      | None \<Rightarrow>
          (case v of
             EPrim x \<Rightarrow> None
           | ERef a \<Rightarrow>
               (if a \<in> seen \<or> \<not> a < length h then None
                else if errorCause h v = EPrim Undefined then None
                else find_in_chain h p (insert a seen) (errorCause h v))))"
  by pat_completeness auto
termination
proof (relation "measure (\<lambda>(h, p, seen, v). card ({..<length h} - seen))", goal_cases)
  case (2 h p seen v a)
  then have "a \<in> {..<length h} - seen" by simp
  then have "{..<length h} - insert a seen \<subset> {..<length h} - seen" by blast
  then show ?case by (simp add: psubset_card_mono)
qed simp

declare find_in_chain.simps [simp del]

definition findInCauseChain :: "error_heap \<Rightarrow> errval \<Rightarrow> (errval \<Rightarrow> 'a option) \<Rightarrow> 'a option" where
  "findInCauseChain h v p = find_in_chain h p {} v"

definition stringProperty :: "error_heap \<Rightarrow> errval \<Rightarrow> jsstring \<Rightarrow> jsstring option" where
  "stringProperty h v k = (case eprop h v k of Str s \<Rightarrow> Some s | _ \<Rightarrow> None)"

definition isAbortError :: "error_heap \<Rightarrow> errval \<Rightarrow> bool" where
  "isAbortError h v \<longleftrightarrow> stringProperty h v (js ''name'') = Some (js ''AbortError'')"

definition isTimeoutError :: "error_heap \<Rightarrow> errval \<Rightarrow> bool" where
  "isTimeoutError h v \<longleftrightarrow> stringProperty h v (js ''name'') = Some (js ''TimeoutError'')"

definition RESPONSE_LOST_ERROR_CODES :: "jsstring list" where
  "RESPONSE_LOST_ERROR_CODES = [js ''ECONNRESET'', js ''ECONNABORTED'', js ''UND_ERR_SOCKET'']"

text \<open>The pattern of response-lost messages, without regard to case; the three codes as whole words.\<close>

definition whole_word :: "jsstring \<Rightarrow> jsstring \<Rightarrow> bool" where
  "whole_word w t \<longleftrightarrow>
     (\<exists>i \<in> set [0..<Suc (length t)]. prefix w (drop i t) \<and> (i = 0 \<or> \<not> is_word (t ! (i - 1))) \<and>
        (drop (i + length w) t = [] \<or> \<not> is_word (hd (drop (i + length w) t))))"

definition response_lost_message :: "jsstring \<Rightarrow> bool" where
  "response_lost_message message \<longleftrightarrow>
     (let t = ascii_lower message in
      list_ex (\<lambda>w. whole_word (ascii_lower w) t) RESPONSE_LOST_ERROR_CODES \<or>
      list_ex (js_includes t)
        [js ''socket hang up'', js ''connection reset'', js ''connection aborted'', js ''connection closed'',
         js ''other side closed'', js ''premature close''])"

definition isResponseLostTransportError :: "error_heap \<Rightarrow> errval \<Rightarrow> bool" where
  "isResponseLostTransportError h v =
     (case stringProperty h v (js ''code'') of
        Some c \<Rightarrow> if c \<in> set RESPONSE_LOST_ERROR_CODES then True
          else (case stringProperty h v (js ''message'') of None \<Rightarrow> False | Some m \<Rightarrow> response_lost_message m)
      | None \<Rightarrow> (case stringProperty h v (js ''message'') of None \<Rightarrow> False | Some m \<Rightarrow> response_lost_message m))"

section \<open>The search is exact\<close>

text \<open>The \<open>n\<close>-th value of the chain, while every value before it is an object with a cause.\<close>

fun chain_at :: "error_heap \<Rightarrow> errval \<Rightarrow> nat \<Rightarrow> errval option" where
  "chain_at h v 0 = Some v"
| "chain_at h v (Suc n) =
     (if errorCause h v = EPrim Undefined then None else chain_at h (errorCause h v) n)"

definition first_match :: "error_heap \<Rightarrow> (errval \<Rightarrow> 'a option) \<Rightarrow> errval \<Rightarrow> nat \<Rightarrow> 'a \<Rightarrow> bool" where
  "first_match h p v n r \<longleftrightarrow>
     (\<exists>x. chain_at h v n = Some x \<and> p x = Some r) \<and>
     (\<forall>m < n. \<exists>y. chain_at h v m = Some y \<and> p y = None)"

lemma first_match_0: "first_match h p v 0 r \<longleftrightarrow> p v = Some r"
  by (auto simp: first_match_def)

lemma first_match_Suc:
  "first_match h p v (Suc n) r \<longleftrightarrow>
     p v = None \<and> errorCause h v \<noteq> EPrim Undefined \<and> first_match h p (errorCause h v) n r"
  unfolding first_match_def All_less_Suc2 by auto

lemma first_match_unique: "first_match h p v n r \<Longrightarrow> first_match h p v n' r' \<Longrightarrow> n = n'"
  unfolding first_match_def by (metis linorder_neqE_nat option.distinct(1) option.inject)

lemma first_match_drop:
  "first_match h p v n r \<Longrightarrow> m \<le> n \<Longrightarrow> chain_at h v m = Some w \<Longrightarrow> first_match h p w (n - m) r"
proof (induction m arbitrary: v n)
  case (Suc m)
  obtain k where n: "n = Suc k" using Suc.prems(2) by (cases n) simp_all
  with Suc.prems have "first_match h p (errorCause h v) k r" "chain_at h (errorCause h v) m = Some w"
    by (auto simp: first_match_Suc split: if_splits)
  with Suc.IH [of "errorCause h v" k] Suc.prems(2) n show ?case by simp
qed simp

lemma cause_ref: "errorCause h v \<noteq> EPrim Undefined \<Longrightarrow> \<exists>a. v = ERef a \<and> a < length h"
  by (cases v) (auto simp: errorCause_def split: if_splits)

lemma find_complete:
  assumes "first_match h p v n r" "\<forall>m \<le> n. \<forall>a \<in> seen. chain_at h v m \<noteq> Some (ERef a)"
  shows "find_in_chain h p seen v = Some r"
  using assms
proof (induction n arbitrary: v seen)
  case 0
  then show ?case by (simp add: first_match_0 find_in_chain.simps)
next
  case (Suc n)
  then have f: "p v = None" "errorCause h v \<noteq> EPrim Undefined" "first_match h p (errorCause h v) n r"
    by (simp_all add: first_match_Suc)
  obtain a where a: "v = ERef a" "a < length h" using cause_ref [OF f(2)] by blast
  have new: "a \<notin> seen" using Suc.prems(2) a by (metis chain_at.simps(1) le0)
  have "chain_at h (errorCause h v) m \<noteq> Some (ERef b)" if "m \<le> n" "b \<in> insert a seen" for m b
  proof (cases "b = a")
    case True
    show ?thesis
    proof
      assume "chain_at h (errorCause h v) m = Some (ERef b)"
      with first_match_drop [OF f(3) that(1)] True a have "first_match h p v (n - m) r" by simp
      with first_match_unique [OF Suc.prems(1)] show False by fastforce
    qed
  next
    case False
    with that Suc.prems(2) f(2) show ?thesis by (metis chain_at.simps(2) insertE Suc_le_mono)
  qed
  then have "find_in_chain h p (insert a seen) (errorCause h v) = Some r" using Suc.IH [OF f(3)] by blast
  then show ?case using f(1,2) a new by (subst find_in_chain.simps) simp
qed

lemma find_sound: "find_in_chain h p seen v = Some r \<Longrightarrow> \<exists>n. first_match h p v n r"
proof (induction h p seen v rule: find_in_chain.induct)
  case (1 h p seen v)
  show ?case
  proof (cases "p v")
    case (Some x)
    with "1.prems" have "first_match h p v 0 r" by (simp add: first_match_0 find_in_chain.simps)
    then show ?thesis by blast
  next
    case None
    with "1.prems" obtain a where a: "v = ERef a" "\<not> (a \<in> seen \<or> \<not> a < length h)"
        "errorCause h v \<noteq> EPrim Undefined" "find_in_chain h p (insert a seen) (errorCause h v) = Some r"
      by (subst (asm) find_in_chain.simps) (auto split: errval.splits if_splits)
    from "1.IH" [OF None a] obtain n where "first_match h p (errorCause h v) n r" by blast
    with None a(3) have "first_match h p v (Suc n) r" by (simp add: first_match_Suc)
    then show ?thesis by blast
  qed
qed

text \<open>
  (C28) The walk along the causes is exact, also when they are cyclic: it always returns, and it returns a
  result exactly when some value of the chain matches, the result of the first one that does.
\<close>

theorem cause_search_exact:
  "findInCauseChain h v p = Some r \<longleftrightarrow>
     (\<exists>n. (\<exists>x. chain_at h v n = Some x \<and> p x = Some r) \<and>
          (\<forall>m < n. \<exists>y. chain_at h v m = Some y \<and> p y = None))"
  unfolding findInCauseChain_def
  using find_sound [of h p "{}" v r] find_complete [of h p v _ r "{}"] unfolding first_match_def by blast

theorem cause_search_exact_witness:
  "findInCauseChain [\<lparr>eprops = [], ecause = ERef 1, is_error = True\<rparr>,
       \<lparr>eprops = [(js ''name'', Str (js ''AbortError''))], ecause = ERef 0, is_error = True\<rparr>] (ERef 0)
     (\<lambda>v. if isAbortError [\<lparr>eprops = [], ecause = ERef 1, is_error = True\<rparr>,
       \<lparr>eprops = [(js ''name'', Str (js ''AbortError''))], ecause = ERef 0, is_error = True\<rparr>] v then Some v else None)
     = Some (ERef 1)"
  unfolding cause_search_exact
  by (intro exI [of _ 1]) (auto simp: errorCause_def isAbortError_def stringProperty_def eprop_def)

end
