(* ===== verification/Errors.thy ===== *)
theory Errors
  imports Error_Chain B2_Types Result_Serializer
begin

text \<open>
  Error normalization (\<open>src/utils/errors.ts\<close>): what a thrown value means to the caller
  (\<open>parseB2Error\<close>), the text of a failed tool call, and the parser by which the audit layer takes that
  text apart again. The ambient sanitizer options are an argument.
\<close>

section \<open>Text of a value\<close>

text \<open>\<open>String(v)\<close> for plain data.\<close>

fun js_to_string :: "jsval \<Rightarrow> jsstring" where
  "js_to_string Undefined = js ''undefined''"
| "js_to_string Null = js ''null''"
| "js_to_string (Bool b) = (if b then js ''true'' else js ''false'')"
| "js_to_string (Num n) = number_text n"
| "js_to_string (Str s) = s"
| "js_to_string (Arr vs) = js_join [44] (map (\<lambda>v. if nullish v then [] else js_to_string v) vs)"
| "js_to_string (Obj ps) = js ''[object Object]''"

text \<open>\<open>String(err)\<close>: an \<open>Error\<close> prints its name and message, another object the fixed word.\<close>

definition error_string :: "error_heap \<Rightarrow> errval \<Rightarrow> jsstring" where
  "error_string h v =
     (case v of
        EPrim x \<Rightarrow> js_to_string x
      | ERef a \<Rightarrow>
          if a < length h \<and> is_error (h ! a) then
            (let name = (if eprop h v (js ''name'') = Undefined then js ''Error'' else js_to_string (eprop h v (js ''name'')));
                 msg = (if eprop h v (js ''message'') = Undefined then [] else js_to_string (eprop h v (js ''message'')))
             in if name = [] then msg else if msg = [] then name else name @ js '': '' @ msg)
          else js ''[object Object]'')"

section \<open>Normalization\<close>

record parsed_error =
  pe_status :: jsval
  pe_code :: jsstring
  pe_message :: jsstring
  pe_requestId :: "jsstring option"
  pe_extendedRequestId :: "jsstring option"

definition parsed :: "jsval \<Rightarrow> jsstring \<Rightarrow> jsstring \<Rightarrow> jsstring option \<Rightarrow> parsed_error" where
  "parsed st c m rid =
     \<lparr>pe_status = st, pe_code = c, pe_message = m, pe_requestId = rid, pe_extendedRequestId = None\<rparr>"

fun opt_string :: "jsval \<Rightarrow> jsstring option" where
  "opt_string (Str s) = Some s"
| "opt_string v = None"

definition headerRequestId :: "jsval \<Rightarrow> jsstring option" where
  "headerRequestId headers =
     (case headers of
        Obj h \<Rightarrow>
          (let a = prop_get h (js ''x-bz-request-id''); b = prop_get h (js ''x-amz-request-id'');
               c = prop_get h (js ''x-amz-id-2''); d = prop_get h (js ''x-request-id'')
           in opt_string (if \<not> nullish a then a else if \<not> nullish b then b else if \<not> nullish c then c else d))
      | _ \<Rightarrow> None)"

definition stringOrFallback :: "jsval \<Rightarrow> jsstring \<Rightarrow> jsstring" where
  "stringOrFallback v fallback = (case v of Str s \<Rightarrow> if s \<noteq> [] then s else fallback | _ \<Rightarrow> fallback)"

definition messageOrFallback :: "jsval \<Rightarrow> jsstring \<Rightarrow> jsstring" where
  "messageOrFallback v fallback =
     (case v of
        Str s \<Rightarrow> s
      | _ \<Rightarrow> if nullish v then fallback
             else (case json_stringify v of Some json \<Rightarrow> json | None \<Rightarrow> js_to_string v))"

definition numberOrFallback :: "jsval \<Rightarrow> jsval \<Rightarrow> jsval" where
  "numberOrFallback v fallback = (case v of Num n \<Rightarrow> v | _ \<Rightarrow> fallback)"

fun nonempty_string :: "jsval \<Rightarrow> jsstring option" where
  "nonempty_string (Str s) = (if s \<noteq> [] then Some s else None)"
| "nonempty_string v = None"

definition awsErrorCode :: "error_heap \<Rightarrow> errval \<Rightarrow> jsstring" where
  "awsErrorCode h v =
     (case nonempty_string (eprop h v (js ''Code'')) of
        Some c \<Rightarrow> c
      | None \<Rightarrow> (case nonempty_string (eprop h v (js ''name'')) of Some c \<Rightarrow> c | None \<Rightarrow> js ''unknown_error''))"

definition legacyResponseData :: "jsval \<Rightarrow> jsval" where
  "legacyResponseData resp =
     (if is_object (member_of resp (js ''data'')) then member_of resp (js ''data'') else Obj [])"

definition UNKNOWN_MESSAGE :: jsstring where
  "UNKNOWN_MESSAGE = js ''An unknown error occurred''"

definition codedErrorFromValue :: "error_heap \<Rightarrow> errval \<Rightarrow> parsed_error option" where
  "codedErrorFromValue h v =
     (case (eprop h v (js ''status''), eprop h v (js ''code'')) of
        (Num n, Str c) \<Rightarrow>
          Some (parsed (Num n) c (messageOrFallback (eprop h v (js ''message'')) UNKNOWN_MESSAGE)
            (opt_string (eprop h v (js ''requestId''))))
      | _ \<Rightarrow> None)"

definition aws_error :: "error_heap \<Rightarrow> errval \<Rightarrow> jsval \<Rightarrow> jsval \<Rightarrow> parsed_error" where
  "aws_error h v meta st =
     \<lparr>pe_status = st, pe_code = awsErrorCode h v,
      pe_message = messageOrFallback (eprop h v (js ''message'')) UNKNOWN_MESSAGE,
      pe_requestId = opt_string (member_of meta (js ''requestId'')),
      pe_extendedRequestId = opt_string (member_of meta (js ''extendedRequestId''))\<rparr>"

definition legacy_error :: "jsval \<Rightarrow> jsval \<Rightarrow> parsed_error" where
  "legacy_error resp st =
     parsed st (stringOrFallback (member_of (legacyResponseData resp) (js ''code'')) (js ''unknown_error''))
       (messageOrFallback (member_of (legacyResponseData resp) (js ''message'')) UNKNOWN_MESSAGE)
       (headerRequestId (member_of resp (js ''headers'')))"

definition internal_error :: "jsstring \<Rightarrow> parsed_error" where
  "internal_error msg = parsed (Num (num_of_nat 500)) (js ''internal_error'') msg None"

definition found :: "bool \<Rightarrow> unit option" where
  "found b = (if b then Some () else None)"

definition parseB2Error :: "error_heap \<Rightarrow> errval \<Rightarrow> parsed_error" where
  "parseB2Error h err =
     (case err of
        EPrim x \<Rightarrow> internal_error (error_string h err)
      | ERef a \<Rightarrow>
          (let e = eprop h err;
               meta = (if is_object (e (js ''$metadata'')) then Some (e (js ''$metadata'')) else None);
               resp = (if is_object (e (js ''response'')) then Some (e (js ''response'')) else None)
           in
           case codedErrorFromValue h err of Some p \<Rightarrow> p | None \<Rightarrow>
           (case (meta, map_option (\<lambda>m. member_of m (js ''httpStatusCode'')) meta) of
              (Some m, Some (Num n)) \<Rightarrow> aws_error h err m (Num n)
            | _ \<Rightarrow>
           (case (resp, map_option (\<lambda>r. member_of r (js ''status'')) resp) of
              (Some r, Some (Num n)) \<Rightarrow> legacy_error r (Num n)
            | _ \<Rightarrow>
           (case findInCauseChain h err (codedErrorFromValue h) of Some p \<Rightarrow> p | None \<Rightarrow>
            if findInCauseChain h err (\<lambda>v. found (isTimeoutError h v)) \<noteq> None then
              parsed (Num (num_of_nat 504)) (js ''request_timeout'')
                (messageOrFallback (e (js ''message'')) (js ''The request timed out'')) None
            else if findInCauseChain h err (\<lambda>v. found (isAbortError h v)) \<noteq> None then
              parsed (Num (num_of_nat 499)) (js ''request_aborted'')
                (messageOrFallback (e (js ''message'')) (js ''The request was aborted'')) None
            else
             (case meta of
                Some m \<Rightarrow> aws_error h err m (Num (num_of_nat 500))
              | None \<Rightarrow>
             (case resp of
                Some r \<Rightarrow> legacy_error r (numberOrFallback (member_of r (js ''status'')) (Num (num_of_nat 500)))
              | None \<Rightarrow>
             (case (e (js ''code''), e (js ''message'')) of
                (Str c, Str m) \<Rightarrow>
                  parsed (if nullish (e (js ''status'')) then Num (num_of_nat 500) else e (js ''status''))
                    c m (opt_string (e (js ''requestId'')))
              | _ \<Rightarrow>
                  if truthy (e (js ''message''))
                  then internal_error (messageOrFallback (e (js ''message'')) UNKNOWN_MESSAGE)
                  else internal_error (error_string h err)))))))))"

definition operation_status_unknown_message :: "jsstring \<Rightarrow> error_heap \<Rightarrow> errval \<Rightarrow> jsstring" where
  "operation_status_unknown_message operation h cause =
     js ''B2 operation '' @ operation @ js '' was interrupted before the MCP server received B2's final response. '' @
     js ''The operation may have completed at B2; verify the resource state before retrying.'' @
     (case cause of
        ERef a \<Rightarrow>
          if a < length h \<and> is_error (h ! a) \<and> truthy (eprop h cause (js ''message''))
          then js '' Last local error: '' @ js_to_string (eprop h cause (js ''message'')) @ js ''.'' else []
      | EPrim x \<Rightarrow> [])"

definition operationStatusUnknownError :: "jsstring \<Rightarrow> error_heap \<Rightarrow> errval \<Rightarrow> error_node" where
  "operationStatusUnknownError operation h cause =
     \<lparr>eprops = [(js ''name'', Str (js ''Error'')),
                (js ''message'', Str (operation_status_unknown_message operation h cause)),
                (js ''status'', Num (num_of_nat 409)), (js ''code'', Str (js ''operation_status_unknown''))],
      ecause = cause, is_error = True\<rparr>"

section \<open>The text of a failed call\<close>

definition errorHint :: "parsed_error \<Rightarrow> jsstring" where
  "errorHint p =
     (if pe_code p = js ''InvalidAccessKeyId'' \<or>
         js_includes (ascii_lower (pe_message p)) (js ''malformed access key id'')
      then js '' '' @ [8212] @ js '' B2's S3-compatible API (used by the s3_* and insight tools) only accepts a regular '' @
        js ''application key, not an account master key. If you're connecting with a master key, switch '' @
        js ''B2_APPLICATION_KEY_ID / B2_APPLICATION_KEY to a non-master application key for S3 tools.''
      else [])"

definition formatB2Error :: "jsprops \<Rightarrow> sanitizer_options \<Rightarrow> error_heap \<Rightarrow> errval \<Rightarrow> jsstring" where
  "formatB2Error penv opts h err =
     (let p = parseB2Error h err;
          code = sanitizeProviderCode penv (Some (pe_code p)) opts;
          base = js ''B2 Error ['' @ code @ js ''] (HTTP '' @ js_to_string (pe_status p) @ js ''): '' @
            sanitizeText penv (pe_message p) opts @ errorHint p
      in case sanitizeProviderRequestId penv (pe_requestId p) opts of
           Some rid \<Rightarrow> if rid \<noteq> [] then base @ js '' (requestId: '' @ rid @ js '')'' else base
         | None \<Rightarrow> base)"

text \<open>
  A tool response carries a hidden mark when sanitizer options are installed.
\<close>

record error_response =
  er_isError :: bool
  er_text :: jsstring
  er_sanitized :: bool

definition toolError :: "jsprops \<Rightarrow> sanitizer_options option \<Rightarrow> error_heap \<Rightarrow> errval \<Rightarrow> error_response" where
  "toolError penv store h err =
     \<lparr>er_isError = True,
      er_text = formatB2Error penv (case store of None \<Rightarrow> no_options | Some o' \<Rightarrow> o') h err,
      er_sanitized = (store \<noteq> None)\<rparr>"

definition toolSuccess :: "jsprops \<Rightarrow> sanitizer_options option \<Rightarrow> jsstring \<Rightarrow> error_response" where
  "toolSuccess penv store t =
     \<lparr>er_isError = False,
      er_text = sanitizeText penv t (case store of None \<Rightarrow> no_options | Some o' \<Rightarrow> o'),
      er_sanitized = (store \<noteq> None)\<rparr>"

definition isSanitizedMcpResponse :: "error_response option \<Rightarrow> bool" where
  "isSanitizedMcpResponse response = (case response of None \<Rightarrow> False | Some r \<Rightarrow> er_sanitized r)"

section \<open>Taking the text apart\<close>

text \<open>
  The regular expression of \<open>parseErrorText\<close>: a fixed head, the code (greedy, on one line), the status,
  and a request id at the very end if there is one (the leftmost place where the rest of the text reads
  as one). \<open>status_at\<close> reads the status and what follows it behind a candidate for the code's end.
\<close>

definition ERROR_HEAD :: jsstring where "ERROR_HEAD = js ''B2 Error [''"
definition STATUS_HEAD :: jsstring where "STATUS_HEAD = js ''] (HTTP ''"
definition STATUS_END :: jsstring where "STATUS_END = js ''): ''"
definition REQUEST_ID_HEAD :: jsstring where "REQUEST_ID_HEAD = js '' (requestId: ''"

definition status_at :: "jsstring \<Rightarrow> (nat \<times> jsstring) option" where
  "status_at s =
     (if prefix STATUS_HEAD s then
        (let r = drop (length STATUS_HEAD) s; ds = takeWhile is_digit r; q = dropWhile is_digit r in
         if ds \<noteq> [] \<and> prefix STATUS_END q then Some (undecimal ds, drop (length STATUS_END) q) else None)
      else None)"

definition one_line_text :: "jsstring \<Rightarrow> bool" where
  "one_line_text s \<longleftrightarrow> list_all (\<lambda>c. \<not> line_terminator c) s"

text \<open>The greedy code: the longest prefix that is not empty, on one line and followed by a status.\<close>

definition code_ends :: "jsstring \<Rightarrow> nat list" where
  "code_ends s = filter (\<lambda>i. one_line_text (take i s) \<and> status_at (drop i s) \<noteq> None) [1..<Suc (length s)]"

definition request_id_at :: "jsstring \<Rightarrow> jsstring option" where
  "request_id_at s =
     (let r = drop (length REQUEST_ID_HEAD) s in
      if prefix REQUEST_ID_HEAD s \<and> 2 \<le> length r \<and> last r = 41 \<and> one_line_text (butlast r)
      then Some (butlast r) else None)"

fun trailing_request_id :: "jsstring \<Rightarrow> jsstring option" where
  "trailing_request_id [] = None"
| "trailing_request_id (c # cs) =
     (case request_id_at (c # cs) of Some r \<Rightarrow> Some r | None \<Rightarrow> trailing_request_id cs)"

record error_text =
  et_code :: jsstring
  et_status :: nat
  et_requestId :: "jsstring option"

definition parseErrorText :: "jsstring \<Rightarrow> error_text option" where
  "parseErrorText t =
     (if \<not> prefix ERROR_HEAD t then None
      else
        (let s = drop (length ERROR_HEAD) t; ends = code_ends s in
         if ends = [] then None
         else (case status_at (drop (last ends) s) of
             None \<Rightarrow> None
           | Some (st, rest) \<Rightarrow>
               Some \<lparr>et_code = take (last ends) s, et_status = st, et_requestId = trailing_request_id rest\<rparr>)))"


section \<open>The text and its parser agree\<close>

text \<open>The error text by its parts: the printed message with its hint is the only free part.\<close>

definition printed_message :: "jsprops \<Rightarrow> sanitizer_options \<Rightarrow> parsed_error \<Rightarrow> jsstring" where
  "printed_message penv opts p = sanitizeText penv (pe_message p) opts @ errorHint p"

definition request_id_tail :: "jsstring option \<Rightarrow> jsstring" where
  "request_id_tail r = (case r of None \<Rightarrow> [] | Some rid \<Rightarrow> REQUEST_ID_HEAD @ rid @ [41])"

lemmas error_text_heads = ERROR_HEAD_def STATUS_HEAD_def STATUS_END_def REQUEST_ID_HEAD_def

lemma sanitized_identifier_nonempty: "sanitizedIdentifier penv c P opts \<noteq> Some []"
  by (auto simp: sanitizedIdentifier_def REDACTED_def split: option.splits)

lemma formatB2Error_parts:
  "formatB2Error penv opts h err =
     ERROR_HEAD @ sanitizeProviderCode penv (Some (pe_code (parseB2Error h err))) opts @ STATUS_HEAD @
     js_to_string (pe_status (parseB2Error h err)) @ STATUS_END @ printed_message penv opts (parseB2Error h err) @
     request_id_tail (sanitizeProviderRequestId penv (pe_requestId (parseB2Error h err)) opts)"
  using sanitized_identifier_nonempty [of penv "pe_requestId (parseB2Error h err)"]
  by (auto simp: formatB2Error_def Let_def printed_message_def request_id_tail_def error_text_heads js_def
      sanitizeProviderRequestId_def split: option.splits)

lemma status_at_text:
  "status_at (STATUS_HEAD @ decimal n @ STATUS_END @ r) = Some (n, r)"
proof -
  have nd: "\<not> is_digit 41" by (simp add: is_digit_def)
  then have "takeWhile is_digit (decimal n @ STATUS_END @ r) = decimal n"
    by (simp add: takeWhile_append decimal_digits STATUS_END_def js_def)
  moreover have "dropWhile is_digit (decimal n @ STATUS_END @ r) = STATUS_END @ r"
    using nd by (simp add: dropWhile_append decimal_digits STATUS_END_def js_def)
  ultimately show ?thesis by (simp add: status_at_def Let_def)
qed

lemma last_filter_upt:
  assumes "P k" "a \<le> k" "k < b" "\<And>i. k < i \<Longrightarrow> i < b \<Longrightarrow> \<not> P i"
  shows "filter P [a..<b] \<noteq> [] \<and> last (filter P [a..<b]) = k"
proof -
  have "[a..<b] = [a..<k] @ [k] @ [Suc k..<b]"
    using upt_add_eq_append [OF assms(2), of "b - k"] assms(3) by (simp add: upt_conv_Cons)
  moreover have "filter P [Suc k..<b] = []" using assms(4) by (auto simp: filter_empty_conv)
  ultimately show ?thesis using assms(1) by simp
qed

lemma trailing_request_id_skip:
  assumes "\<And>i. i < length u \<Longrightarrow> request_id_at (drop i (u @ v)) = None"
  shows "trailing_request_id (u @ v) = trailing_request_id v"
  using assms
proof (induction u)
  case (Cons c u)
  have "request_id_at (drop i (u @ v)) = None" if "i < length u" for i
    using Cons.prems [of "Suc i"] that by simp
  with Cons.IH Cons.prems [of 0] show ?case by simp
qed simp

lemma sublist_skip: "p \<noteq> [] \<Longrightarrow> hd p \<notin> set u \<Longrightarrow> sublist p (u @ v) \<Longrightarrow> sublist p v"
  by (induction u) (auto simp: sublist_Cons_right prefix_def neq_Nil_conv)

text \<open>Behind the code there is no second status, and no request id before the last part.\<close>

lemma no_status_in_tail:
  assumes "r = None \<or> r = Some REDACTED \<or> (\<exists>s. r = Some s \<and> 93 \<notin> set s)"
  shows "\<not> sublist (js ''] (HTTP'') (request_id_tail r)"
proof (cases "r = Some REDACTED")
  case True
  then show ?thesis
    by (simp add: request_id_tail_def REQUEST_ID_HEAD_def REDACTED_def js_def sublist_Cons_right)
next
  case False
  then have "93 \<notin> set (request_id_tail r)"
    using assms by (auto simp: request_id_tail_def REQUEST_ID_HEAD_def js_def)
  then show ?thesis
    using sublist_skip [of "js ''] (HTTP''" "request_id_tail r" "[]"] by (auto simp: js_def)
qed

lemma no_second_status:
  assumes "\<not> sublist (js ''] (HTTP'') body" "\<not> sublist (js ''] (HTTP'') (request_id_tail r)"
  shows "\<not> sublist (js ''] (HTTP'') (body @ request_id_tail r)"
proof
  assume "sublist (js ''] (HTTP'') (body @ request_id_tail r)"
  with assms obtain a b where ab: "js ''] (HTTP'' = a @ b" "suffix a body" "prefix b (request_id_tail r)"
    by (auto simp: sublist_append)
  have "b \<noteq> []" using ab assms(1) by (auto dest: suffix_imp_sublist)
  moreover have "a \<noteq> []" using ab assms(2) by (auto dest: prefix_imp_sublist)
  ultimately obtain c b' d a' where cs: "b = c # b'" "a = d # a'" by (auto simp: neq_Nil_conv)
  have "prefix b (js '' (requestId: '' @ the r @ [41])"
    using ab(3) cs by (cases r) (simp_all add: request_id_tail_def REQUEST_ID_HEAD_def)
  with ab(1) cs show False
    by (auto simp: js_def Cons_eq_append_conv append_eq_Cons_conv prefix_Cons)
qed

lemma request_id_at_in_body:
  assumes "\<not> sublist (js '' (requestId:'') body" "i < length body"
  shows "request_id_at (drop i (body @ request_id_tail r)) = None"
proof -
  have "\<not> prefix REQUEST_ID_HEAD (drop i body @ request_id_tail r)"
  proof
    assume "prefix REQUEST_ID_HEAD (drop i body @ request_id_tail r)"
    moreover have w: "drop i body \<noteq> []" using assms(2) by simp
    moreover have no: "\<not> prefix (js '' (requestId:'') (drop i body)"
      using assms(1) sublist_drop prefix_imp_sublist sublist_order.order_trans by blast
    moreover have "prefix (js '' (requestId:'') REQUEST_ID_HEAD"
      by (rule prefixI [of _ _ "[32]"]) (simp add: REQUEST_ID_HEAD_def js_def)
    ultimately obtain us where us: "REQUEST_ID_HEAD = drop i body @ us" "prefix us (request_id_tail r)"
      by (auto simp: prefix_append intro: prefix_order.trans)
    have "us = [] \<or> (\<exists>us'. us = 32 # us')"
      using us(2) by (cases us; cases r) (auto simp: request_id_tail_def REQUEST_ID_HEAD_def js_def)
    then have "drop i body = REQUEST_ID_HEAD \<or> drop i body = js '' (requestId:''"
      using us(1) w by (auto simp: REQUEST_ID_HEAD_def js_def Cons_eq_append_conv)
    with no show False by (auto simp: REQUEST_ID_HEAD_def)
  qed
  then show ?thesis using assms(2) by (simp add: request_id_at_def Let_def)
qed

lemma trailing_request_id_tail:
  assumes "r = None \<or> (\<exists>s. r = Some s \<and> s \<noteq> [] \<and> one_line_text s)"
  shows "trailing_request_id (request_id_tail r) = r"
proof (cases r)
  case (Some s)
  with assms have "request_id_at (request_id_tail r) = Some s"
    by (cases s) (auto simp: request_id_at_def request_id_tail_def)
  with Some show ?thesis by (cases "request_id_tail r") (auto simp: request_id_tail_def)
qed (simp add: request_id_tail_def)

lemma sanitized_identifier_shape:
  assumes "sanitizedIdentifier penv c (identifier_shape P n) opts = Some s"
    "\<And>x. P x \<Longrightarrow> x \<noteq> 93 \<and> \<not> line_terminator x"
  shows "s \<noteq> [] \<and> one_line_text s \<and> (s = REDACTED \<or> 93 \<notin> set s)"
proof (cases "s = REDACTED")
  case True
  then show ?thesis by (simp add: REDACTED_def one_line_text_def js_def line_terminator_def)
next
  case False
  with assms(1) have "identifier_shape P n s"
    by (auto simp: sanitizedIdentifier_def split: option.splits if_splits)
  then obtain c r where s: "s = c # r" "is_alnum c" "\<forall>x \<in> set r. P x"
    by (auto simp: identifier_shape_def split: list.splits)
  have "c \<noteq> 93 \<and> \<not> line_terminator c"
    using s(2) by (auto simp: char_class_defs line_terminator_def)
  with s assms(2) show ?thesis by (auto simp: one_line_text_def list_all_iff)
qed

lemma printed_code_shape:
  "sanitizeProviderCode penv c opts \<noteq> [] \<and> one_line_text (sanitizeProviderCode penv c opts)"
proof (cases "sanitizedIdentifier penv c (identifier_shape code_unit 127) opts")
  case None
  then show ?thesis
    by (simp add: sanitizeProviderCode_def one_line_text_def js_def line_terminator_def)
next
  case (Some s)
  have "x \<noteq> 93 \<and> \<not> line_terminator x" if "code_unit x" for x
    using that by (auto simp: code_unit_def char_class_defs line_terminator_def)
  with sanitized_identifier_shape [OF Some] Some show ?thesis by (simp add: sanitizeProviderCode_def)
qed

lemma printed_request_id_shape:
  "sanitizeProviderRequestId penv c opts = Some s \<Longrightarrow>
     s \<noteq> [] \<and> one_line_text s \<and> (s = REDACTED \<or> 93 \<notin> set s)"
proof -
  assume s: "sanitizeProviderRequestId penv c opts = Some s"
  have "x \<noteq> 93 \<and> \<not> line_terminator x" if "request_id_unit x" for x
    using that by (auto simp: request_id_unit_def char_class_defs line_terminator_def)
  with sanitized_identifier_shape [OF s [unfolded sanitizeProviderRequestId_def]] show ?thesis by blast
qed

text \<open>The parser on a text made of its parts.\<close>

lemma parse_parts:
  assumes "c \<noteq> []" "one_line_text c" "\<not> sublist (js ''] (HTTP'') body" "\<not> sublist (js '' (requestId:'') body"
    "\<And>s. r = Some s \<Longrightarrow> s \<noteq> [] \<and> one_line_text s \<and> (s = REDACTED \<or> 93 \<notin> set s)"
  shows "parseErrorText (ERROR_HEAD @ c @ STATUS_HEAD @ decimal n @ STATUS_END @ body @ request_id_tail r) =
    Some \<lparr>et_code = c, et_status = n, et_requestId = r\<rparr>"
proof -
  let ?rest = "body @ request_id_tail r"
  let ?s = "c @ STATUS_HEAD @ decimal n @ STATUS_END @ ?rest"
  let ?P = "\<lambda>i. one_line_text (take i ?s) \<and> status_at (drop i ?s) \<noteq> None"
  have rest: "\<not> sublist (js ''] (HTTP'') ?rest"
    using no_second_status [OF assms(3) no_status_in_tail [of r]] assms(5) by (cases r) auto
  have late: "\<not> ?P i" if "length c < i" "i < Suc (length ?s)" for i
  proof
    assume "?P i"
    then have "prefix STATUS_HEAD (drop i ?s)" by (auto simp: status_at_def split: if_splits)
    moreover have "drop i ?s = drop (i - Suc (length c)) (tl STATUS_HEAD @ decimal n @ STATUS_END @ ?rest)"
    proof -
      obtain k where k: "i = Suc (length c + k)" using \<open>length c < i\<close> less_iff_Suc_add by auto
      have "drop (Suc k) (STATUS_HEAD @ u) = drop k (tl STATUS_HEAD @ u)" for u
        by (simp add: drop_Suc STATUS_HEAD_def js_def del: drop_append)
      moreover have "drop i (c @ u) = drop (Suc k) u" for u using k by simp
      ultimately show ?thesis using k by (simp del: drop_append)
    qed
    ultimately have "sublist STATUS_HEAD (tl STATUS_HEAD @ decimal n @ STATUS_END @ ?rest)"
      using prefix_imp_sublist sublist_drop sublist_order.order_trans by metis
    moreover have "sublist (js ''] (HTTP'') STATUS_HEAD"
      by (rule prefix_imp_sublist, rule prefixI [of _ _ "[32]"]) (simp add: STATUS_HEAD_def js_def)
    ultimately have "sublist (js ''] (HTTP'') ((tl STATUS_HEAD @ decimal n @ STATUS_END) @ ?rest)"
      by (auto intro: sublist_order.order_trans)
    moreover have "hd (js ''] (HTTP'') \<notin> set (tl STATUS_HEAD @ decimal n @ STATUS_END)"
      using decimal_digits [of 93 n] by (auto simp: STATUS_HEAD_def STATUS_END_def js_def is_digit_def)
    moreover have "js ''] (HTTP'' \<noteq> []" by simp
    ultimately show False using rest sublist_skip by blast
  qed
  have at: "?P (length c)" using assms(2) by (simp add: status_at_text)
  have "filter ?P [1..<Suc (length ?s)] \<noteq> [] \<and> last (filter ?P [1..<Suc (length ?s)]) = length c"
    using at late assms(1) by (intro last_filter_upt) (auto simp: Suc_le_eq)
  then have ends: "code_ends ?s \<noteq> [] \<and> last (code_ends ?s) = length c" by (simp add: code_ends_def)
  have "trailing_request_id ?rest = trailing_request_id (request_id_tail r)"
    by (rule trailing_request_id_skip, rule request_id_at_in_body [OF assms(4)])
  also have "\<dots> = r" using assms(5) by (intro trailing_request_id_tail) (cases r; auto)
  finally show ?thesis using ends by (simp add: parseErrorText_def Let_def status_at_text)
qed

definition sample_error :: "jsstring \<Rightarrow> error_heap" where
  "sample_error m =
     [\<lparr>eprops = [(js ''status'', Num (num_of_nat 7)), (js ''code'', Str (js ''no'')), (js ''message'', Str m)],
       ecause = EPrim Undefined, is_error = True\<rparr>]"

lemma sample_error_parsed:
  "parseB2Error (sample_error m) (ERef 0) = parsed (Num (num_of_nat 7)) (js ''no'') m None"
  by (simp add: parseB2Error_def codedErrorFromValue_def sample_error_def eprop_def prop_get_def num_of_nat_def
      messageOrFallback_def)

lemma status_text_7: "js_to_string (Num (num_of_nat 7)) = decimal 7"
  by (simp add: num_of_nat_def strip10.simps number_text_def)

text \<open>A short text without a scheme, in which only white space follows a separator, is printed as it is.\<close>

lemma plain_text_printed:
  assumes "configuredSecretValues penv opts = []" "length t < 21" "66 \<notin> set t" "silent sep_unit filler t"
  shows "sanitizeText penv t opts = t"
proof (rule clean_text)
  show "\<forall>s \<in> set (configuredSecretValues penv opts). \<not> sublist s t" using assms(1) by simp
  fix q
  have "66 \<notin> set (drop q t)" using assms(3) by (auto dest: in_set_dropD)
  then have "match_bearer (drop q t) = None"
    by (cases "drop q t") (auto simp: match_bearer_def match_after_scheme_def js_def)
  moreover have "match_labeled (drop q t) = None"
    using labeled_not_silent [of "drop q t"] silent_drop [OF assms(4)] by (cases "match_labeled (drop q t)") blast+
  ultimately show "match_canary (drop q t) = None \<and> match_bearer (drop q t) = None \<and> match_labeled (drop q t) = None"
    using assms(2) by (simp add: short_no_canary)
qed

lemma no_configured: "configuredSecretValues [] no_options = []"
  by (simp add: configuredSecretValues_def configuredSecretValuesFromEnv_def candidates_def
      env_of_def no_options_def js_unique_def List.map_filter_def)

lemma quiet_silent: "\<forall>c \<in> set t. \<not> sep_unit c \<Longrightarrow> silent sep_unit filler t"
  by (auto simp: silent_def)

text \<open>
  The audit reads what was written: from the text of a failed call the parser recovers the printed code, the
  status and the printed request id, whenever the printed message does not itself read like a status or a
  request id.
\<close>

theorem error_text_roundtrip:
  assumes "js_to_string (pe_status (parseB2Error h err)) = decimal n"
    "\<not> sublist (js ''] (HTTP'') (printed_message penv opts (parseB2Error h err))"
    "\<not> sublist (js '' (requestId:'') (printed_message penv opts (parseB2Error h err))"
  shows "parseErrorText (formatB2Error penv opts h err) =
    Some \<lparr>et_code = sanitizeProviderCode penv (Some (pe_code (parseB2Error h err))) opts, et_status = n,
      et_requestId = sanitizeProviderRequestId penv (pe_requestId (parseB2Error h err)) opts\<rparr>"
  unfolding formatB2Error_parts assms(1)
  using printed_code_shape assms(2,3) printed_request_id_shape
  by (intro parse_parts) auto

theorem error_text_roundtrip_witness:
  "parseErrorText (formatB2Error [] no_options (sample_error (js ''hi'')) (ERef 0)) =
    Some \<lparr>et_code = sanitizeProviderCode [] (Some (js ''no'')) no_options, et_status = 7, et_requestId = None\<rparr>"
proof -
  have "sanitizeText [] (js ''hi'') no_options = js ''hi''"
    by (rule plain_text_printed [OF no_configured]) (auto intro!: quiet_silent simp: js_def sep_unit_def)
  then have "printed_message [] no_options (parsed (Num (num_of_nat 7)) (js ''no'') (js ''hi'') None) = js ''hi''"
    by (simp add: printed_message_def parsed_def errorHint_def js_includes_def js_def ascii_lower_def sublist_Cons_right)
  then show ?thesis
    using error_text_roundtrip [of "sample_error (js ''hi'')" "ERef 0" 7 "[]" no_options]
    using status_text_7
    by (simp add: sample_error_parsed parsed_def js_def sublist_Cons_right
        sanitizeProviderRequestId_def sanitizedIdentifier_def)
qed

text \<open>
  A message can forge what the audit reads: when the printed message itself reads like the end of a code and
  a status, the parser takes the status of the message for the status of the call and the real one for a part of
  the code.
\<close>

theorem message_forges_status:
  assumes "js_to_string (pe_status (parseB2Error h err)) = decimal n"
    "printed_message penv opts (parseB2Error h err) = a @ STATUS_HEAD @ decimal k @ STATUS_END @ b"
    "one_line_text a" "\<not> sublist (js ''] (HTTP'') b" "\<not> sublist (js '' (requestId:'') b"
  shows "\<exists>c. parseErrorText (formatB2Error penv opts h err) = Some \<lparr>et_code = c, et_status = k,
      et_requestId = sanitizeProviderRequestId penv (pe_requestId (parseB2Error h err)) opts\<rparr>"
proof -
  let ?c = "sanitizeProviderCode penv (Some (pe_code (parseB2Error h err))) opts"
  let ?c' = "?c @ STATUS_HEAD @ decimal n @ STATUS_END @ a"
  have "one_line_text STATUS_HEAD" "one_line_text STATUS_END" "one_line_text (decimal n)"
    using decimal_digits [of 10 n] decimal_digits [of 13 n] decimal_digits [of 8232 n] decimal_digits [of 8233 n]
    by (auto simp: error_text_heads one_line_text_def js_def line_terminator_def list_all_iff is_digit_def)
  then have "one_line_text ?c'" "?c' \<noteq> []"
    using printed_code_shape [of penv "Some (pe_code (parseB2Error h err))" opts] assms(3)
    by (auto simp: one_line_text_def)
  from parse_parts [OF this(2,1) assms(4,5) printed_request_id_shape]
  show ?thesis unfolding formatB2Error_parts assms(1,2) by simp
qed

theorem message_forges_status_witness:
  "\<exists>c. parseErrorText (formatB2Error [] no_options (sample_error (js ''a] (HTTP 200): '')) (ERef 0)) =
    Some \<lparr>et_code = c, et_status = 200, et_requestId = None\<rparr>"
proof -
  have "silent sep_unit filler (js ''a] (HTTP 200)'' @ 58 # js '' '')"
    by (rule silent_intro) (auto simp: js_def sep_unit_def filler_def js_space_def)
  then have "silent sep_unit filler (js ''a] (HTTP 200): '')" by (simp add: js_def)
  then have "sanitizeText [] (js ''a] (HTTP 200): '') no_options = js ''a] (HTTP 200): ''"
    by (rule plain_text_printed [OF no_configured, rotated 2]) (auto simp: js_def)
  then have "printed_message [] no_options (parsed (Num (num_of_nat 7)) (js ''no'') (js ''a] (HTTP 200): '') None) =
      js ''a'' @ STATUS_HEAD @ decimal 200 @ STATUS_END @ []"
    by (simp add: printed_message_def parsed_def errorHint_def js_includes_def js_def ascii_lower_def sublist_Cons_right
        error_text_heads)
  then show ?thesis
    using message_forges_status [of "sample_error (js ''a] (HTTP 200): '')" "ERef 0" 7 "[]" no_options "js ''a''" 200 "[]"]
    using status_text_7
    by (simp add: sample_error_parsed parsed_def js_def one_line_text_def
        sanitizeProviderRequestId_def sanitizedIdentifier_def line_terminator_def)
qed

end
