(* ===== verification/Circuit_Breaker.thy ===== *)
theory Circuit_Breaker
  imports Error_Chain Js_Num_Value
begin

text \<open>
  The circuit breakers (\<open>src/utils/circuit-breaker.ts\<close>): which failures count against a breaker, the six
  breakers created on first use, and the deadline signal of a call. The breaker itself is the package
  opossum, a parameter: an instance and what firing an action does to it.
\<close>

section \<open>Which failures count\<close>

definition OPERATION_STATUS_UNKNOWN_CODE :: jsstring where
  "OPERATION_STATUS_UNKNOWN_CODE = js ''operation_status_unknown''"

definition isAbortLikeError :: "error_heap \<Rightarrow> errval \<Rightarrow> bool" where
  "isAbortLikeError h v \<longleftrightarrow>
     eprop h v (js ''name'') = Str (js ''AbortError'') \<or> eprop h v (js ''code'') = Str (js ''ABORT_ERR'')"

definition errorCode :: "error_heap \<Rightarrow> errval \<Rightarrow> jsstring option" where
  "errorCode h v =
     (case eprop h v (js ''code'') of
        Str c \<Rightarrow> Some c
      | _ \<Rightarrow> (case member_of (member_of (eprop h v (js ''response'')) (js ''data'')) (js ''code'') of
               Str c \<Rightarrow> Some c | _ \<Rightarrow> None))"

definition select :: "(errval \<Rightarrow> bool) \<Rightarrow> errval \<Rightarrow> errval option" where
  "select P v = (if P v then Some v else None)"

definition operationStatusUnknownNode :: "error_heap \<Rightarrow> errval \<Rightarrow> errval option" where
  "operationStatusUnknownNode h err =
     findInCauseChain h err (select (\<lambda>v. errorCode h v = Some OPERATION_STATUS_UNKNOWN_CODE))"

definition provider_interruption :: "error_heap \<Rightarrow> errval \<Rightarrow> bool" where
  "provider_interruption h v \<longleftrightarrow> \<not> isAbortError h v \<and> (isTimeoutError h v \<or> isResponseLostTransportError h v)"

definition isCallerAbortAmbiguity :: "error_heap \<Rightarrow> errval \<Rightarrow> bool" where
  "isCallerAbortAmbiguity h n =
     (let cause = errorCause h n in
      if findInCauseChain h cause (select (provider_interruption h)) \<noteq> None then False
      else findInCauseChain h cause (select (isAbortError h)) \<noteq> None)"

definition error_status :: "error_heap \<Rightarrow> errval \<Rightarrow> jsval" where
  "error_status h err =
     (let own = eprop h err (js ''status'');
          resp = member_of (eprop h err (js ''response'')) (js ''status'') in
      if \<not> nullish own then own
      else if \<not> nullish resp then resp
      else member_of (eprop h err (js ''$metadata'')) (js ''httpStatusCode''))"

definition isClientError :: "error_heap \<Rightarrow> errval \<Rightarrow> bool" where
  "isClientError h err =
     (case operationStatusUnknownNode h err of
        Some n \<Rightarrow> isCallerAbortAmbiguity h n
      | None \<Rightarrow>
          if isAbortLikeError h err then True
          else (case error_status h err of
                  Num n \<Rightarrow> if num_eq n 408 \<or> num_eq n 429 then False else num_ge n 400 \<and> num_less n 500
                | _ \<Rightarrow> False))"

subsection \<open>What the classification says of the chain of causes\<close>

definition in_chain :: "error_heap \<Rightarrow> errval \<Rightarrow> (errval \<Rightarrow> bool) \<Rightarrow> bool" where
  "in_chain h v P \<longleftrightarrow> (\<exists>n x. chain_at h v n = Some x \<and> P x)"

lemma chain_at_prefix: "chain_at h v n = Some x \<Longrightarrow> m \<le> n \<Longrightarrow> \<exists>y. chain_at h v m = Some y"
proof (induction n arbitrary: v m)
  case (Suc n)
  then show ?case by (cases m) (auto split: if_splits)
qed simp

lemma find_first_match: "findInCauseChain h v p = Some r \<longleftrightarrow> (\<exists>n. first_match h p v n r)"
  unfolding findInCauseChain_def
  using find_sound [of h p "{}" v r] find_complete [of h p v _ r "{}"] by blast

lemma find_select: "findInCauseChain h v (select P) \<noteq> None \<longleftrightarrow> in_chain h v P"
proof
  assume "findInCauseChain h v (select P) \<noteq> None"
  then obtain n r where "first_match h (select P) v n r" using find_first_match by fast
  then show "in_chain h v P"
    by (auto simp: first_match_def in_chain_def select_def split: if_splits)
next
  assume "in_chain h v P"
  then obtain n x where nx: "chain_at h v n = Some x" "P x" by (auto simp: in_chain_def)
  define Q where "Q k \<longleftrightarrow> (\<exists>y. chain_at h v k = Some y \<and> P y)" for k
  have "Q n" using nx by (auto simp: Q_def)
  then obtain y where y: "chain_at h v (LEAST k. Q k) = Some y" "P y"
    using LeastI [of Q n] unfolding Q_def by auto
  have "\<exists>z. chain_at h v m = Some z \<and> select P z = None" if m: "m < (LEAST k. Q k)" for m
  proof -
    obtain z where z: "chain_at h v m = Some z" using chain_at_prefix [OF y(1)] m by fastforce
    with not_less_Least [OF m] show ?thesis by (auto simp: Q_def select_def)
  qed
  with y have "first_match h (select P) v (LEAST k. Q k) y" by (auto simp: first_match_def select_def)
  then show "findInCauseChain h v (select P) \<noteq> None" using find_first_match by fastforce
qed

lemma caller_abort_iff:
  "isCallerAbortAmbiguity h n \<longleftrightarrow>
     in_chain h (errorCause h n) (isAbortError h) \<and> \<not> in_chain h (errorCause h n) (provider_interruption h)"
  unfolding isCallerAbortAmbiguity_def Let_def find_select by simp

text \<open>The wrapper that the search yields is the first one of the chain.\<close>

definition first_unknown :: "error_heap \<Rightarrow> errval \<Rightarrow> errval \<Rightarrow> bool" where
  "first_unknown h err w \<longleftrightarrow>
     (\<exists>n. chain_at h err n = Some w \<and> errorCode h w = Some OPERATION_STATUS_UNKNOWN_CODE \<and>
        (\<forall>m < n. \<exists>y. chain_at h err m = Some y \<and> errorCode h y \<noteq> Some OPERATION_STATUS_UNKNOWN_CODE))"

lemma unknown_node_iff: "operationStatusUnknownNode h err = Some w \<longleftrightarrow> first_unknown h err w"
  unfolding operationStatusUnknownNode_def find_first_match first_match_def first_unknown_def
  by (fastforce simp: select_def split: if_splits)

lemma unknown_node_none:
  "operationStatusUnknownNode h err = None \<longleftrightarrow>
     \<not> in_chain h err (\<lambda>v. errorCode h v = Some OPERATION_STATUS_UNKNOWN_CODE)"
  unfolding operationStatusUnknownNode_def using find_select by blast

text \<open>
  (C25) What does not count against a breaker. Behind an unknown outcome only a caller's abort without any
  timeout or lost response beneath it is filtered, however deep or cyclic the causes are; otherwise
  aborts and the statuses from 400 to 499 are filtered, except 408 and 429.
\<close>

theorem breaker_filter_exact:
  "isClientError h err \<longleftrightarrow>
     (if in_chain h err (\<lambda>v. errorCode h v = Some OPERATION_STATUS_UNKNOWN_CODE)
      then (\<exists>w. first_unknown h err w \<and> in_chain h (errorCause h w) (isAbortError h) \<and>
              \<not> in_chain h (errorCause h w) (provider_interruption h))
      else isAbortLikeError h err \<or>
        (\<exists>n. error_status h err = Num n \<and> num_ge n 400 \<and> num_less n 500 \<and> \<not> num_eq n 408 \<and> \<not> num_eq n 429))"
proof (cases "operationStatusUnknownNode h err")
  case None
  then show ?thesis
    using unknown_node_none [of h err] by (auto simp: isClientError_def split: jsval.splits)
next
  case (Some w)
  then have "in_chain h err (\<lambda>v. errorCode h v = Some OPERATION_STATUS_UNKNOWN_CODE)"
    using unknown_node_none [of h err] by auto
  moreover have "first_unknown h err w' \<longleftrightarrow> w' = w" for w'
    using Some unknown_node_iff by (metis option.inject)
  ultimately show ?thesis using Some by (simp add: isClientError_def caller_abort_iff)
qed

text \<open>A timeout beneath an aborted write whose outcome is unknown counts; without it the abort is filtered.\<close>

definition sample_unknown :: "errval \<Rightarrow> error_heap" where
  "sample_unknown c =
     [\<lparr>eprops = [(js ''status'', Num (num_of_nat 409)), (js ''code'', Str OPERATION_STATUS_UNKNOWN_CODE)],
       ecause = ERef 1, is_error = True\<rparr>,
      \<lparr>eprops = [(js ''name'', Str (js ''AbortError''))], ecause = c, is_error = True\<rparr>,
      timeout_node (js ''late'')]"

theorem breaker_filter_exact_witness:
  "isClientError (sample_unknown (EPrim Undefined)) (ERef 0) \<and> \<not> isClientError (sample_unknown (ERef 2)) (ERef 0)"
proof -
  have codes: "errorCode (sample_unknown c) (ERef 0) = Some OPERATION_STATUS_UNKNOWN_CODE" for c
    by (simp add: errorCode_def eprop_def sample_unknown_def)
  have causes: "errorCause (sample_unknown c) (ERef 0) = ERef 1" "errorCause (sample_unknown c) (ERef (Suc 0)) = c" for c
    by (simp_all add: errorCause_def sample_unknown_def)
  have "in_chain (sample_unknown c) (ERef 0) (\<lambda>v. errorCode (sample_unknown c) v = Some OPERATION_STATUS_UNKNOWN_CODE)"
    for c unfolding in_chain_def using codes by (intro exI [of _ 0]) simp
  moreover have "first_unknown (sample_unknown c) (ERef 0) w \<longleftrightarrow> w = ERef 0" for c w
  proof
    assume "first_unknown (sample_unknown c) (ERef 0) w"
    then obtain n where "chain_at (sample_unknown c) (ERef 0) n = Some w"
        "\<forall>m < n. \<exists>y. chain_at (sample_unknown c) (ERef 0) m = Some y \<and>
          errorCode (sample_unknown c) y \<noteq> Some OPERATION_STATUS_UNKNOWN_CODE"
      by (auto simp: first_unknown_def)
    with codes [of c] show "w = ERef 0" by (cases n) auto
  next
    assume "w = ERef 0"
    then show "first_unknown (sample_unknown c) (ERef 0) w"
      unfolding first_unknown_def using codes [of c] by (intro exI [of _ 0]) simp
  qed
  ultimately have f: "isClientError (sample_unknown c) (ERef 0) \<longleftrightarrow>
      in_chain (sample_unknown c) (ERef 1) (isAbortError (sample_unknown c)) \<and>
      \<not> in_chain (sample_unknown c) (ERef 1) (provider_interruption (sample_unknown c))" for c
    unfolding breaker_filter_exact by (simp add: causes)
  have abort: "isAbortError (sample_unknown c) (ERef (Suc 0))" for c
    by (simp add: isAbortError_def stringProperty_def eprop_def sample_unknown_def)
  have a: "in_chain (sample_unknown c) (ERef 1) (isAbortError (sample_unknown c))" for c
    unfolding in_chain_def using abort by (intro exI [of _ 0]) simp
  have "\<not> in_chain (sample_unknown (EPrim Undefined)) (ERef 1) (provider_interruption (sample_unknown (EPrim Undefined)))"
  proof
    assume "in_chain (sample_unknown (EPrim Undefined)) (ERef 1) (provider_interruption (sample_unknown (EPrim Undefined)))"
    then obtain n x where "chain_at (sample_unknown (EPrim Undefined)) (ERef 1) n = Some x"
        "provider_interruption (sample_unknown (EPrim Undefined)) x" by (auto simp: in_chain_def)
    with abort [of "EPrim Undefined"] show False
      by (cases n) (auto simp: causes provider_interruption_def)
  qed
  moreover have "in_chain (sample_unknown (ERef 2)) (ERef 1) (provider_interruption (sample_unknown (ERef 2)))"
  proof -
    have "provider_interruption (sample_unknown (ERef 2)) (ERef 2)"
      by (simp add: provider_interruption_def isAbortError_def isTimeoutError_def stringProperty_def eprop_def
          sample_unknown_def timeout_node_def named_node_def new_error_def)
    then show ?thesis unfolding in_chain_def by (intro exI [of _ 1]) (simp add: causes)
  qed
  ultimately show ?thesis using f a by blast
qed

section \<open>The breakers\<close>

datatype breaker_slot = Native | Transfer | Report | S3 | S3Transfer | Partner

record breaker_options =
  bo_name :: jsstring
  bo_timeout :: "nat option"
  errorThresholdPercentage :: nat
  resetTimeout :: nat
  rollingCountTimeout :: nat
  rollingCountBuckets :: nat
  volumeThreshold :: nat
  errorFilter :: "error_heap \<Rightarrow> errval \<Rightarrow> bool"
  bo_events :: "jsstring \<times> jsstring \<times> jsstring"

definition CIRCUIT_TIMEOUT_MS :: nat where
  "CIRCUIT_TIMEOUT_MS = 150000"

text \<open>\<open>createBreaker\<close>; \<open>None\<close> is the timeout \<open>false\<close>.\<close>

definition createBreaker :: "jsstring \<Rightarrow> nat option \<Rightarrow> jsstring \<times> jsstring \<times> jsstring \<Rightarrow> breaker_options" where
  "createBreaker name limit events =
     \<lparr>bo_name = name, bo_timeout = limit, errorThresholdPercentage = 50, resetTimeout = 30000,
      rollingCountTimeout = 10000, rollingCountBuckets = 10, volumeThreshold = 10,
      errorFilter = isClientError, bo_events = events\<rparr>"

fun breaker_options_of :: "breaker_slot \<Rightarrow> breaker_options" where
  "breaker_options_of Native = createBreaker (js ''b2-api'') (Some CIRCUIT_TIMEOUT_MS)
     (js ''circuit.open'', js ''circuit.halfOpen'', js ''circuit.close'')"
| "breaker_options_of Transfer = createBreaker (js ''b2-transfer'') None
     (js ''circuit.transfer.open'', js ''circuit.transfer.halfOpen'', js ''circuit.transfer.close'')"
| "breaker_options_of Report = createBreaker (js ''b2-report-s3'') (Some CIRCUIT_TIMEOUT_MS)
     (js ''circuit.reportS3.open'', js ''circuit.reportS3.halfOpen'', js ''circuit.reportS3.close'')"
| "breaker_options_of S3 = createBreaker (js ''b2-s3-api'') (Some CIRCUIT_TIMEOUT_MS)
     (js ''circuit.s3.open'', js ''circuit.s3.halfOpen'', js ''circuit.s3.close'')"
| "breaker_options_of S3Transfer = createBreaker (js ''b2-s3-transfer'') None
     (js ''circuit.s3Transfer.open'', js ''circuit.s3Transfer.halfOpen'', js ''circuit.s3Transfer.close'')"
| "breaker_options_of Partner = createBreaker (js ''b2-partner-api'') (Some CIRCUIT_TIMEOUT_MS)
     (js ''circuit.partner.open'', js ''circuit.partner.halfOpen'', js ''circuit.partner.close'')"

text \<open>
  The package opossum, a parameter: how an instance starts, what firing an action does to it and answers, and
  what anything that happens to it later does (a fired action settles, a timer of its own runs out). What is
  fired is the caller's function alone or the function inside a deadline.
\<close>

datatype 'f fired = Plain 'f | WithDeadlineSignal nat 'f

record ('b, 'f, 'r, 'e) opossum =
  new_breaker :: "breaker_options \<Rightarrow> 'b"
  fire :: "'b \<Rightarrow> 'f fired \<Rightarrow> 'b \<times> 'r"
  react :: "'b \<Rightarrow> 'e \<Rightarrow> 'b"

text \<open>
  An instance is a mutable object: the breakers made so far are a store, and a slot holds a reference into it.
  Firing changes the object that is referred to and nothing else; only \<open>getBreaker\<close> writes a slot.
\<close>

record 'b breakers =
  objects :: "'b list"
  slot_instance :: "breaker_slot \<Rightarrow> nat option"

definition no_breakers :: "'b breakers" where
  "no_breakers = \<lparr>objects = [], slot_instance = \<lambda>s. None\<rparr>"

definition getBreaker :: "('b, 'f, 'r, 'e) opossum \<Rightarrow> breaker_slot \<Rightarrow> 'b breakers \<Rightarrow> nat \<times> 'b breakers" where
  "getBreaker lib s st =
     (case slot_instance st s of
        Some r \<Rightarrow> (r, st)
      | None \<Rightarrow>
          (let r = length (objects st);
               created = st\<lparr>objects := objects st @ [new_breaker lib (breaker_options_of s)]\<rparr> in
           (r, created\<lparr>slot_instance := (slot_instance created)(s := Some r)\<rparr>)))"

definition fire_at :: "('b, 'f, 'r, 'e) opossum \<Rightarrow> 'f fired \<Rightarrow> nat \<times> 'b breakers \<Rightarrow> 'r \<times> 'b breakers" where
  "fire_at lib act p =
     (let (r, st) = p; (b, a) = fire lib (objects st ! r) act in (a, st\<lparr>objects := (objects st)[r := b]\<rparr>))"

text \<open>The six wrappers.\<close>

definition withCircuit where
  "withCircuit lib fn st = fire_at lib (WithDeadlineSignal CIRCUIT_TIMEOUT_MS fn) (getBreaker lib Native st)"
definition withLongCircuit where
  "withLongCircuit lib fn st = fire_at lib (Plain fn) (getBreaker lib Transfer st)"
definition withReportCircuit where
  "withReportCircuit lib fn st = fire_at lib (WithDeadlineSignal CIRCUIT_TIMEOUT_MS fn) (getBreaker lib Report st)"
definition withS3Circuit where
  "withS3Circuit lib fn st = fire_at lib (WithDeadlineSignal CIRCUIT_TIMEOUT_MS fn) (getBreaker lib S3 st)"
definition withS3LongCircuit where
  "withS3LongCircuit lib fn st = fire_at lib (Plain fn) (getBreaker lib S3Transfer st)"
definition withPartnerCircuit where
  "withPartnerCircuit lib fn st = fire_at lib (WithDeadlineSignal CIRCUIT_TIMEOUT_MS fn) (getBreaker lib Partner st)"

lemmas circuit_wrappers = withCircuit_def withLongCircuit_def withReportCircuit_def withS3Circuit_def
  withS3LongCircuit_def withPartnerCircuit_def

fun circuit_call :: "('b, 'f, 'r, 'e) opossum \<Rightarrow> breaker_slot \<Rightarrow> 'f \<Rightarrow> 'b breakers \<Rightarrow> 'r \<times> 'b breakers" where
  "circuit_call lib Native fn = withCircuit lib fn"
| "circuit_call lib Transfer fn = withLongCircuit lib fn"
| "circuit_call lib Report fn = withReportCircuit lib fn"
| "circuit_call lib S3 fn = withS3Circuit lib fn"
| "circuit_call lib S3Transfer fn = withS3LongCircuit lib fn"
| "circuit_call lib Partner fn = withPartnerCircuit lib fn"

text \<open>
  What happens in the process: a call through one of the wrappers, and whatever the package does later with the
  instance that a slot holds, in any order. The answers are those of the calls.
\<close>

datatype ('f, 'e) breaker_event = Called 'f | Reacts 'e

definition react_at :: "('b, 'f, 'r, 'e) opossum \<Rightarrow> breaker_slot \<Rightarrow> 'e \<Rightarrow> 'b breakers \<Rightarrow> 'b breakers" where
  "react_at lib s e st =
     (case slot_instance st s of None \<Rightarrow> st
      | Some r \<Rightarrow> st\<lparr>objects := (objects st)[r := react lib (objects st ! r) e]\<rparr>)"

fun circuit_run :: "('b, 'f, 'r, 'e) opossum \<Rightarrow> (breaker_slot \<times> ('f, 'e) breaker_event) list \<Rightarrow> 'b breakers \<Rightarrow>
    (breaker_slot \<times> 'r) list \<times> 'b breakers" where
  "circuit_run lib [] st = ([], st)"
| "circuit_run lib ((s, Called fn) # evs) st =
     (let (r, st') = circuit_call lib s fn st; (rs, st'') = circuit_run lib evs st' in ((s, r) # rs, st''))"
| "circuit_run lib ((s, Reacts e) # evs) st = circuit_run lib evs (react_at lib s e st)"

subsection \<open>One breaker alone\<close>

text \<open>The same events of one breaker by itself: there is none before its first call, and then always the same one.\<close>

definition slot_action :: "breaker_slot \<Rightarrow> 'f \<Rightarrow> 'f fired" where
  "slot_action s fn = (if bo_timeout (breaker_options_of s) = None then Plain fn
     else WithDeadlineSignal CIRCUIT_TIMEOUT_MS fn)"

fun breaker_alone :: "('b, 'f, 'r, 'e) opossum \<Rightarrow> breaker_slot \<Rightarrow> ('f, 'e) breaker_event list \<Rightarrow> 'b option \<Rightarrow>
    'r list \<times> 'b option" where
  "breaker_alone lib s [] o' = ([], o')"
| "breaker_alone lib s (Called fn # evs) o' =
     (let b = (case o' of None \<Rightarrow> new_breaker lib (breaker_options_of s) | Some b \<Rightarrow> b);
          (b', r) = fire lib b (slot_action s fn); (rs, o'') = breaker_alone lib s evs (Some b') in (r # rs, o''))"
| "breaker_alone lib s (Reacts e # evs) o' = breaker_alone lib s evs (map_option (\<lambda>b. react lib b e) o')"

definition of_slot :: "breaker_slot \<Rightarrow> (breaker_slot \<times> 'a) list \<Rightarrow> 'a list" where
  "of_slot s xs = map snd (filter (\<lambda>x. fst x = s) xs)"

lemma of_slot_simps [simp]:
  "of_slot s [] = []" "of_slot s ((s', x) # xs) = (if s' = s then x # of_slot s xs else of_slot s xs)"
  by (simp_all add: of_slot_def)

definition breaker_of :: "'b breakers \<Rightarrow> breaker_slot \<Rightarrow> 'b option" where
  "breaker_of st s = map_option (\<lambda>r. objects st ! r) (slot_instance st s)"

text \<open>No two slots share an object, and every object is some slot's.\<close>

definition breakers_inv :: "'b breakers \<Rightarrow> bool" where
  "breakers_inv st \<longleftrightarrow> inj_on (slot_instance st) (dom (slot_instance st)) \<and>
     ran (slot_instance st) = {..<length (objects st)}"

lemma breakers_inv_less: "breakers_inv st \<Longrightarrow> slot_instance st s = Some r \<Longrightarrow> r < length (objects st)"
  by (auto simp: breakers_inv_def ran_def)

lemma breakers_inv_apart:
  "breakers_inv st \<Longrightarrow> slot_instance st s = Some r \<Longrightarrow> slot_instance st s' = Some r \<Longrightarrow> s = s'"
  by (auto simp: breakers_inv_def inj_on_def dom_def)

lemma breakers_inv_card: "breakers_inv st \<Longrightarrow> card (dom (slot_instance st)) = length (objects st)"
proof -
  assume i: "breakers_inv st"
  have "bij_betw (\<lambda>s. the (slot_instance st s)) (dom (slot_instance st)) {..<length (objects st)}"
    unfolding bij_betw_def
  proof
    show "inj_on (\<lambda>s. the (slot_instance st s)) (dom (slot_instance st))"
      using breakers_inv_apart [OF i] by (fastforce simp: inj_on_def)
    have "(\<lambda>s. the (slot_instance st s)) ` dom (slot_instance st) = ran (slot_instance st)"
      by (auto simp: ran_def image_iff dom_def) (metis option.sel)
    then show "(\<lambda>s. the (slot_instance st s)) ` dom (slot_instance st) = {..<length (objects st)}"
      using i by (simp add: breakers_inv_def)
  qed
  then show ?thesis by (metis bij_betw_same_card card_lessThan)
qed

text \<open>After \<open>getBreaker\<close> the slot holds the reference it answers with, and the object is the current one or a new one.\<close>

lemma getBreaker_holds:
  assumes "breakers_inv st" and "getBreaker lib s st = (r, st')"
  shows "breakers_inv st' \<and> slot_instance st' = (slot_instance st)(s := Some r) \<and> r < length (objects st') \<and>
    breaker_of st' s = Some (case breaker_of st s of None \<Rightarrow> new_breaker lib (breaker_options_of s) | Some b \<Rightarrow> b) \<and>
    (\<forall>s'. s' \<noteq> s \<longrightarrow> breaker_of st' s' = breaker_of st s')"
proof (cases "slot_instance st s")
  case None
  then have r: "r = length (objects st)" "objects st' = objects st @ [new_breaker lib (breaker_options_of s)]"
      "slot_instance st' = (slot_instance st)(s := Some r)"
    using assms(2) by (auto simp: getBreaker_def Let_def)
  have "ran (slot_instance st') = insert r (ran (slot_instance st))" using None r by (simp add: ran_map_upd)
  then have "breakers_inv st'"
    using assms(1) None r unfolding breakers_inv_def
    by (auto simp: inj_on_def dom_def lessThan_Suc ran_def)
  moreover have "breaker_of st' s' = breaker_of st s'" if "s' \<noteq> s" for s'
    using that r breakers_inv_less [OF assms(1), of s'] by (cases "slot_instance st s'") (auto simp: breaker_of_def nth_append)
  ultimately show ?thesis using None r by (simp add: breaker_of_def)
next
  case (Some r')
  then have "r = r'" "st' = st" using assms(2) by (auto simp: getBreaker_def)
  with Some assms(1) breakers_inv_less [OF assms(1) Some] show ?thesis
    by (auto simp: breaker_of_def fun_upd_idem_iff)
qed

text \<open>Writing the object of one slot leaves the objects of the others alone.\<close>

lemma write_object:
  assumes "breakers_inv st" and "slot_instance st s = Some r"
  shows "breakers_inv (st\<lparr>objects := (objects st)[r := b]\<rparr>) \<and>
    breaker_of (st\<lparr>objects := (objects st)[r := b]\<rparr>) s' = (if s' = s then Some b else breaker_of st s')"
proof -
  have "breakers_inv (st\<lparr>objects := (objects st)[r := b]\<rparr>)"
    using assms(1) by (simp add: breakers_inv_def)
  moreover have "breaker_of (st\<lparr>objects := (objects st)[r := b]\<rparr>) s' = (if s' = s then Some b else breaker_of st s')"
  proof (cases "s' = s")
    case True
    then show ?thesis using assms(2) breakers_inv_less [OF assms] by (simp add: breaker_of_def)
  next
    case False
    then have "slot_instance st s' \<noteq> Some r" using breakers_inv_apart [OF assms] by blast
    with False show ?thesis by (cases "slot_instance st s'") (auto simp: breaker_of_def)
  qed
  ultimately show ?thesis by simp
qed

lemma circuit_call_slot: "circuit_call lib s fn st = fire_at lib (slot_action s fn) (getBreaker lib s st)"
  by (cases s) (simp_all add: circuit_wrappers slot_action_def createBreaker_def)

lemma circuit_call_effect:
  fixes lib s fn st
  defines "b \<equiv> (case breaker_of st s of None \<Rightarrow> new_breaker lib (breaker_options_of s) | Some b \<Rightarrow> b)"
  assumes "breakers_inv st" and "circuit_call lib s fn st = (a, st')"
  shows "a = snd (fire lib b (slot_action s fn)) \<and> breakers_inv st' \<and>
    dom (slot_instance st') = insert s (dom (slot_instance st)) \<and>
    breaker_of st' s' = (if s' = s then Some (fst (fire lib b (slot_action s fn))) else breaker_of st s')"
proof -
  obtain r st1 where g: "getBreaker lib s st = (r, st1)" by fastforce
  note h = getBreaker_holds [OF assms(2) g]
  then have o1: "objects st1 ! r = b" "slot_instance st1 s = Some r" by (auto simp: breaker_of_def b_def)
  have a: "a = snd (fire lib b (slot_action s fn))"
    "st' = st1\<lparr>objects := (objects st1)[r := fst (fire lib b (slot_action s fn))]\<rparr>"
    using assms(3) o1 by (auto simp: circuit_call_slot g fire_at_def split: prod.splits)
  show ?thesis using a h write_object [of st1 s r "fst (fire lib b (slot_action s fn))" s'] o1 by auto
qed

lemma react_at_effect:
  "breakers_inv st \<Longrightarrow> breakers_inv (react_at lib s e st) \<and> slot_instance (react_at lib s e st) = slot_instance st \<and>
     breaker_of (react_at lib s e st) s' =
       (if s' = s then map_option (\<lambda>b. react lib b e) (breaker_of st s) else breaker_of st s')"
  using write_object [of st s _ _ s'] by (auto simp: react_at_def breaker_of_def split: option.splits)

definition called_slots :: "(breaker_slot \<times> ('f, 'e) breaker_event) list \<Rightarrow> breaker_slot set" where
  "called_slots evs = {s. \<exists>fn. (s, Called fn) \<in> set evs}"

lemma called_slots_simps [simp]:
  "called_slots [] = {}" "called_slots ((s, Called fn) # evs) = insert s (called_slots evs)"
  "called_slots ((s, Reacts e) # evs) = called_slots evs"
  by (auto simp: called_slots_def)

lemma circuit_run_alone:
  "breakers_inv st \<Longrightarrow> circuit_run lib evs st = (rs, st') \<Longrightarrow>
     breakers_inv st' \<and> dom (slot_instance st') = dom (slot_instance st) \<union> called_slots evs \<and>
     (of_slot s rs, breaker_of st' s) = breaker_alone lib s (of_slot s evs) (breaker_of st s)"
proof (induction lib evs st arbitrary: rs rule: circuit_run.induct)
  case (2 lib s' fn evs st)
  obtain a st1 where c: "circuit_call lib s' fn st = (a, st1)" by fastforce
  obtain rs1 where r: "circuit_run lib evs st1 = (rs1, st')" "rs = (s', a) # rs1"
    using "2.prems"(2) c by (auto split: prod.splits)
  note e = circuit_call_effect [OF "2.prems"(1) c, of s]
  have "breakers_inv st' \<and> dom (slot_instance st') = dom (slot_instance st1) \<union> called_slots evs \<and>
      (of_slot s rs1, breaker_of st' s) = breaker_alone lib s (of_slot s evs) (breaker_of st1 s)"
    using "2.IH" [OF c [symmetric] refl] e r(1) by blast
  then show ?case using e r(2) by (auto simp: case_prod_beta Let_def prod_eq_iff)
next
  case (3 lib s' e evs st)
  then show ?case using react_at_effect [OF "3.prems"(1), of lib s' e s] by auto
qed auto

text \<open>
  (C27) Isolation of the breakers. In any sequence of calls through the six wrappers and of later reactions of the
  package, the answers that the calls of one breaker get and the instance that its slot holds in the end are
  those of one breaker run alone on its own calls and reactions: an incident on one of them never opens
  another, not even the two of the S3 API for each other (\<open>s3TransferBreaker\<close> has a slot of its own, whatever the
  comment above it says of shared state). Every slot that was called holds the one instance ever made for it.
\<close>

theorem circuits_isolated:
  fixes lib :: "('b, 'f, 'r, 'e) opossum"
  shows "(of_slot s (fst (circuit_run lib evs no_breakers)), breaker_of (snd (circuit_run lib evs no_breakers)) s) =
     breaker_alone lib s (of_slot s evs) None \<and>
   dom (slot_instance (snd (circuit_run lib evs no_breakers))) = called_slots evs \<and>
   length (objects (snd (circuit_run lib evs no_breakers))) = card (called_slots evs)"
proof -
  have i: "breakers_inv (no_breakers :: 'b breakers)" by (simp add: breakers_inv_def no_breakers_def)
  have n: "breaker_of (no_breakers :: 'b breakers) s = None" "dom (slot_instance (no_breakers :: 'b breakers)) = {}"
    by (simp_all add: breaker_of_def no_breakers_def)
  obtain rs st where r: "circuit_run lib evs no_breakers = (rs, st)" by fastforce
  from circuit_run_alone [OF i r, of s] n breakers_inv_card [of st] show ?thesis by (simp add: r)
qed

section \<open>The deadline signal\<close>

text \<open>
  \<open>withDeadlineSignal\<close>: the function runs under a signal of its own, which is aborted by the request's signal
  or by a timer. The state is the reason of the abort, whether the listener on the request's signal is
  there and whether the timer runs; aborting a second time changes nothing.
\<close>

record 'e deadline =
  reason :: "'e option"
  listening :: bool
  armed :: bool

datatype 'e parent_signal = NoParent | Live | Aborted "'e option"

datatype 'e signal_event = ParentAborts "'e option" | TimerFires | FnSettles

definition abort_controller :: "'e \<Rightarrow> 'e deadline \<Rightarrow> 'e deadline" where
  "abort_controller e d = (if reason d = None then d\<lparr>reason := Some e\<rparr> else d)"

text \<open>The two reasons made here: \<open>abortError()\<close> and \<open>timeoutReason(timeoutMs)\<close>.\<close>

record 'e reasons =
  default_abort :: 'e
  timeout_reason :: 'e

definition parent_reason :: "'e reasons \<Rightarrow> 'e option \<Rightarrow> 'e" where
  "parent_reason rs p = (case p of None \<Rightarrow> default_abort rs | Some e \<Rightarrow> e)"

definition deadline_start :: "'e reasons \<Rightarrow> 'e parent_signal \<Rightarrow> 'e deadline" where
  "deadline_start rs parent =
     (let d = \<lparr>reason = None, listening = False, armed = True\<rparr> in
      case parent of NoParent \<Rightarrow> d | Live \<Rightarrow> d\<lparr>listening := True\<rparr>
                   | Aborted p \<Rightarrow> abort_controller (parent_reason rs p) d)"

fun deadline_event :: "'e reasons \<Rightarrow> 'e deadline \<Rightarrow> 'e signal_event \<Rightarrow> 'e deadline" where
  "deadline_event rs d (ParentAborts p) =
     (if listening d then (abort_controller (parent_reason rs p) d)\<lparr>listening := False\<rparr> else d)"
| "deadline_event rs d TimerFires =
     (if armed d then (abort_controller (timeout_reason rs) d)\<lparr>armed := False\<rparr> else d)"
| "deadline_event rs d FnSettles = d\<lparr>listening := False, armed := False\<rparr>"

definition deadline_run :: "'e reasons \<Rightarrow> 'e parent_signal \<Rightarrow> 'e signal_event list \<Rightarrow> 'e deadline" where
  "deadline_run rs parent evs = foldl (deadline_event rs) (deadline_start rs parent) evs"

text \<open>What an event means for a signal that is not aborted yet.\<close>

fun cause_of :: "'e reasons \<Rightarrow> bool \<Rightarrow> 'e signal_event \<Rightarrow> 'e option" where
  "cause_of rs live (ParentAborts p) = (if live then Some (parent_reason rs p) else None)"
| "cause_of rs live TimerFires = Some (timeout_reason rs)"
| "cause_of rs live FnSettles = None"

fun first_cause :: "'e reasons \<Rightarrow> bool \<Rightarrow> 'e signal_event list \<Rightarrow> 'e option" where
  "first_cause rs live [] = None"
| "first_cause rs live (e # evs) =
     (if e = FnSettles then None
      else case cause_of rs live e of Some r \<Rightarrow> Some r | None \<Rightarrow> first_cause rs live evs)"

lemma deadline_settled:
  "\<not> listening d \<Longrightarrow> \<not> armed d \<Longrightarrow> foldl (deadline_event rs) d evs = d"
proof (induction evs arbitrary: d)
  case (Cons e evs)
  then have "deadline_event rs d e = d" by (cases e) simp_all
  with Cons show ?case by simp
qed simp

lemma deadline_aborted: "reason d = Some r \<Longrightarrow> reason (foldl (deadline_event rs) d evs) = Some r"
proof (induction evs arbitrary: d)
  case (Cons e evs)
  have "reason (deadline_event rs d e) = Some r"
    using Cons.prems by (cases e) (simp_all add: abort_controller_def)
  with Cons.IH show ?case by simp
qed simp

lemma deadline_first_cause:
  "reason d = None \<Longrightarrow> armed d \<Longrightarrow>
     reason (foldl (deadline_event rs) d evs) = first_cause rs (listening d) evs"
proof (induction evs arbitrary: d)
  case (Cons e evs)
  show ?case
  proof (cases e)
    case (ParentAborts p)
    show ?thesis
    proof (cases "listening d")
      case True
      then show ?thesis
        using Cons.prems ParentAborts deadline_aborted
          [of "(abort_controller (parent_reason rs p) d)\<lparr>listening := False\<rparr>" "parent_reason rs p" rs evs]
        by (simp add: abort_controller_def)
    next
      case False
      with Cons ParentAborts show ?thesis by simp
    qed
  next
    case TimerFires
    then show ?thesis
      using Cons.prems deadline_aborted
        [of "(abort_controller (timeout_reason rs) d)\<lparr>armed := False\<rparr>" "timeout_reason rs" rs evs]
      by (simp add: abort_controller_def)
  next
    case FnSettles
    then show ?thesis using Cons.prems by (simp add: deadline_settled)
  qed
qed simp

text \<open>
  The first cause decides. The signal that the called function sees is aborted with the reason of the
  first thing that happened before the function settled, a request that was aborted beforehand coming
  first of all; once the function has settled, no timer and no listener is left.
\<close>

theorem deadline_signal_exact:
  "reason (deadline_run rs parent evs) =
     (case parent of Aborted p \<Rightarrow> Some (parent_reason rs p)
                   | NoParent \<Rightarrow> first_cause rs False evs | Live \<Rightarrow> first_cause rs True evs)
   \<and> deadline_run rs parent (evs @ FnSettles # late) = (deadline_run rs parent evs)\<lparr>listening := False, armed := False\<rparr>"
proof
  show "reason (deadline_run rs parent evs) =
     (case parent of Aborted p \<Rightarrow> Some (parent_reason rs p)
                   | NoParent \<Rightarrow> first_cause rs False evs | Live \<Rightarrow> first_cause rs True evs)"
  proof (cases parent)
    case (Aborted p)
    then show ?thesis
      using deadline_aborted [of "deadline_start rs parent" "parent_reason rs p" rs evs]
      by (simp add: deadline_run_def deadline_start_def abort_controller_def)
  qed (simp_all add: deadline_run_def deadline_start_def deadline_first_cause)
  show "deadline_run rs parent (evs @ FnSettles # late) = (deadline_run rs parent evs)\<lparr>listening := False, armed := False\<rparr>"
    by (simp add: deadline_run_def deadline_settled)
qed

end
