(* ===== verification/Secret_Ledger.thy ===== *)
theory Secret_Ledger
  imports Caches Result_Serializer Error_Chain
begin

text \<open>
  The durable secret sink, its data (\<open>src/utils/secret-sink.ts\<close>): where one-time secrets go, the
  fingerprints of a request, the append-only ledger as bytes with the recovery of a torn last line, and
  the search for the record of an earlier request. The protocol that keeps a request from creating
  two credentials is in the next theory. File-system calls that only open or check a path, SHA-256,
  UTF-8 decoding and \<open>JSON.parse\<close> are parameters.
\<close>

section \<open>Where secrets go\<close>

datatype sink_mode = ModeFile | ModeInline | ModeOff

datatype sink_config_error = InvalidMode | InlineNeedsOptIn | FileNeedsOptIn | CollidesWithLog jsstring
  | PathError jsstring | Unavailable jsstring jsstring

definition parseSecretSinkMode :: "jsstring option \<Rightarrow> transport \<Rightarrow> sink_config_error + sink_mode" where
  "parseSecretSinkMode raw t =
     (case raw of
        None \<Rightarrow> Inr (if t = Stdio then ModeFile else ModeOff)
      | Some r \<Rightarrow>
          if js_trim r = [] then Inr (if t = Stdio then ModeFile else ModeOff)
          else (let normalized = ascii_lower (js_trim r) in
                if normalized = js ''file'' then Inr ModeFile
                else if normalized = js ''inline'' then Inr ModeInline
                else if normalized = js ''off'' then Inr ModeOff
                else Inl InvalidMode))"

text \<open>
  The file system at start-up: the canonical form of a destination (or the error that resolving it raises)
  and the detail of the error with which the preflight of a path fails, if it does.
\<close>

record sink_fs =
  canonicalDestinationPath :: "jsstring \<Rightarrow> jsstring + jsstring"
  preflightSecretSinkFile :: "jsstring \<Rightarrow> jsstring option"
  DEFAULT_SECRET_SINK_PATH :: jsstring

definition assertSecretSinkDoesNotCollideWithLogFile ::
  "sink_fs \<Rightarrow> jsstring \<Rightarrow> env \<Rightarrow> sink_config_error option" where
  "assertSecretSinkDoesNotCollideWithLogFile fs path env =
     (case map_option js_trim (env (js ''B2_LOG_FILE'')) of
        None \<Rightarrow> None
      | Some logFile \<Rightarrow>
          if logFile = [] then None
          else (case (canonicalDestinationPath fs path, canonicalDestinationPath fs logFile) of
                  (Inl e, _) \<Rightarrow> Some (PathError e)
                | (_, Inl e) \<Rightarrow> Some (PathError e)
                | (Inr a, Inr b) \<Rightarrow> if a = b then Some (CollidesWithLog path) else None))"

definition defaultFileUnavailableReason :: "jsstring \<Rightarrow> jsstring \<Rightarrow> jsstring" where
  "defaultFileUnavailableReason path detail =
     js ''the default secret sink file could not be opened at '' @ path @ js '' ('' @ detail @ js '') '' @
     js ''Set B2_SECRET_SINK_FILE to a writable absolute path, set B2_SECRET_SINK=inline to explicitly '' @
     js ''return secrets in MCP tool responses, or set B2_SECRET_SINK=off to keep compatibility stubs.''"

definition resolveSecretSinkConfig ::
  "sink_fs \<Rightarrow> env \<Rightarrow> transport \<Rightarrow> bool \<Rightarrow> jsstring option \<Rightarrow> sink_config_error + secret_sink" where
  "resolveSecretSinkConfig fs env t preflight defaultFilePath =
     (let rawMode = env (js ''B2_SECRET_SINK'');
          usesTransportDefaultMode = (case rawMode of None \<Rightarrow> True | Some r \<Rightarrow> js_trim r = [])
      in
      case parseSecretSinkMode rawMode t of
        Inl e \<Rightarrow> Inl e
      | Inr ModeOff \<Rightarrow> Inr (SinkOff None)
      | Inr ModeInline \<Rightarrow>
          if t = Http \<and> env (js ''B2_ALLOW_INLINE_SECRETS'') \<noteq> Some (js ''true'')
          then Inl InlineNeedsOptIn else Inr SinkInline
      | Inr ModeFile \<Rightarrow>
          (let explicitPath = env (js ''B2_SECRET_SINK_FILE'') in
           if t = Http \<and> (env (js ''B2_ALLOW_LOCAL_FILES'') \<noteq> Some (js ''true'') \<or>
                explicitPath = None \<or> explicitPath = Some [])
           then Inl FileNeedsOptIn
           else
            (let path = (case explicitPath of Some p \<Rightarrow> p | None \<Rightarrow>
                   (case defaultFilePath of Some p \<Rightarrow> p | None \<Rightarrow> DEFAULT_SECRET_SINK_PATH fs)) in
             case assertSecretSinkDoesNotCollideWithLogFile fs path env of
               Some e \<Rightarrow> Inl e
             | None \<Rightarrow>
                 (case (if preflight then preflightSecretSinkFile fs path else None) of
                    None \<Rightarrow> Inr (SinkFile path)
                  | Some detail \<Rightarrow>
                      if usesTransportDefaultMode \<and> t = Stdio
                      then Inr (SinkOff (Some (defaultFileUnavailableReason path detail)))
                      else Inl (Unavailable path detail)))))"

text \<open>
  Secrets leave an HTTP server only by opt-in: without a setting the sink is off; secrets are returned
  inline only when both switches say so, and written to a file only at an explicit path that local files are
  allowed for, that could be opened and is not the log.
\<close>

theorem http_sink_is_opt_in:
  assumes "resolveSecretSinkConfig fs env Http preflight defaultFilePath = Inr sink"
  shows "case sink of
      SinkOff reason \<Rightarrow> reason = None
    | SinkInline \<Rightarrow> (\<exists>r. env (js ''B2_SECRET_SINK'') = Some r \<and> ascii_lower (js_trim r) = js ''inline'') \<and>
        env (js ''B2_ALLOW_INLINE_SECRETS'') = Some (js ''true'')
    | SinkFile path \<Rightarrow> (\<exists>r. env (js ''B2_SECRET_SINK'') = Some r \<and> ascii_lower (js_trim r) = js ''file'') \<and>
        env (js ''B2_ALLOW_LOCAL_FILES'') = Some (js ''true'') \<and> env (js ''B2_SECRET_SINK_FILE'') = Some path \<and>
        path \<noteq> [] \<and> (preflight \<longrightarrow> preflightSecretSinkFile fs path = None) \<and>
        assertSecretSinkDoesNotCollideWithLogFile fs path env = None"
  using assms
  by (auto simp: resolveSecretSinkConfig_def parseSecretSinkMode_def Let_def
      split: option.splits if_splits sink_mode.splits)

theorem http_sink_is_opt_in_witness:
  "resolveSecretSinkConfig \<lparr>canonicalDestinationPath = Inr, preflightSecretSinkFile = (\<lambda>p. None),
      DEFAULT_SECRET_SINK_PATH = js ''/d''\<rparr>
     [js ''B2_SECRET_SINK'' \<mapsto> js '' Inline '', js ''B2_ALLOW_INLINE_SECRETS'' \<mapsto> js ''true''] Http True None
     = Inr SinkInline \<and> ascii_lower (js_trim (js '' Inline '')) = js ''inline''"
proof -
  have "ascii_lower (js_trim (js '' Inline '')) = js ''inline''"
    by (simp add: js_def js_trim_def js_space_def ascii_lower_def ascii_lower_unit_def is_upper_def)
  then have r: "resolveSecretSinkConfig \<lparr>canonicalDestinationPath = Inr, preflightSecretSinkFile = (\<lambda>p. None),
      DEFAULT_SECRET_SINK_PATH = js ''/d''\<rparr>
     [js ''B2_SECRET_SINK'' \<mapsto> js '' Inline '', js ''B2_ALLOW_INLINE_SECRETS'' \<mapsto> js ''true''] Http True None
     = Inr SinkInline"
    by (auto simp: resolveSecretSinkConfig_def parseSecretSinkMode_def Let_def ascii_lower_def)
  with http_sink_is_opt_in [OF r] show ?thesis by simp
qed

section \<open>Fingerprints\<close>

text \<open>\<open>sortedJson\<close>; keys are names, as integer keys of an object have an order of their own.\<close>

fun sortedJson :: "jsval \<Rightarrow> jsval" where
  "sortedJson (Arr vs) = Arr (map sortedJson vs)"
| "sortedJson (Obj ps) = Obj (map (\<lambda>(k, v). (k, sortedJson v)) (sort_key fst (filter (\<lambda>(k, v). v \<noteq> Undefined) ps)))"
| "sortedJson v = v"

record idempotency =
  idem_key :: jsstring
  claimFingerprint :: jsstring
  fingerprint :: jsstring

record idempotency_input =
  in_toolName :: jsstring
  in_idempotencyKey :: jsstring
  in_callerFingerprint :: jsstring
  in_normalizedInput :: jsval

definition claim_text :: "idempotency_input \<Rightarrow> jsstring" where
  "claim_text i = plain_print (json_clean (sortedJson (Obj
     [(js ''toolName'', Str (in_toolName i)), (js ''idempotencyKey'', Str (in_idempotencyKey i)),
      (js ''callerFingerprint'', Str (in_callerFingerprint i))])))"

definition request_text :: "idempotency_input \<Rightarrow> jsstring" where
  "request_text i = plain_print (json_clean (sortedJson (Obj
     [(js ''toolName'', Str (in_toolName i)), (js ''idempotencyKey'', Str (in_idempotencyKey i)),
      (js ''callerFingerprint'', Str (in_callerFingerprint i)), (js ''normalizedInput'', in_normalizedInput i)])))"

definition durableSecretIdempotency :: "(jsstring \<Rightarrow> jsstring) \<Rightarrow> idempotency_input \<Rightarrow> idempotency" where
  "durableSecretIdempotency sha256 i =
     \<lparr>idem_key = in_idempotencyKey i, claimFingerprint = sha256 (claim_text i), fingerprint = sha256 (request_text i)\<rparr>"

lemma sortedJson_not_undefined: "sortedJson v \<noteq> Undefined \<longleftrightarrow> v \<noteq> Undefined"
  by (cases v) simp_all

lemma clean_sorted_canon: "json_clean (sortedJson v) = canon v"
proof (induction v rule: canon.induct)
  case (7 ps)
  let ?qs = "filter (\<lambda>(k, v). v \<noteq> Undefined) ps"
  have s: "set (sort_key fst ?qs) = set ?qs" by simp
  have keep: "filter (\<lambda>(k, v). v \<noteq> Undefined) (map (\<lambda>(k, v). (k, sortedJson v)) (sort_key fst ?qs)) =
      map (\<lambda>(k, v). (k, sortedJson v)) (sort_key fst ?qs)"
    by (rule filter_True) (auto simp: s sortedJson_not_undefined)
  have "json_clean (sortedJson v) = canon v" if "(k, v) \<in> set ?qs" for k v
    using 7 that by auto
  then have cong: "map (\<lambda>(k, v). (k, json_clean (sortedJson v))) (sort_key fst ?qs) =
      map (\<lambda>(k, v). (k, canon v)) (sort_key fst ?qs)"
    by (intro map_cong) (auto simp: s)
  have "json_clean (sortedJson (Obj ps)) =
      Obj (map (\<lambda>(k, v). (k, json_clean v)) (map (\<lambda>(k, v). (k, sortedJson v)) (sort_key fst ?qs)))"
    by (simp only: sortedJson.simps json_clean.simps keep)
  also have "\<dots> = Obj (map (\<lambda>(k, v). (k, json_clean (sortedJson v))) (sort_key fst ?qs))"
    by (simp add: comp_def case_prod_unfold)
  also have "\<dots> = canon (Obj ps)"
    by (simp only: cong canon.simps sort_key_map_snd)
  finally show ?case .
qed (simp_all add: map_idI)

definition request_props :: "idempotency_input \<Rightarrow> jsprops" where
  "request_props i =
     [(js ''toolName'', Str (in_toolName i)), (js ''idempotencyKey'', Str (in_idempotencyKey i)),
      (js ''callerFingerprint'', Str (in_callerFingerprint i)), (js ''normalizedInput'', in_normalizedInput i)]"

lemma request_text_canon: "request_text i = plain_print (canon (Obj (request_props i)))"
  by (simp only: request_text_def clean_sorted_canon request_props_def)

lemma present_request:
  "present (request_props i) k =
     (if k = js ''toolName'' then Some (Str (in_toolName i))
      else if k = js ''idempotencyKey'' then Some (Str (in_idempotencyKey i))
      else if k = js ''callerFingerprint'' then Some (Str (in_callerFingerprint i))
      else if k = js ''normalizedInput'' \<and> in_normalizedInput i \<noteq> Undefined then Some (in_normalizedInput i) else None)"
  by (simp add: present_def request_props_def)

definition same_request :: "idempotency_input \<Rightarrow> idempotency_input \<Rightarrow> bool" where
  "same_request i j \<longleftrightarrow>
     in_toolName i = in_toolName j \<and> in_idempotencyKey i = in_idempotencyKey j \<and>
     in_callerFingerprint i = in_callerFingerprint j \<and>
     (in_normalizedInput i = Undefined \<longleftrightarrow> in_normalizedInput j = Undefined) \<and>
     canon (in_normalizedInput i) = canon (in_normalizedInput j)"

lemma request_texts_identify:
  assumes "wf_val (in_normalizedInput i)" "wf_val (in_normalizedInput j)"
  shows "request_text i = request_text j \<longleftrightarrow> same_request i j"
proof -
  have p: "printable (canon (Obj (request_props i)))" "printable (canon (Obj (request_props j)))"
    using assms by (intro printable_canon; simp add: request_props_def)+
  have "request_text i = request_text j \<longleftrightarrow> canon (Obj (request_props i)) = canon (Obj (request_props j))"
    unfolding request_text_canon using plain_print_inject [OF p] by metis
  also have "\<dots> \<longleftrightarrow> (\<forall>k. map_option canon (present (request_props i) k) = map_option canon (present (request_props j) k))"
    by (rule canon_obj_eq) (simp_all add: request_props_def)
  also have "\<dots> \<longleftrightarrow> same_request i j"
  proof
    assume a: "\<forall>k. map_option canon (present (request_props i) k) = map_option canon (present (request_props j) k)"
    from a [rule_format, of "js ''toolName''"] a [rule_format, of "js ''idempotencyKey''"]
      a [rule_format, of "js ''callerFingerprint''"] a [rule_format, of "js ''normalizedInput''"]
    show "same_request i j" by (auto simp: present_request same_request_def split: if_splits)
  qed (auto simp: present_request same_request_def)
  finally show ?thesis .
qed

text \<open>
  The fingerprint of a durable-secret request identifies it: two requests have the same fingerprint only
  if tool, idempotency key, caller and the input as a JSON value agree, up to a collision of the hash, and
  requests that agree have the same one, whatever order their keys were written in.
\<close>

theorem fingerprint_identifies_request:
  assumes "wf_val (in_normalizedInput i)" "wf_val (in_normalizedInput j)"
    "sha256 (request_text i) = sha256 (request_text j) \<Longrightarrow> request_text i = request_text j"
  shows "fingerprint (durableSecretIdempotency sha256 i) = fingerprint (durableSecretIdempotency sha256 j) \<longleftrightarrow>
    in_toolName i = in_toolName j \<and> in_idempotencyKey i = in_idempotencyKey j \<and>
    in_callerFingerprint i = in_callerFingerprint j \<and>
    (in_normalizedInput i = Undefined \<longleftrightarrow> in_normalizedInput j = Undefined) \<and>
    canon (in_normalizedInput i) = canon (in_normalizedInput j)"
  using assms(3) request_texts_identify [OF assms(1,2)]
  by (auto simp: durableSecretIdempotency_def same_request_def)

theorem fingerprint_identifies_request_witness:
  "fingerprint (durableSecretIdempotency (\<lambda>s. s) \<lparr>in_toolName = js ''t'', in_idempotencyKey = js ''k'',
     in_callerFingerprint = js ''c'', in_normalizedInput = Obj [(js ''a'', Null), (js ''b'', Undefined)]\<rparr>) =
   fingerprint (durableSecretIdempotency (\<lambda>s. s) \<lparr>in_toolName = js ''t'', in_idempotencyKey = js ''k'',
     in_callerFingerprint = js ''c'', in_normalizedInput = Obj [(js ''a'', Null)]\<rparr>)"
  by (subst fingerprint_identifies_request) simp_all

section \<open>The ledger file\<close>

text \<open>
  A file is its bytes; records are lines. Reading looks at the last mebibyte only. What UTF-8 decoding and
  \<open>JSON.parse\<close> make of the bytes of a line is a parameter; a byte 10 is a line feed in any such text.
\<close>

type_synonym bytes = "nat list"

record text_io =
  decode_utf8 :: "bytes \<Rightarrow> jsstring"
  json_parse :: "jsstring \<Rightarrow> jsval option"

definition SECRET_SINK_TAIL_READ_BYTES :: nat where
  "SECRET_SINK_TAIL_READ_BYTES = 1024 * 1024"

definition readFileTail :: "bytes \<Rightarrow> nat \<Rightarrow> bytes \<times> nat" where
  "readFileTail file maxBytes =
     (let len = min (length file) maxBytes; offset = length file - len in (drop offset file, offset))"

fun split_lines :: "bytes \<Rightarrow> bytes list" where
  "split_lines [] = [[]]"
| "split_lines (c # cs) =
     (if c = 10 then [] # split_lines cs
      else (case split_lines cs of [] \<Rightarrow> [[c]] | l # ls \<Rightarrow> (c # l) # ls))"

definition readBoundedJsonlTailLines :: "text_io \<Rightarrow> bytes option \<Rightarrow> jsstring list" where
  "readBoundedJsonlTailLines io file =
     (case file of
        None \<Rightarrow> []
      | Some f \<Rightarrow>
          (let (buffer, offset) = readFileTail f SECRET_SINK_TAIL_READ_BYTES in
           if buffer = [] then []
           else if 0 < offset \<and> 10 \<notin> set buffer then []
           else (let b = (if 0 < offset then drop 1 (dropWhile (\<lambda>c. c \<noteq> 10) buffer) else buffer) in
                 filter (\<lambda>l. l \<noteq> []) (map (\<lambda>l. js_trim (decode_utf8 io l)) (split_lines b)))))"

text \<open>The part of a buffer behind its last line feed, and how much comes before it.\<close>

definition torn_part :: "bytes \<Rightarrow> bytes" where
  "torn_part b = rev (takeWhile (\<lambda>c. c \<noteq> 10) (rev b))"

datatype tail_result = TailKept bytes | TailTerminated bytes | TailTruncated bytes | TailTooLong

definition truncateIncompleteLedgerTail :: "text_io \<Rightarrow> bytes \<Rightarrow> tail_result" where
  "truncateIncompleteLedgerTail io file =
     (let (buffer, offset) = readFileTail file SECRET_SINK_TAIL_READ_BYTES in
      if buffer = [] \<or> last buffer = 10 then TailKept file
      else if 10 \<notin> set buffer \<and> 0 < offset then TailTooLong
      else
        (let tailStart = offset + (length buffer - length (torn_part buffer));
             trailingLine = js_trim (decode_utf8 io (torn_part buffer)) in
         if trailingLine \<noteq> [] \<and> json_parse io trailingLine \<noteq> None then TailTerminated (file @ [10])
         else TailTruncated (take tailStart file)))"

text \<open>The records of a file that end in a line feed.\<close>

definition complete_part :: "bytes \<Rightarrow> bytes" where
  "complete_part f = take (length f - length (torn_part f)) f"

lemma torn_split: "f = complete_part f @ torn_part f"
proof -
  have "rev f = takeWhile (\<lambda>c. c \<noteq> 10) (rev f) @ dropWhile (\<lambda>c. c \<noteq> 10) (rev f)" by simp
  then have "f = rev (dropWhile (\<lambda>c. c \<noteq> 10) (rev f)) @ torn_part f"
    by (metis rev_append rev_rev_ident torn_part_def)
  then show ?thesis unfolding complete_part_def
    by (metis append_eq_conv_conj append_take_drop_id length_append add_diff_cancel_right')
qed

lemma torn_no_feed: "10 \<notin> set (torn_part f)"
  by (auto simp: torn_part_def dest: set_takeWhileD)

lemma torn_empty_iff: "torn_part f = [] \<longleftrightarrow> f = [] \<or> last f = 10"
  by (cases f rule: rev_cases) (auto simp: torn_part_def)

lemma torn_whole: "10 \<notin> set f \<Longrightarrow> torn_part f = f"
proof -
  assume "10 \<notin> set f"
  then have "takeWhile (\<lambda>c. c \<noteq> 10) (rev f) = rev f"
    by (intro takeWhile_eq_all_conv [THEN iffD2]) auto
  then show ?thesis by (metis torn_part_def rev_rev_ident)
qed

lemma torn_suffix: "10 \<in> set v \<Longrightarrow> torn_part (u @ v) = torn_part v"
  by (simp add: torn_part_def takeWhile_append1)

lemma torn_long: "10 \<notin> set v \<Longrightarrow> length v \<le> length (torn_part (u @ v))"
proof -
  assume "10 \<notin> set v"
  then have "\<And>c. c \<in> set (rev v) \<Longrightarrow> c \<noteq> 10" by auto
  then have "takeWhile (\<lambda>c. c \<noteq> 10) (rev v @ rev u) = rev v @ takeWhile (\<lambda>c. c \<noteq> 10) (rev u)"
    by (rule takeWhile_append2)
  then show ?thesis by (simp add: torn_part_def)
qed

lemma complete_ends: "complete_part f = [] \<or> last (complete_part f) = 10"
proof (rule ccontr)
  assume a: "\<not> (complete_part f = [] \<or> last (complete_part f) = 10)"
  then obtain p c where pc: "complete_part f = p @ [c]" "c \<noteq> 10" by (cases "complete_part f" rule: rev_cases) auto
  then have f: "f = p @ [c] @ torn_part f" using torn_split [of f] by simp
  have "10 \<notin> set (c # torn_part f)" using pc(2) torn_no_feed by simp
  from torn_long [OF this, of p] f show False by (metis Cons_eq_appendI append_Nil length_Cons not_less_eq_eq order_refl)
qed

lemma window_split: "f = take (length f - n) f @ drop (length f - n) f" by simp

text \<open>
  Recovery of a torn ledger never loses a record: a file that ends in a line feed is left alone; if the
  bytes behind the last line feed are a whole JSON text they are terminated, otherwise exactly they are cut
  off, and every line before stays. Only a torn line as long as the window stops the recovery.
\<close>

theorem ledger_recovery_exact:
  "case truncateIncompleteLedgerTail io file of
     TailKept f \<Rightarrow> f = file \<and> torn_part file = []
   | TailTerminated f \<Rightarrow> f = file @ [10] \<and> torn_part file \<noteq> [] \<and>
       json_parse io (js_trim (decode_utf8 io (torn_part file))) \<noteq> None
   | TailTruncated f \<Rightarrow> f = complete_part file \<and> file = f @ torn_part file \<and> torn_part file \<noteq> [] \<and>
       (js_trim (decode_utf8 io (torn_part file)) = [] \<or>
        json_parse io (js_trim (decode_utf8 io (torn_part file))) = None)
   | TailTooLong \<Rightarrow> SECRET_SINK_TAIL_READ_BYTES \<le> length (torn_part file)"
proof -
  let ?n = SECRET_SINK_TAIL_READ_BYTES
  let ?o = "length file - ?n"
  let ?b = "drop ?o file"
  have window: "readFileTail file ?n = (?b, ?o)"
    by (cases "length file \<le> ?n") (simp_all add: readFileTail_def Let_def)
  have n: "0 < ?n" by (simp add: SECRET_SINK_TAIL_READ_BYTES_def)
  have split: "file = take ?o file @ ?b" by simp
  show ?thesis
  proof (cases "?b = [] \<or> last ?b = 10")
    case True
    have "torn_part file = []"
    proof (cases "?b = []")
      case True
      then have "length file \<le> ?o" by simp
      then have "file = []" using n by (metis diff_less leD length_greater_0_conv)
      then show ?thesis by (simp add: torn_part_def)
    next
      case False
      with True have "last file = 10" by (metis last_drop drop_all not_le_imp_less)
      then show ?thesis by (simp add: torn_empty_iff)
    qed
    with True window show ?thesis by (simp add: truncateIncompleteLedgerTail_def)
  next
    case False
    then have torn: "torn_part file \<noteq> []"
      by (metis drop_Nil last_drop not_le_imp_less drop_all torn_empty_iff)
    show ?thesis
    proof (cases "10 \<notin> set ?b \<and> 0 < ?o")
      case True
      then have "?n \<le> length (torn_part file)"
        using torn_long [of ?b "take ?o file"] split by simp
      with False True window torn show ?thesis by (simp add: truncateIncompleteLedgerTail_def torn_empty_iff)
    next
      case inside: False
      have same: "torn_part ?b = torn_part file"
      proof (cases "10 \<in> set ?b")
        case True
        then show ?thesis using torn_suffix [of ?b "take ?o file"] split by simp
      next
        case False
        with inside have "?o = 0" by simp
        then show ?thesis by simp
      qed
      have "length (torn_part ?b) \<le> length ?b"
        using torn_split [of ?b] by (metis length_append le_add2)
      then have start: "?o + (length ?b - length (torn_part ?b)) = length file - length (torn_part file)"
        using same by simp
      have cut: "take (?o + (length ?b - length (torn_part ?b))) file = complete_part file"
        unfolding start by (simp add: complete_part_def)
      have "truncateIncompleteLedgerTail io file =
          (if js_trim (decode_utf8 io (torn_part file)) \<noteq> [] \<and>
              json_parse io (js_trim (decode_utf8 io (torn_part file))) \<noteq> None
           then TailTerminated (file @ [10]) else TailTruncated (complete_part file))"
        unfolding truncateIncompleteLedgerTail_def window prod.case Let_def cut same
        using False inside by (simp only: if_False simp_thms cut [unfolded same])
      then show ?thesis using torn torn_split [of "file"] by simp
    qed
  qed
qed

section \<open>Records and claims\<close>

datatype sink_error = BadJsonLine nat | NotAnObject nat | InvalidRecord nat | UnreadableRecord
  | KeyConflict | KeyPending | IoError nat
  | ProjectionFailed | WriteFailed | CommitAmbiguous | ReplayUnavailable

definition parseLedgerLine :: "jsval option \<Rightarrow> nat \<Rightarrow> sink_error + jsprops" where
  "parseLedgerLine parsed lineNumber =
     (case parsed of
        None \<Rightarrow> Inl (BadJsonLine lineNumber)
      | Some (Obj r) \<Rightarrow>
          (case (prop_get r (js ''tool''), prop_get r (js ''recordId'')) of
             (Str _, Str _) \<Rightarrow> Inr r
           | _ \<Rightarrow> Inl (InvalidRecord lineNumber))
      | Some _ \<Rightarrow> Inl (NotAnObject lineNumber))"

record existing_record =
  ex_path :: jsstring
  ex_recordId :: jsstring
  ex_result :: jsval

definition existingRecordFromIndexRecord :: "jsprops \<Rightarrow> jsstring \<Rightarrow> existing_record" where
  "existingRecordFromIndexRecord r path =
     (let ptr = prop_get r (js ''pointer'');
          own = (case prop_get r (js ''recordId'') of Str s \<Rightarrow> s | _ \<Rightarrow> []) in
      case (truthy ptr \<and> member_of ptr (js ''type'') = Str (js ''file''),
            member_of ptr (js ''path''), member_of ptr (js ''recordId'')) of
        (True, Str p, Str i) \<Rightarrow> \<lparr>ex_path = p, ex_recordId = i, ex_result = prop_get r (js ''result'')\<rparr>
      | _ \<Rightarrow> \<lparr>ex_path = path, ex_recordId = own, ex_result = prop_get r (js ''result'')\<rparr>)"

text \<open>Whether a ledger record is of the tool and the claim asked for; old records have no claim fingerprint.\<close>

definition record_of_claim :: "jsstring \<Rightarrow> idempotency \<Rightarrow> jsprops \<Rightarrow> bool" where
  "record_of_claim tool idem r \<longleftrightarrow>
     (let own = prop_get r (js ''idempotency'') in
      prop_get r (js ''tool'') = Str tool \<and> truthy own \<and>
      (if member_of own (js ''claimFingerprint'') \<noteq> Undefined
       then member_of own (js ''claimFingerprint'') = Str (claimFingerprint idem)
       else member_of own (js ''key'') = Str (idem_key idem)))"

definition same_fingerprint :: "idempotency \<Rightarrow> jsprops \<Rightarrow> bool" where
  "same_fingerprint idem r \<longleftrightarrow>
     member_of (prop_get r (js ''idempotency'')) (js ''fingerprint'') = Str (fingerprint idem)"

text \<open>The lines from the last one backwards, as \<open>JSON.parse\<close> reads them.\<close>

fun match_from_end ::
  "jsstring \<Rightarrow> jsstring \<Rightarrow> idempotency \<Rightarrow> jsval option list \<Rightarrow> sink_error + existing_record option" where
  "match_from_end path tool idem [] = Inr None"
| "match_from_end path tool idem (l # ls) =
     (case parseLedgerLine l (Suc (length ls)) of
        Inl e \<Rightarrow> Inl e
      | Inr r \<Rightarrow>
          if \<not> record_of_claim tool idem r then match_from_end path tool idem ls
          else if \<not> same_fingerprint idem r then Inl KeyConflict
          else Inr (Some (existingRecordFromIndexRecord r path)))"

definition match_lines ::
  "jsstring \<Rightarrow> jsstring \<Rightarrow> idempotency \<Rightarrow> jsval option list \<Rightarrow> sink_error + existing_record option" where
  "match_lines path tool idem ls = match_from_end path tool idem (rev ls)"

definition readMatchingSecretSinkJsonlRecord ::
  "text_io \<Rightarrow> jsstring \<Rightarrow> jsstring \<Rightarrow> idempotency \<Rightarrow> bytes option \<Rightarrow> sink_error + existing_record option" where
  "readMatchingSecretSinkJsonlRecord io path tool idem file =
     match_lines path tool idem (map (json_parse io) (readBoundedJsonlTailLines io file))"

text \<open>
  The committed record of a claim: the file is missing, does not parse, or holds a value. The value is
  printed and parsed once more before it is read.
\<close>

definition readCommittedIdempotencyRecord ::
  "jsstring \<Rightarrow> jsstring \<Rightarrow> idempotency \<Rightarrow> jsval option option \<Rightarrow> sink_error + existing_record option" where
  "readCommittedIdempotencyRecord path tool idem file =
     (case file of
        None \<Rightarrow> Inr None
      | Some None \<Rightarrow> Inl UnreadableRecord
      | Some (Some v) \<Rightarrow>
          (case parseLedgerLine (Some (json_clean v)) 1 of
             Inl e \<Rightarrow> Inl e
           | Inr r \<Rightarrow>
               if prop_get r (js ''tool'') \<noteq> Str tool \<or> \<not> truthy (prop_get r (js ''idempotency'')) then Inr None
               else if member_of (prop_get r (js ''idempotency'')) (js ''claimFingerprint'') \<noteq>
                  Str (claimFingerprint idem) then Inr None
               else if \<not> same_fingerprint idem r then Inl KeyConflict
               else Inr (Some (existingRecordFromIndexRecord r path))))"

definition readPendingClaim :: "jsval option \<Rightarrow> idempotency option" where
  "readPendingClaim parsed =
     (case parsed of
        Some (Obj ps) \<Rightarrow>
          (case prop_get ps (js ''idempotency'') of
             Obj i \<Rightarrow>
               (case (prop_get i (js ''key''), prop_get i (js ''claimFingerprint''), prop_get i (js ''fingerprint'')) of
                  (Str k, Str c, Str f) \<Rightarrow> Some \<lparr>idem_key = k, claimFingerprint = c, fingerprint = f\<rparr>
                | _ \<Rightarrow> None)
           | _ \<Rightarrow> None)
      | _ \<Rightarrow> None)"

text \<open>What is written: a ledger record, the index record with its pointer, the content of a claim.\<close>

definition idempotency_value :: "idempotency \<Rightarrow> jsval" where
  "idempotency_value i =
     Obj [(js ''key'', Str (idem_key i)), (js ''claimFingerprint'', Str (claimFingerprint i)),
          (js ''fingerprint'', Str (fingerprint i))]"

definition secretLedgerRecord :: "jsstring \<Rightarrow> jsstring \<Rightarrow> jsstring \<Rightarrow> jsval \<Rightarrow> idempotency \<Rightarrow> jsprops" where
  "secretLedgerRecord ts tool recordId result idem =
     [(js ''ts'', Str ts), (js ''tool'', Str tool), (js ''recordId'', Str recordId),
      (js ''idempotency'', idempotency_value idem), (js ''result'', result)]"

definition secretSinkIdempotencyIndexRecord ::
  "(jsval \<Rightarrow> jsval) \<Rightarrow> jsstring \<Rightarrow> jsstring \<Rightarrow> jsstring \<Rightarrow> jsstring \<Rightarrow> jsval \<Rightarrow> idempotency \<Rightarrow> jsprops" where
  "secretSinkIdempotencyIndexRecord sanitize ts tool path recordId result idem =
     secretLedgerRecord ts tool recordId (sanitize result) idem @
     [(js ''pointer'', Obj [(js ''type'', Str (js ''file'')), (js ''path'', Str path), (js ''recordId'', Str recordId)])]"

text \<open>What a written record reads back as.\<close>

lemma json_clean_not_undefined [simp]: "json_clean v \<noteq> Undefined"
  by (cases v) (simp_all split: jsnum.split)

lemma clean_idempotency [simp]: "json_clean (idempotency_value i) = idempotency_value i"
  by (simp add: idempotency_value_def)

lemma index_record_reads_back:
  "readCommittedIdempotencyRecord path tool idem
     (Some (Some (json_clean (Obj (secretSinkIdempotencyIndexRecord sanitize ts tool' path' rid result idem'))))) =
   (if tool' \<noteq> tool \<or> claimFingerprint idem' \<noteq> claimFingerprint idem then Inr None
    else if fingerprint idem' \<noteq> fingerprint idem then Inl KeyConflict
    else Inr (Some \<lparr>ex_path = path', ex_recordId = rid,
      ex_result = (if sanitize result = Undefined then Undefined else json_clean (json_clean (sanitize result)))\<rparr>))"
  by (cases "sanitize result = Undefined")
    (auto simp: readCommittedIdempotencyRecord_def secretSinkIdempotencyIndexRecord_def secretLedgerRecord_def
      parseLedgerLine_def same_fingerprint_def existingRecordFromIndexRecord_def idempotency_value_def member_of_def)

end
