(* ===== verification/Sink_Protocol.thy ===== *)
theory Sink_Protocol
  imports Secret_Ledger Js_Num_Value
begin

text \<open>
  The durable secret sink, its protocol (\<open>executeDurableSecretOperation\<close> and \<open>acquireSecretSinkClaim\<close> in
  \<open>src/utils/secret-sink.ts\<close>). Any number of server processes share the ledger, the claim files and the
  committed records of one sink; a request is a process that moves from one file-system or provider call
  to the next, and the calls of different processes interleave in any order. What a call may do besides
  succeeding (fail, fail after its effect, be answered by the provider in some way) is a choice.

  A process may stop anywhere, as it need never take its next step. The ledger and the audit index have a lock
  file each, here a flag: it is taken by a call of its own, which may wait, fail at its deadline or for another
  reason, or fail with the file left behind, and it is given back by another call, which may fail. When a waiting process
  may break a lock as stale is the matter of \<open>Sink_Locks\<close>, which also shows that this can go wrong; here it may
  do so at any time, so the invariants below do not rest on the locks. A line is written in one step.
\<close>

section \<open>State\<close>

text \<open>
  The files by claim fingerprint: a claim file is missing, or there with a content that may not be readable
  yet; a committed record appears by a rename, so with its whole content. \<open>minted\<close> is a history variable:
  how many credentials exist at the provider for a claim.
\<close>

datatype sink_lock = LedgerLock | IndexLock

record sink_world =
  pending_claims :: "jsstring \<Rightarrow> jsval option option"
  committed :: "jsstring \<Rightarrow> jsval option"
  ledger :: "jsval option list"
  locks :: "sink_lock \<Rightarrow> bool"
  minted :: "jsstring \<Rightarrow> nat"

record sink_request =
  rq_tool :: jsstring
  rq_idem :: idempotency

record sink_setup =
  sink_path :: jsstring
  sanitize_result :: "jsval \<Rightarrow> jsval"

abbreviation claim_of :: "sink_request \<Rightarrow> jsstring" where
  "claim_of r \<equiv> claimFingerprint (rq_idem r)"

datatype sink_outcome = Replayed existing_record | Stored jsstring | Threw sink_error | ProviderThrew jsval

text \<open>
  \<open>readMatchingSecretSinkRecord\<close> is called at three places: before the claim, after losing the race for the
  claim file, and while holding it.
\<close>

datatype match_site = Early | Raced | Late

datatype sink_pc =
    Preflight | ReadCommitted | ReadPending | CheckExists
  | MatchCommitted match_site | RecoverTail match_site | TruncateTail match_site | MatchLedger match_site
  | OpenClaim | RacedPending | WriteClaim | SyncClaim
  | CreateCredential | ProjectPreflight jsval
  | AppendRecord jsval | WriteLine jsval | FlushRecord jsval jsstring nat
  | CommitIndex jsval jsstring | WriteIndex jsval jsstring | Unlock sink_lock sink_pc
  | RunRecovery jsval sink_error
  | ReleaseClaim sink_outcome | Finished sink_outcome

text \<open>
  What a call does: it succeeds, throws, sees the ledger from some line on; a waiting process finds a lock stale and
  removes it, or takes it and fails before it has it, leaving the file; the provider mints a credential, mints
  one but answers unusably, or refuses, having minted one or not; the recovery answers, and the credential
  is gone or not; a new record id and time; a rename that took effect before its directory could be flushed;
  a rollback that worked, or one that could not be confirmed and left the line or not; an unlink that failed.
\<close>

datatype sink_choice =
    Proceed | Fail nat | SeeFrom nat | BreakStale | LockedThenFail nat
  | Mint jsval | MintUnusable jsval | Refuse jsval bool
  | Recovered jsval bool
  | NewRecord jsstring jsstring | RenamedThenFail jsstring | RolledBack | RollbackUnconfirmed bool | UnlinkFails

section \<open>One step of a process\<close>

definition is_status :: "jsval \<Rightarrow> (jsnum \<Rightarrow> bool) \<Rightarrow> bool" where
  "is_status v P \<longleftrightarrow> (case v of Num n \<Rightarrow> P n | _ \<Rightarrow> False)"

definition createErrorHasKnownProviderRejection :: "jsval \<Rightarrow> bool" where
  "createErrorHasKnownProviderRejection err \<longleftrightarrow>
     (case err of
        Obj e \<Rightarrow> prop_get e (js ''code'') \<noteq> Str (js ''operation_status_unknown'') \<and>
          is_status (prop_get e (js ''status'')) (\<lambda>n. num_ge n 400 \<and> num_less n 500 \<and> \<not> num_eq n 408)
      | _ \<Rightarrow> False)"

definition recoveryClearedProviderSideEffect :: "jsval \<Rightarrow> bool" where
  "recoveryClearedProviderSideEffect recovery \<longleftrightarrow> member_of recovery (js ''status'') = Str (js ''deleted'')"

text \<open>How a lookup ends at a place of the code; \<open>k\<close> is where it goes on when nothing was found.\<close>

definition lookup_result :: "match_site \<Rightarrow> sink_error + existing_record option \<Rightarrow> sink_pc \<Rightarrow> sink_pc" where
  "lookup_result site res k =
     (let leave = (if site = Late then ReleaseClaim else Finished) in
      case res of Inl e \<Rightarrow> leave (Threw e) | Inr (Some ex) \<Rightarrow> leave (Replayed ex) | Inr None \<Rightarrow> k)"

definition pending_verdict :: "sink_request \<Rightarrow> jsval option option \<Rightarrow> sink_error option" where
  "pending_verdict r f =
     (case f of None \<Rightarrow> None
      | Some content \<Rightarrow>
          (case readPendingClaim content of
             None \<Rightarrow> None
           | Some i \<Rightarrow> Some (if fingerprint i \<noteq> fingerprint (rq_idem r) then KeyConflict else KeyPending)))"

definition claim_content :: "sink_request \<Rightarrow> jsval" where
  "claim_content r =
     Obj [(js ''tool'', Str (rq_tool r)), (js ''status'', Str (js ''pending'')),
          (js ''idempotency'', idempotency_value (rq_idem r))]"

definition ledger_line :: "sink_request \<Rightarrow> jsstring \<Rightarrow> jsstring \<Rightarrow> jsval \<Rightarrow> jsval option" where
  "ledger_line r ts rid result =
     Some (json_clean (Obj (secretLedgerRecord ts (rq_tool r) rid result (rq_idem r))))"

definition index_value :: "sink_setup \<Rightarrow> sink_request \<Rightarrow> jsstring \<Rightarrow> jsstring \<Rightarrow> jsval \<Rightarrow> jsval" where
  "index_value snk r ts rid result =
     json_clean (Obj (secretSinkIdempotencyIndexRecord (sanitize_result snk) ts (rq_tool r) (sink_path snk) rid
       result (rq_idem r)))"

definition read_committed :: "sink_setup \<Rightarrow> sink_request \<Rightarrow> sink_world \<Rightarrow> sink_error + existing_record option" where
  "read_committed snk r w =
     readCommittedIdempotencyRecord (sink_path snk) (rq_tool r) (rq_idem r)
       (map_option Some (committed w (claim_of r)))"

text \<open>A call that either succeeds or throws.\<close>

definition or_fail :: "sink_choice \<Rightarrow> 'a option \<Rightarrow> (nat \<Rightarrow> 'a option) \<Rightarrow> 'a option" where
  "or_fail ch ok bad = (case ch of Proceed \<Rightarrow> ok | Fail e \<Rightarrow> bad e | _ \<Rightarrow> None)"

definition set_claim :: "sink_request \<Rightarrow> jsval option option \<Rightarrow> sink_world \<Rightarrow> sink_world" where
  "set_claim r f w = w\<lparr>pending_claims := (pending_claims w)(claim_of r := f)\<rparr>"

definition set_minted :: "sink_request \<Rightarrow> nat \<Rightarrow> sink_world \<Rightarrow> sink_world" where
  "set_minted r n w = w\<lparr>minted := (minted w)(claim_of r := n)\<rparr>"

definition set_committed :: "sink_request \<Rightarrow> jsval \<Rightarrow> sink_world \<Rightarrow> sink_world" where
  "set_committed r v w = w\<lparr>committed := (committed w)(claim_of r \<mapsto> v)\<rparr>"

text \<open>\<open>create()\<close>; a known rejection means that nothing was minted.\<close>

definition create_step :: "sink_request \<Rightarrow> sink_choice \<Rightarrow> sink_world \<Rightarrow> (sink_world \<times> sink_pc) option" where
  "create_step r ch w =
     (let n = minted w (claim_of r) in
      case ch of
        Mint v \<Rightarrow> Some (set_minted r (Suc n) w, ProjectPreflight v)
      | MintUnusable v \<Rightarrow> Some (set_minted r (Suc n) w, RunRecovery v ProjectionFailed)
      | Refuse err b \<Rightarrow>
          (if createErrorHasKnownProviderRejection err
           then (if b then None else Some (w, ReleaseClaim (ProviderThrew err)))
           else Some (set_minted r (if b then Suc n else n) w, Finished (ProviderThrew err)))
      | _ \<Rightarrow> None)"

definition set_lock :: "sink_lock \<Rightarrow> bool \<Rightarrow> sink_world \<Rightarrow> sink_world" where
  "set_lock l b w = w\<lparr>locks := (locks w)(l := b)\<rparr>"

text \<open>
  One turn of the loop of \<open>acquireLedgerAppendLock\<close>: the lock file is created, or it is there, and then it is broken as
  stale, or the loop sleeps (no step), or its deadline has passed and it throws.
\<close>

definition acquire_step ::
  "sink_lock \<Rightarrow> sink_choice \<Rightarrow> sink_world \<Rightarrow> sink_pc \<Rightarrow> sink_pc \<Rightarrow> (nat \<Rightarrow> sink_pc) \<Rightarrow> (sink_world \<times> sink_pc) option" where
  "acquire_step l ch w again got failed =
     (case ch of
        Proceed \<Rightarrow> if locks w l then None else Some (set_lock l True w, got)
      | BreakStale \<Rightarrow> if locks w l then Some (set_lock l False w, again) else None
      | LockedThenFail e \<Rightarrow> if locks w l then None else Some (set_lock l True w, failed e)
      | Fail e \<Rightarrow> Some (w, failed e)
      | _ \<Rightarrow> None)"

text \<open>\<open>releaseSecretSinkClaimBestEffort\<close> on a lock: a failure is only logged.\<close>

definition unlock_step :: "sink_lock \<Rightarrow> sink_choice \<Rightarrow> sink_world \<Rightarrow> sink_pc \<Rightarrow> (sink_world \<times> sink_pc) option" where
  "unlock_step l ch w k =
     (case ch of Proceed \<Rightarrow> Some (set_lock l False w, k) | UnlinkFails \<Rightarrow> Some (w, k) | _ \<Rightarrow> None)"

text \<open>
  \<open>appendSecretSinkRecord\<close>: under the lock of the ledger its size is noted and the line is written, and then
  flushed or rolled back, which truncates the file to that size, whatever is behind it by then. A part of a line that
  could not be rolled back is no line of the ledger.
\<close>

definition append_step :: "jsval \<Rightarrow> sink_choice \<Rightarrow> sink_world \<Rightarrow> (sink_world \<times> sink_pc) option" where
  "append_step v ch w = acquire_step LedgerLock ch w (AppendRecord v) (WriteLine v) (\<lambda>e. RunRecovery v WriteFailed)"

definition write_step :: "sink_request \<Rightarrow> jsval \<Rightarrow> sink_choice \<Rightarrow> sink_world \<Rightarrow> (sink_world \<times> sink_pc) option" where
  "write_step r v ch w =
     (case ch of
        NewRecord ts rid \<Rightarrow>
          Some (w\<lparr>ledger := ledger w @ [ledger_line r ts rid v]\<rparr>, FlushRecord v rid (length (ledger w)))
      | Fail e \<Rightarrow> Some (w, Unlock LedgerLock (RunRecovery v WriteFailed))
      | RollbackUnconfirmed torn \<Rightarrow> Some (w, Unlock LedgerLock (Finished (Threw CommitAmbiguous)))
      | _ \<Rightarrow> None)"

definition flush_step :: "jsval \<Rightarrow> jsstring \<Rightarrow> nat \<Rightarrow> sink_choice \<Rightarrow> sink_world \<Rightarrow> (sink_world \<times> sink_pc) option" where
  "flush_step v rid size_before ch w =
     (case ch of
        Proceed \<Rightarrow> Some (w, Unlock LedgerLock (CommitIndex v rid))
      | RolledBack \<Rightarrow>
          Some (w\<lparr>ledger := take size_before (ledger w)\<rparr>, Unlock LedgerLock (RunRecovery v WriteFailed))
      | RollbackUnconfirmed keeps \<Rightarrow>
          Some (w\<lparr>ledger := (if keeps then ledger w else take size_before (ledger w))\<rparr>,
                Unlock LedgerLock (Finished (Threw CommitAmbiguous)))
      | _ \<Rightarrow> None)"

text \<open>
  \<open>appendSecretSinkIdempotencyIndex\<close> under the lock of the index, by \<open>writeCommittedIdempotencyRecord\<close>: the record
  appears by a rename. Failures behind it, of the audit log, are ignored there.
\<close>

definition index_step ::
  "jsval \<Rightarrow> jsstring \<Rightarrow> sink_choice \<Rightarrow> sink_world \<Rightarrow> (sink_world \<times> sink_pc) option" where
  "index_step v rid ch w =
     acquire_step IndexLock ch w (CommitIndex v rid) (WriteIndex v rid) (\<lambda>e. Finished (Threw ReplayUnavailable))"

definition commit_step ::
  "sink_setup \<Rightarrow> sink_request \<Rightarrow> jsval \<Rightarrow> jsstring \<Rightarrow> sink_choice \<Rightarrow> sink_world \<Rightarrow> (sink_world \<times> sink_pc) option" where
  "commit_step snk r v rid ch w =
     (case ch of
        NewRecord ts x \<Rightarrow>
          Some (set_committed r (index_value snk r ts rid v) w, Unlock IndexLock (ReleaseClaim (Stored rid)))
      | RenamedThenFail ts \<Rightarrow>
          Some (set_committed r (index_value snk r ts rid v) w, Unlock IndexLock (Finished (Threw ReplayUnavailable)))
      | Fail e \<Rightarrow> Some (w, Unlock IndexLock (Finished (Threw ReplayUnavailable)))
      | _ \<Rightarrow> None)"

text \<open>\<open>failDurableSecretAfterCreate\<close>; the recovery says deleted only if the credential is gone.\<close>

definition recovery_step ::
  "sink_request \<Rightarrow> sink_error \<Rightarrow> sink_choice \<Rightarrow> sink_world \<Rightarrow> (sink_world \<times> sink_pc) option" where
  "recovery_step r e ch w =
     (let n = minted w (claim_of r) in
      case ch of
        Recovered recovery gone \<Rightarrow>
          (if recoveryClearedProviderSideEffect recovery
           then (if gone then Some (set_minted r (n - 1) w, ReleaseClaim (Threw e)) else None)
           else Some (set_minted r (if gone then n - 1 else n) w, Finished (Threw e)))
      | _ \<Rightarrow> None)"

text \<open>
  \<open>acquireSecretSinkClaim\<close> up to \<open>SyncClaim\<close> with \<open>readMatchingSecretSinkRecord\<close> in between, then
  \<open>executeDurableSecretOperation\<close>.
\<close>

fun advance :: "sink_setup \<Rightarrow> sink_request \<Rightarrow> sink_choice \<Rightarrow> sink_world \<Rightarrow> sink_pc \<Rightarrow> (sink_world \<times> sink_pc) option"
where
  "advance snk r ch w Preflight =
     or_fail ch (Some (w, ReadCommitted)) (\<lambda>e. Some (w, Finished (Threw (IoError e))))"
| "advance snk r ch w ReadCommitted =
     or_fail ch (Some (w, lookup_result Early (read_committed snk r w) ReadPending))
       (\<lambda>e. Some (w, Finished (Threw (IoError e))))"
| "advance snk r ch w ReadPending =
     or_fail ch
       (Some (w, case pending_verdict r (pending_claims w (claim_of r)) of
                   None \<Rightarrow> CheckExists | Some e \<Rightarrow> Finished (Threw e)))
       (\<lambda>e. None)"
| "advance snk r ch w CheckExists =
     or_fail ch
       (Some (w, if pending_claims w (claim_of r) \<noteq> None then Finished (Threw KeyPending) else MatchCommitted Early))
       (\<lambda>e. None)"
| "advance snk r ch w (MatchCommitted site) =
     or_fail ch (Some (w, lookup_result site (read_committed snk r w) (RecoverTail site)))
       (\<lambda>e. Some (w, lookup_result site (Inl (IoError e)) Preflight))"
| "advance snk r ch w (RecoverTail site) =
     acquire_step LedgerLock ch w (RecoverTail site) (TruncateTail site)
       (\<lambda>e. lookup_result site (Inl (IoError e)) Preflight)"
| "advance snk r ch w (TruncateTail site) =
     or_fail ch (Some (w, Unlock LedgerLock (MatchLedger site)))
       (\<lambda>e. Some (w, Unlock LedgerLock (lookup_result site (Inl (IoError e)) Preflight)))"
| "advance snk r ch w (MatchLedger site) =
     (case ch of
        SeeFrom n \<Rightarrow>
          Some (w, lookup_result site (match_lines (sink_path snk) (rq_tool r) (rq_idem r) (drop n (ledger w)))
            (case site of Early \<Rightarrow> OpenClaim | Raced \<Rightarrow> RacedPending | Late \<Rightarrow> CreateCredential))
      | Fail e \<Rightarrow> Some (w, lookup_result site (Inl (IoError e)) Preflight)
      | _ \<Rightarrow> None)"
| "advance snk r ch w OpenClaim =
     or_fail ch
       (Some (if pending_claims w (claim_of r) = None then (set_claim r (Some None) w, WriteClaim)
              else (w, MatchCommitted Raced)))
       (\<lambda>e. Some (w, Finished (Threw (IoError e))))"
| "advance snk r ch w RacedPending =
     or_fail ch
       (Some (w, Finished (Threw (case pending_verdict r (pending_claims w (claim_of r)) of
                                    Some KeyConflict \<Rightarrow> KeyConflict | _ \<Rightarrow> KeyPending))))
       (\<lambda>e. None)"
| "advance snk r ch w WriteClaim =
     or_fail ch (Some (set_claim r (Some (Some (claim_content r))) w, SyncClaim))
       (\<lambda>e. Some (w, ReleaseClaim (Threw (IoError e))))"
| "advance snk r ch w SyncClaim =
     or_fail ch (Some (w, MatchCommitted Late)) (\<lambda>e. Some (w, ReleaseClaim (Threw (IoError e))))"
| "advance snk r ch w CreateCredential = create_step r ch w"
| "advance snk r ch w (ProjectPreflight v) =
     or_fail ch (Some (w, AppendRecord v)) (\<lambda>e. Some (w, RunRecovery v ProjectionFailed))"
| "advance snk r ch w (AppendRecord v) = append_step v ch w"
| "advance snk r ch w (WriteLine v) = write_step r v ch w"
| "advance snk r ch w (FlushRecord v rid n) = flush_step v rid n ch w"
| "advance snk r ch w (CommitIndex v rid) = index_step v rid ch w"
| "advance snk r ch w (WriteIndex v rid) = commit_step snk r v rid ch w"
| "advance snk r ch w (Unlock l k) = unlock_step l ch w k"
| "advance snk r ch w (RunRecovery v e) = recovery_step r e ch w"
| "advance snk r ch w (ReleaseClaim res) =
     (case ch of Proceed \<Rightarrow> Some (set_claim r None w, Finished res) | UnlinkFails \<Rightarrow> Some (w, Finished res) | _ \<Rightarrow> None)"
| "advance snk r ch w (Finished res) = None"

section \<open>The processes together\<close>

type_synonym sink_state = "sink_world \<times> (nat \<Rightarrow> sink_pc)"

inductive sink_step :: "sink_setup \<Rightarrow> (nat \<Rightarrow> sink_request) \<Rightarrow> sink_state \<Rightarrow> sink_state \<Rightarrow> bool"
  for snk rq
where
  "advance snk (rq p) ch w (pcs p) = Some (w', pc') \<Longrightarrow> sink_step snk rq (w, pcs) (w', pcs(p := pc'))"

text \<open>At the start there are no claims, committed records or credentials; the ledger may hold anything.\<close>

definition sink_start :: "jsval option list \<Rightarrow> sink_state" where
  "sink_start old =
     (\<lparr>pending_claims = \<lambda>c. None, committed = \<lambda>c. None, ledger = old, locks = \<lambda>l. False, minted = \<lambda>c. 0\<rparr>,
      \<lambda>p. Preflight)"

definition sink_reachable :: "sink_setup \<Rightarrow> (nat \<Rightarrow> sink_request) \<Rightarrow> sink_state \<Rightarrow> bool" where
  "sink_reachable snk rq s \<longleftrightarrow> (\<exists>old. (sink_step snk rq)\<^sup>*\<^sup>* (sink_start old) s)"

text \<open>A claim fingerprint is the hash of a text with the tool's name in it: without collisions it names the tool.\<close>

definition claims_name_tools :: "(nat \<Rightarrow> sink_request) \<Rightarrow> bool" where
  "claims_name_tools rq \<longleftrightarrow> (\<forall>p q. claim_of (rq p) = claim_of (rq q) \<longrightarrow> rq_tool (rq p) = rq_tool (rq q))"

section \<open>One credential for each claim\<close>

text \<open>
  Where a process stands with regard to its claim: it does not hold it; it holds it and has not looked, or is
  about to give it back; it has looked and found nothing; it has asked the provider.
\<close>

datatype claim_stage = Outside | Claimed | Virgin | Minting

fun stage :: "sink_pc \<Rightarrow> claim_stage" where
  "stage WriteClaim = Claimed"
| "stage SyncClaim = Claimed"
| "stage (MatchCommitted s) = (if s = Late then Claimed else Outside)"
| "stage (RecoverTail s) = (if s = Late then Virgin else Outside)"
| "stage (TruncateTail s) = (if s = Late then Virgin else Outside)"
| "stage (MatchLedger s) = (if s = Late then Virgin else Outside)"
| "stage CreateCredential = Virgin"
| "stage (ProjectPreflight v) = Minting"
| "stage (AppendRecord v) = Minting"
| "stage (WriteLine v) = Minting"
| "stage (FlushRecord v i n) = Minting"
| "stage (CommitIndex v i) = Minting"
| "stage (WriteIndex v i) = Minting"
| "stage (Unlock l pc) = stage pc"
| "stage (RunRecovery v e) = Minting"
| "stage (ReleaseClaim res) = Claimed"
| "stage pc = Outside"

fun stage_inv :: "sink_world \<Rightarrow> jsstring \<Rightarrow> claim_stage \<Rightarrow> bool" where
  "stage_inv w c Outside \<longleftrightarrow> True"
| "stage_inv w c Claimed \<longleftrightarrow> pending_claims w c \<noteq> None \<and> (minted w c = 0 \<or> committed w c \<noteq> None)"
| "stage_inv w c Virgin \<longleftrightarrow> pending_claims w c \<noteq> None \<and> committed w c = None \<and> minted w c = 0"
| "stage_inv w c Minting \<longleftrightarrow> pending_claims w c \<noteq> None \<and> committed w c = None"

definition own_record :: "sink_setup \<Rightarrow> jsstring \<Rightarrow> jsstring \<Rightarrow> jsval \<Rightarrow> bool" where
  "own_record snk tool c v \<longleftrightarrow>
     (\<exists>r ts rid res. claim_of r = c \<and> rq_tool r = tool \<and> v = index_value snk r ts rid res)"

definition claim_inv :: "sink_setup \<Rightarrow> jsstring \<Rightarrow> jsstring \<Rightarrow> sink_world \<Rightarrow> bool" where
  "claim_inv snk tool c w \<longleftrightarrow>
     minted w c \<le> 1 \<and> (\<forall>v. committed w c = Some v \<longrightarrow> own_record snk tool c v) \<and>
     (minted w c = 0 \<or> committed w c \<noteq> None \<or> pending_claims w c \<noteq> None)"

definition same_claim_files :: "jsstring \<Rightarrow> sink_world \<Rightarrow> sink_world \<Rightarrow> bool" where
  "same_claim_files c w w' \<longleftrightarrow>
     pending_claims w' c = pending_claims w c \<and> committed w' c = committed w c \<and> minted w' c = minted w c"

lemma claim_inv_locks [simp]: "claim_inv snk tool c (w\<lparr>locks := l\<rparr>) = claim_inv snk tool c w"
  by (simp add: claim_inv_def)

lemma read_own_record:
  "own_record snk (rq_tool r) (claim_of r) v \<Longrightarrow>
     readCommittedIdempotencyRecord (sink_path snk) (rq_tool r) (rq_idem r) (Some (Some v)) \<noteq> Inr None"
  by (auto simp: own_record_def index_value_def index_record_reads_back simp del: json_clean.simps split: if_splits)

lemma own_recordI [simp]: "own_record snk (rq_tool r) (claim_of r) (index_value snk r ts rid res)"
  unfolding own_record_def by blast

lemma read_committed_none:
  "claim_inv snk (rq_tool r) (claim_of r) w \<Longrightarrow> read_committed snk r w = Inr None \<Longrightarrow> committed w (claim_of r) = None"
  using read_own_record [of snk r] by (cases "committed w (claim_of r)") (auto simp: read_committed_def claim_inv_def)

lemma stage_lookup: "stage (lookup_result s res k) =
    (if res = Inr None then stage k else if s = Late then Claimed else Outside)"
  by (cases s) (auto simp: lookup_result_def Let_def split: sum.split option.split)

lemmas step_defs = or_fail_def create_step_def append_step_def write_step_def flush_step_def index_step_def
  commit_step_def recovery_step_def acquire_step_def unlock_step_def set_lock_def set_claim_def set_minted_def set_committed_def Let_def

text \<open>A step changes only its own claim's files, \<close>

lemma step_frame: "advance snk r ch w pc = Some (w', pc') \<Longrightarrow> c \<noteq> claim_of r \<Longrightarrow> same_claim_files c w w'"
  by (cases pc; cases ch) (auto simp: step_defs same_claim_files_def split: if_splits)

lemma same_files_claim: "same_claim_files c w w' \<Longrightarrow> claim_inv snk t c w \<Longrightarrow> claim_inv snk t c w'"
  by (simp add: same_claim_files_def claim_inv_def)

lemma same_files_stage: "same_claim_files c w w' \<Longrightarrow> stage_inv w c st \<Longrightarrow> stage_inv w' c st"
  by (cases st) (simp_all add: same_claim_files_def)

text \<open>and keeps the invariant of its claim.\<close>

lemma step_claim:
  assumes "advance snk r ch w pc = Some (w', pc')" "claim_inv snk (rq_tool r) (claim_of r) w"
    "stage_inv w (claim_of r) (stage pc)"
  shows "claim_inv snk (rq_tool r) (claim_of r) w' \<and> stage_inv w' (claim_of r) (stage pc') \<and>
    (stage pc = Outside \<longrightarrow> (same_claim_files (claim_of r) w w' \<and> stage pc' = Outside) \<or>
       pending_claims w (claim_of r) = None)"
proof (cases pc)
  case (MatchCommitted s)
  then show ?thesis using assms read_committed_none [OF assms(2)]
    by (cases ch) (auto simp: step_defs stage_lookup same_claim_files_def split: if_splits)
next
  case (MatchLedger s)
  then show ?thesis using assms
    by (cases ch; cases s) (auto simp: step_defs stage_lookup same_claim_files_def split: if_splits)
next
  case ReadCommitted
  then show ?thesis using assms
    by (cases ch) (auto simp: step_defs stage_lookup same_claim_files_def split: if_splits)
next
  case (RecoverTail s)
  then show ?thesis using assms
    by (cases ch) (auto simp: step_defs stage_lookup same_claim_files_def split: if_splits)
next
  case ReadPending
  then show ?thesis using assms
    by (cases ch) (auto simp: step_defs same_claim_files_def split: if_splits option.splits)
next
  case OpenClaim
  then show ?thesis using assms
    by (cases ch) (auto simp: step_defs claim_inv_def same_claim_files_def split: if_splits)
next
  case CreateCredential
  then show ?thesis using assms
    by (cases ch) (auto simp: step_defs claim_inv_def same_claim_files_def split: if_splits)
next
  case (TruncateTail s)
  then show ?thesis using assms
    by (cases ch) (auto simp: step_defs stage_lookup same_claim_files_def split: if_splits)
next
  case (WriteIndex v i)
  then show ?thesis using assms
    by (cases ch) (auto simp: step_defs claim_inv_def same_claim_files_def split: if_splits)
next
  case (Unlock l k)
  then have "pc' = k" "same_claim_files (claim_of r) w w'"
    using assms(1) by (cases ch; auto simp: step_defs same_claim_files_def)+
  moreover from this Unlock assms have "claim_inv snk (rq_tool r) (claim_of r) w'" "stage_inv w' (claim_of r) (stage k)"
    using same_files_claim same_files_stage by simp_all
  ultimately show ?thesis by (simp add: Unlock)
next
  case (RunRecovery v e)
  then show ?thesis using assms
    by (cases ch) (auto simp: step_defs claim_inv_def same_claim_files_def split: if_splits)
qed (use assms in \<open>cases ch; auto simp: step_defs claim_inv_def same_claim_files_def split: if_splits\<close>)+

text \<open>The invariant of all claims and processes; \<open>tool\<close> is the tool that a claim names.\<close>

definition sink_inv :: "sink_setup \<Rightarrow> (jsstring \<Rightarrow> jsstring) \<Rightarrow> (nat \<Rightarrow> sink_request) \<Rightarrow> sink_state \<Rightarrow> bool" where
  "sink_inv snk tool rq s \<longleftrightarrow>
     (\<forall>c. claim_inv snk (tool c) c (fst s)) \<and>
     (\<forall>p. stage_inv (fst s) (claim_of (rq p)) (stage (snd s p))) \<and>
     (\<forall>p q. claim_of (rq p) = claim_of (rq q) \<longrightarrow> stage (snd s p) \<noteq> Outside \<longrightarrow> stage (snd s q) \<noteq> Outside \<longrightarrow> p = q)"

lemma sink_inv_start: "sink_inv snk tool rq (sink_start old)"
  by (simp add: sink_inv_def sink_start_def claim_inv_def)

lemma stage_inv_pending: "stage_inv w c st \<Longrightarrow> st \<noteq> Outside \<Longrightarrow> pending_claims w c \<noteq> None"
  by (cases st) simp_all

lemma sink_inv_step:
  assumes inv: "sink_inv snk tool rq (w, pcs)" and tool: "\<And>p. rq_tool (rq p) = tool (claim_of (rq p))"
    and step: "advance snk (rq p) ch w (pcs p) = Some (w', pc')"
  shows "sink_inv snk tool rq (w', pcs(p := pc'))"
proof -
  let ?c = "claim_of (rq p)"
  have ci: "claim_inv snk (tool c) c w" and si: "stage_inv w (claim_of (rq q)) (stage (pcs q))"
    and uniq: "claim_of (rq q) = claim_of (rq q') \<Longrightarrow> stage (pcs q) \<noteq> Outside \<Longrightarrow> stage (pcs q') \<noteq> Outside \<Longrightarrow> q = q'"
    for c q q' using inv by (auto simp: sink_inv_def)
  have "claim_inv snk (rq_tool (rq p)) ?c w" using ci [of ?c] tool [of p] by simp
  note st = step_claim [OF step this si [of p]]
  have frame: "same_claim_files c w w'" if "c \<noteq> ?c" for c using step_frame [OF step that] .
  have others: "stage (pcs q) = Outside \<or> same_claim_files ?c w w' \<and> stage pc' = Outside"
    if "q \<noteq> p" "claim_of (rq q) = ?c" for q
  proof (cases "stage (pcs q) = Outside")
    case False
    then have "pending_claims w ?c \<noteq> None" using stage_inv_pending [OF si [of q]] that by simp
    moreover have "stage (pcs p) = Outside" using uniq [of p q] that False by auto
    ultimately show ?thesis using st by auto
  qed simp
  have "claim_inv snk (tool c) c w'" for c
    using st frame [of c] same_files_claim [OF _ ci] tool [of p] by (cases "c = ?c") auto
  moreover have "stage_inv w' (claim_of (rq q)) (stage ((pcs(p := pc')) q))" for q
  proof (cases "q = p")
    case False
    then show ?thesis
    proof (cases "claim_of (rq q) = ?c")
      case True
      then show ?thesis using others [OF False] si [of q] same_files_stage [of ?c w w'] False by auto
    next
      case other: False
      show ?thesis using same_files_stage [OF frame [OF other] si [of q]] False by simp
    qed
  qed (use st in simp)
  moreover have "q = q'" if a: "claim_of (rq q) = claim_of (rq q')" "stage ((pcs(p := pc')) q) \<noteq> Outside"
      "stage ((pcs(p := pc')) q') \<noteq> Outside" for q q'
  proof (cases "q = p \<or> q' = p")
    case False
    then show ?thesis using uniq a by simp
  next
    case True
    then show ?thesis
    proof
      assume q: "q = p"
      show ?thesis
      proof (cases "q' = p")
        case False
        with q a others [of q'] show ?thesis by auto
      qed (simp add: q)
    next
      assume q: "q' = p"
      show ?thesis
      proof (cases "q = p")
        case False
        with q a others [of q] show ?thesis by auto
      qed (simp add: q)
    qed
  qed
  ultimately show ?thesis by (simp add: sink_inv_def)
qed

lemma sink_inv_reachable:
  assumes "(sink_step snk rq)\<^sup>*\<^sup>* s s'" "sink_inv snk tool rq s" "\<And>p. rq_tool (rq p) = tool (claim_of (rq p))"
  shows "sink_inv snk tool rq s'"
  using assms(1,2)
proof (induction rule: rtranclp_induct)
  case (step y z)
  from step.hyps(2) obtain p ch w pcs w' pc' where s: "y = (w, pcs)" "z = (w', pcs(p := pc'))"
      "advance snk (rq p) ch w (pcs p) = Some (w', pc')" by (cases rule: sink_step.cases) auto
  from sink_inv_step [OF step.IH [OF step.prems, unfolded s(1)] assms(3) s(3)] show ?case by (simp add: s(2))
qed simp

lemma claims_tool:
  "claims_name_tools rq \<Longrightarrow> \<exists>tool. \<forall>p. rq_tool (rq p) = tool (claim_of (rq p))"
  unfolding claims_name_tools_def
  by (intro exI [of _ "\<lambda>c. rq_tool (rq (SOME p. claim_of (rq p) = c))"] allI) (metis (mono_tags, lifting) someI)

lemma reachable_inv:
  assumes "sink_reachable snk rq s" "claims_name_tools rq"
  obtains tool where "sink_inv snk tool rq s" "\<And>p. rq_tool (rq p) = tool (claim_of (rq p))"
proof -
  obtain tool where t: "\<And>p. rq_tool (rq p) = tool (claim_of (rq p))" using claims_tool [OF assms(2)] by auto
  obtain old where "(sink_step snk rq)\<^sup>*\<^sup>* (sink_start old) s" using assms(1) by (auto simp: sink_reachable_def)
  from that [OF sink_inv_reachable [OF this sink_inv_start t] t] show thesis .
qed

section \<open>Runs\<close>

text \<open>A run names, step by step, the process that moves and what its call does.\<close>

fun sink_run :: "sink_setup \<Rightarrow> (nat \<Rightarrow> sink_request) \<Rightarrow> (nat \<times> sink_choice) list \<Rightarrow> sink_state \<Rightarrow> sink_state option" where
  "sink_run snk rq [] s = Some s"
| "sink_run snk rq ((p, ch) # cs) (w, pcs) =
     (case advance snk (rq p) ch w (pcs p) of
        None \<Rightarrow> None | Some (w', pc') \<Rightarrow> sink_run snk rq cs (w', pcs(p := pc')))"

lemma sink_run_steps: "sink_run snk rq cs s = Some s' \<Longrightarrow> (sink_step snk rq)\<^sup>*\<^sup>* s s'"
proof (induction cs arbitrary: s)
  case (Cons x cs)
  obtain p ch w pcs where x: "x = (p, ch)" "s = (w, pcs)" by (cases x; cases s)
  with Cons.prems obtain w' pc' where a: "advance snk (rq p) ch w (pcs p) = Some (w', pc')"
      "sink_run snk rq cs (w', pcs(p := pc')) = Some s'" by (auto split: option.splits)
  have "sink_step snk rq s (w', pcs(p := pc'))" using a(1) x(2) by (simp add: sink_step.intros)
  from converse_rtranclp_into_rtranclp [of "sink_step snk rq", OF this Cons.IH [OF a(2)]] show ?case .
qed simp

lemma sink_run_reachable: "sink_run snk rq cs (sink_start old) = Some s \<Longrightarrow> sink_reachable snk rq s"
  unfolding sink_reachable_def using sink_run_steps by blast

definition sample_request :: sink_request where
  "sample_request = \<lparr>rq_tool = js ''t'', rq_idem = \<lparr>idem_key = js ''k'', claimFingerprint = js ''c'', fingerprint = js ''f''\<rparr>\<rparr>"

definition sample_sink :: sink_setup where
  "sample_sink = \<lparr>sink_path = js ''/s'', sanitize_result = (\<lambda>v. Null)\<rparr>"

text \<open>Up to the claim, and from the provider's answer to the end.\<close>

definition claim_steps :: "sink_choice list" where
  "claim_steps = [Proceed, Proceed, Proceed, Proceed, Proceed, Proceed, Proceed, Proceed, SeeFrom 0, Proceed, Proceed,
     Proceed, Proceed, Proceed, Proceed, Proceed, SeeFrom 0]"

definition store_steps :: "sink_choice list" where
  "store_steps = [Mint Null, Proceed, Proceed, NewRecord (js ''0'') (js ''r''), Proceed, Proceed, Proceed,
     NewRecord (js ''0'') [], Proceed, Proceed]"

lemma sample_stored:
  "\<exists>w pcs. sink_run sample_sink (\<lambda>p. sample_request) (map (Pair 0) (claim_steps @ store_steps)) (sink_start []) = Some (w, pcs) \<and>
     pcs 0 = Finished (Stored (js ''r'')) \<and> minted w (js ''c'') = 1 \<and> pending_claims w (js ''c'') = None"
  by (simp add: claim_steps_def store_steps_def sink_start_def step_defs sample_request_def sample_sink_def
      lookup_result_def read_committed_def readCommittedIdempotencyRecord_def pending_verdict_def match_lines_def)

text \<open>
  (C3) At most one credential for each claim. However the calls of any number of server processes interleave,
  whatever fails and wherever a process stops, at most one credential exists at the provider for a claim; while it
  exists and its record is not committed, the claim file is there and keeps every other request out.
\<close>

theorem at_most_one_credential:
  assumes "sink_reachable snk rq (w, pcs)" "claims_name_tools rq"
  shows "minted w c \<le> 1 \<and> (minted w c = 0 \<or> committed w c \<noteq> None \<or> pending_claims w c \<noteq> None)"
proof -
  obtain tool where "sink_inv snk tool rq (w, pcs)" using reachable_inv [OF assms] by blast
  then show ?thesis by (simp add: sink_inv_def claim_inv_def)
qed

theorem at_most_one_credential_witness:
  "\<exists>w pcs. pcs 0 = Finished (Stored (js ''r'')) \<and> minted w (js ''c'') = 1 \<and>
     sink_reachable sample_sink (\<lambda>p. sample_request) (w, pcs) \<and> minted w (js ''other'') \<le> 1"
proof -
  obtain w pcs where s: "sink_run sample_sink (\<lambda>p. sample_request) (map (Pair 0) (claim_steps @ store_steps)) (sink_start []) =
      Some (w, pcs)" "pcs 0 = Finished (Stored (js ''r''))" "minted w (js ''c'') = 1"
    using sample_stored by blast
  note r = sink_run_reachable [OF s(1)]
  from at_most_one_credential [OF r, of "js ''other''"] s r show ?thesis by (auto simp: claims_name_tools_def)
qed

section \<open>A stored secret is replayed\<close>

lemma committed_stable:
  assumes "advance snk r ch w pc = Some (w', pc')" "stage_inv w (claim_of r) (stage pc)" "committed w c = Some v"
  shows "committed w' c = Some v"
proof (cases "c = claim_of r")
  case True
  then show ?thesis using assms
    by (cases pc; cases ch) (auto simp: step_defs split: if_splits)
next
  case False
  with step_frame [OF assms(1)] assms(3) show ?thesis by (simp add: same_claim_files_def)
qed

text \<open>The answer that a request is about to give.\<close>

fun answer_of :: "sink_pc \<Rightarrow> sink_outcome option" where
  "answer_of (ReleaseClaim res) = Some res"
| "answer_of (Finished res) = Some res"
| "answer_of (Unlock l pc) = answer_of pc"
| "answer_of pc = None"

definition stored_inv :: "sink_setup \<Rightarrow> (nat \<Rightarrow> sink_request) \<Rightarrow> sink_state \<Rightarrow> bool" where
  "stored_inv snk rq s \<longleftrightarrow>
     (\<forall>p rid. answer_of (snd s p) = Some (Stored rid) \<longrightarrow>
        (\<exists>ts res. committed (fst s) (claim_of (rq p)) = Some (index_value snk (rq p) ts rid res)))"

lemma stored_invD:
  "stored_inv snk rq (w, pcs) \<Longrightarrow> answer_of (pcs p) = Some (Stored rid) \<Longrightarrow>
     \<exists>ts res. committed w (claim_of (rq p)) = Some (index_value snk (rq p) ts rid res)"
  unfolding stored_inv_def fst_conv snd_conv by blast

lemma lookup_not_stored [simp]:
  "answer_of (lookup_result s x k) = Some (Stored rid) \<longleftrightarrow> x = Inr None \<and> answer_of k = Some (Stored rid)"
  by (auto simp: lookup_result_def Let_def split: sum.splits option.splits if_splits)

lemma step_stored:
  assumes "advance snk r ch w pc = Some (w', pc')" "answer_of pc' = Some (Stored rid)"
  shows "answer_of pc = Some (Stored rid) \<or> (\<exists>ts res. committed w' (claim_of r) = Some (index_value snk r ts rid res))"
proof (cases pc)
  case (MatchLedger s)
  with assms show ?thesis
    by (cases ch; cases s) (auto simp: step_defs)
qed (use assms in \<open>cases ch; auto simp: step_defs split: if_splits option.splits\<close>)+

lemma stored_inv_reachable:
  assumes "(sink_step snk rq)\<^sup>*\<^sup>* s s'" "sink_inv snk tool rq s" "stored_inv snk rq s"
    "\<And>p. rq_tool (rq p) = tool (claim_of (rq p))"
  shows "stored_inv snk rq s'"
  using assms(1-3)
proof (induction rule: rtranclp_induct)
  case (step y z)
  from step.hyps(2) obtain p ch w pcs w' pc' where s: "y = (w, pcs)" "z = (w', pcs(p := pc'))"
      "advance snk (rq p) ch w (pcs p) = Some (w', pc')" by (cases rule: sink_step.cases) auto
  have inv: "sink_inv snk tool rq (w, pcs)"
    using sink_inv_reachable [OF step.hyps(1) step.prems(1) assms(4)] s(1) by simp
  have st: "stage_inv w (claim_of (rq p)) (stage (pcs p))" using inv by (simp add: sink_inv_def)
  have IH: "stored_inv snk rq (w, pcs)" using step.IH [OF step.prems] s(1) by simp
  note stable = committed_stable [OF s(3) st]
  have kept: "\<exists>ts res. committed w' (claim_of (rq q)) = Some (index_value snk (rq q) ts rid res)"
    if "answer_of (pcs q) = Some (Stored rid)" for q rid
    using stored_invD [OF IH that] stable by blast
  show ?case unfolding stored_inv_def s(2) fst_conv snd_conv
  proof (intro allI impI)
    fix q rid assume q: "answer_of ((pcs(p := pc')) q) = Some (Stored rid)"
    show "\<exists>ts res. committed w' (claim_of (rq q)) = Some (index_value snk (rq q) ts rid res)"
    proof (cases "q = p")
      case True
      with q step_stored [OF s(3)] kept show ?thesis by auto
    qed (use q kept in simp)
  qed
qed simp

text \<open>
  (C11) Idempotence. Once a request was answered with a stored record, a request of the same tool with the same two
  fingerprints is answered with that very record, whatever happened since; one with the same claim and another
  fingerprint is refused as a conflict.
\<close>

theorem stored_is_replayed:
  assumes "sink_reachable snk rq (w, pcs)" "claims_name_tools rq" "pcs p = Finished (Stored rid)"
    "rq_tool r = rq_tool (rq p)" "claim_of r = claim_of (rq p)"
  shows "if fingerprint (rq_idem r) = fingerprint (rq_idem (rq p))
    then \<exists>res. read_committed snk r w = Inr (Some \<lparr>ex_path = sink_path snk, ex_recordId = rid, ex_result = res\<rparr>)
    else read_committed snk r w = Inl KeyConflict"
proof -
  obtain tool where t: "\<And>p. rq_tool (rq p) = tool (claim_of (rq p))" using claims_tool [OF assms(2)] by auto
  obtain old where "(sink_step snk rq)\<^sup>*\<^sup>* (sink_start old) (w, pcs)" using assms(1) by (auto simp: sink_reachable_def)
  from stored_inv_reachable [OF this sink_inv_start _ t] have "stored_inv snk rq (w, pcs)"
    by (simp add: stored_inv_def sink_start_def)
  then obtain ts res where c: "committed w (claim_of (rq p)) = Some (index_value snk (rq p) ts rid res)"
    using assms(3) stored_invD [of snk rq w pcs p rid] by auto
  show ?thesis
    unfolding read_committed_def assms(5) c
    by (auto simp: index_value_def index_record_reads_back assms(4,5) simp del: json_clean.simps)
qed

theorem stored_is_replayed_witness:
  "\<exists>w pcs res. sink_reachable sample_sink (\<lambda>p. sample_request) (w, pcs) \<and>
     read_committed sample_sink sample_request w =
       Inr (Some \<lparr>ex_path = js ''/s'', ex_recordId = js ''r'', ex_result = res\<rparr>)"
proof -
  obtain w pcs where s: "sink_run sample_sink (\<lambda>p. sample_request) (map (Pair 0) (claim_steps @ store_steps)) (sink_start []) =
      Some (w, pcs)" "pcs 0 = Finished (Stored (js ''r''))" using sample_stored by blast
  note r = sink_run_reachable [OF s(1)]
  from stored_is_replayed [OF r _ s(2), of sample_request] r show ?thesis
    by (auto simp: claims_name_tools_def sample_sink_def)
qed

section \<open>A record that is rolled back can have been replayed\<close>

text \<open>
  The ledger is read without the append lock. A second process that lost the race for the claim file reads the line
  that the first one has written and not flushed yet.
\<close>

definition losing_steps :: "(nat \<times> sink_choice) list" where
  "losing_steps =
     map (Pair 1) (take 9 claim_steps) @ map (Pair 0) claim_steps @ map (Pair 0) [Mint Null, Proceed] @
     map (Pair 1) [Proceed, Proceed, Proceed, Proceed, Proceed] @
     [(0, Proceed), (0, NewRecord (js ''0'') (js ''r'')), (1, SeeFrom 0)] @
     map (Pair 0) [RolledBack, Proceed, Recovered (Obj [(js ''status'', Str (js ''deleted''))]) True, Proceed]"

text \<open>
  (C40) A race: two processes with one request can end so that one answered its caller with a pointer to the stored
  secret, while the other one rolled that record back and deleted the credential: the ledger holds no such record
  and no credential exists.
\<close>

theorem replay_of_rolled_back_record:
  "\<exists>w pcs ex. sink_reachable sample_sink (\<lambda>p. sample_request) (w, pcs) \<and>
     pcs 1 = Finished (Replayed ex) \<and> ex_recordId ex = js ''r'' \<and>
     pcs 0 = Finished (Threw WriteFailed) \<and> ledger w = [] \<and> committed w (js ''c'') = None \<and> minted w (js ''c'') = 0"
proof -
  have "\<exists>w pcs ex. sink_run sample_sink (\<lambda>p. sample_request) losing_steps (sink_start []) = Some (w, pcs) \<and>
     pcs 1 = Finished (Replayed ex) \<and> ex_recordId ex = js ''r'' \<and>
     pcs 0 = Finished (Threw WriteFailed) \<and> ledger w = [] \<and> committed w (js ''c'') = None \<and> minted w (js ''c'') = 0"
    by (simp add: losing_steps_def claim_steps_def sink_start_def step_defs sample_request_def sample_sink_def
      lookup_result_def read_committed_def readCommittedIdempotencyRecord_def pending_verdict_def match_lines_def
      recoveryClearedProviderSideEffect_def member_of_def ledger_line_def secretLedgerRecord_def parseLedgerLine_def
      record_of_claim_def same_fingerprint_def idempotency_value_def existingRecordFromIndexRecord_def)
  then show ?thesis using sink_run_reachable by blast
qed

end
