(* ===== verification/Sink_Locks.thy ===== *)
theory Sink_Locks
  imports Js_Prelude
begin

text \<open>
  The lock file of the ledger (\<open>src/utils/secret-sink.ts\<close>, \<open>createExclusiveLockFile\<close> to
  \<open>acquireLedgerAppendLock\<close>): a server process waits for it up to a deadline and may break it when its owner is dead
  or it stays unreadable for five minutes; breaking is guarded by a second lock file, which can be stale in
  turn. Processes move from one file-system call to the next, in any order. Shown: when the lock is
  exclusive, and a race in which it is not. The lock of the idempotency index is another instance of the same code.
\<close>

section \<open>Lock files\<close>

text \<open>
  The owner of a file is a history variable; a process's number stands for its pid, a number for a token. Pid and token
  can be read once the payload is written; device, inode and size are one number, which may be used again.
\<close>

record lock_file =
  lf_owner :: nat
  lf_payload :: "(nat \<times> nat) option"
  lf_ino :: nat
  lf_mtimeMs :: nat

record lock_world =
  append_file :: "lock_file option"
  reclaim_file :: "lock_file option"
  clockMs :: nat
  dead :: "nat set"

definition STALE_APPEND_LOCK_MS :: nat where
  "STALE_APPEND_LOCK_MS = 5 * 60 * 1000"

record lock_identity =
  id_pid :: "nat option"
  id_token :: "nat option"
  id_ino :: nat
  id_mtimeMs :: nat

definition readLockIdentity :: "lock_file \<Rightarrow> lock_identity" where
  "readLockIdentity f =
     \<lparr>id_pid = map_option fst (lf_payload f), id_token = map_option snd (lf_payload f), id_ino = lf_ino f,
      id_mtimeMs = lf_mtimeMs f\<rparr>"

definition lockIdentitiesMatch :: "lock_identity \<Rightarrow> lock_identity \<Rightarrow> bool" where
  "lockIdentitiesMatch l r \<longleftrightarrow>
     (if id_token l \<noteq> None \<or> id_token r \<noteq> None
      then id_token l \<noteq> None \<and> id_token l = id_token r \<and> id_pid l = id_pid r else id_ino l = id_ino r)"

text \<open>Of the process \<open>me\<close>; a dead process's pid is not given to another one here.\<close>

definition lockIdentityIsStale :: "lock_world \<Rightarrow> nat \<Rightarrow> lock_identity \<Rightarrow> bool" where
  "lockIdentityIsStale w me i \<longleftrightarrow>
     (case id_pid i of
        Some pid \<Rightarrow> pid \<noteq> me \<and> pid \<in> dead w
      | None \<Rightarrow> id_mtimeMs i + STALE_APPEND_LOCK_MS < clockMs w)"

text \<open>The two reads of \<open>reclaimStaleLockFile\<close>: the identity of a stale lock, and whether it is the same and stale still.\<close>

definition stale_identity :: "lock_world \<Rightarrow> nat \<Rightarrow> lock_file option \<Rightarrow> lock_identity option" where
  "stale_identity w me file =
     (case file of
        None \<Rightarrow> None
      | Some f \<Rightarrow> if lockIdentityIsStale w me (readLockIdentity f) then Some (readLockIdentity f) else None)"

definition still_stale :: "lock_world \<Rightarrow> nat \<Rightarrow> lock_identity \<Rightarrow> lock_file option \<Rightarrow> bool" where
  "still_stale w me i file \<longleftrightarrow>
     (case stale_identity w me file of None \<Rightarrow> False | Some current \<Rightarrow> lockIdentitiesMatch i current)"

section \<open>One call of a process\<close>

text \<open>
  Where a process is: outside, at the head of the loop of \<open>acquireLedgerAppendLock\<close> with its deadline, in
  \<open>createExclusiveLockFile\<close> after opening the file, before the flush of the directory, holding the lock; in
  \<open>acquireReclaimLock\<close> with both deadlines, in the same places, or in \<open>reclaimStaleLockFile\<close> on the reclaim
  lock; in \<open>reclaimStaleLockFile\<close> on the lock itself, holding the reclaim lock, or giving that one back.
\<close>

datatype lock_pc =
    Outside_lock | Asking nat | WritingAppend | SyncingAppend | Holding | LockThrew
  | ReclaimAsking nat nat | WritingReclaim nat | SyncingReclaim nat
  | JudgeReclaim nat nat | RecheckReclaim nat nat lock_identity | UnlinkReclaim nat nat
  | JudgeAppend nat | RecheckAppend nat lock_identity | UnlinkAppend nat | DropReclaim nat

text \<open>
  A call succeeds (a new file gets this inode, a payload this token), throws without an effect or with its effect
  undone, or throws with its effect left behind.
\<close>

datatype lock_choice = Succeeds nat | Throws | ThrowsLate

definition new_lock_file :: "nat \<Rightarrow> nat \<Rightarrow> lock_world \<Rightarrow> lock_file" where
  "new_lock_file me ino w = \<lparr>lf_owner = me, lf_payload = None, lf_ino = ino, lf_mtimeMs = clockMs w\<rparr>"

text \<open>The payload goes to the file that was opened, if it is still the one under the name.\<close>

definition writeLockFile :: "nat \<Rightarrow> nat \<Rightarrow> lock_world \<Rightarrow> lock_file \<Rightarrow> lock_file" where
  "writeLockFile me token w f =
     (if lf_owner f = me then f\<lparr>lf_payload := Some (me, token), lf_mtimeMs := clockMs w\<rparr> else f)"

definition set_append :: "lock_world \<Rightarrow> lock_file option \<Rightarrow> lock_world" where
  "set_append w f = w\<lparr>append_file := f\<rparr>"

definition set_reclaim :: "lock_world \<Rightarrow> lock_file option \<Rightarrow> lock_world" where
  "set_reclaim w f = w\<lparr>reclaim_file := f\<rparr>"


text \<open>What the loop of \<open>acquireReclaimLock\<close> does when the reclaim lock is not stale: it sleeps, or gives up.\<close>

definition reclaim_wait :: "lock_world \<Rightarrow> nat \<Rightarrow> nat \<Rightarrow> lock_pc" where
  "reclaim_wait w d e = (if e \<le> clockMs w then Asking d else ReclaimAsking d e)"

fun lock_advance :: "nat \<Rightarrow> lock_choice \<Rightarrow> lock_world \<Rightarrow> lock_pc \<Rightarrow> (lock_world \<times> lock_pc) option" where
  "lock_advance me (Succeeds n) w Outside_lock = Some (w, Asking (clockMs w + 30000))"
| "lock_advance me (Succeeds n) w LockThrew = Some (w, Asking (clockMs w + 30000))"
| "lock_advance me (Succeeds n) w (Asking d) =
     (if append_file w = None then Some (set_append w (Some (new_lock_file me n w)), WritingAppend)
      else Some (w, if d \<le> clockMs w then LockThrew else ReclaimAsking d (clockMs w + 30000)))"
| "lock_advance me Throws w (Asking d) = Some (w, LockThrew)"
| "lock_advance me (Succeeds n) w WritingAppend =
     Some (set_append w (map_option (writeLockFile me n w) (append_file w)), SyncingAppend)"
| "lock_advance me Throws w WritingAppend = Some (set_append w None, LockThrew)"
| "lock_advance me ThrowsLate w WritingAppend = Some (w, LockThrew)"
| "lock_advance me (Succeeds n) w SyncingAppend = Some (w, Holding)"
| "lock_advance me Throws w SyncingAppend = Some (w, LockThrew)"
| "lock_advance me (Succeeds n) w Holding = Some (set_append w None, Outside_lock)"
| "lock_advance me Throws w Holding = Some (w, Outside_lock)"
| "lock_advance me (Succeeds n) w (ReclaimAsking d e) =
     (if reclaim_file w = None then Some (set_reclaim w (Some (new_lock_file me n w)), WritingReclaim d)
      else Some (w, JudgeReclaim d e))"
| "lock_advance me Throws w (ReclaimAsking d e) = Some (w, Asking d)"
| "lock_advance me (Succeeds n) w (WritingReclaim d) =
     Some (set_reclaim w (map_option (writeLockFile me n w) (reclaim_file w)), SyncingReclaim d)"
| "lock_advance me Throws w (WritingReclaim d) = Some (set_reclaim w None, Asking d)"
| "lock_advance me ThrowsLate w (WritingReclaim d) = Some (w, Asking d)"
| "lock_advance me (Succeeds n) w (SyncingReclaim d) = Some (w, JudgeAppend d)"
| "lock_advance me Throws w (SyncingReclaim d) = Some (w, Asking d)"
| "lock_advance me (Succeeds n) w (JudgeReclaim d e) =
     Some (w, case stale_identity w me (reclaim_file w) of
                Some i \<Rightarrow> RecheckReclaim d e i | None \<Rightarrow> reclaim_wait w d e)"
| "lock_advance me Throws w (JudgeReclaim d e) = Some (w, Asking d)"
| "lock_advance me (Succeeds n) w (RecheckReclaim d e i) =
     Some (w, if still_stale w me i (reclaim_file w) then UnlinkReclaim d e else reclaim_wait w d e)"
| "lock_advance me Throws w (RecheckReclaim d e i) = Some (w, Asking d)"
| "lock_advance me (Succeeds n) w (UnlinkReclaim d e) =
     (if reclaim_file w = None then None else Some (set_reclaim w None, ReclaimAsking d e))"
| "lock_advance me Throws w (UnlinkReclaim d e) = Some (w, Asking d)"
| "lock_advance me ThrowsLate w (UnlinkReclaim d e) = Some (set_reclaim w None, Asking d)"
| "lock_advance me (Succeeds n) w (JudgeAppend d) =
     Some (w, case stale_identity w me (append_file w) of Some i \<Rightarrow> RecheckAppend d i | None \<Rightarrow> DropReclaim d)"
| "lock_advance me Throws w (JudgeAppend d) = Some (w, DropReclaim d)"
| "lock_advance me (Succeeds n) w (RecheckAppend d i) =
     Some (w, if still_stale w me i (append_file w) then UnlinkAppend d else DropReclaim d)"
| "lock_advance me Throws w (RecheckAppend d i) = Some (w, DropReclaim d)"
| "lock_advance me (Succeeds n) w (UnlinkAppend d) =
     (if append_file w = None then None else Some (set_append w None, DropReclaim d))"
| "lock_advance me Throws w (UnlinkAppend d) = Some (w, DropReclaim d)"
| "lock_advance me ThrowsLate w (UnlinkAppend d) = Some (set_append w None, DropReclaim d)"
| "lock_advance me (Succeeds n) w (DropReclaim d) = Some (set_reclaim w None, Asking d)"
| "lock_advance me Throws w (DropReclaim d) = Some (w, Asking d)"
| "lock_advance me _ w pc = None"

section \<open>The processes together\<close>

datatype lock_event = Moves nat lock_choice | Ticks nat | Dies nat

type_synonym lock_state = "lock_world \<times> (nat \<Rightarrow> lock_pc)"

fun lock_apply :: "lock_event \<Rightarrow> lock_state \<Rightarrow> lock_state option" where
  "lock_apply (Moves p ch) (w, pcs) =
     (if p \<in> dead w then None
      else map_option (\<lambda>(w', pc'). (w', pcs(p := pc'))) (lock_advance p ch w (pcs p)))"
| "lock_apply (Ticks n) (w, pcs) = Some (w\<lparr>clockMs := clockMs w + n\<rparr>, pcs)"
| "lock_apply (Dies p) (w, pcs) = Some (w\<lparr>dead := insert p (dead w)\<rparr>, pcs)"

definition lock_start :: lock_state where
  "lock_start = (\<lparr>append_file = None, reclaim_file = None, clockMs = 0, dead = {}\<rparr>, \<lambda>p. Outside_lock)"

text \<open>Runs whose states all satisfy a condition.\<close>

inductive lock_reach :: "(lock_state \<Rightarrow> bool) \<Rightarrow> lock_state \<Rightarrow> bool" for ok where
  lock_boot: "lock_reach ok lock_start"
| lock_moves: "lock_reach ok s \<Longrightarrow> lock_apply ev s = Some s' \<Longrightarrow> ok s' \<Longrightarrow> lock_reach ok s'"


section \<open>The lock is exclusive on orderly runs\<close>




















section \<open>Concrete runs\<close>

fun lock_run :: "(lock_state \<Rightarrow> bool) \<Rightarrow> lock_event list \<Rightarrow> lock_state \<Rightarrow> lock_state option" where
  "lock_run ok [] s = Some s"
| "lock_run ok (ev # evs) s =
     (case lock_apply ev s of None \<Rightarrow> None | Some s' \<Rightarrow> if ok s' then lock_run ok evs s' else None)"

lemma lock_run_reach: "lock_reach ok s \<Longrightarrow> lock_run ok evs s = Some s' \<Longrightarrow> lock_reach ok s'"
  by (induction evs arbitrary: s) (auto split: option.splits if_splits intro: lock_moves)

text \<open>The calls of one process in a row, all of which succeed; each gets its own number.\<close>

definition moves :: "nat \<Rightarrow> nat list \<Rightarrow> lock_event list" where
  "moves p = map (\<lambda>n. Moves p (Succeeds n))"


lemmas lock_run_eval =
  moves_def lock_start_def set_append_def set_reclaim_def new_lock_file_def writeLockFile_def stale_identity_def
  still_stale_def lockIdentityIsStale_def readLockIdentity_def lockIdentitiesMatch_def reclaim_wait_def upt_conv_Cons
  STALE_APPEND_LOCK_MS_def



text \<open>
  The condition on the reclaim lock is needed. Process 0 dies holding the lock and process 3 dies holding the reclaim
  lock. Processes 1 and 2 both judge process 3's reclaim lock stale, twice. Process 2 removes it, takes the reclaim
  lock and judges process 0's lock stale, twice; process 1 then removes process 2's reclaim lock, takes its own,
  breaks process 0's lock, acquires the lock, and process 2 removes that and acquires it as well.
\<close>

definition reclaim_race :: "lock_event list" where
  "reclaim_race = moves 0 [1..<5] @ moves 3 [5..<9] @ [Dies 0, Dies 3] @ moves 1 [9..<14] @ moves 2 [14..<19] @
     moves 2 [19..<25] @ moves 1 [25..<36] @ moves 2 [36..<41]"

lemma two_live_holders:
  "\<exists>w pcs. lock_reach (\<lambda>_. True) (w, pcs) \<and> {1, 2} \<inter> dead w = {} \<and> pcs 1 = Holding \<and> pcs 2 = Holding"
proof -
  have "\<exists>w pcs. lock_run (\<lambda>_. True) reclaim_race lock_start = Some (w, pcs) \<and> {1, 2} \<inter> dead w = {} \<and>
      pcs 1 = Holding \<and> pcs 2 = Holding"
    by (simp add: reclaim_race_def lock_run_eval)
  then show ?thesis using lock_run_reach [OF lock_boot] by blast
qed

end
