(* ===== verification/Usage_Csv.thy ===== *)
theory Usage_Csv
  imports Js_Prelude
begin

text \<open>
  Usage-report text: the CSV reader \<open>parseCsv\<close> and the date reader \<open>normalizeDate\<close> of
  \<open>src/b2/insights.ts\<close>. The reader is the code's loop over the text with its four local variables as
  a record; the object of a row is a map from header names to cells.
\<close>

section \<open>The CSV reader\<close>

text \<open>The local variables \<open>field\<close>, \<open>row\<close>, \<open>rows\<close> and \<open>inQuotes\<close>.\<close>

record csv_state =
  csv_field :: jsstring
  csv_row :: "jsstring list"
  csv_rows :: "jsstring list list"
  in_quotes :: bool

definition csv_start :: csv_state where
  "csv_start = \<lparr> csv_field = [], csv_row = [], csv_rows = [], in_quotes = False \<rparr>"

definition add_unit :: "nat \<Rightarrow> csv_state \<Rightarrow> csv_state" where
  "add_unit c st = st\<lparr> csv_field := csv_field st @ [c] \<rparr>"

definition end_field :: "csv_state \<Rightarrow> csv_state" where
  "end_field st = st\<lparr> csv_row := csv_row st @ [csv_field st], csv_field := [] \<rparr>"

text \<open>A row of one empty field is a blank line.\<close>

definition kept_row :: "jsstring list \<Rightarrow> bool" where
  "kept_row r \<longleftrightarrow> 1 < length r \<or> hd r \<noteq> []"

definition end_row :: "csv_state \<Rightarrow> csv_state" where
  "end_row st =
     (let r = csv_row st @ [csv_field st] in
      st\<lparr> csv_rows := (if kept_row r then csv_rows st @ [r] else csv_rows st),
         csv_row := [], csv_field := [] \<rparr>)"

fun csv_scan :: "csv_state \<Rightarrow> jsstring \<Rightarrow> csv_state" where
  "csv_scan st [] = st"
| "csv_scan st (c # cs) =
     (if in_quotes st then
        (if c = 34 then
           (if cs \<noteq> [] \<and> hd cs = 34 then csv_scan (add_unit 34 st) (tl cs)
            else csv_scan (st\<lparr> in_quotes := False \<rparr>) cs)
         else csv_scan (add_unit c st) cs)
      else if c = 34 then csv_scan (st\<lparr> in_quotes := True \<rparr>) cs
      else if c = 44 then csv_scan (end_field st) cs
      else if c = 10 \<or> c = 13 then
        csv_scan (end_row st) (if c = 13 \<and> cs \<noteq> [] \<and> hd cs = 10 then tl cs else cs)
      else csv_scan (add_unit c st) cs)"

definition csv_finish :: "csv_state \<Rightarrow> jsstring list list" where
  "csv_finish st =
     (if csv_field st \<noteq> [] \<or> csv_row st \<noteq> [] then csv_rows (end_row st) else csv_rows st)"

definition csv_table :: "jsstring \<Rightarrow> jsstring list list" where
  "csv_table s = csv_finish (csv_scan csv_start s)"

text \<open>
  The object of a row. A later column of the same name overwrites an earlier one, and assigning a
  string to \<open>__proto__\<close> leaves the object as it is.
\<close>

type_synonym csv_map = "jsstring \<Rightarrow> jsstring option"

definition csv_object :: "jsstring list \<Rightarrow> jsstring list \<Rightarrow> csv_map" where
  "csv_object header r =
     foldl (\<lambda>obj (idx, h). if h = js ''__proto__'' then obj
              else obj(h \<mapsto> (if idx < length r then r ! idx else []))) Map.empty
       (enumerate 0 header)"

definition parseCsv :: "jsstring \<Rightarrow> csv_map list" where
  "parseCsv s = (case csv_table s of [] \<Rightarrow> []
     | h # rs \<Rightarrow> map (csv_object (map js_trim h)) rs)"

section \<open>A printer for the format\<close>

text \<open>
  The writer's side of RFC 4180: a cell is written as it is, or between quotes with its quotes
  doubled; the choice \<open>q\<close> is free where the cell has no special unit. \<open>eol\<close> is the line end.
\<close>

definition plain_cell :: "jsstring \<Rightarrow> bool" where
  "plain_cell f \<longleftrightarrow> (\<forall>c \<in> set f. c \<noteq> 34 \<and> c \<noteq> 44 \<and> c \<noteq> 10 \<and> c \<noteq> 13)"

fun double_quotes :: "jsstring \<Rightarrow> jsstring" where
  "double_quotes [] = []"
| "double_quotes (c # cs) = (if c = 34 then [34, 34] else [c]) @ double_quotes cs"

definition print_cell :: "(jsstring \<Rightarrow> bool) \<Rightarrow> jsstring \<Rightarrow> jsstring" where
  "print_cell q f = (if q f then 34 # double_quotes f @ [34] else f)"

definition print_row :: "(jsstring \<Rightarrow> bool) \<Rightarrow> jsstring list \<Rightarrow> jsstring" where
  "print_row q r = js_join [44] (map (print_cell q) r)"

definition print_table :: "(jsstring \<Rightarrow> bool) \<Rightarrow> jsstring \<Rightarrow> jsstring list list \<Rightarrow> jsstring" where
  "print_table q eol rows = concat (map (\<lambda>r. print_row q r @ eol) rows)"

definition line_end :: "jsstring \<Rightarrow> bool" where
  "line_end eol \<longleftrightarrow> eol = [10] \<or> eol = [13] \<or> eol = [13, 10]"

definition printable_row :: "(jsstring \<Rightarrow> bool) \<Rightarrow> jsstring list \<Rightarrow> bool" where
  "printable_row q r \<longleftrightarrow> r \<noteq> [] \<and> kept_row r \<and> (\<forall>f \<in> set r. q f \<or> plain_cell f)"

section \<open>Reading what was printed\<close>

lemmas csv_defs = add_unit_def end_field_def end_row_def

lemma scan_plain:
  "\<not> in_quotes st \<Longrightarrow> plain_cell f \<Longrightarrow>
     csv_scan st (f @ rest) = csv_scan (st\<lparr> csv_field := csv_field st @ f \<rparr>) rest"
  by (induction f arbitrary: st) (simp_all add: plain_cell_def add_unit_def)

lemma scan_quoted:
  "in_quotes st \<Longrightarrow> rest = [] \<or> hd rest \<noteq> 34 \<Longrightarrow>
     csv_scan st (double_quotes f @ 34 # rest) =
     csv_scan (st\<lparr> csv_field := csv_field st @ f, in_quotes := False \<rparr>) rest"
  by (induction f arbitrary: st) (auto simp: add_unit_def)

lemma scan_cell:
  assumes "\<not> in_quotes st" "csv_field st = []" "q f \<or> plain_cell f" "rest = [] \<or> hd rest \<noteq> 34"
  shows "csv_scan st (print_cell q f @ rest) = csv_scan (st\<lparr> csv_field := f \<rparr>) rest"
proof (cases "q f")
  case True
  have "csv_scan st (print_cell q f @ rest)
      = csv_scan (st\<lparr> in_quotes := True \<rparr>) (double_quotes f @ 34 # rest)"
    using assms(1) True by (simp add: print_cell_def)
  also have "\<dots> = csv_scan (st\<lparr> csv_field := f, in_quotes := False \<rparr>) rest"
    using assms(2,4) by (subst scan_quoted) (simp_all)
  also have "st\<lparr> csv_field := f, in_quotes := False \<rparr> = st\<lparr> csv_field := f \<rparr>"
    using assms(1) by (cases st) simp
  finally show ?thesis .
next
  case False
  with assms show ?thesis by (simp add: print_cell_def scan_plain)
qed

lemma print_row_Cons:
  "r \<noteq> [] \<Longrightarrow> print_row q (f # r) = print_cell q f @ 44 # print_row q r"
  by (simp add: print_row_def js_join_Cons)

lemma scan_row:
  assumes "r \<noteq> []" "\<forall>f \<in> set r. q f \<or> plain_cell f" "rest = [] \<or> hd rest \<noteq> 34"
    and "\<not> in_quotes st" "csv_field st = []"
  shows "csv_scan st (print_row q r @ rest) =
         csv_scan (st\<lparr> csv_row := csv_row st @ butlast r, csv_field := last r \<rparr>) rest"
  using assms
proof (induction r arbitrary: st)
  case (Cons f r)
  show ?case
  proof (cases "r = []")
    case True
    with Cons.prems show ?thesis by (simp add: print_row_def scan_cell)
  next
    case False
    let ?st = "st\<lparr> csv_row := csv_row st @ [f], csv_field := [] \<rparr>"
    have "csv_scan st (print_row q (f # r) @ rest)
        = csv_scan (st\<lparr> csv_field := f \<rparr>) (44 # print_row q r @ rest)"
      using Cons.prems False by (simp add: print_row_Cons scan_cell)
    also have "\<dots> = csv_scan ?st (print_row q r @ rest)"
      using Cons.prems by (simp add: end_field_def)
    also have "\<dots> = csv_scan (?st\<lparr> csv_row := csv_row ?st @ butlast r, csv_field := last r \<rparr>) rest"
      using Cons.prems False by (intro Cons.IH) simp_all
    finally show ?thesis using False by simp
  qed
qed simp

lemma scan_eol:
  assumes "line_end eol" "\<not> in_quotes st" "rest = [] \<or> hd rest \<noteq> 10"
  shows "csv_scan st (eol @ rest) = csv_scan (end_row st) rest"
  using assms by (auto simp: line_end_def)

lemma hd_print_row:
  assumes "printable_row q r" shows "print_row q r \<noteq> []" "hd (print_row q r @ rest) \<noteq> 10"
proof -
  obtain f r' where r: "r = f # r'" using assms by (cases r) (auto simp: printable_row_def)
  have f: "q f \<or> plain_cell f" "r' = [] \<Longrightarrow> f \<noteq> []"
    using assms r by (auto simp: printable_row_def kept_row_def)
  have cell: "print_cell q f @ xs \<noteq> [] \<and> hd (print_cell q f @ xs) \<noteq> 10"
    if "f \<noteq> [] \<or> xs \<noteq> [] \<and> hd xs \<noteq> 10" for xs
    using f(1) that by (cases f) (auto simp: print_cell_def plain_cell_def)
  show "print_row q r \<noteq> []"
    using cell [of "[]"] f(2) r by (cases "r' = []") (auto simp: print_row_Cons, simp add: print_row_def)
  show "hd (print_row q r @ rest) \<noteq> 10"
  proof (cases "r' = []")
    case True
    with cell [of rest] f(2) r show ?thesis by (simp add: print_row_def)
  next
    case False
    with cell [of "44 # print_row q r' @ rest"] r show ?thesis by (simp add: print_row_Cons)
  qed
qed

lemma scan_printed_row:
  assumes "printable_row q r" "line_end eol" "rest = [] \<or> hd rest \<noteq> 10"
    and "\<not> in_quotes st" "csv_field st = []" "csv_row st = []"
  shows "csv_scan st (print_row q r @ eol @ rest) = csv_scan (st\<lparr> csv_rows := csv_rows st @ [r] \<rparr>) rest"
proof -
  have r: "r \<noteq> []" "kept_row r" "\<forall>f \<in> set r. q f \<or> plain_cell f"
    using assms(1) by (auto simp: printable_row_def)
  let ?st = "st\<lparr> csv_row := csv_row st @ butlast r, csv_field := last r \<rparr>"
  have "csv_scan st (print_row q r @ eol @ rest) = csv_scan ?st (eol @ rest)"
    using r assms by (intro scan_row) (auto simp: line_end_def)
  also have "\<dots> = csv_scan (end_row ?st) rest"
    using assms by (intro scan_eol) simp_all
  also have "end_row ?st = st\<lparr> csv_rows := csv_rows st @ [r] \<rparr>"
    using assms(4-6) r(1,2) by (cases st) (simp add: end_row_def)
  finally show ?thesis .
qed

lemma scan_printed_table:
  assumes "\<forall>r \<in> set rows. printable_row q r" "line_end eol" "rest = [] \<or> hd rest \<noteq> 10"
    and "\<not> in_quotes st" "csv_field st = []" "csv_row st = []"
  shows "csv_scan st (print_table q eol rows @ rest) = csv_scan (st\<lparr> csv_rows := csv_rows st @ rows \<rparr>) rest"
  using assms
proof (induction rows arbitrary: st)
  case (Cons r rows)
  have "print_table q eol rows @ rest = [] \<or> hd (print_table q eol rows @ rest) \<noteq> 10"
    using Cons.prems hd_print_row by (cases rows) (auto simp: print_table_def)
  then have "csv_scan st (print_table q eol (r # rows) @ rest)
      = csv_scan (st\<lparr> csv_rows := csv_rows st @ [r] \<rparr>) (print_table q eol rows @ rest)"
    using Cons.prems by (simp add: print_table_def scan_printed_row)
  also have "\<dots> = csv_scan (st\<lparr> csv_rows := (csv_rows st @ [r]) @ rows \<rparr>) rest"
    using Cons.prems by (subst Cons.IH) simp_all
  finally show ?case by simp
qed (simp add: print_table_def)

lemma csv_table_printed:
  assumes "\<forall>r \<in> set rows. printable_row q r" "line_end eol"
  shows "csv_table (print_table q eol rows) = rows"
  using scan_printed_table [OF assms, of "[]" csv_start]
  by (simp add: csv_table_def csv_start_def csv_finish_def)

text \<open>The last line may end without a line end.\<close>

lemma csv_table_unterminated:
  assumes "\<forall>r \<in> set (rows @ [r]). printable_row q r" "line_end eol"
  shows "csv_table (print_table q eol rows @ print_row q r) = rows @ [r]"
proof -
  have r: "r \<noteq> []" "kept_row r" "\<forall>f \<in> set r. q f \<or> plain_cell f"
    using assms(1) by (auto simp: printable_row_def)
  have "hd (print_row q r) \<noteq> 10" using assms(1) hd_print_row(2) [of q r "[]"] by simp
  then have "csv_scan csv_start (print_table q eol rows @ print_row q r)
      = csv_scan (csv_start\<lparr> csv_rows := rows \<rparr>) (print_row q r)"
    using assms by (subst scan_printed_table) (simp_all add: csv_start_def)
  also have "\<dots> = csv_start\<lparr> csv_rows := rows, csv_row := butlast r, csv_field := last r \<rparr>"
    using scan_row [OF r(1,3), of "[]" "csv_start\<lparr> csv_rows := rows \<rparr>"] by (simp add: csv_start_def)
  finally show ?thesis
    using r(1,2) by (cases r rule: rev_cases)
      (auto simp: csv_table_def csv_finish_def csv_start_def end_row_def kept_row_def)
qed

text \<open>The object of a row as a map.\<close>

lemma csv_object_zip:
  assumes "length r = length header" "distinct header" "js ''__proto__'' \<notin> set header"
  shows "csv_object header r = map_of (zip header r)"
proof -
  have "foldl (\<lambda>obj (idx, h). if h = js ''__proto__'' then obj
          else obj(h \<mapsto> (if idx < length r then r ! idx else []))) m (enumerate n h)
      = m ++ map_of (zip h (drop n r))"
    if "n + length h = length r" "distinct h" "js ''__proto__'' \<notin> set h" for n h m
    using that
  proof (induction h arbitrary: n m)
    case (Cons a h)
    have "drop n r = r ! n # drop (Suc n) r" using Cons.prems by (simp add: Cons_nth_drop_Suc)
    then have z: "map_of (zip (a # h) (drop n r)) = (map_of (zip h (drop (Suc n) r)))(a \<mapsto> r ! n)" by simp
    have u: "m(a \<mapsto> r ! n) ++ map_of (zip h (drop (Suc n) r)) = (m ++ map_of (zip h (drop (Suc n) r)))(a \<mapsto> r ! n)"
      using Cons.prems by (intro map_add_upd_left) (auto simp: dom_map_of_zip)
    have "n < length r" "a \<noteq> js ''__proto__''" using Cons.prems by auto
    then have "foldl (\<lambda>obj (idx, h). if h = js ''__proto__'' then obj
        else obj(h \<mapsto> (if idx < length r then r ! idx else []))) m (enumerate n (a # h))
      = m(a \<mapsto> r ! n) ++ map_of (zip h (drop (Suc n) r))"
      using Cons.IH [of "Suc n"] Cons.prems by simp
    then show ?case unfolding z u map_add_upd .
  qed simp
  from this [of 0 header Map.empty] assms show ?thesis by (simp add: csv_object_def)
qed

text \<open>
  A usage report that is written as RFC 4180 prescribes, with any of the three line ends and
  with quotes round at least the cells that need them, is read back by \<open>parseCsv\<close> row by row:
  every row becomes the object that maps each header name to its cell. The last line may lack its
  line end.
\<close>

theorem csv_roundtrip:
  assumes "line_end eol" "\<forall>r \<in> set (header # rows). printable_row q r"
    and "distinct header" "js ''__proto__'' \<notin> set header" "\<forall>h \<in> set header. js_trim h = h"
    and "\<forall>r \<in> set rows. length r = length header"
  shows "parseCsv (print_table q eol (header # rows)) = map (\<lambda>r. map_of (zip header r)) rows
    \<and> (rows \<noteq> [] \<longrightarrow> parseCsv (print_table q eol (header # butlast rows) @ print_row q (last rows))
           = map (\<lambda>r. map_of (zip header r)) rows)"
proof (intro conjI impI)
  have h: "map js_trim header = header" using assms(5) by (simp add: map_idI)
  have o: "map (csv_object header) rows = map (\<lambda>r. map_of (zip header r)) rows"
    using assms(3,4,6) by (simp add: csv_object_zip)
  show "parseCsv (print_table q eol (header # rows)) = map (\<lambda>r. map_of (zip header r)) rows"
    using csv_table_printed [OF assms(2,1)] h o by (simp add: parseCsv_def)
  assume r: "rows \<noteq> []"
  then have "csv_table (print_table q eol (header # butlast rows) @ print_row q (last rows))
      = (header # butlast rows) @ [last rows]"
    using assms(1,2) by (intro csv_table_unterminated) (auto dest: in_set_butlastD)
  with r h o show "parseCsv (print_table q eol (header # butlast rows) @ print_row q (last rows))
      = map (\<lambda>r. map_of (zip header r)) rows"
    by (simp add: parseCsv_def)
qed

theorem csv_roundtrip_witness:
  "parseCsv (print_table (\<lambda>f. \<not> plain_cell f) [13, 10]
     [[js ''id'', js ''name''], [js ''1'', [97, 34, 44, 10]], [[], js ''b'']])
   = map (\<lambda>r. map_of (zip [js ''id'', js ''name''] r)) [[js ''1'', [97, 34, 44, 10]], [[], js ''b'']]"
proof -
  have "js_trim (js ''id'') = js ''id''" "js_trim (js ''name'') = js ''name''"
    by (simp_all add: js_trim_def js_simps js_space_def)
  then show ?thesis
    using csv_roundtrip [of "[13, 10]" "[js ''id'', js ''name'']"
        "[[js ''1'', [97, 34, 44, 10]], [[], js ''b'']]" "\<lambda>f. \<not> plain_cell f"]
    by (auto simp: line_end_def printable_row_def kept_row_def)
qed

section \<open>Dates\<close>

text \<open>A regular expression of single units: \<open>d\<close> stands for a digit, another unit for itself.\<close>

definition shaped :: "jsstring \<Rightarrow> jsstring \<Rightarrow> bool" where
  "shaped pat s \<longleftrightarrow> list_all2 (\<lambda>p c. if p = 100 then is_digit c else c = p) pat s"

definition iso_date :: "jsstring \<Rightarrow> bool" where
  "iso_date s \<longleftrightarrow> shaped (js ''dddd-dd-dd'') s"

text \<open>
  \<open>^(\d{1,2})\/(\d{1,2})\/(\d{2,4})$\<close>: the three groups, or \<open>None\<close>. A slash is not a digit, so that
  the runs of digits are the groups.
\<close>

definition slash_group :: "jsstring \<Rightarrow> (jsstring \<times> jsstring) option" where
  "slash_group s =
     (let g = takeWhile is_digit s; r = dropWhile is_digit s in
      if length g \<in> {1, 2} \<and> r \<noteq> [] \<and> hd r = 47 then Some (g, tl r) else None)"

definition slash_date :: "jsstring \<Rightarrow> (jsstring \<times> jsstring \<times> jsstring) option" where
  "slash_date s =
     (case slash_group s of None \<Rightarrow> None
      | Some (mo, r) \<Rightarrow> (case slash_group r of None \<Rightarrow> None
         | Some (d, y) \<Rightarrow> (if length y \<in> {2, 3, 4} \<and> (\<forall>c \<in> set y. is_digit c)
             then Some (mo, d, y) else None)))"

definition pad2 :: "jsstring \<Rightarrow> jsstring" where
  "pad2 s = replicate (2 - length s) 48 @ s"

definition normalizeDate :: "jsstring option \<Rightarrow> jsstring option" where
  "normalizeDate raw =
     (let s = js_trim (case raw of None \<Rightarrow> [] | Some r \<Rightarrow> r) in
      if iso_date s then Some s
      else case slash_date s of
        Some (mo, d, y) \<Rightarrow>
          Some ((if length y = 2 then js ''20'' @ y else y) @ js ''-'' @ pad2 mo @ js ''-'' @ pad2 d)
      | None \<Rightarrow> None)"

lemma slash_group_Some:
  "slash_group s = Some (g, r) \<longleftrightarrow> s = g @ 47 # r \<and> length g \<in> {1, 2} \<and> (\<forall>c \<in> set g. is_digit c)"
  (is "?l \<longleftrightarrow> ?r")
proof
  assume l: ?l
  then have g: "g = takeWhile is_digit s" "length g \<in> {1, 2}"
    and r: "dropWhile is_digit s \<noteq> []" "hd (dropWhile is_digit s) = 47" "r = tl (dropWhile is_digit s)"
    by (auto simp: slash_group_def Let_def split: if_splits)
  then have "dropWhile is_digit s = 47 # r" by (metis list.collapse)
  then have "s = g @ 47 # r" using g(1) takeWhile_dropWhile_id [of is_digit s] by simp
  moreover have "\<forall>c \<in> set g. is_digit c" unfolding g(1) by (auto dest: set_takeWhileD)
  ultimately show ?r using g(2) by blast
next
  have "\<not> is_digit 47" by (simp add: is_digit_def)
  then show "?r \<Longrightarrow> ?l" by (simp add: slash_group_def Let_def takeWhile_append dropWhile_append)
qed

lemma slash_date_Some:
  "slash_date s = Some (mo, d, y) \<longleftrightarrow>
     s = mo @ 47 # d @ 47 # y \<and> length mo \<in> {1, 2} \<and> length d \<in> {1, 2} \<and> length y \<in> {2, 3, 4}
     \<and> (\<forall>c \<in> set (mo @ d @ y). is_digit c)"
proof -
  have "slash_date s = Some (mo, d, y) \<longleftrightarrow> (\<exists>r. slash_group s = Some (mo, r)
      \<and> slash_group r = Some (d, y) \<and> length y \<in> {2, 3, 4} \<and> (\<forall>c \<in> set y. is_digit c))"
    by (auto simp: slash_date_def split: option.splits if_splits)
  then show ?thesis unfolding slash_group_Some by auto
qed

lemma iso_dateE:
  assumes "iso_date s"
  obtains a b c d e f g h where "s = [a, b, c, d, 45, e, f, 45, g, h]"
    "\<forall>x \<in> set [a, b, c, d, e, f, g, h]. is_digit x"
proof -
  have "length s = 10"
    using assms list_all2_lengthD by (fastforce simp: iso_date_def shaped_def)
  then obtain a b c d x e f y g h where s: "s = [a, b, c, d, x, e, f, y, g, h]"
    by (auto simp: numeral_eq_Suc length_Suc_conv)
  then have "x = 45" "y = 45" "\<forall>z \<in> set [a, b, c, d, e, f, g, h]. is_digit z"
    using assms by (simp_all add: iso_date_def shaped_def js_simps)
  with s that show thesis by simp
qed

lemma iso_date_iff:
  "iso_date s \<longleftrightarrow> (\<exists>y m d. s = y @ js ''-'' @ m @ js ''-'' @ d \<and> length y = 4 \<and> length m = 2
     \<and> length d = 2 \<and> (\<forall>c \<in> set (y @ m @ d). is_digit c))"
  (is "_ \<longleftrightarrow> ?r")
proof
  assume "iso_date s"
  then obtain a b c d e f g h where "s = [a, b, c, d, 45, e, f, 45, g, h]"
    "\<forall>x \<in> set [a, b, c, d, e, f, g, h]. is_digit x"
    by (rule iso_dateE)
  then show ?r
    by (intro exI [of _ "[a, b, c, d]"] exI [of _ "[e, f]"] exI [of _ "[g, h]"]) (simp add: js_simps)
next
  assume ?r
  then obtain y m d where s: "s = y @ js ''-'' @ m @ js ''-'' @ d" "length y = 4" "length m = 2" "length d = 2"
    "\<forall>c \<in> set (y @ m @ d). is_digit c"
    by blast
  obtain a b c e where y: "y = [a, b, c, e]" using s(2) by (auto simp: numeral_eq_Suc length_Suc_conv)
  obtain f g where m: "m = [f, g]" using s(3) by (auto simp: numeral_eq_Suc length_Suc_conv)
  obtain h i where d: "d = [h, i]" using s(4) by (auto simp: numeral_eq_Suc length_Suc_conv)
  from s(5) show "iso_date s" unfolding s(1) y m d
    by (simp add: iso_date_def shaped_def js_simps)
qed

lemma pad2_digits:
  assumes "length s \<in> {1, 2}" "\<forall>c \<in> set s. is_digit c"
  shows "length (pad2 s) = 2" "\<forall>c \<in> set (pad2 s). is_digit c"
  using assms by (auto simp: pad2_def is_digit_def)

lemma js_trim_digits: "\<forall>c \<in> set s. is_digit c \<or> c = 45 \<Longrightarrow> js_trim s = s"
proof -
  assume "\<forall>c \<in> set s. is_digit c \<or> c = 45"
  then have s: "\<forall>c \<in> set s. \<not> js_space c" by (auto simp: char_class_defs)
  then have "dropWhile js_space s = s" "dropWhile js_space (rev s) = rev s"
    by (auto simp: dropWhile_eq_self_iff hd_rev last_in_set)
  then show ?thesis by (simp add: js_trim_def)
qed

text \<open>
  The shape of a date: what \<open>normalizeDate\<close> returns, on every branch. A year of two digits is
  put into the twenty-first century, one of four digits is kept; a year of three digits is kept too.
\<close>

definition date_parts :: "jsstring \<Rightarrow> jsstring \<Rightarrow> jsstring \<Rightarrow> jsstring \<Rightarrow> bool" where
  "date_parts s y m d \<longleftrightarrow> s = y @ js ''-'' @ m @ js ''-'' @ d \<and> length m = 2 \<and> length d = 2
     \<and> (\<forall>c \<in> set (y @ m @ d). is_digit c)"

lemma normalizeDate_parts:
  assumes "normalizeDate raw = Some s"
  shows "\<exists>y m d. date_parts s y m d \<and> length y \<in> {3, 4} \<and>
     (length y = 3 \<longrightarrow> (\<exists>mo d. slash_date (js_trim (the raw)) = Some (mo, d, y)))"
proof (cases "iso_date s")
  case True
  then obtain y m d where "date_parts s y m d" "length y = 4"
    by (auto simp: iso_date_iff date_parts_def)
  then show ?thesis by (intro exI [of _ y] exI [of _ m] exI [of _ d]) simp
next
  case False
  define r where "r = js_trim (case raw of None \<Rightarrow> [] | Some r \<Rightarrow> r)"
  obtain mo d y where sd: "slash_date r = Some (mo, d, y)"
    and s: "s = (if length y = 2 then js ''20'' @ y else y) @ js ''-'' @ pad2 mo @ js ''-'' @ pad2 d"
    using assms False by (auto simp: normalizeDate_def Let_def r_def split: if_splits option.splits)
  note g = sd [unfolded slash_date_Some]
  have raw: "r = js_trim (the raw)" using g by (cases raw) (auto simp: r_def js_trim_def)
  have "length (pad2 mo) = 2" "\<forall>c \<in> set (pad2 mo). is_digit c"
    "length (pad2 d) = 2" "\<forall>c \<in> set (pad2 d). is_digit c"
    using g pad2_digits [of mo] pad2_digits [of d] by auto
  then have "date_parts s (if length y = 2 then js ''20'' @ y else y) (pad2 mo) (pad2 d)"
    using g by (auto simp: date_parts_def s js_simps is_digit_def)
  then show ?thesis
    using g sd raw
    by (intro exI [of _ "if length y = 2 then js ''20'' @ y else y"] exI [of _ "pad2 mo"] exI [of _ "pad2 d"]) auto
qed

lemma iso_date_parts: "date_parts s y m d \<Longrightarrow> iso_date s \<longleftrightarrow> length y = 4"
proof
  assume p: "date_parts s y m d" and "iso_date s"
  from this(2) have "length s = 10" by (rule iso_dateE) simp
  with p show "length y = 4" by (simp add: date_parts_def)
qed (auto simp: iso_date_iff date_parts_def)

lemma normalizeDate_iso: "iso_date s \<Longrightarrow> normalizeDate (Some s) = Some s"
proof -
  assume s: "iso_date s"
  then have "\<forall>c \<in> set s. is_digit c \<or> c = 45" by (rule iso_dateE) auto
  with s show ?thesis by (simp add: normalizeDate_def js_trim_digits)
qed

lemma normalizeDate_None:
  "normalizeDate raw = None \<longleftrightarrow>
     (let s = js_trim (case raw of None \<Rightarrow> [] | Some r \<Rightarrow> r) in \<not> iso_date s \<and> slash_date s = None)"
  by (auto simp: normalizeDate_def Let_def split: option.splits)

end
