(* ===== verification/Usage_Rows.thy ===== *)
theory Usage_Rows
  imports Usage_Csv Js_Number
begin

text \<open>
  Usage-report rows and their aggregation, from \<open>src/b2/insights.ts\<close>: the row that \<open>mapRow\<close> makes of
  a CSV object, the choice of the report files (\<open>selectUsageKeys\<close>), and the three aggregations
  \<open>computeAccountGrowth\<close>, \<open>computeEgressLeaders\<close> and \<open>computeSnapshotGrowth\<close> over insertion-ordered
  maps. Byte counts are exact rationals: the rounding of a double and its overflow to infinity are
  not modelled.
\<close>

section \<open>Numbers of a cell\<close>

text \<open>\<open>parseFloat\<close>: the longest prefix that is a decimal literal.\<close>

definition exponent_prefix :: "jsstring \<Rightarrow> int" where
  "exponent_prefix r = (case r of [] \<Rightarrow> 0
     | c # t \<Rightarrow> (if c = 101 \<or> c = 69
         then (let (neg, ds) = signed t; d = takeWhile is_digit ds in
               if d = [] then 0 else if neg then - int (undecimal d) else int (undecimal d))
         else 0))"

definition unsigned_prefix :: "jsstring \<Rightarrow> rat option" where
  "unsigned_prefix s =
     (let ip = takeWhile is_digit s; r = dropWhile is_digit s;
          (fp, r') = (case r of c # t \<Rightarrow>
              (if c = 46 then (takeWhile is_digit t, dropWhile is_digit t) else ([], r))
            | [] \<Rightarrow> ([], r)) in
      if ip = [] \<and> fp = [] then None
      else Some (of_nat (undecimal (ip @ fp)) * pow10 (exponent_prefix r' - int (length fp))))"

definition parse_float :: "jsstring \<Rightarrow> real_or_nan" where
  "parse_float raw =
     (let (neg, t) = signed (dropWhile js_space raw) in
      if prefix (js ''Infinity'') t then Infinite neg
      else case unsigned_prefix t of None \<Rightarrow> NotANumber
           | Some q \<Rightarrow> Finite (if neg then - q else q))"

definition report_num :: "jsstring option \<Rightarrow> rat" where
  "report_num raw =
     (case parse_float (case raw of None \<Rightarrow> [] | Some r \<Rightarrow> r) of Finite q \<Rightarrow> q | _ \<Rightarrow> 0)"

definition GB :: rat where
  "GB = 1000000000"

section \<open>Rows\<close>

record report_row =
  row_account :: jsstring
  row_date :: jsstring
  row_bucket_id :: "jsstring option"
  row_bucket_name :: "jsstring option"
  row_storage :: "rat option"
  row_egress :: rat
  row_upload :: rat
  row_class_c :: rat

definition mapRow :: "csv_map \<Rightarrow> report_row option" where
  "mapRow raw =
     (case (nonempty (map_option js_trim (raw (js ''account_id''))),
            normalizeDate (raw (js ''date''))) of
        (Some account, Some day) \<Rightarrow>
          Some \<lparr> row_account = account, row_date = day,
             row_bucket_id = nonempty (map_option js_trim (raw (js ''bucket_id''))),
             row_bucket_name = nonempty (map_option js_trim (raw (js ''bucket_name''))),
             row_storage = map_option (\<lambda>s. report_num (Some s) * GB)
               (nonempty (map_option js_trim (raw (js ''stored_gb'')))),
             row_egress = report_num (raw (js ''downloaded_gb'')) * GB,
             row_upload = report_num (raw (js ''uploaded_gb'')) * GB,
             row_class_c = report_num (raw (js ''api_txn_class_c'')) \<rparr>
      | _ \<Rightarrow> None)"

section \<open>Tallies\<close>

text \<open>\<open>m.set(k, (m.get(k) ?? 0) + v)\<close> on an insertion-ordered map.\<close>

definition tally_add :: "'k \<Rightarrow> rat \<Rightarrow> ('k, rat) jsmap \<Rightarrow> ('k, rat) jsmap" where
  "tally_add k v m = map_set k ((case map_get m k of None \<Rightarrow> 0 | Some x \<Rightarrow> x) + v) m"

definition tally :: "('k \<times> rat) list \<Rightarrow> ('k, rat) jsmap" where
  "tally ps = foldl (\<lambda>m (k, v). tally_add k v m) [] ps"

section \<open>The three aggregations\<close>

text \<open>\<open>xs.sort((a, b) => g(b) - g(a))\<close>, which is stable.\<close>

definition sort_descending :: "('a \<Rightarrow> rat) \<Rightarrow> 'a list \<Rightarrow> 'a list" where
  "sort_descending g xs = sort_key (\<lambda>x. - g x) xs"

subsection \<open>Egress leaders\<close>

datatype rank_by = ByAccount | ByBucket

record egress_leader =
  leader_key :: jsstring
  leader_account :: jsstring
  leader_bucket :: "jsstring option"
  leader_egress :: rat

definition egress_group :: "rank_by \<Rightarrow> report_row \<Rightarrow> jsstring option" where
  "egress_group how r =
     (case how of ByAccount \<Rightarrow> nonempty (Some (row_account r))
      | ByBucket \<Rightarrow> (case nonempty (row_bucket_id r) of Some b \<Rightarrow> Some b
                    | None \<Rightarrow> nonempty (row_bucket_name r)))"

definition add_egress :: "rank_by \<Rightarrow> (jsstring, egress_leader) jsmap \<Rightarrow> report_row
    \<Rightarrow> (jsstring, egress_leader) jsmap" where
  "add_egress how g r =
     (case egress_group how r of None \<Rightarrow> g
      | Some k \<Rightarrow>
          (let l = (case map_get g k of Some l \<Rightarrow> l
               | None \<Rightarrow> \<lparr> leader_key = k, leader_account = row_account r,
                   leader_bucket = row_bucket_name r, leader_egress = 0 \<rparr>) in
           map_set k (l\<lparr> leader_egress := leader_egress l + row_egress r \<rparr>) g))"

definition computeEgressLeaders :: "report_row list \<Rightarrow> rank_by \<Rightarrow> egress_leader list" where
  "computeEgressLeaders rows how =
     sort_descending leader_egress (map snd (foldl (add_egress how) [] rows))"

subsection \<open>Growth over all rows\<close>

record account_growth =
  ag_account :: jsstring
  ag_first :: rat
  ag_last :: rat
  ag_growth :: rat
  ag_pct :: "rat option"
  ag_egress :: rat

type_synonym growth_state = "(jsstring, (jsstring, rat) jsmap) jsmap \<times> (jsstring, rat) jsmap"

definition add_growth :: "growth_state \<Rightarrow> report_row \<Rightarrow> growth_state" where
  "add_growth st r =
     (let (daily, tot) = st; a = row_account r; d = row_date r in
      if a = [] \<or> d = [] then st
      else
        let days = (case map_get daily a of None \<Rightarrow> [] | Some m \<Rightarrow> m);
            days' = (case row_storage r of None \<Rightarrow> days | Some v \<Rightarrow> tally_add d v days) in
        (map_set a days' daily, tally_add a (row_egress r) tot))"

definition growth_entry :: "(jsstring, rat) jsmap \<Rightarrow> jsstring \<times> (jsstring, rat) jsmap \<Rightarrow> account_growth option" where
  "growth_entry tot e =
     (let (a, m) = e; ds = sort (map fst m) in
      if ds = [] then None
      else
        let f = the (map_get m (hd ds)); l = the (map_get m (last ds)) in
        Some \<lparr> ag_account = a, ag_first = f, ag_last = l, ag_growth = l - f,
          ag_pct = (if 0 < f then Some ((l - f) / f * 100) else None),
          ag_egress = the (map_get tot a) \<rparr>)"

definition computeAccountGrowth :: "report_row list \<Rightarrow> account_growth list" where
  "computeAccountGrowth rows =
     (let (daily, tot) = foldl add_growth ([], []) rows in
      sort_descending ag_growth (List.map_filter (growth_entry tot) daily))"

subsection \<open>Growth between two snapshots\<close>

definition storedByAccount :: "report_row list \<Rightarrow> (jsstring, rat) jsmap" where
  "storedByAccount rows =
     foldl (\<lambda>m r. case row_storage r of None \<Rightarrow> m | Some v \<Rightarrow> tally_add (row_account r) v m) [] rows"

record snapshot_growth =
  sg_account :: jsstring
  sg_first :: rat
  sg_last :: rat
  sg_growth :: rat
  sg_pct :: "rat option"
  sg_new :: bool

definition snapshot_entry :: "(jsstring, rat) jsmap \<Rightarrow> (jsstring, rat) jsmap \<Rightarrow> jsstring \<Rightarrow> snapshot_growth" where
  "snapshot_entry earlier later a =
     (let had = map_get earlier a \<noteq> None;
          f = (case map_get earlier a of None \<Rightarrow> 0 | Some v \<Rightarrow> v);
          l = (case map_get later a of None \<Rightarrow> 0 | Some v \<Rightarrow> v) in
      \<lparr> sg_account = a, sg_first = f, sg_last = l, sg_growth = l - f,
        sg_pct = (if had \<and> 0 < f then Some ((l - f) / f * 100) else None), sg_new = (\<not> had) \<rparr>)"

definition computeSnapshotGrowth :: "report_row list \<Rightarrow> report_row list \<Rightarrow> snapshot_growth list" where
  "computeSnapshotGrowth thenRows nowRows =
     (let earlier = storedByAccount thenRows; later = storedByAccount nowRows in
      sort_descending sg_growth
        (map (snapshot_entry earlier later)
          (js_unique (map fst earlier @ map fst later))))"

section \<open>The type of a row\<close>

definition wf_row :: "report_row \<Rightarrow> bool" where
  "wf_row r \<longleftrightarrow> row_account r \<noteq> [] \<and> (\<exists>y m d. date_parts (row_date r) y m d \<and> length y \<in> {3, 4})
     \<and> row_bucket_id r \<noteq> Some [] \<and> row_bucket_name r \<noteq> Some []"

definition short_year :: "jsstring option \<Rightarrow> bool" where
  "short_year raw = (case slash_date (js_trim (case raw of None \<Rightarrow> [] | Some r \<Rightarrow> r)) of
      None \<Rightarrow> False | Some (mo, d, y) \<Rightarrow> length y = 3)"

lemma slash_not_iso: "iso_date s \<Longrightarrow> slash_date s = None"
proof (cases "slash_date s")
  case (Some p)
  assume iso: "iso_date s"
  obtain mo d y where "p = (mo, d, y)" by (cases p)
  with Some have "47 \<in> set s" by (auto simp: slash_date_Some)
  with iso show ?thesis by (auto elim!: iso_dateE simp: is_digit_def)
qed simp

lemma normalizeDate_iso_iff: "normalizeDate raw = Some s \<Longrightarrow> iso_date s \<longleftrightarrow> \<not> short_year raw"
proof -
  assume s: "normalizeDate raw = Some s"
  define r where "r = js_trim (case raw of None \<Rightarrow> [] | Some r \<Rightarrow> r)"
  show ?thesis
  proof (cases "iso_date r")
    case True
    with s have "s = r" by (simp add: normalizeDate_def r_def [symmetric])
    with True slash_not_iso [OF True] show ?thesis by (simp add: short_year_def r_def [symmetric])
  next
    case False
    then obtain mo d y where sd: "slash_date r = Some (mo, d, y)"
      and e: "s = (if length y = 2 then js ''20'' @ y else y) @ js ''-'' @ pad2 mo @ js ''-'' @ pad2 d"
      using s by (auto simp: normalizeDate_def r_def [symmetric] split: option.splits)
    note g = sd [unfolded slash_date_Some]
    have "date_parts s (if length y = 2 then js ''20'' @ y else y) (pad2 mo) (pad2 d)"
      using g pad2_digits [of mo] pad2_digits [of d] by (auto simp: date_parts_def e js_simps is_digit_def)
    then have "iso_date s \<longleftrightarrow> length y \<noteq> 3" using g by (auto dest: iso_date_parts)
    with sd show ?thesis by (simp add: short_year_def r_def [symmetric])
  qed
qed

text \<open>
  (C35) \<open>mapRow\<close> is typed as \<open>ReportRow\<close> says: a row has an account, a date of digits with two-digit
  month and day, and no empty bucket name or identifier; a CSV object gives no row exactly when its
  account is blank or its date is not read. The date has the form YYYY-MM-DD unless the report
  wrote a year of three digits, which is copied as it stands.
\<close>

theorem report_row_type:
  "case mapRow raw of
     None \<Rightarrow> nonempty (map_option js_trim (raw (js ''account_id''))) = None \<or> normalizeDate (raw (js ''date'')) = None
   | Some r \<Rightarrow> wf_row r \<and> (iso_date (row_date r) \<longleftrightarrow> \<not> short_year (raw (js ''date'')))"
proof (cases "mapRow raw")
  case (Some r)
  then obtain a s where a: "nonempty (map_option js_trim (raw (js ''account_id''))) = Some a"
    and s: "normalizeDate (raw (js ''date'')) = Some s" and r: "row_account r = a" "row_date r = s"
      "row_bucket_id r = nonempty (map_option js_trim (raw (js ''bucket_id'')))"
      "row_bucket_name r = nonempty (map_option js_trim (raw (js ''bucket_name'')))"
    by (auto simp: mapRow_def split: option.splits)
  have "a \<noteq> []" using a by (simp add: nonempty_Some)
  then have "wf_row r" using r normalizeDate_parts [OF s] by (auto simp: wf_row_def)
  then show ?thesis using Some r normalizeDate_iso_iff [OF s] by simp
qed (auto simp: mapRow_def split: option.splits)

text \<open>The short year is real: such a date is neither of ten units nor read again as a date.\<close>

lemma short_year_date:
  "normalizeDate (Some (js ''1/2/123'')) = Some (js ''123-01-02'')"
  "normalizeDate (Some (js ''123-01-02'')) = None"
  by (simp_all add: normalizeDate_def js_trim_def js_simps js_space_def iso_date_def shaped_def
      slash_date_def slash_group_def is_digit_def pad2_def)

section \<open>Insertion-ordered maps as functions on their keys\<close>

lemma map_get_keys [simp]: "map_get (map (\<lambda>k. (k, f k)) ks) k = (if k \<in> set ks then Some (f k) else None)"
  by (induction ks) (auto simp: map_get_def)

lemma map_set_keys:
  "distinct ks \<Longrightarrow> map_set k v (map (\<lambda>k. (k, f k)) ks)
     = map (\<lambda>k'. (k', (f(k := v)) k')) (if k \<in> set ks then ks else ks @ [k])"
  by (induction ks) auto

lemma map_keys_cong: "(\<And>k. k \<in> set ks \<Longrightarrow> f k = g k) \<Longrightarrow> map (\<lambda>k. (k, f k)) ks = map (\<lambda>k. (k, g k)) ks"
  by simp

text \<open>The total of a key.\<close>

definition key_total :: "('k \<times> rat) list \<Rightarrow> 'k \<Rightarrow> rat" where
  "key_total ps k = sum_list (map snd (filter (\<lambda>p. fst p = k) ps))"

lemma key_total_simps [simp]:
  "key_total [] k = 0" "key_total (ps @ qs) k = key_total ps k + key_total qs k" "key_total [(k', v)] k = (if k' = k then v else 0)"
  by (simp_all add: key_total_def)

lemma key_total_absent: "k \<notin> fst ` set ps \<Longrightarrow> key_total ps k = 0"
  by (induction ps rule: rev_induct) (auto split: prod.splits)

lemma tally_snoc: "tally (ps @ [(k, v)]) = tally_add k v (tally ps)"
  by (simp add: tally_def)

lemma tally_exact: "tally ps = map (\<lambda>k. (k, key_total ps k)) (js_unique (map fst ps))"
proof (induction ps rule: rev_induct)
  case (snoc p ps)
  obtain k v where p: "p = (k, v)" by (cases p)
  have "tally (ps @ [p]) = map_set k (key_total ps k + v) (map (\<lambda>k. (k, key_total ps k)) (js_unique (map fst ps)))"
    using key_total_absent [of k ps] by (simp add: p tally_snoc tally_add_def snoc)
  also have "\<dots> = map (\<lambda>k'. (k', ((key_total ps)(k := key_total ps k + v)) k')) (js_unique (map fst (ps @ [p])))"
    by (simp add: map_set_keys p)
  also have "\<dots> = map (\<lambda>k. (k, key_total (ps @ [p]) k)) (js_unique (map fst (ps @ [p])))"
    by (rule map_keys_cong) (simp add: p)
  finally show ?case .
qed (simp add: tally_def)

lemma tally_keys [simp]: "map fst (tally ps) = js_unique (map fst ps)"
  by (simp add: tally_exact o_def)

lemma tally_get: "map_get (tally ps) k = (if k \<in> fst ` set ps then Some (key_total ps k) else None)"
  by (simp add: tally_exact)

text \<open>A total over the keys is the total over the entries.\<close>

lemma sum_over_keys:
  "(\<Sum>k \<leftarrow> js_unique (map fst ps). key_total ps k) = sum_list (map snd ps)"
proof -
  have "(\<Sum>k \<in> fst ` set ps. key_total ps k) = sum_list (map snd ps)"
  proof (induction ps)
    case (Cons p ps)
    have "(\<Sum>k \<in> insert (fst p) (fst ` set ps). key_total (p # ps) k)
        = (\<Sum>k \<in> insert (fst p) (fst ` set ps). (if k = fst p then snd p else 0) + key_total ps k)"
      by (rule sum.cong) (auto simp: key_total_def)
    also have "\<dots> = snd p + (\<Sum>k \<in> insert (fst p) (fst ` set ps). key_total ps k)"
      by (simp add: sum.distrib)
    also have "(\<Sum>k \<in> insert (fst p) (fst ` set ps). key_total ps k) = (\<Sum>k \<in> fst ` set ps. key_total ps k)"
      by (cases "fst p \<in> fst ` set ps") (auto simp: key_total_absent insert_absorb)
    finally show ?case using Cons by simp
  qed simp
  then show ?thesis by (simp add: sum_list_distinct_conv_sum_set)
qed

lemma sort_descending_facts:
  "set (sort_descending g xs) = set xs" "length (sort_descending g xs) = length xs"
  "sorted_wrt (\<lambda>x y. g y \<le> g x) (sort_descending g xs)"
  using sorted_sort_key [of "\<lambda>x. - g x" xs] by (simp_all add: sort_descending_def sorted_map)

lemma distinct_sort_descending: "distinct (map h (sort_descending g xs)) \<longleftrightarrow> distinct (map h xs)"
  by (simp add: distinct_map sort_descending_def)

lemma sum_sort_descending: "sum_list (map h (sort_descending g xs)) = (sum_list (map h xs) :: rat)"
proof -
  have "sum_list (map h (insort_key f x xs)) = h x + sum_list (map h xs)" for x xs and f :: "_ \<Rightarrow> rat"
    by (induction xs) (simp_all add: algebra_simps)
  then show ?thesis by (induction xs) (simp_all add: sort_descending_def)
qed

section \<open>Egress leaders\<close>

definition leader_of :: "rank_by \<Rightarrow> report_row list \<Rightarrow> jsstring \<Rightarrow> egress_leader" where
  "leader_of how rows k =
     (let rs = filter (\<lambda>r. egress_group how r = Some k) rows in
      \<lparr> leader_key = k, leader_account = row_account (hd rs), leader_bucket = row_bucket_name (hd rs),
        leader_egress = sum_list (map row_egress rs) \<rparr>)"

definition egress_keys :: "rank_by \<Rightarrow> report_row list \<Rightarrow> jsstring list" where
  "egress_keys how rows = js_unique (List.map_filter (egress_group how) rows)"

lemma map_filter_snoc [simp]:
  "List.map_filter f (xs @ [x]) = List.map_filter f xs @ (case f x of None \<Rightarrow> [] | Some y \<Rightarrow> [y])"
  by (simp add: List.map_filter_def split: option.splits)

lemma set_map_filter: "set (List.map_filter f xs) = {y. \<exists>x \<in> set xs. f x = Some y}"
  by (force simp: List.map_filter_def)

lemma egress_groups_exact:
  "foldl (add_egress how) [] rows = map (\<lambda>k. (k, leader_of how rows k)) (egress_keys how rows)"
proof (induction rows rule: rev_induct)
  case (snoc r rows)
  show ?case
  proof (cases "egress_group how r")
    case None
    with snoc show ?thesis by (simp add: add_egress_def egress_keys_def leader_of_def)
  next
    case (Some k)
    let ?ks = "egress_keys how rows"
    have mem: "k \<in> set ?ks \<longleftrightarrow> filter (\<lambda>r. egress_group how r = Some k) rows \<noteq> []"
      by (auto simp: egress_keys_def set_map_filter filter_empty_conv)
    have "foldl (add_egress how) [] (rows @ [r])
        = map_set k (leader_of how (rows @ [r]) k) (map (\<lambda>k. (k, leader_of how rows k)) ?ks)"
      using Some mem by (auto simp: add_egress_def snoc leader_of_def Let_def)
    also have "\<dots> = map (\<lambda>k'. (k', ((leader_of how rows)(k := leader_of how (rows @ [r]) k)) k'))
        (if k \<in> set ?ks then ?ks else ?ks @ [k])"
      by (rule map_set_keys) (simp add: egress_keys_def)
    also have "(if k \<in> set ?ks then ?ks else ?ks @ [k]) = egress_keys how (rows @ [r])"
      using Some by (simp add: egress_keys_def)
    also have "map (\<lambda>k'. (k', ((leader_of how rows)(k := leader_of how (rows @ [r]) k)) k')) (egress_keys how (rows @ [r]))
        = map (\<lambda>k. (k, leader_of how (rows @ [r]) k)) (egress_keys how (rows @ [r]))"
      using Some by (intro map_keys_cong) (auto simp: leader_of_def)
    finally show ?thesis .
  qed
qed (simp add: egress_keys_def)

lemma sum_over_groups:
  "(\<Sum>k \<leftarrow> egress_keys how rows. leader_egress (leader_of how rows k))
     = sum_list (map row_egress (filter (\<lambda>r. egress_group how r \<noteq> None) rows))"
proof -
  let ?ps = "List.map_filter (\<lambda>r. map_option (\<lambda>k. (k, row_egress r)) (egress_group how r)) rows"
  have keys: "map fst ?ps = List.map_filter (egress_group how) rows"
    by (induction rows rule: rev_induct) (auto split: option.splits)
  have "key_total ?ps k = leader_egress (leader_of how rows k)" for k
    by (induction rows rule: rev_induct) (auto simp: leader_of_def Let_def split: option.splits)
  moreover have "sum_list (map snd ?ps) = sum_list (map row_egress (filter (\<lambda>r. egress_group how r \<noteq> None) rows))"
    by (induction rows rule: rev_induct) (auto split: option.splits)
  ultimately show ?thesis using sum_over_keys [of ?ps] by (simp add: egress_keys_def keys)
qed

text \<open>
  \<open>computeEgressLeaders\<close> is the ranking that it is meant to be: one leader for every group that
  occurs, with the sum of the egress of the group's rows and the account and bucket of its first row,
  in descending order of egress with ties in the order of first appearance. The leaders together
  hold exactly the egress of the rows that have a group, so that the shares the tool prints are
  shares of that sum.
\<close>

theorem egress_leaders_exact:
  "computeEgressLeaders rows how = sort_descending leader_egress (map (leader_of how rows) (egress_keys how rows))
   \<and> distinct (map leader_key (computeEgressLeaders rows how))
   \<and> leader_key ` set (computeEgressLeaders rows how) = {k. \<exists>r \<in> set rows. egress_group how r = Some k}
   \<and> sorted_wrt (\<lambda>l l'. leader_egress l' \<le> leader_egress l) (computeEgressLeaders rows how)
   \<and> sum_list (map leader_egress (computeEgressLeaders rows how))
       = sum_list (map row_egress (filter (\<lambda>r. egress_group how r \<noteq> None) rows))"
proof -
  let ?xs = "map (leader_of how rows) (egress_keys how rows)"
  have eq: "computeEgressLeaders rows how = sort_descending leader_egress ?xs"
    by (simp add: computeEgressLeaders_def egress_groups_exact o_def)
  have key: "map leader_key ?xs = egress_keys how rows"
    by (simp add: leader_of_def Let_def o_def)
  have "distinct (map leader_key ?xs)" unfolding key by (simp add: egress_keys_def)
  then have "distinct (map leader_key (sort_descending leader_egress ?xs))"
    unfolding distinct_sort_descending .
  moreover have "leader_key ` set ?xs = {k. \<exists>r \<in> set rows. egress_group how r = Some k}"
    using arg_cong [OF key, of set] by (simp add: egress_keys_def set_map_filter image_image)
  moreover have "sum_list (map leader_egress (sort_descending leader_egress ?xs))
      = sum_list (map row_egress (filter (\<lambda>r. egress_group how r \<noteq> None) rows))"
    by (simp add: sum_sort_descending o_def sum_over_groups)
  ultimately show ?thesis
    unfolding eq using sort_descending_facts(1,3) [of leader_egress ?xs] by (simp only:)
qed

section \<open>Snapshot growth\<close>

definition stored_pairs :: "report_row list \<Rightarrow> (jsstring \<times> rat) list" where
  "stored_pairs rows = List.map_filter (\<lambda>r. map_option (Pair (row_account r)) (row_storage r)) rows"

lemma storedByAccount_tally: "storedByAccount rows = tally (stored_pairs rows)"
  by (induction rows rule: rev_induct)
    (auto simp: storedByAccount_def stored_pairs_def tally_snoc tally_def split: option.splits)

text \<open>What is stored in an account and which accounts store anything.\<close>

definition snapshot_growth_of :: "report_row list \<Rightarrow> report_row list \<Rightarrow> jsstring \<Rightarrow> snapshot_growth" where
  "snapshot_growth_of thenRows nowRows a =
     (let f = key_total (stored_pairs thenRows) a; l = key_total (stored_pairs nowRows) a in
      \<lparr> sg_account = a, sg_first = f, sg_last = l, sg_growth = l - f,
        sg_pct = (if 0 < f then Some ((l - f) / f * 100) else None),
        sg_new = (a \<notin> fst ` set (stored_pairs thenRows)) \<rparr>)"

definition snapshot_accounts :: "report_row list \<Rightarrow> report_row list \<Rightarrow> jsstring list" where
  "snapshot_accounts thenRows nowRows = js_unique (map fst (stored_pairs thenRows @ stored_pairs nowRows))"

lemma js_unique_append:
  "js_unique (js_unique xs @ js_unique ys) = js_unique (xs @ ys)"
proof -
  have r: "remdups (remdups as @ bs) = remdups (as @ bs)" for as bs :: "'a list"
    by (induction as) auto
  have l: "remdups (as @ remdups bs) = remdups (as @ bs)" for as bs :: "'a list"
    by (induction as) auto
  show ?thesis by (simp add: js_unique_def r l)
qed

lemma snapshot_entry_exact:
  "snapshot_entry (tally ps) (tally qs) a =
     (let f = key_total ps a; l = key_total qs a in
      \<lparr> sg_account = a, sg_first = f, sg_last = l, sg_growth = l - f,
        sg_pct = (if 0 < f then Some ((l - f) / f * 100) else None), sg_new = (a \<notin> fst ` set ps) \<rparr>)"
  by (auto simp: snapshot_entry_def tally_get key_total_absent Let_def)

lemma total_over_more:
  "(\<Sum>k \<leftarrow> js_unique (map fst (ps @ qs)). key_total ps k) = sum_list (map snd ps)"
  "(\<Sum>k \<leftarrow> js_unique (map fst (ps @ qs)). key_total qs k) = sum_list (map snd qs)"
proof -
  have sub: "(\<Sum>k \<in> fst ` set xs. key_total xs k) = (\<Sum>k \<in> K. key_total xs k)"
    if "fst ` set xs \<subseteq> K" "finite K" for K and xs :: "('a \<times> rat) list"
    using that by (intro sum.mono_neutral_left) (auto simp: key_total_absent)
  have keys: "(\<Sum>k \<in> fst ` set xs. key_total xs k) = sum_list (map snd xs)" for xs :: "('a \<times> rat) list"
    using sum_over_keys [of xs] by (simp add: sum_list_distinct_conv_sum_set)
  show "(\<Sum>k \<leftarrow> js_unique (map fst (ps @ qs)). key_total ps k) = sum_list (map snd ps)"
    "(\<Sum>k \<leftarrow> js_unique (map fst (ps @ qs)). key_total qs k) = sum_list (map snd qs)"
    using sub [of ps "fst ` set ps \<union> fst ` set qs"] sub [of qs "fst ` set ps \<union> fst ` set qs"] keys [of ps] keys [of qs]
    by (simp_all add: sum_list_distinct_conv_sum_set image_Un)
qed

text \<open>
  \<open>computeSnapshotGrowth\<close> compares two daily snapshots account by account: one entry for every
  account that stores something in either, with the sums of its rows on both days, their difference,
  the percentage only where the earlier sum is positive, and the new mark exactly on the accounts
  that the earlier snapshot does not have. The entries are ranked by growth, and the growths add up
  to the difference of the two days' totals.
\<close>

theorem snapshot_growth_exact:
  "computeSnapshotGrowth thenRows nowRows = sort_descending sg_growth
       (map (snapshot_growth_of thenRows nowRows) (snapshot_accounts thenRows nowRows))
   \<and> distinct (map sg_account (computeSnapshotGrowth thenRows nowRows))
   \<and> sorted_wrt (\<lambda>g g'. sg_growth g' \<le> sg_growth g) (computeSnapshotGrowth thenRows nowRows)
   \<and> sum_list (map sg_growth (computeSnapshotGrowth thenRows nowRows))
       = sum_list (map snd (stored_pairs nowRows)) - sum_list (map snd (stored_pairs thenRows))"
proof -
  let ?xs = "map (snapshot_growth_of thenRows nowRows) (snapshot_accounts thenRows nowRows)"
  have eq: "computeSnapshotGrowth thenRows nowRows = sort_descending sg_growth ?xs"
    by (simp add: computeSnapshotGrowth_def storedByAccount_tally snapshot_entry_exact [abs_def]
        snapshot_growth_of_def [abs_def] snapshot_accounts_def js_unique_append)
  have "map sg_account ?xs = snapshot_accounts thenRows nowRows"
    by (simp add: snapshot_growth_of_def Let_def o_def)
  then have "distinct (map sg_account ?xs)" by (simp add: snapshot_accounts_def)
  then have "distinct (map sg_account (sort_descending sg_growth ?xs))"
    unfolding distinct_sort_descending .
  moreover have "sum_list (map sg_growth (sort_descending sg_growth ?xs))
      = sum_list (map snd (stored_pairs nowRows)) - sum_list (map snd (stored_pairs thenRows))"
    using total_over_more [where ps = "stored_pairs thenRows" and qs = "stored_pairs nowRows"]
    by (simp add: sum_sort_descending snapshot_growth_of_def Let_def o_def sum_list_subtractf snapshot_accounts_def)
  ultimately show ?thesis
    unfolding eq using sort_descending_facts(3) [of sg_growth ?xs] by blast
qed

section \<open>Growth over all rows\<close>

definition dated_rows :: "report_row list \<Rightarrow> report_row list" where
  "dated_rows rows = filter (\<lambda>r. row_account r \<noteq> [] \<and> row_date r \<noteq> []) rows"

definition day_pairs :: "report_row list \<Rightarrow> jsstring \<Rightarrow> (jsstring \<times> rat) list" where
  "day_pairs rows a = List.map_filter (\<lambda>r. map_option (Pair (row_date r)) (row_storage r))
     (filter (\<lambda>r. row_account r = a) (dated_rows rows))"

definition egress_pairs :: "report_row list \<Rightarrow> (jsstring \<times> rat) list" where
  "egress_pairs rows = map (\<lambda>r. (row_account r, row_egress r)) (dated_rows rows)"

lemma add_growth_exact:
  "foldl add_growth ([], []) rows
     = (map (\<lambda>a. (a, tally (day_pairs rows a))) (js_unique (map row_account (dated_rows rows))),
        tally (egress_pairs rows))"
proof (induction rows rule: rev_induct)
  case (snoc r rows)
  show ?case
  proof (cases "row_account r = [] \<or> row_date r = []")
    case True
    then have "dated_rows (rows @ [r]) = dated_rows rows" by (auto simp: dated_rows_def)
    with True snoc show ?thesis by (simp add: add_growth_def day_pairs_def egress_pairs_def)
  next
    case False
    let ?ks = "js_unique (map row_account (dated_rows rows))"
    let ?a = "row_account r"
    have dated: "dated_rows (rows @ [r]) = dated_rows rows @ [r]" using False by (simp add: dated_rows_def)
    have pairs: "day_pairs (rows @ [r]) a = day_pairs rows a
        @ (if a = ?a then (case row_storage r of None \<Rightarrow> [] | Some v \<Rightarrow> [(row_date r, v)]) else [])" for a
      by (simp add: day_pairs_def dated split: option.splits)
    have old: "tally (day_pairs rows ?a) = []" if "?a \<notin> set (map row_account (dated_rows rows))"
    proof -
      have "filter (\<lambda>r'. row_account r' = ?a) (dated_rows rows) = []"
        using that by (simp add: filter_empty_conv image_iff eq_commute)
      then show ?thesis by (simp add: day_pairs_def tally_def List.map_filter_def)
    qed
    have new: "(case row_storage r of None \<Rightarrow> tally (day_pairs rows ?a)
        | Some v \<Rightarrow> tally_add (row_date r) v (tally (day_pairs rows ?a))) = tally (day_pairs (rows @ [r]) ?a)"
      by (simp add: pairs tally_snoc split: option.splits)
    have "(case map_get (map (\<lambda>a. (a, tally (day_pairs rows a))) ?ks) ?a of None \<Rightarrow> [] | Some m \<Rightarrow> m)
        = tally (day_pairs rows ?a)"
      using old by simp
    then have "foldl add_growth ([], []) (rows @ [r])
        = (map_set ?a (tally (day_pairs (rows @ [r]) ?a)) (map (\<lambda>a. (a, tally (day_pairs rows a))) ?ks),
           tally_add ?a (row_egress r) (tally (egress_pairs rows)))"
      using False new by (simp only: foldl_append foldl.simps snoc add_growth_def Let_def case_prod_conv if_False)
    also have "map_set ?a (tally (day_pairs (rows @ [r]) ?a)) (map (\<lambda>a. (a, tally (day_pairs rows a))) ?ks)
        = map (\<lambda>a. (a, tally (day_pairs (rows @ [r]) a))) (js_unique (map row_account (dated_rows (rows @ [r]))))"
      unfolding map_set_keys [OF js_unique_simps(3)] by (auto simp: dated pairs intro!: map_keys_cong)
    also have "tally_add ?a (row_egress r) (tally (egress_pairs rows)) = tally (egress_pairs (rows @ [r]))"
      by (simp add: egress_pairs_def dated tally_snoc)
    finally show ?thesis .
  qed
qed (simp add: dated_rows_def tally_def egress_pairs_def)

text \<open>What the growth of an account is: its stored bytes on its last day against those on its first.\<close>

definition account_growth_of :: "report_row list \<Rightarrow> jsstring \<Rightarrow> account_growth" where
  "account_growth_of rows a =
     (let ps = day_pairs rows a; days = fst ` set ps;
          f = key_total ps (Min days); l = key_total ps (Max days) in
      \<lparr> ag_account = a, ag_first = f, ag_last = l, ag_growth = l - f,
        ag_pct = (if 0 < f then Some ((l - f) / f * 100) else None),
        ag_egress = key_total (egress_pairs rows) a \<rparr>)"

lemma sorted_ends: "xs \<noteq> [] \<Longrightarrow> hd (sort xs) = Min (set xs) \<and> last (sort xs) = Max (set (xs :: jsstring list))"
proof -
  assume xs: "xs \<noteq> []"
  then have ne: "sort xs \<noteq> []" by (metis length_0_conv length_sort)
  have hd: "hd (sort xs) \<le> y" if "y \<in> set xs" for y
  proof -
    have "y \<in> set (sort xs)" using that by simp
    then show ?thesis using sorted_sort [of xs] ne by (cases "sort xs") auto
  qed
  have last: "y \<le> last (sort xs)" if "y \<in> set xs" for y
  proof -
    have "y \<in> set (sort xs)" using that by simp
    then show ?thesis using sorted_sort [of xs] ne
      by (cases "sort xs" rule: rev_cases) (auto simp: sorted_append)
  qed
  show ?thesis
    using hd last ne hd_in_set [OF ne] last_in_set [OF ne] by (auto intro!: Min_eqI [symmetric] Max_eqI [symmetric])
qed

lemma growth_entry_exact:
  assumes "a \<in> fst ` set (egress_pairs rows)"
  shows "growth_entry (tally (egress_pairs rows)) (a, tally (day_pairs rows a))
     = (if day_pairs rows a = [] then None else Some (account_growth_of rows a))"
proof (cases "day_pairs rows a = []")
  case False
  let ?days = "js_unique (map fst (day_pairs rows a))"
  have days: "set ?days = fst ` set (day_pairs rows a)" by simp
  have "?days \<noteq> []" using False days by (metis image_is_empty list.set(1) set_empty)
  note ends = sorted_ends [OF this, unfolded days]
  have "Min (fst ` set (day_pairs rows a)) \<in> fst ` set (day_pairs rows a)"
    "Max (fst ` set (day_pairs rows a)) \<in> fst ` set (day_pairs rows a)"
    using False by (simp_all add: Min_in Max_in)
  moreover have "sort ?days \<noteq> []" using \<open>?days \<noteq> []\<close> by (metis length_0_conv length_sort)
  ultimately show ?thesis
    using False assms ends by (simp add: growth_entry_def account_growth_of_def Let_def tally_get)
qed (simp add: growth_entry_def tally_def)

text \<open>
  \<open>computeAccountGrowth\<close> is the growth that it is meant to be: one entry for every account that
  has a dated row with a stored figure, from the sum of its rows on its earliest day to the sum on
  its latest, ranked in descending order. A stored figure is never added up over days.
\<close>

theorem account_growth_exact:
  "computeAccountGrowth rows = sort_descending ag_growth
     (map (account_growth_of rows) (filter (\<lambda>a. day_pairs rows a \<noteq> [])
        (js_unique (map row_account (dated_rows rows)))))"
proof -
  let ?ks = "js_unique (map row_account (dated_rows rows))"
  have "List.map_filter (growth_entry (tally (egress_pairs rows))) (map (\<lambda>a. (a, tally (day_pairs rows a))) ks)
      = map (account_growth_of rows) (filter (\<lambda>a. day_pairs rows a \<noteq> []) ks)"
    if "set ks \<subseteq> fst ` set (egress_pairs rows)" for ks
    using that by (induction ks) (simp_all add: growth_entry_exact List.map_filter_simps)
  from this [of ?ks] show ?thesis
    by (simp add: computeAccountGrowth_def add_growth_exact egress_pairs_def image_image)
qed

end
