(* ===== verification/Civil_Date.thy ===== *)
theory Civil_Date
  imports Js_Prelude
begin

text \<open>
  The part of the language's \<open>Date\<close> that the usage tools rely on, as ECMAScript defines it: the day
  number of a civil date (\<open>MakeDay\<close>), the year, month and day of a day number, and the text of
  \<open>toISOString().slice(0, 10)\<close>; then \<open>periodStartDate\<close> and \<open>daysAgo\<close> of \<open>src/b2/insights.ts\<close>. Months
  count from 0 as in the source. The limit of a time value (\<open>8.64e15\<close> milliseconds) is not modelled.
\<close>

section \<open>Days and years\<close>

definition MS_PER_DAY :: int where
  "MS_PER_DAY = 86400000"

definition day_from_year :: "int \<Rightarrow> int" where
  "day_from_year y = 365 * (y - 1970) + (y - 1969) div 4 - (y - 1901) div 100 + (y - 1601) div 400"

definition leap_year :: "int \<Rightarrow> bool" where
  "leap_year y \<longleftrightarrow> y mod 4 = 0 \<and> (y mod 100 \<noteq> 0 \<or> y mod 400 = 0)"

text \<open>The year of a day is the largest year that starts on or before it.\<close>

definition year_of_day :: "int \<Rightarrow> int" where
  "year_of_day n =
     (let y = 1970 + 400 * n div 146097 in
      if day_from_year (y + 1) \<le> n then y + 1 else if n < day_from_year y then y - 1 else y)"

definition month_lengths :: "bool \<Rightarrow> int list" where
  "month_lengths leap = [31, if leap then 29 else 28, 31, 30, 31, 30, 31, 31, 30, 31, 30, 31]"

definition month_start :: "bool \<Rightarrow> nat \<Rightarrow> int" where
  "month_start leap m = sum_list (take m (month_lengths leap))"

definition month_length :: "int \<Rightarrow> int \<Rightarrow> int" where
  "month_length y m = month_lengths (leap_year y) ! nat m"

fun find_month :: "int list \<Rightarrow> int \<Rightarrow> int \<Rightarrow> int \<times> int" where
  "find_month [] m d = (m, d)"
| "find_month (l # ls) m d = (if d < l then (m, d) else find_month ls (m + 1) (d - l))"

text \<open>Year, month and day of the month of a day number.\<close>

definition civil :: "int \<Rightarrow> int \<times> int \<times> int" where
  "civil n =
     (let y = year_of_day n; (m, d) = find_month (month_lengths (leap_year y)) 0 (n - day_from_year y) in
      (y, m, d + 1))"

text \<open>\<open>MakeDay(year, month, date)\<close>: a month outside 0..11 carries into the year.\<close>

definition make_day :: "int \<Rightarrow> int \<Rightarrow> int \<Rightarrow> int" where
  "make_day y m d =
     (let ym = y + m div 12 in
      day_from_year ym + month_start (leap_year ym) (nat (m mod 12)) + d - 1)"

definition valid_date :: "int \<Rightarrow> int \<Rightarrow> int \<Rightarrow> bool" where
  "valid_date y m d \<longleftrightarrow> 0 \<le> m \<and> m < 12 \<and> 1 \<le> d \<and> d \<le> month_length y m"

section \<open>Correctness of the calendar\<close>

lemma div_bounds: "0 < k \<Longrightarrow> k * (x div k) \<le> x \<and> x - (k - 1) \<le> k * (x div k)" for x k :: int
proof -
  assume k: "0 < k"
  have "x = k * (x div k) + x mod k" by simp
  then show ?thesis using pos_mod_bound [OF k, of x] pos_mod_sign [OF k, of x] by linarith
qed

lemma day_from_year_bounds:
  "146097 * (y - 1970) - 506 \<le> 400 * day_from_year y" "400 * day_from_year y \<le> 146097 * (y - 1970) + 589"
proof -
  define a b c where abc: "a = (y - 1969) div 4" "b = (y - 1901) div 100" "c = (y - 1601) div 400"
  have "4 * a \<le> y - 1969" "y - 1969 - 3 \<le> 4 * a" "100 * b \<le> y - 1901" "y - 1901 - 99 \<le> 100 * b"
    "400 * c \<le> y - 1601" "y - 1601 - 399 \<le> 400 * c"
    using div_bounds [of 4 "y - 1969"] div_bounds [of 100 "y - 1901"] div_bounds [of 400 "y - 1601"]
    unfolding abc by linarith+
  moreover have "day_from_year y = 365 * (y - 1970) + a - b + c" by (simp add: day_from_year_def abc)
  ultimately show "146097 * (y - 1970) - 506 \<le> 400 * day_from_year y"
    "400 * day_from_year y \<le> 146097 * (y - 1970) + 589"
    by (simp_all add: algebra_simps)
qed

lemma div_next:
  "0 < k \<Longrightarrow> k dvd c \<Longrightarrow> c' = c + 1 \<Longrightarrow> (y - c) div k = (y - c') div k + (if y mod k = 0 then 1 else 0)" for k :: int
proof -
  assume k: "0 < k" and c: "k dvd c" and c': "c' = c + 1"
  then obtain e where e: "c = k * e" by (auto elim: dvdE)
  obtain d r where d: "y div k = d" "y mod k = r" "y = k * d + r" "0 \<le> r" "r < k"
    using k mult_div_mod_eq [of k y] by (simp add: that)
  have "(y - c) div k = d - e"
    using k d(3-5) by (intro int_div_pos_eq [where r = r]) (simp_all add: e algebra_simps)
  moreover have "(y - (c + 1)) div k = d - e + (if r = 0 then -1 else 0)"
    using k d(3-5) by (intro int_div_pos_eq [where r = "if r = 0 then k - 1 else r - 1"])
      (simp_all add: e algebra_simps)
  ultimately show ?thesis using c' d(1,2) by simp
qed

lemma leap_count: "C \<longrightarrow> B \<Longrightarrow> B \<longrightarrow> A \<Longrightarrow>
    (if A then 1 else 0) - (if B then 1 else 0) + (if C then 1 else 0) = (if A \<and> (\<not> B \<or> C) then 1 else (0 :: int))"
  by (cases A; cases B; cases C) simp_all

lemma day_from_year_Suc: "day_from_year (y + 1) = day_from_year y + (if leap_year y then 366 else 365)"
proof -
  define i j k :: int where ijk: "i = (if y mod 4 = 0 then 1 else 0)" "j = (if y mod 100 = 0 then 1 else 0)"
    "k = (if y mod 400 = 0 then 1 else 0)"
  have divs: "(y - 1968) div 4 = (y - 1969) div 4 + i" "(y - 1900) div 100 = (y - 1901) div 100 + j"
    "(y - 1600) div 400 = (y - 1601) div 400 + k"
    unfolding ijk by (rule div_next; simp)+
  have years: "y + 1 - 1970 = y - 1970 + 1" "y + 1 - 1969 = y - 1968" "y + 1 - 1901 = y - 1900" "y + 1 - 1601 = y - 1600"
    by simp_all
  have "(100 :: int) dvd 400" "(4 :: int) dvd 100" by simp_all
  then have "y mod 400 = 0 \<longrightarrow> y mod 100 = 0" "y mod 100 = 0 \<longrightarrow> y mod 4 = 0"
    unfolding mod_eq_0_iff_dvd by (blast intro: dvd_trans)+
  then have "i - j + k = (if leap_year y then 1 else 0)"
    unfolding ijk leap_year_def by (intro leap_count)
  moreover have "day_from_year (y + 1) = day_from_year y + 365 + (i - j + k)"
    unfolding day_from_year_def years divs by (simp only: distrib_left)
  ultimately show ?thesis by simp
qed

lemma day_from_year_mono: "y \<le> z \<Longrightarrow> day_from_year y \<le> day_from_year z"
proof (induction z rule: int_ge_induct)
  case (step z)
  then show ?case by (simp add: day_from_year_Suc)
qed simp

lemma year_of_day_bounds: "day_from_year (year_of_day n) \<le> n" "n < day_from_year (year_of_day n + 1)"
proof -
  define q where "q = 400 * n div 146097"
  have q: "146097 * q \<le> 400 * n" "400 * n < 146097 * q + 146097"
    using div_bounds [of 146097 "400 * n"] unfolding q_def by simp_all
  have "day_from_year (1970 + q - 1) \<le> n" "n < day_from_year (1970 + q + 1 + 1)"
    using q day_from_year_bounds [of "1970 + q - 1"] day_from_year_bounds [of "1970 + q + 1 + 1"] by simp_all
  then show "day_from_year (year_of_day n) \<le> n" "n < day_from_year (year_of_day n + 1)"
    by (simp_all add: year_of_day_def q_def [symmetric] Let_def)
qed

lemma year_of_day_unique: "day_from_year y \<le> n \<Longrightarrow> n < day_from_year (y + 1) \<Longrightarrow> year_of_day n = y"
  using year_of_day_bounds [of n] day_from_year_mono [of "y + 1" "year_of_day n"]
    day_from_year_mono [of "year_of_day n + 1" y] by linarith

lemma find_month_start:
  "m < length ls \<Longrightarrow> 0 \<le> d \<Longrightarrow> d < ls ! m \<Longrightarrow> \<forall>l \<in> set ls. 0 \<le> l \<Longrightarrow>
     find_month ls k (sum_list (take m ls) + d) = (k + int m, d)"
proof (induction ls arbitrary: m k)
  case (Cons l ls)
  show ?case
  proof (cases m)
    case (Suc m')
    have "0 \<le> sum_list (take m' ls)"
      using Cons.prems by (intro sum_list_nonneg) (auto dest: in_set_takeD)
    then have "find_month (l # ls) k (sum_list (take m (l # ls)) + d) = find_month ls (k + 1) (sum_list (take m' ls) + d)"
      using Cons.prems Suc by simp
    also have "\<dots> = (k + 1 + int m', d)" using Cons Suc by simp
    finally show ?thesis using Suc by simp
  qed (use Cons.prems in simp)
qed simp

lemma find_month_inverse:
  "0 \<le> d \<Longrightarrow> d < sum_list ls \<Longrightarrow>
     \<exists>m e. find_month ls k d = (k + int m, e) \<and> m < length ls \<and> 0 \<le> e \<and> e < ls ! m \<and> d = sum_list (take m ls) + e"
proof (induction ls arbitrary: k d)
  case (Cons l ls)
  show ?case
  proof (cases "d < l")
    case False
    then obtain m e where "find_month ls (k + 1) (d - l) = (k + 1 + int m, e)" "m < length ls" "0 \<le> e"
        "e < ls ! m" "d - l = sum_list (take m ls) + e"
      using Cons.IH [of "d - l" "k + 1"] Cons.prems by auto
    with False show ?thesis by (intro exI [of _ "Suc m"] exI [of _ e]) simp
  qed (use Cons.prems in \<open>intro exI [of _ 0] exI [of _ d], simp\<close>)
qed simp

lemma year_length: "sum_list (month_lengths leap) = (if leap then 366 else 365)"
  by (simp add: month_lengths_def)

lemma civil_make_day:
  assumes "valid_date y m d" shows "civil (make_day y m d) = (y, m, d)"
proof -
  let ?ls = "month_lengths (leap_year y)"
  have m: "m div 12 = 0" "m mod 12 = m" "nat m < length ?ls" "int (nat m) = m"
    using assms by (auto simp: valid_date_def month_lengths_def)
  have d: "0 \<le> d - 1" "d - 1 < ?ls ! nat m" using assms by (auto simp: valid_date_def month_length_def)
  have pos: "\<forall>l \<in> set ?ls. 0 \<le> l" by (simp add: month_lengths_def)
  let ?n = "sum_list (take (nat m) ?ls) + (d - 1)"
  have n: "make_day y m d = day_from_year y + ?n"
    by (simp add: make_day_def m month_start_def)
  have "?n < sum_list ?ls"
  proof -
    have "sum_list ?ls = sum_list (take (nat m) ?ls) + sum_list (drop (nat m) ?ls)"
      by (metis append_take_drop_id sum_list_append)
    moreover have "drop (nat m) ?ls = ?ls ! nat m # drop (Suc (nat m)) ?ls"
      using m(3) by (simp add: Cons_nth_drop_Suc)
    moreover have "0 \<le> sum_list (drop (Suc (nat m)) ?ls)"
      using pos by (intro sum_list_nonneg) (auto dest: in_set_dropD)
    ultimately show ?thesis using d(2) by simp
  qed
  moreover have "0 \<le> sum_list (take (nat m) ?ls)"
    using pos by (intro sum_list_nonneg) (auto dest: in_set_takeD)
  ultimately have "year_of_day (make_day y m d) = y"
    using d(1) n by (intro year_of_day_unique) (simp_all add: day_from_year_Suc year_length)
  then show ?thesis
    using find_month_start [OF m(3) d pos, of 0] m(4) by (simp add: civil_def n)
qed

lemma make_day_civil:
  assumes "civil n = (y, m, d)" shows "valid_date y m d" "make_day y m d = n"
proof -
  have y: "y = year_of_day n" and f: "find_month (month_lengths (leap_year y)) 0 (n - day_from_year y) = (m, d - 1)"
    using assms by (auto simp: civil_def Let_def split: prod.splits)
  have "0 \<le> n - day_from_year y" "n - day_from_year y < sum_list (month_lengths (leap_year y))"
    using year_of_day_bounds [of n] by (simp_all add: y year_length day_from_year_Suc)
  from find_month_inverse [OF this, of 0] f obtain k where k: "m = int k" "k < length (month_lengths (leap_year y))"
    "0 \<le> d - 1" "d - 1 < month_lengths (leap_year y) ! k"
    "n - day_from_year y = sum_list (take k (month_lengths (leap_year y))) + (d - 1)"
    by auto
  then have "k < 12" by (simp add: month_lengths_def)
  with k show "valid_date y m d" "make_day y m d = n"
    by (simp_all add: valid_date_def month_length_def make_day_def month_start_def)
qed

section \<open>Dates as text\<close>

definition pad :: "nat \<Rightarrow> nat \<Rightarrow> jsstring" where
  "pad w n = replicate (w - length (decimal n)) 48 @ decimal n"

text \<open>\<open>toISOString().slice(0, 10)\<close>: years outside 0..9999 have a sign and six digits.\<close>

definition date_text :: "int \<Rightarrow> int \<Rightarrow> int \<Rightarrow> jsstring" where
  "date_text y m d =
     take 10 ((if 0 \<le> y \<and> y \<le> 9999 then pad 4 (nat y)
        else (if y < 0 then [45] else [43]) @ pad 6 (nat \<bar>y\<bar>))
      @ js ''-'' @ pad 2 (nat (m + 1)) @ js ''-'' @ pad 2 (nat d))"

definition iso_day :: "int \<Rightarrow> jsstring" where
  "iso_day t = (let (y, m, d) = civil (t div MS_PER_DAY) in date_text y m d)"

definition daysAgo :: "int \<Rightarrow> int \<Rightarrow> jsstring" where
  "daysAgo days now = iso_day (now - days * MS_PER_DAY)"

definition startOfMonthUTC :: "int \<Rightarrow> jsstring" where
  "startOfMonthUTC now =
     (let (y, m, d) = civil (now div MS_PER_DAY) in
      (if y < 0 then 45 # decimal (nat (- y)) else decimal (nat y)) @ js ''-'' @ pad 2 (nat (m + 1)) @ js ''-01'')"

section \<open>The start of a period\<close>

datatype period = MonthPeriod | QuarterPeriod | YearPeriod

text \<open>\<open>Date.UTC\<close> reads the years 0..99 as 1900..1999.\<close>

definition date_utc :: "int \<Rightarrow> int \<Rightarrow> int \<Rightarrow> int" where
  "date_utc y m d = make_day (if 0 \<le> y \<and> y \<le> 99 then 1900 + y else y) m d * MS_PER_DAY"

definition set_utc_date :: "int \<Rightarrow> int \<Rightarrow> int" where
  "set_utc_date t d = (let (y, m, _) = civil (t div MS_PER_DAY) in make_day y m d * MS_PER_DAY + t mod MS_PER_DAY)"

definition periodStartDate :: "period \<Rightarrow> int \<Rightarrow> jsstring" where
  "periodStartDate p from_time =
     (let (y, m, day) = civil (from_time div MS_PER_DAY);
          (ty, tm) = (case p of MonthPeriod \<Rightarrow> (y, m - 1) | QuarterPeriod \<Rightarrow> (y, m - 3) | YearPeriod \<Rightarrow> (y - 1, m));
          target = date_utc ty tm 1;
          (gy, gm, _) = civil (target div MS_PER_DAY);
          (_, _, lastDay) = civil (date_utc gy (gm + 1) 0 div MS_PER_DAY) in
      iso_day (set_utc_date target (min day lastDay)))"

definition period_months :: "period \<Rightarrow> int" where
  "period_months p = (case p of MonthPeriod \<Rightarrow> 1 | QuarterPeriod \<Rightarrow> 3 | YearPeriod \<Rightarrow> 12)"

lemma date_utc_mod: "date_utc y m d mod MS_PER_DAY = 0"
  by (simp add: date_utc_def)

lemma month_length_bounds: "0 \<le> m \<Longrightarrow> m < 12 \<Longrightarrow> 28 \<le> month_length y m \<and> month_length y m \<le> 31"
proof -
  assume "0 \<le> m" "m < 12"
  then have "m = 0 \<or> m = 1 \<or> m = 2 \<or> m = 3 \<or> m = 4 \<or> m = 5 \<or> m = 6 \<or> m = 7 \<or> m = 8 \<or> m = 9
      \<or> m = 10 \<or> m = 11" by presburger
  then show ?thesis by (auto simp: month_length_def month_lengths_def)
qed

lemma make_day_carry: "make_day y m d = make_day (y + m div 12) (m mod 12) d"
  by (simp add: make_day_def)

lemma civil_carry: "civil (make_day y m 1) = (y + m div 12, m mod 12, 1)"
  unfolding make_day_carry [of y m] using month_length_bounds [of "m mod 12" "y + m div 12"]
  by (intro civil_make_day) (simp add: valid_date_def)

text \<open>The last day of a month is the day before the first day of the next one.\<close>

lemma make_day_last:
  assumes "0 \<le> m" "m < 12" shows "make_day y (m + 1) 0 = make_day y m (month_length y m)"
proof (cases "m = 11")
  case True
  then show ?thesis
    by (simp add: make_day_def month_start_def month_length_def month_lengths_def day_from_year_Suc)
next
  case False
  with assms have m: "m div 12 = 0" "(m + 1) div 12 = 0" "m mod 12 = m" "(m + 1) mod 12 = m + 1" "nat (m + 1) = Suc (nat m)"
    "nat m < length (month_lengths (leap_year y))"
    by (auto simp: month_lengths_def)
  then show ?thesis
    by (simp add: make_day_def month_start_def month_length_def take_Suc_conv_app_nth)
qed

lemma civil_last:
  assumes "0 \<le> m" "m < 12" shows "civil (make_day y (m + 1) 0) = (y, m, month_length y m)"
  unfolding make_day_last [OF assms] using assms month_length_bounds [OF assms, of y]
  by (intro civil_make_day) (simp add: valid_date_def)

text \<open>
  \<open>periodStartDate\<close> goes back by one, three or twelve calendar months and keeps the day of the
  month, cut to the last day of a shorter month; the result is a date of the calendar. This holds
  from the year 101 on: before, \<open>Date.UTC\<close> would read the year as one of the twentieth century.
\<close>

theorem period_start_exact:
  assumes "civil (from_time div MS_PER_DAY) = (y, m, d)" "101 \<le> y"
  shows "let k = 12 * y + m - period_months p; y' = k div 12; m' = k mod 12; d' = min d (month_length y' m') in
     periodStartDate p from_time = date_text y' m' d' \<and> valid_date y' m' d'"
proof -
  have m: "0 \<le> m" "m < 12" "1 \<le> d" using make_day_civil(1) [OF assms(1)] by (auto simp: valid_date_def)
  define k where "k = 12 * y + m - period_months p"
  obtain ty tm where t: "(case p of MonthPeriod \<Rightarrow> (y, m - 1) | QuarterPeriod \<Rightarrow> (y, m - 3) | YearPeriod \<Rightarrow> (y - 1, m)) = (ty, tm)"
      "k = tm + 12 * ty" "100 \<le> ty" "1200 \<le> k"
    using assms(2) m by (cases p) (auto simp: k_def period_months_def)
  define y' m' where ym: "y' = k div 12" "m' = k mod 12"
  have k: "ty + tm div 12 = y'" "tm mod 12 = m'" using t(2) by (simp_all add: ym)
  have bounds: "0 \<le> m'" "m' < 12" "100 \<le> y'" using t(4) div_bounds [of 12 k] by (auto simp: ym)
  let ?d = "min d (month_length y' m')"
  have valid: "valid_date y' m' ?d"
    using m(3) bounds month_length_bounds [of m' y'] by (simp add: valid_date_def)
  have target: "civil (date_utc ty tm 1 div MS_PER_DAY) = (y', m', 1)"
    using t(3) civil_carry [of ty tm] by (simp add: date_utc_def k MS_PER_DAY_def)
  have last: "civil (date_utc y' (m' + 1) 0 div MS_PER_DAY) = (y', m', month_length y' m')"
    using bounds civil_last [of m' y'] by (simp add: date_utc_def MS_PER_DAY_def)
  have "civil (set_utc_date (date_utc ty tm 1) ?d div MS_PER_DAY) = (y', m', ?d)"
    using valid by (simp add: set_utc_date_def target date_utc_mod civil_make_day) (simp add: MS_PER_DAY_def civil_make_day)
  then have "periodStartDate p from_time = date_text y' m' ?d"
    by (simp add: periodStartDate_def assms(1) t(1) target last iso_day_def)
  with valid show ?thesis by (simp add: ym k_def [symmetric] Let_def)
qed

text \<open>31 March 2024 less one month is 29 February 2024.\<close>

theorem period_start_exact_witness:
  "periodStartDate MonthPeriod 1711843200000 = date_text 2024 1 29"
proof -
  have "make_day 2024 2 31 = 1711843200000 div MS_PER_DAY" "valid_date 2024 2 31"
    by (simp_all add: make_day_def day_from_year_def month_start_def month_lengths_def leap_year_def
        MS_PER_DAY_def valid_date_def month_length_def)
  then have "civil (1711843200000 div MS_PER_DAY) = (2024, 2, 31)" by (metis civil_make_day)
  from period_start_exact [OF this, of MonthPeriod] show ?thesis
    by (simp add: period_months_def month_length_def month_lengths_def leap_year_def)
qed

section \<open>The order of dates\<close>

lemma undecimal_Cons: "undecimal (c # s) = (c - 48) * 10 ^ length s + undecimal s"
  using undecimal_append [of "[c]" s] by (simp add: undecimal_def)

lemma undecimal_less: "\<forall>c \<in> set s. is_digit c \<Longrightarrow> undecimal s < 10 ^ length s"
proof (induction s)
  case (Cons c s)
  then have "48 \<le> c \<and> c \<le> 57" by (simp add: is_digit_def)
  then have "c - 48 \<le> 9" by linarith
  then have "(c - 48) * 10 ^ length s \<le> 9 * 10 ^ length s" by (rule mult_right_mono) simp
  moreover have "undecimal s < 10 ^ length s" using Cons by simp
  ultimately have "(c - 48) * 10 ^ length s + undecimal s < 10 * 10 ^ length s" by linarith
  then show ?case by (simp add: undecimal_Cons)
qed (simp add: undecimal_def)

text \<open>Digit texts of one length are ordered as their numbers.\<close>

lemma digits_order:
  "length s = length t \<Longrightarrow> \<forall>c \<in> set s. is_digit c \<Longrightarrow> \<forall>c \<in> set t. is_digit c \<Longrightarrow> s < t \<longleftrightarrow> undecimal s < undecimal t"
proof (induction s arbitrary: t)
  case (Cons c s)
  then obtain e u where t: "t = e # u" "length u = length s" by (cases t) auto
  have us: "undecimal s < 10 ^ length s" "undecimal u < 10 ^ length s"
    using Cons.prems t undecimal_less [of s] undecimal_less [of u] by simp_all
  have ce: "48 \<le> c" "48 \<le> e" using Cons.prems t by (auto simp: is_digit_def)
  have lt: "x * w + a < y * w + b" if "x < y" "a < w" for x y w a b :: nat
  proof -
    have "Suc x * w \<le> y * w" using that(1) by (intro mult_right_mono) simp_all
    with that(2) show ?thesis by simp
  qed
  have "undecimal (c # s) < undecimal (e # u) \<longleftrightarrow> c < e \<or> c = e \<and> undecimal s < undecimal u"
    using lt [of "c - 48" "e - 48" "undecimal s" "10 ^ length s" "undecimal u"]
      lt [of "e - 48" "c - 48" "undecimal u" "10 ^ length s" "undecimal s"] us ce t(2)
    by (cases c e rule: linorder_cases) (auto simp: undecimal_Cons diff_less_mono)
  with Cons t show ?case by simp
qed simp

lemma append_order:
  "length s = length t \<Longrightarrow> s @ s' < t @ t' \<longleftrightarrow> s < t \<or> s = t \<and> s' < t'" for s t s' t' :: jsstring
  by (induction s t rule: list_induct2) auto

lemma decimal_width: "n < 10 ^ w \<Longrightarrow> 0 < w \<Longrightarrow> length (decimal n) \<le> w"
proof (induction n arbitrary: w rule: decimal.induct)
  case (1 n)
  show ?case
  proof (cases "n < 10")
    case False
    with "1.prems" obtain w' where w: "w = Suc w'" "0 < w'" by (cases w; cases "w - 1") auto
    have "n div 10 < 10 ^ w'" using "1.prems" w by (simp add: div_less_iff_less_mult mult.commute)
    with "1.IH" False w show ?thesis by simp
  qed (use "1.prems" in simp)
qed

lemma pad_facts:
  assumes "n < 10 ^ w" "0 < w"
  shows "length (pad w n) = w" "undecimal (pad w n) = n" "\<forall>c \<in> set (pad w n). is_digit c"
  using decimal_width [OF assms] decimal_digits
  by (auto simp: pad_def undecimal_append is_digit_def)

lemma pad_order: "a < 10 ^ w \<Longrightarrow> b < 10 ^ w \<Longrightarrow> 0 < w \<Longrightarrow> (pad w a < pad w b \<longleftrightarrow> a < b) \<and> (pad w a = pad w b \<longleftrightarrow> a = b)"
  using digits_order [of "pad w a" "pad w b"] pad_facts [of a w] pad_facts [of b w] by metis

lemma date_text_plain:
  assumes "0 \<le> y" "y \<le> 9999" "valid_date y m d"
  shows "date_text y m d = pad 4 (nat y) @ 45 # pad 2 (nat (m + 1)) @ 45 # pad 2 (nat d)"
proof -
  have "nat y < 10 ^ 4" "nat (m + 1) < 10 ^ 2" "nat d < 10 ^ 2"
    using assms month_length_bounds [of m y] by (auto simp: valid_date_def)
  then show ?thesis using assms pad_facts(1) by (simp add: date_text_def js_simps)
qed

lemma date_text_order:
  assumes "valid_date y m d" "valid_date z n e" "0 \<le> y" "y \<le> 9999" "0 \<le> z" "z \<le> 9999"
  shows "date_text y m d < date_text z n e \<longleftrightarrow> y < z \<or> y = z \<and> (m < n \<or> m = n \<and> d < e)"
proof -
  have b: "nat y < 10 ^ 4" "nat z < 10 ^ 4" "nat (m + 1) < 10 ^ 2" "nat (n + 1) < 10 ^ 2" "nat d < 10 ^ 2" "nat e < 10 ^ 2"
    and p: "0 \<le> m" "0 \<le> n" "0 \<le> d" "0 \<le> e"
    using assms month_length_bounds [of m y] month_length_bounds [of n z] by (auto simp: valid_date_def)
  have l: "length (pad 4 (nat y)) = length (pad 4 (nat z))" "length (pad 2 (nat (m + 1))) = length (pad 2 (nat (n + 1)))"
    using b pad_facts(1) by simp_all
  have "date_text y m d < date_text z n e \<longleftrightarrow> nat y < nat z
      \<or> nat y = nat z \<and> (nat (m + 1) < nat (n + 1) \<or> nat (m + 1) = nat (n + 1) \<and> nat d < nat e)"
    using assms b by (simp add: date_text_plain append_order [OF l(1)] append_order [OF l(2)] pad_order)
  with assms p show ?thesis by auto
qed

lemma make_day_year: "valid_date y m d \<Longrightarrow> day_from_year y \<le> make_day y m d \<and> make_day y m d < day_from_year (y + 1)"
proof -
  assume "valid_date y m d"
  then have "year_of_day (make_day y m d) = y"
    using civil_make_day [of y m d] by (auto simp: civil_def Let_def split: prod.splits)
  then show ?thesis using year_of_day_bounds [of "make_day y m d"] by simp
qed

lemma month_start_next: "k < l \<Longrightarrow> l < 12 \<Longrightarrow> month_start leap k + month_lengths leap ! k \<le> month_start leap l"
proof -
  assume kl: "k < l" "l < 12"
  let ?ls = "month_lengths leap"
  have len: "length ?ls = 12" "\<forall>x \<in> set ?ls. 0 \<le> x" by (simp_all add: month_lengths_def)
  have "take l ?ls = take (Suc k) ?ls @ take (l - Suc k) (drop (Suc k) ?ls)"
    using kl take_add [of "Suc k" "l - Suc k" ?ls] by simp
  moreover have "0 \<le> sum_list (take (l - Suc k) (drop (Suc k) ?ls))"
    using len(2) by (intro sum_list_nonneg) (auto dest!: in_set_takeD in_set_dropD)
  ultimately show ?thesis using kl len(1) by (simp add: month_start_def take_Suc_conv_app_nth)
qed

lemma make_day_less:
  assumes "valid_date y m d" "valid_date z n e" "y < z \<or> y = z \<and> (m < n \<or> m = n \<and> d < e)"
  shows "make_day y m d < make_day z n e"
  using assms(3)
proof (elim disjE conjE)
  assume "y < z"
  then show ?thesis
    using make_day_year [OF assms(1)] make_day_year [OF assms(2)] day_from_year_mono [of "y + 1" z] by linarith
next
  assume yz: "y = z" and mn: "m < n"
  have v: "0 \<le> m" "n < 12" "d \<le> month_lengths (leap_year z) ! nat m" "1 \<le> e"
    using assms(1,2) yz by (auto simp: valid_date_def month_length_def)
  then have "month_start (leap_year z) (nat m) + month_lengths (leap_year z) ! nat m \<le> month_start (leap_year z) (nat n)"
    using mn by (intro month_start_next) auto
  with v mn yz show ?thesis by (simp add: make_day_def)
next
  assume "y = z" "m = n" "d < e"
  then show ?thesis by (simp add: make_day_def Let_def)
qed

text \<open>
  Comparing the texts of two dates compares the dates: for the years 0 to 9999 the order of
  code units on YYYY-MM-DD, by which the code skips old keys, picks the latest snapshot and sorts
  days, is the order of the day numbers, and a date and its day number determine each other.
\<close>

theorem date_order:
  assumes "valid_date y m d" "valid_date z n e" "0 \<le> y" "y \<le> 9999" "0 \<le> z" "z \<le> 9999"
  shows "(date_text y m d < date_text z n e \<longleftrightarrow> make_day y m d < make_day z n e)
     \<and> iso_day (make_day y m d * MS_PER_DAY) = date_text y m d"
proof
  show "date_text y m d < date_text z n e \<longleftrightarrow> make_day y m d < make_day z n e"
    unfolding date_text_order [OF assms]
    using make_day_less [OF assms(1,2)] make_day_less [OF assms(2,1)] by (metis linorder_neqE not_less_iff_gr_or_eq)
  show "iso_day (make_day y m d * MS_PER_DAY) = date_text y m d"
    by (simp add: iso_day_def MS_PER_DAY_def civil_make_day [OF assms(1)])
qed

theorem date_order_witness:
  "(date_text 2023 11 31 < date_text 2024 0 1 \<longleftrightarrow> make_day 2023 11 31 < make_day 2024 0 1)
     \<and> iso_day (make_day 2023 11 31 * MS_PER_DAY) = date_text 2023 11 31"
  by (rule date_order) (simp_all add: valid_date_def month_length_def month_lengths_def)

end
