(* ===== verification/Report_Scan.thy ===== *)
theory Report_Scan
  imports Usage_Rows Civil_Date
begin

text \<open>
  The bounded scan of the usage-report bucket, from \<open>src/b2/insights.ts\<close> and
  \<open>src/b2/report-client.ts\<close>: the scan budget, the listing loops, the download loop, the search for the
  latest snapshot, and the reader of an object body with its byte cap. The bucket and the clock are
  the world \<open>'w\<close>, a parameter: \<open>report_io\<close> lists the three calls that the loops make, each of
  which may change the world. The locale \<open>bounded_reports\<close> is the contract between the loops and the
  client, that a download never returns more than the bytes asked for; the code's own reader
  provides it.
\<close>

section \<open>The client\<close>

record report_error =
  re_name :: "jsstring option"
  re_status :: "int option"

definition is404 :: "report_error \<Rightarrow> bool" where
  "is404 e \<longleftrightarrow> re_name e = Some (js ''NoSuchBucket'') \<or> re_status e = Some 404"

record report_page =
  page_keys :: "jsstring list"
  page_truncated :: bool
  page_next :: "jsstring option"

record report_object =
  obj_text :: jsstring
  obj_bytes :: nat
  obj_truncated :: bool

record list_request =
  lr_prefix :: "jsstring option"
  lr_after :: "jsstring option"
  lr_token :: "jsstring option"
  lr_max_keys :: nat
  lr_timeout :: int

record 'w report_io =
  read_clock :: "'w \<Rightarrow> int \<times> 'w"
  list_report_keys :: "list_request \<Rightarrow> 'w \<Rightarrow> (report_error + report_page) \<times> 'w"
  download_report :: "jsstring \<Rightarrow> int \<Rightarrow> int \<Rightarrow> 'w \<Rightarrow> (report_error + report_object) \<times> 'w"

subsection \<open>Reading a body\<close>

text \<open>
  A body is the list of its chunks; a failing read is an error in the list. The bytes that were
  appended determine the text, because a streaming decoder that is flushed at the end gives the
  text of the concatenation; the decoder is the platform's, the parameter \<open>decode\<close>.
\<close>

type_synonym report_body = "(report_error + nat list) list"

record read_state =
  rs_bytes :: "nat list"
  rs_truncated :: bool

definition appendReportChunk :: "nat \<Rightarrow> nat list \<Rightarrow> read_state \<Rightarrow> bool \<times> read_state" where
  "appendReportChunk limit chunk st =
     (let remaining = int limit - int (length (rs_bytes st)) in
      if remaining \<le> 0 then (False, st\<lparr> rs_truncated := True \<rparr>)
      else if remaining < int (length chunk) then
        (False, st\<lparr> rs_bytes := rs_bytes st @ take (nat remaining) chunk, rs_truncated := True \<rparr>)
      else (True, st\<lparr> rs_bytes := rs_bytes st @ chunk \<rparr>))"

fun read_chunks :: "nat \<Rightarrow> read_state \<Rightarrow> report_body \<Rightarrow> report_error + read_state" where
  "read_chunks limit st [] = Inr st"
| "read_chunks limit st (c # cs) =
     (case c of Inl e \<Rightarrow> Inl e
      | Inr bytes \<Rightarrow> (case appendReportChunk limit bytes st of
          (go, st') \<Rightarrow> (if go then read_chunks limit st' cs else Inr st')))"

definition plain_error :: report_error where
  "plain_error = \<lparr> re_name = Some (js ''Error''), re_status = None \<rparr>"

definition readReportObjectBodyText ::
  "(nat list \<Rightarrow> jsstring) \<Rightarrow> report_body option \<Rightarrow> int \<Rightarrow> report_error + report_object" where
  "readReportObjectBodyText decode body maxBytes =
     (case body of None \<Rightarrow> Inl plain_error
      | Some cs \<Rightarrow>
          (let limit = nat (max 0 maxBytes) in
           if limit = 0 then Inr \<lparr> obj_text = [], obj_bytes = 0, obj_truncated = False \<rparr>
           else case read_chunks limit \<lparr> rs_bytes = [], rs_truncated = False \<rparr> cs of
             Inl e \<Rightarrow> Inl e
           | Inr st \<Rightarrow> Inr \<lparr> obj_text = decode (rs_bytes st), obj_bytes = length (rs_bytes st),
               obj_truncated = rs_truncated st \<rparr>))"

text \<open>
  \<open>B2ReportClient\<close> over the S3 calls: the fetch of an object gives its body. The circuit and the
  deadline of a call are part of the call, which fails when they do.
\<close>

record 'w s3_reports =
  s3_clock :: "'w \<Rightarrow> int \<times> 'w"
  s3_list :: "list_request \<Rightarrow> 'w \<Rightarrow> (report_error + report_page) \<times> 'w"
  s3_fetch :: "jsstring \<Rightarrow> int \<Rightarrow> 'w \<Rightarrow> (report_error + report_body option) \<times> 'w"

definition b2_report_client :: "(nat list \<Rightarrow> jsstring) \<Rightarrow> 'w s3_reports \<Rightarrow> 'w report_io" where
  "b2_report_client decode s3 =
     \<lparr> read_clock = s3_clock s3, list_report_keys = s3_list s3,
       download_report = (\<lambda>key maxBytes timeout w.
         (case s3_fetch s3 key timeout w of
            (Inl e, w') \<Rightarrow> (Inl e, w')
          | (Inr body, w') \<Rightarrow> (readReportObjectBodyText decode body maxBytes, w'))) \<rparr>"

section \<open>The scan budget\<close>

definition maxPages :: nat where "maxPages = 100"
definition maxCandidateKeys :: nat where "maxCandidateKeys = 5000"
definition maxSelectedKeys :: nat where "maxSelectedKeys = 1000"
definition maxDownloadedBytes :: nat where "maxDownloadedBytes = 25 * 1024 * 1024"
definition maxRows :: nat where "maxRows = 100000"
definition maxElapsedMs :: int where "maxElapsedMs = 12000"
definition maxKeysPerPage :: nat where "maxKeysPerPage = 1000"

lemmas scan_limits = maxPages_def maxCandidateKeys_def maxSelectedKeys_def maxDownloadedBytes_def
  maxRows_def maxElapsedMs_def maxKeysPerPage_def

datatype stop_reason = TimeBudget | MaxPages | MaxCandidateKeys | MaxSelectedKeys | MaxDownloadedBytes | MaxRows

record scan_stats =
  pages :: nat
  listed_keys :: nat
  candidate_keys :: nat
  selected_keys :: nat
  downloaded_keys :: nat
  downloaded_bytes :: nat
  parsed_rows :: nat
  stop_reason :: "stop_reason option"

definition newReportStats :: scan_stats where
  "newReportStats = \<lparr> pages = 0, listed_keys = 0, candidate_keys = 0, selected_keys = 0,
     downloaded_keys = 0, downloaded_bytes = 0, parsed_rows = 0, stop_reason = None \<rparr>"

definition stopReportScan :: "stop_reason \<Rightarrow> scan_stats \<Rightarrow> scan_stats" where
  "stopReportScan why st = (case stop_reason st of None \<Rightarrow> st\<lparr> stop_reason := Some why \<rparr> | Some _ \<Rightarrow> st)"

definition reportScanTimedOut :: "'w report_io \<Rightarrow> int \<Rightarrow> 'w \<Rightarrow> bool \<times> 'w" where
  "reportScanTimedOut io t0 w = (case read_clock io w of (t, w') \<Rightarrow> (maxElapsedMs \<le> t - t0, w'))"

definition reportScanRemainingMs :: "'w report_io \<Rightarrow> int \<Rightarrow> 'w \<Rightarrow> int \<times> 'w" where
  "reportScanRemainingMs io t0 w = (case read_clock io w of (t, w') \<Rightarrow> (max 1 (maxElapsedMs - (t - t0)), w'))"

definition ensureReportPageBudget :: "'w report_io \<Rightarrow> int \<Rightarrow> scan_stats \<Rightarrow> 'w \<Rightarrow> bool \<times> scan_stats \<times> 'w" where
  "ensureReportPageBudget io t0 st w =
     (case reportScanTimedOut io t0 w of (late, w') \<Rightarrow>
        (if late then (False, stopReportScan TimeBudget st, w')
         else if maxPages \<le> pages st then (False, stopReportScan MaxPages st, w')
         else (True, st, w')))"

section \<open>Choosing keys\<close>

definition line_break :: "nat \<Rightarrow> bool" where
  "line_break c \<longleftrightarrow> c = 10 \<or> c = 13 \<or> c = 8232 \<or> c = 8233"

text \<open>\<open>^\d{4}-\d{2}-\d{2}\/.+\.csv$\<close>\<close>

definition report_day_csv :: "jsstring \<Rightarrow> bool" where
  "report_day_csv k \<longleftrightarrow> iso_date (take 10 k) \<and> 16 \<le> length k \<and> k ! 10 = 47 \<and> suffix (js ''.csv'') k
     \<and> (\<forall>c \<in> set (take (length k - 15) (drop 11 k)). \<not> line_break c)"

definition snapshotDateOf :: "jsstring \<Rightarrow> jsstring option" where
  "snapshotDateOf k = (if iso_date (take 10 k) \<and> 10 < length k \<and> k ! 10 = 47 then Some (take 10 k) else None)"

text \<open>\<open>/word/i\<close> for a word of ASCII letters.\<close>

definition includes_ci :: "jsstring \<Rightarrow> jsstring \<Rightarrow> bool" where
  "includes_ci word k \<longleftrightarrow> js_includes (ascii_lower k) word"

definition selectUsageKeys :: "jsstring list \<Rightarrow> jsstring list" where
  "selectUsageKeys ks =
     (let usage = filter (\<lambda>k. includes_ci (js ''usage'') k \<and> \<not> includes_ci (js ''audit'') k
            \<and> \<not> includes_ci (js ''reportinglocations'') k) ks in
      if usage \<noteq> [] then usage else filter (\<lambda>k. \<not> includes_ci (js ''audit'') k) ks)"

section \<open>Listing\<close>

text \<open>
  The body of the three listing loops. They differ in the keys they keep and in whether the number
  of candidates is written to the counters.
\<close>

fun collect_keys :: "(jsstring \<Rightarrow> bool) \<Rightarrow> jsstring list \<Rightarrow> jsstring list \<Rightarrow> scan_stats \<Rightarrow> jsstring list \<times> scan_stats" where
  "collect_keys keep [] keys st = (keys, st)"
| "collect_keys keep (k # ks) keys st =
     (if \<not> keep k then collect_keys keep ks keys st
      else if maxCandidateKeys \<le> length keys then (keys, stopReportScan MaxCandidateKeys st)
      else collect_keys keep ks (keys @ [k]) st)"

definition list_page :: "'w report_io \<Rightarrow> int \<Rightarrow> list_request \<Rightarrow> jsstring option \<Rightarrow> 'w
    \<Rightarrow> (report_error + report_page) \<times> 'w" where
  "list_page io t0 req token w =
     (case reportScanRemainingMs io t0 w of (ms, w') \<Rightarrow>
        list_report_keys io (req\<lparr> lr_token := token, lr_timeout := ms \<rparr>) w')"

definition note_page :: "(jsstring \<Rightarrow> bool) \<Rightarrow> bool \<Rightarrow> report_page \<Rightarrow> jsstring list \<Rightarrow> scan_stats \<Rightarrow> jsstring list \<times> scan_stats" where
  "note_page keep counted page keys st =
     (case collect_keys keep (page_keys page) keys
         (st\<lparr> pages := pages st + 1, listed_keys := listed_keys st + length (page_keys page) \<rparr>) of
        (keys', st') \<Rightarrow> (keys', if counted then st'\<lparr> candidate_keys := length keys' \<rparr> else st'))"

definition next_token :: "report_page \<Rightarrow> jsstring option" where
  "next_token page = (if page_truncated page then nonempty (page_next page) else None)"

lemma stopReportScan_fields [simp]:
  "pages (stopReportScan why st) = pages st" "listed_keys (stopReportScan why st) = listed_keys st"
  "candidate_keys (stopReportScan why st) = candidate_keys st" "selected_keys (stopReportScan why st) = selected_keys st"
  "downloaded_keys (stopReportScan why st) = downloaded_keys st" "downloaded_bytes (stopReportScan why st) = downloaded_bytes st"
  "parsed_rows (stopReportScan why st) = parsed_rows st" 
  "stop_reason (stopReportScan why st) = Some (case stop_reason st of None \<Rightarrow> why | Some r \<Rightarrow> r)"
  by (auto simp: stopReportScan_def split: option.splits)

lemma collect_keys_pages [simp]: "collect_keys keep ks keys st = (keys', st') \<Longrightarrow> pages st' = pages st"
  by (induction keep ks keys st rule: collect_keys.induct) (auto split: if_splits)

lemma note_page_pages: "note_page keep counted page keys st = (keys', st') \<Longrightarrow> pages st' = Suc (pages st)"
  by (auto simp: note_page_def split: prod.splits if_splits dest: collect_keys_pages)

lemma page_budget_ok: "ensureReportPageBudget io t0 st w = (True, st', w') \<Longrightarrow> st' = st \<and> pages st < maxPages"
  by (auto simp: ensureReportPageBudget_def split: prod.splits if_splits)

function list_pages :: "'w report_io \<Rightarrow> int \<Rightarrow> list_request \<Rightarrow> (jsstring \<Rightarrow> bool) \<Rightarrow> bool \<Rightarrow> jsstring option
    \<Rightarrow> jsstring list \<Rightarrow> scan_stats \<Rightarrow> 'w \<Rightarrow> (report_error + jsstring list) \<times> scan_stats \<times> 'w" where
  "list_pages io t0 req keep counted token keys st w =
     (case ensureReportPageBudget io t0 st w of (go, st1, w1) \<Rightarrow>
        (if \<not> go then (Inr keys, st1, w1)
         else case list_page io t0 req token w1 of
           (Inl e, w2) \<Rightarrow> (Inl e, st1, w2)
         | (Inr page, w2) \<Rightarrow>
             (case note_page keep counted page keys st1 of (keys', st2) \<Rightarrow>
                (if stop_reason st2 \<noteq> None \<or> next_token page = None then (Inr keys', st2, w2)
                 else list_pages io t0 req keep counted (next_token page) keys' st2 w2))))"
  by pat_completeness auto
termination
  by (relation "measure (\<lambda>(io, t0, req, keep, counted, token, keys, st, w). maxPages - pages st)")
    (auto dest!: note_page_pages [OF sym] page_budget_ok [OF sym])

declare list_pages.simps [simp del]

section \<open>Downloading\<close>

text \<open>The rows of one text: at most \<open>maxRows\<close> in all, the flag says that the limit was reached.\<close>

fun add_rows :: "csv_map list \<Rightarrow> report_row list \<Rightarrow> scan_stats \<Rightarrow> bool \<times> report_row list \<times> scan_stats" where
  "add_rows [] rows st = (True, rows, st)"
| "add_rows (raw # raws) rows st =
     (case mapRow raw of None \<Rightarrow> add_rows raws rows st
      | Some r \<Rightarrow>
          (if maxRows \<le> length rows then (False, rows, stopReportScan MaxRows st)
           else add_rows raws (rows @ [r]) (st\<lparr> parsed_rows := parsed_rows st + 1 \<rparr>)))"

fun download_keys :: "'w report_io \<Rightarrow> int \<Rightarrow> jsstring list \<Rightarrow> report_row list \<Rightarrow> scan_stats \<Rightarrow> 'w
    \<Rightarrow> (report_error + report_row list) \<times> scan_stats \<times> 'w" where
  "download_keys io t0 [] rows st w = (Inr rows, st, w)"
| "download_keys io t0 (k # ks) rows st w =
     (case reportScanTimedOut io t0 w of (late, w1) \<Rightarrow>
        (if late then (Inr rows, stopReportScan TimeBudget st, w1)
         else
           let remaining = int maxDownloadedBytes - int (downloaded_bytes st) in
           if remaining \<le> 0 then (Inr rows, stopReportScan MaxDownloadedBytes st, w1)
           else case reportScanRemainingMs io t0 w1 of (ms, w2) \<Rightarrow>
             (case download_report io k remaining ms w2 of
                (Inl e, w3) \<Rightarrow> (Inl e, st, w3)
              | (Inr obj, w3) \<Rightarrow>
                  let st1 = st\<lparr> downloaded_keys := downloaded_keys st + 1,
                        downloaded_bytes := downloaded_bytes st + obj_bytes obj \<rparr> in
                  if obj_truncated obj \<or> maxDownloadedBytes < downloaded_bytes st1
                  then (Inr rows, stopReportScan MaxDownloadedBytes st1, w3)
                  else case add_rows (parseCsv (obj_text obj)) rows st1 of
                    (go, rows', st2) \<Rightarrow>
                      (if go then download_keys io t0 ks rows' st2 w3 else (Inr rows', st2, w3)))))"

definition loadRowsFromReportKeys :: "'w report_io \<Rightarrow> int \<Rightarrow> jsstring list \<Rightarrow> scan_stats \<Rightarrow> 'w
    \<Rightarrow> (report_error + report_row list) \<times> scan_stats \<times> 'w" where
  "loadRowsFromReportKeys io t0 keys st w =
     (let selected = selectUsageKeys keys; bounded = take maxSelectedKeys selected;
          capped = length bounded < length selected;
          st0 = st\<lparr> selected_keys := length bounded \<rparr> in
      case (if stop_reason st0 = Some TimeBudget then (Inr [], st0, w)
            else download_keys io t0 bounded [] st0 w) of
        (Inl e, st1, w1) \<Rightarrow> (Inl e, st1, w1)
      | (Inr rows, st1, w1) \<Rightarrow>
          (Inr rows, if capped \<and> stop_reason st1 = None then stopReportScan MaxSelectedKeys st1 else st1, w1))"

text \<open>\<open>None\<close> is the null result: the bucket does not exist.\<close>

definition loadReportRows :: "'w report_io \<Rightarrow> int \<Rightarrow> jsstring \<Rightarrow> scan_stats \<Rightarrow> 'w
    \<Rightarrow> (report_error + report_row list option) \<times> scan_stats \<times> 'w" where
  "loadReportRows io t0 sinceDate st w =
     (case list_pages io t0 \<lparr> lr_prefix = None, lr_after = Some sinceDate, lr_token = None,
          lr_max_keys = maxKeysPerPage, lr_timeout = 0 \<rparr>
        (\<lambda>k. report_day_csv k \<and> \<not> take 10 k < sinceDate) True None [] st w of
        (Inl e, st1, w1) \<Rightarrow> (if is404 e then Inr None else Inl e, st1, w1)
      | (Inr keys, st1, w1) \<Rightarrow>
          (case loadRowsFromReportKeys io t0 keys st1 w1 of
             (Inl e, st2, w2) \<Rightarrow> (Inl e, st2, w2)
           | (Inr rows, st2, w2) \<Rightarrow> (Inr (Some rows), st2, w2)))"

definition loadDayRowsBounded :: "'w report_io \<Rightarrow> int \<Rightarrow> jsstring \<Rightarrow> scan_stats \<Rightarrow> 'w
    \<Rightarrow> (report_error + report_row list) \<times> scan_stats \<times> 'w" where
  "loadDayRowsBounded io t0 dayDate st w =
     (case list_pages io t0 \<lparr> lr_prefix = Some (dayDate @ js ''/''), lr_after = None, lr_token = None,
          lr_max_keys = maxKeysPerPage, lr_timeout = 0 \<rparr>
        (\<lambda>k. suffix (js ''.csv'') (ascii_lower k)) True None [] st w of
        (Inl e, st1, w1) \<Rightarrow> (Inl e, st1, w1)
      | (Inr keys, st1, w1) \<Rightarrow> loadRowsFromReportKeys io t0 keys st1 w1)"

section \<open>The latest snapshot\<close>

definition SNAPSHOT_LOOKBACK_DAYS :: "int list" where
  "SNAPSHOT_LOOKBACK_DAYS = [10, 45, 180]"

record snapshot_search =
  ss_date :: "jsstring option"
  ss_bucket_missing :: bool
  ss_searched_since :: "jsstring option"

text \<open>The largest date of the keys.\<close>

definition max_date :: "jsstring list \<Rightarrow> jsstring option" where
  "max_date ks = foldl (\<lambda>best k. case snapshotDateOf k of None \<Rightarrow> best
     | Some d \<Rightarrow> (case best of None \<Rightarrow> Some d | Some b \<Rightarrow> (if b < d then Some d else best))) None ks"

fun latest_in :: "'w report_io \<Rightarrow> int \<Rightarrow> int \<Rightarrow> int list \<Rightarrow> scan_stats \<Rightarrow> 'w
    \<Rightarrow> (report_error + snapshot_search) \<times> scan_stats \<times> 'w" where
  "latest_in io t0 today [] st w =
     (Inr \<lparr> ss_date = None, ss_bucket_missing = False,
        ss_searched_since = (if stop_reason st = None then Some (daysAgo (last SNAPSHOT_LOOKBACK_DAYS) today) else None) \<rparr>,
      st, w)"
| "latest_in io t0 today (lookback # ls) st w =
     (case list_pages io t0 \<lparr> lr_prefix = None, lr_after = Some (daysAgo lookback today), lr_token = None,
          lr_max_keys = maxKeysPerPage, lr_timeout = 0 \<rparr> report_day_csv False None [] st w of
        (Inl e, st1, w1) \<Rightarrow>
          (if is404 e then Inr \<lparr> ss_date = None, ss_bucket_missing = True, ss_searched_since = None \<rparr> else Inl e, st1, w1)
      | (Inr candidates, st1, w1) \<Rightarrow>
          (if stop_reason st1 \<noteq> None then latest_in io t0 today [] st1 w1
           else case max_date (selectUsageKeys candidates) of
             Some d \<Rightarrow> (Inr \<lparr> ss_date = Some d, ss_bucket_missing = False, ss_searched_since = None \<rparr>, st1, w1)
           | None \<Rightarrow> latest_in io t0 today ls st1 w1))"

definition latestSnapshotDate :: "'w report_io \<Rightarrow> int \<Rightarrow> int \<Rightarrow> scan_stats \<Rightarrow> 'w
    \<Rightarrow> (report_error + snapshot_search) \<times> scan_stats \<times> 'w" where
  "latestSnapshotDate io t0 today st w = latest_in io t0 today SNAPSHOT_LOOKBACK_DAYS st w"

definition nearestSnapshotDate :: "'w report_io \<Rightarrow> int \<Rightarrow> jsstring \<Rightarrow> scan_stats \<Rightarrow> 'w
    \<Rightarrow> (report_error + snapshot_search) \<times> scan_stats \<times> 'w" where
  "nearestSnapshotDate io t0 target st w =
     (case ensureReportPageBudget io t0 st w of (go, st1, w1) \<Rightarrow>
        (if \<not> go then (Inr \<lparr> ss_date = None, ss_bucket_missing = False, ss_searched_since = None \<rparr>, st1, w1)
         else case list_page io t0 \<lparr> lr_prefix = None, lr_after = Some target, lr_token = None,
             lr_max_keys = 1, lr_timeout = 0 \<rparr> None w1 of
           (Inl e, w2) \<Rightarrow>
             (if is404 e then Inr \<lparr> ss_date = None, ss_bucket_missing = True, ss_searched_since = None \<rparr> else Inl e, st1, w2)
         | (Inr page, w2) \<Rightarrow>
             (Inr \<lparr> ss_date = (case page_keys page of [] \<Rightarrow> snapshotDateOf [] | k # _ \<Rightarrow> snapshotDateOf k),
                ss_bucket_missing = False, ss_searched_since = None \<rparr>,
              st1\<lparr> pages := pages st1 + 1, listed_keys := listed_keys st1 + length (page_keys page) \<rparr>, w2)))"

section \<open>What a body read gives\<close>

definition body_bytes :: "report_body \<Rightarrow> nat list" where
  "body_bytes cs = concat (List.map_filter (\<lambda>c. case c of Inl e \<Rightarrow> None | Inr b \<Rightarrow> Some b) cs)"

lemma body_bytes_simps [simp]:
  "body_bytes [] = []" "body_bytes (Inr b # cs) = b @ body_bytes cs" "body_bytes (Inl e # cs) = body_bytes cs"
  by (simp_all add: body_bytes_def List.map_filter_simps)

lemma append_chunk_cases:
  assumes "appendReportChunk limit chunk st = (go, st')" "length (rs_bytes st) \<le> limit"
  shows "length (rs_bytes st') \<le> limit" "prefix (rs_bytes st') (rs_bytes st @ chunk)"
    "go \<Longrightarrow> rs_bytes st' = rs_bytes st @ chunk \<and> rs_truncated st' = rs_truncated st" "\<not> go \<Longrightarrow> rs_truncated st'"
  using assms by (auto simp: appendReportChunk_def Let_def take_is_prefix split: if_splits)

lemma read_chunks_prefix:
  "read_chunks limit st cs = Inr st' \<Longrightarrow> length (rs_bytes st) \<le> limit \<Longrightarrow>
     length (rs_bytes st') \<le> limit \<and> prefix (rs_bytes st') (rs_bytes st @ body_bytes cs)
     \<and> (\<not> rs_truncated st' \<longrightarrow> rs_bytes st' = rs_bytes st @ body_bytes cs)"
proof (induction limit st cs rule: read_chunks.induct)
  case (2 limit st c cs)
  obtain b where c: "c = Inr b" using "2.prems"(1) by (cases c) auto
  obtain go st1 where a: "appendReportChunk limit b st = (go, st1)" by fastforce
  note f = append_chunk_cases [OF a "2.prems"(2)]
  show ?case
  proof (cases go)
    case True
    then have "read_chunks limit st1 cs = Inr st'" using "2.prems"(1) a c by simp
    from "2.IH" [OF c a [symmetric] True this f(1)] f(3) [OF True] c show ?thesis by simp
  next
    case False
    then have "st' = st1" using "2.prems"(1) a c by simp
    moreover have "prefix (rs_bytes st1) ((rs_bytes st @ b) @ body_bytes cs)" using f(2) by (rule prefix_prefix)
    ultimately show ?thesis using f(1,4) c False by simp
  qed
qed simp

lemma read_body_bytes:
  "readReportObjectBodyText decode body maxBytes = Inr obj \<Longrightarrow> obj_bytes obj \<le> nat maxBytes"
  using read_chunks_prefix [of "nat (max 0 maxBytes)" "\<lparr> rs_bytes = [], rs_truncated = False \<rparr>"]
  by (auto simp: readReportObjectBodyText_def Let_def split: option.splits sum.splits if_splits)

text \<open>
  Reading a report object never takes more bytes than the caller allows: the text is the
  decoding of a prefix of the object's bytes of at most that length, and a positive limit that was
  not reported as hit means that the whole object was read. A limit of zero gives the empty text
  and is not reported as a truncation.
\<close>

theorem report_body_bounded:
  "case readReportObjectBodyText decode body maxBytes of
     Inl e \<Rightarrow> body = None \<or> (\<exists>e. Inl e \<in> set (the body))
   | Inr obj \<Rightarrow> (\<exists>bs. prefix bs (body_bytes (the body)) \<and> int (length bs) \<le> max 0 maxBytes \<and> obj_bytes obj = length bs
        \<and> (0 < maxBytes \<longrightarrow> obj_text obj = decode bs \<and> (obj_truncated obj \<or> bs = body_bytes (the body)))
        \<and> (maxBytes \<le> 0 \<longrightarrow> obj_text obj = [] \<and> \<not> obj_truncated obj))"
proof (cases "readReportObjectBodyText decode body maxBytes")
  case (Inl e)
  have "\<exists>e. Inl e \<in> set cs" if "read_chunks limit st cs = Inl e" for limit st cs
    using that by (induction limit st cs rule: read_chunks.induct) (auto split: sum.splits prod.splits if_splits)
  with Inl show ?thesis
    by (auto simp: readReportObjectBodyText_def Let_def split: option.splits sum.splits if_splits)
next
  case (Inr obj)
  then obtain cs where cs: "body = Some cs" by (cases body) (auto simp: readReportObjectBodyText_def)
  show ?thesis
  proof (cases "0 < maxBytes")
    case True
    then obtain st where "read_chunks (nat maxBytes) \<lparr> rs_bytes = [], rs_truncated = False \<rparr> cs = Inr st"
        "obj = \<lparr> obj_text = decode (rs_bytes st), obj_bytes = length (rs_bytes st), obj_truncated = rs_truncated st \<rparr>"
      using Inr cs by (auto simp: readReportObjectBodyText_def Let_def max_def split: sum.splits)
    with read_chunks_prefix [OF this(1)] True Inr cs show ?thesis
      by (auto intro!: exI [of _ "rs_bytes st"])
  next
    case False
    with Inr cs have "obj = \<lparr> obj_text = [], obj_bytes = 0, obj_truncated = False \<rparr>"
      by (simp add: readReportObjectBodyText_def)
    with Inr False show ?thesis by (auto intro!: exI [of _ "[]"])
  qed
qed

section \<open>Within the limits\<close>

definition within_limits :: "scan_stats \<Rightarrow> bool" where
  "within_limits st \<longleftrightarrow> pages st \<le> maxPages \<and> candidate_keys st \<le> maxCandidateKeys
     \<and> selected_keys st \<le> maxSelectedKeys \<and> downloaded_bytes st \<le> maxDownloadedBytes"

lemma within_limits_new [simp]: "within_limits newReportStats"
  by (simp add: within_limits_def newReportStats_def)

lemma within_limits_stop [simp]: "within_limits (stopReportScan why st) \<longleftrightarrow> within_limits st"
  by (simp add: within_limits_def)

lemma within_limits_rows [simp]: "within_limits (st\<lparr> parsed_rows := n \<rparr>) \<longleftrightarrow> within_limits st"
  by (simp add: within_limits_def)

text \<open>Which counters a step leaves alone.\<close>

definition same_downloads :: "scan_stats \<Rightarrow> scan_stats \<Rightarrow> bool" where
  "same_downloads st st' \<longleftrightarrow> selected_keys st' = selected_keys st \<and> downloaded_keys st' = downloaded_keys st
     \<and> downloaded_bytes st' = downloaded_bytes st \<and> parsed_rows st' = parsed_rows st"

lemma collect_keys_facts:
  "collect_keys keep ks keys st = (keys', st') \<Longrightarrow> length keys \<le> maxCandidateKeys \<Longrightarrow>
     length keys' \<le> maxCandidateKeys \<and> same_downloads st st' \<and> candidate_keys st' = candidate_keys st
     \<and> (stop_reason st' = None \<longrightarrow> keys' = keys @ filter keep ks \<and> stop_reason st = None)"
  by (induction keep ks keys st rule: collect_keys.induct) (auto simp: same_downloads_def split: if_splits)

lemma note_page_facts:
  assumes "note_page keep counted page keys st = (keys', st')" "length keys \<le> maxCandidateKeys"
  shows "length keys' \<le> maxCandidateKeys" "same_downloads st st'" "pages st' = Suc (pages st)"
    "candidate_keys st' = (if counted then length keys' else candidate_keys st)"
    "stop_reason st' = None \<Longrightarrow> keys' = keys @ filter keep (page_keys page) \<and> stop_reason st = None"
  using assms collect_keys_facts [of keep "page_keys page" keys]
  by (force simp: note_page_def same_downloads_def split: prod.splits if_splits)+

lemma page_budget_facts:
  assumes "ensureReportPageBudget io t0 st w = (go, st', w')"
  shows "same_downloads st st'" "pages st' = pages st" "candidate_keys st' = candidate_keys st"
    "go \<Longrightarrow> st' = st \<and> pages st < maxPages" "\<not> go \<Longrightarrow> stop_reason st' \<noteq> None"
  using assms by (auto simp: ensureReportPageBudget_def same_downloads_def split: prod.splits if_splits)

section \<open>The listing loop\<close>

text \<open>
  The pages of a listing that does not change while it is read: \<open>ks\<close> is the concatenation of the
  pages that the tokens lead through, from a given token on.
\<close>

inductive page_chain :: "(jsstring option \<Rightarrow> report_page) \<Rightarrow> jsstring option \<Rightarrow> jsstring list \<Rightarrow> bool"
  for pg where
  last_page: "next_token (pg tok) = None \<Longrightarrow> page_chain pg tok (page_keys (pg tok))"
| more_pages: "next_token (pg tok) = Some t \<Longrightarrow> page_chain pg (Some t) ks \<Longrightarrow> page_chain pg tok (page_keys (pg tok) @ ks)"

definition serves_pages :: "'w report_io \<Rightarrow> list_request \<Rightarrow> (jsstring option \<Rightarrow> report_page) \<Rightarrow> bool" where
  "serves_pages io req pg \<longleftrightarrow> (\<forall>tok ms w. fst (list_report_keys io (req\<lparr> lr_token := tok, lr_timeout := ms \<rparr>) w) = Inr (pg tok))"

lemma list_pages_limits:
  "list_pages io t0 req keep counted token keys st w = (res, st', w') \<Longrightarrow> length keys \<le> maxCandidateKeys \<Longrightarrow>
     within_limits st \<Longrightarrow> within_limits st' \<and> same_downloads st st'
     \<and> (case res of Inl e \<Rightarrow> True | Inr keys' \<Rightarrow> length keys' \<le> maxCandidateKeys)"
proof (induction io t0 req keep counted token keys st w rule: list_pages.induct)
  case (1 io t0 req keep counted token keys st w)
  obtain go st1 w1 where b: "ensureReportPageBudget io t0 st w = (go, st1, w1)" by (metis prod_cases3)
  note bf = page_budget_facts [OF b]
  obtain r w2 where p: "list_page io t0 req token w1 = (r, w2)" by fastforce
  show ?case
  proof (cases "go \<and> (\<exists>page. r = Inr page)")
    case False
    then have "st' = st1" "case res of Inl e \<Rightarrow> True | Inr keys' \<Rightarrow> keys' = keys"
      using "1.prems"(1) b p by (auto simp: list_pages.simps [of io] split: sum.splits if_splits)
    with "1.prems" bf(1-3) show ?thesis by (auto simp: within_limits_def same_downloads_def split: sum.splits)
  next
    case True
    then obtain page where go: "go" and r: "r = Inr page" by blast
    obtain keys2 st2 where n: "note_page keep counted page keys st1 = (keys2, st2)" by fastforce
    note nf = note_page_facts [OF n "1.prems"(2)]
    have st1: "st1 = st" "pages st < maxPages" using bf(4) go by auto
    have lim: "within_limits st2" "same_downloads st st2"
      using "1.prems"(2,3) nf(1-4) st1 by (auto simp: within_limits_def same_downloads_def)
    show ?thesis
    proof (cases "stop_reason st2 \<noteq> None \<or> next_token page = None")
      case True
      then have "st' = st2" "res = Inr keys2"
        using "1.prems"(1) b p r go n by (auto simp: list_pages.simps [of io])
      with lim nf(1) show ?thesis by simp
    next
      case False
      then have "list_pages io t0 req keep counted (next_token page) keys2 st2 w2 = (res, st', w')"
        using "1.prems"(1) b p r go n by (auto simp: list_pages.simps [of io t0 req keep counted token])
      from "1.IH" [OF b [symmetric] refl _ p [symmetric] r n [symmetric] False this nf(1) lim(1)] go lim(2)
      show ?thesis by (auto simp: same_downloads_def)
    qed
  qed
qed

lemma list_page_serves:
  "serves_pages io req pg \<Longrightarrow> fst (list_page io t0 req tok w) = Inr (pg tok)"
  by (auto simp: list_page_def serves_pages_def split: prod.splits)

text \<open>An unstopped listing has seen every page.\<close>

lemma list_pages_exact:
  "page_chain pg token ks \<Longrightarrow> serves_pages io req pg \<Longrightarrow> length keys \<le> maxCandidateKeys \<Longrightarrow>
     list_pages io t0 req keep counted token keys st w = (Inr keys', st', w') \<Longrightarrow> stop_reason st' = None \<Longrightarrow>
     keys' = keys @ filter keep ks \<and> stop_reason st = None"
proof (induction token ks arbitrary: keys st w rule: page_chain.induct)
  case (last_page tok)
  obtain go st1 w1 where b: "ensureReportPageBudget io t0 st w = (go, st1, w1)" by (metis prod_cases3)
  obtain w2 where p: "list_page io t0 req tok w1 = (Inr (pg tok), w2)"
    using list_page_serves [OF last_page.prems(1)] by (metis prod.collapse)
  obtain keys2 st2 where n: "note_page keep counted (pg tok) keys st1 = (keys2, st2)" by fastforce
  have go: go using last_page.prems(3,4) b page_budget_facts(5) [OF b]
    by (auto simp: list_pages.simps [of io] split: if_splits)
  then have "keys' = keys2" "st' = st2" "st1 = st"
    using last_page b p n page_budget_facts(4) [OF b] by (auto simp: list_pages.simps [of io])
  with note_page_facts(5) [OF n last_page.prems(2)] last_page.prems(4) show ?case by simp
next
  case (more_pages tok t ks)
  obtain go st1 w1 where b: "ensureReportPageBudget io t0 st w = (go, st1, w1)" by (metis prod_cases3)
  obtain w2 where p: "list_page io t0 req tok w1 = (Inr (pg tok), w2)"
    using list_page_serves [OF more_pages.prems(1)] by (metis prod.collapse)
  obtain keys2 st2 where n: "note_page keep counted (pg tok) keys st1 = (keys2, st2)" by fastforce
  have go: go using more_pages.prems(3,4) b page_budget_facts(5) [OF b]
    by (auto simp: list_pages.simps [of io] split: if_splits)
  note nf = note_page_facts [OF n more_pages.prems(2)]
  have "stop_reason st2 = None"
  proof (rule ccontr)
    assume "stop_reason st2 \<noteq> None"
    then have "st' = st2" using more_pages.prems(3) b p n go by (simp add: list_pages.simps [of io])
    with more_pages.prems(4) \<open>stop_reason st2 \<noteq> None\<close> show False by simp
  qed
  moreover from this have "list_pages io t0 req keep counted (Some t) keys2 st2 w2 = (Inr keys', st', w')"
    using more_pages.prems(3) b p n go more_pages.hyps(1) by (simp add: list_pages.simps [of io t0 req keep counted tok])
  ultimately show ?case
    using more_pages.IH [OF more_pages.prems(1) nf(1) _ more_pages.prems(4)] nf(5) page_budget_facts(4) [OF b] go by auto
qed

section \<open>The download loop\<close>

lemma add_rows_facts:
  "add_rows raws rows st = (go, rows', st') \<Longrightarrow> length rows \<le> maxRows \<Longrightarrow>
     length rows' \<le> maxRows \<and> (within_limits st' \<longleftrightarrow> within_limits st) \<and> downloaded_keys st' = downloaded_keys st
     \<and> selected_keys st' = selected_keys st
     \<and> (go \<longrightarrow> rows' = rows @ List.map_filter mapRow raws \<and> stop_reason st' = stop_reason st) \<and> (\<not> go \<longrightarrow> stop_reason st' \<noteq> None)"
proof (induction raws rows st rule: add_rows.induct)
  case (2 raw raws rows st)
  show ?case
  proof (cases "mapRow raw")
    case None
    with 2 show ?thesis by (simp add: List.map_filter_simps)
  next
    case (Some r)
    show ?thesis
    proof (cases "maxRows \<le> length rows")
      case True
      with "2.prems" Some show ?thesis by auto
    next
      case False
      with "2.prems" Some have a: "add_rows raws (rows @ [r]) (st\<lparr> parsed_rows := parsed_rows st + 1 \<rparr>) = (go, rows', st')" by simp
      from "2.IH"(2) [OF Some False this] False Some show ?thesis
        by (simp add: List.map_filter_simps)
    qed
  qed
qed (simp add: List.map_filter_simps)

lemma add_rows_all:
  "length rows + length (List.map_filter mapRow raws) \<le> maxRows \<Longrightarrow>
     add_rows raws rows st = (True, rows @ List.map_filter mapRow raws,
       st\<lparr> parsed_rows := parsed_rows st + length (List.map_filter mapRow raws) \<rparr>)"
proof (induction raws rows st rule: add_rows.induct)
  case (2 raw raws rows st)
  then show ?case by (cases "mapRow raw") (simp_all add: List.map_filter_simps)
qed (simp add: List.map_filter_simps)

text \<open>The contract of the client: a download stays within the bytes asked for.\<close>

locale bounded_reports =
  fixes io :: "'w report_io"
  assumes download_bounded: "download_report io key maxBytes timeout w = (Inr obj, w') \<Longrightarrow> obj_bytes obj \<le> nat maxBytes"
begin

lemma download_keys_limits:
  "download_keys io t0 ks rows st w = (res, st', w') \<Longrightarrow> within_limits st \<Longrightarrow> length rows \<le> maxRows \<Longrightarrow>
     within_limits st' \<and> selected_keys st' = selected_keys st \<and> downloaded_keys st' \<le> downloaded_keys st + length ks
     \<and> (case res of Inl e \<Rightarrow> True | Inr rows' \<Rightarrow> length rows' \<le> maxRows)"
proof (induction ks arbitrary: rows st w)
  case (Cons k ks)
  obtain late w1 where l: "reportScanTimedOut io t0 w = (late, w1)" by fastforce
  let ?rem = "int maxDownloadedBytes - int (downloaded_bytes st)"
  show ?case
  proof (cases "late \<or> ?rem \<le> 0")
    case True
    with Cons.prems l show ?thesis by (auto split: if_splits)
  next
    case False
    obtain ms w2 where ms: "reportScanRemainingMs io t0 w1 = (ms, w2)" by fastforce
    obtain r w3 where d: "download_report io k ?rem ms w2 = (r, w3)" by fastforce
    show ?thesis
    proof (cases r)
      case (Inl e)
      with Cons.prems l False ms d show ?thesis by auto
    next
      case (Inr obj)
      define st1 where "st1 = st\<lparr> downloaded_keys := downloaded_keys st + 1, downloaded_bytes := downloaded_bytes st + obj_bytes obj \<rparr>"
      have "obj_bytes obj \<le> nat ?rem" using download_bounded d Inr by blast
      then have st1: "within_limits st1" using Cons.prems(2) by (auto simp: st1_def within_limits_def)
      show ?thesis
      proof (cases "obj_truncated obj \<or> maxDownloadedBytes < downloaded_bytes st1")
        case True
        then have "st' = stopReportScan MaxDownloadedBytes st1" "res = Inr rows"
          using Cons.prems(1) l False ms d Inr by (auto simp: st1_def Let_def)
        with st1 Cons.prems(3) show ?thesis by (simp add: st1_def)
      next
        case nt: False
        obtain go rows2 st2 where a: "add_rows (parseCsv (obj_text obj)) rows st1 = (go, rows2, st2)" by (metis prod_cases3)
        note af = add_rows_facts [OF a Cons.prems(3)]
        have run: "(res, st', w') = (if go then download_keys io t0 ks rows2 st2 w3 else (Inr rows2, st2, w3))"
          using Cons.prems(1) l False ms d Inr nt a by (simp add: st1_def Let_def)
        show ?thesis
        proof (cases go)
          case True
          then have dk: "download_keys io t0 ks rows2 st2 w3 = (res, st', w')" using run by simp
          have "within_limits st2" "length rows2 \<le> maxRows" using af st1 by simp_all
          from Cons.IH [OF dk this] af show ?thesis by (simp add: st1_def)
        next
          case False
          with run af st1 show ?thesis by (simp add: st1_def)
        qed
      qed
    qed
  qed
qed (auto split: sum.splits)

lemma loadRows_limits:
  assumes "loadRowsFromReportKeys io t0 keys st w = (res, st', w')" "within_limits st"
  shows "within_limits st'" "selected_keys st' \<le> maxSelectedKeys"
    "downloaded_keys st' \<le> downloaded_keys st + selected_keys st'"
    "case res of Inl e \<Rightarrow> True | Inr rows \<Rightarrow> length rows \<le> maxRows"
proof -
  let ?b = "take maxSelectedKeys (selectUsageKeys keys)"
  let ?st0 = "st\<lparr> selected_keys := length ?b \<rparr>"
  have st0: "within_limits ?st0" using assms(2) by (simp add: within_limits_def)
  obtain r st1 w1 where d: "(if stop_reason ?st0 = Some TimeBudget then (Inr [], ?st0, w) else download_keys io t0 ?b [] ?st0 w) = (r, st1, w1)"
    by (metis prod_cases3)
  have st1: "within_limits st1 \<and> selected_keys st1 = length ?b \<and> downloaded_keys st1 \<le> downloaded_keys st + length ?b
      \<and> (case r of Inl e \<Rightarrow> True | Inr rows \<Rightarrow> length rows \<le> maxRows)"
    using d st0 download_keys_limits [of t0 ?b "[]" ?st0 w r st1 w1] by (auto split: if_splits)
  have "res = r" "st' = st1 \<or> st' = stopReportScan MaxSelectedKeys st1"
    using assms(1) d by (auto simp: loadRowsFromReportKeys_def Let_def split: sum.splits if_splits)
  with st1 show "within_limits st'" "selected_keys st' \<le> maxSelectedKeys"
    "downloaded_keys st' \<le> downloaded_keys st + selected_keys st'"
    "case res of Inl e \<Rightarrow> True | Inr rows \<Rightarrow> length rows \<le> maxRows"
    by (auto simp: within_limits_def)
qed

lemma load_reports_limits:
  assumes "loadReportRows io t0 since st w = (res, st', w')" "within_limits st"
  shows "within_limits st' \<and> downloaded_keys st' \<le> downloaded_keys st + maxSelectedKeys
     \<and> (case res of Inr (Some rows) \<Rightarrow> length rows \<le> maxRows | _ \<Rightarrow> True)"
proof -
  let ?req = "\<lparr> lr_prefix = None, lr_after = Some since, lr_token = None, lr_max_keys = maxKeysPerPage, lr_timeout = 0 \<rparr>"
  let ?keep = "\<lambda>k. report_day_csv k \<and> \<not> take 10 k < since"
  obtain r st1 w1 where l: "list_pages io t0 ?req ?keep True None [] st w = (r, st1, w1)" by (metis prod_cases3)
  have st1: "within_limits st1" "same_downloads st st1" using list_pages_limits [OF l _ assms(2)] by simp_all
  show ?thesis
  proof (cases r)
    case (Inl e)
    with assms(1) l st1 show ?thesis by (auto simp: loadReportRows_def same_downloads_def split: if_splits)
  next
    case (Inr keys)
    obtain q st2 w2 where d: "loadRowsFromReportKeys io t0 keys st1 w1 = (q, st2, w2)" by (metis prod_cases3)
    note df = loadRows_limits [OF d st1(1)]
    have "st' = st2" "case res of Inr (Some rows) \<Rightarrow> q = Inr rows | _ \<Rightarrow> True"
      using assms(1) l Inr d by (auto simp: loadReportRows_def split: sum.splits)
    with df st1(2) show ?thesis by (auto simp: same_downloads_def split: sum.splits option.splits)
  qed
qed

end

interpretation b2_reports: bounded_reports "b2_report_client decode s3" for decode s3
  by unfold_locales (auto simp: b2_report_client_def split: prod.splits sum.splits dest: read_body_bytes)

text \<open>
  (C30) A scan of the report bucket is bounded, whatever the bucket holds and whatever the service
  answers: it lists at most 100 pages and keeps at most 5,000 candidate keys, downloads at most 1,000
  objects and 25 MiB in all, and returns at most 100,000 rows. The byte limit is strict, because the
  reader is given what remains of it.
\<close>

theorem report_scan_bounded:
  "case loadReportRows (b2_report_client decode s3) t0 sinceDate newReportStats w of (res, st, w') \<Rightarrow>
     pages st \<le> 100 \<and> candidate_keys st \<le> 5000 \<and> selected_keys st \<le> 1000 \<and> downloaded_keys st \<le> 1000
     \<and> downloaded_bytes st \<le> 26214400 \<and> (case res of Inr (Some rows) \<Rightarrow> length rows \<le> 100000 | _ \<Rightarrow> True)"
proof -
  obtain res st w' where r: "loadReportRows (b2_report_client decode s3) t0 sinceDate newReportStats w = (res, st, w')"
    by (metis prod_cases3)
  from b2_reports.load_reports_limits [OF r within_limits_new] r show ?thesis
    by (auto simp: within_limits_def scan_limits newReportStats_def split: sum.splits option.splits)
qed

section \<open>Complete scans\<close>

text \<open>A bucket whose objects do not change: a download that is not cut gives the content of its key.\<close>

definition serves_content :: "'w report_io \<Rightarrow> (jsstring \<Rightarrow> jsstring) \<Rightarrow> bool" where
  "serves_content io content \<longleftrightarrow> (\<forall>key m ms w obj w'.
     download_report io key m ms w = (Inr obj, w') \<longrightarrow> obj_truncated obj \<or> obj_text obj = content key)"

lemma serves_contentD:
  "serves_content io content \<Longrightarrow> download_report io key m ms w = (Inr obj, w') \<Longrightarrow> \<not> obj_truncated obj \<Longrightarrow>
     obj_text obj = content key"
  unfolding serves_content_def by blast

definition rows_of_keys :: "(jsstring \<Rightarrow> jsstring) \<Rightarrow> jsstring list \<Rightarrow> report_row list" where
  "rows_of_keys content ks = concat (map (\<lambda>k. List.map_filter mapRow (parseCsv (content k))) ks)"

lemma download_keys_exact:
  "download_keys io t0 ks rows st w = (Inr rows', st', w') \<Longrightarrow> serves_content io content \<Longrightarrow> length rows \<le> maxRows \<Longrightarrow>
     stop_reason st' = None \<Longrightarrow> rows' = rows @ rows_of_keys content ks \<and> stop_reason st = None \<and> selected_keys st' = selected_keys st"
proof (induction ks arbitrary: rows st w)
  case (Cons k ks)
  obtain late w1 where l: "reportScanTimedOut io t0 w = (late, w1)" by fastforce
  let ?rem = "int maxDownloadedBytes - int (downloaded_bytes st)"
  have nl: "\<not> late" "\<not> ?rem \<le> 0" using Cons.prems(1,4) l by (auto split: if_splits)
  obtain ms w2 where ms: "reportScanRemainingMs io t0 w1 = (ms, w2)" by fastforce
  obtain r w3 where d: "download_report io k ?rem ms w2 = (r, w3)" by fastforce
  obtain obj where r: "r = Inr obj" using Cons.prems(1) l nl ms d by (cases r) auto
  define st1 where "st1 = st\<lparr> downloaded_keys := downloaded_keys st + 1, downloaded_bytes := downloaded_bytes st + obj_bytes obj \<rparr>"
  obtain go rows2 st2 where a: "add_rows (parseCsv (obj_text obj)) rows st1 = (go, rows2, st2)" by (metis prod_cases3)
  have nt: "\<not> (obj_truncated obj \<or> maxDownloadedBytes < downloaded_bytes st1)"
  proof
    assume "obj_truncated obj \<or> maxDownloadedBytes < downloaded_bytes st1"
    then have "st' = stopReportScan MaxDownloadedBytes st1"
      using Cons.prems(1) l nl ms d r by (auto simp: st1_def Let_def)
    with Cons.prems(4) show False by simp
  qed
  have run: "(Inr rows', st', w') = (if go then download_keys io t0 ks rows2 st2 w3 else (Inr rows2, st2, w3))"
    using Cons.prems(1) l nl ms d r nt a by (simp add: st1_def Let_def)
  note af = add_rows_facts [OF a Cons.prems(3)]
  have go: go using run af Cons.prems(4) by (cases go) auto
  then have dk: "download_keys io t0 ks rows2 st2 w3 = (Inr rows', st', w')" using run by simp
  have "length rows2 \<le> maxRows" using af by simp
  note ih = Cons.IH [OF dk Cons.prems(2) this Cons.prems(4)]
  have "obj_text obj = content k" using serves_contentD [OF Cons.prems(2) d [unfolded r]] nt by simp
  with ih af go show ?case by (simp add: rows_of_keys_def st1_def)
qed (simp add: rows_of_keys_def)

lemma loadRows_exact:
  assumes "loadRowsFromReportKeys io t0 keys st w = (Inr rows, st', w')" "serves_content io content" "stop_reason st' = None"
  shows "rows = rows_of_keys content (selectUsageKeys keys) \<and> stop_reason st = None"
proof -
  let ?b = "take maxSelectedKeys (selectUsageKeys keys)"
  let ?st0 = "st\<lparr> selected_keys := length ?b \<rparr>"
  obtain r st1 w1 where d: "(if stop_reason ?st0 = Some TimeBudget then (Inr [], ?st0, w) else download_keys io t0 ?b [] ?st0 w) = (r, st1, w1)"
    by (metis prod_cases3)
  have "loadRowsFromReportKeys io t0 keys st w = (case (r, st1, w1) of (Inl e, st1, w1) \<Rightarrow> (Inl e, st1, w1)
      | (Inr rows, st1, w1) \<Rightarrow> (Inr rows, if length ?b < length (selectUsageKeys keys) \<and> stop_reason st1 = None
          then stopReportScan MaxSelectedKeys st1 else st1, w1))"
    by (simp only: loadRowsFromReportKeys_def Let_def d)
  then have r: "r = Inr rows" and st': "st' = (if length ?b < length (selectUsageKeys keys) \<and> stop_reason st1 = None
      then stopReportScan MaxSelectedKeys st1 else st1)"
    using assms(1) by (simp_all split: sum.splits)
  have none: "stop_reason st1 = None" "\<not> length ?b < length (selectUsageKeys keys)"
    using st' assms(3) by (auto split: if_splits)
  then have "stop_reason ?st0 \<noteq> Some TimeBudget" using d by auto
  then have "download_keys io t0 ?b [] ?st0 w = (Inr rows, st1, w1)" using d r by simp
  from download_keys_exact [OF this assms(2) _ none(1)] none(2) show ?thesis by simp
qed

text \<open>
  (C29) An egress scan that is not marked truncated is complete: over a bucket that does not change
  while it is read, the rows are those of every usage file from the requested day on, in the order
  of the listing, with none of the audit copies and none twice. Every way of ending early is
  therefore visible to the caller in \<open>stop_reason\<close>.
\<close>

theorem report_scan_complete:
  assumes "serves_pages io \<lparr> lr_prefix = None, lr_after = Some sinceDate, lr_token = None,
      lr_max_keys = maxKeysPerPage, lr_timeout = 0 \<rparr> pg"
    and "page_chain pg None ks" "serves_content io content"
    and "loadReportRows io t0 sinceDate newReportStats w = (Inr (Some rows), st, w')" "stop_reason st = None"
  shows "rows = rows_of_keys content (selectUsageKeys (filter (\<lambda>k. report_day_csv k \<and> sinceDate \<le> take 10 k) ks))"
proof -
  let ?req = "\<lparr> lr_prefix = None, lr_after = Some sinceDate, lr_token = None, lr_max_keys = maxKeysPerPage, lr_timeout = 0 \<rparr>"
  let ?keep = "\<lambda>k. report_day_csv k \<and> \<not> take 10 k < sinceDate"
  obtain r st1 w1 where l: "list_pages io t0 ?req ?keep True None [] newReportStats w = (r, st1, w1)" by (metis prod_cases3)
  obtain keys where r: "r = Inr keys"
    using assms(4) l by (cases r) (auto simp: loadReportRows_def split: if_splits)
  obtain q st2 w2 where d: "loadRowsFromReportKeys io t0 keys st1 w1 = (q, st2, w2)" by (metis prod_cases3)
  have q: "q = Inr rows" "st2 = st"
    using assms(4) l r d by (auto simp: loadReportRows_def split: sum.splits)
  have lx: "rows = rows_of_keys content (selectUsageKeys keys)" "stop_reason st1 = None"
    using loadRows_exact [OF _ assms(3,5)] d q by auto
  have "keys = filter ?keep ks"
    using list_pages_exact [OF assms(2,1) _ l [unfolded r] lx(2)] by simp
  with lx(1) show ?thesis by (simp add: not_less)
qed

text \<open>A bucket of one usage file, listed on two pages with its audit copy on the second.\<close>

definition sample_page :: "jsstring option \<Rightarrow> report_page" where
  "sample_page tok = (if tok = None
     then \<lparr> page_keys = [js ''2024-05-01/usage.csv''], page_truncated = True, page_next = Some (js ''t'') \<rparr>
     else \<lparr> page_keys = [js ''2024-05-01/usage.audit.csv''], page_truncated = False, page_next = None \<rparr>)"

definition sample_content :: "jsstring \<Rightarrow> jsstring" where
  "sample_content k = js ''account_id,date'' @ [10] @ js ''a,5/1/24''"

definition sample_io :: "unit report_io" where
  "sample_io = \<lparr> read_clock = (\<lambda>w. (0, w)), list_report_keys = (\<lambda>req w. (Inr (sample_page (lr_token req)), w)),
     download_report = (\<lambda>k m t w. (Inr \<lparr> obj_text = sample_content k, obj_bytes = 24, obj_truncated = False \<rparr>, w)) \<rparr>"

lemma sample_budget: "pages st < maxPages \<Longrightarrow> ensureReportPageBudget sample_io 0 st w = (True, st, w)"
  by (simp add: ensureReportPageBudget_def reportScanTimedOut_def sample_io_def maxElapsedMs_def)

lemma sample_list: "list_page sample_io 0 req tok w = (Inr (sample_page tok), w)"
  by (simp add: list_page_def reportScanRemainingMs_def sample_io_def)

lemma sample_rows: "\<exists>r. List.map_filter mapRow (parseCsv (sample_content k)) = [r]"
proof -
  have t: "csv_table (sample_content k) = [[js ''account_id'', js ''date''], [js ''a'', js ''5/1/24'']]"
    by (simp add: csv_table_def csv_start_def csv_finish_def sample_content_def js_simps csv_defs kept_row_def)
  have tr: "js_trim (js ''account_id'') = js ''account_id''" "js_trim (js ''date'') = js ''date''" "js_trim (js ''a'') = js ''a''"
    by (simp_all add: js_trim_def js_simps js_space_def)
  have "normalizeDate (Some (js ''5/1/24'')) = Some (js ''2024-05-01'')"
    by (simp add: normalizeDate_def js_trim_def js_simps js_space_def iso_date_def shaped_def
        slash_date_def slash_group_def is_digit_def pad2_def)
  then show ?thesis
    by (simp add: parseCsv_def t tr csv_object_def mapRow_def nonempty_def List.map_filter_simps)
qed

theorem report_scan_complete_witness:
  "\<exists>rows st. loadReportRows sample_io 0 (js ''2024-05-01'') newReportStats () = (Inr (Some rows), st, ())
     \<and> rows = rows_of_keys sample_content (selectUsageKeys (filter (\<lambda>k. report_day_csv k \<and> js ''2024-05-01'' \<le> take 10 k)
           [js ''2024-05-01/usage.csv'', js ''2024-05-01/usage.audit.csv'']))
     \<and> length rows = 1"
proof -
  let ?ks = "[js ''2024-05-01/usage.csv'', js ''2024-05-01/usage.audit.csv'']"
  have day: "take 10 (js ''2024-05-01/usage.csv'') = js ''2024-05-01''" "take 10 (js ''2024-05-01/usage.audit.csv'') = js ''2024-05-01''"
    by (simp_all add: js_simps)
  have csv: "report_day_csv (js ''2024-05-01/usage.csv'')" "report_day_csv (js ''2024-05-01/usage.audit.csv'')"
    unfolding report_day_csv_def day
    by (simp_all add: js_simps iso_date_def shaped_def is_digit_def line_break_def suffix_def)
  have keep: "(report_day_csv k \<and> \<not> take 10 k < js ''2024-05-01'')" if "k \<in> set ?ks" for k
    using that csv day by auto
  have sel: "selectUsageKeys ?ks = [js ''2024-05-01/usage.csv'']"
    by (simp add: selectUsageKeys_def includes_ci_def js_includes_def js_simps ascii_lower_def ascii_lower_unit_def is_upper_def)
  obtain r where r: "List.map_filter mapRow (parseCsv (sample_content k)) = [r]" for k
    using sample_rows by (auto simp: sample_content_def)
  let ?st1 = "newReportStats\<lparr> pages := 2, listed_keys := 2, candidate_keys := 2 \<rparr>"
  have l: "list_pages sample_io 0 req (\<lambda>k. report_day_csv k \<and> \<not> take 10 k < js ''2024-05-01'') True None [] newReportStats ()
      = (Inr ?ks, ?st1, ())" for req
    using keep by (simp add: list_pages.simps [of sample_io] sample_budget sample_list note_page_def sample_page_def
        next_token_def nonempty_def newReportStats_def maxPages_def maxCandidateKeys_def)
  have rows: "add_rows (parseCsv (sample_content k)) [] st = (True, [r], st\<lparr> parsed_rows := parsed_rows st + 1 \<rparr>)" for k st
    using add_rows_all [of "[]" "parseCsv (sample_content k)" st] by (simp add: r maxRows_def)
  have d: "\<exists>st. loadRowsFromReportKeys sample_io 0 ?ks ?st1 () = (Inr [r], st, ()) \<and> stop_reason st = None"
    by (simp add: loadRowsFromReportKeys_def sel reportScanTimedOut_def reportScanRemainingMs_def sample_io_def
        newReportStats_def maxElapsedMs_def maxDownloadedBytes_def maxSelectedKeys_def rows)
  then obtain st where d: "loadRowsFromReportKeys sample_io 0 ?ks ?st1 () = (Inr [r], st, ())" "stop_reason st = None" by blast
  have run: "loadReportRows sample_io 0 (js ''2024-05-01'') newReportStats () = (Inr (Some [r]), st, ())"
    by (simp add: loadReportRows_def l d(1))
  have serves: "serves_pages sample_io req sample_page" "serves_content sample_io sample_content" for req
    by (simp_all add: serves_pages_def serves_content_def sample_io_def)
  have chain: "page_chain sample_page None ?ks"
    using page_chain.more_pages [of sample_page None "js ''t''" "page_keys (sample_page (Some (js ''t'')))"]
      page_chain.last_page [of sample_page "Some (js ''t'')"]
    by (simp add: sample_page_def next_token_def nonempty_def)
  show ?thesis
    by (intro exI [of _ "[r]"] exI [of _ st] conjI, rule run,
        rule report_scan_complete [OF serves(1) chain serves(2) run d(2)], simp)
qed

section \<open>What the search for the latest snapshot finds\<close>

definition snapshot_request :: "jsstring \<Rightarrow> list_request" where
  "snapshot_request after = \<lparr> lr_prefix = None, lr_after = Some after, lr_token = None,
     lr_max_keys = maxKeysPerPage, lr_timeout = 0 \<rparr>"

definition usage_dates :: "jsstring list \<Rightarrow> jsstring set" where
  "usage_dates ks = {d. \<exists>k \<in> set (selectUsageKeys (filter report_day_csv ks)). snapshotDateOf k = Some d}"

lemma max_date_snoc: "max_date (ks @ [k]) = (case snapshotDateOf k of None \<Rightarrow> max_date ks
     | Some d \<Rightarrow> (case max_date ks of None \<Rightarrow> Some d | Some b \<Rightarrow> (if b < d then Some d else max_date ks)))"
  unfolding max_date_def by (simp only: foldl_append foldl.simps)

lemma max_date_exact:
  "case max_date ks of None \<Rightarrow> \<forall>k \<in> set ks. snapshotDateOf k = None
   | Some d \<Rightarrow> (\<exists>k \<in> set ks. snapshotDateOf k = Some d) \<and> (\<forall>k \<in> set ks. \<forall>d'. snapshotDateOf k = Some d' \<longrightarrow> d' \<le> d)"
proof (induction ks rule: rev_induct)
  case (snoc k ks)
  then show ?case
    by (cases "snapshotDateOf k"; cases "max_date ks") (auto simp: max_date_snoc split: if_splits)
qed (simp add: max_date_def)

lemma list_pages_serves:
  "page_chain pg token ks \<Longrightarrow> serves_pages io req pg \<Longrightarrow>
     \<exists>keys' st' w'. list_pages io t0 req keep counted token keys st w = (Inr keys', st', w')"
proof (induction token ks arbitrary: keys st w rule: page_chain.induct)
  case (last_page tok)
  obtain go st1 w1 where b: "ensureReportPageBudget io t0 st w = (go, st1, w1)" by (metis prod_cases3)
  obtain w2 where "list_page io t0 req tok w1 = (Inr (pg tok), w2)"
    using list_page_serves [OF last_page.prems(1)] by (metis prod.collapse)
  with b last_page.hyps show ?case
    by (auto simp: list_pages.simps [of io] split: prod.splits)
next
  case (more_pages tok t ks)
  obtain go st1 w1 where b: "ensureReportPageBudget io t0 st w = (go, st1, w1)" by (metis prod_cases3)
  obtain w2 where p: "list_page io t0 req tok w1 = (Inr (pg tok), w2)"
    using list_page_serves [OF more_pages.prems(1)] by (metis prod.collapse)
  obtain keys2 st2 where n: "note_page keep counted (pg tok) keys st1 = (keys2, st2)" by fastforce
  show ?case
    using more_pages.IH [OF more_pages.prems(1), of keys2 st2 w2] b p n more_pages.hyps(1)
    by (auto simp: list_pages.simps [of io t0 req keep counted tok])
qed

lemma latest_in_exact:
  assumes "\<And>l. l \<in> set ls \<Longrightarrow> serves_pages io (snapshot_request (daysAgo l today)) (pg l) \<and> page_chain (pg l) None (ks l)"
    and "latest_in io t0 today ls st w = (res, st', w')" "stop_reason st = None"
  shows "\<exists>s. res = Inr s \<and> \<not> ss_bucket_missing s \<and> (case ss_date s of
       Some d \<Rightarrow> stop_reason st' = None \<and> (\<exists>l \<in> set ls. d \<in> usage_dates (ks l) \<and> (\<forall>d' \<in> usage_dates (ks l). d' \<le> d))
     | None \<Rightarrow> ss_searched_since s = (if stop_reason st' = None then Some (daysAgo (last SNAPSHOT_LOOKBACK_DAYS) today) else None)
         \<and> (stop_reason st' = None \<longrightarrow> (\<forall>l \<in> set ls. usage_dates (ks l) = {})))"
  using assms
proof (induction ls arbitrary: st w)
  case Nil
  then show ?case by auto
next
  case (Cons l ls)
  have sv: "serves_pages io (snapshot_request (daysAgo l today)) (pg l)" "page_chain (pg l) None (ks l)"
    using Cons.prems(1) by simp_all
  obtain keys st1 w1 where p: "list_pages io t0 (snapshot_request (daysAgo l today)) report_day_csv False None [] st w = (Inr keys, st1, w1)"
    using list_pages_serves [OF sv(2,1)] by blast
  have run: "latest_in io t0 today (l # ls) st w = (if stop_reason st1 \<noteq> None then latest_in io t0 today [] st1 w1
      else case max_date (selectUsageKeys keys) of
        Some d \<Rightarrow> (Inr \<lparr> ss_date = Some d, ss_bucket_missing = False, ss_searched_since = None \<rparr>, st1, w1)
      | None \<Rightarrow> latest_in io t0 today ls st1 w1)"
    using p by (simp add: snapshot_request_def)
  show ?case
  proof (cases "stop_reason st1 = None")
    case False
    with run Cons.prems(2) show ?thesis by auto
  next
    case True
    have keys: "keys = filter report_day_csv (ks l)"
      using list_pages_exact [OF sv(2,1) _ p True] by simp
    show ?thesis
    proof (cases "max_date (selectUsageKeys keys)")
      case None
      then have "usage_dates (ks l) = {}"
        using max_date_exact [of "selectUsageKeys keys"] keys by (auto simp: usage_dates_def)
      moreover have "latest_in io t0 today ls st1 w1 = (res, st', w')" using run True None Cons.prems(2) by simp
      ultimately show ?thesis using Cons.IH [of st1 w1] Cons.prems(1) True by (fastforce split: option.splits)
    next
      case (Some d)
      then have "d \<in> usage_dates (ks l)" "\<forall>d' \<in> usage_dates (ks l). d' \<le> d"
        using max_date_exact [of "selectUsageKeys keys"] keys by (auto simp: usage_dates_def)
      moreover have "res = Inr \<lparr> ss_date = Some d, ss_bucket_missing = False, ss_searched_since = None \<rparr>" "st' = st1"
        using run True Some Cons.prems(2) by simp_all
      ultimately show ?thesis using True by auto
    qed
  qed
qed

text \<open>
  (C33) The latest-snapshot search never publishes a stale date and never claims more than it
  searched: over a bucket that does not change, a date is returned only from a window that was
  listed to the end, and is then the largest date of a usage file in that window; a search that
  finds nothing reports the horizon it covered only when every window was listed to the end and holds
  no usage file, and reports none when a limit stopped it.
\<close>

theorem latest_snapshot_fresh:
  assumes "\<And>l. l \<in> {10, 45, 180} \<Longrightarrow> serves_pages io (snapshot_request (daysAgo l today)) (pg l) \<and> page_chain (pg l) None (ks l)"
    and "latestSnapshotDate io t0 today newReportStats w = (res, st, w')"
  shows "\<exists>s. res = Inr s \<and> \<not> ss_bucket_missing s \<and> (case ss_date s of
       Some d \<Rightarrow> stop_reason st = None \<and> (\<exists>l \<in> {10, 45, 180}. d \<in> usage_dates (ks l) \<and> (\<forall>d' \<in> usage_dates (ks l). d' \<le> d))
     | None \<Rightarrow> ss_searched_since s = (if stop_reason st = None then Some (daysAgo 180 today) else None)
         \<and> (stop_reason st = None \<longrightarrow> (\<forall>l \<in> {10, 45, 180}. usage_dates (ks l) = {})))"
proof -
  have lb: "set SNAPSHOT_LOOKBACK_DAYS = {10, 45, 180}" "last SNAPSHOT_LOOKBACK_DAYS = 180"
    by (simp_all add: SNAPSHOT_LOOKBACK_DAYS_def)
  have "stop_reason newReportStats = None" by (simp add: newReportStats_def)
  from latest_in_exact [OF _ assms(2) [unfolded latestSnapshotDate_def] this, unfolded lb, OF assms(1)]
  show ?thesis .
qed

theorem latest_snapshot_fresh_witness:
  "\<exists>s st. latestSnapshotDate sample_io 0 0 newReportStats () = (Inr s, st, ()) \<and> \<not> ss_bucket_missing s"
proof -
  obtain res st where r: "latestSnapshotDate sample_io 0 0 newReportStats () = (res, st, ())" by (metis prod_cases3 unit.exhaust)
  have serves: "serves_pages sample_io req sample_page" for req
    by (simp add: serves_pages_def sample_io_def)
  have chain: "page_chain sample_page None [js ''2024-05-01/usage.csv'', js ''2024-05-01/usage.audit.csv'']"
    using page_chain.more_pages [of sample_page None "js ''t''" "page_keys (sample_page (Some (js ''t'')))"]
      page_chain.last_page [of sample_page "Some (js ''t'')"]
    by (simp add: sample_page_def next_token_def nonempty_def)
  from latest_snapshot_fresh [OF conjI [OF serves chain] r] r show ?thesis by blast
qed

section \<open>The growth report\<close>

text \<open>
  The handler of \<open>b2_report_usage_growth\<close>: the two snapshots it compares and the ranking it returns,
  with one budget for its four scans. The answer is the kind of result; its JSON text is not
  modelled. \<open>from_period\<close> is the period or the number of days of the request.
\<close>

datatype growth_order = MostGrown | LeastGrown | Shrinking

datatype growth_answer =
    NotEnabled
  | NoSnapshots "jsstring option"
  | NotEnoughHistory jsstring jsstring
  | GrowthReport jsstring jsstring "snapshot_growth list"

definition order_accounts :: "growth_order \<Rightarrow> nat \<Rightarrow> snapshot_growth list \<Rightarrow> snapshot_growth list" where
  "order_accounts how limit accounts =
     take limit (case how of MostGrown \<Rightarrow> accounts | LeastGrown \<Rightarrow> rev accounts
       | Shrinking \<Rightarrow> filter (\<lambda>a. sg_growth a < 0) accounts)"

definition compare_snapshots :: "'w report_io \<Rightarrow> int \<Rightarrow> jsstring \<Rightarrow> jsstring \<Rightarrow> growth_order \<Rightarrow> nat \<Rightarrow> scan_stats \<Rightarrow> 'w
    \<Rightarrow> (report_error + growth_answer) \<times> scan_stats \<times> 'w" where
  "compare_snapshots io t0 earlier later how limit st w =
     (case loadDayRowsBounded io t0 earlier st w of
        (Inl e, st1, w1) \<Rightarrow> (Inl e, st1, w1)
      | (Inr thenRows, st1, w1) \<Rightarrow>
          (case loadDayRowsBounded io t0 later st1 w1 of
             (Inl e, st2, w2) \<Rightarrow> (Inl e, st2, w2)
           | (Inr nowRows, st2, w2) \<Rightarrow>
               (Inr (GrowthReport earlier later (order_accounts how limit (computeSnapshotGrowth thenRows nowRows))), st2, w2)))"

definition report_usage_growth :: "'w report_io \<Rightarrow> period + int \<Rightarrow> growth_order \<Rightarrow> nat \<Rightarrow> 'w
    \<Rightarrow> (report_error + growth_answer) \<times> scan_stats \<times> 'w" where
  "report_usage_growth io from_period how limit w =
     (case read_clock io w of (t0, w0) \<Rightarrow>
      case read_clock io w0 of (today, w1) \<Rightarrow>
      case (case from_period of Inl p \<Rightarrow> (periodStartDate p today, w1)
            | Inr days \<Rightarrow> (case read_clock io w1 of (now, w1') \<Rightarrow> (daysAgo days now, w1'))) of
        (target, w2) \<Rightarrow>
      (case latestSnapshotDate io t0 today newReportStats w2 of
         (Inl e, st1, w3) \<Rightarrow> (Inl e, st1, w3)
       | (Inr latest, st1, w3) \<Rightarrow>
           (if ss_bucket_missing latest then (Inr NotEnabled, st1, w3)
            else case ss_date latest of
              None \<Rightarrow> (Inr (NoSnapshots (nonempty (ss_searched_since latest))), st1, w3)
            | Some now_date \<Rightarrow>
                (case nearestSnapshotDate io t0 target st1 w3 of
                   (Inl e, st2, w4) \<Rightarrow> (Inl e, st2, w4)
                 | (Inr near, st2, w4) \<Rightarrow>
                     (if ss_bucket_missing near then (Inr NotEnabled, st2, w4)
                      else case nonempty (ss_date near) of
                        None \<Rightarrow> (Inr (NotEnoughHistory now_date target), st2, w4)
                      | Some then_date \<Rightarrow>
                          (if now_date \<le> then_date then (Inr (NotEnoughHistory now_date target), st2, w4)
                           else compare_snapshots io t0 then_date now_date how limit st2 w4))))))"

context bounded_reports
begin

lemma day_rows_limits:
  assumes "loadDayRowsBounded io t0 day st w = (res, st', w')" "within_limits st"
  shows "within_limits st'"
proof -
  let ?req = "\<lparr> lr_prefix = Some (day @ js ''/''), lr_after = None, lr_token = None, lr_max_keys = maxKeysPerPage, lr_timeout = 0 \<rparr>"
  obtain r st1 w1 where l: "list_pages io t0 ?req (\<lambda>k. suffix (js ''.csv'') (ascii_lower k)) True None [] st w = (r, st1, w1)"
    by (metis prod_cases3)
  have "within_limits st1" using list_pages_limits [OF l _ assms(2)] by simp
  then show ?thesis
    using assms(1) l loadRows_limits(1) [of t0 _ st1 w1] by (cases r) (auto simp: loadDayRowsBounded_def)
qed

lemma latest_in_limits:
  "latest_in io t0 today ls st w = (res, st', w') \<Longrightarrow> within_limits st \<Longrightarrow> within_limits st'"
proof (induction ls arbitrary: st w)
  case (Cons l ls)
  obtain r st1 w1 where p: "list_pages io t0 (snapshot_request (daysAgo l today)) report_day_csv False None [] st w = (r, st1, w1)"
    by (metis prod_cases3)
  have st1: "within_limits st1" using list_pages_limits [OF p _ Cons.prems(2)] by simp
  show ?case
  proof (cases r)
    case (Inl e)
    with Cons.prems(1) p st1 show ?thesis by (auto simp: snapshot_request_def split: if_splits)
  next
    case (Inr keys)
    with Cons.prems(1) p st1 Cons.IH [of st1 w1] show ?thesis
      by (auto simp: snapshot_request_def split: if_splits option.splits)
  qed
qed simp

lemma nearest_limits:
  assumes "nearestSnapshotDate io t0 target st w = (res, st', w')" "within_limits st"
  shows "within_limits st'"
proof -
  obtain go st1 w1 where b: "ensureReportPageBudget io t0 st w = (go, st1, w1)" by (metis prod_cases3)
  from page_budget_facts [OF b] assms(2) have "within_limits st1" "go \<Longrightarrow> pages st1 < maxPages"
    by (auto simp: within_limits_def same_downloads_def)
  with assms(1) b show ?thesis
    by (auto simp: nearestSnapshotDate_def within_limits_def split: if_splits sum.splits prod.splits)
qed

lemma compare_limits:
  assumes "compare_snapshots io t0 earlier later how limit st w = (res, st', w')" "within_limits st"
  shows "within_limits st'"
proof -
  obtain r st1 w1 where a: "loadDayRowsBounded io t0 earlier st w = (r, st1, w1)" by (metis prod_cases3)
  obtain q st2 w2 where b: "loadDayRowsBounded io t0 later st1 w1 = (q, st2, w2)" by (metis prod_cases3)
  from assms(1) a b day_rows_limits [OF a assms(2)] day_rows_limits [OF b] show ?thesis
    by (auto simp: compare_snapshots_def split: sum.splits)
qed

lemma growth_limits:
  assumes "report_usage_growth io from_period how limit w = (res, st, w')"
  shows "within_limits st"
proof -
  obtain t0 w0 where c0: "read_clock io w = (t0, w0)" by fastforce
  obtain today w1 where c1: "read_clock io w0 = (today, w1)" by fastforce
  obtain target w2 where c2: "(case from_period of Inl p \<Rightarrow> (periodStartDate p today, w1)
      | Inr days \<Rightarrow> (case read_clock io w1 of (now, w1') \<Rightarrow> (daysAgo days now, w1'))) = (target, w2)" by fastforce
  obtain r st1 w3 where l: "latestSnapshotDate io t0 today newReportStats w2 = (r, st1, w3)" by (metis prod_cases3)
  have st1: "within_limits st1"
    using latest_in_limits [OF l [unfolded latestSnapshotDate_def] within_limits_new] .
  obtain q st2 w4 where n: "nearestSnapshotDate io t0 target st1 w3 = (q, st2, w4)" by (metis prod_cases3)
  note st2 = nearest_limits [OF n st1]
  show ?thesis
    using assms st1 st2 compare_limits [of t0 _ _ how limit st2 w4, OF _ st2]
    by (auto simp: report_usage_growth_def c0 c1 c2 l n split: sum.splits if_splits option.splits)
qed

end

text \<open>What the growth report compares, when it compares.\<close>

lemma growth_report_dates:
  assumes "report_usage_growth io from_period how limit w = (Inr (GrowthReport earlier later accounts), st, w')"
  shows "earlier < later"
  using assms by (auto simp: report_usage_growth_def compare_snapshots_def
      split: prod.splits sum.splits if_splits option.splits)

text \<open>
  One growth report stays within one budget: its four scans together list at most 100 pages and
  download at most 25 MiB, whatever the bucket holds; and the two snapshots that it compares are of
  different days, the earlier one first.
\<close>

theorem growth_report_bounded:
  "case report_usage_growth (b2_report_client decode s3) from_period how limit w of (res, st, w') \<Rightarrow>
     pages st \<le> 100 \<and> downloaded_bytes st \<le> 26214400
     \<and> (case res of Inr (GrowthReport earlier later accounts) \<Rightarrow> earlier < later \<and> length accounts \<le> limit | _ \<Rightarrow> True)"
proof -
  obtain res st w' where r: "report_usage_growth (b2_report_client decode s3) from_period how limit w = (res, st, w')"
    by (metis prod_cases3)
  have "length accounts \<le> limit" if "res = Inr (GrowthReport earlier later accounts)" for earlier later accounts
    using r that by (auto simp: report_usage_growth_def compare_snapshots_def order_accounts_def
      split: prod.splits sum.splits if_splits option.splits)
  with b2_reports.growth_limits [OF r] growth_report_dates [of "b2_report_client decode s3"] r show ?thesis
    by (auto simp: within_limits_def scan_limits split: sum.splits growth_answer.splits)
qed

end
