(* ===== verification/Largest_Files.thy ===== *)
theory Largest_Files
  imports Usage_Rows
begin

text \<open>
  The live listing tools of \<open>src/b2/insights.ts\<close>, first part: the bounded ranking of
  \<open>b2_list_largest_files\<close>. The listing and the clock are a parameter (\<open>native_io\<close>); the loop is a
  \<open>partial_function\<close>, because it ends only when the pages or the clock make it end: \<open>None\<close> is the loop
  that never returns. The ranking keeps only the files that can still be among the largest, and is
  compared with the sorting of all the files that were scanned.
\<close>

section \<open>Insertion behind equals\<close>

text \<open>Stable sorting with one more element at the end inserts it behind its equals.\<close>

fun insert_last :: "('a \<Rightarrow> 'k :: linorder) \<Rightarrow> 'a \<Rightarrow> 'a list \<Rightarrow> 'a list" where
  "insert_last f x [] = [x]"
| "insert_last f x (y # ys) = (if f y \<le> f x then y # insert_last f x ys else x # y # ys)"

lemma length_insert_last [simp]: "length (insert_last f x ys) = Suc (length ys)"
  by (induction ys) simp_all

lemma insort_insert_last: "insort_key f a (insert_last f x ys) = insert_last f x (insort_key f a ys)"
  by (induction ys) auto

lemma sort_key_snoc: "sort_key f (xs @ [x]) = insert_last f x (sort_key f xs)"
  by (induction xs) (simp_all add: insort_insert_last)

lemma take_insert_last: "take n (insert_last f x (take n ys)) = take n (insert_last f x ys)"
proof (induction ys arbitrary: n)
  case (Cons y ys)
  then show ?case by (cases n) (simp_all add: take_Cons')
qed simp

lemma insert_last_end: "\<forall>y \<in> set ys. f y \<le> f x \<Longrightarrow> insert_last f x ys = ys @ [x]"
  by (induction ys) simp_all

lemma pop_take: "length ys \<le> Suc n \<Longrightarrow> (if n < length ys then butlast ys else ys) = take n ys"
proof -
  assume "length ys \<le> Suc n"
  then have "n < length ys \<Longrightarrow> length ys = Suc n" by simp
  then show ?thesis by (auto simp: butlast_conv_take)
qed

lemma sorted_take_key: "sorted (map f (take n (sort_key f xs)))"
  by (metis sorted_sort_key sorted_wrt_take take_map)

section \<open>The ranking\<close>

record listed_file =
  lf_name :: jsstring
  lf_size :: int
  lf_uploaded :: "int option"

definition by_size :: "listed_file list \<Rightarrow> listed_file list" where
  "by_size fs = sort_key (\<lambda>f. - lf_size f) fs"

datatype largest_stop = ScanComplete | MaxScan | ScanTime

record largest_state =
  ls_top :: "listed_file list"
  ls_smallest :: "int option"
  ls_scanned :: nat
  ls_truncated :: bool
  ls_stop :: largest_stop

text \<open>\<open>smallest\<close> starts at minus infinity, here \<open>None\<close>.\<close>

definition largest_start :: largest_state where
  "largest_start = \<lparr> ls_top = [], ls_smallest = None, ls_scanned = 0, ls_truncated = False, ls_stop = ScanComplete \<rparr>"

definition stop_largest :: "largest_stop \<Rightarrow> largest_state \<Rightarrow> largest_state" where
  "stop_largest why st = st\<lparr> ls_truncated := True, ls_stop := why \<rparr>"

definition scan_file :: "nat \<Rightarrow> listed_file \<Rightarrow> largest_state \<Rightarrow> largest_state" where
  "scan_file limit f st =
     (let st1 = st\<lparr> ls_scanned := ls_scanned st + 1 \<rparr> in
      if length (ls_top st) < limit \<or> (case ls_smallest st of None \<Rightarrow> True | Some s \<Rightarrow> s < lf_size f)
      then (let sorted_top = by_size (ls_top st @ [f]);
                top = (if limit < length sorted_top then butlast sorted_top else sorted_top) in
            st1\<lparr> ls_top := top, ls_smallest := Some (lf_size (last top)) \<rparr>)
      else st1)"

text \<open>The files of a page; the flag is \<open>pageExhausted\<close>.\<close>

fun scan_page :: "nat \<Rightarrow> nat \<Rightarrow> listed_file list \<Rightarrow> largest_state \<Rightarrow> bool \<times> largest_state" where
  "scan_page limit max_scan [] st = (True, st)"
| "scan_page limit max_scan (f # fs) st =
     (if max_scan \<le> ls_scanned st then (False, stop_largest MaxScan st)
      else scan_page limit max_scan fs (scan_file limit f st))"

section \<open>The loop\<close>

datatype native_error = DeadlineError | OtherError jsstring

record names_page =
  np_files :: "listed_file list"
  np_next :: "jsstring option"

record 'w native_io =
  native_clock :: "'w \<Rightarrow> int \<times> 'w"
  list_file_names :: "jsstring option \<Rightarrow> 'w \<Rightarrow> (native_error + names_page) \<times> 'w"

definition NATIVE_SCAN_TIME_BUDGET_MS :: int where
  "NATIVE_SCAN_TIME_BUDGET_MS = 12000"

text \<open>
  \<open>withNativeInsightDeadline\<close>: no call is started once the budget is used up; the timer that ends a
  running call is part of the call, which then fails with the deadline error.
\<close>

definition with_deadline :: "('w \<Rightarrow> int \<times> 'w) \<Rightarrow> int \<Rightarrow> ('w \<Rightarrow> (native_error + 'a) \<times> 'w) \<Rightarrow> 'w \<Rightarrow> (native_error + 'a) \<times> 'w" where
  "with_deadline clock started f w =
     (case clock w of (now, w1) \<Rightarrow>
        (if NATIVE_SCAN_TIME_BUDGET_MS - (now - started) \<le> 0 then (Inl DeadlineError, w1) else f w1))"

definition over_budget :: "('w \<Rightarrow> int \<times> 'w) \<Rightarrow> int \<Rightarrow> 'w \<Rightarrow> bool \<times> 'w" where
  "over_budget clock started w = (case clock w of (now, w1) \<Rightarrow> (NATIVE_SCAN_TIME_BUDGET_MS < now - started, w1))"

partial_function (option) largest_files ::
  "'w native_io \<Rightarrow> int \<Rightarrow> nat \<Rightarrow> nat \<Rightarrow> jsstring option \<Rightarrow> largest_state \<Rightarrow> 'w \<Rightarrow> ((native_error + largest_state) \<times> 'w) option" where
  "largest_files io started limit max_scan token st w =
     (case with_deadline (native_clock io) started (list_file_names io token) w of
        (Inl e, w1) \<Rightarrow>
          (if e = DeadlineError then Some (Inr (stop_largest ScanTime st), w1) else Some (Inl e, w1))
      | (Inr page, w1) \<Rightarrow>
          (case scan_page limit max_scan (np_files page) st of (exhausted, st1) \<Rightarrow>
            (let token' = nonempty (np_next page) in
             if max_scan \<le> ls_scanned st1 \<and> (token' \<noteq> None \<or> \<not> exhausted)
             then Some (Inr (stop_largest MaxScan st1), w1)
             else case token' of
               None \<Rightarrow> Some (Inr st1, w1)
             | Some t \<Rightarrow>
                 (case over_budget (native_clock io) started w1 of (late, w2) \<Rightarrow>
                    (if late then Some (Inr (stop_largest ScanTime st1), w2)
                     else largest_files io started limit max_scan (Some t) st1 w2)))))"

definition b2_list_largest_files :: "'w native_io \<Rightarrow> nat \<Rightarrow> nat \<Rightarrow> 'w \<Rightarrow> ((native_error + largest_state) \<times> 'w) option" where
  "b2_list_largest_files io limit max_scan w =
     (case native_clock io w of (started, w1) \<Rightarrow> largest_files io started limit max_scan None largest_start w1)"

section \<open>The ranking is the sorting of what was scanned\<close>

definition ranks :: "nat \<Rightarrow> listed_file list \<Rightarrow> largest_state \<Rightarrow> bool" where
  "ranks limit fs st \<longleftrightarrow> ls_top st = take limit (by_size fs) \<and> ls_scanned st = length fs
     \<and> ls_smallest st = (if fs = [] then None else Some (lf_size (last (ls_top st))))"

lemma ranks_start: "ranks limit [] largest_start"
  by (simp add: ranks_def largest_start_def by_size_def)

lemma stop_largest_fields [simp]:
  "ls_truncated (stop_largest why st)" "ls_stop (stop_largest why st) = why"
  "ls_scanned (stop_largest why st) = ls_scanned st"
  by (simp_all add: stop_largest_def)

lemma ranks_stop [simp]: "ranks limit fs (stop_largest why st) \<longleftrightarrow> ranks limit fs st"
  by (simp add: ranks_def stop_largest_def)

lemma scan_file_ranks:
  assumes "ranks limit fs st" "0 < limit" shows "ranks limit (fs @ [f]) (scan_file limit f st)"
proof -
  let ?k = "\<lambda>f. - lf_size f"
  let ?top = "take limit (by_size fs)"
  have top: "ls_top st = ?top" and scanned: "ls_scanned st = length fs" using assms(1) by (simp_all add: ranks_def)
  have sorted: "sort_key ?k ?top = ?top"
    by (rule sort_key_id_if_sorted) (simp add: by_size_def sorted_take_key)
  have new: "take limit (by_size (fs @ [f])) = take limit (insert_last ?k f ?top)"
    by (simp add: by_size_def sort_key_snoc take_insert_last)
  show ?thesis
  proof (cases "length ?top < limit \<or> (case ls_smallest st of None \<Rightarrow> True | Some s \<Rightarrow> s < lf_size f)")
    case True
    let ?t = "by_size (?top @ [f])"
    have t: "?t = insert_last ?k f ?top" using sorted by (simp add: by_size_def sort_key_snoc)
    have "(if limit < length ?t then butlast ?t else ?t) = take limit ?t"
      by (rule pop_take) (simp add: t)
    then have pop: "(if limit < length ?t then butlast ?t else ?t) = take limit ?t" .
    have "scan_file limit f st = st\<lparr> ls_scanned := length fs + 1, ls_top := take limit ?t,
        ls_smallest := Some (lf_size (last (take limit ?t))) \<rparr>"
      by (simp only: scan_file_def top scanned Let_def pop if_P [OF True])
    then show ?thesis by (simp add: ranks_def t new)
  next
    case False
    then have full: "length ?top = limit" by (simp add: min_def split: if_splits)
    then have "?top \<noteq> []" using assms(2) by (metis length_greater_0_conv)
    then have ne: "?top \<noteq> []" "fs \<noteq> []" by (auto simp: by_size_def)
    then have "ls_smallest st = Some (lf_size (last ?top))" using assms(1) top by (simp add: ranks_def)
    with False have small: "lf_size f \<le> lf_size (last ?top)" by auto
    have "?k y \<le> ?k (last ?top)" if "y \<in> set ?top" for y
      using that ne(1) sorted_take_key [of ?k limit fs] by (cases "?top" rule: rev_cases) (auto simp: by_size_def sorted_append)
    with small have "\<forall>y \<in> set ?top. ?k y \<le> ?k f" by fastforce
    then have "take limit (by_size (fs @ [f])) = ?top"
      using new full by (simp add: insert_last_end)
    with False assms(1) top scanned ne(2) show ?thesis by (simp add: ranks_def scan_file_def)
  qed
qed

lemma scan_page_ranks:
  "scan_page limit max_scan fs st = (exhausted, st') \<Longrightarrow> ranks limit done_fs st \<Longrightarrow> 0 < limit \<Longrightarrow> length done_fs \<le> max_scan \<Longrightarrow>
     \<exists>k \<le> length fs. ranks limit (done_fs @ take k fs) st' \<and> length done_fs + k \<le> max_scan
       \<and> (exhausted \<longrightarrow> k = length fs \<and> ls_truncated st' = ls_truncated st \<and> ls_stop st' = ls_stop st)
       \<and> (\<not> exhausted \<longrightarrow> length done_fs + k = max_scan)"
proof (induction limit max_scan fs st arbitrary: done_fs rule: scan_page.induct)
  case (2 limit max_scan f fs st)
  show ?case
  proof (cases "max_scan \<le> ls_scanned st")
    case True
    with "2.prems" have "exhausted = False" "st' = stop_largest MaxScan st" "length done_fs = max_scan"
      by (auto simp: ranks_def)
    with "2.prems"(2) show ?thesis by (intro exI [of _ 0]) simp
  next
    case False
    then have run: "scan_page limit max_scan fs (scan_file limit f st) = (exhausted, st')"
      and len: "length (done_fs @ [f]) \<le> max_scan"
      using "2.prems" by (auto simp: ranks_def)
    have same: "ls_truncated (scan_file limit f st) = ls_truncated st" "ls_stop (scan_file limit f st) = ls_stop st"
      by (simp_all add: scan_file_def Let_def)
    from "2.IH" [OF False run scan_file_ranks [OF "2.prems"(2,3)] "2.prems"(3) len] same obtain k where
      "k \<le> length fs" "ranks limit (done_fs @ take (Suc k) (f # fs)) st'" "length done_fs + Suc k \<le> max_scan"
      "exhausted \<longrightarrow> k = length fs \<and> ls_truncated st' = ls_truncated st \<and> ls_stop st' = ls_stop st"
      "\<not> exhausted \<longrightarrow> length done_fs + Suc k = max_scan"
      by auto
    then show ?thesis by (intro exI [of _ "Suc k"]) auto
  qed
qed auto

text \<open>A listing that does not change: the files of the pages from a token on.\<close>

inductive names_chain :: "(jsstring option \<Rightarrow> names_page) \<Rightarrow> jsstring option \<Rightarrow> listed_file list \<Rightarrow> bool"
  for pg where
  last_names: "nonempty (np_next (pg tok)) = None \<Longrightarrow> names_chain pg tok (np_files (pg tok))"
| more_names: "nonempty (np_next (pg tok)) = Some t \<Longrightarrow> names_chain pg (Some t) fs \<Longrightarrow> names_chain pg tok (np_files (pg tok) @ fs)"

definition serves_names :: "'w native_io \<Rightarrow> (jsstring option \<Rightarrow> names_page) \<Rightarrow> bool" where
  "serves_names io pg \<longleftrightarrow> (\<forall>tok w. case fst (list_file_names io tok w) of Inl e \<Rightarrow> e = DeadlineError | Inr page \<Rightarrow> page = pg tok)"

lemma with_deadline_serves:
  "serves_names io pg \<Longrightarrow> with_deadline clock started (list_file_names io tok) w = (r, w') \<Longrightarrow>
     r = Inl DeadlineError \<or> r = Inr (pg tok)"
  by (auto simp: serves_names_def with_deadline_def split: prod.splits if_splits sum.splits)
    (metis fst_conv sum.case sum.exhaust)

text \<open>What the final state says: \<open>fs\<close> were scanned, \<open>rest\<close> were not.\<close>

definition largest_result :: "nat \<Rightarrow> nat \<Rightarrow> listed_file list \<Rightarrow> listed_file list \<Rightarrow> largest_state \<Rightarrow> bool" where
  "largest_result limit max_scan fs rest st \<longleftrightarrow> ranks limit fs st \<and> length fs \<le> max_scan
     \<and> (ls_truncated st \<longleftrightarrow> ls_stop st \<noteq> ScanComplete) \<and> (ls_stop st = ScanComplete \<longrightarrow> rest = [])
     \<and> (ls_stop st = MaxScan \<longrightarrow> length fs = max_scan)"

lemma largest_files_chain:
  "names_chain pg tok fs \<Longrightarrow> serves_names io pg \<Longrightarrow> 0 < limit \<Longrightarrow> ranks limit done_fs st \<Longrightarrow> length done_fs \<le> max_scan \<Longrightarrow>
     \<not> ls_truncated st \<Longrightarrow> ls_stop st = ScanComplete \<Longrightarrow>
     \<exists>st' w'. largest_files io started limit max_scan tok st w = Some (Inr st', w')
       \<and> (\<exists>k \<le> length fs. largest_result limit max_scan (done_fs @ take k fs) (drop k fs) st')"
proof (induction tok fs arbitrary: done_fs st w rule: names_chain.induct)
  case (last_names tok)
  obtain r w1 where d: "with_deadline (native_clock io) started (list_file_names io tok) w = (r, w1)" by fastforce
  show ?case
  proof (cases "r = Inr (pg tok)")
    case False
    with with_deadline_serves [OF last_names.prems(1) d] have "r = Inl DeadlineError" by simp
    with d last_names.prems show ?thesis
      by (subst largest_files.simps) (auto intro!: exI [of _ "0 :: nat"] simp: largest_result_def)
  next
    case True
    obtain ex st1 where p: "scan_page limit max_scan (np_files (pg tok)) st = (ex, st1)" by fastforce
    from scan_page_ranks [OF p last_names.prems(3,2,4)] obtain k where k: "k \<le> length (np_files (pg tok))"
      "ranks limit (done_fs @ take k (np_files (pg tok))) st1" "length done_fs + k \<le> max_scan"
      "ex \<longrightarrow> k = length (np_files (pg tok)) \<and> ls_truncated st1 = ls_truncated st \<and> ls_stop st1 = ls_stop st"
      "\<not> ex \<longrightarrow> length done_fs + k = max_scan" by blast
    have "ls_scanned st1 = length done_fs + k" using k(1,2) by (simp add: ranks_def)
    with d True p k last_names.hyps last_names.prems show ?thesis
      by (subst largest_files.simps) (cases ex; auto intro!: exI [of _ k] simp: largest_result_def)
  qed
next
  case (more_names tok t fs)
  obtain r w1 where d: "with_deadline (native_clock io) started (list_file_names io tok) w = (r, w1)" by fastforce
  show ?case
  proof (cases "r = Inr (pg tok)")
    case False
    with with_deadline_serves [OF more_names.prems(1) d] have "r = Inl DeadlineError" by simp
    with d more_names.prems show ?thesis
      by (subst largest_files.simps) (auto intro!: exI [of _ "0 :: nat"] simp: largest_result_def)
  next
    case True
    let ?pf = "np_files (pg tok)"
    obtain ex st1 where p: "scan_page limit max_scan ?pf st = (ex, st1)" by fastforce
    from scan_page_ranks [OF p more_names.prems(3,2,4)] obtain k where k: "k \<le> length ?pf"
      "ranks limit (done_fs @ take k ?pf) st1" "length done_fs + k \<le> max_scan"
      "ex \<longrightarrow> k = length ?pf \<and> ls_truncated st1 = ls_truncated st \<and> ls_stop st1 = ls_stop st"
      "\<not> ex \<longrightarrow> length done_fs + k = max_scan" by blast
    have n: "ls_scanned st1 = length done_fs + k" using k(1,2) by (simp add: ranks_def)
    obtain late w2 where o: "over_budget (native_clock io) started w1 = (late, w2)" by fastforce
    show ?thesis
    proof (cases "max_scan \<le> ls_scanned st1 \<or> late")
      case True
      then have "\<exists>why w'. largest_files io started limit max_scan tok st w = Some (Inr (stop_largest why st1), w')
          \<and> why \<noteq> ScanComplete \<and> (why = MaxScan \<longrightarrow> max_scan \<le> ls_scanned st1)"
        using d \<open>r = Inr (pg tok)\<close> p o more_names.hyps(1)
        by (subst largest_files.simps) (cases "max_scan \<le> ls_scanned st1"; auto)
      then obtain why w' where run: "largest_files io started limit max_scan tok st w = Some (Inr (stop_largest why st1), w')"
        "why \<noteq> ScanComplete" "why = MaxScan \<longrightarrow> max_scan \<le> ls_scanned st1" by blast
      have "largest_result limit max_scan (done_fs @ take k (?pf @ fs)) (drop k (?pf @ fs)) (stop_largest why st1)"
        using k(1-3) n run(2,3) by (auto simp: largest_result_def)
      with run(1) k(1) show ?thesis by (metis le_add1 le_trans length_append)
    next
      case False
      then have kk: "ex" "k = length ?pf" using k(4,5) n by (cases ex; auto)+
      have step: "largest_files io started limit max_scan tok st w = largest_files io started limit max_scan (Some t) st1 w2"
        using d \<open>r = Inr (pg tok)\<close> p o more_names.hyps(1) False kk(1) by (subst largest_files.simps) simp
      have "ranks limit (done_fs @ ?pf) st1" "length (done_fs @ ?pf) \<le> max_scan" "\<not> ls_truncated st1" "ls_stop st1 = ScanComplete"
        using k kk more_names.prems(5,6) by simp_all
      from more_names.IH [OF more_names.prems(1,2) this, of w2] obtain st' w' j where
        "largest_files io started limit max_scan (Some t) st1 w2 = Some (Inr st', w')" "j \<le> length fs"
        "largest_result limit max_scan ((done_fs @ ?pf) @ take j fs) (drop j fs) st'" by blast
      with step show ?thesis by (intro exI [of _ st'] exI [of _ w'] conjI exI [of _ "length ?pf + j"]) simp_all
    qed
  qed
qed

text \<open>
  (C31) \<open>b2_list_largest_files\<close> returns, and its bounded ranking is the right one: over a listing that
  does not change, the answer is the first \<open>limit\<close> entries of all the scanned files sorted by
  descending size, ties in the order of the listing, although only that many files are ever kept.
  The scan never exceeds \<open>max_scan\<close>, and an answer that is not marked truncated has seen every file.
\<close>

theorem largest_files_exact:
  assumes "serves_names io pg" "names_chain pg None fs" "0 < limit"
  shows "\<exists>st w' k. b2_list_largest_files io limit max_scan w = Some (Inr st, w') \<and> k \<le> length fs \<and> k \<le> max_scan
     \<and> ls_scanned st = k \<and> ls_top st = take limit (by_size (take k fs))
     \<and> (\<not> ls_truncated st \<longrightarrow> k = length fs) \<and> (ls_stop st = MaxScan \<longrightarrow> k = max_scan)"
proof -
  obtain started w1 where c: "native_clock io w = (started, w1)" by fastforce
  have "\<not> ls_truncated largest_start" "ls_stop largest_start = ScanComplete" by (simp_all add: largest_start_def)
  from largest_files_chain [OF assms(2,1,3) ranks_start _ this, of max_scan started w1] obtain st w' k where
    "largest_files io started limit max_scan None largest_start w1 = Some (Inr st, w')" "k \<le> length fs"
    "largest_result limit max_scan (take k fs) (drop k fs) st" by auto
  then show ?thesis
    by (intro exI [of _ st] exI [of _ w'] exI [of _ k])
      (auto simp: b2_list_largest_files_def c largest_result_def ranks_def)
qed

definition sample_names :: "jsstring option \<Rightarrow> names_page" where
  "sample_names tok = (if tok = None
     then \<lparr> np_files = [\<lparr> lf_name = js ''a'', lf_size = 1, lf_uploaded = None \<rparr>,
            \<lparr> lf_name = js ''b'', lf_size = 5, lf_uploaded = None \<rparr>], np_next = Some (js ''n'') \<rparr>
     else \<lparr> np_files = [\<lparr> lf_name = js ''c'', lf_size = 3, lf_uploaded = None \<rparr>], np_next = None \<rparr>)"

definition sample_native :: "unit native_io" where
  "sample_native = \<lparr> native_clock = (\<lambda>w. (0, w)), list_file_names = (\<lambda>tok w. (Inr (sample_names tok), w)) \<rparr>"

theorem largest_files_exact_witness:
  "\<exists>st w' k. b2_list_largest_files sample_native 2 50 () = Some (Inr st, w') \<and> k \<le> 3 \<and> k \<le> 50
     \<and> ls_scanned st = k
     \<and> ls_top st = take 2 (by_size (take k (np_files (sample_names None) @ np_files (sample_names (Some (js ''n''))))))
     \<and> (\<not> ls_truncated st \<longrightarrow> k = 3) \<and> (ls_stop st = MaxScan \<longrightarrow> k = 50)"
proof -
  have chain: "names_chain sample_names None (np_files (sample_names None) @ np_files (sample_names (Some (js ''n''))))"
    by (rule names_chain.more_names, simp add: sample_names_def nonempty_def, rule names_chain.last_names)
      (simp add: sample_names_def nonempty_def)
  have "serves_names sample_native sample_names" by (simp add: serves_names_def sample_native_def)
  moreover have "length (np_files (sample_names None) @ np_files (sample_names (Some (js ''n'')))) = 3"
    by (simp add: sample_names_def)
  ultimately show ?thesis using largest_files_exact [OF _ chain, of sample_native 2 50 "()"] by simp
qed

end
