(* ===== verification/Unfinished_Uploads.thy ===== *)
theory Unfinished_Uploads
  imports Largest_Files
begin

text \<open>
  \<open>b2_unfinished_uploads\<close> of \<open>src/b2/insights.ts\<close>: the bounded walk over the unfinished large files of
  a bucket, the sum of their parts under the same time budget, and the oldest of them. As in
  \<open>Largest_Files\<close> the listings and the clock are a parameter and the loops over pages are
  \<open>partial_function\<close>s. A start time that the service does not give counts as infinity.
\<close>

section \<open>The walk over the uploads\<close>

record unfinished_file =
  uf_id :: jsstring
  uf_name :: jsstring
  uf_started :: "int option"

record uploads_page =
  up_files :: "unfinished_file list"
  up_next :: "jsstring option"

record parts_page =
  pp_sizes :: "nat list"
  pp_next :: "int option"

record 'w uploads_io =
  up_clock :: "'w \<Rightarrow> int \<times> 'w"
  list_unfinished :: "jsstring option \<Rightarrow> 'w \<Rightarrow> (native_error + uploads_page) \<times> 'w"
  list_parts :: "jsstring \<Rightarrow> int option \<Rightarrow> 'w \<Rightarrow> (native_error + parts_page) \<times> 'w"

definition matchingUnfinishedUploads :: "int option \<Rightarrow> unfinished_file list \<Rightarrow> unfinished_file list" where
  "matchingUnfinishedUploads cutoff fs =
     filter (\<lambda>f. \<not> (case (cutoff, uf_started f) of (Some c, Some t) \<Rightarrow> c < t | _ \<Rightarrow> False)) fs"

datatype uploads_stop = UploadsComplete | MaxUploads | UploadsTime

partial_function (option) collect_uploads ::
  "'w uploads_io \<Rightarrow> int \<Rightarrow> int option \<Rightarrow> nat \<Rightarrow> jsstring option \<Rightarrow> unfinished_file list \<Rightarrow> 'w
    \<Rightarrow> ((native_error + unfinished_file list \<times> uploads_stop) \<times> 'w) option" where
  "collect_uploads io started cutoff max_uploads marker uploads w =
     (case with_deadline (up_clock io) started (list_unfinished io marker) w of
        (Inl e, w1) \<Rightarrow>
          (if e = DeadlineError then Some (Inr (uploads, UploadsTime), w1) else Some (Inl e, w1))
      | (Inr page, w1) \<Rightarrow>
          (let matching = matchingUnfinishedUploads cutoff (up_files page);
               slots = max_uploads - length uploads;
               uploads' = uploads @ take slots matching in
           if slots < length matching \<or> (up_next page \<noteq> None \<and> max_uploads \<le> length uploads')
           then Some (Inr (uploads', MaxUploads), w1)
           else case nonempty (up_next page) of
             None \<Rightarrow> Some (Inr (uploads', UploadsComplete), w1)
           | Some m \<Rightarrow>
               (case over_budget (up_clock io) started w1 of (late, w2) \<Rightarrow>
                  (if late then Some (Inr (uploads', UploadsTime), w2)
                   else collect_uploads io started cutoff max_uploads (Some m) uploads' w2))))"

section \<open>The sum of the parts\<close>

text \<open>The bytes summed so far, and whether the parts were listed to the end.\<close>

partial_function (option) sum_parts ::
  "'w uploads_io \<Rightarrow> int \<Rightarrow> jsstring \<Rightarrow> int option \<Rightarrow> nat \<Rightarrow> 'w \<Rightarrow> ((native_error + nat \<times> bool) \<times> 'w) option" where
  "sum_parts io started fid marker wasted w =
     (case with_deadline (up_clock io) started (list_parts io fid marker) w of
        (Inl e, w1) \<Rightarrow>
          (if e = DeadlineError then Some (Inr (wasted, False), w1) else Some (Inl e, w1))
      | (Inr page, w1) \<Rightarrow>
          (let wasted' = wasted + sum_list (pp_sizes page) in
           case pp_next page of
             None \<Rightarrow> Some (Inr (wasted', True), w1)
           | Some n \<Rightarrow> sum_parts io started fid (Some n) wasted' w1))"

record sizing =
  sz_wasted :: nat
  sz_oldest :: unfinished_file
  sz_lower_bound :: bool
  sz_sized :: nat

definition starts_before :: "unfinished_file \<Rightarrow> unfinished_file \<Rightarrow> bool" where
  "starts_before u v \<longleftrightarrow> (case uf_started u of None \<Rightarrow> False
     | Some t \<Rightarrow> (case uf_started v of None \<Rightarrow> True | Some t' \<Rightarrow> t < t'))"

definition note_oldest :: "unfinished_file \<Rightarrow> sizing \<Rightarrow> sizing" where
  "note_oldest u z = (if starts_before u (sz_oldest z) then z\<lparr> sz_oldest := u \<rparr> else z)"

fun size_uploads :: "'w uploads_io \<Rightarrow> int \<Rightarrow> unfinished_file list \<Rightarrow> sizing \<Rightarrow> 'w \<Rightarrow> ((native_error + sizing) \<times> 'w) option" where
  "size_uploads io started [] z w = Some (Inr z, w)"
| "size_uploads io started (u # us) z w =
     (let z1 = note_oldest u z in
      if sz_lower_bound z1 then size_uploads io started us z1 w
      else case sum_parts io started (uf_id u) None (sz_wasted z1) w of
        None \<Rightarrow> None
      | Some (Inl e, w1) \<Rightarrow> Some (Inl e, w1)
      | Some (Inr (wasted, completed), w1) \<Rightarrow>
          (case over_budget (up_clock io) started w1 of (late, w2) \<Rightarrow>
             size_uploads io started us
               (z1\<lparr> sz_wasted := wasted, sz_lower_bound := \<not> completed \<or> late,
                   sz_sized := (if completed then sz_sized z1 + 1 else sz_sized z1) \<rparr>) w2))"

text \<open>The answer: without uploads there is nothing to size.\<close>

record uploads_answer =
  ua_uploads :: "unfinished_file list"
  ua_stop :: uploads_stop
  ua_sizing :: "sizing option"

definition b2_unfinished_uploads :: "'w uploads_io \<Rightarrow> int option \<Rightarrow> nat \<Rightarrow> 'w \<Rightarrow> ((native_error + uploads_answer) \<times> 'w) option" where
  "b2_unfinished_uploads io older_than_days max_uploads w =
     (case (case older_than_days of None \<Rightarrow> (None, w)
            | Some d \<Rightarrow> (case up_clock io w of (now, w') \<Rightarrow> (Some (now - d * 86400000), w'))) of
        (cutoff, w1) \<Rightarrow>
      case up_clock io w1 of (started, w2) \<Rightarrow>
      case collect_uploads io started cutoff max_uploads None [] w2 of
        None \<Rightarrow> None
      | Some (Inl e, w3) \<Rightarrow> Some (Inl e, w3)
      | Some (Inr (uploads, stop), w3) \<Rightarrow>
          (case uploads of
             [] \<Rightarrow> Some (Inr \<lparr> ua_uploads = [], ua_stop = stop, ua_sizing = None \<rparr>, w3)
           | u # _ \<Rightarrow>
               (case size_uploads io started uploads
                   \<lparr> sz_wasted = 0, sz_oldest = u, sz_lower_bound = False, sz_sized = 0 \<rparr> w3 of
                  None \<Rightarrow> None
                | Some (Inl e, w4) \<Rightarrow> Some (Inl e, w4)
                | Some (Inr z, w4) \<Rightarrow> Some (Inr \<lparr> ua_uploads = uploads, ua_stop = stop, ua_sizing = Some z \<rparr>, w4))))"

section \<open>Listings that do not change\<close>

inductive uploads_chain :: "(jsstring option \<Rightarrow> uploads_page) \<Rightarrow> jsstring option \<Rightarrow> unfinished_file list \<Rightarrow> bool"
  for pg where
  last_uploads: "nonempty (up_next (pg tok)) = None \<Longrightarrow> uploads_chain pg tok (up_files (pg tok))"
| more_uploads: "nonempty (up_next (pg tok)) = Some t \<Longrightarrow> uploads_chain pg (Some t) fs \<Longrightarrow>
    uploads_chain pg tok (up_files (pg tok) @ fs)"

inductive parts_chain :: "(int option \<Rightarrow> parts_page) \<Rightarrow> int option \<Rightarrow> nat \<Rightarrow> bool" for pp where
  last_parts: "pp_next (pp tok) = None \<Longrightarrow> parts_chain pp tok (sum_list (pp_sizes (pp tok)))"
| more_parts: "pp_next (pp tok) = Some n \<Longrightarrow> parts_chain pp (Some n) s \<Longrightarrow> parts_chain pp tok (sum_list (pp_sizes (pp tok)) + s)"

definition serves_uploads :: "'w uploads_io \<Rightarrow> (jsstring option \<Rightarrow> uploads_page) \<Rightarrow> bool" where
  "serves_uploads io pg \<longleftrightarrow> (\<forall>tok w. case fst (list_unfinished io tok w) of Inl e \<Rightarrow> e = DeadlineError | Inr page \<Rightarrow> page = pg tok)"

definition serves_parts :: "'w uploads_io \<Rightarrow> (jsstring \<Rightarrow> int option \<Rightarrow> parts_page) \<Rightarrow> bool" where
  "serves_parts io pp \<longleftrightarrow> (\<forall>fid tok w. case fst (list_parts io fid tok w) of Inl e \<Rightarrow> e = DeadlineError | Inr page \<Rightarrow> page = pp fid tok)"

lemma deadline_cases:
  assumes "\<And>w. case fst (f w) of Inl e \<Rightarrow> e = DeadlineError | Inr page \<Rightarrow> page = p"
  obtains w' where "with_deadline clock started f w = (Inl DeadlineError, w')"
  | w' where "with_deadline clock started f w = (Inr p, w')"
proof -
  obtain r w1 where d: "with_deadline clock started f w = (r, w1)" by fastforce
  have "r = Inl DeadlineError \<or> r = Inr p"
  proof (cases "r = Inl DeadlineError")
    case False
    then have "\<exists>w0. r = fst (f w0)" using d by (auto simp: with_deadline_def split: prod.splits if_splits) (metis fst_conv)
    then show ?thesis using assms False by (cases r) (fastforce split: sum.splits)+
  qed simp
  with d that show thesis by blast
qed

lemma matching_append [simp]:
  "matchingUnfinishedUploads cutoff (fs @ gs) = matchingUnfinishedUploads cutoff fs @ matchingUnfinishedUploads cutoff gs"
  by (simp add: matchingUnfinishedUploads_def)

definition collected :: "nat \<Rightarrow> unfinished_file list \<Rightarrow> unfinished_file list \<Rightarrow> uploads_stop \<Rightarrow> bool" where
  "collected max_uploads all us stop \<longleftrightarrow> length us \<le> max_uploads \<and> prefix us all
     \<and> (stop = UploadsComplete \<longrightarrow> us = all) \<and> (stop = MaxUploads \<longrightarrow> length us = max_uploads)"

lemma collectedI_time: "length us \<le> max_uploads \<Longrightarrow> prefix us all \<Longrightarrow> collected max_uploads all us UploadsTime"
  by (simp add: collected_def)

lemma collect_page:
  assumes "length uploads \<le> max_uploads" "m = matchingUnfinishedUploads cutoff (up_files page)"
    and "uploads' = uploads @ take (max_uploads - length uploads) m"
  shows "length uploads' \<le> max_uploads" "prefix uploads' (uploads @ m)"
    "\<not> max_uploads - length uploads < length m \<Longrightarrow> uploads' = uploads @ m"
    "max_uploads - length uploads < length m \<Longrightarrow> length uploads' = max_uploads"
  using assms by (auto simp: take_is_prefix)

lemma collect_uploads_chain:
  "uploads_chain pg tok fs \<Longrightarrow> serves_uploads io pg \<Longrightarrow> length uploads \<le> max_uploads \<Longrightarrow>
     \<exists>us stop w'. collect_uploads io started cutoff max_uploads tok uploads w = Some (Inr (us, stop), w')
       \<and> collected max_uploads (uploads @ matchingUnfinishedUploads cutoff fs) us stop"
proof (induction tok fs arbitrary: uploads w rule: uploads_chain.induct)
  case (last_uploads tok)
  let ?m = "matchingUnfinishedUploads cutoff (up_files (pg tok))"
  let ?us = "uploads @ take (max_uploads - length uploads) ?m"
  note pf = collect_page [OF last_uploads.prems(2) refl refl, of cutoff "pg tok"]
  have sv: "\<And>w. case fst (list_unfinished io tok w) of Inl e \<Rightarrow> e = DeadlineError | Inr page \<Rightarrow> page = pg tok"
    using last_uploads.prems(1) by (simp add: serves_uploads_def)
  from sv show ?case
  proof (rule deadline_cases [where clock = "up_clock io" and started = started and w = w])
    fix w' assume "with_deadline (up_clock io) started (list_unfinished io tok) w = (Inl DeadlineError, w')"
    then show ?thesis using last_uploads.prems(2)
      by (subst collect_uploads.simps) (simp add: collectedI_time)
  next
    fix w' assume d: "with_deadline (up_clock io) started (list_unfinished io tok) w = (Inr (pg tok), w')"
    show ?thesis
    proof (cases "max_uploads - length uploads < length ?m \<or> (up_next (pg tok) \<noteq> None \<and> max_uploads \<le> length ?us)")
      case True
      then have "collect_uploads io started cutoff max_uploads tok uploads w = Some (Inr (?us, MaxUploads), w')"
        using d by (subst collect_uploads.simps) (simp only: prod.case sum.case Let_def if_True)
      moreover have "collected max_uploads (uploads @ ?m) ?us MaxUploads"
        using True pf by (auto simp: collected_def)
      ultimately show ?thesis by blast
    next
      case False
      then have "collect_uploads io started cutoff max_uploads tok uploads w = Some (Inr (?us, UploadsComplete), w')"
        using d last_uploads.hyps by (subst collect_uploads.simps) (simp only: prod.case sum.case Let_def if_False option.case)
      moreover have "collected max_uploads (uploads @ ?m) ?us UploadsComplete"
        using False pf by (auto simp: collected_def)
      ultimately show ?thesis by blast
    qed
  qed
next
  case (more_uploads tok t fs)
  let ?m = "matchingUnfinishedUploads cutoff (up_files (pg tok))"
  let ?all = "uploads @ matchingUnfinishedUploads cutoff (up_files (pg tok) @ fs)"
  let ?us = "uploads @ take (max_uploads - length uploads) ?m"
  note pf = collect_page [OF more_uploads.prems(2) refl refl, of cutoff "pg tok"]
  have pre: "prefix ?us ?all" using prefix_prefix [OF pf(2)] by simp
  have sv: "\<And>w. case fst (list_unfinished io tok w) of Inl e \<Rightarrow> e = DeadlineError | Inr page \<Rightarrow> page = pg tok"
    using more_uploads.prems(1) by (simp add: serves_uploads_def)
  from sv show ?case
  proof (rule deadline_cases [where clock = "up_clock io" and started = started and w = w])
    fix w' assume "with_deadline (up_clock io) started (list_unfinished io tok) w = (Inl DeadlineError, w')"
    then show ?thesis using more_uploads.prems(2)
      by (subst collect_uploads.simps) (simp add: collectedI_time)
  next
    fix w' assume d: "with_deadline (up_clock io) started (list_unfinished io tok) w = (Inr (pg tok), w')"
    obtain late w2 where o: "over_budget (up_clock io) started w' = (late, w2)" by fastforce
    show ?thesis
    proof (cases "max_uploads - length uploads < length ?m \<or> (up_next (pg tok) \<noteq> None \<and> max_uploads \<le> length ?us)")
      case True
      then have "collect_uploads io started cutoff max_uploads tok uploads w = Some (Inr (?us, MaxUploads), w')"
        using d by (subst collect_uploads.simps) (simp only: prod.case sum.case Let_def if_True)
      moreover have "collected max_uploads ?all ?us MaxUploads"
        using True pf pre by (auto simp: collected_def)
      ultimately show ?thesis by blast
    next
      case False
      then have run: "collect_uploads io started cutoff max_uploads tok uploads w = (if late then Some (Inr (?us, UploadsTime), w2)
          else collect_uploads io started cutoff max_uploads (Some t) ?us w2)"
        using d more_uploads.hyps(1) o by (subst collect_uploads.simps) (simp only: prod.case sum.case Let_def if_False option.case)
      show ?thesis
      proof (cases late)
        case True
        with run pf(1) pre show ?thesis by (auto intro: collectedI_time)
      next
        case nl: False
        have "?us = uploads @ ?m" using False pf(3) by blast
        with more_uploads.IH [OF more_uploads.prems(1) pf(1), of w2] run nl show ?thesis by simp
      qed
    qed
  qed
qed

lemma sum_parts_chain:
  "parts_chain (pp fid) tok s \<Longrightarrow> serves_parts io pp \<Longrightarrow>
     \<exists>total completed w'. sum_parts io started fid tok wasted w = Some (Inr (total, completed), w')
       \<and> wasted \<le> total \<and> total \<le> wasted + s \<and> (completed \<longrightarrow> total = wasted + s)"
proof (induction tok s arbitrary: wasted w rule: parts_chain.induct)
  case (last_parts tok)
  have sv: "\<And>w. case fst (list_parts io fid tok w) of Inl e \<Rightarrow> e = DeadlineError | Inr page \<Rightarrow> page = pp fid tok"
    using last_parts.prems by (simp add: serves_parts_def)
  from sv show ?case
  proof (rule deadline_cases [where clock = "up_clock io" and started = started and w = w])
    fix w' assume "with_deadline (up_clock io) started (list_parts io fid tok) w = (Inl DeadlineError, w')"
    then show ?thesis by (subst sum_parts.simps) (auto intro: exI [of _ False])
  next
    fix w' assume "with_deadline (up_clock io) started (list_parts io fid tok) w = (Inr (pp fid tok), w')"
    then show ?thesis by (subst sum_parts.simps) (auto simp: last_parts.hyps intro: exI [of _ True])
  qed
next
  case (more_parts tok n s)
  have sv: "\<And>w. case fst (list_parts io fid tok w) of Inl e \<Rightarrow> e = DeadlineError | Inr page \<Rightarrow> page = pp fid tok"
    using more_parts.prems by (simp add: serves_parts_def)
  from sv show ?case
  proof (rule deadline_cases [where clock = "up_clock io" and started = started and w = w])
    fix w' assume "with_deadline (up_clock io) started (list_parts io fid tok) w = (Inl DeadlineError, w')"
    then show ?thesis by (subst sum_parts.simps) (auto intro: exI [of _ False])
  next
    fix w' assume "with_deadline (up_clock io) started (list_parts io fid tok) w = (Inr (pp fid tok), w')"
    then have "sum_parts io started fid tok wasted w = sum_parts io started fid (Some n) (wasted + sum_list (pp_sizes (pp fid tok))) w'"
      using more_parts.hyps(1) by (subst sum_parts.simps) simp
    with more_parts.IH [OF more_parts.prems, of "wasted + sum_list (pp_sizes (pp fid tok))" w'] show ?thesis by auto
  qed
qed

section \<open>What the answer says\<close>

text \<open>\<open>size\<close> gives the true size of the parts of an upload.\<close>

definition sizing_right :: "(unfinished_file \<Rightarrow> nat) \<Rightarrow> unfinished_file list \<Rightarrow> sizing \<Rightarrow> bool" where
  "sizing_right size_of us z \<longleftrightarrow> sz_wasted z \<le> sum_list (map size_of us) \<and> sz_sized z \<le> length us
     \<and> (\<not> sz_lower_bound z \<longrightarrow> sz_wasted z = sum_list (map size_of us) \<and> sz_sized z = length us)
     \<and> (\<forall>u \<in> set us. \<not> starts_before u (sz_oldest z))"

lemma starts_before_trans: "\<not> starts_before u v \<Longrightarrow> starts_before w v \<Longrightarrow> \<not> starts_before u w"
  by (auto simp: starts_before_def split: option.splits)

lemma note_oldest_fields [simp]:
  "sz_wasted (note_oldest u z) = sz_wasted z" "sz_lower_bound (note_oldest u z) = sz_lower_bound z"
  "sz_sized (note_oldest u z) = sz_sized z"
  by (simp_all add: note_oldest_def)

lemma note_oldest_oldest:
  "\<forall>v \<in> set us. \<not> starts_before v (sz_oldest z) \<Longrightarrow> \<forall>v \<in> set (us @ [u]). \<not> starts_before v (sz_oldest (note_oldest u z))"
  by (auto simp: note_oldest_def dest: starts_before_trans) (auto simp: starts_before_def split: option.splits)

lemma note_oldest_mem: "sz_oldest (note_oldest u z) \<in> {u, sz_oldest z}"
  by (simp add: note_oldest_def)

lemma size_uploads_right:
  assumes "serves_parts io pp"
  shows "sizing_right size_of seen z \<Longrightarrow> \<forall>u \<in> set us. parts_chain (pp (uf_id u)) None (size_of u) \<Longrightarrow>
    \<exists>z' w'. size_uploads io started us z w = Some (Inr z', w') \<and> sizing_right size_of (seen @ us) z'
      \<and> sz_oldest z' \<in> insert (sz_oldest z) (set us)"
proof (induction us arbitrary: seen z w)
  case (Cons u us)
  let ?z = "note_oldest u z"
  have old: "\<forall>v \<in> set (seen @ [u]). \<not> starts_before v (sz_oldest ?z)"
    using note_oldest_oldest [of seen z u] Cons.prems(1) by (simp add: sizing_right_def)
  show ?case
  proof (cases "sz_lower_bound ?z")
    case True
    then have "sizing_right size_of (seen @ [u]) ?z" using Cons.prems(1) old by (auto simp: sizing_right_def)
    from Cons.IH [OF this, of w] Cons.prems(2) True note_oldest_mem [of u z] show ?thesis by auto
  next
    case False
    obtain total completed w1 where s: "sum_parts io started (uf_id u) None (sz_wasted ?z) w = Some (Inr (total, completed), w1)"
      and t: "sz_wasted ?z \<le> total" "total \<le> sz_wasted ?z + size_of u" "completed \<longrightarrow> total = sz_wasted ?z + size_of u"
      using sum_parts_chain [OF _ assms, of "uf_id u" None "size_of u" started "sz_wasted ?z" w] Cons.prems(2)
      by (auto simp del: note_oldest_fields)
    obtain late w2 where o: "over_budget (up_clock io) started w1 = (late, w2)" by fastforce
    let ?z1 = "?z\<lparr> sz_wasted := total, sz_lower_bound := \<not> completed \<or> late,
        sz_sized := (if completed then sz_sized ?z + 1 else sz_sized ?z) \<rparr>"
    have run: "size_uploads io started (u # us) z w = size_uploads io started us ?z1 w2"
      using False s o by (simp add: Let_def)
    have "sizing_right size_of (seen @ [u]) ?z1"
      using Cons.prems(1) False t old by (auto simp: sizing_right_def)
    from Cons.IH [OF this, of w2] Cons.prems(2) run note_oldest_mem [of u z] show ?thesis by auto
  qed
qed auto

text \<open>
  (C34) \<open>b2_unfinished_uploads\<close> returns, and says no more than it knows: over listings that do not
  change, the uploads are the first of the matching ones, at most \<open>max_uploads\<close> of them, and all of them
  when the answer is not marked truncated; the wasted bytes never exceed what the uploads hold, and
  are exact, over every upload listed, when they are not marked a lower bound; and the oldest upload
  is one of them that none of them started before.
\<close>

theorem unfinished_uploads_exact:
  assumes "serves_uploads io pg" "uploads_chain pg None fs"
    and "serves_parts io pp" "\<And>u. u \<in> set fs \<Longrightarrow> parts_chain (pp (uf_id u)) None (size_of u)"
  shows "\<exists>a w'. b2_unfinished_uploads io older_than_days max_uploads w = Some (Inr a, w')
     \<and> collected max_uploads
         (matchingUnfinishedUploads (map_option (\<lambda>d. fst (up_clock io w) - d * 86400000) older_than_days) fs)
         (ua_uploads a) (ua_stop a)
     \<and> (case ua_sizing a of None \<Rightarrow> ua_uploads a = []
        | Some z \<Rightarrow> sizing_right size_of (ua_uploads a) z \<and> sz_oldest z \<in> set (ua_uploads a))"
proof -
  let ?cutoff = "map_option (\<lambda>d. fst (up_clock io w) - d * 86400000) older_than_days"
  obtain w1 where c: "(case older_than_days of None \<Rightarrow> (None, w)
      | Some d \<Rightarrow> (case up_clock io w of (now, w') \<Rightarrow> (Some (now - d * 86400000), w'))) = (?cutoff, w1)"
    by (cases older_than_days; cases "up_clock io w") simp_all
  obtain started w2 where s: "up_clock io w1 = (started, w2)" by fastforce
  obtain us stop w3 where col: "collect_uploads io started ?cutoff max_uploads None [] w2 = Some (Inr (us, stop), w3)"
    "collected max_uploads (matchingUnfinishedUploads ?cutoff fs) us stop"
    using collect_uploads_chain [OF assms(2,1), of "[]" max_uploads started ?cutoff w2] by auto
  have "set us \<subseteq> set fs"
    using col(2) set_mono_prefix by (fastforce simp: collected_def matchingUnfinishedUploads_def)
  with assms(4) have parts: "\<forall>u \<in> set us. parts_chain (pp (uf_id u)) None (size_of u)" by blast
  show ?thesis
  proof (cases us)
    case Nil
    with c s col show ?thesis by (auto simp: b2_unfinished_uploads_def)
  next
    case (Cons u rest)
    let ?z = "\<lparr> sz_wasted = 0, sz_oldest = u, sz_lower_bound = False, sz_sized = 0 \<rparr>"
    have "sizing_right size_of [] ?z" by (simp add: sizing_right_def)
    from size_uploads_right [OF assms(3) this parts, of started w3] obtain z w4 where
      z: "size_uploads io started us ?z w3 = Some (Inr z, w4)" "sizing_right size_of us z" "sz_oldest z \<in> set us"
      using Cons by auto
    with c s col Cons show ?thesis
      by (intro exI [of _ "\<lparr> ua_uploads = us, ua_stop = stop, ua_sizing = Some z \<rparr>"] exI [of _ w4])
        (simp add: b2_unfinished_uploads_def)
  qed
qed

definition sample_uploads :: "unit uploads_io" where
  "sample_uploads = \<lparr> up_clock = (\<lambda>w. (0, w)),
     list_unfinished = (\<lambda>tok w. (Inr \<lparr> up_files = [\<lparr> uf_id = js ''1'', uf_name = js ''a'', uf_started = Some 7 \<rparr>], up_next = None \<rparr>, w)),
     list_parts = (\<lambda>fid tok w. (Inr \<lparr> pp_sizes = [5, 6], pp_next = None \<rparr>, w)) \<rparr>"

theorem unfinished_uploads_exact_witness:
  "\<exists>a w'. b2_unfinished_uploads sample_uploads None 10 () = Some (Inr a, w')
     \<and> collected 10 (matchingUnfinishedUploads (map_option (\<lambda>d. fst (up_clock sample_uploads ()) - d * 86400000) None) [\<lparr> uf_id = js ''1'', uf_name = js ''a'', uf_started = Some 7 \<rparr>]) (ua_uploads a) (ua_stop a)
     \<and> (case ua_sizing a of None \<Rightarrow> ua_uploads a = []
        | Some z \<Rightarrow> sizing_right (\<lambda>u. 11) (ua_uploads a) z \<and> sz_oldest z \<in> set (ua_uploads a))"
proof (rule unfinished_uploads_exact)
  let ?p = "\<lparr> up_files = [\<lparr> uf_id = js ''1'', uf_name = js ''a'', uf_started = Some 7 \<rparr>], up_next = None \<rparr> :: uploads_page"
  let ?q = "\<lparr> pp_sizes = [5, 6], pp_next = None \<rparr> :: parts_page"
  show "serves_uploads sample_uploads (\<lambda>tok. ?p)" "serves_parts sample_uploads (\<lambda>fid tok. ?q)"
    by (simp_all add: serves_uploads_def serves_parts_def sample_uploads_def)
  show "uploads_chain (\<lambda>tok. ?p) None [\<lparr> uf_id = js ''1'', uf_name = js ''a'', uf_started = Some 7 \<rparr>]"
    using uploads_chain.last_uploads [of "\<lambda>tok. ?p" None] by (simp add: nonempty_def)
  show "parts_chain ((\<lambda>fid tok. ?q) (uf_id u)) None 11" for u
    using parts_chain.last_parts [of "\<lambda>tok. ?q" None] by simp
qed

end
