(* ===== verification/Bucket_Resolution.thy ===== *)
theory Bucket_Resolution
  imports Usage_Rows
begin

text \<open>
  How the live listing tools of \<open>src/b2/insights.ts\<close> find the bucket they are asked about: from the
  scope of a restricted key, or from the account's listing, by exact name or identifier and else by a
  part of the name; and what an answer discloses of the scope.
\<close>

section \<open>Resolving a bucket\<close>

text \<open>
  \<open>resolveFromAuthorizedScope\<close> and \<open>resolveBucketName\<close>. A bucket of the key's scope may lack its
  name, a bucket of a listing may lack either field; the empty string counts as lacking where the
  code tests it for truth.
\<close>

record scoped_bucket =
  sb_name :: "jsstring option"
  sb_id :: jsstring

record listed_bucket =
  lb_name :: "jsstring option"
  lb_id :: "jsstring option"

record resolution =
  rb_name :: "jsstring option"
  rb_id :: "jsstring option"
  rb_candidates :: "jsstring list option"
  rb_out_of_scope :: bool

definition no_resolution :: resolution where
  "no_resolution = \<lparr> rb_name = None, rb_id = None, rb_candidates = None, rb_out_of_scope = False \<rparr>"

definition resolved_to :: "jsstring \<Rightarrow> jsstring \<Rightarrow> resolution" where
  "resolved_to name bid = no_resolution\<lparr> rb_name := Some name, rb_id := Some bid \<rparr>"

definition name_includes :: "jsstring option \<Rightarrow> jsstring \<Rightarrow> bool" where
  "name_includes name input = (case name of None \<Rightarrow> False | Some n \<Rightarrow> js_includes n input)"

text \<open>No exact hit: the buckets of the scope whose name contains the input.\<close>

definition scoped_partial :: "scoped_bucket list \<Rightarrow> resolution" where
  "scoped_partial subs =
     (case (if length subs = 1 then nonempty (sb_name (hd subs)) else None) of
        Some n \<Rightarrow> resolved_to n (sb_id (hd subs))
      | None \<Rightarrow>
          (if 1 < length subs
           then no_resolution\<lparr> rb_candidates := Some (List.map_filter (\<lambda>b. nonempty (sb_name b)) subs) \<rparr>
           else no_resolution\<lparr> rb_out_of_scope := True \<rparr>))"

definition resolveFromAuthorizedScope :: "scoped_bucket list option \<Rightarrow> jsstring \<Rightarrow> resolution option" where
  "resolveFromAuthorizedScope allowed input =
     (case allowed of None \<Rightarrow> None
      | Some bs \<Rightarrow>
          (if bs = [] then None
           else if js_trim input = [] then Some (no_resolution\<lparr> rb_out_of_scope := True \<rparr>)
           else case List.find (\<lambda>b. sb_name b = Some input \<or> sb_id b = input) bs of
             Some b \<Rightarrow> Some (resolved_to (case sb_name b of None \<Rightarrow> input | Some n \<Rightarrow> n) (sb_id b))
           | None \<Rightarrow> Some (scoped_partial (filter (\<lambda>b. name_includes (sb_name b) input) bs))))"

definition resolveBucketName :: "scoped_bucket list option \<Rightarrow> listed_bucket list \<Rightarrow> jsstring \<Rightarrow> resolution" where
  "resolveBucketName allowed buckets input =
     (case resolveFromAuthorizedScope allowed input of
        Some r \<Rightarrow> r
      | None \<Rightarrow>
          (let exact = List.find (\<lambda>b. lb_name b = Some input \<or> lb_id b = Some input) buckets;
               subs = filter (\<lambda>b. name_includes (lb_name b) input) buckets;
               full = (\<lambda>b. case (nonempty (lb_name b), nonempty (lb_id b)) of
                  (Some n, Some i) \<Rightarrow> Some (resolved_to n i) | _ \<Rightarrow> None) in
           case (case exact of Some b \<Rightarrow> full b | None \<Rightarrow> None) of
             Some r \<Rightarrow> r
           | None \<Rightarrow>
               (case (if length subs = 1 then full (hd subs) else None) of
                  Some r \<Rightarrow> r
                | None \<Rightarrow>
                    (if 1 < length subs
                     then no_resolution\<lparr> rb_candidates := Some (List.map_filter (\<lambda>b. nonempty (lb_name b)) subs) \<rparr>
                     else no_resolution))))"

text \<open>The error object for a bucket that is not resolved: its code and its candidates.\<close>

datatype resolution_error = NotUniquelyResolved "jsstring list" bool | BucketIdUnavailable

definition bucketResolutionError :: "resolution \<Rightarrow> resolution_error option" where
  "bucketResolutionError r =
     (if nonempty (rb_name r) = None
      then Some (NotUniquelyResolved (case rb_candidates r of None \<Rightarrow> [] | Some cs \<Rightarrow> cs) (rb_out_of_scope r))
      else if nonempty (rb_id r) = None then Some BucketIdUnavailable else None)"

text \<open>The names that an answer discloses.\<close>

definition disclosed_names :: "resolution \<Rightarrow> jsstring set" where
  "disclosed_names r = (case rb_name r of None \<Rightarrow> {} | Some n \<Rightarrow> {n}) \<union> (case rb_candidates r of None \<Rightarrow> {} | Some cs \<Rightarrow> set cs)"

lemma disclosed_simps [simp]:
  "disclosed_names (resolved_to n i) = {n}" "disclosed_names no_resolution = {}"
  "disclosed_names (no_resolution\<lparr> rb_out_of_scope := x \<rparr>) = {}"
  "disclosed_names (no_resolution\<lparr> rb_candidates := Some cs \<rparr>) = set cs"
  by (simp_all add: disclosed_names_def resolved_to_def no_resolution_def)

lemma find_facts: "List.find P xs = Some x \<Longrightarrow> x \<in> set xs \<and> P x"
  by (auto simp: find_Some_iff)

lemma single_hd: "length xs = 1 \<Longrightarrow> hd xs \<in> set xs"
  by (cases xs) auto

lemma scope_total: "resolveFromAuthorizedScope (Some bs) input = None \<longleftrightarrow> bs = []"
  by (simp add: resolveFromAuthorizedScope_def split: option.splits)

lemma scoped_partial_cases:
  "(\<forall>i. rb_id (scoped_partial subs) = Some i \<longrightarrow> (\<exists>b \<in> set subs. sb_id b = i))
   \<and> disclosed_names (scoped_partial subs) \<subseteq> {n. \<exists>b \<in> set subs. sb_name b = Some n}"
proof (cases "if length subs = 1 then nonempty (sb_name (hd subs)) else None")
  case (Some n)
  then have "hd subs \<in> set subs" "sb_name (hd subs) = Some n"
    by (auto simp: nonempty_Some single_hd split: if_splits)
  moreover have "scoped_partial subs = resolved_to n (sb_id (hd subs))" unfolding scoped_partial_def Some by simp
  ultimately show ?thesis by (auto simp: resolved_to_def no_resolution_def disclosed_names_def)
next
  case None
  then show ?thesis unfolding scoped_partial_def None
    by (auto simp: no_resolution_def disclosed_names_def set_map_filter nonempty_Some)
qed

lemma scope_result:
  assumes "resolveFromAuthorizedScope (Some bs) input = Some r"
  shows "(\<forall>i. rb_id r = Some i \<longrightarrow> (\<exists>b \<in> set bs. sb_id b = i))
    \<and> disclosed_names r \<subseteq> {input} \<union> {n. \<exists>b \<in> set bs. sb_name b = Some n \<and> (js_includes n input \<or> sb_id b = input)}
    \<and> (js_trim input = [] \<longrightarrow> disclosed_names r = {} \<and> rb_id r = None)"
proof -
  have "bs \<noteq> []" using assms by (auto simp: resolveFromAuthorizedScope_def)
  consider (blank) "js_trim input = []" "r = no_resolution\<lparr> rb_out_of_scope := True \<rparr>"
    | (exact) b where "js_trim input \<noteq> []" "b \<in> set bs" "sb_name b = Some input \<or> sb_id b = input"
        "r = resolved_to (case sb_name b of None \<Rightarrow> input | Some n \<Rightarrow> n) (sb_id b)"
    | (part) "js_trim input \<noteq> []" "r = scoped_partial (filter (\<lambda>b. name_includes (sb_name b) input) bs)"
    using assms \<open>bs \<noteq> []\<close> find_facts [of "\<lambda>b. sb_name b = Some input \<or> sb_id b = input" bs]
    by (fastforce simp: resolveFromAuthorizedScope_def split: if_splits option.splits)
  then show ?thesis
  proof cases
    case exact
    then show ?thesis by (auto simp: resolved_to_def no_resolution_def disclosed_names_def split: option.splits)
  next
    case part
    then show ?thesis
      using scoped_partial_cases [of "filter (\<lambda>b. name_includes (sb_name b) input) bs"]
      by (fastforce simp: name_includes_def)
  qed (auto simp: no_resolution_def disclosed_names_def)
qed

text \<open>
  (C32) A key that is restricted to buckets resolves a name only inside its scope: the identifier that
  the tools then use is that of a bucket of the scope, the live listing plays no part, and an answer
  discloses no name but the caller's own input and names of the scope that contain it or whose
  identifier it is; blank input discloses nothing.
\<close>

theorem bucket_scope_confined:
  assumes "bs \<noteq> []"
  shows "(\<forall>i. rb_id (resolveBucketName (Some bs) buckets input) = Some i \<longrightarrow> (\<exists>b \<in> set bs. sb_id b = i))
    \<and> resolveBucketName (Some bs) buckets input = resolveBucketName (Some bs) [] input
    \<and> disclosed_names (resolveBucketName (Some bs) buckets input)
        \<subseteq> {input} \<union> {n. \<exists>b \<in> set bs. sb_name b = Some n \<and> (js_includes n input \<or> sb_id b = input)}
    \<and> (js_trim input = [] \<longrightarrow> disclosed_names (resolveBucketName (Some bs) buckets input) = {})"
proof -
  obtain r where r: "resolveFromAuthorizedScope (Some bs) input = Some r"
    using assms scope_total [of bs input] by blast
  then have "resolveBucketName (Some bs) bks input = r" for bks by (simp add: resolveBucketName_def)
  with scope_result [OF r] show ?thesis by simp
qed

theorem bucket_scope_confined_witness:
  "disclosed_names (resolveBucketName (Some [\<lparr> sb_name = Some (js ''photos''), sb_id = js ''1'' \<rparr>]) [] (js ''x''))
     \<subseteq> {js ''x''} \<union> {n. \<exists>b \<in> set [\<lparr> sb_name = Some (js ''photos''), sb_id = js ''1'' \<rparr>].
         sb_name b = Some n \<and> (js_includes n (js ''x'') \<or> sb_id b = js ''x'')}"
  using bucket_scope_confined [of "[\<lparr> sb_name = Some (js ''photos''), sb_id = js ''1'' \<rparr>]" "[]" "js ''x''"] by blast

end
