(* ===== verification/Credentials.thy ===== *)
theory Credentials
  imports Secret_Ledger
begin

text \<open>
  Credential routing (\<open>src/credentials.ts\<close>): where the credentials of a request come from and which
  runtime configuration they give. The raw material and its validation, the fingerprints that key the
  caches, and the four providers: the environment of a local process, the headers of a request, the
  environment of the server, and the credential that the map of principals assigns to the verified
  subject. The environment, SHA-256, \<open>JSON.parse\<close> and the file system of the secret sink are parameters,
  gathered in one record; the warning about retired variable names is logging.
\<close>

section \<open>Material and configuration\<close>

datatype credential_failure =
    CredentialResolutionError jsstring nat jsstring
  | SinkConfigError sink_config_error

record cred_world =
  cw_env :: env
  cw_fs :: sink_fs
  cw_sha256_hex :: "jsstring \<Rightarrow> jsstring"
  cw_json_parse :: "jsstring \<Rightarrow> jsval option"

record credential_material =
  cm_applicationKeyId :: "jsstring option"
  cm_applicationKey :: "jsstring option"
  cm_masterKeyId :: "jsstring option"
  cm_masterKey :: "jsstring option"

record config_options =
  co_transport :: transport
  co_allowLocalFiles :: bool
  co_fileRoot :: "jsstring option"
  co_strictOptionalPairs :: bool

record credential_resolution =
  res_config :: b2_config
  res_cacheKey :: jsstring
  res_capabilityCacheKey :: jsstring
  res_principal :: "jsstring option"

definition DEFAULT_REGION :: jsstring where
  "DEFAULT_REGION = js ''us-west-004''"

definition DISCOVERY_MODE_CREDENTIAL :: jsstring where
  "DISCOVERY_MODE_CREDENTIAL = js ''b2-mcp-discovery-mode''"

definition credentialFingerprint_of :: "cred_world \<Rightarrow> jsstring \<Rightarrow> jsstring" where
  "credentialFingerprint_of w v = take 16 (cw_sha256_hex w v)"

definition fingerprintConfig :: "cred_world \<Rightarrow> b2_config \<Rightarrow> jsstring" where
  "fingerprintConfig w config =
     credentialFingerprint_of w
       (js_join [0] [applicationKeyId config, appKeyId config, masterKeyId config, region config])"

definition verification_text :: "b2_config \<Rightarrow> jsstring" where
  "verification_text config =
     js_join [0]
       [js ''b2-mcp-credential-verifier-v1'', applicationKeyId config, applicationKey config,
        appKeyId config, appKey config, masterKeyId config, masterKey config, region config]"

definition verificationFingerprintConfig :: "cred_world \<Rightarrow> b2_config \<Rightarrow> jsstring" where
  "verificationFingerprintConfig w config = credentialFingerprint_of w (verification_text config)"

definition capabilityCacheKeyForConfig :: "cred_world \<Rightarrow> jsstring \<Rightarrow> b2_config \<Rightarrow> jsstring" where
  "capabilityCacheKeyForConfig w key_prefix config =
     key_prefix @ js '':'' @ verificationFingerprintConfig w config"

definition callerFingerprintForConfig :: "cred_world \<Rightarrow> b2_config \<Rightarrow> jsstring \<Rightarrow> jsstring" where
  "callerFingerprintForConfig w config callerScope =
     credentialFingerprint_of w
       (js_join [0]
         [case credentialFingerprint config of Some f \<Rightarrow> f | None \<Rightarrow> fingerprintConfig w config,
          callerScope])"

definition resolveDestructivePolicy :: "env \<Rightarrow> transport \<Rightarrow> jsstring" where
  "resolveDestructivePolicy env t =
     (case env (js ''B2_DESTRUCTIVE_POLICY'') of
        Some v \<Rightarrow>
          if v \<in> {js ''allow'', js ''block'', js ''confirm'', js ''elicit''} then v
          else if t = Http then js ''block'' else js ''confirm''
      | None \<Rightarrow> if t = Http then js ''block'' else js ''confirm'')"

definition resolveOptionalPair ::
  "jsstring option \<Rightarrow> jsstring option \<Rightarrow> jsstring \<Rightarrow> jsstring \<Rightarrow> jsstring \<Rightarrow> bool \<Rightarrow>
     credential_failure + jsstring \<times> jsstring" where
  "resolveOptionalPair i k fallbackId fallbackKey label strict =
     (case (nonempty i, nonempty k) of
        (Some i', Some k') \<Rightarrow> Inr (i', k')
      | (None, None) \<Rightarrow> Inr (fallbackId, fallbackKey)
      | _ \<Rightarrow>
          if strict
          then Inl (CredentialResolutionError (label @ js '' must include both id and secret'') 400
                 (js ''partial_credential''))
          else Inr (fallbackId, fallbackKey))"

text \<open>The message of an exception that is not thrown with a message of the program's is the engine's.\<close>

fun throw_message :: "js_throw \<Rightarrow> jsstring" where
  "throw_message (ThrownError m) = m"
| "throw_message TypeError = js ''TypeError''"
| "throw_message RangeError = js ''RangeError''"

definition resolveOutputFormat :: "env \<Rightarrow> credential_failure + output_format" where
  "resolveOutputFormat env =
     (case js_bind (parseMcpOutputFormat (env (js ''B2_MCP_OUTPUT_FORMAT''))) (\<lambda>f.
             js_bind (preflightMcpOutputFormat f) (\<lambda>_. Inr f)) of
        Inr f \<Rightarrow> Inr f
      | Inl e \<Rightarrow> Inl (CredentialResolutionError (throw_message e) 500 (js ''invalid_output_format'')))"

fun output_format_name :: "output_format \<Rightarrow> jsstring" where
  "output_format_name FormatJson = js ''json''"
| "output_format_name FormatToon = js ''toon''"

definition sink_config_of ::
  "cred_world \<Rightarrow> transport \<Rightarrow> bool \<Rightarrow> credential_failure + secret_sink" where
  "sink_config_of w t preflight =
     (case resolveSecretSinkConfig (cw_fs w) (cw_env w) t preflight None of
        Inl e \<Rightarrow> Inl (SinkConfigError e) | Inr s \<Rightarrow> Inr s)"

definition configFromMaterial ::
  "cred_world \<Rightarrow> credential_material \<Rightarrow> config_options \<Rightarrow> credential_failure + b2_config" where
  "configFromMaterial w material options =
     (case (nonempty (cm_applicationKeyId material), nonempty (cm_applicationKey material)) of
        (Some keyId, Some key) \<Rightarrow>
          js_bind (resolveOptionalPair (cm_masterKeyId material) (cm_masterKey material) keyId key
                     (js ''B2 master key'') (co_strictOptionalPairs options)) (\<lambda>master.
          js_bind (resolveOutputFormat (cw_env w)) (\<lambda>format.
          js_bind (sink_config_of w (co_transport options) (co_transport options = Stdio)) (\<lambda>sink.
          (let config =
             \<lparr> applicationKeyId = keyId, applicationKey = key, appKeyId = keyId, appKey = key,
               masterKeyId = fst master, masterKey = snd master,
               region = (case nonempty (map_option js_trim (cw_env w (js ''B2_REGION''))) of
                           Some r \<Rightarrow> r | None \<Rightarrow> DEFAULT_REGION),
               allowLocalFiles = co_allowLocalFiles options, fileRoot = co_fileRoot options,
               destructivePolicy = Some (resolveDestructivePolicy (cw_env w) (co_transport options)),
               outputFormat = Some (output_format_name format),
               transport = Some (co_transport options), secretSink = Some sink,
               credentialFingerprint = None, callerFingerprint = None,
               enableMcpPrompts =
                 Some (cw_env w (js ''B2_ENABLE_MCP_PROMPTS'') = Some (js ''true'')) \<rparr>
           in Inr (config\<lparr> credentialFingerprint := Some (fingerprintConfig w config) \<rparr>)))))
      | _ \<Rightarrow> Inl (CredentialResolutionError (js ''B2 application credentials are required'') 401
               (js ''missing_credentials'')))"

definition envMaterial :: "env \<Rightarrow> jsstring \<Rightarrow> credential_material" where
  "envMaterial env p =
     \<lparr> cm_applicationKeyId = env (p @ js ''_APPLICATION_KEY_ID''),
       cm_applicationKey = env (p @ js ''_APPLICATION_KEY''),
       cm_masterKeyId = env (p @ js ''_MASTER_KEY_ID''),
       cm_masterKey = env (p @ js ''_MASTER_KEY'') \<rparr>"

section \<open>The headers of a request\<close>

datatype header_value = HeaderText jsstring | HeaderList "jsstring list"

type_synonym http_headers = "(jsstring \<times> header_value) list"

definition HEADER_keyId :: "jsstring list" where "HEADER_keyId = [js ''x-b2-mcp-key-id'']"
definition HEADER_key :: "jsstring list" where "HEADER_key = [js ''x-b2-mcp-key'']"
definition HEADER_masterKeyId :: "jsstring list" where "HEADER_masterKeyId = [js ''x-b2-mcp-master-key-id'']"
definition HEADER_masterKey :: "jsstring list" where "HEADER_masterKey = [js ''x-b2-mcp-master-key'']"

definition CREDENTIAL_HEADER_DETECTION_NAMES :: "jsstring list" where
  "CREDENTIAL_HEADER_DETECTION_NAMES =
     HEADER_keyId @ HEADER_key @ HEADER_masterKeyId @ HEADER_masterKey @
     [js ''x-b2-key-id'', js ''x-b2-key'', js ''x-b2-master-key-id'', js ''x-b2-master-key'',
      js ''x-b2-app-key-id'', js ''x-b2-app-key'', js ''x-b2-mcp-app-key-id'', js ''x-b2-mcp-app-key'']"

fun header_texts :: "header_value \<Rightarrow> jsstring list" where
  "header_texts (HeaderText v) = [v]"
| "header_texts (HeaderList vs) = vs"

definition valueFromHeader :: "http_headers \<Rightarrow> jsstring list \<Rightarrow> credential_failure + jsstring option" where
  "valueFromHeader headers names =
     (let values = concat (map header_texts (List.map_filter (map_of headers) names));
          unique = js_unique values
      in if 1 < length unique
         then Inl (CredentialResolutionError (js ''Conflicting B2 credential headers'') 400
                (js ''conflicting_headers''))
         else Inr (case unique of [] \<Rightarrow> None | v # vs \<Rightarrow> Some v))"

definition headerMaterial :: "http_headers \<Rightarrow> credential_failure + credential_material" where
  "headerMaterial headers =
     js_bind (valueFromHeader headers HEADER_keyId) (\<lambda>keyId.
     js_bind (valueFromHeader headers HEADER_key) (\<lambda>key.
     js_bind (valueFromHeader headers HEADER_masterKeyId) (\<lambda>masterId.
     js_bind (valueFromHeader headers HEADER_masterKey) (\<lambda>master.
     Inr \<lparr> cm_applicationKeyId = keyId, cm_applicationKey = key,
           cm_masterKeyId = masterId, cm_masterKey = master \<rparr>))))"

definition hasCredentialHeaders :: "http_headers \<Rightarrow> bool" where
  "hasCredentialHeaders headers \<longleftrightarrow>
     (\<exists>h \<in> set headers. ascii_lower (fst h) \<in> set CREDENTIAL_HEADER_DETECTION_NAMES)"

definition httpConfigOptions :: "env \<Rightarrow> config_options" where
  "httpConfigOptions env =
     \<lparr> co_transport = Http,
       co_allowLocalFiles = (env (js ''B2_ALLOW_LOCAL_FILES'') = Some (js ''true'') \<and>
         nonempty (env (js ''B2_FILE_ROOT'')) \<noteq> None),
       co_fileRoot = env (js ''B2_FILE_ROOT''), co_strictOptionalPairs = True \<rparr>"

section \<open>Principals\<close>

text \<open>
  \<open>AuthInfo\<close> of the MCP SDK: what a verifier attaches to a request. The expiry is a finite number or absent,
  the resource is the text of its URL.
\<close>

record auth_info =
  ai_token :: jsstring
  ai_clientId :: jsstring
  ai_scopes :: "jsstring list"
  ai_expiresAt :: "rat option"
  ai_resource :: "jsstring option"
  ai_extra :: "jsprops option"

record http_request =
  rq_headers :: http_headers
  rq_auth :: "auth_info option"

text \<open>The claims that name a principal: the first usable subject, and the issuer when it is a string.\<close>

fun trimmed_string :: "jsval \<Rightarrow> jsstring option" where
  "trimmed_string (Str s) = nonempty (Some (js_trim s))"
| "trimmed_string _ = None"

definition auth_extra :: "auth_info \<Rightarrow> jsprops" where
  "auth_extra a = (case ai_extra a of Some e \<Rightarrow> e | None \<Rightarrow> [])"

definition issuer_claim :: "jsprops \<Rightarrow> jsval" where
  "issuer_claim extra =
     (if nullish (prop_get extra (js ''iss'')) then prop_get extra (js ''issuer'')
      else prop_get extra (js ''iss''))"

fun principal_of_claims :: "jsprops \<Rightarrow> jsstring list \<Rightarrow> jsstring option" where
  "principal_of_claims extra [] = None"
| "principal_of_claims extra (key # keys) =
     (case trimmed_string (prop_get extra key) of
        None \<Rightarrow> principal_of_claims extra keys
      | Some subject \<Rightarrow>
          (case trimmed_string (issuer_claim extra) of
             Some issuer \<Rightarrow> Some (issuer @ js ''#'' @ subject)
           | None \<Rightarrow> Some subject))"

definition SUBJECT_KEYS :: "jsstring list" where
  "SUBJECT_KEYS = [js ''sub'', js ''subject'', js ''principal'']"

definition principalFromAuthInfo :: "auth_info \<Rightarrow> jsstring option" where
  "principalFromAuthInfo a = principal_of_claims (auth_extra a) SUBJECT_KEYS"

definition rateLimitPrincipalFromAuthInfo :: "auth_info option \<Rightarrow> jsstring option" where
  "rateLimitPrincipalFromAuthInfo auth =
     (case auth of
        None \<Rightarrow> None
      | Some a \<Rightarrow>
          (case principalFromAuthInfo a of
             Some subject \<Rightarrow> Some subject
           | None \<Rightarrow>
               if js_trim (ai_clientId a) \<noteq> [] then Some (js ''client:'' @ js_trim (ai_clientId a)) else None))"

definition authInfoScope :: "cred_world \<Rightarrow> auth_info option \<Rightarrow> jsstring option" where
  "authInfoScope w auth =
     (case rateLimitPrincipalFromAuthInfo auth of
        Some p \<Rightarrow> Some (js ''verified-principal:'' @ credentialFingerprint_of w p)
      | None \<Rightarrow> None)"

definition ref_unit :: "nat \<Rightarrow> bool" where
  "ref_unit c \<longleftrightarrow> is_word c \<or> c = 45"

definition ref_env_unit :: "nat \<Rightarrow> nat" where
  "ref_env_unit c = (if is_upper c \<or> is_digit c then c else 95)"

definition credentialRefEnvPrefix :: "jsstring \<Rightarrow> credential_failure + jsstring" where
  "credentialRefEnvPrefix ref =
     (if \<not> (1 \<le> length ref \<and> length ref \<le> 80 \<and> list_all ref_unit ref)
      then Inl (CredentialResolutionError (js ''Invalid credential reference'') 500
             (js ''invalid_credential_ref''))
      else Inr (js ''B2_CREDENTIAL_'' @ map ref_env_unit (ascii_upper ref)))"

text \<open>
  The map of principals is parsed once per value of its variable: the cache holds the last value that
  parsed and its map. An entry whose value is not a string is skipped; every error becomes one failure.
\<close>

type_synonym principal_map = "(jsstring, jsstring) jsmap"

fun add_principals ::
  "jsprops \<Rightarrow> principal_map \<Rightarrow> (jsstring, jsstring) jsmap \<Rightarrow> principal_map option" where
  "add_principals [] m taken = Some m"
| "add_principals ((prin, Str ref) # ps) m taken =
     (case credentialRefEnvPrefix ref of
        Inl e \<Rightarrow> None
      | Inr p \<Rightarrow>
          (case map_get taken p of
             Some existing \<Rightarrow>
               if existing \<noteq> [] \<and> existing \<noteq> ref then None
               else add_principals ps (map_set prin ref m) (map_set p ref taken)
           | None \<Rightarrow> add_principals ps (map_set prin ref m) (map_set p ref taken)))"
| "add_principals ((prin, v) # ps) m taken = add_principals ps m taken"

definition load_principal_map :: "(jsstring \<Rightarrow> jsval option) \<Rightarrow> jsstring \<Rightarrow> principal_map option" where
  "load_principal_map parse raw =
     (case parse raw of Some (Obj ps) \<Rightarrow> add_principals ps [] [] | _ \<Rightarrow> None)"

type_synonym principal_cache = "(jsstring \<times> principal_map) option"

definition invalid_principal_map :: credential_failure where
  "invalid_principal_map =
     CredentialResolutionError (js ''Invalid principal credential map'') 500 (js ''invalid_principal_map'')"

definition principalMap ::
  "cred_world \<Rightarrow> principal_cache \<Rightarrow> (credential_failure + principal_map) \<times> principal_cache" where
  "principalMap w cache =
     (case nonempty (cw_env w (js ''B2_PRINCIPAL_CREDENTIAL_MAP'')) of
        None \<Rightarrow> (Inr [], cache)
      | Some raw \<Rightarrow>
          (case cache of
             Some (raw', m) \<Rightarrow>
               if raw = raw' then (Inr m, cache)
               else (case load_principal_map (cw_json_parse w) raw of
                       Some m' \<Rightarrow> (Inr m', Some (raw, m'))
                     | None \<Rightarrow> (Inl invalid_principal_map, cache))
           | None \<Rightarrow>
               (case load_principal_map (cw_json_parse w) raw of
                  Some m' \<Rightarrow> (Inr m', Some (raw, m'))
                | None \<Rightarrow> (Inl invalid_principal_map, cache))))"

section \<open>The providers\<close>

definition headers_rejected :: credential_failure where
  "headers_rejected =
     CredentialResolutionError (js ''B2 credential headers are not accepted in this mode'') 400
       (js ''credential_headers_rejected'')"

definition request_required :: credential_failure where
  "request_required = CredentialResolutionError (js ''HTTP request required'') 500 (js ''request_required'')"

definition resolution_of ::
  "cred_world \<Rightarrow> b2_config \<Rightarrow> jsstring \<Rightarrow> jsstring \<Rightarrow> jsstring option \<Rightarrow> credential_resolution" where
  "resolution_of w config cacheKey capabilityKey prin =
     \<lparr> res_config = config\<lparr> callerFingerprint := Some (callerFingerprintForConfig w config cacheKey) \<rparr>,
       res_cacheKey = cacheKey, res_capabilityCacheKey = capabilityKey, res_principal = prin \<rparr>"

definition credential_key :: "b2_config \<Rightarrow> jsstring" where
  "credential_key config =
     js ''credential:'' @ (case credentialFingerprint config of Some f \<Rightarrow> f | None \<Rightarrow> js ''undefined'')"

definition httpDiscoveryCredentialResolution ::
  "cred_world \<Rightarrow> jsstring option \<Rightarrow> credential_failure + credential_resolution" where
  "httpDiscoveryCredentialResolution w key =
     (let cacheKey = (case key of Some k \<Rightarrow> k | None \<Rightarrow> js ''credential:'' @ DISCOVERY_MODE_CREDENTIAL) in
      js_bind (configFromMaterial w
                 \<lparr> cm_applicationKeyId = Some DISCOVERY_MODE_CREDENTIAL,
                   cm_applicationKey = Some DISCOVERY_MODE_CREDENTIAL,
                   cm_masterKeyId = None, cm_masterKey = None \<rparr> (httpConfigOptions (cw_env w)))
        (\<lambda>config. Inr (resolution_of w config cacheKey
           (js ''discovery:'' @ credentialFingerprint_of w (js_join [0] [js ''http'', cacheKey])) None)))"

definition stdio_resolve :: "cred_world \<Rightarrow> credential_failure + credential_resolution" where
  "stdio_resolve w =
     js_bind (configFromMaterial w (envMaterial (cw_env w) (js ''B2''))
                \<lparr> co_transport = Stdio,
                  co_allowLocalFiles = (cw_env w (js ''B2_ALLOW_LOCAL_FILES'') \<noteq> Some (js ''false'')),
                  co_fileRoot = cw_env w (js ''B2_FILE_ROOT''), co_strictOptionalPairs = False \<rparr>)
       (\<lambda>config. Inr (resolution_of w config (credential_key config)
          (capabilityCacheKeyForConfig w (js ''credential'') config) None))"

definition header_resolve ::
  "cred_world \<Rightarrow> http_request option \<Rightarrow> credential_failure + credential_resolution" where
  "header_resolve w req =
     (case req of
        None \<Rightarrow> Inl request_required
      | Some rq \<Rightarrow>
          js_bind (headerMaterial (rq_headers rq)) (\<lambda>material.
          js_bind (configFromMaterial w material (httpConfigOptions (cw_env w))) (\<lambda>config.
            (let cacheKey =
               (case authInfoScope w (rq_auth rq) of
                  Some scope \<Rightarrow>
                    js ''credential-principal:'' @
                    (case credentialFingerprint config of Some f \<Rightarrow> f | None \<Rightarrow> js ''undefined'') @ js '':'' @ scope
                | None \<Rightarrow> credential_key config)
             in Inr (resolution_of w config cacheKey
                  (capabilityCacheKeyForConfig w (js ''credential'') config) None)))))"

definition server_resolve ::
  "cred_world \<Rightarrow> http_request option \<Rightarrow> credential_failure + credential_resolution" where
  "server_resolve w req =
     (if (case req of Some rq \<Rightarrow> hasCredentialHeaders (rq_headers rq) | None \<Rightarrow> False)
      then Inl headers_rejected
      else js_bind (configFromMaterial w (envMaterial (cw_env w) (js ''B2'')) (httpConfigOptions (cw_env w)))
        (\<lambda>config.
          (let prin = rateLimitPrincipalFromAuthInfo (case req of Some rq \<Rightarrow> rq_auth rq | None \<Rightarrow> None);
               cacheKey = (case prin of
                  Some p \<Rightarrow> js ''server-principal:'' @ credentialFingerprint_of w p
                | None \<Rightarrow> credential_key config)
           in Inr (resolution_of w config cacheKey
                (capabilityCacheKeyForConfig w (js ''credential'') config) prin))))"

definition env_broker :: "env \<Rightarrow> jsstring \<Rightarrow> credential_failure + credential_material option" where
  "env_broker env ref =
     js_bind (credentialRefEnvPrefix ref) (\<lambda>p.
       (let material = envMaterial env p in
        Inr (if nonempty (cm_applicationKeyId material) \<noteq> None \<and> nonempty (cm_applicationKey material) \<noteq> None
             then Some material else None)))"

definition principal_resolve ::
  "cred_world \<Rightarrow> (jsstring \<Rightarrow> credential_failure + credential_material option) \<Rightarrow> http_request option \<Rightarrow>
     principal_cache \<Rightarrow> (credential_failure + credential_resolution) \<times> principal_cache" where
  "principal_resolve w broker req cache =
     (case req of
        None \<Rightarrow> (Inl request_required, cache)
      | Some rq \<Rightarrow>
          if hasCredentialHeaders (rq_headers rq) then (Inl headers_rejected, cache)
          else (case rq_auth rq of
            None \<Rightarrow> (Inl (CredentialResolutionError (js ''Verified MCP authInfo is required'') 401
                       (js ''missing_auth_info'')), cache)
          | Some a \<Rightarrow>
              (case principalFromAuthInfo a of
                 None \<Rightarrow> (Inl (CredentialResolutionError (js ''Verified principal is required'') 401
                            (js ''missing_principal'')), cache)
               | Some prin \<Rightarrow>
                   (case principalMap w cache of
                      (Inl e, cache') \<Rightarrow> (Inl e, cache')
                    | (Inr m, cache') \<Rightarrow>
                        (case map_get m prin of
                           None \<Rightarrow> Inl (CredentialResolutionError (js ''No credential mapping for principal'') 403
                                      (js ''principal_not_mapped''))
                         | Some ref \<Rightarrow>
                             js_bind (broker ref) (\<lambda>found.
                               (case found of
                                  None \<Rightarrow> Inl (CredentialResolutionError (js ''Credential reference not found'') 403
                                             (js ''credential_ref_not_found''))
                                | Some material \<Rightarrow>
                                    js_bind (configFromMaterial w material (httpConfigOptions (cw_env w)))
                                      (\<lambda>config. Inr (resolution_of w config
                                         (js ''principal:'' @ credentialFingerprint_of w prin)
                                         (js ''principal:'' @ credentialFingerprint_of w
                                            (js_join [0] [prin, verificationFingerprintConfig w config]))
                                         (Some prin))))),
                         cache')))))"

datatype credential_mode = ModeServer | ModePrincipal | ModeHeaders

definition getHttpCredentialMode :: "env \<Rightarrow> credential_failure + credential_mode" where
  "getHttpCredentialMode env =
     (let raw = ascii_lower (js_trim
        (case env (js ''B2_HTTP_CREDENTIAL_MODE'') of Some v \<Rightarrow> v | None \<Rightarrow> js ''headers'')) in
      if raw = js ''server'' then Inr ModeServer
      else if raw = js ''principal'' then Inr ModePrincipal
      else if raw = js ''headers'' then Inr ModeHeaders
      else Inl (CredentialResolutionError (js ''Invalid B2_HTTP_CREDENTIAL_MODE'') 500
             (js ''invalid_credential_mode'')))"

text \<open>The request path of an HTTP server: the provider of the configured mode, with the environment broker.\<close>

definition http_resolve ::
  "cred_world \<Rightarrow> credential_mode \<Rightarrow> http_request option \<Rightarrow> principal_cache \<Rightarrow>
     (credential_failure + credential_resolution) \<times> principal_cache" where
  "http_resolve w mode req cache =
     (case mode of
        ModeHeaders \<Rightarrow> (header_resolve w req, cache)
      | ModePrincipal \<Rightarrow> principal_resolve w (env_broker (cw_env w)) req cache
      | ModeServer \<Rightarrow> (server_resolve w req, cache))"

definition validateHttpStartupConfiguration :: "cred_world \<Rightarrow> credential_failure + unit" where
  "validateHttpStartupConfiguration w =
     js_bind (resolveOutputFormat (cw_env w)) (\<lambda>_.
     js_bind (sink_config_of w Http True) (\<lambda>_.
     js_bind (getHttpCredentialMode (cw_env w)) (\<lambda>_. Inr ())))"

definition validateHttpCredentialConfiguration ::
  "cred_world \<Rightarrow> principal_cache \<Rightarrow> (credential_failure + unit) \<times> principal_cache" where
  "validateHttpCredentialConfiguration w cache =
     (case getHttpCredentialMode (cw_env w) of
        Inl e \<Rightarrow> (Inl e, cache)
      | Inr mode \<Rightarrow>
          (case validateHttpStartupConfiguration w of
             Inl e \<Rightarrow> (Inl e, cache)
           | Inr _ \<Rightarrow>
               (case mode of
                  ModeHeaders \<Rightarrow> (Inr (), cache)
                | ModeServer \<Rightarrow>
                    (js_bind (server_resolve w (Some \<lparr> rq_headers = [], rq_auth = None \<rparr>)) (\<lambda>_. Inr ()), cache)
                | ModePrincipal \<Rightarrow>
                    (case principalMap w cache of (m, cache') \<Rightarrow> (js_bind m (\<lambda>_. Inr ()), cache')))))"

definition configFromHttpHeaders :: "cred_world \<Rightarrow> http_request \<Rightarrow> credential_failure + b2_config option" where
  "configFromHttpHeaders w req =
     (case header_resolve w (Some req) of
        Inr r \<Rightarrow> Inr (Some (res_config r))
      | Inl (CredentialResolutionError m s c) \<Rightarrow>
          if c = js ''missing_credentials'' then Inr None else Inl (CredentialResolutionError m s c)
      | Inl e \<Rightarrow> Inl e)"

section \<open>What a configuration is made of\<close>

lemma resolveOptionalPair_Inr:
  "resolveOptionalPair i k fi fk label strict = Inr (a, b) \<Longrightarrow>
     i = Some a \<and> k = Some b \<and> a \<noteq> [] \<and> b \<noteq> [] \<or> a = fi \<and> b = fk"
  by (auto simp: resolveOptionalPair_def nonempty_Some split: option.splits if_splits)

lemma configFromMaterial_Inr:
  assumes "configFromMaterial w m opts = Inr c"
  shows "cm_applicationKeyId m = Some (applicationKeyId c)" "cm_applicationKey m = Some (applicationKey c)"
    "applicationKeyId c \<noteq> []" "applicationKey c \<noteq> []"
    "appKeyId c = applicationKeyId c" "appKey c = applicationKey c"
    "cm_masterKeyId m = Some (masterKeyId c) \<and> cm_masterKey m = Some (masterKey c) \<and>
       masterKeyId c \<noteq> [] \<and> masterKey c \<noteq> [] \<or>
     masterKeyId c = applicationKeyId c \<and> masterKey c = applicationKey c"
    "region c = (case nonempty (map_option js_trim (cw_env w (js ''B2_REGION''))) of
        Some r \<Rightarrow> r | None \<Rightarrow> DEFAULT_REGION)"
    "allowLocalFiles c = co_allowLocalFiles opts" "fileRoot c = co_fileRoot opts"
    "destructivePolicy c = Some (resolveDestructivePolicy (cw_env w) (co_transport opts))"
    "transport c = Some (co_transport opts)"
    "\<exists>s. secretSink c = Some s \<and> sink_config_of w (co_transport opts) (co_transport opts = Stdio) = Inr s"
    "credentialFingerprint c = Some (fingerprintConfig w c)" "callerFingerprint c = None"
proof -
  obtain i k where ik: "nonempty (cm_applicationKeyId m) = Some i" "nonempty (cm_applicationKey m) = Some k"
    using assms by (auto simp: configFromMaterial_def split: option.splits)
  obtain a b f s where parts: "resolveOptionalPair (cm_masterKeyId m) (cm_masterKey m) i k (js ''B2 master key'')
        (co_strictOptionalPairs opts) = Inr (a, b)"
      "sink_config_of w (co_transport opts) (co_transport opts = Stdio) = Inr s"
    and c: "c = (let config =
             \<lparr> applicationKeyId = i, applicationKey = k, appKeyId = i, appKey = k,
               masterKeyId = a, masterKey = b,
               region = (case nonempty (map_option js_trim (cw_env w (js ''B2_REGION''))) of
                           Some r \<Rightarrow> r | None \<Rightarrow> DEFAULT_REGION),
               allowLocalFiles = co_allowLocalFiles opts, fileRoot = co_fileRoot opts,
               destructivePolicy = Some (resolveDestructivePolicy (cw_env w) (co_transport opts)),
               outputFormat = Some (output_format_name f),
               transport = Some (co_transport opts), secretSink = Some s,
               credentialFingerprint = None, callerFingerprint = None,
               enableMcpPrompts =
                 Some (cw_env w (js ''B2_ENABLE_MCP_PROMPTS'') = Some (js ''true'')) \<rparr>
           in config\<lparr> credentialFingerprint := Some (fingerprintConfig w config) \<rparr>)"
    using assms ik by (auto simp: configFromMaterial_def Let_def js_bind_Inr)
  note facts = resolveOptionalPair_Inr [OF parts(1)] ik [unfolded nonempty_Some] parts(2) c [unfolded Let_def]
  show "cm_applicationKeyId m = Some (applicationKeyId c)" "cm_applicationKey m = Some (applicationKey c)"
    "applicationKeyId c \<noteq> []" "applicationKey c \<noteq> []"
    "appKeyId c = applicationKeyId c" "appKey c = applicationKey c"
    "cm_masterKeyId m = Some (masterKeyId c) \<and> cm_masterKey m = Some (masterKey c) \<and>
       masterKeyId c \<noteq> [] \<and> masterKey c \<noteq> [] \<or>
     masterKeyId c = applicationKeyId c \<and> masterKey c = applicationKey c"
    "region c = (case nonempty (map_option js_trim (cw_env w (js ''B2_REGION''))) of
        Some r \<Rightarrow> r | None \<Rightarrow> DEFAULT_REGION)"
    "allowLocalFiles c = co_allowLocalFiles opts" "fileRoot c = co_fileRoot opts"
    "destructivePolicy c = Some (resolveDestructivePolicy (cw_env w) (co_transport opts))"
    "transport c = Some (co_transport opts)"
    "\<exists>s. secretSink c = Some s \<and> sink_config_of w (co_transport opts) (co_transport opts = Stdio) = Inr s"
    "credentialFingerprint c = Some (fingerprintConfig w c)" "callerFingerprint c = None"
    using facts by (simp_all add: fingerprintConfig_def)
qed

lemma sink_config_of_Http:
  assumes "sink_config_of w Http preflight = Inr s"
  shows "(s = SinkInline \<longrightarrow> cw_env w (js ''B2_ALLOW_INLINE_SECRETS'') = Some (js ''true'')) \<and>
    (\<forall>path. s = SinkFile path \<longrightarrow> cw_env w (js ''B2_ALLOW_LOCAL_FILES'') = Some (js ''true'') \<and>
       cw_env w (js ''B2_SECRET_SINK_FILE'') = Some path)"
  using assms
  by (auto simp: sink_config_of_def resolveSecretSinkConfig_def parseSecretSinkMode_def Let_def
      split: option.splits if_splits sink_mode.splits sum.splits)

end
