(* ===== verification/Credential_Routing.thy ===== *)
theory Credential_Routing
  imports Credentials
begin

text \<open>
  What the credential providers of the previous theory guarantee: the safe defaults of every
  configuration that a request can get (proved once in a locale for the three providers of an HTTP
  server), the confinement of a request to the credentials that its mode names, the identity that a
  verified token stands for, and the isolation of the caches keyed by credentials.
\<close>

section \<open>The configuration of an HTTP request\<close>

text \<open>The defaults a deployment relies on, as a predicate of the environment and the configuration.\<close>

definition http_safe :: "env \<Rightarrow> b2_config \<Rightarrow> bool" where
  "http_safe env c \<longleftrightarrow>
     transport c = Some Http \<and>
     (destructivePolicy c = Some (js ''block'') \<or>
        destructivePolicy c = env (js ''B2_DESTRUCTIVE_POLICY'') \<and>
        destructivePolicy c \<in> Some ` {js ''allow'', js ''confirm'', js ''elicit''}) \<and>
     fileRoot c = env (js ''B2_FILE_ROOT'') \<and>
     (allowLocalFiles c \<longleftrightarrow> env (js ''B2_ALLOW_LOCAL_FILES'') = Some (js ''true'') \<and>
        (\<exists>root. env (js ''B2_FILE_ROOT'') = Some root \<and> root \<noteq> [])) \<and>
     (secretSink c = Some SinkInline \<longrightarrow> env (js ''B2_ALLOW_INLINE_SECRETS'') = Some (js ''true'')) \<and>
     (\<forall>path. secretSink c = Some (SinkFile path) \<longrightarrow>
        env (js ''B2_ALLOW_LOCAL_FILES'') = Some (js ''true'') \<and> env (js ''B2_SECRET_SINK_FILE'') = Some path) \<and>
     applicationKeyId c \<noteq> [] \<and> applicationKey c \<noteq> [] \<and> masterKeyId c \<noteq> [] \<and> masterKey c \<noteq> [] \<and>
     appKeyId c = applicationKeyId c \<and> appKey c = applicationKey c"

lemma http_config_is_safe:
  assumes "configFromMaterial w m (httpConfigOptions (cw_env w)) = Inr c"
  shows "http_safe (cw_env w) c"
proof -
  note f = configFromMaterial_Inr [OF assms, unfolded httpConfigOptions_def config_options.simps]
  obtain s where s: "secretSink c = Some s" "sink_config_of w Http False = Inr s"
    using f(13) by auto
  have policy: "destructivePolicy c = Some (js ''block'') \<or>
        destructivePolicy c = cw_env w (js ''B2_DESTRUCTIVE_POLICY'') \<and>
        destructivePolicy c \<in> Some ` {js ''allow'', js ''confirm'', js ''elicit''}"
    by (auto simp: f(11) resolveDestructivePolicy_def split: option.splits)
  show ?thesis
    unfolding http_safe_def using policy sink_config_of_Http [OF s(2)] s(1) f(3-7, 9, 10, 12)
    by (auto simp: nonempty_def split: option.splits)
qed

text \<open>A provider of an HTTP server: whatever it resolves was built with the options of that server.\<close>

locale http_provider =
  fixes resolve :: "cred_world \<Rightarrow> 'q \<Rightarrow> credential_failure + credential_resolution"
    and source :: "cred_world \<Rightarrow> 'q \<Rightarrow> credential_material option"
  assumes built: "resolve w q = Inr r \<Longrightarrow>
    \<exists>m config. source w q = Some m \<and> configFromMaterial w m (httpConfigOptions (cw_env w)) = Inr config \<and>
      res_config r = config\<lparr> callerFingerprint := Some (callerFingerprintForConfig w config (res_cacheKey r)) \<rparr>"
begin

lemma resolved_config_safe:
  assumes "resolve w q = Inr r"
  shows "http_safe (cw_env w) (res_config r)"
proof -
  obtain m config where c: "configFromMaterial w m (httpConfigOptions (cw_env w)) = Inr config"
    "res_config r = config\<lparr> callerFingerprint := Some (callerFingerprintForConfig w config (res_cacheKey r)) \<rparr>"
    using built [OF assms] by blast
  show ?thesis
    using http_config_is_safe [OF c(1)] by (simp add: c(2) http_safe_def)
qed

text \<open>The credentials of the configuration are those of the provider's source.\<close>

lemma resolved_from_source:
  assumes "resolve w q = Inr r"
  shows "\<exists>m. source w q = Some m \<and>
    cm_applicationKeyId m = Some (applicationKeyId (res_config r)) \<and>
    cm_applicationKey m = Some (applicationKey (res_config r)) \<and>
    (cm_masterKeyId m = Some (masterKeyId (res_config r)) \<and> cm_masterKey m = Some (masterKey (res_config r)) \<or>
     masterKeyId (res_config r) = applicationKeyId (res_config r) \<and>
     masterKey (res_config r) = applicationKey (res_config r))"
proof -
  obtain m config where c: "source w q = Some m" "configFromMaterial w m (httpConfigOptions (cw_env w)) = Inr config"
    "res_config r = config\<lparr> callerFingerprint := Some (callerFingerprintForConfig w config (res_cacheKey r)) \<rparr>"
    using built [OF assms] by blast
  show ?thesis
    using configFromMaterial_Inr(1,2,7) [OF c(2)] c(1) by (auto simp: c(3))
qed

end

text \<open>Where the material of each provider is read.\<close>

definition header_source :: "cred_world \<Rightarrow> http_request option \<Rightarrow> credential_material option" where
  "header_source w req =
     (case req of None \<Rightarrow> None
      | Some rq \<Rightarrow> (case headerMaterial (rq_headers rq) of Inr m \<Rightarrow> Some m | Inl e \<Rightarrow> None))"

definition server_source :: "cred_world \<Rightarrow> http_request option \<Rightarrow> credential_material option" where
  "server_source w req = Some (envMaterial (cw_env w) (js ''B2''))"

definition principal_ref :: "cred_world \<Rightarrow> http_request \<Rightarrow> jsstring option" where
  "principal_ref w rq =
     (case rq_auth rq of None \<Rightarrow> None
      | Some a \<Rightarrow> (case principalFromAuthInfo a of None \<Rightarrow> None
          | Some p \<Rightarrow> (case fst (principalMap w None) of Inl e \<Rightarrow> None | Inr m \<Rightarrow> map_get m p)))"

definition principal_source :: "cred_world \<Rightarrow> http_request option \<Rightarrow> credential_material option" where
  "principal_source w req =
     (case req of None \<Rightarrow> None
      | Some rq \<Rightarrow> (case principal_ref w rq of None \<Rightarrow> None
          | Some ref \<Rightarrow> (case env_broker (cw_env w) ref of Inr m \<Rightarrow> m | Inl e \<Rightarrow> None)))"

text \<open>The cache of the map never holds anything but what its text parses to.\<close>

definition principal_cache_ok :: "(jsstring \<Rightarrow> jsval option) \<Rightarrow> principal_cache \<Rightarrow> bool" where
  "principal_cache_ok parse cache \<longleftrightarrow>
     (case cache of None \<Rightarrow> True | Some (raw, m) \<Rightarrow> load_principal_map parse raw = Some m)"

lemma principalMap_cached:
  assumes "principal_cache_ok (cw_json_parse w) cache"
  shows "fst (principalMap w cache) = fst (principalMap w None)"
    "principal_cache_ok (cw_json_parse w) (snd (principalMap w cache))"
  using assms by (auto simp: principalMap_def principal_cache_ok_def split: option.splits prod.splits)

lemma principal_resolve_cached:
  assumes "principal_cache_ok (cw_json_parse w) cache"
  shows "fst (principal_resolve w broker req cache) = fst (principal_resolve w broker req None)"
    "principal_cache_ok (cw_json_parse w) (snd (principal_resolve w broker req cache))"
  using principalMap_cached [OF assms] assms
  by (auto simp: principal_resolve_def split: option.splits prod.splits sum.splits if_splits)

lemma http_resolve_cached:
  assumes "principal_cache_ok (cw_json_parse w) cache"
  shows "fst (http_resolve w mode req cache) = fst (http_resolve w mode req None)"
    "principal_cache_ok (cw_json_parse w) (snd (http_resolve w mode req cache))"
  using principal_resolve_cached [OF assms] assms by (auto simp: http_resolve_def split: credential_mode.split)

interpretation hdr: http_provider header_resolve header_source
proof unfold_locales
  fix w q r
  assume "header_resolve w q = Inr r"
  then show "\<exists>m config. header_source w q = Some m \<and>
      configFromMaterial w m (httpConfigOptions (cw_env w)) = Inr config \<and>
      res_config r = config\<lparr> callerFingerprint := Some (callerFingerprintForConfig w config (res_cacheKey r)) \<rparr>"
    by (auto simp: header_resolve_def header_source_def resolution_of_def Let_def js_bind_Inr
        split: option.splits)
qed

interpretation srv: http_provider server_resolve server_source
proof unfold_locales
  fix w q r
  assume "server_resolve w q = Inr r"
  then show "\<exists>m config. server_source w q = Some m \<and>
      configFromMaterial w m (httpConfigOptions (cw_env w)) = Inr config \<and>
      res_config r = config\<lparr> callerFingerprint := Some (callerFingerprintForConfig w config (res_cacheKey r)) \<rparr>"
    by (auto simp: server_resolve_def server_source_def resolution_of_def Let_def js_bind_Inr
        split: if_splits)
qed

interpretation prn: http_provider
  "\<lambda>w req. fst (principal_resolve w (env_broker (cw_env w)) req None)" principal_source
proof unfold_locales
  fix w q r
  assume "fst (principal_resolve w (env_broker (cw_env w)) q None) = Inr r"
  then show "\<exists>m config. principal_source w q = Some m \<and>
      configFromMaterial w m (httpConfigOptions (cw_env w)) = Inr config \<and>
      res_config r = config\<lparr> callerFingerprint := Some (callerFingerprintForConfig w config (res_cacheKey r)) \<rparr>"
    by (auto simp: principal_resolve_def principal_source_def principal_ref_def resolution_of_def Let_def
        js_bind_Inr split: option.splits if_splits prod.splits sum.splits)
qed

section \<open>Variables of the environment\<close>

definition RUNTIME_NAMES :: "jsstring list" where
  "RUNTIME_NAMES =
     [js ''B2_DESTRUCTIVE_POLICY'', js ''B2_MCP_OUTPUT_FORMAT'', js ''B2_REGION'', js ''B2_ENABLE_MCP_PROMPTS'',
      js ''B2_SECRET_SINK'', js ''B2_ALLOW_INLINE_SECRETS'', js ''B2_SECRET_SINK_FILE'', js ''B2_LOG_FILE'',
      js ''B2_ALLOW_LOCAL_FILES'', js ''B2_FILE_ROOT'']"

definition credential_variables :: "jsstring \<Rightarrow> jsstring set" where
  "credential_variables p =
     {p @ js ''_APPLICATION_KEY_ID'', p @ js ''_APPLICATION_KEY'', p @ js ''_MASTER_KEY_ID'', p @ js ''_MASTER_KEY''}"

definition ref_variables :: "jsstring \<Rightarrow> jsstring set" where
  "ref_variables ref =
     (case credentialRefEnvPrefix ref of Inr p \<Rightarrow> credential_variables p | Inl e \<Rightarrow> {})"

lemma envMaterial_cong:
  "\<forall>n \<in> credential_variables p. env' n = env n \<Longrightarrow> envMaterial env' p = envMaterial env p"
  by (simp add: envMaterial_def credential_variables_def)

lemma config_reads_runtime:
  assumes "\<forall>n \<in> set RUNTIME_NAMES. env' n = cw_env w n"
  shows "configFromMaterial (w\<lparr> cw_env := env' \<rparr>) m (httpConfigOptions env')
       = configFromMaterial w m (httpConfigOptions (cw_env w))"
proof -
  have same: "env' (js ''B2_DESTRUCTIVE_POLICY'') = cw_env w (js ''B2_DESTRUCTIVE_POLICY'')"
    "env' (js ''B2_MCP_OUTPUT_FORMAT'') = cw_env w (js ''B2_MCP_OUTPUT_FORMAT'')"
    "env' (js ''B2_REGION'') = cw_env w (js ''B2_REGION'')"
    "env' (js ''B2_ENABLE_MCP_PROMPTS'') = cw_env w (js ''B2_ENABLE_MCP_PROMPTS'')"
    "env' (js ''B2_SECRET_SINK'') = cw_env w (js ''B2_SECRET_SINK'')"
    "env' (js ''B2_ALLOW_INLINE_SECRETS'') = cw_env w (js ''B2_ALLOW_INLINE_SECRETS'')"
    "env' (js ''B2_SECRET_SINK_FILE'') = cw_env w (js ''B2_SECRET_SINK_FILE'')"
    "env' (js ''B2_LOG_FILE'') = cw_env w (js ''B2_LOG_FILE'')"
    "env' (js ''B2_ALLOW_LOCAL_FILES'') = cw_env w (js ''B2_ALLOW_LOCAL_FILES'')"
    "env' (js ''B2_FILE_ROOT'') = cw_env w (js ''B2_FILE_ROOT'')"
    using assms by (simp_all add: RUNTIME_NAMES_def)
  have "resolveSecretSinkConfig fs env' t b d = resolveSecretSinkConfig fs (cw_env w) t b d" for fs t b d
    unfolding resolveSecretSinkConfig_def assertSecretSinkDoesNotCollideWithLogFile_def same by (rule refl)
  then have sink: "sink_config_of (w\<lparr> cw_env := env' \<rparr>) t b = sink_config_of w t b" for t b
    by (simp add: sink_config_of_def)
  have rest: "httpConfigOptions env' = httpConfigOptions (cw_env w)"
    "resolveOutputFormat env' = resolveOutputFormat (cw_env w)"
    "resolveDestructivePolicy env' t = resolveDestructivePolicy (cw_env w) t" for t
    by (simp_all add: httpConfigOptions_def resolveOutputFormat_def resolveDestructivePolicy_def same)
  have upd: "cw_env (w\<lparr> cw_env := env' \<rparr>) = env'"
    "fingerprintConfig (w\<lparr> cw_env := env' \<rparr>) c = fingerprintConfig w c" for c
    by (simp_all add: fingerprintConfig_def credentialFingerprint_of_def)
  show ?thesis
    unfolding configFromMaterial_def upd sink rest same by (rule refl)
qed

lemma credential_variables_disjoint:
  assumes "p \<noteq> q"
  shows "credential_variables p \<inter> credential_variables q = {}"
proof -
  have "a \<noteq> b" if "a \<in> credential_variables p" "b \<in> credential_variables q" for a b
  proof
    assume "a = b"
    then have "rev a = rev b" by simp
    with that show False using assms by (auto simp: credential_variables_def js_simps)
  qed
  then show ?thesis by blast
qed

lemma prefix_append_same: "prefix (xs @ ys) zs \<Longrightarrow> prefix xs zs"
  by (rule append_prefixD)

lemma ref_variables_named:
  "n \<in> ref_variables ref \<Longrightarrow> prefix (js ''B2_CREDENTIAL_'') n"
  by (auto simp: ref_variables_def credentialRefEnvPrefix_def credential_variables_def split: if_splits)

lemma runtime_not_ref: "n \<in> set RUNTIME_NAMES \<Longrightarrow> n \<notin> ref_variables ref"
  using ref_variables_named [of n ref] by (auto simp: RUNTIME_NAMES_def)

lemma map_variable_not_ref: "js ''B2_PRINCIPAL_CREDENTIAL_MAP'' \<notin> ref_variables ref"
  using ref_variables_named [of "js ''B2_PRINCIPAL_CREDENTIAL_MAP''" ref] by auto

section \<open>The map of principals\<close>

definition prefixes_taken :: "principal_map \<Rightarrow> (jsstring, jsstring) jsmap \<Rightarrow> bool" where
  "prefixes_taken m taken \<longleftrightarrow>
     (\<forall>who ref. map_get m who = Some ref \<longrightarrow>
        (\<exists>p. credentialRefEnvPrefix ref = Inr p \<and> map_get taken p = Some ref))"

lemma prefixes_taken_set:
  assumes "prefixes_taken m taken" "credentialRefEnvPrefix ref = Inr p"
    "\<And>e. map_get taken p = Some e \<Longrightarrow> e = ref"
  shows "prefixes_taken (map_set who ref m) (map_set p ref taken)"
  using assms by (fastforce simp: prefixes_taken_def)

lemma credentialRefEnvPrefix_nonempty: "credentialRefEnvPrefix ref = Inr p \<Longrightarrow> ref \<noteq> []"
  by (auto simp: credentialRefEnvPrefix_def split: if_splits)

lemma add_principals_taken:
  "add_principals ps m taken = Some m' \<Longrightarrow> prefixes_taken m taken \<Longrightarrow>
     (\<And>p e. map_get taken p = Some e \<Longrightarrow> e \<noteq> []) \<Longrightarrow> \<exists>taken'. prefixes_taken m' taken'"
proof (induction ps m taken rule: add_principals.induct)
  case (2 who ref ps m taken)
  from "2.prems"(1) obtain p where p: "credentialRefEnvPrefix ref = Inr p"
    by (auto split: sum.splits)
  have same: "map_get taken p = Some e \<Longrightarrow> e = ref" for e
    using "2.prems"(1) p "2.prems"(3) by (auto split: if_splits)
  have rest: "add_principals ps (map_set who ref m) (map_set p ref taken) = Some m'"
    using "2.prems"(1) p by (auto split: option.splits if_splits)
  have taken: "prefixes_taken (map_set who ref m) (map_set p ref taken)"
    by (rule prefixes_taken_set [OF "2.prems"(2) p same])
  have filled: "map_get (map_set p ref taken) p' = Some e \<Longrightarrow> e \<noteq> []" for p' e
    using "2.prems"(3) credentialRefEnvPrefix_nonempty [OF p] by (auto split: if_splits)
  show ?case
  proof (cases "map_get taken p")
    case None
    from "2.IH"(1) [OF p None rest taken filled] show ?thesis .
  next
    case (Some e)
    then have "\<not> (e \<noteq> [] \<and> e \<noteq> ref)" using same by simp
    from "2.IH"(2) [OF p Some this rest taken filled] show ?thesis .
  qed
qed auto

text \<open>In a map that loads, two different references never read a common variable.\<close>

lemma loaded_refs_disjoint:
  assumes "fst (principalMap w None) = Inr m" "map_get m who = Some ref" "map_get m who' = Some ref'" "ref \<noteq> ref'"
  shows "ref_variables ref \<inter> ref_variables ref' = {}"
proof -
  have "\<exists>taken. prefixes_taken m taken"
  proof (cases "nonempty (cw_env w (js ''B2_PRINCIPAL_CREDENTIAL_MAP''))")
    case None
    then show ?thesis using assms by (auto simp: principalMap_def prefixes_taken_def)
  next
    case (Some raw)
    then obtain ps where "add_principals ps [] [] = Some m"
      using assms(1) by (auto simp: principalMap_def load_principal_map_def split: option.splits jsval.splits)
    from add_principals_taken [OF this] show ?thesis by (simp add: prefixes_taken_def)
  qed
  then obtain p p' where p: "credentialRefEnvPrefix ref = Inr p" "credentialRefEnvPrefix ref' = Inr p'" "p \<noteq> p'"
    using assms(2-4) unfolding prefixes_taken_def by (metis option.inject)
  then show ?thesis using credential_variables_disjoint [OF p(3)] by (simp add: ref_variables_def)
qed

section \<open>Identity\<close>

definition subject_of :: "auth_info \<Rightarrow> jsstring option" where
  "subject_of a =
     (case List.map_filter (\<lambda>k. trimmed_string (prop_get (auth_extra a) k)) SUBJECT_KEYS of
        [] \<Rightarrow> None | s # rest \<Rightarrow> Some s)"

definition issuer_of :: "auth_info \<Rightarrow> jsstring option" where
  "issuer_of a = trimmed_string (issuer_claim (auth_extra a))"

lemma principal_of_claims_eq:
  "principal_of_claims extra keys =
     (case List.map_filter (\<lambda>k. trimmed_string (prop_get extra k)) keys of
        [] \<Rightarrow> None
      | s # rest \<Rightarrow> Some (case trimmed_string (issuer_claim extra) of
            Some i \<Rightarrow> i @ js ''#'' @ s | None \<Rightarrow> s))"
  by (induction keys) (auto simp: List.map_filter_simps split: option.splits)

lemma principal_eq:
  "principalFromAuthInfo a =
     map_option (\<lambda>s. case issuer_of a of Some i \<Rightarrow> i @ js ''#'' @ s | None \<Rightarrow> s) (subject_of a)"
  by (simp add: principalFromAuthInfo_def principal_of_claims_eq subject_of_def issuer_of_def split: list.split)

lemma hash_split:
  "35 \<notin> set i \<Longrightarrow> 35 \<notin> set j \<Longrightarrow> i @ js ''#'' @ s = j @ js ''#'' @ t \<longleftrightarrow> i = j \<and> s = t"
  using separated_eq [of 35 i j s t] by (simp add: js_simps)

text \<open>
  Two verified tokens select a credential as the same principal exactly if they carry the same subject
  and the same issuer: for tokens of one issuer, or of issuers without a number sign (an issuer is a URL
  without a fragment). The subject is the first of the three claims that is a string with more than
  white space; display names, addresses and client identifiers play no part.
\<close>

theorem principal_identity:
  assumes "principalFromAuthInfo a = Some p" "principalFromAuthInfo b = Some q"
    and "issuer_of a = issuer_of b \<or>
      (\<exists>i j. issuer_of a = Some i \<and> issuer_of b = Some j \<and> 35 \<notin> set i \<and> 35 \<notin> set j)"
  shows "p = q \<longleftrightarrow> issuer_of a = issuer_of b \<and> subject_of a = subject_of b"
  using assms hash_split by (auto simp: principal_eq split: option.splits)

section \<open>Which credentials a request gets\<close>

text \<open>
  (C20) Every configuration that an HTTP request can get, in any mode, is closed by default: destructive calls
  are blocked unless the environment names another policy, local files need both their switch and a root,
  secrets leave the server only by their switches, the credentials are not empty and the key that signs
  S3 requests is the application key. A cached map of principals changes nothing.
\<close>

theorem http_config_closed:
  assumes "principal_cache_ok (cw_json_parse w) cache"
    and "fst (http_resolve w mode req cache) = Inr r"
  shows "http_safe (cw_env w) (res_config r)"
proof -
  have "fst (http_resolve w mode req None) = Inr r"
    using http_resolve_cached(1) [OF assms(1)] assms(2) by simp
  then show ?thesis
    by (cases mode) (auto simp: http_resolve_def intro: hdr.resolved_config_safe srv.resolved_config_safe
        prn.resolved_config_safe)
qed

text \<open>
  (C19) In server and in principal mode the headers of a request carry no credential: a request with any
  credential header, in any spelling and current or retired, is refused before anything else happens; and
  what any other request gets does not depend on its headers at all.
\<close>

theorem credential_headers_confined:
  assumes "mode \<noteq> ModeHeaders"
  shows "http_resolve w mode (Some rq) cache =
    (if \<exists>name v. (name, v) \<in> set (rq_headers rq) \<and> ascii_lower name \<in> set CREDENTIAL_HEADER_DETECTION_NAMES
     then (Inl headers_rejected, cache)
     else http_resolve w mode (Some (rq\<lparr> rq_headers := [] \<rparr>)) cache)"
proof -
  have sent: "(\<exists>name v. (name, v) \<in> set (rq_headers rq) \<and> ascii_lower name \<in> set CREDENTIAL_HEADER_DETECTION_NAMES)
      \<longleftrightarrow> hasCredentialHeaders (rq_headers rq)"
    by (force simp: hasCredentialHeaders_def)
  have "\<not> hasCredentialHeaders []" by (simp add: hasCredentialHeaders_def)
  then show ?thesis
    unfolding sent using assms
    by (cases mode) (simp_all add: http_resolve_def principal_resolve_def server_resolve_def)
qed

text \<open>
  (C18) In principal mode a request that resolves is authenticated, its principal is in the map, and its
  credentials are the variables of the reference that the map gives this principal, and no others.
\<close>

theorem principal_gets_mapped_credential:
  assumes "principal_cache_ok (cw_json_parse w) cache"
    and "fst (http_resolve w ModePrincipal (Some rq) cache) = Inr r"
  shows "\<exists>a who m ref p. rq_auth rq = Some a \<and> principalFromAuthInfo a = Some who \<and> res_principal r = Some who \<and>
    fst (principalMap w None) = Inr m \<and> map_get m who = Some ref \<and> credentialRefEnvPrefix ref = Inr p \<and>
    cw_env w (p @ js ''_APPLICATION_KEY_ID'') = Some (applicationKeyId (res_config r)) \<and>
    cw_env w (p @ js ''_APPLICATION_KEY'') = Some (applicationKey (res_config r)) \<and>
    (cw_env w (p @ js ''_MASTER_KEY_ID'') = Some (masterKeyId (res_config r)) \<and>
     cw_env w (p @ js ''_MASTER_KEY'') = Some (masterKey (res_config r)) \<or>
     masterKeyId (res_config r) = applicationKeyId (res_config r) \<and>
     masterKey (res_config r) = applicationKey (res_config r))"
proof -
  have r: "fst (principal_resolve w (env_broker (cw_env w)) (Some rq) None) = Inr r"
    using principal_resolve_cached(1) [OF assms(1)] assms(2) by (simp add: http_resolve_def)
  then obtain a who m ref where sel: "rq_auth rq = Some a" "principalFromAuthInfo a = Some who"
      "res_principal r = Some who" "fst (principalMap w None) = Inr m" "map_get m who = Some ref"
    by (auto simp: principal_resolve_def resolution_of_def js_bind_Inr
        split: option.splits if_splits prod.splits sum.splits)
  obtain mat where mat: "principal_source w (Some rq) = Some mat"
      "cm_applicationKeyId mat = Some (applicationKeyId (res_config r))"
      "cm_applicationKey mat = Some (applicationKey (res_config r))"
      "cm_masterKeyId mat = Some (masterKeyId (res_config r)) \<and> cm_masterKey mat = Some (masterKey (res_config r)) \<or>
       masterKeyId (res_config r) = applicationKeyId (res_config r) \<and>
       masterKey (res_config r) = applicationKey (res_config r)"
    using prn.resolved_from_source [OF r] by blast
  from mat(1) sel obtain p where "credentialRefEnvPrefix ref = Inr p" "mat = envMaterial (cw_env w) p"
    by (auto simp: principal_source_def principal_ref_def env_broker_def js_bind_Inr Let_def
        split: sum.splits if_splits)
  with sel mat show ?thesis by (auto simp: envMaterial_def)
qed

text \<open>
  (C17) Tenants do not see each other: what a principal resolves to is the same whatever the variables of
  another reference of the map hold. In a map that loads, references that differ use different
  variables, none of them a setting of the server.
\<close>

theorem principal_noninterference:
  assumes "principal_cache_ok (cw_json_parse w) cache"
    and "fst (principalMap w None) = Inr m" "map_get m other = Some ref'"
    and "rq_auth rq = Some a" "principalFromAuthInfo a = Some who" "map_get m who \<noteq> Some ref'"
    and "\<And>n. n \<notin> ref_variables ref' \<Longrightarrow> env' n = cw_env w n"
  shows "http_resolve (w\<lparr> cw_env := env' \<rparr>) ModePrincipal (Some rq) cache
       = http_resolve w ModePrincipal (Some rq) cache"
proof -
  let ?w = "w\<lparr> cw_env := env' \<rparr>"
  have upd: "cw_env ?w = env'" "cw_json_parse ?w = cw_json_parse w" by simp_all
  have same: "principalMap ?w c = principalMap w c" for c
    unfolding principalMap_def upd assms(7) [OF map_variable_not_ref] by (rule refl)
  have config: "configFromMaterial ?w mat (httpConfigOptions env')
      = configFromMaterial w mat (httpConfigOptions (cw_env w))" for mat
    using config_reads_runtime [of env' w mat] assms(7) runtime_not_ref by simp
  have broker: "env_broker env' ref = env_broker (cw_env w) ref" if "map_get m who = Some ref" for ref
  proof -
    have "ref_variables ref \<inter> ref_variables ref' = {}"
      using that assms(6) by (intro loaded_refs_disjoint [OF assms(2) that assms(3)]) auto
    then have "credentialRefEnvPrefix ref = Inr p \<Longrightarrow> envMaterial env' p = envMaterial (cw_env w) p" for p
      using assms(7) by (intro envMaterial_cong) (auto simp: ref_variables_def)
    then show ?thesis by (cases "credentialRefEnvPrefix ref") (simp_all add: env_broker_def)
  qed
  have m: "fst (principalMap w cache) = Inr m"
    using principalMap_cached(1) [OF assms(1)] assms(2) by simp
  have hash: "resolution_of ?w = resolution_of w" "verificationFingerprintConfig ?w = verificationFingerprintConfig w"
      "credentialFingerprint_of ?w = credentialFingerprint_of w"
    by (auto simp: fun_eq_iff resolution_of_def callerFingerprintForConfig_def verificationFingerprintConfig_def
        credentialFingerprint_of_def fingerprintConfig_def split: option.split)
  obtain cache' where "principalMap w cache = (Inr m, cache')"
    using m by (cases "principalMap w cache") simp
  then show ?thesis
    using assms(4,5) broker
    by (simp add: http_resolve_def principal_resolve_def same config hash split: option.split)
qed

section \<open>The keys of the caches\<close>

definition fingerprint_collision :: "cred_world \<Rightarrow> jsstring \<Rightarrow> jsstring \<Rightarrow> bool" where
  "fingerprint_collision w x y \<longleftrightarrow> x \<noteq> y \<and> credentialFingerprint_of w x = credentialFingerprint_of w y"

definition same_credentials :: "b2_config \<Rightarrow> b2_config \<Rightarrow> bool" where
  "same_credentials c d \<longleftrightarrow>
     applicationKeyId c = applicationKeyId d \<and> applicationKey c = applicationKey d \<and>
     masterKeyId c = masterKeyId d \<and> masterKey c = masterKey d \<and> region c = region d"

text \<open>
  No variable of an environment and no header contains the null unit that separates the parts of a
  fingerprinted text: the system and the HTTP parser guarantee it.
\<close>

definition nul_free :: "cred_world \<Rightarrow> http_request option \<Rightarrow> bool" where
  "nul_free w req \<longleftrightarrow>
     (\<forall>n v. cw_env w n = Some v \<longrightarrow> 0 \<notin> set v) \<and>
     (\<forall>rq. req = Some rq \<longrightarrow> (\<forall>h \<in> set (rq_headers rq). \<forall>v \<in> set (header_texts (snd h)). 0 \<notin> set v))"

definition nul_free_config :: "b2_config \<Rightarrow> bool" where
  "nul_free_config c \<longleftrightarrow>
     0 \<notin> set (applicationKeyId c) \<and> 0 \<notin> set (applicationKey c) \<and> 0 \<notin> set (masterKeyId c) \<and>
     0 \<notin> set (masterKey c) \<and> 0 \<notin> set (region c) \<and>
     appKeyId c = applicationKeyId c \<and> appKey c = applicationKey c"

lemma verification_text_identifies:
  assumes "nul_free_config c" "nul_free_config d"
  shows "verification_text c = verification_text d \<longleftrightarrow> same_credentials c d"
proof -
  have "0 \<notin> set (js ''b2-mcp-credential-verifier-v1'')" by (simp add: js_simps)
  with assms show ?thesis
    unfolding verification_text_def
    by (subst js_join_inject) (auto simp: nul_free_config_def same_credentials_def)
qed

lemma valueFromHeader_mem:
  "valueFromHeader headers names = Inr (Some v) \<Longrightarrow> \<exists>h \<in> set headers. v \<in> set (header_texts (snd h))"
proof -
  let ?vs = "concat (map header_texts (List.map_filter (map_of headers) names))"
  assume "valueFromHeader headers names = Inr (Some v)"
  then have "\<exists>rest. js_unique ?vs = v # rest"
    by (auto simp: valueFromHeader_def Let_def split: list.splits if_splits)
  then have "v \<in> set ?vs" by (metis set_js_unique list.set_intros(1))
  then show ?thesis by (force simp: List.map_filter_def dest: map_of_SomeD)
qed

definition nul_free_material :: "credential_material \<Rightarrow> bool" where
  "nul_free_material m \<longleftrightarrow>
     (\<forall>v. Some v \<in> {cm_applicationKeyId m, cm_applicationKey m, cm_masterKeyId m, cm_masterKey m} \<longrightarrow> 0 \<notin> set v)"

lemma nul_free_sources:
  "nul_free w req \<Longrightarrow> header_source w req = Some m \<Longrightarrow> nul_free_material m"
  "nul_free w req \<Longrightarrow> server_source w req = Some m \<Longrightarrow> nul_free_material m"
  "nul_free w req \<Longrightarrow> principal_source w req = Some m \<Longrightarrow> nul_free_material m"
proof -
  assume n: "nul_free w req"
  show "nul_free_material m" if "header_source w req = Some m"
  proof -
    from that obtain rq where "req = Some rq" "headerMaterial (rq_headers rq) = Inr m"
      by (auto simp: header_source_def split: option.splits sum.splits)
    with n show ?thesis
      by (fastforce simp: nul_free_material_def headerMaterial_def nul_free_def js_bind_Inr dest!: valueFromHeader_mem)
  qed
  show "nul_free_material m" if "server_source w req = Some m"
    using that n by (auto simp: server_source_def nul_free_material_def envMaterial_def nul_free_def)
  show "nul_free_material m" if "principal_source w req = Some m"
    using that n by (auto simp: principal_source_def nul_free_material_def envMaterial_def nul_free_def
        env_broker_def js_bind_Inr Let_def split: option.splits sum.splits if_splits)
qed

lemma nul_free_built:
  assumes "configFromMaterial w m opts = Inr c" "nul_free_material m" "nul_free w req"
  shows "nul_free_config c"
proof -
  note f = configFromMaterial_Inr [OF assms(1)]
  have "0 \<notin> set (region c)"
  proof (cases "nonempty (map_option js_trim (cw_env w (js ''B2_REGION'')))")
    case None
    then show ?thesis by (simp add: f(8) DEFAULT_REGION_def js_simps)
  next
    case (Some r)
    then obtain v where "cw_env w (js ''B2_REGION'') = Some v" "r = js_trim v"
      by (auto simp: nonempty_Some)
    then show ?thesis
      using Some assms(3) set_js_trim [of v] by (auto simp: f(8) nul_free_def)
  qed
  moreover have part: "0 \<notin> set v"
    if "Some v \<in> {cm_applicationKeyId m, cm_applicationKey m, cm_masterKeyId m, cm_masterKey m}" for v
    using assms(2) that unfolding nul_free_material_def by blast
  then have "0 \<notin> set (applicationKeyId c)" "0 \<notin> set (applicationKey c)"
    using f(1,2) by (metis insertI1 insertI2)+
  moreover from this part f(7) have "0 \<notin> set (masterKeyId c)" "0 \<notin> set (masterKey c)"
    by (metis insertI1 insertI2)+
  ultimately show ?thesis
    using f(5,6) by (simp add: nul_free_config_def)
qed

lemma verification_text_caller [simp]:
  "verification_text (c\<lparr> callerFingerprint := f \<rparr>) = verification_text c"
  by (simp add: verification_text_def)

lemma resolved_nul_free:
  assumes "nul_free w req" "fst (http_resolve w mode req None) = Inr r"
  shows "nul_free_config (res_config r)"
proof -
  have "\<exists>m config. nul_free_material m \<and> configFromMaterial w m (httpConfigOptions (cw_env w)) = Inr config \<and>
      res_config r = config\<lparr> callerFingerprint := Some (callerFingerprintForConfig w config (res_cacheKey r)) \<rparr>"
  proof (cases mode)
    case ModeServer
    then show ?thesis
      using assms srv.built nul_free_sources(2) [OF assms(1)] by (auto simp: http_resolve_def) blast
  next
    case ModePrincipal
    then show ?thesis
      using assms prn.built nul_free_sources(3) [OF assms(1)] by (auto simp: http_resolve_def) blast
  next
    case ModeHeaders
    then show ?thesis
      using assms hdr.built nul_free_sources(1) [OF assms(1)] by (auto simp: http_resolve_def) blast
  qed
  then obtain m config where "nul_free_config config"
      "res_config r = config\<lparr> callerFingerprint := Some (callerFingerprintForConfig w config (res_cacheKey r)) \<rparr>"
    using nul_free_built [OF _ _ assms(1)] by blast
  then show ?thesis by (simp add: nul_free_config_def)
qed

definition capability_scope :: "cred_world \<Rightarrow> credential_resolution \<Rightarrow> jsstring" where
  "capability_scope w r =
     js_join [0] [case res_principal r of Some p \<Rightarrow> p | None \<Rightarrow> [], verificationFingerprintConfig w (res_config r)]"

lemma resolved_capability_key:
  assumes "fst (http_resolve w mode req None) = Inr r"
  shows "if mode = ModePrincipal
    then (\<exists>who. res_principal r = Some who) \<and>
      res_capabilityCacheKey r = js ''principal:'' @ credentialFingerprint_of w (capability_scope w r)
    else res_capabilityCacheKey r = js ''credential:'' @ credentialFingerprint_of w (verification_text (res_config r))"
proof (cases mode)
  case ModeServer
  then show ?thesis using assms
    by (auto simp: http_resolve_def server_resolve_def js_bind_Inr Let_def resolution_of_def
        capabilityCacheKeyForConfig_def verificationFingerprintConfig_def js_simps split: if_splits)
next
  case ModePrincipal
  then show ?thesis using assms
    by (auto simp: http_resolve_def principal_resolve_def js_bind_Inr Let_def resolution_of_def
        capability_scope_def verificationFingerprintConfig_def split: if_splits option.splits prod.splits sum.splits)
next
  case ModeHeaders
  then show ?thesis using assms
    by (auto simp: http_resolve_def header_resolve_def js_bind_Inr Let_def resolution_of_def
        capabilityCacheKeyForConfig_def verificationFingerprintConfig_def js_simps split: option.splits)
qed

lemma capability_scope_identifies:
  assumes "\<And>x. 0 \<notin> set (cw_sha256_hex w x)"
  shows "capability_scope w r = capability_scope w r' \<longleftrightarrow>
    (case res_principal r of Some p \<Rightarrow> p | None \<Rightarrow> []) = (case res_principal r' of Some p \<Rightarrow> p | None \<Rightarrow> []) \<and>
    credentialFingerprint_of w (verification_text (res_config r)) =
    credentialFingerprint_of w (verification_text (res_config r'))"
proof -
  have fp: "0 \<notin> set (rev (credentialFingerprint_of w x))" for x
    using assms [of x] set_take_subset [of 16 "cw_sha256_hex w x"] by (auto simp: credentialFingerprint_of_def)
  have "p @ 0 # credentialFingerprint_of w x = q @ 0 # credentialFingerprint_of w y \<longleftrightarrow>
      p = q \<and> credentialFingerprint_of w x = credentialFingerprint_of w y" for p q x y
    using separated_eq [OF fp fp, of x "rev p" y "rev q"]
    by (metis rev.simps(2) rev_append rev_rev_ident append_assoc append_Cons append_Nil)
  then show ?thesis
    by (simp add: capability_scope_def verificationFingerprintConfig_def)
qed

text \<open>
  (C21) The key under which capabilities are cached separates credentials: two requests, in any two modes, share
  it only if they resolved to the same credentials and region, and in principal mode to the same principal;
  unless the shortened hash collides on one of the two pairs of texts that are hashed.
\<close>

theorem capability_keys_separate:
  assumes "principal_cache_ok (cw_json_parse w) cache" "principal_cache_ok (cw_json_parse w') cache'"
    and "fst (http_resolve w mode req cache) = Inr r" "fst (http_resolve w' mode' req' cache') = Inr r'"
    and "nul_free w req" "nul_free w' req'"
    and "cw_sha256_hex w' = cw_sha256_hex w" "\<And>x. 0 \<notin> set (cw_sha256_hex w x)"
    and "res_capabilityCacheKey r = res_capabilityCacheKey r'"
  shows "same_credentials (res_config r) (res_config r') \<and>
      (mode = ModePrincipal \<longleftrightarrow> mode' = ModePrincipal) \<and>
      (mode = ModePrincipal \<longrightarrow> res_principal r = res_principal r') \<or>
    fingerprint_collision w (verification_text (res_config r)) (verification_text (res_config r')) \<or>
    fingerprint_collision w (capability_scope w r) (capability_scope w r')"
proof -
  have r: "fst (http_resolve w mode req None) = Inr r" "fst (http_resolve w' mode' req' None) = Inr r'"
    using http_resolve_cached(1) [OF assms(1)] http_resolve_cached(1) [OF assms(2)] assms(3,4) by simp_all
  have fp: "credentialFingerprint_of w' = credentialFingerprint_of w" "capability_scope w' = capability_scope w"
    using assms(7) by (auto simp: fun_eq_iff credentialFingerprint_of_def capability_scope_def
        verificationFingerprintConfig_def)
  note keys = resolved_capability_key [OF r(1)] resolved_capability_key [OF r(2), unfolded fp]
  have modes: "mode = ModePrincipal \<longleftrightarrow> mode' = ModePrincipal"
    using keys assms(9) by (auto simp: js_simps split: if_splits)
  note same = verification_text_identifies [OF resolved_nul_free [OF assms(5) r(1)] resolved_nul_free [OF assms(6) r(2)]]
  show ?thesis
  proof (cases "mode = ModePrincipal")
    case True
    then have "credentialFingerprint_of w (capability_scope w r) = credentialFingerprint_of w (capability_scope w r')"
      and who: "\<exists>p. res_principal r = Some p" "\<exists>p. res_principal r' = Some p"
      using keys assms(9) modes by auto
    then show ?thesis
      using capability_scope_identifies [OF assms(8), of r r'] same modes who
      by (auto simp: fingerprint_collision_def)
  next
    case False
    then show ?thesis
      using keys assms(9) modes same by (auto simp: fingerprint_collision_def)
  qed
qed

section \<open>A deployment with two tenants\<close>

definition sample_env :: env where
  "sample_env =
     [js ''B2_CREDENTIAL_TENANT_A_APPLICATION_KEY_ID'' \<mapsto> js ''ida'',
      js ''B2_CREDENTIAL_TENANT_A_APPLICATION_KEY'' \<mapsto> js ''keya'',
      js ''B2_CREDENTIAL_TENANT_B_APPLICATION_KEY_ID'' \<mapsto> js ''idb'',
      js ''B2_CREDENTIAL_TENANT_B_APPLICATION_KEY'' \<mapsto> js ''keyb'',
      js ''B2_PRINCIPAL_CREDENTIAL_MAP'' \<mapsto> js ''map'']"

definition sample_world :: cred_world where
  "sample_world =
     \<lparr> cw_env = sample_env,
       cw_fs = \<lparr>canonicalDestinationPath = Inr, preflightSecretSinkFile = (\<lambda>p. None),
         DEFAULT_SECRET_SINK_PATH = js ''/d''\<rparr>,
       cw_sha256_hex = map Suc,
       cw_json_parse = (\<lambda>s. Some (Obj [(js ''https://as#alice'', Str (js ''tenant_a'')), (js ''bob'', Str (js ''tenant-b''))])) \<rparr>"

definition alice :: auth_info where
  "alice = \<lparr> ai_token = [], ai_clientId = js ''c'', ai_scopes = [], ai_expiresAt = None, ai_resource = None,
     ai_extra = Some [(js ''iss'', Str (js ''https://as'')), (js ''sub'', Str (js ''alice''))] \<rparr>"

definition alice_request :: http_request where
  "alice_request = \<lparr> rq_headers = [], rq_auth = Some alice \<rparr>"

lemma alice_claims:
  "principalFromAuthInfo alice = Some (js ''https://as#alice'')" "issuer_of alice = Some (js ''https://as'')"
  "subject_of alice = Some (js ''alice'')"
proof -
  have trim: "js_trim (js ''https://as'') = js ''https://as''" "js_trim (js ''alice'') = js ''alice''"
    by (simp_all add: js_trim_def js_space_def js_simps)
  show i: "issuer_of alice = Some (js ''https://as'')"
    by (simp add: issuer_of_def issuer_claim_def auth_extra_def alice_def trim nonempty_def)
  show s: "subject_of alice = Some (js ''alice'')"
    by (simp add: subject_of_def SUBJECT_KEYS_def auth_extra_def alice_def trim nonempty_def List.map_filter_simps)
  show "principalFromAuthInfo alice = Some (js ''https://as#alice'')"
    by (simp add: principal_eq i s js_simps)
qed

lemma sample_prefixes:
  "credentialRefEnvPrefix (js ''tenant_a'') = Inr (js ''B2_CREDENTIAL_TENANT_A'')"
  "credentialRefEnvPrefix (js ''tenant-b'') = Inr (js ''B2_CREDENTIAL_TENANT_B'')"
  by (simp_all add: credentialRefEnvPrefix_def ref_unit_def ref_env_unit_def ascii_upper_def ascii_upper_unit_def
      char_class_defs js_simps)

lemma sample_map:
  "principalMap sample_world None =
     (Inr [(js ''https://as#alice'', js ''tenant_a''), (js ''bob'', js ''tenant-b'')],
      Some (js ''map'', [(js ''https://as#alice'', js ''tenant_a''), (js ''bob'', js ''tenant-b'')]))"
  by (simp add: principalMap_def sample_world_def sample_env_def nonempty_def load_principal_map_def
      sample_prefixes map_get_def)

lemma sample_material:
  "envMaterial sample_env (js ''B2_CREDENTIAL_TENANT_A'') =
     \<lparr> cm_applicationKeyId = Some (js ''ida''), cm_applicationKey = Some (js ''keya''),
       cm_masterKeyId = None, cm_masterKey = None \<rparr>"
  by (simp add: envMaterial_def sample_env_def js_append [symmetric])

lemma sample_config_built:
  "\<exists>c. configFromMaterial sample_world (envMaterial sample_env (js ''B2_CREDENTIAL_TENANT_A''))
     (httpConfigOptions sample_env) = Inr c"
  unfolding sample_material
  by (simp add: configFromMaterial_def nonempty_def resolveOptionalPair_def
      resolveOutputFormat_def parseMcpOutputFormat_def preflightMcpOutputFormat_def DEFAULT_MCP_OUTPUT_FORMAT_def
      sink_config_of_def resolveSecretSinkConfig_def parseSecretSinkMode_def httpConfigOptions_def
      sample_world_def sample_env_def Let_def)

lemma sample_resolves: "\<exists>r. fst (http_resolve sample_world ModePrincipal (Some alice_request) None) = Inr r"
proof -
  obtain c where c: "configFromMaterial sample_world (envMaterial sample_env (js ''B2_CREDENTIAL_TENANT_A''))
     (httpConfigOptions sample_env) = Inr c"
    using sample_config_built by blast
  have env: "cw_env sample_world = sample_env" by (simp add: sample_world_def)
  have broker: "env_broker sample_env (js ''tenant_a'') = Inr (Some (envMaterial sample_env (js ''B2_CREDENTIAL_TENANT_A'')))"
    by (simp add: env_broker_def sample_prefixes sample_material nonempty_def)
  show ?thesis
    by (simp add: http_resolve_def principal_resolve_def alice_request_def hasCredentialHeaders_def alice_claims
        sample_map map_get_def env broker c)
qed

lemma sample_cache_ok: "principal_cache_ok (cw_json_parse sample_world) None"
  by (simp add: principal_cache_ok_def)

theorem principal_identity_witness:
  "principalFromAuthInfo alice = principalFromAuthInfo (alice\<lparr> ai_clientId := js ''other'' \<rparr>)"
proof -
  let ?b = "alice\<lparr> ai_clientId := js ''other'' \<rparr>"
  have b: "principalFromAuthInfo ?b = Some (js ''https://as#alice'')"
    using alice_claims(1) by (simp add: principalFromAuthInfo_def auth_extra_def)
  have "issuer_of alice = issuer_of ?b" by (simp add: issuer_of_def auth_extra_def)
  then show ?thesis
    using principal_identity [OF alice_claims(1) b] b alice_claims(1) by simp
qed

theorem http_config_closed_witness:
  "\<exists>r. fst (http_resolve sample_world ModePrincipal (Some alice_request) None) = Inr r \<and>
     destructivePolicy (res_config r) = Some (js ''block'')"
proof -
  obtain r where r: "fst (http_resolve sample_world ModePrincipal (Some alice_request) None) = Inr r"
    using sample_resolves by blast
  have "cw_env sample_world (js ''B2_DESTRUCTIVE_POLICY'') = None"
    by (simp add: sample_world_def sample_env_def)
  then show ?thesis
    using http_config_closed [OF sample_cache_ok r] r by (auto simp: http_safe_def)
qed

theorem credential_headers_confined_witness:
  "http_resolve sample_world ModePrincipal
     (Some \<lparr> rq_headers = [(js ''X-B2-App-Key'', HeaderText (js ''k''))], rq_auth = Some alice \<rparr>) None
   = (Inl headers_rejected, None)"
proof -
  have "ascii_lower (js ''X-B2-App-Key'') = js ''x-b2-app-key''"
    by (simp add: ascii_lower_def ascii_lower_unit_def is_upper_def js_simps)
  then have "ascii_lower (js ''X-B2-App-Key'') \<in> set CREDENTIAL_HEADER_DETECTION_NAMES"
    by (simp add: CREDENTIAL_HEADER_DETECTION_NAMES_def)
  then show ?thesis
    by (subst credential_headers_confined) auto
qed

theorem principal_gets_mapped_credential_witness:
  "\<exists>r. fst (http_resolve sample_world ModePrincipal (Some alice_request) None) = Inr r \<and>
     applicationKey (res_config r) = js ''keya''"
proof -
  obtain r where r: "fst (http_resolve sample_world ModePrincipal (Some alice_request) None) = Inr r"
    using sample_resolves by blast
  have "cw_env sample_world (js ''B2_CREDENTIAL_TENANT_A'' @ js ''_APPLICATION_KEY'') = Some (js ''keya'')"
    by (simp add: sample_world_def sample_env_def js_append [symmetric])
  then show ?thesis
    using principal_gets_mapped_credential [OF sample_cache_ok r] r
    by (auto simp: alice_request_def alice_claims sample_map map_get_def sample_prefixes)
qed

theorem principal_noninterference_witness:
  "http_resolve (sample_world\<lparr> cw_env := sample_env(js ''B2_CREDENTIAL_TENANT_B_APPLICATION_KEY'' := None) \<rparr>)
     ModePrincipal (Some alice_request) None
   = http_resolve sample_world ModePrincipal (Some alice_request) None"
proof -
  let ?m = "[(js ''https://as#alice'', js ''tenant_a''), (js ''bob'', js ''tenant-b'')]"
  have "js ''B2_CREDENTIAL_TENANT_B_APPLICATION_KEY'' \<in> ref_variables (js ''tenant-b'')"
    by (simp add: ref_variables_def sample_prefixes credential_variables_def js_append [symmetric])
  then have "(sample_env(js ''B2_CREDENTIAL_TENANT_B_APPLICATION_KEY'' := None)) n = cw_env sample_world n"
    if "n \<notin> ref_variables (js ''tenant-b'')" for n
    using that by (auto simp: sample_world_def)
  moreover have "fst (principalMap sample_world None) = Inr ?m" "map_get ?m (js ''bob'') = Some (js ''tenant-b'')"
      "rq_auth alice_request = Some alice" "map_get ?m (js ''https://as#alice'') \<noteq> Some (js ''tenant-b'')"
    by (simp_all add: sample_map map_get_def alice_request_def)
  ultimately show ?thesis
    using principal_noninterference [OF sample_cache_ok, of ?m "js ''bob''" "js ''tenant-b''" alice_request alice
      "js ''https://as#alice''"] alice_claims(1) by blast
qed

theorem capability_keys_separate_witness:
  "\<exists>r. fst (http_resolve sample_world ModePrincipal (Some alice_request) None) = Inr r \<and>
     (same_credentials (res_config r) (res_config r) \<or>
      fingerprint_collision sample_world (verification_text (res_config r)) (verification_text (res_config r)) \<or>
      fingerprint_collision sample_world (capability_scope sample_world r) (capability_scope sample_world r))"
proof -
  obtain r where r: "fst (http_resolve sample_world ModePrincipal (Some alice_request) None) = Inr r"
    using sample_resolves by blast
  have "0 \<notin> set v" if "sample_env n = Some v" for n v
  proof -
    from that have "v \<in> {js ''ida'', js ''keya'', js ''idb'', js ''keyb'', js ''map''}"
      by (auto simp: sample_env_def split: if_splits)
    then show ?thesis by (auto simp: js_simps)
  qed
  then have "nul_free sample_world (Some alice_request)"
    by (simp add: nul_free_def sample_world_def alice_request_def)
  moreover have "0 \<notin> set (cw_sha256_hex sample_world x)" for x
    by (auto simp: sample_world_def)
  ultimately show ?thesis
    using capability_keys_separate [OF sample_cache_ok sample_cache_ok r r _ _ refl _ refl] r by blast
qed

end
