(* ===== verification/Oauth_Config.thy ===== *)
theory Oauth_Config
  imports Credentials
begin

text \<open>
  The configuration of the OAuth resource server (\<open>src/oauth-resource-server.ts\<close>): the settings, how
  they are read from the environment with their defaults and lower bounds, and the checks that refuse an
  unsafe deployment. Parsing a URL is a parameter; a record gives the parts that the code reads.
\<close>

section \<open>Failures\<close>

datatype oauth_code = InvalidToken | InsufficientScope

text \<open>
  The failures of token verification: a rejected token, an authorization server that is not available
  (with its reason, status and retry hint), a configuration error, and any other exception.
\<close>

datatype oauth_failure =
    OAuthError oauth_code jsstring
  | OAuthDependencyError jsstring "int option" "real_or_nan option"
  | OAuthConfigError jsstring
  | OAuthOtherError jsstring

section \<open>The settings\<close>

record url_parts =
  url_protocol :: jsstring
  url_hostname :: jsstring
  url_href :: jsstring

record oauth_config =
  oc_issuer :: jsstring
  oc_resource :: jsstring
  oc_audience :: jsstring
  oc_publicUrl :: jsstring
  oc_authorizationEndpoint :: jsstring
  oc_tokenEndpoint :: jsstring
  oc_introspectionEndpoint :: "jsstring option"
  oc_jwksUri :: "jsstring option"
  oc_introspectionClientId :: "jsstring option"
  oc_introspectionClientSecret :: "jsstring option"
  oc_introspectionBearerToken :: "jsstring option"
  oc_serviceDocumentationUrl :: "jsstring option"
  oc_requiredScopes :: "jsstring list"
  oc_allowedSubjects :: "jsstring list"
  oc_allowedTokenTypes :: "jsstring list"
  oc_allowedAlgorithms :: "jsstring list"
  oc_allowedJwtAlgorithms :: "jsstring list"
  oc_allowedJwtTypes :: "jsstring list"
  oc_dangerouslyAllowInsecureIssuerUrl :: bool
  oc_dangerouslyAllowUnauthenticatedIntrospection :: bool
  oc_tokenCacheMaxEntries :: int
  oc_tokenCacheTtlSeconds :: int
  oc_tokenCacheSkewSeconds :: int
  oc_introspectionTimeoutMs :: int
  oc_introspectionMaxRetries :: int
  oc_introspectionRetryDelayMs :: int
  oc_introspectionCircuitFailures :: int
  oc_introspectionCircuitOpenMs :: int
  oc_jwksCacheTtlSeconds :: int
  oc_jwksCacheMinTtlSeconds :: int
  oc_jwksTimeoutMs :: int
  oc_jwksMaxRetries :: int
  oc_jwksRetryDelayMs :: int
  oc_jwksCircuitFailures :: int
  oc_jwksCircuitOpenMs :: int
  oc_jwksRefreshCooldownMs :: int
  oc_jwtClockSkewSeconds :: int

definition DEFAULT_TOKEN_TYPES :: "jsstring list" where
  "DEFAULT_TOKEN_TYPES = [js ''bearer'']"

definition DEFAULT_ALLOWED_ALGORITHMS :: "jsstring list" where
  "DEFAULT_ALLOWED_ALGORITHMS = [js ''RS256'', js ''ES256'', js ''EdDSA'']"

definition DEFAULT_ALLOWED_JWT_ALGORITHMS :: "jsstring list" where
  "DEFAULT_ALLOWED_JWT_ALGORITHMS = [js ''RS256'']"

definition DEFAULT_ALLOWED_JWT_TYPES :: "jsstring list" where
  "DEFAULT_ALLOWED_JWT_TYPES = [js ''at+jwt'', js ''application/at+jwt'']"

definition JWKS_UNKNOWN_KID_CACHE_MAX_ENTRIES :: nat where
  "JWKS_UNKNOWN_KID_CACHE_MAX_ENTRIES = 1000"

section \<open>Reading the environment\<close>

definition csv_values :: "jsstring option \<Rightarrow> jsstring list \<Rightarrow> jsstring list" where
  "csv_values v fallback =
     (let items = filter (\<lambda>i. i \<noteq> []) (map js_trim (split_on 44 (case v of Some s \<Rightarrow> s | None \<Rightarrow> [])))
      in if items \<noteq> [] then items else fallback)"

definition requiredEnv :: "env \<Rightarrow> jsstring \<Rightarrow> oauth_failure + jsstring" where
  "requiredEnv env name =
     (case nonempty (map_option js_trim (env name)) of
        None \<Rightarrow> Inl (OAuthConfigError (name @ js '' is required for OAuth-secured MCP serving''))
      | Some v \<Rightarrow> Inr v)"

definition optionalEnv :: "env \<Rightarrow> jsstring \<Rightarrow> jsstring option" where
  "optionalEnv env name = nonempty (map_option js_trim (env name))"

definition intEnv :: "env \<Rightarrow> jsstring \<Rightarrow> int \<Rightarrow> int \<Rightarrow> int" where
  "intEnv env name fallback least = max least (parseIntEnv (env name) fallback)"

definition local_host :: "jsstring \<Rightarrow> bool" where
  "local_host h \<longleftrightarrow> h = js ''localhost'' \<or> h = js ''127.0.0.1'' \<or> h = js ''::1''"

definition ensureHttpsOrLocalhost ::
  "(jsstring \<Rightarrow> url_parts option) \<Rightarrow> jsstring \<Rightarrow> jsstring \<Rightarrow> bool \<Rightarrow> oauth_failure + unit" where
  "ensureHttpsOrLocalhost url rawUrl label allowInsecure =
     (case url rawUrl of
        None \<Rightarrow> Inl (OAuthOtherError (js ''Invalid URL''))
      | Some u \<Rightarrow>
          if url_protocol u \<noteq> js ''https:'' \<and> \<not> (allowInsecure \<and> local_host (url_hostname u))
          then Inl (OAuthConfigError (label @ js '' must use https'')) else Inr ())"

definition SUPPORTED_JWT_ALGORITHMS :: "jsstring list" where
  "SUPPORTED_JWT_ALGORITHMS = [js ''RS256'', js ''ES256'', js ''EdDSA'']"

fun unsupported_algorithm :: "jsstring list \<Rightarrow> jsstring option" where
  "unsupported_algorithm [] = None"
| "unsupported_algorithm (a # as) =
     (if a \<in> set SUPPORTED_JWT_ALGORITHMS then unsupported_algorithm as else Some a)"

definition assertSupportedJwtAlgorithms :: "jsstring list \<Rightarrow> oauth_failure + unit" where
  "assertSupportedJwtAlgorithms allowed =
     (if allowed = []
      then Inl (OAuthConfigError (js ''B2_OAUTH_ALLOWED_ALGORITHMS must include at least one JWT algorithm''))
      else case unsupported_algorithm allowed of
             Some a \<Rightarrow> Inl (OAuthConfigError
               (js ''B2_OAUTH_ALLOWED_ALGORITHMS includes unsupported JWT algorithm '' @ a))
           | None \<Rightarrow> Inr ())"

definition NO_VERIFIER :: oauth_failure where
  "NO_VERIFIER = OAuthConfigError
     (js ''B2_OAUTH_INTROSPECTION_ENDPOINT or B2_OAUTH_JWKS_URI is required for OAuth token verification'')"

text \<open>The settings as an object literal evaluates them: three of them may be missing, in this order.\<close>

definition oauth_settings :: "env \<Rightarrow> jsstring \<Rightarrow> oauth_failure + oauth_config" where
  "oauth_settings env publicUrl =
     (let or_default = (\<lambda>v d. case v of Some s \<Rightarrow> s | None \<Rightarrow> d);
          allowedAlgorithmsEnv = optionalEnv env (js ''B2_OAUTH_ALLOWED_ALGORITHMS'') in
      js_bind (requiredEnv env (js ''B2_OAUTH_ISSUER'')) (\<lambda>issuer.
      js_bind (requiredEnv env (js ''B2_OAUTH_AUTHORIZATION_ENDPOINT'')) (\<lambda>authorization.
      js_bind (requiredEnv env (js ''B2_OAUTH_TOKEN_ENDPOINT'')) (\<lambda>token. Inr
        \<lparr> oc_issuer = issuer,
          oc_resource = js_trim (or_default (env (js ''B2_OAUTH_RESOURCE'')) publicUrl),
          oc_audience = js_trim (or_default (env (js ''B2_OAUTH_AUDIENCE''))
             (or_default (env (js ''B2_OAUTH_RESOURCE'')) publicUrl)),
          oc_publicUrl = publicUrl, oc_authorizationEndpoint = authorization, oc_tokenEndpoint = token,
          oc_introspectionEndpoint = optionalEnv env (js ''B2_OAUTH_INTROSPECTION_ENDPOINT''),
          oc_jwksUri = optionalEnv env (js ''B2_OAUTH_JWKS_URI''),
          oc_introspectionClientId = optionalEnv env (js ''B2_OAUTH_INTROSPECTION_CLIENT_ID''),
          oc_introspectionClientSecret = optionalEnv env (js ''B2_OAUTH_INTROSPECTION_CLIENT_SECRET''),
          oc_introspectionBearerToken = optionalEnv env (js ''B2_OAUTH_INTROSPECTION_BEARER_TOKEN''),
          oc_serviceDocumentationUrl = optionalEnv env (js ''B2_MCP_SERVICE_DOCUMENTATION_URL''),
          oc_requiredScopes = csv_values (env (js ''B2_OAUTH_REQUIRED_SCOPES'')) [],
          oc_allowedSubjects = csv_values (env (js ''B2_OAUTH_ALLOWED_SUBJECTS'')) [],
          oc_allowedTokenTypes =
            map ascii_lower (csv_values (env (js ''B2_OAUTH_ALLOWED_TOKEN_TYPES'')) DEFAULT_TOKEN_TYPES),
          oc_allowedAlgorithms = csv_values allowedAlgorithmsEnv DEFAULT_ALLOWED_ALGORITHMS,
          oc_allowedJwtAlgorithms = csv_values allowedAlgorithmsEnv DEFAULT_ALLOWED_JWT_ALGORITHMS,
          oc_allowedJwtTypes =
            map ascii_lower (csv_values (env (js ''B2_OAUTH_ALLOWED_JWT_TYPES'')) DEFAULT_ALLOWED_JWT_TYPES),
          oc_dangerouslyAllowInsecureIssuerUrl =
            (env (js ''B2_OAUTH_DANGEROUSLY_ALLOW_INSECURE_ISSUER_URL'') = Some (js ''true'')),
          oc_dangerouslyAllowUnauthenticatedIntrospection =
            (env (js ''B2_OAUTH_DANGEROUSLY_ALLOW_UNAUTHENTICATED_INTROSPECTION'') = Some (js ''true'')),
          oc_tokenCacheMaxEntries = intEnv env (js ''B2_OAUTH_TOKEN_CACHE_MAX_ENTRIES'') 1000 1,
          oc_tokenCacheTtlSeconds = intEnv env (js ''B2_OAUTH_TOKEN_CACHE_TTL_SECONDS'') 300 1,
          oc_tokenCacheSkewSeconds = intEnv env (js ''B2_OAUTH_TOKEN_CACHE_SKEW_SECONDS'') 30 0,
          oc_introspectionTimeoutMs = intEnv env (js ''B2_OAUTH_INTROSPECTION_TIMEOUT_MS'') 3000 1,
          oc_introspectionMaxRetries = intEnv env (js ''B2_OAUTH_INTROSPECTION_RETRIES'') 1 0,
          oc_introspectionRetryDelayMs = intEnv env (js ''B2_OAUTH_INTROSPECTION_RETRY_DELAY_MS'') 50 0,
          oc_introspectionCircuitFailures = intEnv env (js ''B2_OAUTH_INTROSPECTION_CIRCUIT_FAILURES'') 5 1,
          oc_introspectionCircuitOpenMs = intEnv env (js ''B2_OAUTH_INTROSPECTION_CIRCUIT_OPEN_MS'') 30000 1,
          oc_jwksCacheTtlSeconds = intEnv env (js ''B2_OAUTH_JWKS_CACHE_TTL_SECONDS'') 300 1,
          oc_jwksCacheMinTtlSeconds = intEnv env (js ''B2_OAUTH_JWKS_CACHE_MIN_TTL_SECONDS'') 30 1,
          oc_jwksTimeoutMs = intEnv env (js ''B2_OAUTH_JWKS_TIMEOUT_MS'')
            (intEnv env (js ''B2_OAUTH_INTROSPECTION_TIMEOUT_MS'') 3000 1) 1,
          oc_jwksMaxRetries = intEnv env (js ''B2_OAUTH_JWKS_RETRIES'') 1 0,
          oc_jwksRetryDelayMs = intEnv env (js ''B2_OAUTH_JWKS_RETRY_DELAY_MS'') 50 0,
          oc_jwksCircuitFailures = intEnv env (js ''B2_OAUTH_JWKS_CIRCUIT_FAILURES'') 5 1,
          oc_jwksCircuitOpenMs = intEnv env (js ''B2_OAUTH_JWKS_CIRCUIT_OPEN_MS'') 30000 1,
          oc_jwksRefreshCooldownMs = intEnv env (js ''B2_OAUTH_JWKS_REFRESH_COOLDOWN_MS'') 30000 1,
          oc_jwtClockSkewSeconds = intEnv env (js ''B2_OAUTH_JWT_CLOCK_SKEW_SECONDS'') 60 0 \<rparr>))))"

text \<open>The checks on the URLs of a configuration, in the order of the code.\<close>

definition check_urls :: "(jsstring \<Rightarrow> url_parts option) \<Rightarrow> oauth_config \<Rightarrow> oauth_failure + unit" where
  "check_urls url config =
     (let insecure = oc_dangerouslyAllowInsecureIssuerUrl config;
          https = (\<lambda>u label. ensureHttpsOrLocalhost url u label insecure) in
      js_bind (https (oc_issuer config) (js ''B2_OAUTH_ISSUER'')) (\<lambda>_.
      js_bind (https (oc_authorizationEndpoint config) (js ''B2_OAUTH_AUTHORIZATION_ENDPOINT'')) (\<lambda>_.
      js_bind (https (oc_tokenEndpoint config) (js ''B2_OAUTH_TOKEN_ENDPOINT'')) (\<lambda>_.
      js_bind (case oc_introspectionEndpoint config of
                 Some u \<Rightarrow> https u (js ''B2_OAUTH_INTROSPECTION_ENDPOINT'') | None \<Rightarrow> Inr ()) (\<lambda>_.
      js_bind (case oc_jwksUri config of
                 Some u \<Rightarrow> js_bind (https u (js ''B2_OAUTH_JWKS_URI''))
                   (\<lambda>_. assertSupportedJwtAlgorithms (oc_allowedJwtAlgorithms config))
               | None \<Rightarrow> Inr ()) (\<lambda>_.
      js_bind (https (oc_publicUrl config) (js ''B2_MCP_PUBLIC_URL'')) (\<lambda>_.
      https (oc_resource config) (js ''B2_OAUTH_RESOURCE''))))))))"

definition hasIntrospectionConfig :: "oauth_config \<Rightarrow> bool" where
  "hasIntrospectionConfig config \<longleftrightarrow> nonempty (oc_introspectionEndpoint config) \<noteq> None"

definition hasJwtConfig :: "oauth_config \<Rightarrow> bool" where
  "hasJwtConfig config \<longleftrightarrow> nonempty (oc_jwksUri config) \<noteq> None"

definition loadOAuthResourceServerConfig ::
  "(jsstring \<Rightarrow> url_parts option) \<Rightarrow> env \<Rightarrow> oauth_failure + oauth_config" where
  "loadOAuthResourceServerConfig url env =
     (let publicUrl = js_trim (case env (js ''B2_MCP_PUBLIC_URL'') of Some v \<Rightarrow> v
            | None \<Rightarrow> (case env (js ''B2_OAUTH_RESOURCE'') of Some v \<Rightarrow> v | None \<Rightarrow> []));
          clientId = optionalEnv env (js ''B2_OAUTH_INTROSPECTION_CLIENT_ID'');
          clientSecret = optionalEnv env (js ''B2_OAUTH_INTROSPECTION_CLIENT_SECRET'');
          bearer = optionalEnv env (js ''B2_OAUTH_INTROSPECTION_BEARER_TOKEN'');
          endpoint = optionalEnv env (js ''B2_OAUTH_INTROSPECTION_ENDPOINT'');
          jwks = optionalEnv env (js ''B2_OAUTH_JWKS_URI'') in
      if publicUrl = []
      then Inl (OAuthConfigError (js ''B2_MCP_PUBLIC_URL or B2_OAUTH_RESOURCE is required for OAuth metadata''))
      else if endpoint = None \<and> jwks = None then Inl NO_VERIFIER
      else if (clientId = None) \<noteq> (clientSecret = None)
      then Inl (OAuthConfigError (js ''B2_OAUTH_INTROSPECTION_CLIENT_ID and B2_OAUTH_INTROSPECTION_CLIENT_SECRET must be configured together''))
      else if endpoint \<noteq> None \<and> bearer = None \<and> \<not> (clientId \<noteq> None \<and> clientSecret \<noteq> None) \<and>
        env (js ''B2_OAUTH_DANGEROUSLY_ALLOW_UNAUTHENTICATED_INTROSPECTION'') \<noteq> Some (js ''true'')
      then Inl (OAuthConfigError (js ''OAuth introspection requires B2_OAUTH_INTROSPECTION_CLIENT_ID/B2_OAUTH_INTROSPECTION_CLIENT_SECRET or B2_OAUTH_INTROSPECTION_BEARER_TOKEN''))
      else
        js_bind (oauth_settings env publicUrl) (\<lambda>config.
        js_bind (check_urls url config) (\<lambda>_.
          if hasIntrospectionConfig config \<or> hasJwtConfig config then Inr config else Inl NO_VERIFIER)))"

section \<open>What a loaded configuration guarantees\<close>

definition secure_url :: "(jsstring \<Rightarrow> url_parts option) \<Rightarrow> bool \<Rightarrow> jsstring \<Rightarrow> bool" where
  "secure_url url insecure u \<longleftrightarrow>
     (\<exists>p. url u = Some p \<and> (url_protocol p = js ''https:'' \<or> insecure \<and> local_host (url_hostname p)))"

lemma ensureHttps_Inr: "ensureHttpsOrLocalhost url u label insecure = Inr x \<longleftrightarrow> secure_url url insecure u"
  by (auto simp: ensureHttpsOrLocalhost_def secure_url_def split: option.splits)

lemma unsupported_algorithm_None: "unsupported_algorithm as = None \<longleftrightarrow> set as \<subseteq> set SUPPORTED_JWT_ALGORITHMS"
  by (induction as) auto

lemma assertSupported_Inr:
  "assertSupportedJwtAlgorithms as = Inr x \<longleftrightarrow> as \<noteq> [] \<and> set as \<subseteq> set SUPPORTED_JWT_ALGORITHMS"
  using unsupported_algorithm_None [of as]
  by (cases "unsupported_algorithm as") (simp_all add: assertSupportedJwtAlgorithms_def)

lemma check_urls_Inr:
  "check_urls url c = Inr x \<longleftrightarrow>
     (\<forall>u \<in> {oc_issuer c, oc_authorizationEndpoint c, oc_tokenEndpoint c, oc_publicUrl c, oc_resource c} \<union>
        set_option (oc_introspectionEndpoint c) \<union> set_option (oc_jwksUri c).
        secure_url url (oc_dangerouslyAllowInsecureIssuerUrl c) u) \<and>
     (oc_jwksUri c \<noteq> None \<longrightarrow> oc_allowedJwtAlgorithms c \<noteq> [] \<and>
        set (oc_allowedJwtAlgorithms c) \<subseteq> set SUPPORTED_JWT_ALGORITHMS)"
  by (cases "oc_introspectionEndpoint c"; cases "oc_jwksUri c")
    (auto simp: check_urls_def Let_def js_bind_Inr ensureHttps_Inr assertSupported_Inr)

lemma oauth_settings_Inr:
  assumes "oauth_settings env p = Inr c"
  shows "oc_introspectionEndpoint c = optionalEnv env (js ''B2_OAUTH_INTROSPECTION_ENDPOINT'')"
    "oc_jwksUri c = optionalEnv env (js ''B2_OAUTH_JWKS_URI'')"
    "oc_introspectionClientId c = optionalEnv env (js ''B2_OAUTH_INTROSPECTION_CLIENT_ID'')"
    "oc_introspectionClientSecret c = optionalEnv env (js ''B2_OAUTH_INTROSPECTION_CLIENT_SECRET'')"
    "oc_introspectionBearerToken c = optionalEnv env (js ''B2_OAUTH_INTROSPECTION_BEARER_TOKEN'')"
    "oc_dangerouslyAllowInsecureIssuerUrl c \<longleftrightarrow>
       env (js ''B2_OAUTH_DANGEROUSLY_ALLOW_INSECURE_ISSUER_URL'') = Some (js ''true'')"
    "oc_dangerouslyAllowUnauthenticatedIntrospection c \<longleftrightarrow>
       env (js ''B2_OAUTH_DANGEROUSLY_ALLOW_UNAUTHENTICATED_INTROSPECTION'') = Some (js ''true'')"
    "1 \<le> oc_tokenCacheMaxEntries c" "1 \<le> oc_tokenCacheTtlSeconds c" "0 \<le> oc_tokenCacheSkewSeconds c"
    "0 \<le> oc_introspectionMaxRetries c" "1 \<le> oc_introspectionCircuitFailures c" "1 \<le> oc_introspectionCircuitOpenMs c"
    "0 \<le> oc_jwksMaxRetries c" "1 \<le> oc_jwksCircuitFailures c" "1 \<le> oc_jwksCircuitOpenMs c"
    "1 \<le> oc_jwksRefreshCooldownMs c" "0 \<le> oc_jwtClockSkewSeconds c"
    "oc_issuer c \<noteq> []" "oc_allowedTokenTypes c \<noteq> []" "oc_allowedAlgorithms c \<noteq> []"
    "1 \<le> oc_jwksCacheTtlSeconds c" "1 \<le> oc_jwksCacheMinTtlSeconds c"
    "oc_allowedJwtAlgorithms c =
       csv_values (optionalEnv env (js ''B2_OAUTH_ALLOWED_ALGORITHMS'')) DEFAULT_ALLOWED_JWT_ALGORITHMS"
proof -
  obtain issuer authorization token where r: "requiredEnv env (js ''B2_OAUTH_ISSUER'') = Inr issuer"
      "requiredEnv env (js ''B2_OAUTH_AUTHORIZATION_ENDPOINT'') = Inr authorization"
      "requiredEnv env (js ''B2_OAUTH_TOKEN_ENDPOINT'') = Inr token"
    using assms by (auto simp: oauth_settings_def Let_def js_bind_Inr)
  note c = assms [unfolded oauth_settings_def Let_def r js_bind_simps, THEN sum.inject(2) [THEN iffD1], symmetric]
  have i: "issuer \<noteq> []" using r(1) by (auto simp: requiredEnv_def nonempty_Some split: option.splits)
  have csv: "d \<noteq> [] \<Longrightarrow> csv_values v d \<noteq> []" for v d by (simp add: csv_values_def Let_def)
  show "oc_introspectionEndpoint c = optionalEnv env (js ''B2_OAUTH_INTROSPECTION_ENDPOINT'')"
    "oc_jwksUri c = optionalEnv env (js ''B2_OAUTH_JWKS_URI'')"
    "oc_introspectionClientId c = optionalEnv env (js ''B2_OAUTH_INTROSPECTION_CLIENT_ID'')"
    "oc_introspectionClientSecret c = optionalEnv env (js ''B2_OAUTH_INTROSPECTION_CLIENT_SECRET'')"
    "oc_introspectionBearerToken c = optionalEnv env (js ''B2_OAUTH_INTROSPECTION_BEARER_TOKEN'')"
    "oc_dangerouslyAllowInsecureIssuerUrl c \<longleftrightarrow>
       env (js ''B2_OAUTH_DANGEROUSLY_ALLOW_INSECURE_ISSUER_URL'') = Some (js ''true'')"
    "oc_dangerouslyAllowUnauthenticatedIntrospection c \<longleftrightarrow>
       env (js ''B2_OAUTH_DANGEROUSLY_ALLOW_UNAUTHENTICATED_INTROSPECTION'') = Some (js ''true'')"
    "1 \<le> oc_tokenCacheMaxEntries c" "1 \<le> oc_tokenCacheTtlSeconds c" "0 \<le> oc_tokenCacheSkewSeconds c"
    "0 \<le> oc_introspectionMaxRetries c" "1 \<le> oc_introspectionCircuitFailures c" "1 \<le> oc_introspectionCircuitOpenMs c"
    "0 \<le> oc_jwksMaxRetries c" "1 \<le> oc_jwksCircuitFailures c" "1 \<le> oc_jwksCircuitOpenMs c"
    "1 \<le> oc_jwksRefreshCooldownMs c" "0 \<le> oc_jwtClockSkewSeconds c"
    "oc_issuer c \<noteq> []" "oc_allowedTokenTypes c \<noteq> []" "oc_allowedAlgorithms c \<noteq> []"
    "1 \<le> oc_jwksCacheTtlSeconds c" "1 \<le> oc_jwksCacheMinTtlSeconds c"
    "oc_allowedJwtAlgorithms c =
       csv_values (optionalEnv env (js ''B2_OAUTH_ALLOWED_ALGORITHMS'')) DEFAULT_ALLOWED_JWT_ALGORITHMS"
    by (simp_all add: c intEnv_def i csv DEFAULT_TOKEN_TYPES_def DEFAULT_ALLOWED_ALGORITHMS_def)
qed

text \<open>
  A resource server that starts is closed: every endpoint is https, or a local host under the explicit
  development switch; there is a verifier; introspection is authenticated unless the environment says
  otherwise; tokens are only ever checked with asymmetric signatures; and no bound is degenerate.
\<close>

theorem oauth_config_closed:
  assumes "loadOAuthResourceServerConfig url env = Inr c"
  shows "(\<forall>u \<in> {oc_issuer c, oc_authorizationEndpoint c, oc_tokenEndpoint c, oc_publicUrl c, oc_resource c} \<union>
        set_option (oc_introspectionEndpoint c) \<union> set_option (oc_jwksUri c).
        \<exists>p. url u = Some p \<and> (url_protocol p = js ''https:'' \<or>
          env (js ''B2_OAUTH_DANGEROUSLY_ALLOW_INSECURE_ISSUER_URL'') = Some (js ''true'') \<and>
          url_hostname p \<in> {js ''localhost'', js ''127.0.0.1'', js ''::1''})) \<and>
    (hasIntrospectionConfig c \<or> hasJwtConfig c) \<and>
    (hasIntrospectionConfig c \<longrightarrow>
       oc_introspectionBearerToken c \<noteq> None \<or>
       oc_introspectionClientId c \<noteq> None \<and> oc_introspectionClientSecret c \<noteq> None \<or>
       env (js ''B2_OAUTH_DANGEROUSLY_ALLOW_UNAUTHENTICATED_INTROSPECTION'') = Some (js ''true'')) \<and>
    (hasJwtConfig c \<longrightarrow> oc_allowedJwtAlgorithms c \<noteq> [] \<and>
       set (oc_allowedJwtAlgorithms c) \<subseteq> {js ''RS256'', js ''ES256'', js ''EdDSA''}) \<and>
    oc_issuer c \<noteq> [] \<and> oc_allowedTokenTypes c \<noteq> [] \<and> oc_allowedAlgorithms c \<noteq> [] \<and>
    1 \<le> oc_tokenCacheMaxEntries c \<and> 1 \<le> oc_introspectionCircuitFailures c \<and> 1 \<le> oc_jwksCircuitFailures c \<and>
    1 \<le> oc_jwksRefreshCooldownMs c \<and> 0 \<le> oc_jwtClockSkewSeconds c"
proof -
  obtain p where s: "oauth_settings env p = Inr c"
    using assms by (auto simp: loadOAuthResourceServerConfig_def Let_def js_bind_Inr split: if_splits)
  note f = oauth_settings_Inr [OF s]
  have auth: "oc_introspectionEndpoint c = None \<or> oc_introspectionBearerToken c \<noteq> None \<or>
       oc_introspectionClientId c \<noteq> None \<and> oc_introspectionClientSecret c \<noteq> None \<or>
       env (js ''B2_OAUTH_DANGEROUSLY_ALLOW_UNAUTHENTICATED_INTROSPECTION'') = Some (js ''true'')"
    and urls: "check_urls url c = Inr ()" and one: "hasIntrospectionConfig c \<or> hasJwtConfig c"
    using assms s by (auto simp: loadOAuthResourceServerConfig_def Let_def js_bind_Inr f(1-5) split: if_splits)
  have present: "hasIntrospectionConfig c \<Longrightarrow> oc_introspectionEndpoint c \<noteq> None" "hasJwtConfig c \<Longrightarrow> oc_jwksUri c \<noteq> None"
    by (auto simp: hasIntrospectionConfig_def hasJwtConfig_def nonempty_def split: option.splits)
  have algs: "set SUPPORTED_JWT_ALGORITHMS = {js ''RS256'', js ''ES256'', js ''EdDSA''}"
    by (simp add: SUPPORTED_JWT_ALGORITHMS_def)
  note u = urls [unfolded check_urls_Inr secure_url_def local_host_def f(6) algs]
  have "hasIntrospectionConfig c \<longrightarrow>
       oc_introspectionBearerToken c \<noteq> None \<or>
       oc_introspectionClientId c \<noteq> None \<and> oc_introspectionClientSecret c \<noteq> None \<or>
       env (js ''B2_OAUTH_DANGEROUSLY_ALLOW_UNAUTHENTICATED_INTROSPECTION'') = Some (js ''true'')"
    using auth present(1) by blast
  moreover have "hasJwtConfig c \<longrightarrow> oc_allowedJwtAlgorithms c \<noteq> [] \<and>
       set (oc_allowedJwtAlgorithms c) \<subseteq> {js ''RS256'', js ''ES256'', js ''EdDSA''}"
    using u present(2) by blast
  ultimately show ?thesis
    using u one f(8,12,15,17-21) by (intro conjI) (assumption | blast)+
qed

definition sample_oauth_env :: env where
  "sample_oauth_env =
     [js ''B2_MCP_PUBLIC_URL'' \<mapsto> js ''https://mcp'', js ''B2_OAUTH_ISSUER'' \<mapsto> js ''https://as'',
      js ''B2_OAUTH_AUTHORIZATION_ENDPOINT'' \<mapsto> js ''https://as/a'',
      js ''B2_OAUTH_TOKEN_ENDPOINT'' \<mapsto> js ''https://as/t'', js ''B2_OAUTH_JWKS_URI'' \<mapsto> js ''https://as/k'']"

definition sample_url :: "jsstring \<Rightarrow> url_parts option" where
  "sample_url u = Some \<lparr> url_protocol = js ''https:'', url_hostname = js ''as'', url_href = u \<rparr>"

lemma sample_trims:
  "js_trim (js ''https://mcp'') = js ''https://mcp''" "js_trim (js ''https://as'') = js ''https://as''"
  "js_trim (js ''https://as/a'') = js ''https://as/a''" "js_trim (js ''https://as/t'') = js ''https://as/t''"
  "js_trim (js ''https://as/k'') = js ''https://as/k''"
  by (simp_all add: js_trim_def js_space_def js_simps)

lemma sample_required:
  "requiredEnv sample_oauth_env (js ''B2_OAUTH_ISSUER'') = Inr (js ''https://as'')"
  "requiredEnv sample_oauth_env (js ''B2_OAUTH_AUTHORIZATION_ENDPOINT'') = Inr (js ''https://as/a'')"
  "requiredEnv sample_oauth_env (js ''B2_OAUTH_TOKEN_ENDPOINT'') = Inr (js ''https://as/t'')"
  by (simp_all add: requiredEnv_def sample_oauth_env_def sample_trims nonempty_def)

lemma sample_optional:
  "optionalEnv sample_oauth_env (js ''B2_OAUTH_INTROSPECTION_ENDPOINT'') = None"
  "optionalEnv sample_oauth_env (js ''B2_OAUTH_JWKS_URI'') = Some (js ''https://as/k'')"
  "optionalEnv sample_oauth_env (js ''B2_OAUTH_INTROSPECTION_CLIENT_ID'') = None"
  "optionalEnv sample_oauth_env (js ''B2_OAUTH_INTROSPECTION_CLIENT_SECRET'') = None"
  "optionalEnv sample_oauth_env (js ''B2_OAUTH_ALLOWED_ALGORITHMS'') = None"
  "sample_oauth_env (js ''B2_MCP_PUBLIC_URL'') = Some (js ''https://mcp'')"
  by (simp_all add: optionalEnv_def sample_oauth_env_def sample_trims nonempty_def)

theorem oauth_config_closed_witness:
  "\<exists>c. loadOAuthResourceServerConfig sample_url sample_oauth_env = Inr c \<and>
     set (oc_allowedJwtAlgorithms c) \<subseteq> {js ''RS256'', js ''ES256'', js ''EdDSA''}"
proof -
  have "\<exists>c. oauth_settings sample_oauth_env (js ''https://mcp'') = Inr c"
    by (simp add: oauth_settings_def Let_def sample_required)
  then obtain c where s: "oauth_settings sample_oauth_env (js ''https://mcp'') = Inr c" by blast
  have c: "oc_introspectionEndpoint c = None" "oc_jwksUri c = Some (js ''https://as/k'')"
    "oc_allowedJwtAlgorithms c = DEFAULT_ALLOWED_JWT_ALGORITHMS"
    using oauth_settings_Inr(1,2,24) [OF s] by (simp_all add: sample_optional csv_values_def js_trim_def)
  have "check_urls sample_url c = Inr ()"
    unfolding check_urls_Inr using c
    by (auto simp: secure_url_def sample_url_def DEFAULT_ALLOWED_JWT_ALGORITHMS_def SUPPORTED_JWT_ALGORITHMS_def)
  moreover have j: "hasJwtConfig c" using c(2) by (simp add: hasJwtConfig_def nonempty_def)
  ultimately have l: "loadOAuthResourceServerConfig sample_url sample_oauth_env = Inr c"
    using s by (simp add: loadOAuthResourceServerConfig_def Let_def sample_optional sample_trims)
  with j oauth_config_closed [OF l] l show ?thesis by blast
qed

end
