(* ===== verification/Oauth_Claims.thy ===== *)
theory Oauth_Claims
  imports Oauth_Config Credential_Routing Js_Num_Value
begin

text \<open>
  What the OAuth resource server accepts (\<open>src/oauth-resource-server.ts\<close>): the checks on the claims of a
  token, by introspection or from a verified JWT, the authentication info that they produce, and the
  re-validation of an info that trusted middleware supplies. Claims are the properties of a JSON object;
  the keyed label of a token and the parser of URLs are parameters.
\<close>

section \<open>Reading claims\<close>

definition claim_strings :: "jsval list \<Rightarrow> jsstring list" where
  "claim_strings vs = List.map_filter (\<lambda>v. case v of Str s \<Rightarrow> Some s | _ \<Rightarrow> None) vs"

fun claim_values :: "jsval \<Rightarrow> jsstring list" where
  "claim_values (Arr vs) = claim_strings vs"
| "claim_values (Str s) = [s]"
| "claim_values _ = []"

text \<open>\<open>value.split(/\s+/).filter(Boolean)\<close>: the words between white space.\<close>

fun words_from :: "jsstring \<Rightarrow> jsstring \<Rightarrow> jsstring list" where
  "words_from acc [] = (if acc = [] then [] else [rev acc])"
| "words_from acc (c # cs) =
     (if js_space c then (if acc = [] then words_from [] cs else rev acc # words_from [] cs)
      else words_from (c # acc) cs)"

fun scopesFromClaim :: "jsval \<Rightarrow> jsstring list" where
  "scopesFromClaim (Arr vs) = claim_strings vs"
| "scopesFromClaim (Str s) = words_from [] s"
| "scopesFromClaim _ = []"

fun finite_value :: "jsnum \<Rightarrow> rat option" where
  "finite_value (Fin neg s e) = Some (num_value neg s e)"
| "finite_value _ = None"

fun numberClaim :: "jsval \<Rightarrow> rat option" where
  "numberClaim (Num n) = finite_value n"
| "numberClaim (Str s) = (case js_number s of Finite r \<Rightarrow> Some r | _ \<Rightarrow> None)"
| "numberClaim _ = None"

abbreviation rejected :: "jsstring \<Rightarrow> oauth_failure + 'a" where
  "rejected m \<equiv> Inl (OAuthError InvalidToken m)"

definition jwtNumericDateClaim :: "jsprops \<Rightarrow> jsstring \<Rightarrow> oauth_failure + rat option" where
  "jwtNumericDateClaim claims name =
     (let refused = rejected (js ''Token '' @ name @ js '' is not accepted'') in
      case prop_get claims name of
        Undefined \<Rightarrow> Inr None
      | Num n \<Rightarrow> (case finite_value n of Some r \<Rightarrow> Inr (Some r) | None \<Rightarrow> refused)
      | _ \<Rightarrow> refused)"

fun stringClaim :: "jsval \<Rightarrow> jsstring option" where
  "stringClaim (Str s) = (if js_trim s = [] then None else Some s)"
| "stringClaim _ = None"

text \<open>\<open>a ?? b\<close>\<close>

definition coalesce :: "jsval \<Rightarrow> jsval \<Rightarrow> jsval" where
  "coalesce a b = (if nullish a then b else a)"

definition first_claim :: "jsstring option list \<Rightarrow> jsstring option" where
  "first_claim cs = (case List.map_filter id cs of [] \<Rightarrow> None | c # rest \<Rightarrow> Some c)"

section \<open>The checks\<close>

definition requireMatch :: "jsval \<Rightarrow> jsstring \<Rightarrow> jsstring \<Rightarrow> oauth_failure + unit" where
  "requireMatch actual expected name =
     (if expected \<in> set (claim_values actual) then Inr ()
      else rejected (js ''Token '' @ name @ js '' is not accepted''))"

definition expired_at :: "rat option \<Rightarrow> int \<Rightarrow> bool" where
  "expired_at ex limit \<longleftrightarrow> (case ex of None \<Rightarrow> True | Some e \<Rightarrow> e = 0 \<or> e \<le> of_int limit)"

definition after :: "rat option \<Rightarrow> int \<Rightarrow> bool" where
  "after t limit \<longleftrightarrow> (case t of None \<Rightarrow> False | Some r \<Rightarrow> of_int limit < r)"

definition assertTimeWindow :: "rat option \<Rightarrow> rat option \<Rightarrow> int \<Rightarrow> oauth_failure + rat" where
  "assertTimeWindow ex nbf now =
     (if expired_at ex now then rejected (js ''Token is expired'')
      else if after nbf now then rejected (js ''Token is not yet valid'')
      else Inr (the ex))"

definition assertJwtTimeWindow :: "jsprops \<Rightarrow> int \<Rightarrow> int \<Rightarrow> oauth_failure + rat" where
  "assertJwtTimeWindow claims now clockSkewSeconds =
     js_bind (jwtNumericDateClaim claims (js ''exp'')) (\<lambda>ex.
     js_bind (jwtNumericDateClaim claims (js ''nbf'')) (\<lambda>nbf.
     js_bind (jwtNumericDateClaim claims (js ''iat'')) (\<lambda>iat.
       if expired_at ex (now - clockSkewSeconds) then rejected (js ''Token is expired'')
       else if after nbf (now + clockSkewSeconds) then rejected (js ''Token is not yet valid'')
       else if after iat (now + clockSkewSeconds) then rejected (js ''Token issued-at is not accepted'')
       else Inr (the ex))))"

definition assertTokenType :: "jsprops \<Rightarrow> jsstring list \<Rightarrow> oauth_failure + unit" where
  "assertTokenType claims allowed =
     (case stringClaim (prop_get claims (js ''token_type'')) of
        None \<Rightarrow> Inr ()
      | Some t \<Rightarrow> if ascii_lower t \<in> set allowed then Inr () else rejected (js ''Unsupported token type''))"

definition assertAllowedAlgorithm :: "jsstring \<Rightarrow> jsstring list \<Rightarrow> oauth_failure + jsstring option" where
  "assertAllowedAlgorithm algorithm allowed =
     (if allowed = [] then Inr None
      else if algorithm \<notin> set allowed then rejected (js ''Token algorithm is not accepted'')
      else Inr (Some algorithm))"

definition algorithm_claim :: "jsprops \<Rightarrow> jsstring option" where
  "algorithm_claim claims =
     stringClaim (coalesce (prop_get claims (js ''alg''))
       (coalesce (prop_get claims (js ''jwt_alg'')) (prop_get claims (js ''token_alg''))))"

definition assertTokenAlgorithm :: "jsprops \<Rightarrow> jsstring list \<Rightarrow> oauth_failure + jsstring option" where
  "assertTokenAlgorithm claims allowed =
     (if allowed = [] then Inr None
      else case algorithm_claim claims of
             None \<Rightarrow> rejected (js ''Token algorithm is not accepted'')
           | Some algorithm \<Rightarrow>
               js_bind (assertAllowedAlgorithm algorithm allowed) (\<lambda>_. Inr (Some algorithm)))"

definition B2_OAUTH_SCOPES :: "jsstring list" where
  "B2_OAUTH_SCOPES = [js ''b2:read'', js ''b2:write'', js ''b2:admin'']"

definition assertDeploymentScope :: "jsstring list \<Rightarrow> oauth_failure + unit" where
  "assertDeploymentScope granted =
     (if \<not> (\<exists>scope \<in> set B2_OAUTH_SCOPES. scope \<in> set granted)
      then Inl (OAuthError InsufficientScope (js ''Missing B2 deployment scope'')) else Inr ())"

definition assertRequiredScopes :: "jsstring list \<Rightarrow> jsstring list \<Rightarrow> oauth_failure + unit" where
  "assertRequiredScopes granted required =
     (if \<exists>scope \<in> set required. scope \<notin> set granted
      then Inl (OAuthError InsufficientScope (js ''Missing required OAuth scope'')) else Inr ())"

definition subjectClaim :: "jsprops \<Rightarrow> jsstring option" where
  "subjectClaim claims = first_claim (map (\<lambda>k. stringClaim (prop_get claims k)) SUBJECT_KEYS)"

datatype claims_source = Introspection | Jwt jsstring int

definition assertAllowedSubject ::
  "jsprops \<Rightarrow> jsstring \<Rightarrow> jsstring list \<Rightarrow> claims_source \<Rightarrow> oauth_failure + unit" where
  "assertAllowedSubject claims issuer allowed source =
     (if allowed = [] then Inr ()
      else case (case source of Jwt a k \<Rightarrow> stringClaim (prop_get claims (js ''sub''))
                 | Introspection \<Rightarrow> subjectClaim claims) of
             None \<Rightarrow> rejected (js ''Token subject is not accepted'')
           | Some subject \<Rightarrow>
               if \<exists>a \<in> set allowed. a = subject \<or> a = issuer @ js ''#'' @ subject then Inr ()
               else rejected (js ''Token subject is not accepted''))"

definition assertJwtDeploymentBinding :: "jsprops \<Rightarrow> oauth_config \<Rightarrow> oauth_failure + unit" where
  "assertJwtDeploymentBinding claims config =
     (if oc_audience config \<in> set (claim_values (prop_get claims (js ''aud''))) \<or>
         oc_resource config \<in> set (claim_values (prop_get claims (js ''resource'')))
      then Inr () else rejected (js ''Token audience/resource is not accepted''))"

section \<open>From claims to authentication info\<close>

record oauth_world =
  ow_url :: "jsstring \<Rightarrow> url_parts option"
  ow_tokenLabel :: "jsstring \<Rightarrow> jsstring"

definition optional_prop :: "jsstring \<Rightarrow> jsstring option \<Rightarrow> jsprops" where
  "optional_prop name v = (case nonempty v of Some s \<Rightarrow> [(name, Str s)] | None \<Rightarrow> [])"

definition accepted_claims ::
  "jsprops \<Rightarrow> oauth_config \<Rightarrow> int \<Rightarrow> claims_source \<Rightarrow>
     oauth_failure + rat \<times> jsstring option \<times> jsstring list" where
  "accepted_claims claims config now source =
     (let issuer = (case source of
            Jwt a k \<Rightarrow> stringClaim (prop_get claims (js ''iss''))
          | Introspection \<Rightarrow> stringClaim (coalesce (prop_get claims (js ''iss'')) (prop_get claims (js ''issuer'')))) in
      if issuer \<noteq> Some (oc_issuer config) then rejected (js ''Token issuer is not trusted'')
      else
        js_bind (case source of
            Jwt a k \<Rightarrow> assertJwtDeploymentBinding claims config
          | Introspection \<Rightarrow>
              js_bind (requireMatch (prop_get claims (js ''resource'')) (oc_resource config) (js ''resource''))
                (\<lambda>_. requireMatch (prop_get claims (js ''aud'')) (oc_audience config) (js ''audience''))) (\<lambda>_.
        js_bind (case source of
            Jwt a k \<Rightarrow> assertJwtTimeWindow claims now k
          | Introspection \<Rightarrow> assertTimeWindow (numberClaim (prop_get claims (js ''exp'')))
              (numberClaim (prop_get claims (js ''nbf''))) now) (\<lambda>expiresAt.
        js_bind (assertTokenType claims (oc_allowedTokenTypes config)) (\<lambda>_.
        js_bind (case source of
            Introspection \<Rightarrow> assertTokenAlgorithm claims (oc_allowedAlgorithms config)
          | Jwt a k \<Rightarrow> assertAllowedAlgorithm a (oc_allowedJwtAlgorithms config)) (\<lambda>algorithm.
        (let granted = scopesFromClaim (coalesce (prop_get claims (js ''scope'')) (prop_get claims (js ''scp''))) in
         js_bind (assertDeploymentScope granted) (\<lambda>_.
         js_bind (assertRequiredScopes granted (oc_requiredScopes config)) (\<lambda>_.
         js_bind (assertAllowedSubject claims (oc_issuer config) (oc_allowedSubjects config) source) (\<lambda>_.
           Inr (expiresAt, algorithm, granted))))))))))"

definition authInfoFromVerifiedClaims ::
  "'a oauth_world_scheme \<Rightarrow> jsstring \<Rightarrow> jsprops \<Rightarrow> oauth_config \<Rightarrow> int \<Rightarrow> claims_source \<Rightarrow> oauth_failure + auth_info" where
  "authInfoFromVerifiedClaims w token claims config now source =
     js_bind (accepted_claims claims config now source) (\<lambda>(expiresAt, algorithm, granted).
       (let subject = stringClaim (prop_get claims (js ''sub''));
            subjectAlias = (if source = Introspection \<and> subject = None
              then stringClaim (prop_get claims (js ''subject'')) else None);
            principalAlias = (if source = Introspection \<and> subject = None \<and> subjectAlias = None
              then stringClaim (prop_get claims (js ''principal'')) else None);
            clientId = first_claim [stringClaim (prop_get claims (js ''client_id'')),
              stringClaim (prop_get claims (js ''azp'')), subject, subjectAlias, principalAlias,
              Some (js ''unknown-client'')] in
        (case ow_url w (oc_resource config) of
           None \<Rightarrow> Inl (OAuthOtherError (js ''Invalid URL''))
         | Some u \<Rightarrow> Inr
            \<lparr> ai_token = js ''verified:'' @ ow_tokenLabel w token, ai_clientId = the clientId, ai_scopes = granted,
              ai_expiresAt = Some expiresAt, ai_resource = Some (url_href u),
              ai_extra = Some ([(js ''iss'', Str (oc_issuer config))] @ optional_prop (js ''sub'') subject @
                optional_prop (js ''subject'') subjectAlias @ optional_prop (js ''principal'') principalAlias @
                optional_prop (js ''alg'') algorithm @
                [(js ''aud'', Arr (map Str (claim_values (prop_get claims (js ''aud''))))),
                 (js ''resource'', Arr (map Str (claim_values (prop_get claims (js ''resource''))))),
                 (js ''token_hash'', Str (ow_tokenLabel w token))]) \<rparr>)))"

text \<open>
  An info from trusted middleware. Its expiry and its not-before are claims as in an introspection
  response; the resource is compared as the text of the URL.
\<close>

definition validatePreverifiedOAuthAuthInfo :: "auth_info \<Rightarrow> oauth_config \<Rightarrow> int \<Rightarrow> oauth_failure + auth_info" where
  "validatePreverifiedOAuthAuthInfo info config now =
     (let extra = auth_extra info;
          issuer = stringClaim (coalesce (prop_get extra (js ''iss'')) (prop_get extra (js ''issuer''))) in
      if issuer \<noteq> Some (oc_issuer config) then rejected (js ''Token issuer is not trusted'')
      else if ai_resource info \<noteq> Some (oc_resource config) then rejected (js ''Token resource is not accepted'')
      else
        js_bind (requireMatch (prop_get extra (js ''aud'')) (oc_audience config) (js ''audience'')) (\<lambda>_.
        js_bind (requireMatch (coalesce (prop_get extra (js ''resource''))
            (case ai_resource info of Some h \<Rightarrow> Str h | None \<Rightarrow> Undefined)) (oc_resource config) (js ''resource'')) (\<lambda>_.
        js_bind (assertTimeWindow (ai_expiresAt info) (numberClaim (prop_get extra (js ''nbf''))) now) (\<lambda>_.
        js_bind (assertTokenType extra (oc_allowedTokenTypes config)) (\<lambda>_.
        js_bind (assertTokenAlgorithm extra (oc_allowedAlgorithms config)) (\<lambda>_.
        js_bind (assertDeploymentScope (ai_scopes info)) (\<lambda>_.
        js_bind (assertRequiredScopes (ai_scopes info) (oc_requiredScopes config)) (\<lambda>_.
        js_bind (assertAllowedSubject extra (oc_issuer config) (oc_allowedSubjects config) Introspection) (\<lambda>_.
          Inr info)))))))))"

section \<open>When a token is accepted\<close>

text \<open>The subject that a source of claims vouches for.\<close>

definition source_subject :: "claims_source \<Rightarrow> jsprops \<Rightarrow> jsstring option" where
  "source_subject source claims =
     (case source of Jwt a k \<Rightarrow> stringClaim (prop_get claims (js ''sub'')) | Introspection \<Rightarrow> subjectClaim claims)"

definition subject_allowed :: "oauth_config \<Rightarrow> jsstring option \<Rightarrow> bool" where
  "subject_allowed config s \<longleftrightarrow>
     oc_allowedSubjects config = [] \<or>
     (\<exists>t. s = Some t \<and> (t \<in> set (oc_allowedSubjects config) \<or>
        oc_issuer config @ js ''#'' @ t \<in> set (oc_allowedSubjects config)))"

lemma requireMatch_Inr [simp]: "requireMatch v x n = Inr u \<longleftrightarrow> x \<in> set (claim_values v)"
  by (simp add: requireMatch_def)

lemma binding_Inr [simp]:
  "assertJwtDeploymentBinding claims config = Inr u \<longleftrightarrow>
     oc_audience config \<in> set (claim_values (prop_get claims (js ''aud''))) \<or>
     oc_resource config \<in> set (claim_values (prop_get claims (js ''resource'')))"
  by (simp add: assertJwtDeploymentBinding_def)

lemma timeWindow_Inr [simp]:
  "assertTimeWindow ex nbf now = Inr e \<longleftrightarrow>
     ex = Some e \<and> e \<noteq> 0 \<and> of_int now < e \<and> (\<forall>n. nbf = Some n \<longrightarrow> n \<le> of_int now)"
  by (cases ex; cases nbf) (auto simp: assertTimeWindow_def expired_at_def after_def not_le)

lemma jwt_date_Inr:
  "jwtNumericDateClaim claims name = Inr d \<longleftrightarrow>
     (prop_get claims name = Undefined \<and> d = None) \<or>
     (\<exists>n r. prop_get claims name = Num n \<and> finite_value n = Some r \<and> d = Some r)"
  by (auto simp: jwtNumericDateClaim_def Let_def split: jsval.splits option.splits)

lemma jwtTimeWindow_Inr:
  "assertJwtTimeWindow claims now k = Inr e \<longleftrightarrow>
     jwtNumericDateClaim claims (js ''exp'') = Inr (Some e) \<and> e \<noteq> 0 \<and> of_int (now - k) < e \<and>
     (\<exists>nbf. jwtNumericDateClaim claims (js ''nbf'') = Inr nbf \<and> \<not> after nbf (now + k)) \<and>
     (\<exists>iat. jwtNumericDateClaim claims (js ''iat'') = Inr iat \<and> \<not> after iat (now + k))"
  by (auto simp: assertJwtTimeWindow_def js_bind_Inr expired_at_def not_le split: option.splits if_splits)

lemma tokenType_Inr [simp]:
  "assertTokenType claims allowed = Inr u \<longleftrightarrow>
     (\<forall>t. stringClaim (prop_get claims (js ''token_type'')) = Some t \<longrightarrow> ascii_lower t \<in> set allowed)"
  by (auto simp: assertTokenType_def split: option.splits)

lemma allowedAlgorithm_Inr [simp]:
  "assertAllowedAlgorithm a allowed = Inr r \<longleftrightarrow>
     (if allowed = [] then r = None else a \<in> set allowed \<and> r = Some a)"
  by (auto simp: assertAllowedAlgorithm_def)

lemma tokenAlgorithm_Inr [simp]:
  "assertTokenAlgorithm claims allowed = Inr r \<longleftrightarrow>
     (if allowed = [] then r = None else \<exists>a \<in> set allowed. algorithm_claim claims = Some a \<and> r = Some a)"
  by (auto simp: assertTokenAlgorithm_def js_bind_Inr split: option.splits)

lemma deploymentScope_Inr [simp]:
  "assertDeploymentScope granted = Inr u \<longleftrightarrow>
     js ''b2:read'' \<in> set granted \<or> js ''b2:write'' \<in> set granted \<or> js ''b2:admin'' \<in> set granted"
  by (simp add: assertDeploymentScope_def B2_OAUTH_SCOPES_def)

lemma requiredScopes_Inr [simp]:
  "assertRequiredScopes granted required = Inr u \<longleftrightarrow> set required \<subseteq> set granted"
  by (auto simp: assertRequiredScopes_def)

lemma allowedSubject_Inr [simp]:
  "assertAllowedSubject claims (oc_issuer config) (oc_allowedSubjects config) source = Inr u \<longleftrightarrow>
     subject_allowed config (source_subject source claims)"
  by (auto simp: assertAllowedSubject_def subject_allowed_def source_subject_def
      split: option.splits claims_source.splits if_splits)

definition issuer_trusted :: "claims_source \<Rightarrow> jsprops \<Rightarrow> oauth_config \<Rightarrow> bool" where
  "issuer_trusted source claims config \<longleftrightarrow>
     Some (oc_issuer config) = stringClaim
       (case source of Jwt a k \<Rightarrow> prop_get claims (js ''iss'')
        | Introspection \<Rightarrow> coalesce (prop_get claims (js ''iss'')) (prop_get claims (js ''issuer'')))"

definition granted_scopes :: "jsprops \<Rightarrow> jsstring list" where
  "granted_scopes claims =
     scopesFromClaim (coalesce (prop_get claims (js ''scope'')) (prop_get claims (js ''scp'')))"

lemma accepted_claims_Inr:
  "accepted_claims claims config now source = Inr (e, algorithm, granted) \<longleftrightarrow>
     issuer_trusted source claims config \<and>
     (case source of
        Introspection \<Rightarrow>
          oc_resource config \<in> set (claim_values (prop_get claims (js ''resource''))) \<and>
          oc_audience config \<in> set (claim_values (prop_get claims (js ''aud''))) \<and>
          assertTimeWindow (numberClaim (prop_get claims (js ''exp''))) (numberClaim (prop_get claims (js ''nbf''))) now = Inr e \<and>
          assertTokenAlgorithm claims (oc_allowedAlgorithms config) = Inr algorithm
      | Jwt a k \<Rightarrow>
          (oc_audience config \<in> set (claim_values (prop_get claims (js ''aud''))) \<or>
           oc_resource config \<in> set (claim_values (prop_get claims (js ''resource'')))) \<and>
          assertJwtTimeWindow claims now k = Inr e \<and>
          assertAllowedAlgorithm a (oc_allowedJwtAlgorithms config) = Inr algorithm) \<and>
     assertTokenType claims (oc_allowedTokenTypes config) = Inr () \<and>
     granted = granted_scopes claims \<and> assertDeploymentScope granted = Inr () \<and>
     set (oc_requiredScopes config) \<subseteq> set granted \<and>
     subject_allowed config (source_subject source claims)"
  by (cases source)
    (auto simp: accepted_claims_def Let_def js_bind_Inr issuer_trusted_def granted_scopes_def
      simp del: timeWindow_Inr tokenType_Inr deploymentScope_Inr tokenAlgorithm_Inr allowedAlgorithm_Inr
      split: if_splits)

lemma authInfo_Inr:
  "authInfoFromVerifiedClaims w token claims config now source = Inr info \<Longrightarrow>
     \<exists>e algorithm u. accepted_claims claims config now source = Inr (e, algorithm, ai_scopes info) \<and>
       ow_url w (oc_resource config) = Some u \<and> ai_expiresAt info = Some e \<and> ai_resource info = Some (url_href u) \<and>
       ai_extra info = Some
         (let subject = stringClaim (prop_get claims (js ''sub''));
            subjectAlias = (if source = Introspection \<and> subject = None
              then stringClaim (prop_get claims (js ''subject'')) else None);
            principalAlias = (if source = Introspection \<and> subject = None \<and> subjectAlias = None
              then stringClaim (prop_get claims (js ''principal'')) else None) in
          [(js ''iss'', Str (oc_issuer config))] @ optional_prop (js ''sub'') subject @
                optional_prop (js ''subject'') subjectAlias @ optional_prop (js ''principal'') principalAlias @
                optional_prop (js ''alg'') algorithm @
                [(js ''aud'', Arr (map Str (claim_values (prop_get claims (js ''aud''))))),
                 (js ''resource'', Arr (map Str (claim_values (prop_get claims (js ''resource''))))),
                 (js ''token_hash'', Str (ow_tokenLabel w token))])"
  by (auto simp: authInfoFromVerifiedClaims_def js_bind_Inr Let_def split: option.splits)

lemma authInfo_returns:
  "(\<exists>info. authInfoFromVerifiedClaims w token claims config now source = Inr info) \<longleftrightarrow>
     ow_url w (oc_resource config) \<noteq> None \<and> (\<exists>r. accepted_claims claims config now source = Inr r)"
  by (cases "accepted_claims claims config now source"; cases "ow_url w (oc_resource config)")
    (auto simp: authInfoFromVerifiedClaims_def Let_def)

lemma acceptance_exact:
  "(\<exists>info. authInfoFromVerifiedClaims w token claims config now source = Inr info) \<longleftrightarrow>
     ow_url w (oc_resource config) \<noteq> None \<and> issuer_trusted source claims config \<and>
     (case source of
        Introspection \<Rightarrow>
          oc_resource config \<in> set (claim_values (prop_get claims (js ''resource''))) \<and>
          oc_audience config \<in> set (claim_values (prop_get claims (js ''aud''))) \<and>
          (\<exists>e. numberClaim (prop_get claims (js ''exp'')) = Some e \<and> e \<noteq> 0 \<and> of_int now < e) \<and>
          (\<forall>n. numberClaim (prop_get claims (js ''nbf'')) = Some n \<longrightarrow> n \<le> of_int now) \<and>
          (oc_allowedAlgorithms config = [] \<or>
           (\<exists>a \<in> set (oc_allowedAlgorithms config). algorithm_claim claims = Some a))
      | Jwt a k \<Rightarrow>
          (oc_audience config \<in> set (claim_values (prop_get claims (js ''aud''))) \<or>
           oc_resource config \<in> set (claim_values (prop_get claims (js ''resource'')))) \<and>
          (\<exists>e. jwtNumericDateClaim claims (js ''exp'') = Inr (Some e) \<and> e \<noteq> 0 \<and> of_int (now - k) < e) \<and>
          (\<exists>n. jwtNumericDateClaim claims (js ''nbf'') = Inr n \<and> \<not> after n (now + k)) \<and>
          (\<exists>i. jwtNumericDateClaim claims (js ''iat'') = Inr i \<and> \<not> after i (now + k)) \<and>
          (oc_allowedJwtAlgorithms config = [] \<or> a \<in> set (oc_allowedJwtAlgorithms config))) \<and>
     (\<forall>t. stringClaim (prop_get claims (js ''token_type'')) = Some t \<longrightarrow>
        ascii_lower t \<in> set (oc_allowedTokenTypes config)) \<and>
     set (granted_scopes claims) \<inter> {js ''b2:read'', js ''b2:write'', js ''b2:admin''} \<noteq> {} \<and>
     set (oc_requiredScopes config) \<subseteq> set (granted_scopes claims) \<and>
     subject_allowed config (source_subject source claims)"
proof -
  let ?common = "assertTokenType claims (oc_allowedTokenTypes config) = Inr () \<and>
     assertDeploymentScope (granted_scopes claims) = Inr () \<and>
     set (oc_requiredScopes config) \<subseteq> set (granted_scopes claims) \<and>
     subject_allowed config (source_subject source claims)"
  have all: "(\<exists>r. accepted_claims claims config now source = Inr r) \<longleftrightarrow>
      (\<exists>e algorithm granted. accepted_claims claims config now source = Inr (e, algorithm, granted))"
    by auto
  have scope: "assertDeploymentScope g = Inr () \<longleftrightarrow> set g \<inter> {js ''b2:read'', js ''b2:write'', js ''b2:admin''} \<noteq> {}" for g
    by auto
  have algorithm: "(\<exists>al. assertTokenAlgorithm claims as = Inr al) \<longleftrightarrow> as = [] \<or> (\<exists>a \<in> set as. algorithm_claim claims = Some a)"
    "(\<exists>al. assertAllowedAlgorithm a as = Inr al) \<longleftrightarrow> as = [] \<or> a \<in> set as" for as a
    by auto
  have time: "(\<exists>e. assertTimeWindow ex nbf now = Inr e) \<longleftrightarrow>
      (\<exists>e. ex = Some e \<and> e \<noteq> 0 \<and> of_int now < e) \<and> (\<forall>n. nbf = Some n \<longrightarrow> n \<le> of_int now)" for ex nbf
    by auto
  have jtime: "(\<exists>e. assertJwtTimeWindow claims now k = Inr e) \<longleftrightarrow>
      (\<exists>e. jwtNumericDateClaim claims (js ''exp'') = Inr (Some e) \<and> e \<noteq> 0 \<and> of_int (now - k) < e) \<and>
      (\<exists>n. jwtNumericDateClaim claims (js ''nbf'') = Inr n \<and> \<not> after n (now + k)) \<and>
      (\<exists>i. jwtNumericDateClaim claims (js ''iat'') = Inr i \<and> \<not> after i (now + k))" for k
    unfolding jwtTimeWindow_Inr by blast
  show ?thesis
  proof (cases source)
    case Introspection
    have "(\<exists>e algorithm granted. accepted_claims claims config now source = Inr (e, algorithm, granted)) \<longleftrightarrow>
      issuer_trusted source claims config \<and>
      oc_resource config \<in> set (claim_values (prop_get claims (js ''resource''))) \<and>
      oc_audience config \<in> set (claim_values (prop_get claims (js ''aud''))) \<and>
      (\<exists>e. assertTimeWindow (numberClaim (prop_get claims (js ''exp''))) (numberClaim (prop_get claims (js ''nbf''))) now = Inr e) \<and>
      (\<exists>al. assertTokenAlgorithm claims (oc_allowedAlgorithms config) = Inr al) \<and> ?common"
      unfolding accepted_claims_Inr Introspection claims_source.case by blast
    then show ?thesis
      unfolding authInfo_returns all algorithm time scope tokenType_Inr by (simp add: Introspection conj_ac)
  next
    case (Jwt a k)
    have "(\<exists>e algorithm granted. accepted_claims claims config now source = Inr (e, algorithm, granted)) \<longleftrightarrow>
      issuer_trusted source claims config \<and>
      (oc_audience config \<in> set (claim_values (prop_get claims (js ''aud''))) \<or>
       oc_resource config \<in> set (claim_values (prop_get claims (js ''resource'')))) \<and>
      (\<exists>e. assertJwtTimeWindow claims now k = Inr e) \<and>
      (\<exists>al. assertAllowedAlgorithm a (oc_allowedJwtAlgorithms config) = Inr al) \<and> ?common"
      unfolding accepted_claims_Inr Jwt claims_source.case by blast
    then show ?thesis
      unfolding authInfo_returns all algorithm scope tokenType_Inr jtime by (simp add: Jwt conj_ac)
  qed
qed

text \<open>
  (C5) Exactly when the claims of a token are accepted: the issuer is the configured one; the token is bound to
  this deployment (audience and resource by introspection, one of them in a JWT); the time lies in its
  window, with the clock skew for a JWT; type and algorithm are allowed; a deployment scope and every
  required scope are granted; and the subject is on the list, where there is one.
\<close>

theorem token_accepted_iff:
  "(\<exists>info. authInfoFromVerifiedClaims w token claims config now source = Inr info) \<longleftrightarrow>
     ow_url w (oc_resource config) \<noteq> None \<and> issuer_trusted source claims config \<and>
     (case source of
        Introspection \<Rightarrow>
          oc_resource config \<in> set (claim_values (prop_get claims (js ''resource''))) \<and>
          oc_audience config \<in> set (claim_values (prop_get claims (js ''aud''))) \<and>
          (\<exists>e. numberClaim (prop_get claims (js ''exp'')) = Some e \<and> e \<noteq> 0 \<and> of_int now < e) \<and>
          (\<forall>n. numberClaim (prop_get claims (js ''nbf'')) = Some n \<longrightarrow> n \<le> of_int now) \<and>
          (oc_allowedAlgorithms config = [] \<or>
           (\<exists>a \<in> set (oc_allowedAlgorithms config). algorithm_claim claims = Some a))
      | Jwt a k \<Rightarrow>
          (oc_audience config \<in> set (claim_values (prop_get claims (js ''aud''))) \<or>
           oc_resource config \<in> set (claim_values (prop_get claims (js ''resource'')))) \<and>
          (\<exists>e. jwtNumericDateClaim claims (js ''exp'') = Inr (Some e) \<and> e \<noteq> 0 \<and> of_int (now - k) < e) \<and>
          (\<exists>n. jwtNumericDateClaim claims (js ''nbf'') = Inr n \<and> \<not> after n (now + k)) \<and>
          (\<exists>i. jwtNumericDateClaim claims (js ''iat'') = Inr i \<and> \<not> after i (now + k)) \<and>
          (oc_allowedJwtAlgorithms config = [] \<or> a \<in> set (oc_allowedJwtAlgorithms config))) \<and>
     (\<forall>t. stringClaim (prop_get claims (js ''token_type'')) = Some t \<longrightarrow>
        ascii_lower t \<in> set (oc_allowedTokenTypes config)) \<and>
     set (granted_scopes claims) \<inter> {js ''b2:read'', js ''b2:write'', js ''b2:admin''} \<noteq> {} \<and>
     set (oc_requiredScopes config) \<subseteq> set (granted_scopes claims) \<and>
     subject_allowed config (source_subject source claims)"
  by (rule acceptance_exact)

section \<open>The principal of a verified token\<close>

lemma first_claim_simps [simp]:
  "first_claim [] = None" "first_claim (c # cs) = (case c of Some s \<Rightarrow> Some s | None \<Rightarrow> first_claim cs)"
  by (simp_all add: first_claim_def List.map_filter_simps split: option.split)

lemma subjectClaim_eq:
  "subjectClaim claims =
     (case stringClaim (prop_get claims (js ''sub'')) of Some s \<Rightarrow> Some s
      | None \<Rightarrow> (case stringClaim (prop_get claims (js ''subject'')) of Some s \<Rightarrow> Some s
          | None \<Rightarrow> stringClaim (prop_get claims (js ''principal''))))"
  by (simp add: subjectClaim_def SUBJECT_KEYS_def split: option.split)

lemma stringClaim_Some: "stringClaim v = Some s \<longleftrightarrow> v = Str s \<and> js_trim s \<noteq> []"
  by (cases v) auto

lemma trimmed_stringClaim: "trimmed_string v = map_option js_trim (stringClaim v)"
  by (cases v) (auto simp: nonempty_def)

lemma js_trim_Nil [simp]: "js_trim [] = []"
  by (simp add: js_trim_def)

lemma optional_prop_claim:
  "optional_prop name (stringClaim v) = (case stringClaim v of None \<Rightarrow> [] | Some s \<Rightarrow> [(name, Str s)])"
  by (cases v) (auto simp: optional_prop_def nonempty_def)

lemma prop_get_append [simp]:
  "prop_get (ps @ qs) k = (case map_of ps k of None \<Rightarrow> prop_get qs k | Some v \<Rightarrow> v)"
  by (simp add: prop_get_def map_add_def split: option.split)

text \<open>Reading a claim of the info that the claims produce.\<close>

lemma verified_extra:
  assumes "authInfoFromVerifiedClaims w token claims config now source = Inr info"
  shows "prop_get (auth_extra info) (js ''iss'') = Str (oc_issuer config)"
    "prop_get (auth_extra info) (js ''issuer'') = Undefined"
    "prop_get (auth_extra info) (js ''aud'') = Arr (map Str (claim_values (prop_get claims (js ''aud''))))"
    "prop_get (auth_extra info) (js ''resource'') = Arr (map Str (claim_values (prop_get claims (js ''resource''))))"
    "prop_get (auth_extra info) (js ''nbf'') = Undefined" "prop_get (auth_extra info) (js ''token_type'') = Undefined"
    "subjectClaim (auth_extra info) = source_subject source claims"
proof -
  obtain algorithm where x: "auth_extra info =
         (let subject = stringClaim (prop_get claims (js ''sub''));
            subjectAlias = (if source = Introspection \<and> subject = None
              then stringClaim (prop_get claims (js ''subject'')) else None);
            principalAlias = (if source = Introspection \<and> subject = None \<and> subjectAlias = None
              then stringClaim (prop_get claims (js ''principal'')) else None) in
          [(js ''iss'', Str (oc_issuer config))] @ optional_prop (js ''sub'') subject @
                optional_prop (js ''subject'') subjectAlias @ optional_prop (js ''principal'') principalAlias @
                optional_prop (js ''alg'') algorithm @
                [(js ''aud'', Arr (map Str (claim_values (prop_get claims (js ''aud''))))),
                 (js ''resource'', Arr (map Str (claim_values (prop_get claims (js ''resource''))))),
                 (js ''token_hash'', Str (ow_tokenLabel w token))])"
    using authInfo_Inr [OF assms] by (auto simp: auth_extra_def)
  have other: "map_of (optional_prop n v) k = (if k = n then map_option Str (nonempty v) else None)" for n v k
    by (simp add: optional_prop_def split: option.split)
  have claim: "nonempty (stringClaim v) = stringClaim v" for v
    by (cases v) (auto simp: nonempty_def)
  note s = x Let_def other claim
  show "prop_get (auth_extra info) (js ''iss'') = Str (oc_issuer config)"
    "prop_get (auth_extra info) (js ''issuer'') = Undefined"
    "prop_get (auth_extra info) (js ''aud'') = Arr (map Str (claim_values (prop_get claims (js ''aud''))))"
    "prop_get (auth_extra info) (js ''resource'') = Arr (map Str (claim_values (prop_get claims (js ''resource''))))"
    "prop_get (auth_extra info) (js ''nbf'') = Undefined" "prop_get (auth_extra info) (js ''token_type'') = Undefined"
    by (simp_all add: s)
  show "subjectClaim (auth_extra info) = source_subject source claims"
    by (cases "stringClaim (prop_get claims (js ''sub''))"; cases "stringClaim (prop_get claims (js ''subject''))";
        cases "stringClaim (prop_get claims (js ''principal''))"; cases source)
      (auto simp: subjectClaim_eq source_subject_def s stringClaim_Some nonempty_def)
qed

text \<open>
  (C6) From token to credential: the principal that selects the B2 credential of a verified token is the trusted
  issuer with the subject of the token, and that subject is the one that passed the list of allowed
  subjects; no other claim takes part.
\<close>

theorem verified_principal:
  assumes "authInfoFromVerifiedClaims w token claims config now source = Inr info"
    and "js_trim (oc_issuer config) \<noteq> []"
  shows "principalFromAuthInfo info =
      map_option (\<lambda>s. js_trim (oc_issuer config) @ js ''#'' @ js_trim s) (source_subject source claims) \<and>
    subject_allowed config (source_subject source claims)"
proof -
  note x = verified_extra [OF assms(1)]
  have issuer: "issuer_of info = Some (js_trim (oc_issuer config))"
    using assms(2) by (simp add: issuer_of_def issuer_claim_def x nonempty_def)
  have "subject_of info = map_option js_trim (subjectClaim (auth_extra info))"
    by (auto simp: subject_of_def SUBJECT_KEYS_def subjectClaim_eq List.map_filter_simps trimmed_stringClaim
        split: option.splits)
  moreover have "subject_allowed config (source_subject source claims)"
    using authInfo_Inr [OF assms(1)] by (auto simp: accepted_claims_Inr)
  ultimately show ?thesis
    by (simp add: principal_eq issuer x option.map_comp comp_def)
qed

section \<open>Re-validation\<close>

text \<open>
  An info that introspection produced is accepted again by the check for trusted middleware exactly as long
  as it has not expired, where the resource is written as its URL prints; a resource written in another way
  (an origin without its slash) is never accepted there.
\<close>

theorem preverified_iff_unexpired:
  assumes "authInfoFromVerifiedClaims w token claims config now Introspection = Inr info"
  shows "validatePreverifiedOAuthAuthInfo info config now' = Inr info \<longleftrightarrow>
    (\<exists>u e. ow_url w (oc_resource config) = Some u \<and> url_href u = oc_resource config \<and>
       ai_expiresAt info = Some e \<and> of_int now' < e)"
proof -
  note x = verified_extra [OF assms]
  obtain e algorithm u where i: "accepted_claims claims config now Introspection = Inr (e, algorithm, ai_scopes info)"
      "ow_url w (oc_resource config) = Some u" "ai_expiresAt info = Some e" "ai_resource info = Some (url_href u)"
    using authInfo_Inr [OF assms] by blast
  note a = i(1) [unfolded accepted_claims_Inr claims_source.case]
  have none: "stringClaim Undefined = None" "numberClaim Undefined = None" by simp_all
  have strings: "claim_strings (map Str ss) = ss" for ss
    by (induction ss) (simp_all add: claim_strings_def List.map_filter_simps)
  have issuer: "stringClaim (Str (oc_issuer config)) = Some (oc_issuer config)"
  proof -
    have "stringClaim (coalesce (prop_get claims (js ''iss'')) (prop_get claims (js ''issuer''))) = Some (oc_issuer config)"
      using a by (simp add: issuer_trusted_def)
    then show ?thesis unfolding stringClaim_Some by simp
  qed
  have algorithms: "\<exists>r. assertTokenAlgorithm (auth_extra info) (oc_allowedAlgorithms config) = Inr r"
  proof (cases "oc_allowedAlgorithms config")
    case (Cons al as)
    then have alg: "algorithm_claim claims = algorithm" "algorithm \<noteq> None" "the algorithm \<in> set (oc_allowedAlgorithms config)"
      using a by auto
    have "prop_get (auth_extra info) (js ''alg'') = Str (the algorithm)"
      using authInfo_Inr [OF assms] alg i(1)
      by (auto simp: auth_extra_def Let_def optional_prop_def algorithm_claim_def stringClaim_Some nonempty_def
          split: option.splits)
    moreover have "js_trim (the algorithm) \<noteq> []"
      using alg(1,2) by (auto simp: algorithm_claim_def stringClaim_Some)
    ultimately show ?thesis
      using alg(3) Cons by (auto simp: algorithm_claim_def coalesce_def)
  qed simp
  then obtain r where r: "assertTokenAlgorithm (auth_extra info) (oc_allowedAlgorithms config) = Inr r" ..
  have subject: "source_subject Introspection (auth_extra info) = source_subject Introspection claims"
    using x(7) by (simp add: source_subject_def)
  have "validatePreverifiedOAuthAuthInfo info config now' = Inr info \<longleftrightarrow>
      url_href u = oc_resource config \<and> (\<exists>e'. assertTimeWindow (ai_expiresAt info) None now' = Inr e')"
    using a i(4) r subject
    by (auto simp: validatePreverifiedOAuthAuthInfo_def Let_def x coalesce_def issuer js_bind_Inr strings none
        simp del: stringClaim.simps(1) tokenAlgorithm_Inr timeWindow_Inr)
  then show ?thesis
    using i(2,3) a by auto
qed

section \<open>A sample token\<close>

definition sample_oauth :: oauth_world where
  "sample_oauth = \<lparr> ow_url = sample_url, ow_tokenLabel = id \<rparr>"

definition sample_oauth_config :: oauth_config where
  "sample_oauth_config =
     \<lparr> oc_issuer = js ''https://as'', oc_resource = js ''https://mcp/'', oc_audience = js ''https://mcp/'',
       oc_publicUrl = js ''https://mcp/'', oc_authorizationEndpoint = [], oc_tokenEndpoint = [],
       oc_introspectionEndpoint = None, oc_jwksUri = None, oc_introspectionClientId = None,
       oc_introspectionClientSecret = None, oc_introspectionBearerToken = None, oc_serviceDocumentationUrl = None,
       oc_requiredScopes = [], oc_allowedSubjects = [js ''https://as#alice''], oc_allowedTokenTypes = [js ''bearer''],
       oc_allowedAlgorithms = [js ''RS256''], oc_allowedJwtAlgorithms = [js ''RS256''],
       oc_allowedJwtTypes = [js ''at+jwt''], oc_dangerouslyAllowInsecureIssuerUrl = False,
       oc_dangerouslyAllowUnauthenticatedIntrospection = False, oc_tokenCacheMaxEntries = 2,
       oc_tokenCacheTtlSeconds = 300, oc_tokenCacheSkewSeconds = 30, oc_introspectionTimeoutMs = 1,
       oc_introspectionMaxRetries = 1, oc_introspectionRetryDelayMs = 0, oc_introspectionCircuitFailures = 2,
       oc_introspectionCircuitOpenMs = 1000, oc_jwksCacheTtlSeconds = 300, oc_jwksCacheMinTtlSeconds = 30,
       oc_jwksTimeoutMs = 1, oc_jwksMaxRetries = 1, oc_jwksRetryDelayMs = 0, oc_jwksCircuitFailures = 2,
       oc_jwksCircuitOpenMs = 1000, oc_jwksRefreshCooldownMs = 1000, oc_jwtClockSkewSeconds = 60 \<rparr>"

definition sample_claims :: jsprops where
  "sample_claims =
     [(js ''iss'', Str (js ''https://as'')), (js ''sub'', Str (js ''alice'')), (js ''aud'', Str (js ''https://mcp/'')),
      (js ''resource'', Arr [Str (js ''https://mcp/'')]), (js ''exp'', Num (Fin False 5 1)), (js ''alg'', Str (js ''RS256'')),
      (js ''scope'', Arr [Str (js ''b2:read'')])]"

lemma sample_claim_texts:
  "js_trim (js ''https://as'') = js ''https://as''" "js_trim (js ''alice'') = js ''alice''"
  "js_trim (js ''RS256'') = js ''RS256''"
  by (simp_all add: js_trim_def js_space_def js_simps)

lemma sample_accepted:
  "\<exists>info. authInfoFromVerifiedClaims sample_oauth token sample_claims sample_oauth_config 49 Introspection = Inr info"
  unfolding acceptance_exact
  by (simp add: sample_oauth_def sample_url_def issuer_trusted_def coalesce_def sample_claims_def sample_oauth_config_def
      sample_claim_texts num_value_def granted_scopes_def claim_strings_def List.map_filter_simps algorithm_claim_def
      subject_allowed_def source_subject_def subjectClaim_eq js_append [symmetric])

theorem token_accepted_iff_witness:
  "(\<exists>info. authInfoFromVerifiedClaims sample_oauth [] sample_claims sample_oauth_config 49 Introspection = Inr info) \<and>
   \<not> (\<exists>info. authInfoFromVerifiedClaims sample_oauth [] sample_claims sample_oauth_config 50 Introspection = Inr info)"
proof
  show "\<exists>info. authInfoFromVerifiedClaims sample_oauth [] sample_claims sample_oauth_config 49 Introspection = Inr info"
    by (rule sample_accepted)
  show "\<not> (\<exists>info. authInfoFromVerifiedClaims sample_oauth [] sample_claims sample_oauth_config 50 Introspection = Inr info)"
    unfolding token_accepted_iff by (simp add: sample_claims_def num_value_def)
qed

theorem verified_principal_witness:
  "\<exists>info. authInfoFromVerifiedClaims sample_oauth [] sample_claims sample_oauth_config 49 Introspection = Inr info \<and>
     principalFromAuthInfo info = Some (js ''https://as#alice'')"
proof -
  obtain info where i: "authInfoFromVerifiedClaims sample_oauth [] sample_claims sample_oauth_config 49 Introspection = Inr info"
    using sample_accepted by blast
  have iss: "js_trim (oc_issuer sample_oauth_config) = js ''https://as''"
    by (simp add: sample_oauth_config_def sample_claim_texts)
  have "source_subject Introspection sample_claims = Some (js ''alice'')"
    by (simp add: source_subject_def subjectClaim_eq sample_claims_def sample_claim_texts)
  then show ?thesis
    using verified_principal [OF i] i by (simp add: iss sample_claim_texts js_append [symmetric])
qed

theorem preverified_iff_unexpired_witness:
  "\<exists>info. authInfoFromVerifiedClaims sample_oauth [] sample_claims sample_oauth_config 40 Introspection = Inr info \<and>
     validatePreverifiedOAuthAuthInfo info sample_oauth_config 49 = Inr info \<and>
     validatePreverifiedOAuthAuthInfo info sample_oauth_config 50 \<noteq> Inr info"
proof -
  have "\<exists>info. authInfoFromVerifiedClaims sample_oauth [] sample_claims sample_oauth_config 40 Introspection = Inr info"
    using sample_accepted [of "[]"] unfolding acceptance_exact by (auto simp: sample_claims_def num_value_def)
  then obtain info where i: "authInfoFromVerifiedClaims sample_oauth [] sample_claims sample_oauth_config 40 Introspection = Inr info"
    by blast
  have "ai_expiresAt info = Some 50"
    using authInfo_Inr [OF i] by (auto simp: accepted_claims_Inr sample_claims_def num_value_def)
  then show ?thesis
    using preverified_iff_unexpired [OF i, of 49] preverified_iff_unexpired [OF i, of 50] i
    by (simp add: sample_oauth_def sample_url_def)
qed

end
