(* ===== verification/Oauth_Jwt.thy ===== *)
theory Oauth_Jwt
  imports Oauth_Claims
begin

text \<open>
  Compact JWTs (\<open>src/oauth-resource-server.ts\<close>): base64url with its check for the canonical text, the three
  parts of a token, the header checks, and which keys of a JWKS document may verify a token. UTF-8
  decoding with \<open>JSON.parse\<close> and the signature check of jose are parameters.
\<close>

section \<open>base64url\<close>

type_synonym octets = "nat list"

definition b64_unit :: "nat \<Rightarrow> nat" where
  "b64_unit v =
     (if v < 26 then 65 + v else if v < 52 then 71 + v else if v < 62 then v - 4 else if v = 62 then 45 else 95)"

definition b64_value :: "nat \<Rightarrow> nat" where
  "b64_value c =
     (if is_upper c then c - 65 else if is_lower c then c - 71 else if is_digit c then c + 4
      else if c = 45 then 62 else 63)"

definition b64_char :: "nat \<Rightarrow> bool" where
  "b64_char c \<longleftrightarrow> is_alnum c \<or> c = 45 \<or> c = 95"

text \<open>Sextets to octets and back, as \<open>Buffer\<close> converts base64; padding takes no part.\<close>

fun octets_of :: "nat list \<Rightarrow> octets" where
  "octets_of (a # b # c # d # r) =
     (a * 4 + b div 16) # (b mod 16 * 16 + c div 4) # (c mod 4 * 64 + d) # octets_of r"
| "octets_of [a, b, c] = [a * 4 + b div 16, b mod 16 * 16 + c div 4]"
| "octets_of [a, b] = [a * 4 + b div 16]"
| "octets_of _ = []"

fun sextets_of :: "octets \<Rightarrow> nat list" where
  "sextets_of (x # y # z # r) =
     (x div 4) # (x mod 4 * 16 + y div 16) # (y mod 16 * 4 + z div 64) # (z mod 64) # sextets_of r"
| "sextets_of [x, y] = [x div 4, x mod 4 * 16 + y div 16, y mod 16 * 4]"
| "sextets_of [x] = [x div 4, x mod 4 * 16]"
| "sextets_of [] = []"

definition base64url_text :: "octets \<Rightarrow> jsstring" where
  "base64url_text bs = map b64_unit (sextets_of bs)"

definition malformed :: oauth_failure where
  "malformed = OAuthError InvalidToken (js ''Malformed JWT access token'')"

definition base64UrlToBytes :: "jsstring \<Rightarrow> oauth_failure + octets" where
  "base64UrlToBytes v =
     (if v = [] \<or> \<not> list_all b64_char v \<or> length v mod 4 = 1 then Inl malformed
      else (let decoded = octets_of (map b64_value v) in
            if base64url_text decoded \<noteq> v then Inl malformed else Inr decoded))"

section \<open>The parts of a token\<close>

record jwt_world = oauth_world +
  jw_json :: "octets \<Rightarrow> jsval option"
  jw_verifies :: "jsstring \<Rightarrow> jsstring \<Rightarrow> jsval \<Rightarrow> bool"

record parsed_jwt =
  pj_header :: jsprops
  pj_claims :: jsprops
  pj_signingInput :: jsstring
  pj_signature :: octets

definition decodeJwtJsonSegment :: "('a jwt_world_scheme) \<Rightarrow> jsstring \<Rightarrow> oauth_failure + jsprops" where
  "decodeJwtJsonSegment w segment =
     js_bind (base64UrlToBytes segment) (\<lambda>bs.
       (case jw_json w bs of Some (Obj ps) \<Rightarrow> Inr ps | _ \<Rightarrow> Inl malformed))"

definition parseJwt :: "('a jwt_world_scheme) \<Rightarrow> jsstring \<Rightarrow> oauth_failure + parsed_jwt" where
  "parseJwt w token =
     (case split_on 46 token of
        [h, c, s] \<Rightarrow>
          if h = [] \<or> c = [] \<or> s = [] then Inl malformed
          else js_bind (decodeJwtJsonSegment w h) (\<lambda>header.
               js_bind (decodeJwtJsonSegment w c) (\<lambda>claims.
               js_bind (base64UrlToBytes s) (\<lambda>sig.
                 Inr \<lparr> pj_header = header, pj_claims = claims, pj_signingInput = h @ [46] @ c,
                       pj_signature = sig \<rparr>)))
      | _ \<Rightarrow> Inl malformed)"

definition assertJwtHeader :: "jsprops \<Rightarrow> oauth_config \<Rightarrow> oauth_failure + jsstring" where
  "assertJwtHeader header config =
     (case stringClaim (prop_get header (js ''alg'')) of
        None \<Rightarrow> rejected (js ''Token algorithm is not accepted'')
      | Some algorithm \<Rightarrow>
          if prop_get header (js ''crit'') \<notin> {Undefined, Arr []}
          then rejected (js ''Unsupported JWT critical header'')
          else (case map_option ascii_lower (stringClaim (prop_get header (js ''typ''))) of
                  None \<Rightarrow> rejected (js ''Unsupported JWT type (missing); set B2_OAUTH_ALLOWED_JWT_TYPES to accept it'')
                | Some t \<Rightarrow>
                    if t \<in> set (oc_allowedJwtTypes config) then Inr algorithm
                    else rejected (js ''Unsupported JWT type '' @ [39] @ t @ [39] @
                      js ''; set B2_OAUTH_ALLOWED_JWT_TYPES to accept it'')))"

section \<open>Keys\<close>

definition type_error :: "oauth_failure + 'a" where
  "type_error = Inl (OAuthOtherError (js ''TypeError''))"

text \<open>\<open>key_ops.includes("verify")\<close>: of an array or of a string; other values have no such method.\<close>

fun includes_verify :: "jsval \<Rightarrow> oauth_failure + bool" where
  "includes_verify (Arr vs) = Inr (Str (js ''verify'') \<in> set vs)"
| "includes_verify (Str s) = Inr (js_includes s (js ''verify''))"
| "includes_verify _ = type_error"

definition key_matches :: "jsstring \<Rightarrow> jsprops \<Rightarrow> oauth_failure + bool" where
  "key_matches algorithm jwk =
     (let kty = prop_get jwk (js ''kty''); crv = prop_get jwk (js ''crv'') in
      if algorithm = js ''RS256'' then Inr (kty = Str (js ''RSA''))
      else if algorithm = js ''ES256'' then Inr (kty = Str (js ''EC'') \<and> crv = Str (js ''P-256''))
      else if algorithm = js ''EdDSA''
      then (if kty \<noteq> Str (js ''OKP'') \<or> nullish crv then Inr False
            else case crv of Str s \<Rightarrow> Inr (prefix (js ''Ed'') s) | _ \<Rightarrow> type_error)
      else Inl (OAuthError InvalidToken (js ''Token algorithm is not supported'')))"

definition jwkMatchesHeader :: "jsprops \<Rightarrow> jsstring \<Rightarrow> jsstring \<Rightarrow> oauth_failure + bool" where
  "jwkMatchesHeader jwk algorithm kid =
     (let use = prop_get jwk (js ''use''); ops = prop_get jwk (js ''key_ops''); alg = prop_get jwk (js ''alg'') in
      if kid \<noteq> [] \<and> prop_get jwk (js ''kid'') \<noteq> Str kid then Inr False
      else if truthy use \<and> use \<noteq> Str (js ''sig'') then Inr False
      else js_bind (if truthy ops then includes_verify ops else Inr True) (\<lambda>ok.
        if \<not> ok then Inr False
        else if truthy alg \<and> alg \<noteq> Str algorithm then Inr False
        else key_matches algorithm jwk))"

text \<open>The keys of a document are its entries that are objects.\<close>

type_synonym jwks_document = "jsprops list"

fun object_entry :: "jsval \<Rightarrow> jsprops option" where
  "object_entry (Obj ps) = Some ps"
| "object_entry _ = None"

definition invalid_jwks :: oauth_failure where
  "invalid_jwks = OAuthDependencyError (js ''invalid_jwks'') None None"

definition asJwksDocument :: "jsval \<Rightarrow> oauth_failure + jwks_document" where
  "asJwksDocument v =
     (case v of
        Obj ps \<Rightarrow> (case prop_get ps (js ''keys'') of
            Arr vs \<Rightarrow> Inr (List.map_filter object_entry vs) | _ \<Rightarrow> Inl invalid_jwks)
      | _ \<Rightarrow> Inl invalid_jwks)"

fun candidateKeys :: "jwks_document \<Rightarrow> jsstring \<Rightarrow> jsstring \<Rightarrow> oauth_failure + jwks_document" where
  "candidateKeys [] algorithm kid = Inr []"
| "candidateKeys (k # ks) algorithm kid =
     js_bind (jwkMatchesHeader k algorithm kid) (\<lambda>yes.
     js_bind (candidateKeys ks algorithm kid) (\<lambda>rest. Inr (if yes then k # rest else rest)))"

section \<open>base64url text is canonical\<close>

definition octets :: "nat list \<Rightarrow> bool" where
  "octets bs \<longleftrightarrow> (\<forall>b \<in> set bs. b < 256)"

lemma b64_value_unit: "v < 64 \<Longrightarrow> b64_value (b64_unit v) = v"
  by (auto simp: b64_value_def b64_unit_def char_class_defs)

lemma b64_char_unit: "v < 64 \<Longrightarrow> b64_char (b64_unit v)"
  by (auto simp: b64_char_def b64_unit_def char_class_defs)

lemma b64_value_bound: "b64_char c \<Longrightarrow> b64_value c < 64"
  by (auto simp: b64_char_def b64_value_def char_class_defs)

lemma octets_of_bound: "\<forall>v \<in> set vs. v < 64 \<Longrightarrow> octets (octets_of vs)"
  by (induction vs rule: octets_of.induct) (auto simp: octets_def)

lemma sextets_of_bound: "octets bs \<Longrightarrow> \<forall>v \<in> set (sextets_of bs). v < 64"
  by (induction bs rule: sextets_of.induct) (auto simp: octets_def)

lemma octet_parts:
  fixes y :: nat
  assumes "y < 256"
  shows "y div 16 div 16 = 0" "y div 16 mod 16 = y div 16" "y div 64 div 4 = 0" "y div 64 mod 4 = y div 64"
  using assms by (simp_all add: div_mult2_eq [symmetric] mod_less less_mult_imp_div_less)

lemma octets_of_sextets: "octets bs \<Longrightarrow> octets_of (sextets_of bs) = bs"
  by (induction bs rule: sextets_of.induct) (simp_all add: octets_def octet_parts)

lemma length_sextets: "length (sextets_of bs) mod 4 \<noteq> 1"
  by (induction bs rule: sextets_of.induct) simp_all

lemma sextets_of_Nil [simp]: "sextets_of bs = [] \<longleftrightarrow> bs = []"
  by (cases bs rule: sextets_of.cases) simp_all

lemma base64url_decodes:
  assumes "octets bs"
  shows "octets_of (map b64_value (base64url_text bs)) = bs" "list_all b64_char (base64url_text bs)"
proof -
  have "map (\<lambda>v. b64_value (b64_unit v)) (sextets_of bs) = sextets_of bs"
    using sextets_of_bound [OF assms] by (intro map_idI) (simp add: b64_value_unit)
  then show "octets_of (map b64_value (base64url_text bs)) = bs"
    using octets_of_sextets [OF assms] by (simp add: base64url_text_def comp_def)
  show "list_all b64_char (base64url_text bs)"
    using sextets_of_bound [OF assms] by (auto simp: base64url_text_def list_all_iff b64_char_unit)
qed

text \<open>
  (C22) A segment decodes to octets exactly if it is the base64url text of these octets: no two texts decode to
  the same octets, so the text of a token cannot be varied under its signature.
\<close>

theorem base64url_canonical:
  "base64UrlToBytes v = Inr bs \<longleftrightarrow> bs \<noteq> [] \<and> octets bs \<and> v = base64url_text bs"
proof
  assume r: "base64UrlToBytes v = Inr bs"
  then have v: "v \<noteq> []" "list_all b64_char v" "bs = octets_of (map b64_value v)" "base64url_text bs = v"
    by (auto simp: base64UrlToBytes_def Let_def split: if_splits)
  then have "octets bs"
    by (auto simp: list_all_iff b64_value_bound intro!: octets_of_bound)
  moreover have "bs \<noteq> []" using v(1,4) by (auto simp: base64url_text_def)
  ultimately show "bs \<noteq> [] \<and> octets bs \<and> v = base64url_text bs" using v(4) by simp
next
  assume a: "bs \<noteq> [] \<and> octets bs \<and> v = base64url_text bs"
  then have "length v mod 4 \<noteq> 1" "v \<noteq> []"
    using length_sextets [of bs] by (simp_all add: base64url_text_def)
  with a base64url_decodes [of bs] show "base64UrlToBytes v = Inr bs"
    by (simp add: base64UrlToBytes_def)
qed

section \<open>Headers and keys\<close>

lemma assertJwtHeader_Inr:
  "assertJwtHeader header config = Inr algorithm \<longleftrightarrow>
     stringClaim (prop_get header (js ''alg'')) = Some algorithm \<and>
     prop_get header (js ''crit'') \<in> {Undefined, Arr []} \<and>
     (\<exists>t. stringClaim (prop_get header (js ''typ'')) = Some t \<and> ascii_lower t \<in> set (oc_allowedJwtTypes config))"
  by (auto simp: assertJwtHeader_def split: option.splits if_splits)

lemma candidateKeys_Inr:
  "candidateKeys ks algorithm kid = Inr cs \<Longrightarrow>
     set cs \<subseteq> set ks \<and> (\<forall>k \<in> set cs. jwkMatchesHeader k algorithm kid = Inr True)"
  by (induction ks arbitrary: cs) (auto simp: js_bind_Inr split: if_splits)

text \<open>A key that may verify is named by the token's \<open>kid\<close> and of the family of its algorithm.\<close>

lemma jwkMatches_True:
  assumes "jwkMatchesHeader jwk algorithm kid = Inr True" "kid \<noteq> []"
  shows "prop_get jwk (js ''kid'') = Str kid"
    "algorithm = js ''RS256'' \<and> prop_get jwk (js ''kty'') = Str (js ''RSA'') \<or>
     algorithm = js ''ES256'' \<and> prop_get jwk (js ''kty'') = Str (js ''EC'') \<or>
     algorithm = js ''EdDSA'' \<and> prop_get jwk (js ''kty'') = Str (js ''OKP'')"
  using assms by (auto simp: jwkMatchesHeader_def key_matches_def Let_def js_bind_Inr split: if_splits)

end
