(* ===== verification/Oauth_Verifier.thy ===== *)
theory Oauth_Verifier
  imports Oauth_Jwt
begin

text \<open>
  Verifying bearer tokens (\<open>src/oauth-resource-server.ts\<close>): calls of the authorization server with retries
  and a circuit per endpoint, the cache of verified tokens, the cache of JWKS documents with the cooldowns
  for unknown keys, and the two verifiers with the choice between them. The network and the clock are a
  world of any type that every call may change; the caches are the module's maps.
\<close>

section \<open>Answers of the authorization server\<close>

text \<open>
  A fetch throws, with the flag that the caller has gone away and the name and message of the exception, or
  it responds; reading the body as JSON may throw in the same way.
\<close>

record http_response =
  hr_opaqueredirect :: bool
  hr_status :: int
  hr_retryAfter :: "jsstring option"
  hr_cacheControl :: "jsstring option"
  hr_json :: "(bool \<times> jsstring) + jsval"

datatype fetch_result = FetchThrew bool jsstring | Responded http_response

definition hr_ok :: "http_response \<Rightarrow> bool" where
  "hr_ok r \<longleftrightarrow> 200 \<le> hr_status r \<and> hr_status r \<le> 299"

definition is_redirect :: "http_response \<Rightarrow> bool" where
  "is_redirect r \<longleftrightarrow> hr_opaqueredirect r \<or> 300 \<le> hr_status r \<and> hr_status r < 400"

abbreviation unavailable :: "jsstring \<Rightarrow> oauth_failure + 'a" where
  "unavailable reason \<equiv> Inl (OAuthDependencyError reason None None)"

definition thrown_reason :: "jsstring \<Rightarrow> jsstring" where
  "thrown_reason t =
     (if js_includes (ascii_lower t) (js ''abort'') \<or> js_includes (ascii_lower t) (js ''timeout'')
      then js ''timeout'' else js ''network_error'')"

definition introspection_threw :: "bool \<Rightarrow> jsstring \<Rightarrow> oauth_failure + 'a" where
  "introspection_threw aborted t = unavailable (if aborted then js ''request_aborted'' else thrown_reason t)"

text \<open>\<open>Number(headers.get(...))\<close>: an absent header is null, which is 0.\<close>

definition header_number :: "jsstring option \<Rightarrow> real_or_nan" where
  "header_number h = (case h of None \<Rightarrow> Finite 0 | Some s \<Rightarrow> js_number s)"

definition introspection_outcome :: "fetch_result \<Rightarrow> oauth_failure + jsprops" where
  "introspection_outcome f =
     (case f of
        FetchThrew aborted t \<Rightarrow> introspection_threw aborted t
      | Responded r \<Rightarrow>
          if is_redirect r
          then Inl (OAuthDependencyError (js ''introspection_redirect'')
                 (if hr_status r = 0 then None else Some (hr_status r)) None)
          else if hr_status r = 429 \<or> 500 \<le> hr_status r
          then Inl (OAuthDependencyError (js ''http_status'') (Some (hr_status r))
                 (case header_number (hr_retryAfter r) of Finite q \<Rightarrow> Some (Finite q) | _ \<Rightarrow> None))
          else if \<not> hr_ok r then rejected (js ''Token introspection failed'')
          else (case hr_json r of
                  Inl (aborted, t) \<Rightarrow> introspection_threw aborted t
                | Inr (Obj ps) \<Rightarrow> Inr ps
                | Inr _ \<Rightarrow> rejected (js ''Invalid introspection response'')))"

text \<open>
  The time a JWKS document may be kept: the parts of \<open>Cache-Control\<close> between commas, compared without case.
\<close>

definition cache_parts :: "jsstring option \<Rightarrow> jsstring list" where
  "cache_parts h = map (\<lambda>p. ascii_lower (js_trim p)) (split_on 44 (case h of Some s \<Rightarrow> s | None \<Rightarrow> []))"

definition max_age_of :: "jsstring \<Rightarrow> jsstring option" where
  "max_age_of p =
     (let ds = drop 8 p in
      if prefix (js ''max-age='') p \<and> ds \<noteq> [] \<and> list_all is_digit ds then Some ds else None)"

definition jwksTtlSeconds :: "http_response \<Rightarrow> int \<Rightarrow> int \<Rightarrow> int" where
  "jwksTtlSeconds r fallbackSeconds minimumSeconds =
     (let least = min fallbackSeconds minimumSeconds; parts = cache_parts (hr_cacheControl r) in
      if js ''no-store'' \<in> set parts then least
      else (case List.map_filter max_age_of parts of
              [] \<Rightarrow> fallbackSeconds
            | maxAge # rest \<Rightarrow> max least (min fallbackSeconds (int (undecimal maxAge)))))"

definition jwks_outcome :: "oauth_config \<Rightarrow> fetch_result \<Rightarrow> oauth_failure + jwks_document \<times> int" where
  "jwks_outcome config f =
     (case f of
        FetchThrew aborted t \<Rightarrow> unavailable (thrown_reason t)
      | Responded r \<Rightarrow>
          if is_redirect r
          then Inl (OAuthDependencyError (js ''jwks_redirect'')
                 (if hr_status r = 0 then None else Some (hr_status r)) None)
          else if \<not> hr_ok r
          then Inl (OAuthDependencyError (js ''http_status'') (Some (hr_status r))
                 (case header_number (hr_retryAfter r) of
                    NotANumber \<Rightarrow> None | Infinite b \<Rightarrow> Some (Infinite b)
                  | Finite q \<Rightarrow> if q = 0 then None else Some (Finite q)))
          else (case hr_json r of
                  Inl (aborted, t) \<Rightarrow> unavailable (thrown_reason t)
                | Inr v \<Rightarrow> js_bind (asJwksDocument v) (\<lambda>doc.
                    Inr (doc, jwksTtlSeconds r (oc_jwksCacheTtlSeconds config) (oc_jwksCacheMinTtlSeconds config)))))"

section \<open>Retries and the circuit of a dependency\<close>

record dependency_circuit =
  dc_failures :: int
  dc_openedUntilMs :: int

type_synonym circuits = "(jsstring, dependency_circuit) jsmap"

record dependency_policy =
  dp_maxRetries :: int
  dp_retryDelayMs :: int
  dp_circuitFailures :: int
  dp_circuitOpenMs :: int
  dp_circuitKey :: jsstring

text \<open>\<open>Math.max(1, Math.ceil(ms / 1000))\<close>\<close>

definition whole_seconds :: "int \<Rightarrow> int" where
  "whole_seconds ms = max 1 ((ms + 999) div 1000)"

definition retryAfterSeconds :: "dependency_policy \<Rightarrow> int \<Rightarrow> circuits \<Rightarrow> int option" where
  "retryAfterSeconds policy nowMs cs =
     (case map_get cs (dp_circuitKey policy) of
        None \<Rightarrow> None
      | Some s \<Rightarrow> if dc_openedUntilMs s \<le> nowMs then None else Some (whole_seconds (dc_openedUntilMs s - nowMs)))"

definition open_circuit :: "int option \<Rightarrow> int \<Rightarrow> oauth_failure" where
  "open_circuit st seconds = OAuthDependencyError (js ''open_circuit'') st (Some (Finite (of_int seconds)))"

definition assertOAuthDependencyCircuitClosed :: "dependency_policy \<Rightarrow> int \<Rightarrow> circuits \<Rightarrow> oauth_failure + unit" where
  "assertOAuthDependencyCircuitClosed policy nowMs cs =
     (case retryAfterSeconds policy nowMs cs of
        None \<Rightarrow> Inr () | Some seconds \<Rightarrow> Inl (open_circuit None seconds))"

definition noteOAuthDependencySuccess :: "dependency_policy \<Rightarrow> circuits \<Rightarrow> circuits" where
  "noteOAuthDependencySuccess policy cs = map_delete (dp_circuitKey policy) cs"

fun dependency_status :: "oauth_failure \<Rightarrow> int option" where
  "dependency_status (OAuthDependencyError r st ra) = st"
| "dependency_status _ = None"

definition noteOAuthDependencyFailure ::
  "dependency_policy \<Rightarrow> int \<Rightarrow> oauth_failure \<Rightarrow> circuits \<Rightarrow> oauth_failure \<times> circuits" where
  "noteOAuthDependencyFailure policy nowMs e cs =
     (let s = (case map_get cs (dp_circuitKey policy) of Some s \<Rightarrow> s
            | None \<Rightarrow> \<lparr> dc_failures = 0, dc_openedUntilMs = 0 \<rparr>);
          failures = dc_failures s + 1;
          openedUntilMs = (if dp_circuitFailures policy \<le> failures then nowMs + dp_circuitOpenMs policy
                           else dc_openedUntilMs s);
          cs' = map_set (dp_circuitKey policy) \<lparr> dc_failures = failures, dc_openedUntilMs = openedUntilMs \<rparr> cs
      in if nowMs < openedUntilMs
         then (open_circuit (dependency_status e) (whole_seconds (openedUntilMs - nowMs)), cs')
         else (e, cs'))"

definition isRetryableOAuthDependencyError :: "jsstring \<Rightarrow> bool" where
  "isRetryableOAuthDependencyError reason \<longleftrightarrow>
     reason = js ''timeout'' \<or> reason = js ''network_error'' \<or> reason = js ''http_status''"

text \<open>
  The loop over attempts, on a world \<open>x\<close>. It succeeds, gives up with a failure that counts for the circuit, or
  throws an exception that does not. A pause between attempts ends early when the caller goes away.
\<close>

datatype 'a attempts_end = Succeeded 'a | GaveUp oauth_failure | Thrown oauth_failure

definition request_aborted :: oauth_failure where
  "request_aborted = OAuthDependencyError (js ''request_aborted'') None None"

definition oauthDependencyRetryDelay :: "int \<Rightarrow> ('x \<Rightarrow> bool \<times> 'x) \<Rightarrow> 'x \<Rightarrow> (oauth_failure + unit) \<times> 'x" where
  "oauthDependencyRetryDelay delayMs pause x =
     (if delayMs \<le> 0 then (Inr (), x)
      else (case pause x of (elapsed, x') \<Rightarrow> (if elapsed then Inr () else Inl request_aborted, x')))"

fun dependency_attempts ::
  "('x \<Rightarrow> (oauth_failure + 'a) \<times> 'x) \<Rightarrow> ('x \<Rightarrow> (oauth_failure + unit) \<times> 'x) \<Rightarrow> oauth_failure \<Rightarrow> nat \<Rightarrow> 'x \<Rightarrow>
     'a attempts_end \<times> 'x" where
  "dependency_attempts attempt delay unexpected 0 x =
     (GaveUp (OAuthDependencyError (js ''network_error'') None None), x)"
| "dependency_attempts attempt delay unexpected (Suc n) x =
     (case attempt x of
        (Inr r, x') \<Rightarrow> (Succeeded r, x')
      | (Inl (OAuthError c m), x') \<Rightarrow> (Thrown (OAuthError c m), x')
      | (Inl (OAuthDependencyError reason st ra), x') \<Rightarrow>
          if reason = js ''request_aborted'' then (Thrown (OAuthDependencyError reason st ra), x')
          else if n = 0 \<or> \<not> isRetryableOAuthDependencyError reason
          then (GaveUp (OAuthDependencyError reason st ra), x')
          else (case delay x' of
                  (Inl e, x'') \<Rightarrow> (Thrown e, x'')
                | (Inr _, x'') \<Rightarrow> dependency_attempts attempt delay unexpected n x'')
      | (Inl e, x') \<Rightarrow> (Thrown unexpected, x'))"

definition runOAuthDependencyWithRetry ::
  "dependency_policy \<Rightarrow> ('x \<Rightarrow> int) \<Rightarrow> ('x \<Rightarrow> (oauth_failure + 'a) \<times> 'x) \<Rightarrow> ('x \<Rightarrow> bool \<times> 'x) \<Rightarrow> oauth_failure \<Rightarrow>
     circuits \<Rightarrow> 'x \<Rightarrow> (oauth_failure + 'a) \<times> circuits \<times> 'x" where
  "runOAuthDependencyWithRetry policy nowMs attempt pause unexpected cs x =
     (case assertOAuthDependencyCircuitClosed policy (nowMs x) cs of
        Inl e \<Rightarrow> (Inl e, cs, x)
      | Inr _ \<Rightarrow>
          (case dependency_attempts attempt (oauthDependencyRetryDelay (dp_retryDelayMs policy) pause) unexpected
                  (nat (dp_maxRetries policy + 1)) x of
             (Succeeded r, x') \<Rightarrow> (Inr r, noteOAuthDependencySuccess policy cs, x')
           | (Thrown e, x') \<Rightarrow> (Inl e, cs, x')
           | (GaveUp e, x') \<Rightarrow>
               (case noteOAuthDependencyFailure policy (nowMs x') e cs of (e', cs') \<Rightarrow> (Inl e', cs', x'))))"

section \<open>The cache of verified tokens\<close>

record token_entry =
  te_authInfo :: auth_info
  te_expiresAtMs :: rat
  te_lastAccessMs :: int

type_synonym token_cache = "(jsstring, token_entry) jsmap"

definition num_of_int :: "int \<Rightarrow> jsval" where
  "num_of_int i = Num (case num_of_nat (nat \<bar>i\<bar>) of Fin b s e \<Rightarrow> Fin (i < 0) s e | n \<Rightarrow> n)"

definition text_or_empty :: "jsstring option \<Rightarrow> jsval" where
  "text_or_empty v = Str (case v of Some s \<Rightarrow> s | None \<Rightarrow> [])"

definition texts :: "jsstring list \<Rightarrow> jsval" where
  "texts vs = Arr (map Str vs)"

definition configCacheKey :: "oauth_config \<Rightarrow> jsstring" where
  "configCacheKey config = plain_print (Obj
     [(js ''issuer'', Str (oc_issuer config)), (js ''resource'', Str (oc_resource config)),
      (js ''audience'', Str (oc_audience config)),
      (js ''introspectionEndpoint'', text_or_empty (oc_introspectionEndpoint config)),
      (js ''jwksUri'', text_or_empty (oc_jwksUri config)),
      (js ''introspectionClientId'', text_or_empty (oc_introspectionClientId config)),
      (js ''introspectionAuth'', Str (if nonempty (oc_introspectionBearerToken config) \<noteq> None
         then js ''bearer'' else js ''client'')),
      (js ''allowedTokenTypes'', texts (oc_allowedTokenTypes config)),
      (js ''allowedAlgorithms'', texts (oc_allowedAlgorithms config)),
      (js ''allowedJwtAlgorithms'', texts (oc_allowedJwtAlgorithms config)),
      (js ''allowedJwtTypes'', texts (oc_allowedJwtTypes config)),
      (js ''allowedSubjects'', texts (oc_allowedSubjects config)),
      (js ''requiredScopes'', texts (oc_requiredScopes config)),
      (js ''jwtClockSkewSeconds'', num_of_int (oc_jwtClockSkewSeconds config)),
      (js ''tokenCacheMaxEntries'', num_of_int (oc_tokenCacheMaxEntries config)),
      (js ''tokenCacheTtlSeconds'', num_of_int (oc_tokenCacheTtlSeconds config)),
      (js ''tokenCacheSkewSeconds'', num_of_int (oc_tokenCacheSkewSeconds config))])"

datatype cache_source = FromIntrospection | FromJwt

fun source_name :: "cache_source \<Rightarrow> jsstring" where
  "source_name FromIntrospection = js ''introspection''"
| "source_name FromJwt = js ''jwt''"

definition token_key :: "('a oauth_world_scheme) \<Rightarrow> oauth_config \<Rightarrow> jsstring \<Rightarrow> cache_source \<Rightarrow> jsstring" where
  "token_key ow config token source =
     configCacheKey config @ [0] @ js ''source:'' @ source_name source @ [0] @ js ''token:'' @ ow_tokenLabel ow token"

definition cachedAuthInfo :: "jsstring \<Rightarrow> int \<Rightarrow> token_cache \<Rightarrow> auth_info option \<times> token_cache" where
  "cachedAuthInfo key nowMs m =
     (case map_get m key of
        None \<Rightarrow> (None, m)
      | Some entry \<Rightarrow>
          if te_expiresAtMs entry \<le> of_int nowMs then (None, map_delete key m)
          else (Some (te_authInfo entry), map_set key (entry\<lparr> te_lastAccessMs := nowMs \<rparr>) (map_delete key m)))"

definition without_oldest :: "token_cache \<Rightarrow> token_cache" where
  "without_oldest m = (case m of [] \<Rightarrow> [] | (oldest, v) # r \<Rightarrow> if oldest = [] then m else map_delete oldest m)"

definition rememberAuthInfo :: "jsstring \<Rightarrow> auth_info \<Rightarrow> oauth_config \<Rightarrow> int \<Rightarrow> token_cache \<Rightarrow> token_cache" where
  "rememberAuthInfo key info config nowMs m =
     (if oc_tokenCacheMaxEntries config \<le> 0 then m
      else case ai_expiresAt info of
        None \<Rightarrow> m
      | Some e \<Rightarrow>
          (let tokenExpiresAtMs = e * 1000 - of_int (oc_tokenCacheSkewSeconds config * 1000);
               ttlExpiresAtMs = of_int (nowMs + oc_tokenCacheTtlSeconds config * 1000);
               expiresAtMs = min tokenExpiresAtMs ttlExpiresAtMs in
           if expiresAtMs \<le> of_int nowMs then m
           else (let m1 = map_delete key m;
                     m2 = (if oc_tokenCacheMaxEntries config \<le> int (length m1) then without_oldest m1 else m1)
                 in map_set key \<lparr> te_authInfo = info, te_expiresAtMs = expiresAtMs, te_lastAccessMs = nowMs \<rparr> m2)))"

section \<open>The verifiers\<close>

record jwks_entry =
  je_jwks :: jwks_document
  je_expiresAtMs :: int
  je_lastAccessMs :: int

record oauth_state =
  os_tokens :: token_cache
  os_introspectionCircuits :: circuits
  os_jwks :: "(jsstring, jwks_entry) jsmap"
  os_jwksCircuits :: circuits
  os_unknownKids :: "(jsstring, int) jsmap"
  os_lastForced :: "(jsstring, int) jsmap"

datatype introspection_auth = BasicAuth jsstring jsstring | BearerAuth jsstring | NoAuth

record 'x oauth_io =
  io_nowSeconds :: "'x \<Rightarrow> int"
  io_introspect :: "jsstring \<Rightarrow> introspection_auth \<Rightarrow> jsstring \<Rightarrow> 'x \<Rightarrow> fetch_result \<times> 'x"
  io_jwks :: "jsstring \<Rightarrow> 'x \<Rightarrow> fetch_result \<times> 'x"
  io_pause :: "int \<Rightarrow> 'x \<Rightarrow> bool \<times> 'x"

definition introspection_authorization :: "oauth_config \<Rightarrow> introspection_auth" where
  "introspection_authorization config =
     (case (nonempty (oc_introspectionClientId config), nonempty (oc_introspectionClientSecret config)) of
        (Some i, Some s) \<Rightarrow> BasicAuth i s
      | _ \<Rightarrow> (case nonempty (oc_introspectionBearerToken config) of Some t \<Rightarrow> BearerAuth t | None \<Rightarrow> NoAuth))"

definition introspectionAttempt ::
  "'x oauth_io \<Rightarrow> oauth_config \<Rightarrow> jsstring \<Rightarrow> 'x \<Rightarrow> (oauth_failure + jsprops) \<times> 'x" where
  "introspectionAttempt io config token x =
     (case io_introspect io (case oc_introspectionEndpoint config of Some u \<Rightarrow> u | None \<Rightarrow> [])
             (introspection_authorization config) token x of
        (f, x') \<Rightarrow> (introspection_outcome f, x'))"

definition introspection_policy :: "oauth_config \<Rightarrow> dependency_policy" where
  "introspection_policy config =
     \<lparr> dp_maxRetries = oc_introspectionMaxRetries config, dp_retryDelayMs = oc_introspectionRetryDelayMs config,
       dp_circuitFailures = oc_introspectionCircuitFailures config,
       dp_circuitOpenMs = oc_introspectionCircuitOpenMs config, dp_circuitKey = configCacheKey config \<rparr>"

definition introspection_failed :: oauth_failure where
  "introspection_failed = OAuthError InvalidToken (js ''Token introspection failed'')"

text \<open>\<open>catch\<close> of a verifier: the two kinds of OAuth failures pass, any other becomes a rejected token.\<close>

fun as_oauth_failure :: "jsstring \<Rightarrow> oauth_failure \<Rightarrow> oauth_failure" where
  "as_oauth_failure m (OAuthError c t) = OAuthError c t"
| "as_oauth_failure m (OAuthDependencyError r st ra) = OAuthDependencyError r st ra"
| "as_oauth_failure m e = OAuthError InvalidToken m"

definition introspection_verify ::
  "'x oauth_io \<Rightarrow> ('b oauth_world_scheme) \<Rightarrow> oauth_config \<Rightarrow> jsstring \<Rightarrow> oauth_state \<Rightarrow> 'x \<Rightarrow>
     (oauth_failure + auth_info) \<times> oauth_state \<times> 'x" where
  "introspection_verify io ow config token st x =
     (let key = token_key ow config token FromIntrospection; now = io_nowSeconds io x in
      case cachedAuthInfo key (now * 1000) (os_tokens st) of
        (Some info, m) \<Rightarrow> (Inr info, st\<lparr> os_tokens := m \<rparr>, x)
      | (None, m) \<Rightarrow>
          (case runOAuthDependencyWithRetry (introspection_policy config) (\<lambda>x. io_nowSeconds io x * 1000)
                  (introspectionAttempt io config token) (io_pause io (oc_introspectionRetryDelayMs config))
                  introspection_failed (os_introspectionCircuits st) x of
             (r, cs, x') \<Rightarrow>
               (let st' = st\<lparr> os_tokens := m, os_introspectionCircuits := cs \<rparr> in
                case js_bind r (\<lambda>claims.
                       if prop_get claims (js ''active'') \<noteq> Bool True then rejected (js ''Token is inactive'')
                       else authInfoFromVerifiedClaims ow token claims config now Introspection) of
                  Inl e \<Rightarrow> (Inl (as_oauth_failure (js ''Token introspection failed'') e), st', x')
                | Inr info \<Rightarrow>
                    (Inr info, st'\<lparr> os_tokens := rememberAuthInfo key info config (now * 1000) m \<rparr>, x'))))"

text \<open>The key set of the deployment.\<close>

definition jwksCacheKey :: "oauth_config \<Rightarrow> jsstring" where
  "jwksCacheKey config = plain_print (Obj
     [(js ''issuer'', Str (oc_issuer config)), (js ''jwksUri'', text_or_empty (oc_jwksUri config)),
      (js ''allowedJwtAlgorithms'', texts (oc_allowedJwtAlgorithms config)),
      (js ''jwksCacheTtlSeconds'', num_of_int (oc_jwksCacheTtlSeconds config)),
      (js ''jwksCacheMinTtlSeconds'', num_of_int (oc_jwksCacheMinTtlSeconds config)),
      (js ''jwksTimeoutMs'', num_of_int (oc_jwksTimeoutMs config)),
      (js ''jwksMaxRetries'', num_of_int (oc_jwksMaxRetries config)),
      (js ''jwksRetryDelayMs'', num_of_int (oc_jwksRetryDelayMs config)),
      (js ''jwksCircuitFailures'', num_of_int (oc_jwksCircuitFailures config)),
      (js ''jwksCircuitOpenMs'', num_of_int (oc_jwksCircuitOpenMs config)),
      (js ''jwksRefreshCooldownMs'', num_of_int (oc_jwksRefreshCooldownMs config))])"

definition cachedJwks :: "oauth_config \<Rightarrow> int \<Rightarrow> oauth_state \<Rightarrow> jwks_document option \<times> oauth_state" where
  "cachedJwks config nowMs st =
     (let key = jwksCacheKey config in
      case map_get (os_jwks st) key of
        None \<Rightarrow> (None, st)
      | Some entry \<Rightarrow>
          if je_expiresAtMs entry \<le> nowMs then (None, st\<lparr> os_jwks := map_delete key (os_jwks st) \<rparr>)
          else (Some (je_jwks entry),
            st\<lparr> os_jwks := map_set key (entry\<lparr> je_lastAccessMs := nowMs \<rparr>) (map_delete key (os_jwks st)) \<rparr>))"

definition jwks_policy :: "oauth_config \<Rightarrow> dependency_policy" where
  "jwks_policy config =
     \<lparr> dp_maxRetries = oc_jwksMaxRetries config, dp_retryDelayMs = oc_jwksRetryDelayMs config,
       dp_circuitFailures = oc_jwksCircuitFailures config, dp_circuitOpenMs = oc_jwksCircuitOpenMs config,
       dp_circuitKey = jwksCacheKey config \<rparr>"

text \<open>An attempt stores the document it fetched; its world is the network with the cache.\<close>

definition fetchJwksAttempt ::
  "'x oauth_io \<Rightarrow> oauth_config \<Rightarrow> 'x \<times> (jsstring, jwks_entry) jsmap \<Rightarrow>
     (oauth_failure + jwks_document) \<times> ('x \<times> (jsstring, jwks_entry) jsmap)" where
  "fetchJwksAttempt io config y =
     (case io_jwks io (case oc_jwksUri config of Some u \<Rightarrow> u | None \<Rightarrow> []) (fst y) of
        (f, x') \<Rightarrow>
          (case jwks_outcome config f of
             Inl e \<Rightarrow> (Inl e, (x', snd y))
           | Inr (doc, ttl) \<Rightarrow>
               (let nowMs = io_nowSeconds io x' * 1000; key = jwksCacheKey config in
                (Inr doc, (x', map_set key \<lparr> je_jwks = doc, je_expiresAtMs = nowMs + ttl * 1000, je_lastAccessMs = nowMs \<rparr>
                   (map_delete key (snd y)))))))"

definition fetchJwks ::
  "'x oauth_io \<Rightarrow> oauth_config \<Rightarrow> oauth_state \<Rightarrow> 'x \<Rightarrow> (oauth_failure + jwks_document) \<times> oauth_state \<times> 'x" where
  "fetchJwks io config st x =
     (case runOAuthDependencyWithRetry (jwks_policy config) (\<lambda>y. io_nowSeconds io (fst y) * 1000)
             (fetchJwksAttempt io config)
             (\<lambda>y. case io_pause io (oc_jwksRetryDelayMs config) (fst y) of (elapsed, x') \<Rightarrow> (elapsed, (x', snd y)))
             (OAuthDependencyError (js ''network_error'') None None) (os_jwksCircuits st) (x, os_jwks st) of
        (r, cs, (x', m)) \<Rightarrow> (r, st\<lparr> os_jwksCircuits := cs, os_jwks := m \<rparr>, x'))"

text \<open>The flag of the result: the document comes from the cache.\<close>

definition jwks_lookup ::
  "'x oauth_io \<Rightarrow> oauth_config \<Rightarrow> bool \<Rightarrow> oauth_state \<Rightarrow> 'x \<Rightarrow>
     (oauth_failure + jwks_document \<times> bool) \<times> oauth_state \<times> 'x" where
  "jwks_lookup io config forceRefresh st x =
     (case (if forceRefresh then (None, st) else cachedJwks config (io_nowSeconds io x * 1000) st) of
        (Some doc, st') \<Rightarrow> (Inr (doc, True), st', x)
      | (None, st') \<Rightarrow> (case fetchJwks io config st' x of
           (r, st'', x') \<Rightarrow> (js_bind r (\<lambda>doc. Inr (doc, False)), st'', x')))"

definition unknownKidCacheKey :: "oauth_config \<Rightarrow> jsstring \<Rightarrow> jsstring \<Rightarrow> jsstring" where
  "unknownKidCacheKey config kid algorithm =
     jwksCacheKey config @ [0] @ js ''alg:'' @ algorithm @ [0] @ js ''kid:'' @ kid"

definition unresolvedKidCoolingDown ::
  "oauth_config \<Rightarrow> jsstring \<Rightarrow> jsstring \<Rightarrow> int \<Rightarrow> oauth_state \<Rightarrow> bool \<times> oauth_state" where
  "unresolvedKidCoolingDown config kid algorithm nowMs st =
     (let key = unknownKidCacheKey config kid algorithm in
      case map_get (os_unknownKids st) key of
        None \<Rightarrow> (False, st)
      | Some untilMs \<Rightarrow>
          if untilMs = 0 then (False, st)
          else if untilMs \<le> nowMs then (False, st\<lparr> os_unknownKids := map_delete key (os_unknownKids st) \<rparr>)
          else (True, st))"

definition trimUnknownKidCache :: "(jsstring, int) jsmap \<Rightarrow> (jsstring, int) jsmap" where
  "trimUnknownKidCache m = drop (Suc (length m) - JWKS_UNKNOWN_KID_CACHE_MAX_ENTRIES) m"

definition rememberUnresolvedKid ::
  "oauth_config \<Rightarrow> jsstring \<Rightarrow> jsstring \<Rightarrow> int \<Rightarrow> oauth_state \<Rightarrow> oauth_state" where
  "rememberUnresolvedKid config kid algorithm nowMs st =
     (if oc_jwksRefreshCooldownMs config \<le> 0 then st
      else (let m = filter (\<lambda>(k, expiresAtMs). \<not> expiresAtMs \<le> nowMs) (os_unknownKids st);
                key = unknownKidCacheKey config kid algorithm in
            st\<lparr> os_unknownKids :=
                  map_set key (nowMs + oc_jwksRefreshCooldownMs config) (trimUnknownKidCache (map_delete key m)) \<rparr>))"

definition forcedRefreshAllowed :: "oauth_config \<Rightarrow> int \<Rightarrow> oauth_state \<Rightarrow> bool" where
  "forcedRefreshAllowed config nowMs st \<longleftrightarrow>
     (case map_get (os_lastForced st) (jwksCacheKey config) of
        None \<Rightarrow> True | Some lastRefreshMs \<Rightarrow> oc_jwksRefreshCooldownMs config \<le> nowMs - lastRefreshMs)"

definition noteForcedRefresh :: "oauth_config \<Rightarrow> int \<Rightarrow> oauth_state \<Rightarrow> oauth_state" where
  "noteForcedRefresh config nowMs st = st\<lparr> os_lastForced := map_set (jwksCacheKey config) nowMs (os_lastForced st) \<rparr>"

definition some_key_verifies :: "('b jwt_world_scheme) \<Rightarrow> jsstring \<Rightarrow> jsstring \<Rightarrow> jwks_document \<Rightarrow> bool" where
  "some_key_verifies ow token algorithm keys \<longleftrightarrow> (\<exists>jwk \<in> set keys. jw_verifies ow token algorithm (Obj jwk))"

definition verifySignature ::
  "'x oauth_io \<Rightarrow> ('b jwt_world_scheme) \<Rightarrow> oauth_config \<Rightarrow> jsstring \<Rightarrow> jsprops \<Rightarrow> jsstring \<Rightarrow> oauth_state \<Rightarrow> 'x \<Rightarrow>
     (oauth_failure + bool) \<times> oauth_state \<times> 'x" where
  "verifySignature io ow config token header algorithm st x =
     (case stringClaim (prop_get header (js ''kid'')) of
        None \<Rightarrow> (rejected (js ''JWT header is missing the kid required for JWKS verification''), st, x)
      | Some kid \<Rightarrow>
          (case jwks_lookup io config False st x of
             (Inl e, st1, x1) \<Rightarrow> (Inl e, st1, x1)
           | (Inr (doc, fromCache), st1, x1) \<Rightarrow>
               (case candidateKeys doc algorithm kid of
                  Inl e \<Rightarrow> (Inl e, st1, x1)
                | Inr keys \<Rightarrow>
                    if 1 < length keys then (Inr False, st1, x1)
                    else if some_key_verifies ow token algorithm keys then (Inr True, st1, x1)
                    else if keys \<noteq> [] then (Inr False, st1, x1)
                    else if \<not> fromCache then (Inr False, st1, x1)
                    else (let nowMs = io_nowSeconds io x1 * 1000 in
                      case unresolvedKidCoolingDown config kid algorithm nowMs st1 of
                        (cooling, st2) \<Rightarrow>
                          if cooling then (Inr False, st2, x1)
                          else if \<not> forcedRefreshAllowed config nowMs st2 then (Inr False, st2, x1)
                          else (case jwks_lookup io config True st2 x1 of
                            (Inl e, st3, x2) \<Rightarrow> (Inl e, st3, x2)
                          | (Inr (refreshed, c), st3, x2) \<Rightarrow>
                              (let st4 = noteForcedRefresh config nowMs st3 in
                               case candidateKeys refreshed algorithm kid of
                                 Inl e \<Rightarrow> (Inl e, st4, x2)
                               | Inr refreshedKeys \<Rightarrow>
                                   if 1 < length refreshedKeys then (Inr False, st4, x2)
                                   else if some_key_verifies ow token algorithm refreshedKeys then (Inr True, st4, x2)
                                   else (Inr False, rememberUnresolvedKid config kid algorithm nowMs st4, x2)))))))"

definition jwt_verify ::
  "'x oauth_io \<Rightarrow> ('b jwt_world_scheme) \<Rightarrow> oauth_config \<Rightarrow> jsstring \<Rightarrow> oauth_state \<Rightarrow> 'x \<Rightarrow>
     (oauth_failure + auth_info) \<times> oauth_state \<times> 'x" where
  "jwt_verify io ow config token st x =
     (let key = token_key ow config token FromJwt; now = io_nowSeconds io x;
          failure = as_oauth_failure (js ''JWT verification failed'') in
      case cachedAuthInfo key (now * 1000) (os_tokens st) of
        (Some info, m) \<Rightarrow> (Inr info, st\<lparr> os_tokens := m \<rparr>, x)
      | (None, m) \<Rightarrow>
          (let st0 = st\<lparr> os_tokens := m \<rparr> in
           case js_bind (parseJwt ow token) (\<lambda>parsed.
                  js_bind (assertJwtHeader (pj_header parsed) config) (\<lambda>algorithm.
                  js_bind (assertAllowedAlgorithm algorithm (oc_allowedJwtAlgorithms config)) (\<lambda>_.
                    Inr (parsed, algorithm)))) of
             Inl e \<Rightarrow> (Inl (failure e), st0, x)
           | Inr (parsed, algorithm) \<Rightarrow>
               (case verifySignature io ow config token (pj_header parsed) algorithm st0 x of
                  (r, st1, x1) \<Rightarrow>
                    (case js_bind r (\<lambda>good.
                            if \<not> good then rejected (js ''JWT signature is not accepted'')
                            else authInfoFromVerifiedClaims ow token (pj_claims parsed) config now
                                   (Jwt algorithm (oc_jwtClockSkewSeconds config))) of
                       Inl e \<Rightarrow> (Inl (failure e), st1, x1)
                     | Inr info \<Rightarrow>
                         (Inr info, st1\<lparr> os_tokens := rememberAuthInfo key info config (now * 1000) (os_tokens st1) \<rparr>, x1)))))"

definition bearer_verify ::
  "'x oauth_io \<Rightarrow> ('b jwt_world_scheme) \<Rightarrow> oauth_config \<Rightarrow> jsstring \<Rightarrow> oauth_state \<Rightarrow> 'x \<Rightarrow>
     (oauth_failure + auth_info) \<times> oauth_state \<times> 'x" where
  "bearer_verify io ow config token st x =
     (if hasIntrospectionConfig config then introspection_verify io ow config token st x
      else if hasJwtConfig config then jwt_verify io ow config token st x
      else (rejected (js ''OAuth token verifier is not configured''), st, x))"

end
