(* ===== verification/Oauth_Trust.thy ===== *)
theory Oauth_Trust
  imports Oauth_Verifier
begin

text \<open>
  Who vouches for an accepted bearer token (\<open>src/oauth-resource-server.ts\<close>). The answers of the authorization
  server are recorded, and a process has a history of its verifications with their times and answers. Every run
  keeps the invariant that each entry of the caches goes back to one verification of the history and lives no
  longer than its time to live after that; so an accepted token is vouched for by the answers of its own
  verification or by those of a recent one.
\<close>

section \<open>A network with a log\<close>

text \<open>The answers of one verification, the latest first. With a key set comes the time at which it was fetched.\<close>

datatype exchange = Introspected jsstring fetch_result | KeysFetched int fetch_result

definition logged :: "'x oauth_io \<Rightarrow> ('x \<times> exchange list) oauth_io" where
  "logged io =
     \<lparr> io_nowSeconds = \<lambda>y. io_nowSeconds io (fst y),
       io_introspect = \<lambda>u a token y. (case io_introspect io u a token (fst y) of
         (f, x') \<Rightarrow> (f, (x', Introspected token f # snd y))),
       io_jwks = \<lambda>u y. (case io_jwks io u (fst y) of (f, x') \<Rightarrow> (f, (x', KeysFetched (io_nowSeconds io x') f # snd y))),
       io_pause = \<lambda>d y. (case io_pause io d (fst y) of (elapsed, x') \<Rightarrow> (elapsed, (x', snd y))) \<rparr>"

definition empty_oauth_state :: oauth_state where
  "empty_oauth_state = \<lparr> os_tokens = [], os_introspectionCircuits = [], os_jwks = [], os_jwksCircuits = [],
     os_unknownKids = [], os_lastForced = [] \<rparr>"

text \<open>
  A process verifies tokens one after the other; between them the world may change. Each verification is
  recorded with what the clock showed at its start, the answers it got and its result, the latest first.
\<close>

record verification =
  vr_token :: jsstring
  vr_now :: int
  vr_exchanges :: "exchange list"
  vr_result :: "oauth_failure + auth_info"

inductive oauth_run ::
  "'x oauth_io \<Rightarrow> ('b jwt_world_scheme) \<Rightarrow> oauth_config \<Rightarrow> oauth_state \<Rightarrow> 'x \<Rightarrow> verification list \<Rightarrow> bool"
  for io ow config where
  boot: "oauth_run io ow config empty_oauth_state x []"
| verify: "oauth_run io ow config st x h \<Longrightarrow>
    bearer_verify (logged io) ow config token st (x, []) = (r, st', (x', es)) \<Longrightarrow>
    oauth_run io ow config st' x'
      (\<lparr> vr_token = token, vr_now = io_nowSeconds io x, vr_exchanges = es, vr_result = r \<rparr> # h)"
| idle: "oauth_run io ow config st x h \<Longrightarrow> oauth_run io ow config st x' h"

section \<open>Vouched for\<close>

definition introspected ::
  "('b oauth_world_scheme) \<Rightarrow> oauth_config \<Rightarrow> exchange list \<Rightarrow> jsstring \<Rightarrow> int \<Rightarrow> auth_info \<Rightarrow> bool" where
  "introspected ow config es token now info \<longleftrightarrow>
     (\<exists>f claims. Introspected token f \<in> set es \<and> introspection_outcome f = Inr claims \<and>
        prop_get claims (js ''active'') = Bool True \<and>
        authInfoFromVerifiedClaims ow token claims config now Introspection = Inr info)"

definition past :: "verification list \<Rightarrow> exchange set" where
  "past h = (\<Union>v \<in> set h. set (vr_exchanges v))"

text \<open>
  A key set that may be used at a time: fetched by this verification, or earlier and not longer ago than the time to
  live that it came with.
\<close>

definition served :: "oauth_config \<Rightarrow> verification list \<Rightarrow> exchange list \<Rightarrow> int \<Rightarrow> jwks_document \<Rightarrow> bool" where
  "served config h es now doc \<longleftrightarrow>
     (\<exists>t f ttl. jwks_outcome config f = Inr (doc, ttl) \<and>
        (KeysFetched t f \<in> set es \<or> KeysFetched t f \<in> past h \<and> now < t + ttl))"

definition key_vouches ::
  "('b jwt_world_scheme) \<Rightarrow> oauth_config \<Rightarrow> verification list \<Rightarrow> exchange list \<Rightarrow> int \<Rightarrow> jsstring \<Rightarrow> jsprops \<Rightarrow>
     jsstring \<Rightarrow> bool" where
  "key_vouches ow config h es now token header algorithm \<longleftrightarrow>
     (\<exists>kid doc jwk. stringClaim (prop_get header (js ''kid'')) = Some kid \<and> served config h es now doc \<and> jwk \<in> set doc \<and>
        jwkMatchesHeader jwk algorithm kid = Inr True \<and> jw_verifies ow token algorithm (Obj jwk))"

definition signed ::
  "('b jwt_world_scheme) \<Rightarrow> oauth_config \<Rightarrow> verification list \<Rightarrow> exchange list \<Rightarrow> jsstring \<Rightarrow> int \<Rightarrow> auth_info \<Rightarrow> bool" where
  "signed ow config h es token now info \<longleftrightarrow>
     (\<exists>p algorithm. parseJwt ow token = Inr p \<and> assertJwtHeader (pj_header p) config = Inr algorithm \<and>
        (oc_allowedJwtAlgorithms config = [] \<or> algorithm \<in> set (oc_allowedJwtAlgorithms config)) \<and>
        key_vouches ow config h es now token (pj_header p) algorithm \<and>
        authInfoFromVerifiedClaims ow token (pj_claims p) config now
          (Jwt algorithm (oc_jwtClockSkewSeconds config)) = Inr info)"

text \<open>
  A verification that starts at \<open>now\<close> after the history \<open>h\<close> and gets the answers \<open>es\<close> may accept the token: the
  server called it active in one of these answers, or a key that may be used verifies its signature; and its
  claims pass every check at that time.
\<close>

fun vouched ::
  "('b jwt_world_scheme) \<Rightarrow> oauth_config \<Rightarrow> verification list \<Rightarrow> exchange list \<Rightarrow> cache_source \<Rightarrow> jsstring \<Rightarrow> int \<Rightarrow>
     auth_info \<Rightarrow> bool" where
  "vouched ow config h es FromIntrospection = introspected ow config es"
| "vouched ow config h es FromJwt = signed ow config h es"

definition verifier_source :: "oauth_config \<Rightarrow> cache_source" where
  "verifier_source config = (if hasIntrospectionConfig config then FromIntrospection else FromJwt)"

text \<open>A verification of the history that accepted this principal by its own answers, and what came before it.\<close>

definition accepted_before ::
  "('b jwt_world_scheme) \<Rightarrow> oauth_config \<Rightarrow> verification list \<Rightarrow> cache_source \<Rightarrow> verification \<Rightarrow> auth_info \<Rightarrow> bool" where
  "accepted_before ow config h source v info \<longleftrightarrow>
     (\<exists>later earlier. h = later @ v # earlier \<and> vr_result v = Inr info \<and>
        vouched ow config earlier (vr_exchanges v) source (vr_token v) (vr_now v) info)"

text \<open>An entry of the token cache goes back to such a verification, and is gone with its time to live or the expiry.\<close>

definition entry_backed ::
  "('b jwt_world_scheme) \<Rightarrow> oauth_config \<Rightarrow> verification list \<Rightarrow> jsstring \<times> token_entry \<Rightarrow> bool" where
  "entry_backed ow config h = (\<lambda>(k, entry). \<exists>v source e.
     k = token_key ow config (vr_token v) source \<and> accepted_before ow config h source v (te_authInfo entry) \<and>
     ai_expiresAt (te_authInfo entry) = Some e \<and>
     te_expiresAtMs entry \<le> (e - of_int (oc_tokenCacheSkewSeconds config)) * 1000 \<and>
     te_expiresAtMs entry \<le> of_int ((vr_now v + oc_tokenCacheTtlSeconds config) * 1000))"

text \<open>A stored key set was fetched, by this verification or before, and is gone with its time to live.\<close>

definition stored :: "oauth_config \<Rightarrow> exchange set \<Rightarrow> jwks_entry \<Rightarrow> bool" where
  "stored config E j \<longleftrightarrow> (\<exists>t f ttl. KeysFetched t f \<in> E \<and> jwks_outcome config f = Inr (je_jwks j, ttl) \<and>
     je_expiresAtMs j = (t + ttl) * 1000)"

definition backed ::
  "('b jwt_world_scheme) \<Rightarrow> oauth_config \<Rightarrow> verification list \<Rightarrow> exchange list \<Rightarrow> oauth_state \<Rightarrow> bool" where
  "backed ow config h es st \<longleftrightarrow>
     (\<forall>entry \<in> set (os_tokens st). entry_backed ow config h entry) \<and>
     (\<forall>(k, j) \<in> set (os_jwks st). stored config (set es \<union> past h) j)"

lemma served_mono: "served config h l now doc \<Longrightarrow> set l \<subseteq> set l' \<Longrightarrow> served config h l' now doc"
  unfolding served_def by blast

lemma stored_mono: "stored config E j \<Longrightarrow> E \<subseteq> E' \<Longrightarrow> stored config E' j"
  unfolding stored_def by blast

lemma entry_backed_Cons: "entry_backed ow config h entry \<Longrightarrow> entry_backed ow config (v # h) entry"
  unfolding entry_backed_def accepted_before_def by (auto 4 4) (metis append_Cons)

lemma backed_mono: "backed ow config h l st \<Longrightarrow> set l \<subseteq> set l' \<Longrightarrow> backed ow config h l' st"
  unfolding backed_def using stored_mono [of config "set l \<union> past h" _ "set l' \<union> past h"] by fastforce

text \<open>The end of a verification: its answers become part of the history.\<close>

lemma past_Cons [simp]: "past (v # h) = set (vr_exchanges v) \<union> past h"
  by (simp add: past_def)

lemma backed_recorded:
  assumes "backed ow config h es st" "vr_exchanges v = es"
  shows "backed ow config (v # h) [] st"
  using assms by (auto simp: backed_def intro: entry_backed_Cons)

text \<open>The name of the source keeps the entries of the two verifiers apart.\<close>

lemma token_key_inject:
  "token_key ow config token source = token_key ow config token' source' \<longleftrightarrow>
     source = source' \<and> ow_tokenLabel ow token = ow_tokenLabel ow token'"
  by (cases source; cases source') (auto simp: token_key_def js_simps)

lemma set_map_delete: "set (map_delete k m) \<subseteq> set m"
  by (auto simp: map_delete_def)

lemma map_set_mem: "p \<in> set (map_set k v m) \<Longrightarrow> p = (k, v) \<or> p \<in> set m"
  by (induction k v m rule: map_set.induct) (auto split: if_splits)

lemma map_get_entry: "map_get m k = Some v \<Longrightarrow> (k, v) \<in> set m"
  by (simp add: map_get_def map_of_SomeD)

section \<open>Calls of a dependency\<close>

text \<open>
  What a client of the retry loop relies on: a property of the world that attempts and pauses keep, and
  what an attempt's answer establishes.
\<close>

locale dependency_client =
  fixes attempt :: "'x \<Rightarrow> (oauth_failure + 'a) \<times> 'x" and pause :: "'x \<Rightarrow> bool \<times> 'x"
    and holds :: "'x \<Rightarrow> bool" and answer :: "'a \<Rightarrow> 'x \<Rightarrow> bool"
  assumes attempt_holds: "holds x \<Longrightarrow> attempt x = (r, x') \<Longrightarrow> holds x'"
    and attempt_answers: "holds x \<Longrightarrow> attempt x = (Inr v, x') \<Longrightarrow> answer v x'"
    and pause_holds: "holds x \<Longrightarrow> pause x = (elapsed, x') \<Longrightarrow> holds x'"
begin

lemma attempts_hold:
  assumes "dependency_attempts attempt (oauthDependencyRetryDelay d pause) unexpected n x = (result, x')" "holds x"
  shows "holds x' \<and> (\<forall>v. result = Succeeded v \<longrightarrow> answer v x')"
  using assms
proof (induction n arbitrary: x)
  case (Suc n)
  obtain r y where a: "attempt x = (r, y)" by (cases "attempt x")
  note y = attempt_holds [OF Suc.prems(2) a]
  have delay: "holds z" if "oauthDependencyRetryDelay d pause y = (e, z)" for e z
    using that y pause_holds by (auto simp: oauthDependencyRetryDelay_def split: if_splits prod.splits)
  show ?case
  proof (cases r)
    case (Inl e)
    show ?thesis
      using Suc.prems(1) Suc.IH y delay
      by (cases e) (auto simp: a Inl split: if_splits prod.splits sum.splits)
  next
    case (Inr v)
    then show ?thesis using Suc.prems attempt_answers y a by auto
  qed
qed auto

lemma run_holds:
  assumes "runOAuthDependencyWithRetry policy nowMs attempt pause unexpected cs x = (r, cs', x')" "holds x"
  shows "holds x' \<and> (\<forall>v. r = Inr v \<longrightarrow> answer v x')"
proof (cases "assertOAuthDependencyCircuitClosed policy (nowMs x) cs")
  case (Inl e)
  then show ?thesis using assms by (auto simp: runOAuthDependencyWithRetry_def)
next
  case (Inr u)
  obtain result y where d: "dependency_attempts attempt (oauthDependencyRetryDelay (dp_retryDelayMs policy) pause)
      unexpected (nat (dp_maxRetries policy + 1)) x = (result, y)"
    by (cases "dependency_attempts attempt (oauthDependencyRetryDelay (dp_retryDelayMs policy) pause)
      unexpected (nat (dp_maxRetries policy + 1)) x")
  show ?thesis
    using attempts_hold [OF d assms(2)] assms(1)
    by (cases result) (auto simp: runOAuthDependencyWithRetry_def Inr d split: prod.splits)
qed

end

text \<open>The two clients: the log grows, and an answer is the outcome of an exchange in it.\<close>

definition introspection_answer :: "jsstring \<Rightarrow> jsprops \<Rightarrow> 'x \<times> exchange list \<Rightarrow> bool" where
  "introspection_answer token claims y \<longleftrightarrow>
     (\<exists>f. Introspected token f \<in> set (snd y) \<and> introspection_outcome f = Inr claims)"

lemma logged_simps [simp]:
  "io_nowSeconds (logged io) y = io_nowSeconds io (fst y)"
  "io_introspect (logged io) u a token y =
     (case io_introspect io u a token (fst y) of (f, x') \<Rightarrow> (f, (x', Introspected token f # snd y)))"
  "io_jwks (logged io) u y = (case io_jwks io u (fst y) of (f, x') \<Rightarrow> (f, (x', KeysFetched (io_nowSeconds io x') f # snd y)))"
  "io_pause (logged io) d y = (case io_pause io d (fst y) of (elapsed, x') \<Rightarrow> (elapsed, (x', snd y)))"
  by (simp_all add: logged_def)

interpretation asking: dependency_client "introspectionAttempt (logged io) config token"
    "io_pause (logged io) (oc_introspectionRetryDelayMs config)"
    "\<lambda>y. set l \<subseteq> set (snd y)" "introspection_answer token"
  for io config token l
proof
  show "set l \<subseteq> set (snd x')"
    if "set l \<subseteq> set (snd x)" "introspectionAttempt (logged io) config token x = (r, x')" for x r x'
    using that by (auto simp: introspectionAttempt_def split: prod.splits)
  show "introspection_answer token v x'"
    if "set l \<subseteq> set (snd x)" "introspectionAttempt (logged io) config token x = (Inr v, x')" for x v x'
    using that by (auto simp: introspectionAttempt_def introspection_answer_def split: prod.splits)
  show "set l \<subseteq> set (snd x')"
    if "set l \<subseteq> set (snd x)" "io_pause (logged io) (oc_introspectionRetryDelayMs config) x = (elapsed, x')" for x elapsed x'
    using that by (auto split: prod.splits)
qed

definition keys_backed ::
  "oauth_config \<Rightarrow> verification list \<Rightarrow> exchange list \<Rightarrow> ('x \<times> exchange list) \<times> (jsstring, jwks_entry) jsmap \<Rightarrow> bool" where
  "keys_backed config h l y \<longleftrightarrow>
     set l \<subseteq> set (snd (fst y)) \<and> (\<forall>(k, j) \<in> set (snd y). stored config (set (snd (fst y)) \<union> past h) j)"

definition just_fetched :: "oauth_config \<Rightarrow> exchange list \<Rightarrow> jwks_document \<Rightarrow> bool" where
  "just_fetched config l doc \<longleftrightarrow> (\<exists>t f ttl. KeysFetched t f \<in> set l \<and> jwks_outcome config f = Inr (doc, ttl))"

lemma just_fetched_served: "just_fetched config l doc \<Longrightarrow> served config h l now doc"
  unfolding just_fetched_def served_def by blast

lemma fetchJwksAttempt_backed:
  assumes "keys_backed config h l y" "fetchJwksAttempt (logged io) config y = (r, y')"
  shows "keys_backed config h l y' \<and> (\<forall>doc. r = Inr doc \<longrightarrow> just_fetched config (snd (fst y')) doc)"
proof -
  let ?u = "case oc_jwksUri config of Some u \<Rightarrow> u | None \<Rightarrow> []"
  obtain f x' where f: "io_jwks io ?u (fst (fst y)) = (f, x')" by (cases "io_jwks io ?u (fst (fst y))")
  let ?now = "io_nowSeconds io x'"
  let ?l = "KeysFetched ?now f # snd (fst y)"
  have old: "stored config (set ?l \<union> past h) j" if "(k, j) \<in> set (snd y)" for k j
    using assms(1) that by (auto simp: keys_backed_def intro: stored_mono)
  show ?thesis
  proof (cases "jwks_outcome config f")
    case (Inl e)
    then show ?thesis using assms old by (auto simp: fetchJwksAttempt_def f keys_backed_def)
  next
    case (Inr p)
    obtain doc ttl where p: "p = (doc, ttl)" by (cases p)
    let ?j = "\<lparr> je_jwks = doc, je_expiresAtMs = ?now * 1000 + ttl * 1000, je_lastAccessMs = ?now * 1000 \<rparr>"
    have out: "jwks_outcome config f = Inr (doc, ttl)" using Inr p by simp
    then have new: "stored config (set ?l \<union> past h) ?j"
      unfolding stored_def by (intro exI [of _ ?now] exI [of _ f] exI [of _ ttl]) (simp add: algebra_simps)
    have fetched: "just_fetched config ?l doc"
      unfolding just_fetched_def using out by (intro exI [of _ ?now] exI [of _ f] exI [of _ ttl]) simp
    have y': "r = Inr doc" "y' = ((x', ?l), map_set (jwksCacheKey config) ?j (map_delete (jwksCacheKey config) (snd y)))"
      using assms(2) by (simp_all add: fetchJwksAttempt_def f Inr p Let_def)
    have "stored config (set ?l \<union> past h) j" if "(k, j) \<in> set (snd y')" for k j
      using that new old unfolding y'(2) by (auto dest!: map_set_mem set_map_delete [THEN subsetD])
    then show ?thesis using assms(1) fetched y' by (auto simp: keys_backed_def)
  qed
qed

interpretation fetching: dependency_client "fetchJwksAttempt (logged io) config"
    "\<lambda>y. case io_pause (logged io) d (fst y) of (elapsed, x') \<Rightarrow> (elapsed, (x', snd y))"
    "keys_backed config h l" "\<lambda>doc y. just_fetched config (snd (fst y)) doc"
  for io config d h l
proof
  show "keys_backed config h l x'"
    if "keys_backed config h l x"
      "(case io_pause (logged io) d (fst x) of (elapsed, x') \<Rightarrow> (elapsed, (x', snd x))) = (elapsed, x')" for x elapsed x'
    using that by (auto simp: keys_backed_def split: prod.splits)
qed (use fetchJwksAttempt_backed in blast)+

section \<open>The caches hold what the log backs\<close>

lemma cached_backed:
  assumes "cachedAuthInfo key nowMs m = (r, m')" "\<forall>entry \<in> set m. entry_backed ow config h entry"
  shows "\<forall>entry \<in> set m'. entry_backed ow config h entry"
    "r = Some info \<Longrightarrow> \<exists>entry. te_authInfo entry = info \<and> of_int nowMs < te_expiresAtMs entry \<and> entry_backed ow config h (key, entry)"
proof -
  have touched: "entry_backed ow config h (k, entry\<lparr> te_lastAccessMs := t \<rparr>) = entry_backed ow config h (k, entry)" for k entry t
    by (simp add: entry_backed_def)
  show "\<forall>entry \<in> set m'. entry_backed ow config h entry"
    using assms set_map_delete [of key m] map_get_entry [of m key]
    by (auto simp: cachedAuthInfo_def touched split: option.splits if_splits dest!: map_set_mem)
  show "\<exists>entry. te_authInfo entry = info \<and> of_int nowMs < te_expiresAtMs entry \<and> entry_backed ow config h (key, entry)"
    if "r = Some info"
    using assms that map_get_entry [of m key]
    by (auto simp: cachedAuthInfo_def not_le split: option.splits if_splits)
qed

lemma evicted_subset: "set (without_oldest m) \<subseteq> set m"
proof (cases m)
  case (Cons a r)
  then show ?thesis using set_map_delete [of "fst a" m] by (cases a) (simp add: without_oldest_def)
qed (simp add: without_oldest_def)

lemma remember_mem:
  assumes "entry \<in> set (rememberAuthInfo key info config nowMs m)" "entry \<notin> set m"
  shows "\<exists>e. ai_expiresAt info = Some e \<and> entry = (key, \<lparr> te_authInfo = info,
      te_expiresAtMs = min (e * 1000 - of_int (oc_tokenCacheSkewSeconds config * 1000))
        (of_int (nowMs + oc_tokenCacheTtlSeconds config * 1000)), te_lastAccessMs = nowMs \<rparr>)"
  using assms evicted_subset [of "map_delete key m"] set_map_delete [of key m]
  by (auto simp: rememberAuthInfo_def Let_def split: option.splits if_splits dest!: map_set_mem)

lemma remember_backed:
  assumes "vouched ow config h (vr_exchanges v) source (vr_token v) (vr_now v) info" "vr_result v = Inr info"
    and "\<forall>entry \<in> set m. entry_backed ow config (v # h) entry"
    and "entry \<in> set (rememberAuthInfo (token_key ow config (vr_token v) source) info config (vr_now v * 1000) m)"
  shows "entry_backed ow config (v # h) entry"
proof (cases "entry \<in> set m")
  case False
  from remember_mem [OF assms(4) False] obtain e where e: "ai_expiresAt info = Some e"
    "entry = (token_key ow config (vr_token v) source, \<lparr> te_authInfo = info,
      te_expiresAtMs = min (e * 1000 - of_int (oc_tokenCacheSkewSeconds config * 1000))
        (of_int (vr_now v * 1000 + oc_tokenCacheTtlSeconds config * 1000)), te_lastAccessMs = vr_now v * 1000 \<rparr>)"
    by blast
  let ?min = "min (e * 1000 - of_int (oc_tokenCacheSkewSeconds config * 1000))
      (of_int (vr_now v * 1000 + oc_tokenCacheTtlSeconds config * 1000)) :: rat"
  have "?min \<le> (e - of_int (oc_tokenCacheSkewSeconds config)) * 1000"
    "?min \<le> of_int ((vr_now v + oc_tokenCacheTtlSeconds config) * 1000)"
    by (simp_all add: algebra_simps min_le_iff_disj)
  moreover have "accepted_before ow config (v # h) source v info"
    unfolding accepted_before_def using assms(1,2) by blast
  ultimately show ?thesis
    unfolding e(2) entry_backed_def case_prod_conv using e(1)
    by (intro exI [of _ v] exI [of _ source] exI [of _ e]) simp
qed (use assms(3) in simp)

lemma cachedJwks_backed:
  assumes "backed ow config h l st" "cachedJwks config (now * 1000) st = (r, st')"
  shows "backed ow config h l st' \<and> (\<forall>doc. r = Some doc \<longrightarrow> served config h l now doc)"
proof (cases "map_get (os_jwks st) (jwksCacheKey config)")
  case None
  then show ?thesis using assms by (auto simp: cachedJwks_def)
next
  case (Some j)
  have j: "stored config (set l \<union> past h) j" using assms(1) map_get_entry [OF Some] by (auto simp: backed_def)
  then have "served config h l now (je_jwks j)" if "now * 1000 < je_expiresAtMs j"
    using that unfolding stored_def served_def by fastforce
  moreover have "stored config (set l \<union> past h) (j\<lparr> je_lastAccessMs := n \<rparr>)" for n
    using j by (simp add: stored_def)
  ultimately show ?thesis
    using assms Some unfolding cachedJwks_def Let_def backed_def
    by (fastforce split: if_splits dest!: map_set_mem set_map_delete [THEN subsetD])
qed

lemma fetchJwks_backed:
  assumes "backed ow config h l st" "fetchJwks (logged io) config st (x, l) = (r, st', (x', l'))"
  shows "set l \<subseteq> set l' \<and> backed ow config h l' st' \<and> (\<forall>doc. r = Inr doc \<longrightarrow> just_fetched config l' doc)"
proof -
  obtain cs m where run: "runOAuthDependencyWithRetry (jwks_policy config) (\<lambda>y. io_nowSeconds (logged io) (fst y) * 1000)
      (fetchJwksAttempt (logged io) config)
      (\<lambda>y. case io_pause (logged io) (oc_jwksRetryDelayMs config) (fst y) of (elapsed, x') \<Rightarrow> (elapsed, (x', snd y)))
      (OAuthDependencyError (js ''network_error'') None None) (os_jwksCircuits st) ((x, l), os_jwks st)
      = (r, cs, ((x', l'), m))" and st': "st' = st\<lparr> os_jwksCircuits := cs, os_jwks := m \<rparr>"
    using assms(2) by (auto simp: fetchJwks_def split: prod.splits)
  have "keys_backed config h l ((x, l), os_jwks st)"
    using assms(1) by (simp add: keys_backed_def backed_def)
  from fetching.run_holds [OF run this] have "keys_backed config h l ((x', l'), m)"
      "\<forall>doc. r = Inr doc \<longrightarrow> just_fetched config l' doc"
    by simp_all
  then show ?thesis
    using assms(1) unfolding keys_backed_def backed_def st' by simp
qed

text \<open>A refresh that is forced yields a document that was fetched just now.\<close>

lemma jwks_lookup_backed:
  assumes "jwks_lookup (logged io) config force st (x, l) = (r, st', (x', l'))" "backed ow config h l st"
  shows "set l \<subseteq> set l' \<and> backed ow config h l' st' \<and>
    (\<forall>doc c. r = Inr (doc, c) \<longrightarrow>
       served config h l' (io_nowSeconds io x) doc \<and> (force \<longrightarrow> (\<forall>now. served config h l' now doc)))"
proof -
  let ?hit = "if force then (None, st) else cachedJwks config (io_nowSeconds (logged io) (x, l) * 1000) st"
  obtain hit st0 where found: "?hit = (hit, st0)" by (cases ?hit)
  have b: "backed ow config h l st0" "\<forall>doc. hit = Some doc \<longrightarrow> \<not> force \<and> served config h l (io_nowSeconds io x) doc"
    using found cachedJwks_backed [OF assms(2), of "io_nowSeconds io x"] assms(2) by (auto split: if_splits)
  show ?thesis
  proof (cases hit)
    case None
    obtain r1 st1 y where f: "fetchJwks (logged io) config st0 (x, l) = (r1, st1, y)" by (cases "fetchJwks (logged io) config st0 (x, l)")
    then show ?thesis
      using assms(1) fetchJwks_backed [OF b(1), of io x r1 st1 x' l'] just_fetched_served [of config l'] unfolding jwks_lookup_def found None
      by (auto simp: js_bind_Inr)
  next
    case (Some doc)
    then show ?thesis
      using assms(1) b unfolding jwks_lookup_def found by auto
  qed
qed

text \<open>Signatures: the bookkeeping of unknown keys does not touch the caches.\<close>

lemma backed_updates [simp]:
  "backed ow config h l (st\<lparr> os_unknownKids := u \<rparr>) = backed ow config h l st"
  "backed ow config h l (st\<lparr> os_lastForced := f \<rparr>) = backed ow config h l st"
  by (simp_all add: backed_def)

lemma bookkeeping_backed [simp]:
  "backed ow config h l (snd (unresolvedKidCoolingDown config kid algorithm nowMs st)) = backed ow config h l st"
  "backed ow config h l (rememberUnresolvedKid config kid algorithm nowMs st) = backed ow config h l st"
  "backed ow config h l (noteForcedRefresh config nowMs st) = backed ow config h l st"
  by (simp_all add: unresolvedKidCoolingDown_def rememberUnresolvedKid_def noteForcedRefresh_def Let_def split: option.split)

lemma candidate_vouches:
  assumes "candidateKeys doc algorithm kid = Inr keys" "some_key_verifies ow token algorithm keys" "served config h l now doc"
    and "stringClaim (prop_get header (js ''kid'')) = Some kid"
  shows "key_vouches ow config h l now token header algorithm"
  using candidateKeys_Inr [OF assms(1)] assms(2-4) unfolding key_vouches_def some_key_verifies_def by blast

lemma verifySignature_backed:
  assumes "verifySignature (logged io) ow config token header algorithm st (x, l) = (r, st', (x', l'))"
    and "backed ow config h l st"
  shows "backed ow config h l' st' \<and>
    (r = Inr True \<longrightarrow> key_vouches ow config h l' (io_nowSeconds io x) token header algorithm)"
proof (cases "stringClaim (prop_get header (js ''kid''))")
  case None
  then show ?thesis using assms by (auto simp: verifySignature_def)
next
  case kid: (Some kid)
  obtain r1 st1 x1 l1 where one: "jwks_lookup (logged io) config False st (x, l) = (r1, st1, (x1, l1))"
    by (metis surj_pair)
  note b1 = jwks_lookup_backed [OF one assms(2)]
  show ?thesis
  proof (cases "\<exists>doc keys. r1 = Inr (doc, True) \<and> candidateKeys doc algorithm kid = Inr keys \<and> keys = []")
    case False
    then show ?thesis
      using assms(1) b1 candidate_vouches [OF _ _ _ kid, of _ algorithm _ ow token config h l1 "io_nowSeconds io x"]
      by (auto simp: verifySignature_def kid one split: sum.splits if_splits)
  next
    case True
    then obtain doc where doc: "r1 = Inr (doc, True)" "candidateKeys doc algorithm kid = Inr []" by auto
    let ?now = "io_nowSeconds io x1 * 1000"
    obtain cooling st2 where two: "unresolvedKidCoolingDown config kid algorithm ?now st1 = (cooling, st2)"
      by (metis surj_pair)
    have b2: "backed ow config h l1 st2"
      using b1 bookkeeping_backed(1) [of ow config h l1 kid algorithm ?now st1] two by simp
    obtain r3 st3 x2 l2 where three: "jwks_lookup (logged io) config True st2 (x1, l1) = (r3, st3, (x2, l2))"
      by (metis surj_pair)
    note b3 = jwks_lookup_backed [OF three b2]
    show ?thesis
      using assms(1) b1 b2 b3 candidate_vouches [OF _ _ _ kid, of _ algorithm _ ow token config h l2 "io_nowSeconds io x"]
      by (auto simp: verifySignature_def kid one doc two three Let_def some_key_verifies_def
          split: sum.splits if_splits)
  qed
qed

section \<open>Accepted tokens\<close>

text \<open>
  A verification that accepts a principal does so by its own answers, or without any, by a verification before it of
  a token with the same keyed label, whose time to live is not over, while the expiry is ahead by more than the skew.
\<close>

definition accepted ::
  "('b jwt_world_scheme) \<Rightarrow> oauth_config \<Rightarrow> verification list \<Rightarrow> exchange list \<Rightarrow> jsstring \<Rightarrow> int \<Rightarrow> auth_info \<Rightarrow> bool" where
  "accepted ow config h es token now info \<longleftrightarrow>
     vouched ow config h es (verifier_source config) token now info \<or>
     es = [] \<and> (\<exists>v e. accepted_before ow config h (verifier_source config) v info \<and>
        ow_tokenLabel ow (vr_token v) = ow_tokenLabel ow token \<and> ai_expiresAt info = Some e \<and>
        of_int (now + oc_tokenCacheSkewSeconds config) < e \<and> now < vr_now v + oc_tokenCacheTtlSeconds config)"

lemma cache_hit_accepted:
  assumes "entry_backed ow config h (token_key ow config token source, entry)"
    and "of_int (now * 1000) < te_expiresAtMs entry" "source = verifier_source config"
  shows "accepted ow config h [] token now (te_authInfo entry)"
proof -
  obtain v source0 e where b: "token_key ow config token source = token_key ow config (vr_token v) source0"
      "accepted_before ow config h source0 v (te_authInfo entry)" "ai_expiresAt (te_authInfo entry) = Some e"
      "te_expiresAtMs entry \<le> (e - of_int (oc_tokenCacheSkewSeconds config)) * 1000"
      "te_expiresAtMs entry \<le> of_int ((vr_now v + oc_tokenCacheTtlSeconds config) * 1000)"
    using assms(1) by (auto simp: entry_backed_def)
  have "of_int (now * 1000) < (e - of_int (oc_tokenCacheSkewSeconds config)) * 1000"
    using assms(2) b(4) by (rule less_le_trans)
  then have "of_int (now + oc_tokenCacheSkewSeconds config) < e" by simp
  moreover have "(of_int (now * 1000) :: rat) < of_int ((vr_now v + oc_tokenCacheTtlSeconds config) * 1000)"
    using assms(2) b(5) by (rule less_le_trans)
  then have "now < vr_now v + oc_tokenCacheTtlSeconds config"
    unfolding of_int_less_iff by simp
  moreover have "source0 = verifier_source config" "ow_tokenLabel ow (vr_token v) = ow_tokenLabel ow token"
    using b(1) assms(3) by (simp_all add: token_key_inject)
  ultimately show ?thesis
    using b(2,3) unfolding accepted_def by blast
qed

lemma cache_hit_backed:
  assumes "cachedAuthInfo (token_key ow config token source) (now * 1000) (os_tokens st) = (hit, m)"
    and "backed ow config h l st" "source = verifier_source config"
  shows "backed ow config h l (st\<lparr> os_tokens := m \<rparr>) \<and>
    (\<forall>info. hit = Some info \<longrightarrow> accepted ow config h [] token now info)"
proof -
  have tokens: "\<forall>entry \<in> set (os_tokens st). entry_backed ow config h entry"
    using assms(2) by (simp add: backed_def)
  have "accepted ow config h [] token now info" if "hit = Some info" for info
    using cached_backed(2) [OF assms(1) tokens that] cache_hit_accepted assms(3) by metis
  moreover have "backed ow config h l (st\<lparr> os_tokens := m \<rparr>)"
    using cached_backed(1) [OF assms(1) tokens] assms(2) by (simp add: backed_def)
  ultimately show ?thesis by blast
qed

lemma remembered_backed:
  assumes "vouched ow config h (vr_exchanges v) source (vr_token v) (vr_now v) info" "vr_result v = Inr info"
    and "backed ow config h (vr_exchanges v) st"
  shows "backed ow config (v # h) [] (st\<lparr> os_tokens :=
    rememberAuthInfo (token_key ow config (vr_token v) source) info config (vr_now v * 1000) (os_tokens st) \<rparr>)"
proof -
  have b: "backed ow config (v # h) [] st" by (rule backed_recorded [OF assms(3) refl])
  then have "\<forall>entry \<in> set (os_tokens st). entry_backed ow config (v # h) entry" by (simp add: backed_def)
  with b remember_backed [OF assms(1,2)] show ?thesis by (auto simp: backed_def)
qed

lemma backed_circuits [simp]:
  "backed ow config h l (st\<lparr> os_introspectionCircuits := cs \<rparr>) = backed ow config h l st"
  by (simp add: backed_def)

lemma introspection_verify_backed:
  assumes "introspection_verify (logged io) ow config token st (x, []) = (r, st', (x', es))"
    and "backed ow config h [] st" "verifier_source config = FromIntrospection"
    and "v = \<lparr> vr_token = token, vr_now = io_nowSeconds io x, vr_exchanges = es, vr_result = r \<rparr>"
  shows "backed ow config (v # h) [] st' \<and>
    (\<forall>info. r = Inr info \<longrightarrow> accepted ow config h es token (io_nowSeconds io x) info)"
proof -
  let ?key = "token_key ow config token FromIntrospection" and ?now = "io_nowSeconds io x"
  obtain hit m where c: "cachedAuthInfo ?key (?now * 1000) (os_tokens st) = (hit, m)" by (metis surj_pair)
  note m = cache_hit_backed [OF c assms(2) assms(3) [symmetric]]
  have v: "vr_exchanges v = es" "vr_token v = token" "vr_now v = ?now" "vr_result v = r" by (simp_all add: assms(4))
  show ?thesis
  proof (cases hit)
    case (Some info)
    then have "es = []" "st' = st\<lparr> os_tokens := m \<rparr>" "r = Inr info"
      using assms(1) by (auto simp: introspection_verify_def c)
    then show ?thesis using m Some backed_recorded [of ow config h es st' v] v(1) by simp
  next
    case None
    obtain r1 cs x1 l1 where run: "runOAuthDependencyWithRetry (introspection_policy config)
        (\<lambda>x. io_nowSeconds (logged io) x * 1000) (introspectionAttempt (logged io) config token)
        (io_pause (logged io) (oc_introspectionRetryDelayMs config)) introspection_failed
        (os_introspectionCircuits st) (x, []) = (r1, cs, (x1, l1))"
      by (metis surj_pair)
    have log: "\<forall>claims. r1 = Inr claims \<longrightarrow> introspection_answer token claims (x1, l1)"
      using asking.run_holds [OF run, of "[]"] by simp
    let ?r = "js_bind r1 (\<lambda>claims. if prop_get claims (js ''active'') \<noteq> Bool True then rejected (js ''Token is inactive'')
      else authInfoFromVerifiedClaims ow token claims config ?now Introspection)"
      and ?st = "st\<lparr> os_tokens := m, os_introspectionCircuits := cs \<rparr>"
    have st: "backed ow config h l1 ?st"
      using backed_mono [of ow config h "[]" _ l1] m by auto
    have vouched: "vouched ow config h l1 FromIntrospection token ?now info" if "?r = Inr info" for info
      using that log by (auto simp: js_bind_Inr introspected_def introspection_answer_def split: if_splits)
    show ?thesis
    proof (cases ?r)
      case (Inl err)
      then have "es = l1" "st' = ?st" "\<exists>err. r = Inl err"
        using assms(1) by (auto simp: introspection_verify_def c None run [simplified])
      then show ?thesis using backed_recorded [OF st, of v] v(1) by auto
    next
      case (Inr info)
      then have f: "es = l1" "r = Inr info"
          "st' = ?st\<lparr> os_tokens := rememberAuthInfo ?key info config (?now * 1000) (os_tokens ?st) \<rparr>"
        using assms(1) by (simp_all add: introspection_verify_def c None run [simplified])
      have "backed ow config (v # h) [] st'"
        using remembered_backed [of ow config h v FromIntrospection info ?st] vouched [OF Inr] st
        unfolding v f by simp
      then show ?thesis using vouched [OF Inr] assms(3) f by (simp add: accepted_def)
    qed
  qed
qed

lemma jwt_verify_backed:
  assumes "jwt_verify (logged io) ow config token st (x, []) = (r, st', (x', es))"
    and "backed ow config h [] st" "verifier_source config = FromJwt"
    and "v = \<lparr> vr_token = token, vr_now = io_nowSeconds io x, vr_exchanges = es, vr_result = r \<rparr>"
  shows "backed ow config (v # h) [] st' \<and>
    (\<forall>info. r = Inr info \<longrightarrow> accepted ow config h es token (io_nowSeconds io x) info)"
proof -
  let ?key = "token_key ow config token FromJwt" and ?now = "io_nowSeconds io x"
  let ?head = "js_bind (parseJwt ow token) (\<lambda>p. js_bind (assertJwtHeader (pj_header p) config) (\<lambda>algorithm.
    js_bind (assertAllowedAlgorithm algorithm (oc_allowedJwtAlgorithms config)) (\<lambda>_. Inr (p, algorithm))))"
  obtain hit m where c: "cachedAuthInfo ?key (?now * 1000) (os_tokens st) = (hit, m)" by (metis surj_pair)
  note m = cache_hit_backed [OF c assms(2) assms(3) [symmetric]]
  have v: "vr_exchanges v = es" "vr_token v = token" "vr_now v = ?now" "vr_result v = r" by (simp_all add: assms(4))
  show ?thesis
  proof (cases "hit = None \<and> (\<exists>q. ?head = Inr q)")
    case False
    have "es = [] \<and> st' = st\<lparr> os_tokens := m \<rparr> \<and> (\<forall>info. r = Inr info \<longrightarrow> hit = Some info)"
    proof (cases hit)
      case None
      then obtain err where "?head = Inl err" using False by (cases ?head) auto
      then show ?thesis using assms(1) None by (auto simp: jwt_verify_def c Let_def)
    next
      case (Some info)
      then show ?thesis using assms(1) by (auto simp: jwt_verify_def c Let_def)
    qed
    then show ?thesis using m backed_recorded [of ow config h es st' v] v(1) by auto
  next
    case True
    then obtain p algorithm where head: "?head = Inr (p, algorithm)" by (metis surj_pair)
    let ?st = "st\<lparr> os_tokens := m \<rparr>"
    obtain r1 st1 x1 l1 where check: "verifySignature (logged io) ow config token (pj_header p) algorithm ?st (x, []) = (r1, st1, (x1, l1))"
      by (metis surj_pair)
    have b: "backed ow config h l1 st1"
        "r1 = Inr True \<Longrightarrow> key_vouches ow config h l1 ?now token (pj_header p) algorithm"
      using verifySignature_backed [OF check] m by auto
    let ?r = "js_bind r1 (\<lambda>good. if \<not> good then rejected (js ''JWT signature is not accepted'')
      else authInfoFromVerifiedClaims ow token (pj_claims p) config ?now (Jwt algorithm (oc_jwtClockSkewSeconds config)))"
    have vouched: "vouched ow config h l1 FromJwt token ?now info" if "?r = Inr info" for info
      using that head b(2) by (auto simp: js_bind_Inr signed_def split: if_splits)
    show ?thesis
    proof (cases ?r)
      case (Inl err)
      then have "es = l1" "st' = st1" "\<exists>err. r = Inl err"
        using assms(1) True head check by (auto simp: jwt_verify_def c Let_def)
      then show ?thesis using backed_recorded [OF b(1), of v] v(1) by auto
    next
      case (Inr info)
      then have f: "es = l1" "r = Inr info"
          "st' = st1\<lparr> os_tokens := rememberAuthInfo ?key info config (?now * 1000) (os_tokens st1) \<rparr>"
        using assms(1) True head check by (simp_all add: jwt_verify_def c Let_def)
      have "backed ow config (v # h) [] st'"
        using remembered_backed [of ow config h v FromJwt info st1] vouched [OF Inr] b(1)
        unfolding v f by simp
      then show ?thesis using vouched [OF Inr] assms(3) f by (simp add: accepted_def)
    qed
  qed
qed

lemma bearer_verify_backed:
  assumes "bearer_verify (logged io) ow config token st (x, []) = (r, st', (x', es))" "backed ow config h [] st"
    and "v = \<lparr> vr_token = token, vr_now = io_nowSeconds io x, vr_exchanges = es, vr_result = r \<rparr>"
  shows "backed ow config (v # h) [] st' \<and>
    (\<forall>info. r = Inr info \<longrightarrow> accepted ow config h es token (io_nowSeconds io x) info)"
proof (cases "hasIntrospectionConfig config")
  case True
  then show ?thesis
    using introspection_verify_backed [OF _ assms(2) _ assms(3)] assms(1)
    by (simp add: bearer_verify_def verifier_source_def)
next
  case no: False
  show ?thesis
  proof (cases "hasJwtConfig config")
    case True
    then show ?thesis
      using no jwt_verify_backed [OF _ assms(2) _ assms(3)] assms(1)
      by (simp add: bearer_verify_def verifier_source_def)
  next
    case False
    then show ?thesis
      using no assms(1) backed_recorded [OF assms(2), of v] assms(3) by (auto simp: bearer_verify_def)
  qed
qed

lemma run_backed: "oauth_run io ow config st x h \<Longrightarrow> backed ow config h [] st"
proof (induction rule: oauth_run.induct)
  case (boot x)
  then show ?case by (simp add: backed_def empty_oauth_state_def)
next
  case (verify st x h token r st' x' es)
  then show ?case using bearer_verify_backed [OF verify.hyps(2) verify.IH refl] by blast
qed

text \<open>
  (C4) No token is accepted unless the authorization server has vouched for it, and not longer ago than allowed.
  Either this verification did it: one of its own introspections calls the token active, or a key verifies the
  signature from a key set that it fetched itself or that was fetched before and whose time to live is not over;
  and the claims pass every check now. Or it made no request, and an earlier verification in the history of the
  process accepted the same principal in that way, for a token with the same keyed label, when the clock showed
  less than the cache's time to live before now; and the token's expiry is still ahead by more than the skew.
\<close>

theorem accepted_token_vouched:
  assumes "oauth_run io ow config st x h"
    and "bearer_verify (logged io) ow config token st (x, []) = (Inr info, st', (x', es))"
  shows "vouched ow config h es (verifier_source config) token (io_nowSeconds io x) info \<or>
    es = [] \<and> (\<exists>later v earlier e. h = later @ v # earlier \<and> vr_result v = Inr info \<and>
       vouched ow config earlier (vr_exchanges v) (verifier_source config) (vr_token v) (vr_now v) info \<and>
       ow_tokenLabel ow (vr_token v) = ow_tokenLabel ow token \<and>
       io_nowSeconds io x < vr_now v + oc_tokenCacheTtlSeconds config \<and>
       ai_expiresAt info = Some e \<and> of_int (io_nowSeconds io x + oc_tokenCacheSkewSeconds config) < e)"
  using bearer_verify_backed [OF assms(2) run_backed [OF assms(1)] refl]
  unfolding accepted_def accepted_before_def by blast

section \<open>A sample verification\<close>

definition sample_introspecting :: oauth_config where
  "sample_introspecting = sample_oauth_config\<lparr> oc_introspectionEndpoint := Some (js ''https://as/introspect''),
     oc_introspectionBearerToken := Some (js ''key''), oc_tokenCacheSkewSeconds := 0 \<rparr>"

definition sample_jwt_world :: jwt_world where
  "sample_jwt_world =
     \<lparr> ow_url = sample_url, ow_tokenLabel = id, jw_json = \<lambda>bs. None, jw_verifies = \<lambda>token algorithm jwk. False \<rparr>"

definition sample_answer :: fetch_result where
  "sample_answer = Responded \<lparr> hr_opaqueredirect = False, hr_status = 200, hr_retryAfter = None, hr_cacheControl = None,
     hr_json = Inr (Obj ((js ''active'', Bool True) # sample_claims)) \<rparr>"

definition sample_io :: "unit oauth_io" where
  "sample_io = \<lparr> io_nowSeconds = \<lambda>x. 49, io_introspect = \<lambda>u a token x. (sample_answer, x),
     io_jwks = \<lambda>u x. (FetchThrew False [], x), io_pause = \<lambda>d x. (True, x) \<rparr>"

lemma sample_attempt:
  "introspectionAttempt (logged sample_io) sample_introspecting token y =
     (Inr ((js ''active'', Bool True) # sample_claims), ((), Introspected token sample_answer # snd y))"
  by (simp add: introspectionAttempt_def sample_io_def introspection_outcome_def sample_answer_def is_redirect_def hr_ok_def)

abbreviation sample_key :: "jsstring \<Rightarrow> jsstring" where
  "sample_key token \<equiv> token_key sample_jwt_world sample_introspecting token FromIntrospection"

lemma sample_verification:
  "\<exists>info st'. bearer_verify (logged sample_io) sample_jwt_world sample_introspecting token empty_oauth_state ((), []) =
     (Inr info, st', ((), [Introspected token sample_answer])) \<and>
     map_get (os_tokens st') (sample_key token) =
       Some \<lparr> te_authInfo = info, te_expiresAtMs = 50000, te_lastAccessMs = 49000 \<rparr>"
proof -
  obtain info where info: "authInfoFromVerifiedClaims sample_jwt_world token ((js ''active'', Bool True) # sample_claims)
      sample_introspecting 49 Introspection = Inr info"
  proof -
    have "\<exists>info. authInfoFromVerifiedClaims sample_jwt_world token ((js ''active'', Bool True) # sample_claims)
      sample_introspecting 49 Introspection = Inr info"
      unfolding acceptance_exact
      by (simp add: sample_jwt_world_def sample_url_def issuer_trusted_def coalesce_def sample_claims_def
          sample_introspecting_def sample_oauth_config_def sample_claim_texts num_value_def granted_scopes_def
          claim_strings_def List.map_filter_simps algorithm_claim_def subject_allowed_def source_subject_def
          subjectClaim_eq js_append [symmetric])
    with that show ?thesis by blast
  qed
  have expiry: "ai_expiresAt info = Some 50"
    using authInfo_Inr [OF info] by (auto simp: accepted_claims_Inr sample_claims_def num_value_def)
  have limits: "oc_tokenCacheMaxEntries sample_introspecting = 2" "oc_tokenCacheTtlSeconds sample_introspecting = 300"
      "oc_tokenCacheSkewSeconds sample_introspecting = 0" "oc_introspectionMaxRetries sample_introspecting = 1"
    by (simp_all add: sample_introspecting_def sample_oauth_config_def)
  have remembered: "rememberAuthInfo k info sample_introspecting 49000 [] =
      [(k, \<lparr> te_authInfo = info, te_expiresAtMs = 50000, te_lastAccessMs = 49000 \<rparr>)]" for k
    by (simp add: rememberAuthInfo_def expiry limits Let_def map_delete_def)
  have "hasIntrospectionConfig sample_introspecting"
    by (simp add: hasIntrospectionConfig_def sample_introspecting_def nonempty_def)
  moreover have "cachedAuthInfo k t (os_tokens empty_oauth_state) = (None, [])" for k t
    by (simp add: cachedAuthInfo_def empty_oauth_state_def)
  ultimately show ?thesis
    using info
    by (simp add: bearer_verify_def introspection_verify_def runOAuthDependencyWithRetry_def retryAfterSeconds_def
        assertOAuthDependencyCircuitClosed_def empty_oauth_state_def introspection_policy_def sample_attempt limits
        numeral_2_eq_2 sample_io_def [THEN arg_cong [where f = io_nowSeconds]] remembered map_get_def)
qed

text \<open>
  The second time the same token is accepted without a request, by the verification at 49 seconds, which has
  the cache's 300 seconds to live.
\<close>

theorem accepted_token_vouched_witness:
  "\<exists>info st' st''. bearer_verify (logged sample_io) sample_jwt_world sample_introspecting (js ''t'') empty_oauth_state ((), []) =
       (Inr info, st', ((), [Introspected (js ''t'') sample_answer])) \<and>
     bearer_verify (logged sample_io) sample_jwt_world sample_introspecting (js ''t'') st' ((), []) = (Inr info, st'', ((), [])) \<and>
     vouched sample_jwt_world sample_introspecting [] [Introspected (js ''t'') sample_answer]
       (verifier_source sample_introspecting) (js ''t'') 49 info \<and> (49::int) < 49 + oc_tokenCacheTtlSeconds sample_introspecting"
proof -
  obtain info st' where v: "bearer_verify (logged sample_io) sample_jwt_world sample_introspecting (js ''t'')
      empty_oauth_state ((), []) = (Inr info, st', ((), [Introspected (js ''t'') sample_answer]))"
    and cached: "map_get (os_tokens st') (sample_key (js ''t'')) =
      Some \<lparr> te_authInfo = info, te_expiresAtMs = 50000, te_lastAccessMs = 49000 \<rparr>"
    using sample_verification by blast
  have now: "io_nowSeconds sample_io x = 49" for x by (simp add: sample_io_def)
  have src: "hasIntrospectionConfig sample_introspecting" "verifier_source sample_introspecting = FromIntrospection"
    by (simp_all add: verifier_source_def hasIntrospectionConfig_def sample_introspecting_def nonempty_def)
  obtain st'' where again: "bearer_verify (logged sample_io) sample_jwt_world sample_introspecting (js ''t'') st' ((), []) =
      (Inr info, st'', ((), []))"
    by (simp add: bearer_verify_def src introspection_verify_def now cachedAuthInfo_def cached Let_def)
  let ?v = "\<lparr> vr_token = js ''t'', vr_now = 49, vr_exchanges = [Introspected (js ''t'') sample_answer], vr_result = Inr info \<rparr>"
  have "oauth_run sample_io sample_jwt_world sample_introspecting st' () [?v]"
    using oauth_run.verify [OF oauth_run.boot v] by (simp add: now)
  from accepted_token_vouched [OF this again] have "\<exists>later v earlier. [?v] = later @ v # earlier \<and>
      vouched sample_jwt_world sample_introspecting earlier (vr_exchanges v) (verifier_source sample_introspecting)
        (vr_token v) (vr_now v) info \<and> 49 < vr_now v + oc_tokenCacheTtlSeconds sample_introspecting"
    by (auto simp: src introspected_def now)
  then have "vouched sample_jwt_world sample_introspecting [] [Introspected (js ''t'') sample_answer]
      (verifier_source sample_introspecting) (js ''t'') 49 info \<and> (49::int) < 49 + oc_tokenCacheTtlSeconds sample_introspecting"
    by (auto simp: Cons_eq_append_conv)
  with v again show ?thesis by blast
qed

end
