(* ===== verification/Oauth_Bounds.thy ===== *)
theory Oauth_Bounds
  imports Oauth_Trust
begin

text \<open>
  Resources of the token verifiers (\<open>src/oauth-resource-server.ts\<close>): the module's maps stay within their
  bounds on every run, a verification calls the authorization server a bounded number of times, and the
  circuit of a dependency is determined by the history of its calls.
\<close>

section \<open>The module's maps are bounded\<close>

text \<open>A map with no key but the given one has at most one entry.\<close>

definition keyed_by :: "jsstring \<Rightarrow> (jsstring, 'v) jsmap \<Rightarrow> bool" where
  "keyed_by k m \<longleftrightarrow> wf_map m \<and> fst ` set m \<subseteq> {k}"

definition within_bounds :: "oauth_config \<Rightarrow> oauth_state \<Rightarrow> bool" where
  "within_bounds config st \<longleftrightarrow>
     [] \<notin> fst ` set (os_tokens st) \<and> int (length (os_tokens st)) \<le> max 0 (oc_tokenCacheMaxEntries config) \<and>
     length (os_unknownKids st) \<le> JWKS_UNKNOWN_KID_CACHE_MAX_ENTRIES \<and>
     keyed_by (configCacheKey config) (os_introspectionCircuits st) \<and>
     keyed_by (jwksCacheKey config) (os_jwks st) \<and> keyed_by (jwksCacheKey config) (os_jwksCircuits st) \<and>
     keyed_by (jwksCacheKey config) (os_lastForced st)"

lemma keyed_by_set [simp]: "keyed_by k m \<Longrightarrow> keyed_by k (map_set k v m)"
  by (simp add: keyed_by_def)

lemma keyed_by_delete [simp]: "keyed_by k m \<Longrightarrow> keyed_by k (map_delete k' m)"
  by (auto simp: keyed_by_def)

lemma keyed_by_length: "keyed_by k m \<Longrightarrow> length m \<le> 1"
proof -
  assume a: "keyed_by k m"
  then have "length m = card (fst ` set m)" "card (fst ` set m) \<le> card {k}"
    by (metis keyed_by_def wf_map_def distinct_card length_map list.set_map)
      (use a in \<open>simp only: keyed_by_def, intro card_mono, simp_all\<close>)
  then show "length m \<le> 1" by simp
qed

lemma length_map_set: "length (map_set k v m) \<le> Suc (length m)"
  by (induction k v m rule: map_set.induct) auto

lemma length_map_delete: "length (map_delete k m) \<le> length m"
  by (simp add: map_delete_def)

lemma run_circuits:
  assumes "runOAuthDependencyWithRetry policy nowMs attempt pause unexpected cs x = (r, cs', x')"
    and "keyed_by (dp_circuitKey policy) cs"
  shows "keyed_by (dp_circuitKey policy) cs'"
  using assms
  by (auto simp: runOAuthDependencyWithRetry_def noteOAuthDependencySuccess_def noteOAuthDependencyFailure_def Let_def
      split: sum.splits prod.splits attempts_end.splits if_splits)

lemma length_without_oldest: "[] \<notin> fst ` set m \<Longrightarrow> m \<noteq> [] \<Longrightarrow> length (without_oldest m) < length m"
  by (cases m) (auto simp: without_oldest_def map_delete_def less_Suc_eq_le)

lemma remember_bounded:
  assumes "key \<noteq> []" "[] \<notin> fst ` set m" "int (length m) \<le> max 0 (oc_tokenCacheMaxEntries config)"
  shows "[] \<notin> fst ` set (rememberAuthInfo key info config nowMs m)" (is ?named)
    "int (length (rememberAuthInfo key info config nowMs m)) \<le> max 0 (oc_tokenCacheMaxEntries config)" (is ?short)
proof -
  show ?named
    using assms(1,2) remember_mem [of _ key info config nowMs m] by force
  have named: "[] \<notin> fst ` set (map_delete key m)" using assms(2) by simp
  have less: "length (without_oldest (map_delete key m)) < length (map_delete key m)" if "map_delete key m \<noteq> []"
    using length_without_oldest [OF named that] .
  have set1: "length (map_set key v (map_delete key m)) \<le> Suc (length (map_delete key m))" for v
    by (rule length_map_set)
  have set2: "length (map_set key v (without_oldest (map_delete key m))) \<le> Suc (length (without_oldest (map_delete key m)))" for v
    by (rule length_map_set)
  have le: "length (map_delete key m) \<le> length m" by (rule length_map_delete)
  let ?n = "oc_tokenCacheMaxEntries config"
  have full: "int (length (map_set key v (without_oldest (map_delete key m)))) \<le> ?n"
    if "?n \<le> int (length (map_delete key m))" "0 < ?n" for v
    using set2 [of v] less le that assms(3) by fastforce
  have room: "int (length (map_set key v (map_delete key m))) \<le> ?n"
    if "int (length (map_delete key m)) < ?n" for v
    using set1 [of v] that by linarith
  show ?short
    using assms(3) full room by (auto simp: rememberAuthInfo_def Let_def not_le split: option.split)
qed

lemma cached_bounded:
  assumes "cachedAuthInfo key nowMs m = (r, m')" "key \<noteq> []" "[] \<notin> fst ` set m" "int (length m) \<le> max 0 n"
  shows "[] \<notin> fst ` set m' \<and> int (length m') \<le> max 0 n"
proof -
  have "length m' \<le> length m"
  proof (cases "map_get m key")
    case (Some entry)
    then have "key \<in> fst ` set m" by (metis map_get_None option.distinct(1))
    then have "Suc (length (map_delete key m)) \<le> length m"
      by (induction m) (auto simp: map_delete_def less_Suc_eq_le)
    then show ?thesis
      using assms(1) Some length_map_set [of key _ "map_delete key m"] length_map_delete [of key m]
      by (auto simp: cachedAuthInfo_def split: if_splits intro: le_trans)
  qed (use assms(1) in \<open>simp add: cachedAuthInfo_def\<close>)
  moreover have "[] \<notin> fst ` set m'"
    using assms(1-3) by (auto simp: cachedAuthInfo_def image_iff split: option.splits if_splits
        dest!: map_set_mem set_map_delete [THEN subsetD])
  ultimately show ?thesis using assms(4) by linarith
qed

text \<open>The loop over attempts keeps what every attempt keeps of the cache of documents.\<close>

interpretation keeping: dependency_client "fetchJwksAttempt io config"
    "\<lambda>y. case io_pause io d (fst y) of (elapsed, x') \<Rightarrow> (elapsed, (x', snd y))"
    "\<lambda>y. keyed_by (jwksCacheKey config) (snd y)" "\<lambda>doc y. True"
  for io config d
proof
  show "keyed_by (jwksCacheKey config) (snd x')"
    if "keyed_by (jwksCacheKey config) (snd x)" "fetchJwksAttempt io config x = (r, x')" for x r x'
    using that by (auto simp: fetchJwksAttempt_def Let_def split: prod.splits sum.splits)
  show "keyed_by (jwksCacheKey config) (snd x')"
    if "keyed_by (jwksCacheKey config) (snd x)"
      "(case io_pause io d (fst x) of (elapsed, x') \<Rightarrow> (elapsed, (x', snd x))) = (elapsed, x')" for x elapsed x'
    using that by (auto split: prod.splits)
qed simp

lemma cachedJwks_bounded:
  assumes "cachedJwks config nowMs st = (r, st')" "within_bounds config st"
  shows "within_bounds config st'"
  using assms by (auto simp: cachedJwks_def Let_def within_bounds_def split: option.splits if_splits)

lemma jwks_lookup_bounded:
  assumes "jwks_lookup io config force st x = (r, st', x')" "within_bounds config st"
  shows "within_bounds config st'"
proof -
  have fetched: "within_bounds config st2"
    if f: "fetchJwks io config st1 x = (r1, st2, x2)" and b: "within_bounds config st1" for st1 r1 st2 x2
  proof -
    obtain cs m where run: "runOAuthDependencyWithRetry (jwks_policy config) (\<lambda>y. io_nowSeconds io (fst y) * 1000)
        (fetchJwksAttempt io config)
        (\<lambda>y. case io_pause io (oc_jwksRetryDelayMs config) (fst y) of (elapsed, x') \<Rightarrow> (elapsed, (x', snd y)))
        (OAuthDependencyError (js ''network_error'') None None) (os_jwksCircuits st1) (x, os_jwks st1)
        = (r1, cs, (x2, m))" and st2: "st2 = st1\<lparr> os_jwksCircuits := cs, os_jwks := m \<rparr>"
      using f by (auto simp: fetchJwks_def split: prod.splits)
    have "keyed_by (jwksCacheKey config) m"
      using keeping.run_holds [OF run] b by (simp add: within_bounds_def)
    moreover have "keyed_by (jwksCacheKey config) cs"
      using run_circuits [OF run] b by (simp add: within_bounds_def jwks_policy_def)
    ultimately show ?thesis using b by (simp add: st2 within_bounds_def)
  qed
  obtain hit st1 where h: "(if force then (None, st) else cachedJwks config (io_nowSeconds io x * 1000) st) = (hit, st1)"
    by (metis surj_pair)
  have b: "within_bounds config st1"
    using h cachedJwks_bounded assms(2) by (auto split: if_splits)
  obtain r1 st2 x2 where f: "fetchJwks io config st1 x = (r1, st2, x2)" by (metis surj_pair)
  show ?thesis
    using assms(1) b fetched [OF f b] unfolding jwks_lookup_def h by (cases hit) (auto simp: f)
qed

lemma bookkeeping_bounded:
  "within_bounds config st \<Longrightarrow> within_bounds config (rememberUnresolvedKid config kid algorithm nowMs st)"
  "within_bounds config st \<Longrightarrow> within_bounds config (noteForcedRefresh config nowMs st)"
  "within_bounds config st \<Longrightarrow> within_bounds config (snd (unresolvedKidCoolingDown config kid algorithm nowMs st))"
proof -
  have "length (map_set k v (trimUnknownKidCache m)) \<le> JWKS_UNKNOWN_KID_CACHE_MAX_ENTRIES"
    if "length m \<le> JWKS_UNKNOWN_KID_CACHE_MAX_ENTRIES" for k :: jsstring and v :: int and m
    using length_map_set [of k v "trimUnknownKidCache m"] that
    by (auto simp: trimUnknownKidCache_def JWKS_UNKNOWN_KID_CACHE_MAX_ENTRIES_def)
  moreover have "length (map_delete k (filter f m)) \<le> JWKS_UNKNOWN_KID_CACHE_MAX_ENTRIES"
    if "length m \<le> JWKS_UNKNOWN_KID_CACHE_MAX_ENTRIES" for k f and m :: "(jsstring, int) jsmap"
    using length_map_delete [of k "filter f m"] length_filter_le [of f m] that by linarith
  ultimately show "within_bounds config st \<Longrightarrow> within_bounds config (rememberUnresolvedKid config kid algorithm nowMs st)"
    by (simp add: within_bounds_def rememberUnresolvedKid_def Let_def)
  show "within_bounds config st \<Longrightarrow> within_bounds config (noteForcedRefresh config nowMs st)"
    by (simp add: within_bounds_def noteForcedRefresh_def)
  show "within_bounds config st \<Longrightarrow> within_bounds config (snd (unresolvedKidCoolingDown config kid algorithm nowMs st))"
    using length_map_delete [of "unknownKidCacheKey config kid algorithm" "os_unknownKids st"]
    by (auto simp: within_bounds_def unresolvedKidCoolingDown_def Let_def split: option.split)
qed

lemma verifySignature_bounded:
  assumes "verifySignature io ow config token header algorithm st x = (r, st', x')" "within_bounds config st"
  shows "within_bounds config st'"
proof (cases "stringClaim (prop_get header (js ''kid''))")
  case None
  then show ?thesis using assms by (auto simp: verifySignature_def)
next
  case kid: (Some kid)
  obtain r1 st1 x1 where one: "jwks_lookup io config False st x = (r1, st1, x1)"
    by (metis surj_pair)
  let ?now = "io_nowSeconds io x1 * 1000"
  obtain cooling st2 where two: "unresolvedKidCoolingDown config kid algorithm ?now st1 = (cooling, st2)"
    by (metis surj_pair)
  obtain r3 st3 x2 where three: "jwks_lookup io config True st2 x1 = (r3, st3, x2)"
    by (metis surj_pair)
  have b: "within_bounds config st1" by (rule jwks_lookup_bounded [OF one assms(2)])
  then have b2: "within_bounds config st2" using bookkeeping_bounded(3) two by (metis snd_conv)
  note b3 = jwks_lookup_bounded [OF three b2]
  show ?thesis
    using assms(1) b b2 b3 bookkeeping_bounded(1) [OF bookkeeping_bounded(2) [OF b3]] bookkeeping_bounded(2) [OF b3]
    by (auto simp: verifySignature_def kid one two three Let_def split: sum.splits if_splits)
qed

lemma tokens_bounded:
  assumes "within_bounds config st" "key = token_key ow config token source"
  shows "cachedAuthInfo key nowMs (os_tokens st) = (hit, m) \<Longrightarrow> within_bounds config (st\<lparr> os_tokens := m \<rparr>)"
    "within_bounds config (st\<lparr> os_tokens := rememberAuthInfo key info config nowMs (os_tokens st) \<rparr>)"
proof -
  have key: "key \<noteq> []" by (simp add: assms(2) token_key_def)
  show "within_bounds config (st\<lparr> os_tokens := m \<rparr>)" if "cachedAuthInfo key nowMs (os_tokens st) = (hit, m)"
    using cached_bounded [OF that key, of "oc_tokenCacheMaxEntries config"] assms(1) by (simp add: within_bounds_def)
  show "within_bounds config (st\<lparr> os_tokens := rememberAuthInfo key info config nowMs (os_tokens st) \<rparr>)"
    using remember_bounded [OF key, of "os_tokens st" config] assms(1) by (simp add: within_bounds_def)
qed

lemma bearer_verify_bounded:
  assumes "bearer_verify io ow config token st x = (r, st', x')" "within_bounds config st"
  shows "within_bounds config st'"
proof -
  have circuits: "within_bounds config (s\<lparr> os_introspectionCircuits := cs \<rparr>)"
    if "within_bounds config s" "keyed_by (configCacheKey config) cs" for s cs
    using that by (simp add: within_bounds_def)
  have introspection: "within_bounds config st'" if v: "introspection_verify io ow config token st x = (r, st', x')"
  proof -
    let ?key = "token_key ow config token FromIntrospection"
    obtain hit m where c: "cachedAuthInfo ?key (io_nowSeconds io x * 1000) (os_tokens st) = (hit, m)" by (metis surj_pair)
    note m = tokens_bounded(1) [OF assms(2) refl c]
    obtain r1 cs x1 where run: "runOAuthDependencyWithRetry (introspection_policy config)
        (\<lambda>x. io_nowSeconds io x * 1000) (introspectionAttempt io config token)
        (io_pause io (oc_introspectionRetryDelayMs config)) introspection_failed
        (os_introspectionCircuits st) x = (r1, cs, x1)"
      by (metis surj_pair)
    have cs: "keyed_by (configCacheKey config) cs"
      using run_circuits [OF run] assms(2) by (simp add: introspection_policy_def within_bounds_def)
    note s = circuits [OF m cs]
    show ?thesis
      using v m s tokens_bounded(2) [OF s refl]
      by (auto simp: introspection_verify_def c run Let_def split: option.splits sum.splits)
  qed
  have jwt: "within_bounds config st'" if v: "jwt_verify io ow config token st x = (r, st', x')"
  proof -
    let ?key = "token_key ow config token FromJwt"
    obtain hit m where c: "cachedAuthInfo ?key (io_nowSeconds io x * 1000) (os_tokens st) = (hit, m)" by (metis surj_pair)
    note m = tokens_bounded(1) [OF assms(2) refl c]
    show ?thesis
      using v m verifySignature_bounded [OF _ m] tokens_bounded(2) [OF verifySignature_bounded [OF _ m] refl]
      by (auto simp: jwt_verify_def c Let_def split: option.splits sum.splits prod.splits)
  qed
  show ?thesis
    using assms introspection jwt by (auto simp: bearer_verify_def split: if_splits)
qed

text \<open>
  (C24) Whatever tokens a process is shown, its caches stay bounded: at most the configured number of verified
  tokens, a thousand unknown keys, and one key set, one forced refresh and one circuit of each kind.
\<close>

theorem oauth_caches_bounded:
  assumes "oauth_run io ow config st x h"
  shows "int (length (os_tokens st)) \<le> max 0 (oc_tokenCacheMaxEntries config) \<and>
    length (os_unknownKids st) \<le> 1000 \<and> length (os_jwks st) \<le> 1 \<and> length (os_lastForced st) \<le> 1 \<and>
    length (os_introspectionCircuits st) \<le> 1 \<and> length (os_jwksCircuits st) \<le> 1"
proof -
  have "within_bounds config st"
    using assms
  proof (induction rule: oauth_run.induct)
    case (boot x)
    then show ?case by (simp add: within_bounds_def empty_oauth_state_def keyed_by_def)
  next
    case (verify st x h token r st' x' es)
    then show ?case using bearer_verify_bounded [OF verify.hyps(2)] by simp
  qed
  then show ?thesis
    by (auto simp: within_bounds_def JWKS_UNKNOWN_KID_CACHE_MAX_ENTRIES_def intro: keyed_by_length [unfolded One_nat_def])
qed

section \<open>Calls of the authorization server\<close>

text \<open>The same world with a counter of attempts.\<close>

definition counted :: "('x \<Rightarrow> 'r \<times> 'x) \<Rightarrow> 'x \<times> nat \<Rightarrow> 'r \<times> ('x \<times> nat)" where
  "counted attempt y = (case attempt (fst y) of (r, x') \<Rightarrow> (r, (x', Suc (snd y))))"

definition uncounted :: "('x \<Rightarrow> bool \<times> 'x) \<Rightarrow> 'x \<times> nat \<Rightarrow> bool \<times> ('x \<times> nat)" where
  "uncounted pause y = (case pause (fst y) of (elapsed, x') \<Rightarrow> (elapsed, (x', snd y)))"

lemma delay_uncounted:
  "oauthDependencyRetryDelay d (uncounted pause) y = (r, y') \<Longrightarrow> snd y' = snd y"
  by (auto simp: oauthDependencyRetryDelay_def uncounted_def split: if_splits prod.splits)

lemma attempts_counted:
  "dependency_attempts (counted attempt) (oauthDependencyRetryDelay d (uncounted pause)) unexpected n y = (result, y') \<Longrightarrow>
     snd y \<le> snd y' \<and> snd y' \<le> snd y + n"
proof (induction n arbitrary: y)
  case (Suc n)
  obtain r x1 where a: "attempt (fst y) = (r, x1)" by (metis surj_pair)
  let ?y = "(x1, Suc (snd y))"
  obtain dr y2 where d: "oauthDependencyRetryDelay d (uncounted pause) ?y = (dr, y2)" by (metis surj_pair)
  have y2: "snd y2 = Suc (snd y)" using delay_uncounted [OF d] by simp
  note c = counted_def a d
  show ?case
  proof (cases r)
    case (Inl e)
    then show ?thesis
      using Suc.prems Suc.IH [of y2] y2 by (cases e; cases dr) (auto simp: c split: if_splits)
  next
    case (Inr v)
    then show ?thesis using Suc.prems by (auto simp: c)
  qed
qed simp

text \<open>
  A verification bothers the authorization server with at most one request more than the configured retries,
  and with none at all while its circuit is open: it fails at once with the seconds to wait.
\<close>

theorem dependency_calls_bounded:
  assumes "runOAuthDependencyWithRetry policy nowMs (counted attempt) (uncounted pause) unexpected cs y = (r, cs', y')"
  shows "snd y \<le> snd y' \<and> snd y' \<le> snd y + nat (dp_maxRetries policy + 1) \<and>
    (\<forall>seconds. retryAfterSeconds policy (nowMs y) cs = Some seconds \<longrightarrow>
       y' = y \<and> cs' = cs \<and> r = Inl (open_circuit None seconds))"
proof -
  obtain result z where d: "dependency_attempts (counted attempt)
      (oauthDependencyRetryDelay (dp_retryDelayMs policy) (uncounted pause)) unexpected (nat (dp_maxRetries policy + 1)) y = (result, z)"
    by (metis surj_pair)
  show ?thesis
    using assms attempts_counted [OF d]
    by (auto simp: runOAuthDependencyWithRetry_def assertOAuthDependencyCircuitClosed_def d
        split: option.splits attempts_end.splits prod.splits)
qed

section \<open>The circuit of a dependency\<close>

text \<open>What a call leaves in the history of its dependency, the latest event first.\<close>

datatype dependency_event = CallSucceeded | CallFailed int

definition call_events ::
  "dependency_policy \<Rightarrow> ('x \<Rightarrow> int) \<Rightarrow> ('x \<Rightarrow> (oauth_failure + 'a) \<times> 'x) \<Rightarrow> ('x \<Rightarrow> bool \<times> 'x) \<Rightarrow> oauth_failure \<Rightarrow>
     circuits \<Rightarrow> 'x \<Rightarrow> dependency_event list" where
  "call_events policy nowMs attempt pause unexpected cs x =
     (if retryAfterSeconds policy (nowMs x) cs \<noteq> None then []
      else (case dependency_attempts attempt (oauthDependencyRetryDelay (dp_retryDelayMs policy) pause) unexpected
              (nat (dp_maxRetries policy + 1)) x of
          (Succeeded r, x') \<Rightarrow> [CallSucceeded] | (GaveUp e, x') \<Rightarrow> [CallFailed (nowMs x')] | (Thrown e, x') \<Rightarrow> []))"

inductive dependency_history ::
  "dependency_policy \<Rightarrow> ('x \<Rightarrow> int) \<Rightarrow> ('x \<Rightarrow> (oauth_failure + 'a) \<times> 'x) \<Rightarrow> ('x \<Rightarrow> bool \<times> 'x) \<Rightarrow> oauth_failure \<Rightarrow>
     dependency_event list \<Rightarrow> circuits \<Rightarrow> bool"
  for policy nowMs attempt pause unexpected where
  no_call: "dependency_history policy nowMs attempt pause unexpected [] []"
| call: "dependency_history policy nowMs attempt pause unexpected es cs \<Longrightarrow>
    runOAuthDependencyWithRetry policy nowMs attempt pause unexpected cs x = (r, cs', x') \<Longrightarrow>
    dependency_history policy nowMs attempt pause unexpected
      (call_events policy nowMs attempt pause unexpected cs x @ es) cs'"

text \<open>The times of the failures since the last success.\<close>

fun recent_failures :: "dependency_event list \<Rightarrow> int list" where
  "recent_failures [] = []"
| "recent_failures (CallSucceeded # es) = []"
| "recent_failures (CallFailed t # es) = t # recent_failures es"

definition circuit_of :: "dependency_policy \<Rightarrow> int list \<Rightarrow> dependency_circuit option" where
  "circuit_of policy ts =
     (case ts of [] \<Rightarrow> None
      | t # r \<Rightarrow> Some \<lparr> dc_failures = int (length ts),
          dc_openedUntilMs = (if dp_circuitFailures policy \<le> int (length ts) then t + dp_circuitOpenMs policy else 0) \<rparr>)"

lemma history_circuit:
  "dependency_history policy nowMs attempt pause unexpected es cs \<Longrightarrow>
     map_get cs (dp_circuitKey policy) = circuit_of policy (recent_failures es)"
proof (induction rule: dependency_history.induct)
  case no_call
  then show ?case by (simp add: circuit_of_def)
next
  case (call es cs x r cs' x')
  obtain result z where d: "dependency_attempts attempt
      (oauthDependencyRetryDelay (dp_retryDelayMs policy) pause) unexpected (nat (dp_maxRetries policy + 1)) x = (result, z)"
    by (metis surj_pair)
  show ?case
  proof (cases "retryAfterSeconds policy (nowMs x) cs")
    case (Some seconds)
    then show ?thesis
      using call by (simp add: call_events_def runOAuthDependencyWithRetry_def assertOAuthDependencyCircuitClosed_def)
  next
    case None
    note e = call_events_def runOAuthDependencyWithRetry_def assertOAuthDependencyCircuitClosed_def None d
    show ?thesis
    proof (cases result)
      case (Succeeded v)
      then have "cs' = noteOAuthDependencySuccess policy cs" using call.hyps(2) by (simp add: e)
      with Succeeded show ?thesis by (simp add: e noteOAuthDependencySuccess_def circuit_of_def)
    next
      case (GaveUp err)
      then have "cs' = snd (noteOAuthDependencyFailure policy (nowMs z) err cs)"
        using call.hyps(2) by (auto simp: e split: prod.splits)
      with GaveUp call.IH show ?thesis
        by (simp add: e noteOAuthDependencyFailure_def Let_def circuit_of_def split: list.split)
    next
      case (Thrown err)
      then show ?thesis using call by (simp add: e)
    qed
  qed
qed

text \<open>
  (C23) The circuit of a dependency is exactly its history: a call is refused if and only if at least the
  configured number of calls have failed since the last success and the last failure lies less than the
  open time back; refused calls and aborted ones do not count.
\<close>

theorem circuit_history_exact:
  assumes "dependency_history policy nowMs attempt pause unexpected es cs" "0 \<le> now"
  shows "assertOAuthDependencyCircuitClosed policy now cs =
    (case recent_failures es of
       [] \<Rightarrow> Inr ()
     | t # ts \<Rightarrow>
         if dp_circuitFailures policy \<le> int (length (t # ts)) \<and> now < t + dp_circuitOpenMs policy
         then Inl (open_circuit None (whole_seconds (t + dp_circuitOpenMs policy - now))) else Inr ())"
  using assms(2)
  by (simp add: assertOAuthDependencyCircuitClosed_def retryAfterSeconds_def history_circuit [OF assms(1)]
      circuit_of_def split: list.split)

section \<open>Samples\<close>

theorem oauth_caches_bounded_witness:
  "\<exists>info st'. bearer_verify (logged sample_io) sample_jwt_world sample_introspecting (js ''t'') empty_oauth_state ((), []) =
     (Inr info, st', ((), [Introspected (js ''t'') sample_answer])) \<and> int (length (os_tokens st')) \<le> 2"
proof -
  obtain info st' where v: "bearer_verify (logged sample_io) sample_jwt_world sample_introspecting (js ''t'')
      empty_oauth_state ((), []) = (Inr info, st', ((), [Introspected (js ''t'') sample_answer]))"
    using sample_verification by blast
  have "oc_tokenCacheMaxEntries sample_introspecting = 2"
    by (simp add: sample_introspecting_def sample_oauth_config_def)
  with oauth_caches_bounded [OF oauth_run.verify [OF oauth_run.boot v]] v show ?thesis by auto
qed

text \<open>A dependency that always times out: two attempts a call, and after two calls the circuit opens.\<close>

definition sample_policy :: dependency_policy where
  "sample_policy = \<lparr> dp_maxRetries = 1, dp_retryDelayMs = 0, dp_circuitFailures = 2, dp_circuitOpenMs = 1000,
     dp_circuitKey = js ''d'' \<rparr>"

definition timing_out :: "'x \<Rightarrow> (oauth_failure + unit) \<times> 'x" where
  "timing_out x = (unavailable (js ''timeout''), x)"

definition sample_run ::
  "circuits \<Rightarrow> int \<times> nat \<Rightarrow> (oauth_failure + unit) \<times> circuits \<times> (int \<times> nat)" where
  "sample_run cs y = runOAuthDependencyWithRetry sample_policy fst (counted timing_out) (uncounted (Pair True)) request_aborted cs y"

lemma sample_first: "sample_run [] (7, 0) =
    (unavailable (js ''timeout''), [(js ''d'', \<lparr> dc_failures = 1, dc_openedUntilMs = 0 \<rparr>)], (7, 2))"
  by (simp add: sample_run_def runOAuthDependencyWithRetry_def assertOAuthDependencyCircuitClosed_def retryAfterSeconds_def
      sample_policy_def counted_def timing_out_def isRetryableOAuthDependencyError_def oauthDependencyRetryDelay_def
      noteOAuthDependencyFailure_def Let_def numeral_2_eq_2 js_simps)

lemma sample_second: "sample_run [(js ''d'', \<lparr> dc_failures = 1, dc_openedUntilMs = 0 \<rparr>)] (7, 2) =
    (Inl (open_circuit None 1), [(js ''d'', \<lparr> dc_failures = 2, dc_openedUntilMs = 1007 \<rparr>)], (7, 4))"
  by (simp add: sample_run_def runOAuthDependencyWithRetry_def assertOAuthDependencyCircuitClosed_def retryAfterSeconds_def
      sample_policy_def counted_def timing_out_def isRetryableOAuthDependencyError_def oauthDependencyRetryDelay_def
      noteOAuthDependencyFailure_def Let_def numeral_2_eq_2 js_simps map_get_def whole_seconds_def)

theorem dependency_calls_bounded_witness:
  "\<exists>r cs. sample_run [] (7, 0) = (r, cs, (7, 2)) \<and> (2::nat) \<le> 0 + nat (dp_maxRetries sample_policy + 1)"
  using dependency_calls_bounded [OF sample_first [unfolded sample_run_def]] sample_first by auto

theorem circuit_history_exact_witness:
  "assertOAuthDependencyCircuitClosed sample_policy 1006 [(js ''d'', \<lparr> dc_failures = 2, dc_openedUntilMs = 1007 \<rparr>)]
     = Inl (open_circuit None 1) \<and>
   assertOAuthDependencyCircuitClosed sample_policy 1007 [(js ''d'', \<lparr> dc_failures = 2, dc_openedUntilMs = 1007 \<rparr>)]
     = Inr ()"
proof -
  let ?events = "call_events sample_policy fst (counted timing_out) (uncounted (Pair True)) request_aborted"
  have one: "?events [] (7, 0) = [CallFailed 7]"
    and two: "?events [(js ''d'', \<lparr> dc_failures = 1, dc_openedUntilMs = 0 \<rparr>)] (7, 2) = [CallFailed 7]"
    by (simp_all add: call_events_def retryAfterSeconds_def sample_policy_def counted_def timing_out_def
        isRetryableOAuthDependencyError_def oauthDependencyRetryDelay_def numeral_2_eq_2 js_simps map_get_def)
  note h1 = dependency_history.call [OF dependency_history.no_call sample_first [unfolded sample_run_def], unfolded one]
  note h2 = dependency_history.call [OF h1 sample_second [unfolded sample_run_def], unfolded two]
  show ?thesis
    using circuit_history_exact [OF h2, of 1006] circuit_history_exact [OF h2, of 1007]
    by (simp add: sample_policy_def whole_seconds_def)
qed

end
