(* ===== verification/Http_Gate.thy ===== *)
theory Http_Gate
  imports Credential_Routing Admission Token_Bucket
begin

text \<open>
  The decisions of the HTTP request pipeline on one request (\<open>src/http-fetch-handler.ts\<close>,
  \<open>src/utils/http-body-limit.ts\<close>): the Host and Origin policy, health probes from the loopback, the
  headers that reach the SDK, the body cap, the protocol preflight, and the answers to failures of
  credential resolution. A request is its method, the path and host of its URL, and its headers as
  \<open>Headers\<close> iterates them: names in lower case, each once. The parser of origins, the decoder of
  bodies and the SDK's classifiers are parameters.
\<close>

section \<open>Requests and answers\<close>

record web_request =
  wr_method :: jsstring
  wr_pathname :: jsstring
  wr_urlHost :: jsstring
  wr_headers :: "(jsstring \<times> jsstring) list"
  wr_authInfo :: "auth_info option"
  wr_remoteAddress :: "jsstring option"
  wr_allowLoopbackHealthProbe :: bool

definition req_header :: "web_request \<Rightarrow> jsstring \<Rightarrow> jsstring option" where
  "req_header rq name = map_of (wr_headers rq) name"

record http_reply =
  rp_status :: nat
  rp_body :: jsval
  rp_headers :: "(jsstring \<times> jsstring) list"

definition jsonResponse :: "nat \<Rightarrow> jsval \<Rightarrow> (jsstring \<times> jsstring) list \<Rightarrow> http_reply" where
  "jsonResponse st body headers =
     \<lparr> rp_status = st, rp_body = body, rp_headers = (js ''Content-Type'', js ''application/json'') # headers \<rparr>"

definition error_body :: "jsstring \<Rightarrow> jsval" where
  "error_body m = Obj [(js ''error'', Str m)]"

definition retry_soon :: "(jsstring \<times> jsstring) list" where
  "retry_soon = [(js ''Retry-After'', js ''1'')]"

definition deriveRateKey :: "jsstring \<Rightarrow> jsstring" where
  "deriveRateKey cacheKey = js ''rate:'' @ cacheKey"

section \<open>Hosts and origins\<close>

definition csvEnv :: "env \<Rightarrow> jsstring \<Rightarrow> jsstring list" where
  "csvEnv env name =
     filter (\<lambda>s. s \<noteq> []) (map js_trim (split_on 44 (case env name of Some v \<Rightarrow> v | None \<Rightarrow> [])))"

text \<open>A text that ends in a colon and digits, split there.\<close>

definition port_suffix :: "jsstring \<Rightarrow> (jsstring \<times> jsstring) option" where
  "port_suffix s =
     (let ds = takeWhile is_digit (rev s) in
      case dropWhile is_digit (rev s) of
        c # r \<Rightarrow> if ds \<noteq> [] \<and> c = 58 then Some (rev r, rev ds) else None
      | [] \<Rightarrow> None)"

definition without_port :: "jsstring \<Rightarrow> jsstring" where
  "without_port s = (case port_suffix s of Some (h, p) \<Rightarrow> h | None \<Rightarrow> s)"

definition hostWithoutPort :: "jsstring \<Rightarrow> jsstring" where
  "hostWithoutPort host =
     (let t = js_trim host in
      if t = [] then []
      else if prefix [91] t then without_port t
      else if 1 < length (filter (\<lambda>c. c = 58) t) then t
      else without_port t)"

definition hostIncludesPort :: "jsstring \<Rightarrow> bool" where
  "hostIncludesPort host =
     (let t = js_trim host in
      case port_suffix t of
        None \<Rightarrow> False
      | Some (h, p) \<Rightarrow> if prefix [91] t then suffix [93] h else h \<noteq> [] \<and> 58 \<notin> set h)"

text \<open>The host name and the port of a URL; an absent port is the empty text.\<close>

record origin_parts =
  og_hostname :: jsstring
  og_port :: jsstring

definition originHostname :: "(jsstring \<Rightarrow> origin_parts option) \<Rightarrow> jsstring \<Rightarrow> jsstring" where
  "originHostname parse org = (case parse org of Some p \<Rightarrow> og_hostname p | None \<Rightarrow> [])"

definition originHostWithOptionalPort :: "(jsstring \<Rightarrow> origin_parts option) \<Rightarrow> jsstring \<Rightarrow> jsstring" where
  "originHostWithOptionalPort parse org =
     (case parse org of
        None \<Rightarrow> []
      | Some p \<Rightarrow>
          if og_hostname p = [] then []
          else if og_port p \<noteq> [] then og_hostname p @ [58] @ og_port p else og_hostname p)"

definition hostMatchesAllowed :: "jsstring \<Rightarrow> jsstring list \<Rightarrow> bool" where
  "hostMatchesAllowed host allowedHosts \<longleftrightarrow>
     (\<exists>allowed \<in> set allowedHosts.
        allowed = host \<or> \<not> hostIncludesPort allowed \<and> hostWithoutPort allowed = hostWithoutPort host)"

definition originMatchesAllowedHost :: "(jsstring \<Rightarrow> origin_parts option) \<Rightarrow> jsstring \<Rightarrow> jsstring list \<Rightarrow> bool" where
  "originMatchesAllowedHost parse org allowedHosts \<longleftrightarrow>
     (let parsedHost = originHostWithOptionalPort parse org; parsedHostname = hostWithoutPort parsedHost in
      parsedHost \<noteq> [] \<and> parsedHostname \<noteq> [] \<and>
      (\<exists>allowed \<in> set allowedHosts.
         allowed = parsedHost \<or> \<not> hostIncludesPort allowed \<and> hostWithoutPort allowed = parsedHostname))"

definition LOCALHOST_NAMES :: "jsstring list" where
  "LOCALHOST_NAMES = [js ''localhost'', js ''127.0.0.1'', js ''::1'', js ''[::1]'']"

text \<open>\<open>127\<close> and three groups of one to three digits, after an optional \<open>::ffff:\<close>.\<close>

definition loopback_ipv4 :: "jsstring \<Rightarrow> bool" where
  "loopback_ipv4 s \<longleftrightarrow>
     (let t = (if prefix (js ''::ffff:'') s then drop 7 s else s) in
      case split_on 46 t of
        [a, b, c, d] \<Rightarrow> a = js ''127'' \<and>
          list_all (\<lambda>g. 1 \<le> length g \<and> length g \<le> 3 \<and> list_all is_digit g) [b, c, d]
      | _ \<Rightarrow> False)"

definition isLoopbackRemoteAddress :: "jsstring option \<Rightarrow> bool" where
  "isLoopbackRemoteAddress address =
     (case nonempty address of
        None \<Rightarrow> False
      | Some a \<Rightarrow> a = js ''::1'' \<or> a = js ''0:0:0:0:0:0:0:1'' \<or> loopback_ipv4 a)"

definition isLoopbackHostName :: "jsstring \<Rightarrow> bool" where
  "isLoopbackHostName hostname \<longleftrightarrow> hostname \<in> set LOCALHOST_NAMES \<or> loopback_ipv4 hostname"

definition isLoopbackHealthProbe :: "(jsstring \<Rightarrow> origin_parts option) \<Rightarrow> web_request \<Rightarrow> bool" where
  "isLoopbackHealthProbe parse rq =
     (if \<not> isLoopbackRemoteAddress (wr_remoteAddress rq) then False
      else let host = (case req_header rq (js ''host'') of Some h \<Rightarrow> h | None \<Rightarrow> wr_urlHost rq) in
      if \<not> isLoopbackHostName (hostWithoutPort host) then False
      else (case nonempty (req_header rq (js ''origin'')) of
              None \<Rightarrow> True | Some org \<Rightarrow> isLoopbackHostName (originHostname parse org)))"

definition hostOriginAllowed :: "(jsstring \<Rightarrow> origin_parts option) \<Rightarrow> env \<Rightarrow> web_request \<Rightarrow> bool" where
  "hostOriginAllowed parse env rq =
     (let allowedHosts = csvEnv env (js ''B2_ALLOWED_HOSTS'');
          allowedOrigins = csvEnv env (js ''B2_ALLOWED_ORIGINS'') in
      case nonempty (req_header rq (js ''host'')) of
        None \<Rightarrow> False
      | Some host \<Rightarrow>
          if allowedHosts \<noteq> [] \<and> \<not> hostMatchesAllowed host allowedHosts then False
          else (case nonempty (req_header rq (js ''origin'')) of
                  Some org \<Rightarrow>
                    if allowedOrigins \<noteq> [] then org \<in> set allowedOrigins
                    else if allowedHosts \<noteq> [] then originMatchesAllowedHost parse org allowedHosts
                    else originHostname parse org \<in> set LOCALHOST_NAMES
                | None \<Rightarrow>
                    if allowedHosts = [] \<and> allowedOrigins = [] then hostWithoutPort host \<in> set LOCALHOST_NAMES
                    else True))"

section \<open>Headers\<close>

definition SDK_HEADER_ALLOWLIST :: "jsstring list" where
  "SDK_HEADER_ALLOWLIST =
     [js ''accept'', js ''content-type'', js ''content-length'', js ''last-event-id'', js ''traceparent'',
      js ''tracestate'', js ''baggage'']"

definition sdkHeaderAllowed :: "jsstring \<Rightarrow> bool" where
  "sdkHeaderAllowed name \<longleftrightarrow>
     ascii_lower name \<in> set SDK_HEADER_ALLOWLIST \<or> prefix (js ''mcp-'') (ascii_lower name)"

type_synonym sdk_headers = "(jsstring, jsstring) jsmap"

definition sanitizedHeadersFromRequest :: "web_request \<Rightarrow> sdk_headers" where
  "sanitizedHeadersFromRequest rq = filter (\<lambda>(name, v). sdkHeaderAllowed name) (wr_headers rq)"

definition headersToIncoming :: "web_request \<Rightarrow> http_headers" where
  "headersToIncoming rq = map (\<lambda>(name, v). (ascii_lower name, HeaderText v)) (wr_headers rq)"

definition makeCredentialRequest :: "web_request \<Rightarrow> http_request" where
  "makeCredentialRequest rq = \<lparr> rq_headers = headersToIncoming rq, rq_auth = wr_authInfo rq \<rparr>"

text \<open>
  The address that keys the limits before a credential is known. The proxy's headers count only when they are trusted.
\<close>

definition first_nonblank :: "jsstring option list \<Rightarrow> jsstring option" where
  "first_nonblank vs = (case List.map_filter (\<lambda>v. nonempty (map_option js_trim v)) vs of [] \<Rightarrow> None | v # r \<Rightarrow> Some v)"

definition requestLimitKey :: "env \<Rightarrow> web_request \<Rightarrow> jsstring" where
  "requestLimitKey env rq =
     (let trust = env (js ''B2_TRUST_PROXY_HEADERS'') = Some (js ''true'');
          forwarded = (if trust then map_option (\<lambda>v. hd (split_on 44 v)) (req_header rq (js ''x-forwarded-for'')) else None);
          realIp = (if trust then req_header rq (js ''x-real-ip'') else None)
      in js ''http:'' @ (case first_nonblank [forwarded, realIp, wr_remoteAddress rq] of
           Some a \<Rightarrow> a | None \<Rightarrow> js ''unknown''))"

section \<open>Bodies\<close>

definition MAX_MCP_BODY_BYTES :: nat where
  "MAX_MCP_BODY_BYTES = 1048576"

definition contentLengthExceedsLimit :: "web_request \<Rightarrow> bool" where
  "contentLengthExceedsLimit rq =
     (case nonempty (req_header rq (js ''content-length'')) of
        None \<Rightarrow> False
      | Some raw \<Rightarrow> (case js_number raw of Finite n \<Rightarrow> of_nat MAX_MCP_BODY_BYTES < n | _ \<Rightarrow> False))"

text \<open>The reading loop over the chunks of a body; the first argument is what was read.\<close>

fun read_capped :: "nat list \<Rightarrow> nat list list \<Rightarrow> nat list option" where
  "read_capped acc [] = Some acc"
| "read_capped acc (chunk # chunks) =
     (if MAX_MCP_BODY_BYTES < length acc + length chunk then None else read_capped (acc @ chunk) chunks)"

definition readCappedBodyBytes :: "web_request \<Rightarrow> nat list list option \<Rightarrow> nat list option" where
  "readCappedBodyBytes rq body =
     (if contentLengthExceedsLimit rq then None
      else case body of None \<Rightarrow> Some [] | Some chunks \<Rightarrow> read_capped [] chunks)"

section \<open>The protocol preflight\<close>

datatype inbound_outcome = InboundReject | InboundLegacy | InboundModern jsstring

record http_world =
  hw_creds :: cred_world
  hw_origin :: "jsstring \<Rightarrow> origin_parts option"
  hw_decode :: "nat list \<Rightarrow> jsstring"
  hw_isJsonContentType :: "jsstring option \<Rightarrow> bool"
  hw_classify :: "jsstring option \<Rightarrow> jsstring option \<Rightarrow> jsstring option \<Rightarrow> jsval \<Rightarrow> inbound_outcome"
  hw_mode :: credential_mode
  hw_rate :: rate_config
  hw_maxTotal :: nat
  hw_maxPerKey :: nat
  hw_sweepOnRequest :: bool
  hw_version :: jsstring

abbreviation hw_env :: "http_world \<Rightarrow> env" where
  "hw_env w \<equiv> cw_env (hw_creds w)"

text \<open>A parsed body: \<open>None\<close> when the text is not JSON; no text is undefined.\<close>

definition parsedJsonBody :: "http_world \<Rightarrow> jsstring option \<Rightarrow> jsval option" where
  "parsedJsonBody w raw =
     (case nonempty raw of None \<Rightarrow> Some Undefined | Some s \<Rightarrow> cw_json_parse (hw_creds w) s)"

fun body_record :: "jsval \<Rightarrow> jsprops" where
  "body_record (Obj ps) = ps"
| "body_record _ = []"

definition requestIdFromParsedBody :: "jsval \<Rightarrow> jsval" where
  "requestIdFromParsedBody body =
     (case prop_get (body_record body) (js ''id'') of Str s \<Rightarrow> Str s | Num n \<Rightarrow> Num n | _ \<Rightarrow> Null)"

definition text_value :: "jsval \<Rightarrow> jsstring option" where
  "text_value v = (case v of Str s \<Rightarrow> Some s | _ \<Rightarrow> None)"

definition requestMethodFromParsedBody :: "jsval \<Rightarrow> jsstring option" where
  "requestMethodFromParsedBody body = text_value (prop_get (body_record body) (js ''method''))"

definition toolNameFromParsedBody :: "jsval \<Rightarrow> jsstring option" where
  "toolNameFromParsedBody body =
     text_value (prop_get (body_record (prop_get (body_record body) (js ''params''))) (js ''name''))"

definition DISCOVERY_METHODS :: "jsstring list" where
  "DISCOVERY_METHODS =
     [js ''initialize'', js ''notifications/initialized'', js ''ping'', js ''prompts/get'', js ''prompts/list'',
      js ''resources/list'', js ''resources/read'', js ''resources/templates/list'', js ''server/discover'',
      js ''tools/list'', js ''tools/call'']"

definition mayDispatchToDiscoveryServer :: "jsstring option \<Rightarrow> bool" where
  "mayDispatchToDiscoveryServer m \<longleftrightarrow> (\<exists>t. m = Some t \<and> t \<in> set DISCOVERY_METHODS)"

definition MODERN_MCP_PROTOCOL_VERSION :: jsstring where
  "MODERN_MCP_PROTOCOL_VERSION = js ''2026-07-28''"

definition error_number :: "int \<Rightarrow> jsval" where
  "error_number n = Num (case num_of_nat (nat \<bar>n\<bar>) of Fin b s e \<Rightarrow> Fin (n < 0) s e | x \<Rightarrow> x)"

definition jsonRpcErrorBody :: "int \<Rightarrow> jsstring \<Rightarrow> jsval \<Rightarrow> jsprops \<Rightarrow> jsval" where
  "jsonRpcErrorBody err m reqId info =
     Obj [(js ''jsonrpc'', Str (js ''2.0'')),
          (js ''error'', Obj ([(js ''code'', error_number err), (js ''message'', Str m)] @
             (if info = [] then [] else [(js ''data'', Obj info)]))),
          (js ''id'', reqId)]"

datatype credential_error_shape = PlainError | JsonRpcError jsval

record protocol_preflight =
  pp_protocolOnly :: bool
  pp_credError :: credential_error_shape
  pp_rejection :: "http_reply option"
  pp_sdkHeaders :: "sdk_headers option"

definition plainPreflight :: "bool \<Rightarrow> protocol_preflight" where
  "plainPreflight only =
     \<lparr> pp_protocolOnly = only, pp_credError = PlainError, pp_rejection = None, pp_sdkHeaders = None \<rparr>"

definition default_header :: "jsstring \<Rightarrow> jsstring \<Rightarrow> sdk_headers \<Rightarrow> sdk_headers" where
  "default_header name v headers = (if map_get headers name = None then map_set name v headers else headers)"

definition inferredModernHeaders :: "sdk_headers \<Rightarrow> jsstring \<Rightarrow> jsval \<Rightarrow> sdk_headers" where
  "inferredModernHeaders headers revision body =
     (let bodyMethod = nonempty (requestMethodFromParsedBody body);
          bodyName = nonempty (toolNameFromParsedBody body);
          h1 = default_header (js ''mcp-protocol-version'') revision headers;
          h2 = (case bodyMethod of Some m \<Rightarrow> default_header (js ''mcp-method'') m h1 | None \<Rightarrow> h1)
      in case (bodyMethod = Some (js ''tools/call''), bodyName) of
           (True, Some n) \<Rightarrow> default_header (js ''mcp-name'') n h2 | _ \<Rightarrow> h2)"

definition name_mismatch :: "jsval \<Rightarrow> jsstring \<Rightarrow> jsstring option \<Rightarrow> http_reply" where
  "name_mismatch reqId headerName bodyName =
     jsonResponse 400 (jsonRpcErrorBody (- 32020) (js ''Bad Request: Mcp-Name header does not match tool name'') reqId
       [(js ''mismatch'', Obj [(js ''header'', Str headerName),
          (js ''body'', case bodyName of Some n \<Rightarrow> Str n | None \<Rightarrow> Null)])]) []"

definition classifyProtocolPreflight :: "http_world \<Rightarrow> web_request \<Rightarrow> jsval option \<Rightarrow> protocol_preflight" where
  "classifyProtocolPreflight w rq parsed_body =
     (let headers = sanitizedHeadersFromRequest rq; m = ascii_upper (wr_method rq) in
      if m = js ''GET'' \<or> m = js ''DELETE'' then plainPreflight True
      else if m \<noteq> js ''POST'' then plainPreflight False
      else if \<not> hw_isJsonContentType w (map_get headers (js ''content-type'')) then plainPreflight True
      else (case parsed_body of
        None \<Rightarrow> plainPreflight False
      | Some body \<Rightarrow>
          (case hw_classify w (map_get headers (js ''mcp-protocol-version'')) (map_get headers (js ''mcp-method''))
                  (map_get headers (js ''mcp-name'')) body of
             InboundReject \<Rightarrow> plainPreflight True
           | InboundLegacy \<Rightarrow> plainPreflight False
           | InboundModern revision \<Rightarrow>
               if revision \<noteq> MODERN_MCP_PROTOCOL_VERSION then plainPreflight True
               else (let reqId = requestIdFromParsedBody body;
                         bodyName = toolNameFromParsedBody body;
                         ok = \<lparr> pp_protocolOnly = False, pp_credError = JsonRpcError reqId, pp_rejection = None,
                                pp_sdkHeaders = Some (inferredModernHeaders headers revision body) \<rparr> in
                     if requestMethodFromParsedBody body \<noteq> Some (js ''tools/call'') then ok
                     else (case nonempty (map_get headers (js ''mcp-name'')) of
                             None \<Rightarrow> ok
                           | Some headerName \<Rightarrow>
                               if bodyName = Some headerName then ok
                               else \<lparr> pp_protocolOnly = False, pp_credError = JsonRpcError reqId,
                                      pp_rejection = Some (name_mismatch reqId headerName bodyName),
                                      pp_sdkHeaders = None \<rparr>)))))"

section \<open>Failures of credential resolution\<close>

text \<open>\<open>None\<close> stands for an exception of another kind.\<close>

fun failure_status :: "credential_failure option \<Rightarrow> nat" where
  "failure_status (Some (CredentialResolutionError m st c)) = st"
| "failure_status _ = 500"

fun failure_text :: "credential_failure option \<Rightarrow> jsstring" where
  "failure_text (Some (CredentialResolutionError m st c)) = m"
| "failure_text _ = js ''Credential resolution failed''"

fun failure_info :: "credential_failure option \<Rightarrow> jsprops" where
  "failure_info (Some (CredentialResolutionError m st c)) =
     [(js ''code'', Str c), (js ''status'', error_number (int st))]"
| "failure_info _ = []"

definition credentialErrorResponse :: "credential_failure option \<Rightarrow> credential_error_shape \<Rightarrow> http_reply" where
  "credentialErrorResponse err shape =
     (case shape of
        JsonRpcError reqId \<Rightarrow>
          jsonResponse (failure_status err) (jsonRpcErrorBody (- 32001) (failure_text err) reqId (failure_info err)) []
      | PlainError \<Rightarrow> jsonResponse (failure_status err) (error_body (failure_text err)) [])"

fun failure_code :: "credential_failure option \<Rightarrow> jsstring option" where
  "failure_code (Some (CredentialResolutionError m st c)) = Some c"
| "failure_code _ = None"

definition isCredentialUnavailableForDiscovery :: "credential_failure option \<Rightarrow> bool" where
  "isCredentialUnavailableForDiscovery err \<longleftrightarrow>
     (case failure_code err of None \<Rightarrow> False
      | Some c \<Rightarrow> c \<in> {js ''missing_credentials'', js ''missing_auth_info'', js ''missing_principal'',
          js ''principal_not_mapped'', js ''credential_ref_not_found''})"

definition isCapabilityAuthFailure :: "credential_failure option \<Rightarrow> bool" where
  "isCapabilityAuthFailure err \<longleftrightarrow> failure_code err = Some (js ''capability_auth_failed'')"

definition canDowngradeCapabilityAuthFailure :: "http_world \<Rightarrow> bool" where
  "canDowngradeCapabilityAuthFailure w \<longleftrightarrow> hw_mode w = ModeHeaders"

definition usesHeaderCredentialVerificationLimit :: "http_world \<Rightarrow> web_request \<Rightarrow> bool" where
  "usesHeaderCredentialVerificationLimit w rq \<longleftrightarrow>
     canDowngradeCapabilityAuthFailure w \<and> hasCredentialHeaders (headersToIncoming rq)"

definition shouldRejectPublicCredentialHeaders :: "http_world \<Rightarrow> bool" where
  "shouldRejectPublicCredentialHeaders w \<longleftrightarrow> hw_mode w = ModeServer \<or> hw_mode w = ModePrincipal"

definition publicCredentialHeaderRejection ::
  "http_world \<Rightarrow> web_request \<Rightarrow> credential_error_shape \<Rightarrow> principal_cache \<Rightarrow> http_reply option \<times> principal_cache" where
  "publicCredentialHeaderRejection w rq shape cache =
     (if \<not> shouldRejectPublicCredentialHeaders w then (None, cache)
      else if \<not> hasCredentialHeaders (headersToIncoming rq) then (None, cache)
      else (case http_resolve (hw_creds w) (hw_mode w) (Some (makeCredentialRequest rq)) cache of
              (Inr r, cache') \<Rightarrow> (None, cache')
            | (Inl err, cache') \<Rightarrow> (Some (credentialErrorResponse (Some err) shape), cache')))"

text \<open>
  A header value as \<open>Headers.set\<close> takes it: after the white space at its ends, no code unit above 255 and
  no NUL, line feed or carriage return.
\<close>

definition http_space :: "nat \<Rightarrow> bool" where
  "http_space c \<longleftrightarrow> c \<in> {9, 10, 13, 32}"

definition header_value_ok :: "jsstring \<Rightarrow> bool" where
  "header_value_ok v \<longleftrightarrow>
     list_all (\<lambda>c. c \<le> 255 \<and> c \<noteq> 0 \<and> c \<noteq> 10 \<and> c \<noteq> 13)
       (rev (dropWhile http_space (rev (dropWhile http_space v))))"

text \<open>\<open>requestWithBodyAndHeaders\<close> throws when a header is not acceptable.\<close>

definition sdk_request_ok :: "sdk_headers \<Rightarrow> bool" where
  "sdk_request_ok headers \<longleftrightarrow> list_all (\<lambda>(name, v). header_value_ok v) headers"

section \<open>Which hosts and origins pass\<close>

text \<open>A plain host name: no white space, no colon, no bracket in front. A bracketed one is an IPv6 address.\<close>

definition plain_host :: "jsstring \<Rightarrow> bool" where
  "plain_host h \<longleftrightarrow> h \<noteq> [] \<and> (\<forall>c \<in> set h. \<not> js_space c \<and> c \<noteq> 58) \<and> hd h \<noteq> 91"

definition bracketed_host :: "jsstring \<Rightarrow> bool" where
  "bracketed_host h \<longleftrightarrow> (\<exists>x. h = 91 # x @ [93] \<and> (\<forall>c \<in> set x. \<not> js_space c))"

definition url_host :: "jsstring \<Rightarrow> bool" where
  "url_host h \<longleftrightarrow> plain_host h \<or> bracketed_host h"

definition port_text :: "jsstring \<Rightarrow> bool" where
  "port_text p \<longleftrightarrow> p \<noteq> [] \<and> (\<forall>c \<in> set p. is_digit c)"

definition host_text :: "jsstring \<Rightarrow> jsstring \<Rightarrow> jsstring" where
  "host_text h p = (if p = [] then h else h @ 58 # p)"

definition host_entry :: "jsstring \<Rightarrow> bool" where
  "host_entry e \<longleftrightarrow> (\<exists>h p. e = host_text h p \<and> url_host h \<and> (p = [] \<or> port_text p))"

text \<open>A list admits a host on any port by its name alone, and on one port by the name and that port.\<close>

definition listed :: "jsstring list \<Rightarrow> jsstring \<Rightarrow> jsstring \<Rightarrow> bool" where
  "listed hosts h p \<longleftrightarrow> h \<in> set hosts \<or> host_text h p \<in> set hosts"

text \<open>
  What the URL standard says of the two parts of a parsed URL: the host name is empty (\<open>file:///x\<close>), a name or
  an IPv4 address without blanks, colons or a bracket, or an IPv6 address in brackets; the port is empty or digits.
\<close>

definition url_parts :: "origin_parts \<Rightarrow> bool" where
  "url_parts p \<longleftrightarrow> (og_hostname p = [] \<or> url_host (og_hostname p)) \<and> (og_port p = [] \<or> port_text (og_port p))"

lemma digit_not_blank: "is_digit c \<Longrightarrow> \<not> js_space c \<and> c \<noteq> 58"
  by (auto simp: char_class_defs)

lemma unspaced_trim: "\<forall>c \<in> set s. \<not> js_space c \<Longrightarrow> js_trim s = s"
proof -
  assume a: "\<forall>c \<in> set s. \<not> js_space c"
  then have "dropWhile js_space s = s" "dropWhile js_space (rev s) = rev s"
    by (cases s, simp, simp, cases "rev s", simp, metis dropWhile.simps(2) list.set_intros(1) set_rev)
  then show ?thesis by (simp add: js_trim_def)
qed

lemma port_suffix_plain: "58 \<notin> set h \<Longrightarrow> port_suffix h = None"
  by (auto simp: port_suffix_def Let_def split: list.split dest: set_dropWhileD)
    (metis list.set_intros(1) set_dropWhileD set_rev)

lemma port_suffix_port:
  assumes "port_text p"
  shows "port_suffix (h @ 58 # p) = Some (h, p)"
proof -
  have d: "\<forall>c \<in> set (rev p). is_digit c" "rev p \<noteq> []" using assms by (simp_all add: port_text_def)
  have "takeWhile is_digit (rev p @ 58 # rev h) = rev p" "dropWhile is_digit (rev p @ 58 # rev h) = 58 # rev h"
    using d(1) by (simp_all add: takeWhile_append dropWhile_append is_digit_def)
  with d(2) show ?thesis by (simp add: port_suffix_def Let_def)
qed

lemma plain_forms:
  assumes "plain_host h"
  shows "hostWithoutPort h = h \<and> \<not> hostIncludesPort h \<and>
    (port_text p \<longrightarrow> hostWithoutPort (h @ 58 # p) = h \<and> hostIncludesPort (h @ 58 # p))"
proof -
  have h: "h \<noteq> []" "58 \<notin> set h" "hd h \<noteq> 91" "js_trim h = h"
    using assms by (auto simp: plain_host_def intro!: unspaced_trim)
  have n: "\<not> prefix [91] (h @ r)" for r using h(1,3) by (cases h) auto
  have f: "filter (\<lambda>c. c = 58) h = []" using h(2) by (auto simp: filter_empty_conv)
  have "hostWithoutPort (h @ 58 # p) = h \<and> hostIncludesPort (h @ 58 # p)" if p: "port_text p"
  proof -
    have t: "js_trim (h @ 58 # p) = h @ 58 # p"
      using assms p digit_not_blank by (intro unspaced_trim) (auto simp: plain_host_def port_text_def js_space_def)
    have "filter (\<lambda>c. c = 58) p = []" using p digit_not_blank by (auto simp: filter_empty_conv port_text_def)
    then show ?thesis
      using h n f by (simp add: hostWithoutPort_def hostIncludesPort_def without_port_def t port_suffix_port [OF p])
  qed
  with h n [of "[]"] f show ?thesis
    by (simp add: hostWithoutPort_def hostIncludesPort_def without_port_def port_suffix_plain)
qed

lemma bracketed_forms:
  assumes "bracketed_host h"
  shows "hostWithoutPort h = h \<and> \<not> hostIncludesPort h \<and>
    (port_text p \<longrightarrow> hostWithoutPort (h @ 58 # p) = h \<and> hostIncludesPort (h @ 58 # p))"
proof -
  obtain x where h: "h = 91 # x @ [93]" and x: "\<forall>c \<in> set x. \<not> js_space c"
    using assms by (auto simp: bracketed_host_def)
  have s: "\<forall>c \<in> set h. \<not> js_space c" using h x by (auto simp: js_space_def)
  have n: "port_suffix h = None" by (simp add: h port_suffix_def is_digit_def)
  have "hostWithoutPort (h @ 58 # p) = h \<and> hostIncludesPort (h @ 58 # p)" if p: "port_text p"
  proof -
    have t: "js_trim (h @ 58 # p) = h @ 58 # p"
      using s p digit_not_blank by (intro unspaced_trim) (auto simp: port_text_def js_space_def)
    have "prefix [91] (h @ 58 # p)" "suffix [93] h" "h @ 58 # p \<noteq> []" by (simp_all add: h suffix_def)
    with t port_suffix_port [OF p, of h] show ?thesis
      by (simp add: hostWithoutPort_def hostIncludesPort_def without_port_def Let_def)
  qed
  with n unspaced_trim [OF s] show ?thesis
    by (simp add: hostWithoutPort_def hostIncludesPort_def without_port_def h)
qed

lemma host_forms:
  assumes "url_host h" "p = [] \<or> port_text p"
  shows "hostWithoutPort (host_text h p) = h" "hostIncludesPort (host_text h p) \<longleftrightarrow> p \<noteq> []" "h \<noteq> []" "host_text h p \<noteq> []"
  using assms plain_forms [of h p] bracketed_forms [of h p]
  by (auto simp: url_host_def host_text_def port_text_def plain_host_def bracketed_host_def)

lemma listed_exact:
  assumes "\<forall>e \<in> set hosts. host_entry e" and "url_host h" "p = [] \<or> port_text p"
  shows "(\<exists>a \<in> set hosts. a = host_text h p \<or> \<not> hostIncludesPort a \<and> hostWithoutPort a = h) \<longleftrightarrow> listed hosts h p"
proof -
  have "a = h" if "a \<in> set hosts" "\<not> hostIncludesPort a" "hostWithoutPort a = h" for a
  proof -
    from assms(1) that(1) have "host_entry a" by (rule bspec)
    then obtain g q where a: "a = host_text g q" "url_host g" "q = [] \<or> port_text q"
      unfolding host_entry_def by blast
    with that host_forms [OF a(2,3)] show ?thesis by (simp add: host_text_def)
  qed
  moreover have "\<not> hostIncludesPort h \<and> hostWithoutPort h = h"
    using host_forms [OF assms(2), of "[]"] by (simp add: host_text_def)
  ultimately show ?thesis unfolding listed_def by metis
qed

text \<open>
  (C14) The policy on hosts and origins, for every configuration. A request passes exactly if its Host is listed,
  by name for any port or with that very port, where hosts are listed at all; and its Origin, where it has one,
  is in the list of origins, or if there is none, its host is listed in the same way, or if nothing is
  configured, names the local machine; without an Origin and without any list the Host does. Hosts are names or
  bracketed IPv6 addresses, in the list and in the request, with or without a port. The parser of origins is
  a parameter; on the Origin of the request it yields no host name, a name or a bracketed address.
\<close>

theorem host_policy_exact:
  assumes hosts: "csvEnv env (js ''B2_ALLOWED_HOSTS'') = hosts" "\<forall>e \<in> set hosts. host_entry e"
    and origins: "csvEnv env (js ''B2_ALLOWED_ORIGINS'') = origins"
    and host: "req_header rq (js ''host'') = Some (host_text h port)" "url_host h" "port = [] \<or> port_text port"
    and parser: "\<And>org p. nonempty (req_header rq (js ''origin'')) = Some org \<Longrightarrow> parse org = Some p \<Longrightarrow> url_parts p"
  shows "hostOriginAllowed parse env rq \<longleftrightarrow>
    (hosts = [] \<or> listed hosts h port) \<and>
    (case nonempty (req_header rq (js ''origin'')) of
       Some org \<Rightarrow>
         if origins \<noteq> [] then org \<in> set origins
         else if hosts \<noteq> [] then \<exists>p. parse org = Some p \<and> og_hostname p \<noteq> [] \<and> listed hosts (og_hostname p) (og_port p)
         else \<exists>p. parse org = Some p \<and> og_hostname p \<in> set LOCALHOST_NAMES
     | None \<Rightarrow> hosts \<noteq> [] \<or> origins \<noteq> [] \<or> h \<in> set LOCALHOST_NAMES)"
proof -
  note forms = host_forms [OF host(2,3)]
  have matches: "hostMatchesAllowed (host_text h port) hosts \<longleftrightarrow> listed hosts h port"
    unfolding hostMatchesAllowed_def forms(1) by (rule listed_exact [OF hosts(2) host(2,3)])
  have listed_origin: "originMatchesAllowedHost parse org hosts \<longleftrightarrow>
      (\<exists>p. parse org = Some p \<and> og_hostname p \<noteq> [] \<and> listed hosts (og_hostname p) (og_port p))"
    if "nonempty (req_header rq (js ''origin'')) = Some org" for org
  proof (cases "\<exists>p. parse org = Some p \<and> og_hostname p \<noteq> []")
    case False
    then show ?thesis
      by (auto simp: originMatchesAllowedHost_def originHostWithOptionalPort_def split: option.splits)
  next
    case True
    then obtain p where p: "parse org = Some p" "og_hostname p \<noteq> []" by blast
    then have u: "url_host (og_hostname p)" "og_port p = [] \<or> port_text (og_port p)"
      using parser [OF that p(1)] by (auto simp: url_parts_def)
    have "originHostWithOptionalPort parse org = host_text (og_hostname p) (og_port p)"
      using p by (simp add: originHostWithOptionalPort_def host_text_def)
    with p host_forms [OF u] listed_exact [OF hosts(2) u] show ?thesis
      by (simp add: originMatchesAllowedHost_def Let_def)
  qed
  have local: "originHostname parse org \<in> set LOCALHOST_NAMES \<longleftrightarrow>
      (\<exists>p. parse org = Some p \<and> og_hostname p \<in> set LOCALHOST_NAMES)" for org
    by (auto simp: originHostname_def LOCALHOST_NAMES_def split: option.splits)
  have "nonempty (Some (host_text h port)) = Some (host_text h port)" using forms(4) by (simp add: nonempty_def)
  then show ?thesis
    unfolding hostOriginAllowed_def Let_def hosts(1) origins host(1)
    using matches listed_origin local forms(1) by (auto split: option.split)
qed

text \<open>
  Without any list a page from elsewhere has no access: a request passes only if its Origin, or without one
  its Host, names the local machine.
\<close>

theorem foreign_page_refused:
  assumes "csvEnv env (js ''B2_ALLOWED_HOSTS'') = []" "csvEnv env (js ''B2_ALLOWED_ORIGINS'') = []"
  shows "hostOriginAllowed parse env rq \<longleftrightarrow>
    (\<exists>host. nonempty (req_header rq (js ''host'')) = Some host \<and>
       (case nonempty (req_header rq (js ''origin'')) of
          Some org \<Rightarrow> originHostname parse org \<in> set LOCALHOST_NAMES
        | None \<Rightarrow> hostWithoutPort host \<in> set LOCALHOST_NAMES))"
  using assms by (auto simp: hostOriginAllowed_def Let_def split: option.split)

section \<open>What reaches the SDK\<close>

lemma map_set_names: "fst ` set (map_set k v m) = insert k (fst ` set m)"
  by simp

lemma default_header_names: "fst ` set (default_header k v m) \<subseteq> insert k (fst ` set m)"
  by (auto simp: default_header_def)

lemma inferred_headers_allowed:
  assumes "name \<in> fst ` set (inferredModernHeaders (sanitizedHeadersFromRequest rq) revision body)"
  shows "sdkHeaderAllowed name"
proof -
  have "sdkHeaderAllowed (js ''mcp-protocol-version'')" "sdkHeaderAllowed (js ''mcp-method'')" "sdkHeaderAllowed (js ''mcp-name'')"
    by (simp_all add: sdkHeaderAllowed_def js_simps ascii_lower_def ascii_lower_unit_def is_upper_def)
  moreover have "name \<in> fst ` set (sanitizedHeadersFromRequest rq) \<or>
      name \<in> {js ''mcp-protocol-version'', js ''mcp-method'', js ''mcp-name''}"
    using assms default_header_names
    by (auto simp: inferredModernHeaders_def Let_def split: option.splits bool.splits dest!: subsetD [OF default_header_names])
  ultimately show ?thesis by (auto simp: sanitizedHeadersFromRequest_def)
qed

lemma sdk_headers_allowed:
  assumes "name \<in> fst ` set (case pp_sdkHeaders (classifyProtocolPreflight w rq parsed_body) of
      Some hs \<Rightarrow> hs | None \<Rightarrow> sanitizedHeadersFromRequest rq)"
  shows "sdkHeaderAllowed name"
proof (cases "pp_sdkHeaders (classifyProtocolPreflight w rq parsed_body)")
  case None
  then show ?thesis using assms by (auto simp: sanitizedHeadersFromRequest_def)
next
  case (Some hs)
  then have "\<exists>revision body. hs = inferredModernHeaders (sanitizedHeadersFromRequest rq) revision body"
    by (auto simp: classifyProtocolPreflight_def plainPreflight_def Let_def
        split: option.splits if_splits inbound_outcome.splits)
  then show ?thesis using assms Some inferred_headers_allowed by (metis option.simps(5))
qed

lemma allowed_not_credential:
  "sdkHeaderAllowed name \<Longrightarrow> ascii_lower name \<notin> set CREDENTIAL_HEADER_DETECTION_NAMES \<and>
    ascii_lower name \<notin> {js ''authorization'', js ''cookie'', js ''proxy-authorization''}"
  by (auto simp: sdkHeaderAllowed_def SDK_HEADER_ALLOWLIST_def CREDENTIAL_HEADER_DETECTION_NAMES_def HEADER_keyId_def
      HEADER_key_def HEADER_masterKeyId_def HEADER_masterKey_def)

text \<open>
  No credential reaches the SDK: the headers that a request hands on are on the allow list or begin with
  \<open>mcp-\<close>, so that none of the names under which B2 credentials are read, nor \<open>authorization\<close> or
  \<open>cookie\<close>, is among them.
\<close>

theorem sdk_headers_confined:
  assumes "name \<in> fst ` set (case pp_sdkHeaders (classifyProtocolPreflight w rq parsed_body) of
      Some hs \<Rightarrow> hs | None \<Rightarrow> sanitizedHeadersFromRequest rq)"
  shows "sdkHeaderAllowed name \<and> ascii_lower name \<notin> set CREDENTIAL_HEADER_DETECTION_NAMES \<and>
    ascii_lower name \<notin> {js ''authorization'', js ''cookie'', js ''proxy-authorization''}"
  using sdk_headers_allowed [OF assms] allowed_not_credential by blast

section \<open>The body cap\<close>

lemma read_capped_spec:
  "length acc \<le> MAX_MCP_BODY_BYTES \<Longrightarrow> read_capped acc chunks =
     (if length (acc @ concat chunks) \<le> MAX_MCP_BODY_BYTES then Some (acc @ concat chunks) else None)"
  by (induction chunks arbitrary: acc) auto

text \<open>
  The body cap: a body is read in full exactly if neither its declared nor its true length exceeds one MiB,
  however it is cut into chunks, and what was read is the body.
\<close>

theorem body_cap_exact:
  "readCappedBodyBytes rq (Some chunks) =
     (if contentLengthExceedsLimit rq \<or> 1048576 < length (concat chunks) then None else Some (concat chunks))"
  by (simp add: readCappedBodyBytes_def read_capped_spec MAX_MCP_BODY_BYTES_def not_less)

section \<open>Samples\<close>

definition sample_web_request :: "(jsstring \<times> jsstring) list \<Rightarrow> web_request" where
  "sample_web_request headers =
     \<lparr> wr_method = js ''POST'', wr_pathname = js ''/mcp'', wr_urlHost = js ''b2.example'', wr_headers = headers,
       wr_authInfo = None, wr_remoteAddress = Some (js ''10.0.0.7''), wr_allowLoopbackHealthProbe = False \<rparr>"

definition sample_hosts_env :: env where
  "sample_hosts_env n = (if n = js ''B2_ALLOWED_HOSTS'' then Some (js ''b2.example'') else None)"

definition sample_origin :: "jsstring \<Rightarrow> origin_parts option" where
  "sample_origin u =
     (if u = js ''https://b2.example:8443'' then Some \<lparr> og_hostname = js ''b2.example'', og_port = js ''8443'' \<rparr>
      else if u = js ''https://evil.example'' then Some \<lparr> og_hostname = js ''evil.example'', og_port = [] \<rparr>
      else if u = js ''http://[::1]'' then Some \<lparr> og_hostname = js ''[::1]'', og_port = [] \<rparr>
      else if u = js ''file:///x'' then Some \<lparr> og_hostname = [], og_port = [] \<rparr> else None)"

lemma sample_plain: "plain_host (js ''b2.example'')" "plain_host (js ''evil.example'')" "port_text (js ''8443'')"
  by (simp_all add: plain_host_def port_text_def char_class_defs js_simps)

lemma sample_origin_parts: "sample_origin u = Some p \<Longrightarrow> url_parts p"
proof -
  have "bracketed_host (js ''[::1]'')"
    unfolding bracketed_host_def by (rule exI [of _ "js ''::1''"]) (simp add: js_space_def js_simps)
  then show "sample_origin u = Some p \<Longrightarrow> url_parts p"
    using sample_plain by (auto simp: sample_origin_def url_parts_def url_host_def split: if_splits)
qed

lemma sample_csv: "csvEnv sample_hosts_env (js ''B2_ALLOWED_HOSTS'') = [js ''b2.example'']"
    "csvEnv sample_hosts_env (js ''B2_ALLOWED_ORIGINS'') = []" "csvEnv (\<lambda>n. None) name = []"
proof -
  have "\<forall>c \<in> set (js ''b2.example''). \<not> js_space c" using sample_plain(1) by (simp add: plain_host_def)
  then show "csvEnv sample_hosts_env (js ''B2_ALLOWED_HOSTS'') = [js ''b2.example'']"
    by (simp add: csvEnv_def sample_hosts_env_def js_simps js_trim_def js_space_def)
qed (simp_all add: csvEnv_def sample_hosts_env_def js_trim_def)

theorem host_policy_exact_witness:
  "filter (\<lambda>u. hostOriginAllowed sample_origin sample_hosts_env (sample_web_request
       [(js ''host'', js ''b2.example:443''), (js ''origin'', u)]))
     [js ''https://b2.example:8443'', js ''https://evil.example'', js ''http://[::1]'', js ''file:///x''] =
   [js ''https://b2.example:8443'']"
proof -
  have port: "port_text (js ''443'')" by (simp add: port_text_def char_class_defs js_simps)
  have host: "host_text (js ''b2.example'') (js ''443'') = js ''b2.example:443''" by (simp add: host_text_def js_simps)
  have listed: "\<forall>e \<in> set [js ''b2.example'']. host_entry e"
    using sample_plain(1) unfolding host_entry_def url_host_def host_text_def by auto
  let ?rq = "\<lambda>u. sample_web_request [(js ''host'', js ''b2.example:443''), (js ''origin'', u)]"
  have q: "req_header (?rq u) (js ''host'') = Some (host_text (js ''b2.example'') (js ''443''))"
    "req_header (?rq u) (js ''origin'') = Some u" for u
    by (simp_all add: req_header_def sample_web_request_def host)
  have h: "url_host (js ''b2.example'')" using sample_plain(1) by (simp add: url_host_def)
  have "hostOriginAllowed sample_origin sample_hosts_env (?rq u) \<longleftrightarrow>
      (\<exists>p. sample_origin u = Some p \<and> og_hostname p \<noteq> [] \<and> listed [js ''b2.example''] (og_hostname p) (og_port p))"
    if "u \<noteq> []" for u
    using host_policy_exact [OF sample_csv(1) listed sample_csv(2) q(1) h disjI2 [OF port] sample_origin_parts, of u] that
    unfolding q(2) by (simp add: nonempty_def listed_def)
  then show ?thesis by (simp add: sample_origin_def listed_def host_text_def js_simps)
qed

theorem foreign_page_refused_witness:
  "\<not> hostOriginAllowed sample_origin (\<lambda>n. None) (sample_web_request
     [(js ''host'', js ''localhost''), (js ''origin'', js ''https://evil.example'')])"
  using foreign_page_refused [OF sample_csv(3) sample_csv(3)]
  by (simp add: req_header_def sample_web_request_def nonempty_def originHostname_def sample_origin_def LOCALHOST_NAMES_def)

theorem sdk_headers_confined_witness:
  "sanitizedHeadersFromRequest (sample_web_request [(js ''x-b2-mcp-key'', js ''k''), (js ''mcp-name'', js ''t'')]) =
     [(js ''mcp-name'', js ''t'')] \<and> ascii_lower (js ''mcp-name'') \<notin> set CREDENTIAL_HEADER_DETECTION_NAMES"
proof -
  let ?rq = "sample_web_request [(js ''x-b2-mcp-key'', js ''k''), (js ''mcp-name'', js ''t'')]\<lparr> wr_method := js ''GET'' \<rparr>"
  have h: "sanitizedHeadersFromRequest ?rq = [(js ''mcp-name'', js ''t'')]"
    by (simp add: sanitizedHeadersFromRequest_def sample_web_request_def sdkHeaderAllowed_def SDK_HEADER_ALLOWLIST_def
        js_simps ascii_lower_def ascii_lower_unit_def is_upper_def)
  have "pp_sdkHeaders (classifyProtocolPreflight w ?rq None) = None" for w
    by (simp add: classifyProtocolPreflight_def plainPreflight_def sample_web_request_def ascii_upper_def
        ascii_upper_unit_def is_lower_def js_simps Let_def)
  then have "ascii_lower (js ''mcp-name'') \<notin> set CREDENTIAL_HEADER_DETECTION_NAMES"
    using sdk_headers_confined [where name = "js ''mcp-name''" and rq = ?rq and parsed_body = None] h by simp
  with h show ?thesis by (simp add: sanitizedHeadersFromRequest_def sample_web_request_def)
qed

end
