(* ===== verification/Http_Pipeline.thy ===== *)
theory Http_Pipeline
  imports Http_Gate
begin

text \<open>
  The HTTP request pipeline (\<open>createB2McpFetchHandler\<close> in \<open>src/http-fetch-handler.ts\<close>). A call of \<open>fetch\<close>
  runs without interruption from one wait to the next: it waits for the body, for the capabilities of its
  credential, for the MCP handler, and for its answer to be consumed, after which the slot of the request is
  given back. The steps of any number of calls interleave on the shared state: the two in-flight limiters,
  the rate limiter, the caches and the shutdown flags. A step is a function, so that a run can be evaluated.
\<close>

section \<open>State\<close>

definition DISCOVERY_LIMIT_KEY :: jsstring where
  "DISCOVERY_LIMIT_KEY = js ''http-discovery:credential-unavailable''"

definition CREDENTIAL_VERIFICATION_LIMIT_KEY :: jsstring where
  "CREDENTIAL_VERIFICATION_LIMIT_KEY = js ''http-auth:credential-verification''"

record prepared_request =
  pr_resolved :: credential_resolution
  pr_capabilities :: "jsstring list option"
  pr_credentialsUnavailable :: bool
  pr_authInfo :: "auth_info option"

record http_state =
  hs_inFlight :: in_flight
  hs_verification :: in_flight
  hs_limiter :: limiter
  hs_principals :: principal_cache
  hs_capabilities :: capability_state
  hs_shuttingDown :: bool
  hs_mcpClosed :: bool
  hs_forcedTimer :: bool
  hs_mcpCloses :: nat

text \<open>
  Where a call stands. It was answered without a slot; or it holds a slot under the key given first: it reads its
  body, awaits capabilities (with its resolution, and the flag that it holds a verification permit), is with
  the MCP handler, has an answer of its own or the handler's whose cleanup is pending; or its promise was
  rejected; or it is over.
\<close>

datatype http_pc =
    Sent http_reply
  | ReadingBody jsstring
  | AwaitCapabilities jsstring credential_resolution bool protocol_preflight "jsstring option"
  | InMcp jsstring "prepared_request option" sdk_headers "jsstring option"
  | Answering jsstring http_reply
  | Relaying jsstring
  | Escaped jsstring
  | Ended

section \<open>Shutdown\<close>

definition closeMcpHandler :: "http_state \<Rightarrow> http_state" where
  "closeMcpHandler st =
     (if hs_mcpClosed st then st
      else st\<lparr> hs_mcpClosed := True, hs_forcedTimer := False, hs_mcpCloses := Suc (hs_mcpCloses st) \<rparr>)"

definition maybeCloseMcpHandlerAfterDrain :: "http_state \<Rightarrow> http_state" where
  "maybeCloseMcpHandlerAfterDrain st =
     (if hs_shuttingDown st \<and> active (hs_inFlight st) = 0 then closeMcpHandler st else st)"

definition drain :: "http_state \<Rightarrow> http_state" where
  "drain st =
     (if hs_shuttingDown st then st
      else maybeCloseMcpHandlerAfterDrain (st\<lparr> hs_shuttingDown := True, hs_forcedTimer := True \<rparr>))"

definition close_pipeline :: "http_state \<Rightarrow> http_state" where
  "close_pipeline st = closeMcpHandler (drain st)"

definition finalize_request :: "jsstring \<Rightarrow> http_state \<Rightarrow> http_state" where
  "finalize_request limitKey st =
     maybeCloseMcpHandlerAfterDrain
       (if limitKey \<noteq> [] then st\<lparr> hs_inFlight := release limitKey (hs_inFlight st) \<rparr> else st)"

section \<open>Answers\<close>

definition limit_reply :: "nat \<Rightarrow> jsstring \<Rightarrow> http_reply" where
  "limit_reply st m = jsonResponse st (error_body m) retry_soon"

definition rate_limited :: http_reply where
  "rate_limited = jsonResponse 429 (error_body (js ''Rate limit exceeded'')) retry_soon"

definition failed_reply :: http_reply where
  "failed_reply = jsonResponse 500 (error_body (js ''Internal server error'')) []"

definition internalMcpErrorResponse :: http_reply where
  "internalMcpErrorResponse = jsonResponse 500 (jsonRpcErrorBody (- 32603) (js ''Internal server error'') Null []) []"

definition healthBody :: "http_world \<Rightarrow> in_flight \<Rightarrow> jsstring \<Rightarrow> jsstring option \<Rightarrow> jsval" where
  "healthBody w f st err =
     Obj ([(js ''status'', Str st)] @ (case nonempty err of Some e \<Rightarrow> [(js ''error'', Str e)] | None \<Rightarrow> []) @
       [(js ''server'', Str (js ''backblaze-b2-mcp'')), (js ''version'', Str (hw_version w)),
        (js ''activeSessions'', error_number 0), (js ''inFlightRequests'', error_number (int (active f))),
        (js ''openSubscriptions'', error_number 0)])"

text \<open>
  The readiness probe validates the configuration of the provider, the one of the environment's mode, for which
  \<open>hw_mode\<close> stands when a handler is built without a provider of its own.
\<close>

definition health_reply :: "http_world \<Rightarrow> http_state \<Rightarrow> http_reply \<times> http_state" where
  "health_reply w st =
     (case validateHttpCredentialConfiguration (hw_creds w) (hs_principals st) of
        (r, cache) \<Rightarrow>
          (case r of
             Inl e \<Rightarrow> jsonResponse 503 (healthBody w (hs_inFlight st) (js ''error'')
                        (Some (js ''Credential configuration invalid''))) []
           | Inr _ \<Rightarrow> jsonResponse 200 (healthBody w (hs_inFlight st) (js ''ok'') None) [],
           st\<lparr> hs_principals := cache \<rparr>))"

section \<open>From one wait to the next\<close>

text \<open>The sweep; the cache of authorization managers, which it sweeps too, is no part of this state.\<close>

definition runIdleSweep :: "http_world \<Rightarrow> int \<Rightarrow> http_state \<Rightarrow> http_state" where
  "runIdleSweep w now st =
     st\<lparr> hs_limiter := sweepIdleBuckets (hw_rate w) now (hs_limiter st),
         hs_capabilities := (hs_capabilities st)\<lparr> capabilityCache := sweep_cache now (capabilityCache (hs_capabilities st)) \<rparr> \<rparr>"

definition take_rate :: "http_world \<Rightarrow> int \<Rightarrow> jsstring \<Rightarrow> http_state \<Rightarrow> bool \<times> http_state" where
  "take_rate w now key st =
     (case allowRequest (hw_rate w) now (deriveRateKey key) (hs_limiter st) of
        (ok, l) \<Rightarrow> (ok, st\<lparr> hs_limiter := l \<rparr>))"

definition sdk_headers_of :: "web_request \<Rightarrow> protocol_preflight \<Rightarrow> sdk_headers" where
  "sdk_headers_of rq pf = (case pp_sdkHeaders pf of Some hs \<Rightarrow> hs | None \<Rightarrow> sanitizedHeadersFromRequest rq)"

text \<open>
  \<open>dispatchToMcp\<close>, awaited inside the \<open>try\<close> of \<open>fetch\<close>: an exception while the SDK's request is built becomes
  the internal error.
\<close>

definition dispatchToMcp ::
  "web_request \<Rightarrow> protocol_preflight \<Rightarrow> jsstring option \<Rightarrow> jsstring \<Rightarrow> prepared_request option \<Rightarrow> http_pc" where
  "dispatchToMcp rq pf raw key prep =
     (if sdk_request_ok (sdk_headers_of rq pf) then InMcp key prep (sdk_headers_of rq pf) raw
      else Answering key failed_reply)"

text \<open>
  Discovery mode: without credentials the catalogue is served, and every tool answers that they are missing. The
  promise of this function is returned, not awaited, so that an exception of its dispatch leaves \<open>fetch\<close>;
  the resolution is its argument and is evaluated inside the \<open>try\<close>.
\<close>

definition dispatchDiscoveryMode ::
  "http_world \<Rightarrow> web_request \<Rightarrow> int \<Rightarrow> protocol_preflight \<Rightarrow> jsstring option \<Rightarrow> jsstring \<Rightarrow> http_state \<Rightarrow>
     http_pc \<times> http_state" where
  "dispatchDiscoveryMode w rq now pf raw key st =
     (case httpDiscoveryCredentialResolution (hw_creds w) (Some DISCOVERY_LIMIT_KEY) of
        Inl e \<Rightarrow> (Answering key failed_reply, st)
      | Inr r \<Rightarrow>
          (case rekey (hw_maxPerKey w) key (res_cacheKey r) (hs_inFlight st) of
             (Refused sc m, f) \<Rightarrow> (Answering key (limit_reply sc m), st\<lparr> hs_inFlight := f \<rparr>)
           | (Admitted, f) \<Rightarrow>
               (case take_rate w now (res_cacheKey r) (st\<lparr> hs_inFlight := f \<rparr>) of
                  (False, st2) \<Rightarrow> (Answering (res_cacheKey r) rate_limited, st2)
                | (True, st2) \<Rightarrow>
                    (if sdk_request_ok (sdk_headers_of rq pf)
                     then InMcp (res_cacheKey r)
                       (Some \<lparr> pr_resolved = r, pr_capabilities = None, pr_credentialsUnavailable = True,
                               pr_authInfo = wr_authInfo rq \<rparr>) (sdk_headers_of rq pf) raw
                     else Escaped (res_cacheKey r), st2))))"

definition canUseDiscoveryServer :: "http_world \<Rightarrow> jsstring option \<Rightarrow> bool" where
  "canUseDiscoveryServer w raw =
     mayDispatchToDiscoveryServer
       (case parsedJsonBody w raw of Some body \<Rightarrow> requestMethodFromParsedBody body | None \<Rightarrow> None)"

text \<open>A resolved credential: its slot, its rate, and for an unverified header credential the shared permit.\<close>

definition after_resolution ::
  "http_world \<Rightarrow> web_request \<Rightarrow> int \<Rightarrow> protocol_preflight \<Rightarrow> jsstring option \<Rightarrow> jsstring \<Rightarrow> credential_resolution \<Rightarrow>
     http_state \<Rightarrow> http_pc \<times> http_state" where
  "after_resolution w rq now pf raw key r st =
     (case (if usesHeaderCredentialVerificationLimit w rq
            then requiresCapabilityDiscovery (hw_env w) (res_capabilityCacheKey r) now (hs_capabilities st)
            else (False, hs_capabilities st)) of
        (shared, caps) \<Rightarrow>
          (case rekey (hw_maxPerKey w) key (res_cacheKey r) (hs_inFlight st) of
             (Refused sc m, f) \<Rightarrow> (Answering key (limit_reply sc m), st\<lparr> hs_capabilities := caps, hs_inFlight := f \<rparr>)
           | (Admitted, f) \<Rightarrow>
               (case take_rate w now (res_cacheKey r) (st\<lparr> hs_capabilities := caps, hs_inFlight := f \<rparr>) of
                  (False, st2) \<Rightarrow> (Answering (res_cacheKey r) rate_limited, st2)
                | (True, st2) \<Rightarrow>
                    if \<not> shared then (AwaitCapabilities (res_cacheKey r) r False pf raw, st2)
                    else (case acquire (hw_maxTotal w) (hw_maxPerKey w) CREDENTIAL_VERIFICATION_LIMIT_KEY
                                 (hs_verification st2) of
                       (Refused sc m, v) \<Rightarrow>
                         (Answering (res_cacheKey r) (limit_reply sc m), st2\<lparr> hs_verification := v \<rparr>)
                     | (Admitted, v) \<Rightarrow>
                         (case take_rate w now CREDENTIAL_VERIFICATION_LIMIT_KEY (st2\<lparr> hs_verification := v \<rparr>) of
                            (False, st3) \<Rightarrow> (Answering (res_cacheKey r) rate_limited,
                               st3\<lparr> hs_verification := release CREDENTIAL_VERIFICATION_LIMIT_KEY (hs_verification st3) \<rparr>)
                          | (True, st3) \<Rightarrow> (AwaitCapabilities (res_cacheKey r) r True pf raw, st3))))))"

text \<open>After the preflight: the headers that are refused, and the resolution of credentials.\<close>

definition after_preflight ::
  "http_world \<Rightarrow> web_request \<Rightarrow> int \<Rightarrow> protocol_preflight \<Rightarrow> jsstring option \<Rightarrow> jsstring \<Rightarrow> http_state \<Rightarrow>
     http_pc \<times> http_state" where
  "after_preflight w rq now pf raw key st =
     (case pp_rejection pf of
        Some reply \<Rightarrow> (Answering key reply, st)
      | None \<Rightarrow>
          (case publicCredentialHeaderRejection w rq (pp_credError pf) (hs_principals st) of
             (Some reply, cache) \<Rightarrow> (Answering key reply, st\<lparr> hs_principals := cache \<rparr>)
           | (None, cache) \<Rightarrow>
               if pp_protocolOnly pf then (dispatchToMcp rq pf raw key None, st\<lparr> hs_principals := cache \<rparr>)
               else (case http_resolve (hw_creds w) (hw_mode w) (Some (makeCredentialRequest rq)) cache of
                 (Inl e, cache') \<Rightarrow>
                   if canUseDiscoveryServer w raw \<and> isCredentialUnavailableForDiscovery (Some e)
                   then dispatchDiscoveryMode w rq now pf raw key (st\<lparr> hs_principals := cache' \<rparr>)
                   else (Answering key (credentialErrorResponse (Some e) (pp_credError pf)), st\<lparr> hs_principals := cache' \<rparr>)
               | (Inr r, cache') \<Rightarrow> after_resolution w rq now pf raw key r (st\<lparr> hs_principals := cache' \<rparr>))))"

definition after_body ::
  "http_world \<Rightarrow> web_request \<Rightarrow> int \<Rightarrow> jsstring option \<Rightarrow> jsstring \<Rightarrow> http_state \<Rightarrow> http_pc \<times> http_state" where
  "after_body w rq now raw key st =
     after_preflight w rq now
       (classifyProtocolPreflight w rq
          (if ascii_upper (wr_method rq) = js ''POST'' then parsedJsonBody w raw else Some Undefined)) raw key st"

datatype body_event = BodyRead "nat list list option" | BodyThrew

definition with_body ::
  "http_world \<Rightarrow> web_request \<Rightarrow> int \<Rightarrow> body_event \<Rightarrow> jsstring \<Rightarrow> http_state \<Rightarrow> http_pc \<times> http_state" where
  "with_body w rq now b key st =
     (case b of
        BodyThrew \<Rightarrow> (Answering key failed_reply, st)
      | BodyRead body \<Rightarrow>
          (case readCappedBodyBytes rq body of
             None \<Rightarrow> (Answering key (jsonResponse 413 (error_body (js ''Request body too large''))
                        [(js ''Connection'', js ''close'')]), st)
           | Some bytes \<Rightarrow> after_body w rq now (Some (hw_decode w bytes)) key st))"

text \<open>The capabilities arrive, or their discovery fails; the permit is given back in either case.\<close>

definition after_capabilities ::
  "http_world \<Rightarrow> web_request \<Rightarrow> int \<Rightarrow> credential_failure option + jsstring list option \<Rightarrow> jsstring \<Rightarrow>
     credential_resolution \<Rightarrow> bool \<Rightarrow> protocol_preflight \<Rightarrow> jsstring option \<Rightarrow> http_state \<Rightarrow> http_pc \<times> http_state" where
  "after_capabilities w rq now result key r permit pf raw st =
     (let st1 = (if permit
            then st\<lparr> hs_verification := release CREDENTIAL_VERIFICATION_LIMIT_KEY (hs_verification st) \<rparr> else st) in
      case result of
        Inr capabilities \<Rightarrow>
          (dispatchToMcp rq pf raw key
             (Some \<lparr> pr_resolved = r, pr_capabilities = capabilities, pr_credentialsUnavailable = False,
                     pr_authInfo = wr_authInfo rq \<rparr>), st1)
      | Inl e \<Rightarrow>
          if canUseDiscoveryServer w raw \<and> isCapabilityAuthFailure e \<and> canDowngradeCapabilityAuthFailure w
          then dispatchDiscoveryMode w rq now pf raw key st1
          else (Answering key (credentialErrorResponse e (pp_credError pf)), st1))"

text \<open>The start of \<open>fetch\<close>.\<close>

definition is_health :: "web_request \<Rightarrow> bool" where
  "is_health rq \<longleftrightarrow> ascii_upper (wr_method rq) = js ''GET'' \<and>
     wr_pathname rq \<in> {js ''/health'', js ''/ready'', js ''/api/health''}"

definition admit :: "http_world \<Rightarrow> web_request \<Rightarrow> int \<Rightarrow> http_state \<Rightarrow> http_pc \<times> http_state" where
  "admit w rq now st =
     (let key = requestLimitKey (hw_env w) rq in
      case acquire (hw_maxTotal w) (hw_maxPerKey w) key (hs_inFlight st) of
        (Refused sc m, f) \<Rightarrow> (Sent (limit_reply sc m), st\<lparr> hs_inFlight := f \<rparr>)
      | (Admitted, f) \<Rightarrow>
          (case take_rate w now key (st\<lparr> hs_inFlight := f \<rparr>) of
             (False, st2) \<Rightarrow> (Answering key rate_limited, st2)
           | (True, st2) \<Rightarrow>
               if ascii_upper (wr_method rq) = js ''POST'' then (ReadingBody key, st2)
               else after_body w rq now None key st2))"

definition begin_fetch :: "http_world \<Rightarrow> web_request \<Rightarrow> int \<Rightarrow> http_state \<Rightarrow> http_pc \<times> http_state" where
  "begin_fetch w rq now st0 =
     (let st = (if hw_sweepOnRequest w then runIdleSweep w now st0 else st0);
          m = ascii_upper (wr_method rq) in
      if hs_shuttingDown st
      then (Sent (jsonResponse 503 (error_body (js ''Server is shutting down'')) [(js ''Connection'', js ''close'')]), st)
      else if \<not> is_health rq \<and> wr_pathname rq \<noteq> js ''/mcp'' \<and> wr_pathname rq \<noteq> js ''/api/mcp''
      then (Sent (jsonResponse 404 (error_body (js ''Not found'')) []), st)
      else if \<not> hostOriginAllowed (hw_origin w) (hw_env w) rq \<and>
        \<not> (is_health rq \<and> wr_allowLoopbackHealthProbe rq \<and> isLoopbackHealthProbe (hw_origin w) rq)
      then (Sent (jsonResponse 403 (error_body (js ''Host/Origin not allowed'')) []), st)
      else if is_health rq then (case health_reply w st of (reply, st') \<Rightarrow> (Sent reply, st'))
      else if m \<noteq> js ''POST'' \<and> m \<noteq> js ''GET'' \<and> m \<noteq> js ''DELETE''
      then (Sent (jsonResponse 405 (error_body (js ''Method not allowed''))
              [(js ''Allow'', js ''GET, POST, DELETE'')]), st)
      else admit w rq now st)"

text \<open>
  The factory of the request's MCP server: its configuration, capabilities, whether credentials are missing, and the
  scopes of the token that count. Outside a prepared request it throws.
\<close>

definition createPreparedMcpServer ::
  "prepared_request option \<Rightarrow> js_throw + b2_config \<times> jsstring list option \<times> bool \<times> jsstring list option" where
  "createPreparedMcpServer prep =
     (case prep of
        None \<Rightarrow> Inl (ThrownError (js ''Prepared MCP request state missing''))
      | Some p \<Rightarrow> Inr (res_config (pr_resolved p), pr_capabilities p, pr_credentialsUnavailable p,
          if pr_credentialsUnavailable p then None
          else map_option (\<lambda>a. filter (prefix (js ''b2:'')) (ai_scopes a)) (pr_authInfo p)))"

section \<open>Interleaving\<close>

datatype http_event =
    Arrive web_request
  | Body nat body_event
  | CapabilitiesSettle nat "credential_failure option + jsstring list option" capability_state
  | McpReturns nat bool
  | Consumed nat
  | IdleSweep
  | Drain
  | ForcedClose
  | Close

type_synonym http_calls = "(web_request \<times> http_pc) list"

text \<open>
  One event. The flag of \<open>McpReturns\<close> is false when the handler throws. The discovery of capabilities is
  other code that may have changed the capability cache, so that its settling brings the cache.
\<close>

fun http_step :: "http_world \<Rightarrow> int \<Rightarrow> http_event \<Rightarrow> http_calls \<times> http_state \<Rightarrow> (http_calls \<times> http_state) option" where
  "http_step w now (Arrive rq) (cs, st) = (case begin_fetch w rq now st of (p, st') \<Rightarrow> Some (cs @ [(rq, p)], st'))"
| "http_step w now (Body i b) (cs, st) =
     (if i < length cs then
        (case cs ! i of
           (rq, ReadingBody key) \<Rightarrow> (case with_body w rq now b key st of (p, st') \<Rightarrow> Some (cs[i := (rq, p)], st'))
         | _ \<Rightarrow> None)
      else None)"
| "http_step w now (CapabilitiesSettle i result caps) (cs, st) =
     (if i < length cs then
        (case cs ! i of
           (rq, AwaitCapabilities key r permit pf raw) \<Rightarrow>
             (case after_capabilities w rq now result key r permit pf raw (st\<lparr> hs_capabilities := caps \<rparr>) of
                (p, st') \<Rightarrow> Some (cs[i := (rq, p)], st'))
         | _ \<Rightarrow> None)
      else None)"
| "http_step w now (McpReturns i ok) (cs, st) =
     (if i < length cs then
        (case cs ! i of
           (rq, InMcp key prep hs raw) \<Rightarrow>
             Some (cs[i := (rq, if ok then Relaying key else Answering key internalMcpErrorResponse)], st)
         | _ \<Rightarrow> None)
      else None)"
| "http_step w now (Consumed i) (cs, st) =
     (if i < length cs then
        (case cs ! i of
           (rq, Answering key reply) \<Rightarrow> Some (cs[i := (rq, Ended)], finalize_request key st)
         | (rq, Relaying key) \<Rightarrow> Some (cs[i := (rq, Ended)], finalize_request key st)
         | _ \<Rightarrow> None)
      else None)"
| "http_step w now IdleSweep (cs, st) =
     (if hw_sweepOnRequest w \<or> hs_shuttingDown st then None else Some (cs, runIdleSweep w now st))"
| "http_step w now Drain (cs, st) = Some (cs, drain st)"
| "http_step w now ForcedClose (cs, st) = (if hs_forcedTimer st then Some (cs, closeMcpHandler st) else None)"
| "http_step w now Close (cs, st) = Some (cs, close_pipeline st)"

definition http_start :: http_state where
  "http_start = \<lparr> hs_inFlight = empty_in_flight, hs_verification = empty_in_flight,
     hs_limiter = \<lparr> buckets = [], nextSweepAt = 0 \<rparr>, hs_principals = None, hs_capabilities = empty_capability_state,
     hs_shuttingDown = False, hs_mcpClosed = False, hs_forcedTimer = False, hs_mcpCloses = 0 \<rparr>"

inductive http_reach :: "http_world \<Rightarrow> http_calls \<Rightarrow> http_state \<Rightarrow> bool" for w where
  http_boot: "http_reach w [] http_start"
| http_event: "http_reach w cs st \<Longrightarrow> http_step w now ev (cs, st) = Some (cs', st') \<Longrightarrow> http_reach w cs' st'"

end
