(* ===== verification/Http_Slots.thy ===== *)
theory Http_Slots
  imports Http_Pipeline
begin

text \<open>
  Invariants of the HTTP pipeline over every interleaving of calls: the slots of the in-flight limiter are those
  that calls have taken and not given back, what the MCP handler may see of credentials, and the shutdown. The in-flight
  limiter is used through its contract, the slot pool that it was proved to be.
\<close>

section \<open>What a call holds\<close>

text \<open>
  The key of the slot that a call has taken and not given back. A call whose promise was rejected is over, and its
  slot is lost: it is still taken.
\<close>

fun slot_key :: "http_pc \<Rightarrow> jsstring option" where
  "slot_key (ReadingBody key) = Some key"
| "slot_key (AwaitCapabilities key r permit pf raw) = Some key"
| "slot_key (InMcp key prep hs raw) = Some key"
| "slot_key (Answering key reply) = Some key"
| "slot_key (Relaying key) = Some key"
| "slot_key (Escaped key) = Some key"
| "slot_key (Sent reply) = None"
| "slot_key Ended = None"

definition slot_of :: "http_pc \<Rightarrow> jsstring multiset" where
  "slot_of p = (case slot_key p of Some k \<Rightarrow> {#k#} | None \<Rightarrow> {#})"

fun permits :: "http_pc \<Rightarrow> jsstring multiset" where
  "permits (AwaitCapabilities key r True pf raw) = {#CREDENTIAL_VERIFICATION_LIMIT_KEY#}"
| "permits _ = {#}"

definition slots_held :: "http_calls \<Rightarrow> jsstring multiset" where
  "slots_held cs = (\<Sum>c\<leftarrow>cs. slot_of (snd c))"

definition permits_held :: "http_calls \<Rightarrow> jsstring multiset" where
  "permits_held cs = (\<Sum>c\<leftarrow>cs. permits (snd c))"

abbreviation slots_ok :: "http_world \<Rightarrow> in_flight \<Rightarrow> jsstring multiset \<Rightarrow> bool" where
  "slots_ok w \<equiv> in_use (hw_maxTotal w) (hw_maxPerKey w)"

text \<open>What is known of a call.\<close>

definition resolves_to :: "http_world \<Rightarrow> web_request \<Rightarrow> credential_resolution \<Rightarrow> bool" where
  "resolves_to w rq r \<longleftrightarrow> fst (http_resolve (hw_creds w) (hw_mode w) (Some (makeCredentialRequest rq)) None) = Inr r"

definition prepared_ok :: "http_world \<Rightarrow> web_request \<Rightarrow> jsstring \<Rightarrow> prepared_request \<Rightarrow> bool" where
  "prepared_ok w rq key p \<longleftrightarrow>
     key = res_cacheKey (pr_resolved p) \<and> pr_authInfo p = wr_authInfo rq \<and>
     (if pr_credentialsUnavailable p
      then httpDiscoveryCredentialResolution (hw_creds w) (Some DISCOVERY_LIMIT_KEY) = Inr (pr_resolved p)
      else resolves_to w rq (pr_resolved p))"

definition headers_confined :: "web_request \<Rightarrow> sdk_headers \<Rightarrow> bool" where
  "headers_confined rq hs \<longleftrightarrow> sdk_request_ok hs \<and> (\<forall>name \<in> fst ` set hs. sdkHeaderAllowed name)"

fun call_ok :: "http_world \<Rightarrow> web_request \<Rightarrow> http_pc \<Rightarrow> bool" where
  "call_ok w rq (AwaitCapabilities key r permit pf raw) \<longleftrightarrow>
     resolves_to w rq r \<and> key = res_cacheKey r \<and> (\<forall>name \<in> fst ` set (sdk_headers_of rq pf). sdkHeaderAllowed name)"
| "call_ok w rq (InMcp key prep hs raw) \<longleftrightarrow>
     headers_confined rq hs \<and> (\<forall>p. prep = Some p \<longrightarrow> prepared_ok w rq key p)"
| "call_ok w rq (Escaped key) \<longleftrightarrow> key = DISCOVERY_LIMIT_KEY"
| "call_ok w rq _ \<longleftrightarrow> True"

definition flags :: "http_state \<Rightarrow> bool \<times> bool \<times> bool \<times> nat" where
  "flags st = (hs_shuttingDown st, hs_mcpClosed st, hs_forcedTimer st, hs_mcpCloses st)"

abbreviation cache_valid :: "http_world \<Rightarrow> http_state \<Rightarrow> bool" where
  "cache_valid w st \<equiv> principal_cache_ok (cw_json_parse (hw_creds w)) (hs_principals st)"

text \<open>
  A segment of a call that holds a slot under \<open>key\<close>: it ends with one slot, permits as it says, the flags untouched.
\<close>

definition segment :: "http_world \<Rightarrow> web_request \<Rightarrow> jsstring \<Rightarrow> http_state \<Rightarrow> http_pc \<times> http_state \<Rightarrow> bool" where
  "segment w rq key st res \<longleftrightarrow> (cache_valid w st \<longrightarrow> (case res of (p, st') \<Rightarrow>
     (\<exists>k'. slot_key p = Some k' \<and> k' \<noteq> [] \<and>
        (\<forall>M. slots_ok w (hs_inFlight st) (add_mset key M) \<longrightarrow> slots_ok w (hs_inFlight st') (add_mset k' M))) \<and>
     (\<forall>V. slots_ok w (hs_verification st) V \<longrightarrow> slots_ok w (hs_verification st') (permits p + V)) \<and>
     flags st' = flags st \<and> cache_valid w st' \<and> call_ok w rq p))"

lemma segment_stays:
  "key \<noteq> [] \<Longrightarrow> hs_inFlight st' = hs_inFlight st \<Longrightarrow> hs_verification st' = hs_verification st \<Longrightarrow>
     flags st' = flags st \<Longrightarrow> (cache_valid w st \<Longrightarrow> cache_valid w st') \<Longrightarrow> slot_key p = Some key \<Longrightarrow> permits p = {#} \<Longrightarrow>
     call_ok w rq p \<Longrightarrow> segment w rq key st (p, st')"
  by (simp add: segment_def)

lemma segment_trans:
  assumes "segment w rq k1 st1 res" "key \<noteq> []"
    and "\<And>M. slots_ok w (hs_inFlight st) (add_mset key M) \<Longrightarrow> slots_ok w (hs_inFlight st1) (add_mset k1 M)"
    and "hs_verification st1 = hs_verification st" "flags st1 = flags st" "cache_valid w st \<Longrightarrow> cache_valid w st1"
  shows "segment w rq key st res"
  using assms unfolding segment_def by (cases res) auto

lemma take_rate_frame:
  "take_rate w now k st = (ok, st') \<Longrightarrow> \<exists>l. st' = st\<lparr> hs_limiter := l \<rparr>"
  by (auto simp: take_rate_def split: prod.splits)

lemma rekey_moves:
  assumes "rekey (hw_maxPerKey w) key k' f = (Admitted, f')" "slots_ok w f (add_mset key M)"
  shows "slots_ok w f' (add_mset k' M)"
  using pool.move_slot [OF assms(2), of key k'] assms(1) by simp

lemma rekey_refused:
  assumes "rekey (hw_maxPerKey w) key k' f = (Refused sc m, f')"
  shows "f' = f"
  using assms by (auto simp: rekey_def Let_def split: if_splits)

lemma discovery_key:
  "httpDiscoveryCredentialResolution cw (Some k) = Inr r \<Longrightarrow> res_cacheKey r = k"
  by (auto simp: httpDiscoveryCredentialResolution_def js_bind_Inr resolution_of_def)

lemma resolved_key:
  assumes "fst (http_resolve cw mode req None) = Inr r"
  shows "res_cacheKey r \<noteq> []"
  using assms
  by (cases mode)
    (auto simp: http_resolve_def header_resolve_def server_resolve_def principal_resolve_def credential_key_def
      resolution_of_def js_bind_Inr Let_def split: option.splits if_splits prod.splits sum.splits)

lemma segment_update:
  assumes "segment w rq k1 (st\<lparr> hs_inFlight := f, hs_limiter := l \<rparr>) res" "key \<noteq> []"
    and "\<And>M. slots_ok w (hs_inFlight st) (add_mset key M) \<Longrightarrow> slots_ok w f (add_mset k1 M)"
  shows "segment w rq key st res"
  by (rule segment_trans [OF assms(1,2)]) (use assms(3) in \<open>simp_all add: flags_def\<close>)

section \<open>The segments\<close>

definition dispatch_headers_ok :: "web_request \<Rightarrow> protocol_preflight \<Rightarrow> bool" where
  "dispatch_headers_ok rq pf \<longleftrightarrow> (\<forall>name \<in> fst ` set (sdk_headers_of rq pf). sdkHeaderAllowed name)"

lemma dispatch_pc:
  assumes "dispatch_headers_ok rq pf" "\<forall>p. prep = Some p \<longrightarrow> prepared_ok w rq key p"
  shows "slot_key (dispatchToMcp rq pf raw key prep) = Some key" "permits (dispatchToMcp rq pf raw key prep) = {#}"
    "call_ok w rq (dispatchToMcp rq pf raw key prep)"
  using assms by (simp_all add: dispatchToMcp_def headers_confined_def dispatch_headers_ok_def)

lemma discovery_segment:
  assumes "key \<noteq> []" "dispatch_headers_ok rq pf"
  shows "segment w rq key st (dispatchDiscoveryMode w rq now pf raw key st)"
proof (cases "httpDiscoveryCredentialResolution (hw_creds w) (Some DISCOVERY_LIMIT_KEY)")
  case (Inl e)
  then show ?thesis using assms(1) by (simp add: dispatchDiscoveryMode_def segment_stays)
next
  case (Inr r)
  have k: "res_cacheKey r = DISCOVERY_LIMIT_KEY" "DISCOVERY_LIMIT_KEY \<noteq> []"
    using discovery_key [OF Inr] by (simp_all add: DISCOVERY_LIMIT_KEY_def)
  obtain a f where rk: "rekey (hw_maxPerKey w) key (res_cacheKey r) (hs_inFlight st) = (a, f)" by (metis surj_pair)
  obtain ok st2 where t: "take_rate w now (res_cacheKey r) (st\<lparr> hs_inFlight := f \<rparr>) = (ok, st2)" by (metis surj_pair)
  obtain l where st2: "st2 = st\<lparr> hs_inFlight := f, hs_limiter := l \<rparr>" using take_rate_frame [OF t] by blast
  show ?thesis
  proof (cases a)
    case Admitted
    have moved: "slots_ok w f (add_mset (res_cacheKey r) M)" if "slots_ok w (hs_inFlight st) (add_mset key M)" for M
      using rekey_moves [OF rk [unfolded Admitted] that] .
    have "segment w rq (res_cacheKey r) st2 (p, st2)"
      if "slot_key p = Some (res_cacheKey r)" "permits p = {#}" "call_ok w rq p" for p
      using that k by (intro segment_stays) simp_all
    moreover from this have "segment w rq (res_cacheKey r) st2 (Escaped (res_cacheKey r), st2)" using k(1) by simp
    moreover have "prepared_ok w rq (res_cacheKey r) \<lparr> pr_resolved = r, pr_capabilities = None,
        pr_credentialsUnavailable = True, pr_authInfo = wr_authInfo rq \<rparr>"
      using Inr by (simp add: prepared_ok_def)
    ultimately have "segment w rq (res_cacheKey r) st2 (dispatchDiscoveryMode w rq now pf raw key st)"
      using assms(2) by (auto simp: dispatchDiscoveryMode_def Inr rk Admitted t headers_confined_def dispatch_headers_ok_def
          split: bool.split)
    then show ?thesis
      unfolding st2 using assms(1) moved by (rule segment_update)
  next
    case (Refused sc m)
    then show ?thesis
      using assms(1) rekey_refused [OF rk [unfolded Refused]]
      by (simp add: dispatchDiscoveryMode_def Inr rk segment_stays)
  qed
qed

lemma acquire_pool:
  "acquire (hw_maxTotal w) (hw_maxPerKey w) k f = (Admitted, f') \<Longrightarrow> slots_ok w f M \<Longrightarrow> slots_ok w f' (add_mset k M)"
  "acquire (hw_maxTotal w) (hw_maxPerKey w) k f = (Refused sc m, f') \<Longrightarrow> f' = f"
  using pool.get_slot [of "hw_maxTotal w" "hw_maxPerKey w" f M k]
  by (auto simp: acquire_def split: if_splits)

lemma resolution_segment:
  assumes "key \<noteq> []" "dispatch_headers_ok rq pf" "resolves_to w rq r"
  shows "segment w rq key st (after_resolution w rq now pf raw key r st)"
proof -
  obtain shared caps where s: "(if usesHeaderCredentialVerificationLimit w rq
      then requiresCapabilityDiscovery (hw_env w) (res_capabilityCacheKey r) now (hs_capabilities st)
      else (False, hs_capabilities st)) = (shared, caps)" by (metis surj_pair)
  have k: "res_cacheKey r \<noteq> []" using assms(3) resolved_key unfolding resolves_to_def by blast
  let ?st = "st\<lparr> hs_capabilities := caps \<rparr>"
  obtain a f where rk: "rekey (hw_maxPerKey w) key (res_cacheKey r) (hs_inFlight st) = (a, f)" by (metis surj_pair)
  obtain ok st2 where t: "take_rate w now (res_cacheKey r) (?st\<lparr> hs_inFlight := f \<rparr>) = (ok, st2)" by (metis surj_pair)
  obtain l where st2: "st2 = ?st\<lparr> hs_inFlight := f, hs_limiter := l \<rparr>" using take_rate_frame [OF t] by blast
  obtain b v where acq: "acquire (hw_maxTotal w) (hw_maxPerKey w) CREDENTIAL_VERIFICATION_LIMIT_KEY (hs_verification st2) = (b, v)"
    by (metis surj_pair)
  obtain ok3 st3 where t3: "take_rate w now CREDENTIAL_VERIFICATION_LIMIT_KEY (st2\<lparr> hs_verification := v \<rparr>) = (ok3, st3)"
    by (metis surj_pair)
  obtain l3 where st3: "st3 = st2\<lparr> hs_verification := v, hs_limiter := l3 \<rparr>" using take_rate_frame [OF t3] by blast
  note e = after_resolution_def s rk t acq t3
  have call: "call_ok w rq (AwaitCapabilities (res_cacheKey r) r permit pf raw)" for permit
    using assms(2,3) by (simp add: dispatch_headers_ok_def)
  have "segment w rq key ?st (after_resolution w rq now pf raw key r st)"
  proof (cases a)
    case (Refused sc m)
    then show ?thesis
      using assms(1) rekey_refused [OF rk [unfolded Refused]] by (auto simp: e intro!: segment_stays)
  next
    case Admitted
    have stay: "segment w rq (res_cacheKey r) st2 (p, st2)"
      if "slot_key p = Some (res_cacheKey r)" "permits p = {#}" "call_ok w rq p" for p
      using that k by (intro segment_stays) simp_all
    have shared: "segment w rq (res_cacheKey r) st2 (case b of
        Refused sc m \<Rightarrow> (Answering (res_cacheKey r) (limit_reply sc m), st2\<lparr> hs_verification := v \<rparr>)
      | Admitted \<Rightarrow> (if ok3 then (AwaitCapabilities (res_cacheKey r) r True pf raw, st3)
          else (Answering (res_cacheKey r) rate_limited,
             st3\<lparr> hs_verification := release CREDENTIAL_VERIFICATION_LIMIT_KEY (hs_verification st3) \<rparr>)))"
    proof (cases b)
      case (Refused sc m)
      then show ?thesis
        using acquire_pool(2) [OF acq [unfolded Refused]] k by (simp add: segment_stays flags_def)
    next
      case Admitted
      have got: "slots_ok w v (add_mset CREDENTIAL_VERIFICATION_LIMIT_KEY V)" if "slots_ok w (hs_verification st2) V" for V
        using acquire_pool(1) [OF acq [unfolded Admitted] that] .
      have freed: "slots_ok w (release CREDENTIAL_VERIFICATION_LIMIT_KEY v) V" if "slots_ok w (hs_verification st2) V" for V
        using pool.put_slot [OF got [OF that], of CREDENTIAL_VERIFICATION_LIMIT_KEY] by simp
      show ?thesis
        using k call got freed by (simp add: Admitted segment_def st3 flags_def)
    qed
    have "segment w rq (res_cacheKey r) st2 (after_resolution w rq now pf raw key r st)"
      using stay call shared
      by (auto simp: e Admitted split: bool.splits admission.splits if_splits)
    then show ?thesis
      unfolding st2 using assms(1) rekey_moves [OF rk [unfolded Admitted]] by (rule segment_update) simp
  qed
  then show ?thesis
    by (rule segment_trans [OF _ assms(1)]) (simp_all add: flags_def)
qed

lemma confined_headers: "dispatch_headers_ok rq (classifyProtocolPreflight w rq b)"
  unfolding dispatch_headers_ok_def sdk_headers_of_def using sdk_headers_allowed by blast

lemma public_rejection_cache:
  assumes "publicCredentialHeaderRejection w rq shape (hs_principals st) = (reply, cache)" "cache_valid w st"
  shows "principal_cache_ok (cw_json_parse (hw_creds w)) cache"
  using assms http_resolve_cached(2) [OF assms(2), of "hw_mode w" "Some (makeCredentialRequest rq)"]
  by (auto simp: publicCredentialHeaderRejection_def split: if_splits sum.splits prod.splits)

lemma preflight_segment:
  assumes "key \<noteq> []" and h: "dispatch_headers_ok rq pf"
  shows "segment w rq key st (after_preflight w rq now pf raw key st)"
proof -
  obtain reply cache where pub: "publicCredentialHeaderRejection w rq (pp_credError pf) (hs_principals st) = (reply, cache)"
    by (metis surj_pair)
  obtain res cache' where http: "http_resolve (hw_creds w) (hw_mode w) (Some (makeCredentialRequest rq)) cache = (res, cache')"
    by (metis surj_pair)
  note e = after_preflight_def pub http
  have valid: "principal_cache_ok (cw_json_parse (hw_creds w)) cache" if "cache_valid w st"
    using public_rejection_cache [OF pub that] .
  have valid': "principal_cache_ok (cw_json_parse (hw_creds w)) cache'" "res = fst (http_resolve (hw_creds w) (hw_mode w) (Some (makeCredentialRequest rq)) None)"
    if "cache_valid w st"
    using http_resolve_cached [OF valid [OF that], of "hw_mode w" "Some (makeCredentialRequest rq)"] http by simp_all
  have stay: "segment w rq key st (p, st\<lparr> hs_principals := c \<rparr>)"
    if "slot_key p = Some key" "permits p = {#}" "call_ok w rq p" "c = cache \<or> c = cache'" for p c
    using that assms(1) valid valid'(1) by (intro segment_stays) (auto simp: flags_def)
  have later: "segment w rq key st x" if "segment w rq key (st\<lparr> hs_principals := cache' \<rparr>) x" for x
    by (rule segment_trans [OF that assms(1)]) (use valid'(1) in \<open>simp_all add: flags_def\<close>)
  show ?thesis
  proof (cases "pp_rejection pf \<noteq> None \<or> reply \<noteq> None \<or> pp_protocolOnly pf")
    case True
    then show ?thesis
      using stay [of _ cache] assms(1) dispatch_pc [OF h, of None w key raw]
      by (auto simp: e segment_stays split: option.split)
  next
    case False
    show ?thesis
    proof (cases res)
      case (Inl err)
      then show ?thesis
        using False stay [of _ cache'] later [OF discovery_segment [OF assms(1) h]]
        by (simp add: e)
    next
      case (Inr r)
      show ?thesis
      proof (cases "cache_valid w st")
        case True
        then have "resolves_to w rq r" using valid'(2) Inr by (simp add: resolves_to_def)
        then show ?thesis
          using False later [OF resolution_segment [OF assms(1) h]] Inr by (simp add: e)
      qed (simp add: segment_def)
    qed
  qed
qed

lemma body_segment: "key \<noteq> [] \<Longrightarrow> segment w rq key st (after_body w rq now raw key st)"
  by (simp add: after_body_def preflight_segment confined_headers)

lemma with_body_segment: "key \<noteq> [] \<Longrightarrow> segment w rq key st (with_body w rq now b key st)"
  by (cases b) (auto simp: with_body_def body_segment intro: segment_stays split: option.split)

lemma capabilities_segment:
  assumes "key \<noteq> []" "call_ok w rq (AwaitCapabilities key r permit pf raw)"
    and "st1 = (if permit
       then st\<lparr> hs_verification := release CREDENTIAL_VERIFICATION_LIMIT_KEY (hs_verification st) \<rparr> else st)"
  shows "segment w rq key st1 (after_capabilities w rq now result key r permit pf raw st)"
proof -
  have h: "dispatch_headers_ok rq pf" "resolves_to w rq r" "key = res_cacheKey r"
    using assms(2) by (simp_all add: dispatch_headers_ok_def)
  have e: "after_capabilities w rq now result key r permit pf raw st = (case result of
      Inr capabilities \<Rightarrow>
        (dispatchToMcp rq pf raw key
           (Some \<lparr> pr_resolved = r, pr_capabilities = capabilities, pr_credentialsUnavailable = False,
                   pr_authInfo = wr_authInfo rq \<rparr>), st1)
    | Inl e \<Rightarrow>
        if canUseDiscoveryServer w raw \<and> isCapabilityAuthFailure e \<and> canDowngradeCapabilityAuthFailure w
        then dispatchDiscoveryMode w rq now pf raw key st1
        else (Answering key (credentialErrorResponse e (pp_credError pf)), st1))"
    unfolding after_capabilities_def Let_def assms(3) by (rule refl)
  show ?thesis
  proof (cases result)
    case (Inl err)
    then show ?thesis
      using discovery_segment [OF assms(1) h(1)] assms(1) unfolding e unfolding Inl by (simp add: segment_stays)
  next
    case (Inr capabilities)
    have "prepared_ok w rq key \<lparr> pr_resolved = r, pr_capabilities = capabilities, pr_credentialsUnavailable = False,
        pr_authInfo = wr_authInfo rq \<rparr>"
      using h by (simp add: prepared_ok_def)
    then show ?thesis
      using dispatch_pc [OF h(1), of _ w key raw] assms(1) unfolding e unfolding Inr by (simp add: segment_stays)
  qed
qed

section \<open>The invariant\<close>

text \<open>What every call that holds a slot has passed.\<close>

definition front_door :: "http_world \<Rightarrow> web_request \<Rightarrow> bool" where
  "front_door w rq \<longleftrightarrow>
     hostOriginAllowed (hw_origin w) (hw_env w) rq \<and> wr_pathname rq \<in> {js ''/mcp'', js ''/api/mcp''} \<and>
     ascii_upper (wr_method rq) \<in> {js ''POST'', js ''GET'', js ''DELETE''}"

definition holder_ok :: "http_world \<Rightarrow> web_request \<Rightarrow> http_pc \<Rightarrow> bool" where
  "holder_ok w rq p \<longleftrightarrow>
     (\<forall>key. slot_key p = Some key \<longrightarrow> key \<noteq> [] \<and> front_door w rq) \<and> call_ok w rq p"

fun shutdown_ok :: "bool \<times> bool \<times> bool \<times> nat \<Rightarrow> nat \<Rightarrow> bool" where
  "shutdown_ok (shutting, shut, timer, closes) n \<longleftrightarrow>
     closes = (if shut then 1 else 0) \<and> (timer \<longleftrightarrow> shutting \<and> \<not> shut) \<and> (shut \<longrightarrow> shutting) \<and>
     (shutting \<and> n = 0 \<longrightarrow> shut)"

definition http_inv :: "http_world \<Rightarrow> http_calls \<Rightarrow> http_state \<Rightarrow> bool" where
  "http_inv w cs st \<longleftrightarrow>
     slots_ok w (hs_inFlight st) (slots_held cs) \<and> slots_ok w (hs_verification st) (permits_held cs) \<and>
     cache_valid w st \<and> shutdown_ok (flags st) (size (slots_held cs)) \<and>
     (\<forall>c \<in> set cs. holder_ok w (fst c) (snd c))"

lemma sum_update:
  fixes f :: "'a \<Rightarrow> 'b multiset"
  assumes "i < length cs"
  obtains M where "(\<Sum>c\<leftarrow>cs. f c) = f (cs ! i) + M" "\<And>c. (\<Sum>c\<leftarrow>cs[i := c]. f c) = f c + M"
proof
  have "cs = take i cs @ cs ! i # drop (Suc i) cs" using assms by (rule id_take_nth_drop)
  then have "(\<Sum>c\<leftarrow>cs. f c) = (\<Sum>c\<leftarrow>take i cs @ cs ! i # drop (Suc i) cs. f c)" by simp
  then show "(\<Sum>c\<leftarrow>cs. f c) = f (cs ! i) + ((\<Sum>c\<leftarrow>take i cs. f c) + (\<Sum>c\<leftarrow>drop (Suc i) cs. f c))"
    by (simp add: ac_simps)
  show "(\<Sum>c\<leftarrow>cs[i := c]. f c) = f c + ((\<Sum>c\<leftarrow>take i cs. f c) + (\<Sum>c\<leftarrow>drop (Suc i) cs. f c))" for c
    using assms by (simp add: upd_conv_take_nth_drop ac_simps)
qed

lemma slots_active: "slots_ok w f M \<Longrightarrow> active f = size M"
  by (simp add: in_use_def)

lemma shutdown_busy: "shutdown_ok fl (Suc n) \<Longrightarrow> shutdown_ok fl (Suc m)"
  by (cases fl) auto

lemma shutdown_open: "shutdown_ok (s, c, t, k) n \<Longrightarrow> \<not> s \<Longrightarrow> shutdown_ok (s, c, t, k) m"
  by simp

lemma holder_update:
  assumes "\<forall>c \<in> set cs. holder_ok w (fst c) (snd c)" "holder_ok w rq p"
  shows "\<forall>c \<in> set (cs[i := (rq, p)]). holder_ok w (fst c) (snd c)"
  using assms set_update_subset_insert by fastforce

text \<open>A segment of a call that holds a slot keeps the invariant.\<close>

lemma segment_keeps:
  assumes inv: "http_inv w cs st" and i: "i < length cs" "cs ! i = (rq, p0)" "slot_key p0 = Some key"
    and seg: "segment w rq key st1 (p, st')"
    and st1: "hs_inFlight st1 = hs_inFlight st" "flags st1 = flags st" "hs_principals st1 = hs_principals st"
      "\<And>V. slots_ok w (hs_verification st) (permits p0 + V) \<Longrightarrow> slots_ok w (hs_verification st1) V"
  shows "http_inv w (cs[i := (rq, p)]) st'"
proof -
  obtain M where m: "slots_held cs = slot_of (snd (cs ! i)) + M" "\<And>c. slots_held (cs[i := c]) = slot_of (snd c) + M"
    unfolding slots_held_def by (rule sum_update [OF i(1), of "\<lambda>c. slot_of (snd c)"]) blast
  obtain V where v: "permits_held cs = permits (snd (cs ! i)) + V" "\<And>c. permits_held (cs[i := c]) = permits (snd c) + V"
    unfolding permits_held_def by (rule sum_update [OF i(1), of "\<lambda>c. permits (snd c)"]) blast
  have M: "slots_held cs = add_mset key M" "\<And>c. slots_held (cs[i := c]) = slot_of (snd c) + M"
    using m i(2,3) by (simp_all add: slot_of_def)
  have V: "permits_held cs = permits p0 + V" "\<And>c. permits_held (cs[i := c]) = permits (snd c) + V"
    using v i(2) by simp_all
  have old: "holder_ok w rq p0" using inv i(1,2) nth_mem [OF i(1)] unfolding http_inv_def by (metis fst_conv snd_conv)
  have valid: "cache_valid w st1" using inv st1(3) by (simp add: http_inv_def)
  then obtain k' where s: "slot_key p = Some k'" "k' \<noteq> []"
      "\<And>N. slots_ok w (hs_inFlight st1) (add_mset key N) \<Longrightarrow> slots_ok w (hs_inFlight st') (add_mset k' N)"
      "\<And>N. slots_ok w (hs_verification st1) N \<Longrightarrow> slots_ok w (hs_verification st') (permits p + N)"
      "flags st' = flags st1" "cache_valid w st'" "call_ok w rq p"
    using seg unfolding segment_def by auto
  have "slots_held (cs[i := (rq, p)]) = add_mset k' M" using s(1) by (simp add: M(2) slot_of_def)
  moreover have "slots_ok w (hs_inFlight st') (add_mset k' M)" using inv s(3) st1(1) M(1) by (simp add: http_inv_def)
  moreover have "slots_ok w (hs_verification st') (permits_held (cs[i := (rq, p)]))"
    using inv s(4) st1(4) V by (simp add: http_inv_def)
  moreover have "shutdown_ok (flags st') (size (add_mset k' M))"
    using inv s(5) st1(2) M(1) shutdown_busy unfolding http_inv_def by (metis size_add_mset)
  moreover have "\<forall>c \<in> set (cs[i := (rq, p)]). holder_ok w (fst c) (snd c)"
    using inv old s(1,2,7) i(3) by (intro holder_update) (simp_all add: http_inv_def holder_ok_def)
  ultimately show ?thesis using s(6) unfolding http_inv_def by metis
qed


section \<open>Arrivals\<close>

definition arrives :: "http_world \<Rightarrow> web_request \<Rightarrow> http_state \<Rightarrow> http_pc \<times> http_state \<Rightarrow> bool" where
  "arrives w rq st res \<longleftrightarrow> (case res of (p, st') \<Rightarrow>
     slot_key p = None \<and> permits p = {#} \<and> call_ok w rq p \<and> hs_inFlight st' = hs_inFlight st \<and>
       hs_verification st' = hs_verification st \<and> flags st' = flags st \<and> cache_valid w st' \<or>
     \<not> hs_shuttingDown st \<and> front_door w rq \<and>
       (\<exists>key st1. key \<noteq> [] \<and> (\<forall>M. slots_ok w (hs_inFlight st) M \<longrightarrow> slots_ok w (hs_inFlight st1) (add_mset key M)) \<and>
          hs_verification st1 = hs_verification st \<and> flags st1 = flags st \<and> hs_principals st1 = hs_principals st \<and>
          segment w rq key st1 (p, st')))"

lemma arrives_admitted:
  assumes "\<not> hs_shuttingDown st" "front_door w rq" "key \<noteq> []" "segment w rq key st1 res"
    and "\<And>M. slots_ok w (hs_inFlight st) M \<Longrightarrow> slots_ok w (hs_inFlight st1) (add_mset key M)"
    and "hs_verification st1 = hs_verification st" "flags st1 = flags st" "hs_principals st1 = hs_principals st"
  shows "arrives w rq st res"
proof (cases res)
  case (Pair p st')
  show ?thesis
    unfolding arrives_def Pair prod.case by (rule disjI2, intro conjI exI [of _ key] exI [of _ st1])
      (use assms Pair in auto)
qed

lemma health_cache:
  assumes "health_reply w st = (reply, st')" "cache_valid w st"
  shows "cache_valid w st'" "\<exists>c. st' = st\<lparr> hs_principals := c \<rparr>"
proof -
  obtain r c where v: "validateHttpCredentialConfiguration (hw_creds w) (hs_principals st) = (r, c)" by (metis surj_pair)
  then have st': "st' = st\<lparr> hs_principals := c \<rparr>" using assms(1) by (simp add: health_reply_def)
  have "principal_cache_ok (cw_json_parse (hw_creds w)) c"
    using v assms(2) principalMap_cached(2) [OF assms(2)]
    by (auto simp: validateHttpCredentialConfiguration_def split: sum.splits credential_mode.splits prod.splits)
  with st' show "cache_valid w st'" "\<exists>c. st' = st\<lparr> hs_principals := c \<rparr>" by auto
qed

lemma limit_key_nonempty: "requestLimitKey env rq \<noteq> []"
  by (simp add: requestLimitKey_def Let_def js_simps)

lemma admit_arrives:
  assumes "cache_valid w st" "\<not> hs_shuttingDown st" "front_door w rq"
  shows "arrives w rq st (admit w rq now st)"
proof -
  let ?key = "requestLimitKey (hw_env w) rq"
  obtain a f where acq: "acquire (hw_maxTotal w) (hw_maxPerKey w) ?key (hs_inFlight st) = (a, f)" by (metis surj_pair)
  obtain ok st2 where t: "take_rate w now ?key (st\<lparr> hs_inFlight := f \<rparr>) = (ok, st2)" by (metis surj_pair)
  obtain l where st2: "st2 = st\<lparr> hs_inFlight := f, hs_limiter := l \<rparr>" using take_rate_frame [OF t] by blast
  show ?thesis
  proof (cases a)
    case (Refused sc m)
    then show ?thesis
      using acquire_pool(2) [OF acq [unfolded Refused]] assms(1) by (simp add: admit_def Let_def acq arrives_def flags_def)
  next
    case Admitted
    have "segment w rq ?key st2 (admit w rq now st)"
      using limit_key_nonempty body_segment [OF limit_key_nonempty, where now = now]
      by (auto simp: admit_def Let_def acq Admitted t segment_stays split: bool.split)
    moreover have "slots_ok w (hs_inFlight st2) (add_mset ?key M)" if "slots_ok w (hs_inFlight st) M" for M
      using acquire_pool(1) [OF acq [unfolded Admitted] that] by (simp add: st2)
    ultimately show ?thesis
      using assms(2,3) limit_key_nonempty by (intro arrives_admitted [of st w rq ?key st2]) (simp_all add: st2 flags_def)
  qed
qed

lemma swept_frame:
  "hs_inFlight (runIdleSweep w now st) = hs_inFlight st" "hs_verification (runIdleSweep w now st) = hs_verification st"
  "flags (runIdleSweep w now st) = flags st" "hs_principals (runIdleSweep w now st) = hs_principals st"
  "hs_shuttingDown (runIdleSweep w now st) = hs_shuttingDown st"
  by (simp_all add: runIdleSweep_def flags_def)

lemma fetch_arrives:
  assumes "cache_valid w st"
  shows "arrives w rq st (begin_fetch w rq now st)"
proof -
  define st1 where "st1 = (if hw_sweepOnRequest w then runIdleSweep w now st else st)"
  have same: "hs_inFlight st1 = hs_inFlight st" "hs_verification st1 = hs_verification st" "flags st1 = flags st"
      "hs_principals st1 = hs_principals st" "hs_shuttingDown st1 = hs_shuttingDown st"
    by (simp_all add: st1_def swept_frame)
  obtain reply st2 where h: "health_reply w st1 = (reply, st2)" by (metis surj_pair)
  have sent: "arrives w rq st1 (Sent x, st1)" for x using assms same by (simp add: arrives_def)
  have health: "arrives w rq st1 (Sent reply, st2)"
    using health_cache [OF h] assms same by (auto simp: arrives_def flags_def)
  have adm: "arrives w rq st1 (admit w rq now st1)" if "\<not> hs_shuttingDown st1" "front_door w rq"
    using admit_arrives that assms same by simp
  have "arrives w rq st1 (begin_fetch w rq now st)"
    using sent health adm unfolding begin_fetch_def Let_def st1_def [symmetric]
    by (auto simp: h front_door_def)
  then show ?thesis by (simp add: arrives_def same split: prod.splits)
qed


section \<open>Every step\<close>

lemma arrival_keeps:
  assumes inv: "http_inv w cs st" and arr: "arrives w rq st (p, st')"
  shows "http_inv w (cs @ [(rq, p)]) st'"
proof -
  have sums: "slots_held (cs @ [(rq, p)]) = slot_of p + slots_held cs"
    "permits_held (cs @ [(rq, p)]) = permits p + permits_held cs"
    by (simp_all add: slots_held_def permits_held_def)
  from arr consider (quiet) "slot_key p = None" "permits p = {#}" "call_ok w rq p" "hs_inFlight st' = hs_inFlight st"
      "hs_verification st' = hs_verification st" "flags st' = flags st" "cache_valid w st'"
    | (holds) key st1 where "\<not> hs_shuttingDown st" "front_door w rq" "key \<noteq> []"
      "\<And>M. slots_ok w (hs_inFlight st) M \<Longrightarrow> slots_ok w (hs_inFlight st1) (add_mset key M)"
      "hs_verification st1 = hs_verification st" "flags st1 = flags st" "hs_principals st1 = hs_principals st"
      "segment w rq key st1 (p, st')"
    unfolding arrives_def by auto
  then show ?thesis
  proof cases
    case quiet
    then show ?thesis
      using inv by (auto simp: http_inv_def sums slot_of_def holder_ok_def)
  next
    case holds
    have "cache_valid w st1" using inv holds(7) by (simp add: http_inv_def)
    then obtain k' where s: "slot_key p = Some k'" "k' \<noteq> []"
        "\<And>N. slots_ok w (hs_inFlight st1) (add_mset key N) \<Longrightarrow> slots_ok w (hs_inFlight st') (add_mset k' N)"
        "\<And>N. slots_ok w (hs_verification st1) N \<Longrightarrow> slots_ok w (hs_verification st') (permits p + N)"
        "flags st' = flags st1" "cache_valid w st'" "call_ok w rq p"
      using holds(8) unfolding segment_def by auto
    have "slots_ok w (hs_inFlight st') (slot_of p + slots_held cs)"
      using inv s(1,3) holds(4) by (simp add: http_inv_def slot_of_def)
    moreover have "slots_ok w (hs_verification st') (permits p + permits_held cs)"
      using inv s(4) holds(5) by (simp add: http_inv_def)
    moreover have "shutdown_ok (flags st') (size (slot_of p + slots_held cs))"
      using inv s(5) holds(1,6) shutdown_open unfolding http_inv_def flags_def by metis
    ultimately show ?thesis
      using inv s holds(2) by (auto simp: http_inv_def sums holder_ok_def)
  qed
qed

lemma maybe_close_frame:
  "hs_inFlight (maybeCloseMcpHandlerAfterDrain st) = hs_inFlight st"
  "hs_verification (maybeCloseMcpHandlerAfterDrain st) = hs_verification st"
  "hs_principals (maybeCloseMcpHandlerAfterDrain st) = hs_principals st"
  by (simp_all add: maybeCloseMcpHandlerAfterDrain_def closeMcpHandler_def)

lemma maybe_close_shutdown:
  "shutdown_ok (flags st) (Suc n) \<Longrightarrow>
     shutdown_ok (flags (maybeCloseMcpHandlerAfterDrain st)) (active (hs_inFlight st))"
  by (auto simp: flags_def maybeCloseMcpHandlerAfterDrain_def closeMcpHandler_def)

lemma consumed_keeps:
  assumes inv: "http_inv w cs st" and i: "i < length cs" "cs ! i = (rq, p)" "slot_key p = Some key" "permits p = {#}"
  shows "http_inv w (cs[i := (rq, Ended)]) (finalize_request key st)"
proof -
  obtain M where m: "slots_held cs = slot_of (snd (cs ! i)) + M" "\<And>c. slots_held (cs[i := c]) = slot_of (snd c) + M"
    unfolding slots_held_def by (rule sum_update [OF i(1), of "\<lambda>c. slot_of (snd c)"]) blast
  obtain V where v: "permits_held cs = permits (snd (cs ! i)) + V" "\<And>c. permits_held (cs[i := c]) = permits (snd c) + V"
    unfolding permits_held_def by (rule sum_update [OF i(1), of "\<lambda>c. permits (snd c)"]) blast
  have sums: "slots_held cs = add_mset key M" "slots_held (cs[i := (rq, Ended)]) = M"
      "permits_held (cs[i := (rq, Ended)]) = permits_held cs"
    using m v i by (simp_all add: slot_of_def)
  have "holder_ok w rq p" using inv i(1,2) nth_mem [OF i(1)] unfolding http_inv_def by (metis fst_conv snd_conv)
  then have k: "key \<noteq> []" using i(3) by (simp add: holder_ok_def)
  let ?st = "st\<lparr> hs_inFlight := release key (hs_inFlight st) \<rparr>"
  have f: "finalize_request key st = maybeCloseMcpHandlerAfterDrain ?st" using k by (simp add: finalize_request_def)
  have ok: "slots_ok w (hs_inFlight ?st) M"
    using inv sums(1) pool.put_slot [where maxTotal = "hw_maxTotal w" and maxPerKey = "hw_maxPerKey w" and s = "hs_inFlight st"
        and M = "add_mset key M" and k = key] by (simp add: http_inv_def)
  have "shutdown_ok (flags ?st) (Suc (size M))" using inv sums(1) by (simp add: http_inv_def flags_def)
  from maybe_close_shutdown [OF this] slots_active [OF ok]
  have "shutdown_ok (flags (finalize_request key st)) (size M)" by (simp add: f)
  moreover have "\<forall>c \<in> set (cs[i := (rq, Ended)]). holder_ok w (fst c) (snd c)"
    using inv by (intro holder_update) (simp_all add: http_inv_def holder_ok_def)
  ultimately show ?thesis
    using inv ok sums by (simp add: http_inv_def f maybe_close_frame)
qed

lemma shutdown_keeps:
  assumes "http_inv w cs st"
  shows "http_inv w cs (drain st)" "hs_shuttingDown st \<Longrightarrow> http_inv w cs (closeMcpHandler st)"
proof -
  have a: "active (hs_inFlight st) = size (slots_held cs)" using assms by (auto simp: http_inv_def intro: slots_active)
  show "http_inv w cs (drain st)"
    using assms a by (auto simp: http_inv_def drain_def flags_def maybeCloseMcpHandlerAfterDrain_def closeMcpHandler_def)
  show "hs_shuttingDown st \<Longrightarrow> http_inv w cs (closeMcpHandler st)"
    using assms by (auto simp: http_inv_def flags_def closeMcpHandler_def)
qed


lemma settle_keeps:
  assumes inv: "http_inv w cs st" and i: "i < length cs" "cs ! i = (rq, AwaitCapabilities key r permit pf raw)"
    and after: "after_capabilities w rq now result key r permit pf raw (st\<lparr> hs_capabilities := caps \<rparr>) = (p, st')"
  shows "http_inv w (cs[i := (rq, p)]) st'"
proof -
  let ?p0 = "AwaitCapabilities key r permit pf raw"
  let ?st = "st\<lparr> hs_capabilities := caps \<rparr>"
  define st1 where "st1 = (if permit
    then ?st\<lparr> hs_verification := release CREDENTIAL_VERIFICATION_LIMIT_KEY (hs_verification ?st) \<rparr> else ?st)"
  have "holder_ok w rq ?p0" using inv i nth_mem [OF i(1)] unfolding http_inv_def by (metis fst_conv snd_conv)
  then have k: "key \<noteq> []" "call_ok w rq ?p0" unfolding holder_ok_def slot_key.simps by blast+
  have seg: "segment w rq key st1 (p, st')"
    using capabilities_segment [OF k st1_def, of now result] after by simp
  have freed: "slots_ok w (hs_verification st1) V" if "slots_ok w (hs_verification st) (permits ?p0 + V)" for V
    using that pool.put_slot [where maxTotal = "hw_maxTotal w" and maxPerKey = "hw_maxPerKey w" and
        s = "hs_verification st" and M = "add_mset CREDENTIAL_VERIFICATION_LIMIT_KEY V" and
        k = CREDENTIAL_VERIFICATION_LIMIT_KEY]
    by (cases permit) (simp_all add: st1_def)
  show ?thesis
    by (rule segment_keeps [OF inv i _ seg _ _ _ freed]) (simp_all add: st1_def flags_def)
qed

lemma held_nonempty: "http_inv w cs st \<Longrightarrow> i < length cs \<Longrightarrow> cs ! i = (rq, p) \<Longrightarrow> slot_key p = Some key \<Longrightarrow> key \<noteq> []"
  unfolding http_inv_def holder_ok_def by (metis fst_conv nth_mem snd_conv)

lemma step_keeps:
  assumes inv: "http_inv w cs st" and step: "http_step w now ev (cs, st) = Some (cs', st')"
  shows "http_inv w cs' st'"
proof (cases ev)
  case (Arrive rq)
  have "cache_valid w st" using inv by (simp add: http_inv_def)
  from fetch_arrives [OF this, of rq now] show ?thesis
    using arrival_keeps [OF inv] step by (cases "begin_fetch w rq now st") (auto simp: Arrive)
next
  case (Body i b)
  then obtain rq key p where c: "i < length cs" "cs ! i = (rq, ReadingBody key)" "with_body w rq now b key st = (p, st')"
      "cs' = cs[i := (rq, p)]"
    using step by (auto split: if_splits prod.splits http_pc.splits)
  have "key \<noteq> []" using held_nonempty [OF inv c(1,2)] by simp
  then have "segment w rq key st (p, st')" using with_body_segment c(3) by metis
  from segment_keeps [OF inv c(1,2) _ this] show ?thesis by (simp add: c(4))
next
  case (CapabilitiesSettle i result caps)
  then show ?thesis
    using step settle_keeps [OF inv] by (auto split: if_splits prod.splits http_pc.splits)
next
  case (McpReturns i ok)
  then obtain rq key prep hs raw where c: "i < length cs" "cs ! i = (rq, InMcp key prep hs raw)" "st' = st"
      "cs' = cs[i := (rq, if ok then Relaying key else Answering key internalMcpErrorResponse)]"
    using step by (auto split: if_splits prod.splits http_pc.splits)
  have "segment w rq key st (if ok then Relaying key else Answering key internalMcpErrorResponse, st)"
    using held_nonempty [OF inv c(1,2)] by (auto intro: segment_stays)
  from segment_keeps [OF inv c(1,2) _ this] show ?thesis by (simp add: c(3,4))
next
  case (Consumed i)
  then show ?thesis
    using step consumed_keeps [OF inv] by (fastforce split: if_splits prod.splits http_pc.splits)
next
  case IdleSweep
  then show ?thesis using inv step by (auto simp: http_inv_def swept_frame split: if_splits)
next
  case Drain
  then show ?thesis using shutdown_keeps(1) [OF inv] step by simp
next
  case ForcedClose
  then have "hs_forcedTimer st" "st' = closeMcpHandler st" "cs' = cs" using step by (simp_all split: if_splits)
  then show ?thesis using shutdown_keeps(2) [OF inv] inv by (auto simp: http_inv_def flags_def)
next
  case Close
  have "hs_shuttingDown (drain st)" by (simp add: drain_def maybeCloseMcpHandlerAfterDrain_def closeMcpHandler_def)
  then show ?thesis
    using shutdown_keeps(2) [OF shutdown_keeps(1) [OF inv]] step by (simp add: Close close_pipeline_def)
qed

lemma reach_inv: "http_reach w cs st \<Longrightarrow> http_inv w cs st"
proof (induction rule: http_reach.induct)
  case http_boot
  then show ?case
    by (simp add: http_inv_def http_start_def slots_held_def permits_held_def in_use_empty flags_def principal_cache_ok_def)
next
  case http_event
  then show ?case using step_keeps by blast
qed

end
