(* ===== verification/Http_Safety.thy ===== *)
theory Http_Safety
  imports Http_Slots
begin

text \<open>
  What the invariant of the HTTP pipeline says of its runs: which calls its limiter counts, whose credentials a
  server is built with, that shutting down ends, and the one way in which a slot is lost.
\<close>

section \<open>Slots and calls\<close>

lemma count_slots_held: "count (slots_held cs) k = length (filter (\<lambda>c. slot_key (snd c) = Some k) cs)"
  by (induction cs) (auto simp: slots_held_def slot_of_def split: option.split)

lemma held_counted: "c \<in> set cs \<Longrightarrow> slot_key (snd c) = Some k \<Longrightarrow> 0 < count (slots_held cs) k"
  by (induction cs) (auto simp: slots_held_def slot_of_def)

lemma size_slots_held: "size (slots_held cs) = length (filter (\<lambda>c. slot_key (snd c) \<noteq> None) cs)"
  by (induction cs) (auto simp: slots_held_def slot_of_def split: option.split)

fun verifying :: "http_pc \<Rightarrow> bool" where
  "verifying (AwaitCapabilities key r permit pf raw) = permit"
| "verifying _ = False"

lemma permits_verifying: "permits p = (if verifying p then {#CREDENTIAL_VERIFICATION_LIMIT_KEY#} else {#})"
proof (cases p)
  case (AwaitCapabilities key r permit pf raw)
  then show ?thesis by (cases permit) simp_all
qed simp_all

lemma permits_held_replicate:
  "permits_held cs = replicate_mset (length (filter (\<lambda>c. verifying (snd c)) cs)) CREDENTIAL_VERIFICATION_LIMIT_KEY"
  by (induction cs) (simp_all add: permits_held_def permits_verifying)

text \<open>
  A call is in progress from its admission until its answer has been consumed, under the key that it stands under;
  a call whose promise was rejected is over.
\<close>

fun progress_key :: "http_pc \<Rightarrow> jsstring option" where
  "progress_key (ReadingBody key) = Some key"
| "progress_key (AwaitCapabilities key r permit pf raw) = Some key"
| "progress_key (InMcp key prep hs raw) = Some key"
| "progress_key (Answering key reply) = Some key"
| "progress_key (Relaying key) = Some key"
| "progress_key (Escaped key) = None"
| "progress_key (Sent reply) = None"
| "progress_key Ended = None"

fun rejected_promise :: "http_pc \<Rightarrow> bool" where
  "rejected_promise (Escaped key) = True"
| "rejected_promise _ = False"

lemma slot_key_split:
  "slot_key p = (case p of Escaped key \<Rightarrow> Some key | _ \<Rightarrow> progress_key p)"
  by (cases p) simp_all

lemma slot_or_leak:
  assumes "\<forall>c \<in> set cs. holder_ok w (fst c) (snd c)"
  shows "length (filter (\<lambda>c. slot_key (snd c) \<noteq> None) cs) =
      length (filter (\<lambda>c. progress_key (snd c) \<noteq> None) cs) + length (filter (\<lambda>c. rejected_promise (snd c)) cs) \<and>
    length (filter (\<lambda>c. slot_key (snd c) = Some key) cs) =
      length (filter (\<lambda>c. progress_key (snd c) = Some key) cs) +
      (if key = DISCOVERY_LIMIT_KEY then length (filter (\<lambda>c. rejected_promise (snd c)) cs) else 0)"
  using assms
proof (induction cs)
  case (Cons c cs)
  then show ?case by (cases "snd c") (auto simp: holder_ok_def)
qed simp

text \<open>
  (C9) What the limiter counts: in every reachable state its total is the number of calls in progress and of those
  whose promise was rejected, whose slots are lost, together at most \<open>maxTotal\<close>. Its count under a key is the
  number of calls in progress under that key, and under the shared key of discovery mode the lost slots besides;
  so under every other key, and under that one as long as no promise was rejected, it is exact; it is at most
  \<open>maxPerKey\<close>. The verification limiter counts the calls that verify a fresh header credential, and no call ever
  loses its permit; there are at most \<open>maxPerKey\<close>.
\<close>

theorem slots_are_requests:
  assumes "http_reach w cs st"
  shows "active (hs_inFlight st) =
      length (filter (\<lambda>c. progress_key (snd c) \<noteq> None) cs) + length (filter (\<lambda>c. rejected_promise (snd c)) cs) \<and>
    active (hs_inFlight st) \<le> hw_maxTotal w \<and>
    slots (hs_inFlight st) key = length (filter (\<lambda>c. progress_key (snd c) = Some key) cs) +
      (if key = DISCOVERY_LIMIT_KEY then length (filter (\<lambda>c. rejected_promise (snd c)) cs) else 0) \<and>
    slots (hs_inFlight st) key \<le> hw_maxPerKey w \<and>
    active (hs_verification st) = length (filter (\<lambda>c. verifying (snd c)) cs) \<and>
    active (hs_verification st) \<le> hw_maxPerKey w"
proof -
  have inv: "slots_ok w (hs_inFlight st) (slots_held cs)" "slots_ok w (hs_verification st) (permits_held cs)"
      "\<forall>c \<in> set cs. holder_ok w (fst c) (snd c)"
    using reach_inv [OF assms] by (simp_all add: http_inv_def)
  have "count (permits_held cs) CREDENTIAL_VERIFICATION_LIMIT_KEY \<le> hw_maxPerKey w"
    using inv(2) unfolding in_use_def by blast
  then have v: "active (hs_verification st) = length (filter (\<lambda>c. verifying (snd c)) cs) \<and>
      active (hs_verification st) \<le> hw_maxPerKey w"
    using inv(2) unfolding in_use_def by (auto simp: permits_held_replicate)
  have s: "active (hs_inFlight st) = length (filter (\<lambda>c. slot_key (snd c) \<noteq> None) cs)"
      "active (hs_inFlight st) \<le> hw_maxTotal w"
      "slots (hs_inFlight st) key = length (filter (\<lambda>c. slot_key (snd c) = Some key) cs)"
      "slots (hs_inFlight st) key \<le> hw_maxPerKey w"
    using inv(1) unfolding in_use_def by (auto simp: count_slots_held size_slots_held)
  show ?thesis using s v slot_or_leak [OF inv(3), of key] by metis
qed

section \<open>Whose credentials\<close>

lemma reach_call:
  assumes "http_reach w cs st" "(rq, p) \<in> set cs"
  shows "holder_ok w rq p"
  using reach_inv [OF assms(1)] assms(2) by (auto simp: http_inv_def)

lemma discovery_config:
  assumes "httpDiscoveryCredentialResolution cw k = Inr r"
  shows "applicationKey (res_config r) = DISCOVERY_MODE_CREDENTIAL"
proof -
  obtain c where c: "configFromMaterial cw
      \<lparr> cm_applicationKeyId = Some DISCOVERY_MODE_CREDENTIAL, cm_applicationKey = Some DISCOVERY_MODE_CREDENTIAL,
        cm_masterKeyId = None, cm_masterKey = None \<rparr> (httpConfigOptions (cw_env cw)) = Inr c"
      "applicationKey (res_config r) = applicationKey c"
    using assms by (auto simp: httpDiscoveryCredentialResolution_def js_bind_Inr resolution_of_def Let_def)
  then show ?thesis using configFromMaterial_Inr(2) [OF c(1)] by simp
qed

text \<open>
  (C8) A server is built with the credentials of its own request: whenever a call is with the MCP handler, however
  the calls before it were interleaved, its host and origin had passed the policy; the factory, if it builds a
  server at all, takes the configuration from the credentials that the call's request alone resolves to, under
  their key, or it takes the placeholder of discovery mode, marked as such and without scopes; and no header
  that names a credential is handed on.
\<close>

theorem credentialed_dispatch:
  assumes "http_reach w cs st" "(rq, InMcp key prep hs raw) \<in> set cs"
    and "createPreparedMcpServer prep = Inr (config, capabilities, unavailable, scopes)"
  shows "hostOriginAllowed (hw_origin w) (hw_env w) rq \<and>
    (if unavailable
     then applicationKey config = DISCOVERY_MODE_CREDENTIAL \<and> key = DISCOVERY_LIMIT_KEY \<and> scopes = None
     else \<exists>r. fst (http_resolve (hw_creds w) (hw_mode w) (Some (makeCredentialRequest rq)) None) = Inr r \<and>
       config = res_config r \<and> key = res_cacheKey r \<and>
       scopes = map_option (\<lambda>a. filter (prefix (js ''b2:'')) (ai_scopes a)) (wr_authInfo rq)) \<and>
    (\<forall>name \<in> fst ` set hs. ascii_lower name \<notin> set CREDENTIAL_HEADER_DETECTION_NAMES)"
proof -
  have h: "front_door w rq" "headers_confined rq hs" "\<And>p. prep = Some p \<Longrightarrow> prepared_ok w rq key p"
    using reach_call [OF assms(1,2)] by (auto simp: holder_ok_def)
  obtain p where p: "prep = Some p" "config = res_config (pr_resolved p)" "unavailable = pr_credentialsUnavailable p"
      "scopes = (if unavailable then None
         else map_option (\<lambda>a. filter (prefix (js ''b2:'')) (ai_scopes a)) (pr_authInfo p))"
    using assms(3) by (auto simp: createPreparedMcpServer_def split: option.splits)
  have "applicationKey config = DISCOVERY_MODE_CREDENTIAL" "key = DISCOVERY_LIMIT_KEY" if unavailable
  proof -
    have r: "httpDiscoveryCredentialResolution (hw_creds w) (Some DISCOVERY_LIMIT_KEY) = Inr (pr_resolved p)"
        "key = res_cacheKey (pr_resolved p)"
      using h(3) [OF p(1)] that by (simp_all add: prepared_ok_def p(3))
    then show "key = DISCOVERY_LIMIT_KEY" using discovery_key by simp
    show "applicationKey config = DISCOVERY_MODE_CREDENTIAL"
      using discovery_config [OF r(1)] by (simp add: p(2))
  qed
  then show ?thesis
    using h p allowed_not_credential
    by (auto simp: front_door_def headers_confined_def prepared_ok_def resolves_to_def)
qed

section \<open>Shutting down\<close>

text \<open>
  The MCP handler is closed at most once, only after the shutdown has begun, and as soon as the shutdown has
  begun and no call is in progress; until then the timer that closes it by force is armed.
\<close>

theorem handler_closes_once:
  assumes "http_reach w cs st"
  shows "hs_mcpCloses st = (if hs_mcpClosed st then 1 else 0) \<and> (hs_mcpClosed st \<longrightarrow> hs_shuttingDown st) \<and>
    (hs_shuttingDown st \<and> (\<forall>c \<in> set cs. slot_key (snd c) = None) \<longrightarrow> hs_mcpClosed st) \<and>
    (hs_forcedTimer st \<longleftrightarrow> hs_shuttingDown st \<and> \<not> hs_mcpClosed st)"
proof -
  have "shutdown_ok (flags st) (size (slots_held cs))" using reach_inv [OF assms] by (simp add: http_inv_def)
  moreover have "slots_held cs = {#}" if "\<forall>c \<in> set cs. slot_key (snd c) = None"
    using that by (simp add: size_slots_held filter_empty_conv flip: size_eq_0_iff_empty)
  ultimately show ?thesis by (simp add: flags_def)
qed

text \<open>How many waits a call has before it at most.\<close>

fun work :: "http_pc \<Rightarrow> nat" where
  "work (ReadingBody key) = 4"
| "work (AwaitCapabilities key r permit pf raw) = 3"
| "work (InMcp key prep hs raw) = 2"
| "work (Answering key reply) = 1"
| "work (Relaying key) = 1"
| "work _ = 0"

definition work_left :: "http_calls \<Rightarrow> nat" where
  "work_left cs = (\<Sum>c\<leftarrow>cs. work (snd c))"

fun of_call :: "http_event \<Rightarrow> bool" where
  "of_call (Body i b) = True"
| "of_call (CapabilitiesSettle i result caps) = True"
| "of_call (McpReturns i ok) = True"
| "of_call (Consumed i) = True"
| "of_call _ = False"

lemma work_update:
  assumes "i < length cs" "cs ! i = (rq, p0)" "work p < work p0"
  shows "work_left (cs[i := (rq, p)]) < work_left cs"
proof -
  have "work p0 \<le> work_left cs"
    unfolding work_left_def using assms(1,2) nth_mem [OF assms(1)] by (force intro: member_le_sum_list)
  then show ?thesis
    using assms unfolding work_left_def by (simp add: map_update sum_list_update)
qed

lemma segment_work:
  "work (dispatchToMcp rq pf raw key prep) \<le> 2"
  "work (fst (dispatchDiscoveryMode w rq now pf raw key st)) \<le> 2"
  "work (fst (after_resolution w rq now pf raw key r st)) \<le> 3"
  by (auto simp: dispatchToMcp_def dispatchDiscoveryMode_def after_resolution_def Let_def
      split: prod.split sum.split admission.split bool.split if_splits)

lemma body_work: "work (fst (with_body w rq now b key st)) \<le> 3"
proof -
  have d: "work (fst (dispatchDiscoveryMode w rq now pf raw key st)) \<le> 3"
    "work (dispatchToMcp rq pf raw key prep) \<le> 3" for pf raw st prep
    by (rule order_trans [OF segment_work(2)] order_trans [OF segment_work(1)], simp)+
  have "work (fst (after_preflight w rq now pf raw key st)) \<le> 3" for pf raw
    using d segment_work(3) by (auto simp: after_preflight_def split: prod.split sum.split option.split)
  then show ?thesis by (auto simp: with_body_def after_body_def split: body_event.split option.split)
qed

lemma capabilities_work: "work (fst (after_capabilities w rq now result key r permit pf raw st)) \<le> 2"
  using segment_work(1,2) by (auto simp: after_capabilities_def Let_def split: sum.split)

lemma call_step_work:
  assumes "http_step w now ev (cs, st) = Some (cs', st')" "of_call ev"
  shows "work_left cs' < work_left cs"
proof (cases ev)
  case (Body i b)
  then obtain rq key p where c: "i < length cs" "cs ! i = (rq, ReadingBody key)" "with_body w rq now b key st = (p, st')"
      "cs' = cs[i := (rq, p)]"
    using assms(1) by (auto split: if_splits prod.splits http_pc.splits)
  then show ?thesis using body_work [of w rq now b key st] work_update [OF c(1,2), of p] by simp
next
  case (CapabilitiesSettle i result caps)
  then obtain rq key r permit pf raw p where c: "i < length cs" "cs ! i = (rq, AwaitCapabilities key r permit pf raw)"
      "after_capabilities w rq now result key r permit pf raw (st\<lparr> hs_capabilities := caps \<rparr>) = (p, st')"
      "cs' = cs[i := (rq, p)]"
    using assms(1) by (auto split: if_splits prod.splits http_pc.splits)
  then show ?thesis
    using capabilities_work [of w rq now result key r permit pf raw "st\<lparr> hs_capabilities := caps \<rparr>"]
      work_update [OF c(1,2), of p] by simp
qed (use assms work_update in \<open>auto split: if_splits prod.splits http_pc.splits\<close>)

lemma shut_arrival: "hs_shuttingDown st \<Longrightarrow> \<exists>reply. fst (begin_fetch w rq now st) = Sent reply"
  by (simp add: begin_fetch_def Let_def swept_frame)

lemma other_step_work:
  assumes "http_step w now ev (cs, st) = Some (cs', st')" "\<not> of_call ev" "hs_shuttingDown st"
  shows "work_left cs' = work_left cs"
proof (cases ev)
  case (Arrive rq)
  then show ?thesis
    using assms(1) shut_arrival [OF assms(3), of w rq now]
    by (cases "begin_fetch w rq now st") (auto simp: work_left_def)
qed (use assms in \<open>auto split: if_splits\<close>)

lemma work_enabled:
  assumes "c \<in> set cs" "0 < work (snd c)"
  shows "\<exists>ev s'. of_call ev \<and> http_step w now ev (cs, st) = Some s'"
proof -
  obtain i rq p where i: "i < length cs" "cs ! i = (rq, p)" "0 < work p"
    using assms by (metis in_set_conv_nth prod.collapse)
  show ?thesis
  proof (cases p)
    case (ReadingBody key)
    then show ?thesis using i by (intro exI [of _ "Body i BodyThrew"]) (simp split: prod.split)
  next
    case (AwaitCapabilities key r permit pf raw)
    then show ?thesis
      using i by (intro exI [of _ "CapabilitiesSettle i (Inl None) (hs_capabilities st)"]) (simp split: prod.split)
  next
    case (InMcp key prep hs raw)
    then show ?thesis using i by (intro exI [of _ "McpReturns i True"]) simp
  qed (use i in \<open>auto intro!: exI [of _ "Consumed i"]\<close>)
qed

lemma idle_closed:
  assumes "http_inv w cs st" "hs_shuttingDown st" "\<forall>c \<in> set cs. slot_key (snd c) = None"
  shows "hs_mcpClosed st"
proof -
  have "slots_held cs = {#}" using assms(3) size_slots_held [of cs] by (simp add: filter_empty_conv)
  then show ?thesis using assms(1,2) by (simp add: http_inv_def flags_def)
qed

text \<open>
  (C37) A shutdown ends: from its beginning every event of a call lowers the number of waits that are left and no
  event raises it; as long as one is left such an event is possible; and when none is left the MCP handler is
  closed, without force, unless the promise of some call was rejected.
\<close>

theorem shutdown_ends:
  assumes "http_reach w cs st" "hs_shuttingDown st"
  shows "(http_step w now ev (cs, st) = Some (cs', st') \<longrightarrow>
      work_left cs' \<le> work_left cs \<and> (of_call ev \<longrightarrow> work_left cs' < work_left cs)) \<and>
    (0 < work_left cs \<longrightarrow> (\<exists>ev s'. of_call ev \<and> http_step w now ev (cs, st) = Some s')) \<and>
    (work_left cs = 0 \<longrightarrow> hs_mcpClosed st \<or> (\<exists>rq key. (rq, Escaped key) \<in> set cs))"
proof (intro conjI impI)
  assume step: "http_step w now ev (cs, st) = Some (cs', st')"
  show "work_left cs' < work_left cs" if "of_call ev" by (rule call_step_work [OF step that])
  then show "work_left cs' \<le> work_left cs"
    using other_step_work [OF step _ assms(2)] by (cases "of_call ev") auto
next
  assume "0 < work_left cs"
  moreover have "work_left cs = 0" if "\<forall>c \<in> set cs. work (snd c) = 0"
    using that by (simp add: work_left_def sum_list_eq_0_iff)
  ultimately have "\<exists>c \<in> set cs. 0 < work (snd c)" by fastforce
  then show "\<exists>ev s'. of_call ev \<and> http_step w now ev (cs, st) = Some s'" using work_enabled by blast
next
  assume "work_left cs = 0"
  then have idle: "work p = 0" if "(rq, p) \<in> set cs" for rq p
    using that by (auto simp: work_left_def sum_list_nonneg_eq_0_iff)
  show "hs_mcpClosed st \<or> (\<exists>rq key. (rq, Escaped key) \<in> set cs)"
  proof (rule ccontr)
    assume no: "\<not> ?thesis"
    have "slot_key (snd c) = None" if "c \<in> set cs" for c
      using idle [of "fst c" "snd c"] no that by (cases c; cases "snd c") auto
    then show False using idle_closed [OF reach_inv [OF assms(1)] assms(2)] no by simp
  qed
qed

section \<open>A lost slot\<close>

lemma segment_flags: "segment w rq key st (p, st') \<Longrightarrow> cache_valid w st \<Longrightarrow> flags st' = flags st"
  by (simp add: segment_def)

lemma arrives_flags:
  assumes "arrives w rq st (p, st')" "cache_valid w st"
  shows "flags st' = flags st"
proof -
  from assms consider "flags st' = flags st"
    | key st1 where "segment w rq key st1 (p, st')" "flags st1 = flags st" "hs_principals st1 = hs_principals st"
    unfolding arrives_def by auto
  then show ?thesis using assms(2) segment_flags by cases metis+
qed

text \<open>A step closes the handler by force, by an explicit close, or because nothing is in progress.\<close>

lemma closing_step:
  assumes inv: "http_inv w cs st" and step: "http_step w now ev (cs, st) = Some (cs', st')" and shut: "hs_mcpClosed st'"
  shows "hs_mcpClosed st \<or> ev = ForcedClose \<or> ev = Close \<or> active (hs_inFlight st') = 0"
proof (cases ev)
  case (Arrive rq)
  have "cache_valid w st" using inv by (simp add: http_inv_def)
  then show ?thesis
    using step shut arrives_flags fetch_arrives [of w st rq now]
    by (cases "begin_fetch w rq now st") (auto simp: Arrive flags_def)
next
  case (Body i b)
  then obtain rq key p where c: "i < length cs" "cs ! i = (rq, ReadingBody key)" "with_body w rq now b key st = (p, st')"
    using step by (auto split: if_splits prod.splits http_pc.splits)
  have "key \<noteq> []" using held_nonempty [OF inv c(1,2)] by simp
  then have "segment w rq key st (p, st')" using with_body_segment c(3) by metis
  then show ?thesis using segment_flags inv shut by (fastforce simp: http_inv_def flags_def)
next
  case (CapabilitiesSettle i result caps)
  then obtain rq key r permit pf raw p where c: "i < length cs" "cs ! i = (rq, AwaitCapabilities key r permit pf raw)"
      "after_capabilities w rq now result key r permit pf raw (st\<lparr> hs_capabilities := caps \<rparr>) = (p, st')"
    using step by (auto split: if_splits prod.splits http_pc.splits)
  have "holder_ok w rq (AwaitCapabilities key r permit pf raw)"
    using inv c(1,2) nth_mem [OF c(1)] unfolding http_inv_def by (metis fst_conv snd_conv)
  then have k: "key \<noteq> []" "call_ok w rq (AwaitCapabilities key r permit pf raw)"
    unfolding holder_ok_def slot_key.simps by blast+
  let ?st = "st\<lparr> hs_capabilities := caps \<rparr>"
  define st1 where "st1 = (if permit
    then ?st\<lparr> hs_verification := release CREDENTIAL_VERIFICATION_LIMIT_KEY (hs_verification ?st) \<rparr> else ?st)"
  have "segment w rq key st1 (p, st')" using capabilities_segment [OF k st1_def, of now result] c(3) by simp
  then have "flags st' = flags st1" using segment_flags inv by (simp add: http_inv_def st1_def)
  then show ?thesis using shut by (simp add: flags_def st1_def split: if_splits)
qed (use step shut in \<open>auto simp: finalize_request_def maybeCloseMcpHandlerAfterDrain_def drain_def
    closeMcpHandler_def runIdleSweep_def split: if_splits prod.splits http_pc.splits\<close>)

text \<open>
  (C39) A call whose promise was rejected keeps its slot for ever: no event ends it, its key stays occupied, and a
  shutdown can no longer close the handler when the other calls are over, only by force.
\<close>

theorem escaped_slot_kept:
  assumes "http_reach w cs st" "i < length cs" "cs ! i = (rq, Escaped key)"
    and "http_step w now ev (cs, st) = Some (cs', st')"
  shows "cs' ! i = (rq, Escaped key) \<and> 0 < slots (hs_inFlight st') key \<and>
    (hs_mcpClosed st' \<longrightarrow> hs_mcpClosed st \<or> ev = ForcedClose \<or> ev = Close)"
proof -
  have stays: "i < length cs'" "cs' ! i = (rq, Escaped key)"
    using assms(2,3,4) by (cases ev; auto split: if_splits prod.splits http_pc.splits simp: nth_append nth_list_update)+
  have inv: "http_inv w cs' st'" by (rule step_keeps [OF reach_inv [OF assms(1)] assms(4)])
  have "cs' ! i \<in> set cs'" using stays(1) by (rule nth_mem)
  then have "0 < count (slots_held cs') key" using stays(2) held_counted by fastforce
  moreover from this have "0 < size (slots_held cs')"
    by (metis count_empty less_irrefl nonempty_has_size)
  moreover have "slots (hs_inFlight st') key = count (slots_held cs') key" "active (hs_inFlight st') = size (slots_held cs')"
    using inv unfolding http_inv_def in_use_def by blast+
  ultimately have "0 < slots (hs_inFlight st') key" "active (hs_inFlight st') \<noteq> 0" by linarith+
  then show ?thesis using stays(2) closing_step [OF reach_inv [OF assms(1)] assms(4)] by auto
qed


section \<open>Samples\<close>

text \<open>
  Two deployments without any list of hosts. One takes credentials from headers, and a body is a call of a tool
  whose name is a snowman; the other maps principals to credentials, and Alice calls.
\<close>

definition snowman_call :: jsval where
  "snowman_call = Obj [(js ''method'', Str (js ''tools/call'')), (js ''params'', Obj [(js ''name'', Str [9731])])]"

definition sample_http :: "cred_world \<Rightarrow> credential_mode \<Rightarrow> http_world" where
  "sample_http cw mode =
     \<lparr> hw_creds = cw, hw_origin = sample_origin, hw_decode = (\<lambda>bytes. js ''x''),
       hw_isJsonContentType = (\<lambda>t. True), hw_classify = (\<lambda>v m n body. InboundModern MODERN_MCP_PROTOCOL_VERSION),
       hw_mode = mode, hw_rate = \<lparr> rps = 1, burst = 5 \<rparr>, hw_maxTotal = 10, hw_maxPerKey = 2,
       hw_sweepOnRequest = False, hw_version = js ''1'' \<rparr>"

definition header_creds :: cred_world where
  "header_creds = sample_world\<lparr> cw_env := (\<lambda>n. None), cw_json_parse := (\<lambda>s. Some snowman_call) \<rparr>"

definition header_world :: http_world where
  "header_world = sample_http header_creds ModeHeaders"

definition local_request :: "auth_info option \<Rightarrow> web_request" where
  "local_request a = (sample_web_request [(js ''host'', js ''localhost'')])\<lparr> wr_authInfo := a \<rparr>"

lemma local_headers:
  "req_header (local_request a) (js ''host'') = Some (js ''localhost'')"
  "req_header (local_request a) (js ''origin'') = None"
  "sanitizedHeadersFromRequest (local_request a) = []" "hasCredentialHeaders (headersToIncoming (local_request a)) = False"
  "ascii_upper (wr_method (local_request a)) = js ''POST''" "wr_pathname (local_request a) = js ''/mcp''"
  "wr_authInfo (local_request a) = a" "contentLengthExceedsLimit (local_request a) = False"
  "is_health (local_request a) = False"
  by (simp_all add: local_request_def sample_web_request_def req_header_def sanitizedHeadersFromRequest_def
      sdkHeaderAllowed_def SDK_HEADER_ALLOWLIST_def js_simps ascii_lower_def ascii_lower_unit_def is_upper_def
      hasCredentialHeaders_def headersToIncoming_def CREDENTIAL_HEADER_DETECTION_NAMES_def HEADER_keyId_def
      HEADER_key_def HEADER_masterKeyId_def HEADER_masterKey_def ascii_upper_def ascii_upper_unit_def is_lower_def
      contentLengthExceedsLimit_def nonempty_def is_health_def)

lemma local_key: "requestLimitKey env (local_request a) = js ''http:10.0.0.7''"
    if "env (js ''B2_TRUST_PROXY_HEADERS'') = None"
  using that by (simp add: requestLimitKey_def local_request_def sample_web_request_def first_nonblank_def
      List.map_filter_def nonempty_def js_trim_def js_space_def js_simps)

lemma local_allowed:
  assumes "env (js ''B2_ALLOWED_HOSTS'') = None" "env (js ''B2_ALLOWED_ORIGINS'') = None"
  shows "hostOriginAllowed parse env (local_request a)"
proof -
  have "csvEnv env (js ''B2_ALLOWED_HOSTS'') = []" "csvEnv env (js ''B2_ALLOWED_ORIGINS'') = []"
    using assms by (simp_all add: csvEnv_def js_trim_def)
  moreover have "hostWithoutPort (js ''localhost'') = js ''localhost''"
    using plain_forms [of "js ''localhost''" "[]"] by (simp add: plain_host_def js_space_def js_simps)
  ultimately show ?thesis by (simp add: hostOriginAllowed_def local_headers nonempty_def LOCALHOST_NAMES_def)
qed

lemma fresh_rate:
  assumes "map_get (buckets (hs_limiter st)) (deriveRateKey key) = None"
  shows "\<exists>l. take_rate (sample_http cw mode) 0 key st = (True, st\<lparr> hs_limiter := l \<rparr>) \<and>
    (\<forall>k. k \<noteq> deriveRateKey key \<and> map_get (buckets (hs_limiter st)) k = None \<longrightarrow> map_get (buckets l) k = None)"
proof -
  let ?cfg = "\<lparr> rps = 1, burst = 5 \<rparr>"
  define l1 where "l1 = maybeSweepIdleBuckets ?cfg 0 (hs_limiter st)"
  have kept: "map_get (buckets l1) k = None" if "map_get (buckets (hs_limiter st)) k = None" for k
    using that by (auto simp: l1_def maybeSweepIdleBuckets_def sweepIdleBuckets_def map_get_def map_of_eq_None_iff)
  have "allowRequest ?cfg 0 (deriveRateKey key) (hs_limiter st) =
      (True, l1\<lparr> buckets := map_set (deriveRateKey key) \<lparr> tokens = 4, lastRefill = 0 \<rparr> (buckets l1) \<rparr>)"
    using kept [OF assms] by (simp add: allowRequest_def l1_def [symmetric] refill_def take_token_def)
  then show ?thesis using kept by (auto simp: take_rate_def sample_http_def)
qed

text \<open>A request arrives at a fresh handler and waits for its body.\<close>

lemma first_arrival:
  assumes "cw_env cw (js ''B2_ALLOWED_HOSTS'') = None" "cw_env cw (js ''B2_ALLOWED_ORIGINS'') = None"
    "cw_env cw (js ''B2_TRUST_PROXY_HEADERS'') = None"
  shows "\<exists>l. http_step (sample_http cw mode) 0 (Arrive (local_request a)) ([], http_start) =
      Some ([(local_request a, ReadingBody (js ''http:10.0.0.7''))],
        http_start\<lparr> hs_inFlight := \<lparr> active = 1, byKey = [(js ''http:10.0.0.7'', 1)] \<rparr>, hs_limiter := l \<rparr>) \<and>
      (\<forall>k. k \<noteq> deriveRateKey (js ''http:10.0.0.7'') \<longrightarrow> map_get (buckets l) k = None)"
proof -
  let ?st = "http_start\<lparr> hs_inFlight := \<lparr> active = 1, byKey = [(js ''http:10.0.0.7'', 1)] \<rparr> \<rparr>"
  obtain l where l: "take_rate (sample_http cw mode) 0 (js ''http:10.0.0.7'') ?st = (True, ?st\<lparr> hs_limiter := l \<rparr>)"
      "\<forall>k. k \<noteq> deriveRateKey (js ''http:10.0.0.7'') \<longrightarrow> map_get (buckets l) k = None"
    using fresh_rate [of ?st "js ''http:10.0.0.7''" cw mode] by (auto simp: http_start_def map_get_def)
  have w: "hw_creds (sample_http cw mode) = cw" "hw_maxTotal (sample_http cw mode) = 10"
      "hw_maxPerKey (sample_http cw mode) = 2" "\<not> hw_sweepOnRequest (sample_http cw mode)"
    by (simp_all add: sample_http_def)
  have "acquire 10 2 (js ''http:10.0.0.7'') (hs_inFlight http_start) =
      (Admitted, \<lparr> active = 1, byKey = [(js ''http:10.0.0.7'', 1)] \<rparr>)"
    by (simp add: acquire_def http_start_def empty_in_flight_def slots_def map_get_def)
  then have "admit (sample_http cw mode) (local_request a) 0 http_start =
      (ReadingBody (js ''http:10.0.0.7''), ?st\<lparr> hs_limiter := l \<rparr>)"
    using l(1) by (simp add: admit_def Let_def w local_key assms local_headers)
  then show ?thesis
    using l(2) assms by (simp add: begin_fetch_def Let_def w local_headers local_allowed http_start_def)
qed


lemma header_world_parts:
  "hw_creds header_world = header_creds" "cw_env header_creds = (\<lambda>n. None)" "cw_json_parse header_creds s = Some snowman_call"
  "hw_mode header_world = ModeHeaders" "hw_maxPerKey header_world = 2" "hw_decode header_world bytes = js ''x''"
  "hw_isJsonContentType header_world t = True"
  "hw_classify header_world v m n body = InboundModern MODERN_MCP_PROTOCOL_VERSION"
  by (simp_all add: header_world_def header_creds_def sample_http_def)

lemma snowman_body: "parsedJsonBody header_world (Some (js ''x'')) = Some snowman_call"
    "requestMethodFromParsedBody snowman_call = Some (js ''tools/call'')"
    "toolNameFromParsedBody snowman_call = Some [9731]"
  by (simp_all add: parsedJsonBody_def nonempty_def header_world_parts js_simps requestMethodFromParsedBody_def
      toolNameFromParsedBody_def snowman_call_def prop_get_def text_value_def)

definition snowman_preflight :: protocol_preflight where
  "snowman_preflight = classifyProtocolPreflight header_world (local_request None) (Some snowman_call)"

lemma snowman_parts: "pp_rejection snowman_preflight = None" "pp_protocolOnly snowman_preflight = False"
    "\<not> sdk_request_ok (sdk_headers_of (local_request None) snowman_preflight)"
  by (simp_all add: snowman_preflight_def classifyProtocolPreflight_def local_headers header_world_parts Let_def
      snowman_body map_get_def nonempty_def sdk_headers_of_def inferredModernHeaders_def default_header_def
      sdk_request_ok_def header_value_ok_def http_space_def js_simps)

lemma no_header_credentials:
  "\<exists>e. http_resolve (hw_creds header_world) ModeHeaders (Some (makeCredentialRequest (local_request None))) cache
      = (Inl e, cache) \<and> isCredentialUnavailableForDiscovery (Some e)"
proof -
  have "headersToIncoming (local_request None) = [(js ''host'', HeaderText (js ''localhost''))]"
    by (simp add: headersToIncoming_def local_request_def sample_web_request_def ascii_lower_def ascii_lower_unit_def
        is_upper_def js_simps)
  then have "headerMaterial (rq_headers (makeCredentialRequest (local_request None))) = Inr
      \<lparr> cm_applicationKeyId = None, cm_applicationKey = None, cm_masterKeyId = None, cm_masterKey = None \<rparr>"
    by (simp add: headerMaterial_def makeCredentialRequest_def valueFromHeader_def HEADER_keyId_def HEADER_key_def
        HEADER_masterKeyId_def HEADER_masterKey_def js_simps ascii_lower_def ascii_lower_unit_def is_upper_def)
  then show ?thesis
    by (simp add: http_resolve_def header_resolve_def configFromMaterial_def nonempty_def
        isCredentialUnavailableForDiscovery_def)
qed

lemma discovery_resolves: "\<exists>r. httpDiscoveryCredentialResolution (hw_creds header_world) (Some k) = Inr r"
  by (simp add: httpDiscoveryCredentialResolution_def configFromMaterial_def nonempty_def resolveOptionalPair_def
      resolveOutputFormat_def parseMcpOutputFormat_def preflightMcpOutputFormat_def DEFAULT_MCP_OUTPUT_FORMAT_def
      sink_config_of_def resolveSecretSinkConfig_def parseSecretSinkMode_def httpConfigOptions_def
      header_world_parts(1) header_creds_def DISCOVERY_MODE_CREDENTIAL_def js_simps sample_world_def Let_def)


lemma rekey_alone:
  "k \<noteq> k' \<Longrightarrow> rekey 2 k k' \<lparr> active = 1, byKey = [(k, 1)] \<rparr> = (Admitted, \<lparr> active = 1, byKey = [(k', 1)] \<rparr>)"
  by (simp add: rekey_def slots_def map_get_def drop_slot_def map_delete_def)

text \<open>The call of the snowman tool is answered in discovery mode, and its promise is rejected.\<close>

lemma snowman_escapes:
  assumes "hs_inFlight st = \<lparr> active = 1, byKey = [(key, 1)] \<rparr>" "key \<noteq> DISCOVERY_LIMIT_KEY"
    and "map_get (buckets (hs_limiter st)) (deriveRateKey DISCOVERY_LIMIT_KEY) = None"
  shows "\<exists>st'. with_body header_world (local_request None) 0 (BodyRead None) key st = (Escaped DISCOVERY_LIMIT_KEY, st')"
proof -
  obtain r where r: "httpDiscoveryCredentialResolution (hw_creds header_world) (Some DISCOVERY_LIMIT_KEY) = Inr r"
    using discovery_resolves by blast
  let ?st = "st\<lparr> hs_inFlight := \<lparr> active = 1, byKey = [(DISCOVERY_LIMIT_KEY, 1)] \<rparr> \<rparr>"
  obtain l where l: "take_rate header_world 0 DISCOVERY_LIMIT_KEY ?st = (True, ?st\<lparr> hs_limiter := l \<rparr>)"
    using fresh_rate [of ?st DISCOVERY_LIMIT_KEY header_creds ModeHeaders] assms(3) by (auto simp: header_world_def)
  have d: "dispatchDiscoveryMode header_world (local_request None) 0 snowman_preflight raw key st =
      (Escaped DISCOVERY_LIMIT_KEY, ?st\<lparr> hs_limiter := l \<rparr>)" for raw
    using discovery_key [OF r] rekey_alone [OF assms(2)] l snowman_parts(3) assms(1)
    by (simp add: dispatchDiscoveryMode_def r [unfolded header_world_parts(1)] header_world_parts)
  obtain e where e: "http_resolve (hw_creds header_world) ModeHeaders (Some (makeCredentialRequest (local_request None)))
      (hs_principals st) = (Inl e, hs_principals st)" "isCredentialUnavailableForDiscovery (Some e)"
    using no_header_credentials by blast
  have "publicCredentialHeaderRejection header_world (local_request None) shape (hs_principals st) = (None, hs_principals st)"
    for shape by (simp add: publicCredentialHeaderRejection_def shouldRejectPublicCredentialHeaders_def header_world_parts)
  moreover have "canUseDiscoveryServer header_world (Some (js ''x''))"
    by (simp add: canUseDiscoveryServer_def snowman_body mayDispatchToDiscoveryServer_def DISCOVERY_METHODS_def)
  ultimately have "after_preflight header_world (local_request None) 0 snowman_preflight (Some (js ''x'')) key st =
      (Escaped DISCOVERY_LIMIT_KEY, ?st\<lparr> hs_limiter := l \<rparr>)"
    using d e by (simp add: after_preflight_def snowman_parts header_world_parts)
  then show ?thesis
    by (simp add: with_body_def readCappedBodyBytes_def local_headers header_world_parts after_body_def snowman_body
        flip: snowman_preflight_def)
qed

lemma snowman_run:
  "\<exists>st. http_reach header_world [(local_request None, Escaped DISCOVERY_LIMIT_KEY)] st"
proof -
  obtain l where a: "http_step header_world 0 (Arrive (local_request None)) ([], http_start) =
      Some ([(local_request None, ReadingBody (js ''http:10.0.0.7''))],
        http_start\<lparr> hs_inFlight := \<lparr> active = 1, byKey = [(js ''http:10.0.0.7'', 1)] \<rparr>, hs_limiter := l \<rparr>)"
      "\<forall>k. k \<noteq> deriveRateKey (js ''http:10.0.0.7'') \<longrightarrow> map_get (buckets l) k = None"
    using first_arrival [of header_creds ModeHeaders None] unfolding header_world_def [symmetric]
    by (auto simp only: header_world_parts simp_thms)
  have k: "js ''http:10.0.0.7'' \<noteq> DISCOVERY_LIMIT_KEY" by (simp add: DISCOVERY_LIMIT_KEY_def)
  let ?st = "http_start\<lparr> hs_inFlight := \<lparr> active = 1, byKey = [(js ''http:10.0.0.7'', 1)] \<rparr>, hs_limiter := l \<rparr>"
  obtain st' where "with_body header_world (local_request None) 0 (BodyRead None) (js ''http:10.0.0.7'') ?st =
      (Escaped DISCOVERY_LIMIT_KEY, st')"
    using snowman_escapes [OF _ k, of ?st] a(2) k by (auto simp: deriveRateKey_def)
  then have "http_step header_world 0 (Body 0 (BodyRead None))
      ([(local_request None, ReadingBody (js ''http:10.0.0.7''))], ?st) =
      Some ([(local_request None, Escaped DISCOVERY_LIMIT_KEY)], st')" by simp
  then show ?thesis using http_boot a(1) http_event by metis
qed

theorem escaped_slot_kept_witness:
  "\<exists>st cs' st'. http_reach header_world [(local_request None, Escaped DISCOVERY_LIMIT_KEY)] st \<and>
     http_step header_world 0 Drain ([(local_request None, Escaped DISCOVERY_LIMIT_KEY)], st) = Some (cs', st') \<and>
     0 < slots (hs_inFlight st') DISCOVERY_LIMIT_KEY"
proof -
  let ?cs = "[(local_request None, Escaped DISCOVERY_LIMIT_KEY)]"
  obtain st where st: "http_reach header_world ?cs st" using snowman_run by blast
  have "http_step header_world 0 Drain (?cs, st) = Some (?cs, drain st)" by simp
  moreover from escaped_slot_kept [OF st _ _ this, of 0] have "0 < slots (hs_inFlight (drain st)) DISCOVERY_LIMIT_KEY" by simp
  ultimately show ?thesis using st by blast
qed

theorem shutdown_ends_witness:
  "\<exists>cs st. http_reach header_world cs st \<and> hs_shuttingDown st \<and> hs_mcpClosed st"
proof -
  have "http_reach header_world [] (drain http_start)" using http_boot http_event [where ev = Drain] by fastforce
  moreover have s: "hs_shuttingDown (drain http_start)"
    by (simp add: drain_def http_start_def maybeCloseMcpHandlerAfterDrain_def closeMcpHandler_def)
  ultimately have "hs_mcpClosed (drain http_start)"
    using shutdown_ends [of header_world "[]" "drain http_start"] by (simp add: work_left_def)
  with s show ?thesis using http_boot http_event [where ev = Drain] by fastforce
qed


text \<open>Alice's request, with the credentials her principal maps to, reaches the MCP handler.\<close>

definition principal_world :: http_world where
  "principal_world = sample_http sample_world ModePrincipal"

abbreviation alices_call :: web_request where
  "alices_call \<equiv> local_request (Some alice)"

lemma principal_world_parts:
  "hw_creds principal_world = sample_world" "hw_mode principal_world = ModePrincipal" "hw_maxPerKey principal_world = 2"
  "hw_decode principal_world bytes = js ''x''" "hw_isJsonContentType principal_world t = True"
  "hw_classify principal_world v m n body = InboundModern MODERN_MCP_PROTOCOL_VERSION"
  by (simp_all add: principal_world_def sample_http_def)

lemma alice_resolves:
  "\<exists>r cache'. http_resolve sample_world ModePrincipal (Some (makeCredentialRequest alices_call)) None = (Inr r, cache') \<and>
     prefix (js ''principal:'') (res_cacheKey r)"
proof -
  obtain c where c: "configFromMaterial sample_world (envMaterial sample_env (js ''B2_CREDENTIAL_TENANT_A''))
     (httpConfigOptions sample_env) = Inr c"
    using sample_config_built by blast
  have env: "cw_env sample_world = sample_env" by (simp add: sample_world_def)
  have broker: "env_broker sample_env (js ''tenant_a'') = Inr (Some (envMaterial sample_env (js ''B2_CREDENTIAL_TENANT_A'')))"
    by (simp add: env_broker_def sample_prefixes sample_material nonempty_def)
  show ?thesis
    using local_headers(4,7) [of "Some alice"]
    by (simp add: http_resolve_def principal_resolve_def makeCredentialRequest_def alice_claims
        sample_map map_get_def env broker c resolution_of_def)
qed

definition alice_preflight :: protocol_preflight where
  "alice_preflight = classifyProtocolPreflight principal_world alices_call (parsedJsonBody principal_world (Some (js ''x'')))"

lemma alice_parts: "pp_rejection alice_preflight = None" "pp_protocolOnly alice_preflight = False"
    "sdk_request_ok (sdk_headers_of alices_call alice_preflight)"
  by (simp_all add: alice_preflight_def classifyProtocolPreflight_def local_headers principal_world_parts Let_def
      parsedJsonBody_def nonempty_def sample_world_def requestMethodFromParsedBody_def prop_get_def text_value_def
      sdk_headers_of_def inferredModernHeaders_def default_header_def toolNameFromParsedBody_def map_get_def
      MODERN_MCP_PROTOCOL_VERSION_def sdk_request_ok_def header_value_ok_def http_space_def js_simps)


lemma alice_admitted:
  assumes "hs_inFlight st = \<lparr> active = 1, byKey = [(key, 1)] \<rparr>" "hs_principals st = None" "\<not> prefix (js ''principal:'') key"
    and "\<And>k. k \<noteq> deriveRateKey key \<Longrightarrow> map_get (buckets (hs_limiter st)) k = None"
  shows "\<exists>r raw st'. with_body principal_world alices_call 0 (BodyRead None) key st =
      (AwaitCapabilities (res_cacheKey r) r False alice_preflight raw, st')"
proof -
  obtain r cache' where r: "http_resolve sample_world ModePrincipal (Some (makeCredentialRequest alices_call)) None = (Inr r, cache')"
      "prefix (js ''principal:'') (res_cacheKey r)"
    using alice_resolves by blast
  have ne: "key \<noteq> res_cacheKey r" using assms(3) r(2) by blast
  let ?st = "st\<lparr> hs_principals := cache', hs_inFlight := \<lparr> active = 1, byKey = [(res_cacheKey r, 1)] \<rparr> \<rparr>"
  obtain l where l: "take_rate principal_world 0 (res_cacheKey r) ?st = (True, ?st\<lparr> hs_limiter := l \<rparr>)"
    using fresh_rate [of ?st "res_cacheKey r" sample_world ModePrincipal] assms(4) ne
    by (auto simp: principal_world_def deriveRateKey_def)
  have "usesHeaderCredentialVerificationLimit principal_world alices_call = False"
    by (simp add: usesHeaderCredentialVerificationLimit_def canDowngradeCapabilityAuthFailure_def principal_world_parts)
  then have res: "after_resolution principal_world alices_call 0 alice_preflight raw key r (st\<lparr> hs_principals := cache' \<rparr>) =
      (AwaitCapabilities (res_cacheKey r) r False alice_preflight raw, ?st\<lparr> hs_limiter := l \<rparr>)" for raw
    using rekey_alone [OF ne] l assms(1) by (simp add: after_resolution_def principal_world_parts)
  have "publicCredentialHeaderRejection principal_world alices_call shape None = (None, None)" for shape
    by (simp add: publicCredentialHeaderRejection_def local_headers)
  then have "after_preflight principal_world alices_call 0 alice_preflight raw key st =
      (AwaitCapabilities (res_cacheKey r) r False alice_preflight raw, ?st\<lparr> hs_limiter := l \<rparr>)" for raw
    using res by (simp add: after_preflight_def alice_parts principal_world_parts assms(2) r(1))
  then show ?thesis
    by (simp add: with_body_def readCappedBodyBytes_def local_headers principal_world_parts after_body_def
        flip: alice_preflight_def)
qed

lemma alice_run:
  "\<exists>st key prep hs raw r. http_reach principal_world [(alices_call, InMcp key (Some prep) hs raw)] st \<and>
     prep = \<lparr> pr_resolved = r, pr_capabilities = None, pr_credentialsUnavailable = False, pr_authInfo = Some alice \<rparr>"
proof -
  have env: "cw_env sample_world (js ''B2_ALLOWED_HOSTS'') = None" "cw_env sample_world (js ''B2_ALLOWED_ORIGINS'') = None"
      "cw_env sample_world (js ''B2_TRUST_PROXY_HEADERS'') = None"
    by (simp_all add: sample_world_def sample_env_def)
  obtain l where a: "http_step principal_world 0 (Arrive alices_call) ([], http_start) =
      Some ([(alices_call, ReadingBody (js ''http:10.0.0.7''))],
        http_start\<lparr> hs_inFlight := \<lparr> active = 1, byKey = [(js ''http:10.0.0.7'', 1)] \<rparr>, hs_limiter := l \<rparr>)"
      "\<forall>k. k \<noteq> deriveRateKey (js ''http:10.0.0.7'') \<longrightarrow> map_get (buckets l) k = None"
    using first_arrival [OF env, of ModePrincipal "Some alice"] unfolding principal_world_def [symmetric] by blast
  let ?st = "http_start\<lparr> hs_inFlight := \<lparr> active = 1, byKey = [(js ''http:10.0.0.7'', 1)] \<rparr>, hs_limiter := l \<rparr>"
  have "\<not> prefix (js ''principal:'') (js ''http:10.0.0.7'')" by (simp add: js_simps)
  then obtain r raw st' where b: "with_body principal_world alices_call 0 (BodyRead None) (js ''http:10.0.0.7'') ?st =
      (AwaitCapabilities (res_cacheKey r) r False alice_preflight raw, st')"
    using alice_admitted [of ?st "js ''http:10.0.0.7''"] a(2) by (auto simp: http_start_def)
  let ?prep = "\<lparr> pr_resolved = r, pr_capabilities = None, pr_credentialsUnavailable = False, pr_authInfo = Some alice \<rparr>"
  let ?hs = "sdk_headers_of alices_call alice_preflight"
  have "http_step principal_world 0 (Body 0 (BodyRead None)) ([(alices_call, ReadingBody (js ''http:10.0.0.7''))], ?st) =
      Some ([(alices_call, AwaitCapabilities (res_cacheKey r) r False alice_preflight raw)], st')"
    using b by simp
  moreover have "http_step principal_world 0 (CapabilitiesSettle 0 (Inr None) (hs_capabilities st'))
      ([(alices_call, AwaitCapabilities (res_cacheKey r) r False alice_preflight raw)], st') =
      Some ([(alices_call, InMcp (res_cacheKey r) (Some ?prep) ?hs raw)], st')"
    by (simp add: after_capabilities_def dispatchToMcp_def alice_parts local_headers)
  ultimately have "http_reach principal_world [(alices_call, InMcp (res_cacheKey r) (Some ?prep) ?hs raw)] st'"
    using http_boot a(1) http_event by metis
  then show ?thesis by blast
qed

text \<open>
  Her call is in progress, alone under her key; the snowman's is over, and its slot is counted all the same.
\<close>

theorem slots_are_requests_witness:
  "(\<exists>st key prep hs raw. http_reach principal_world [(alices_call, InMcp key prep hs raw)] st \<and>
      slots (hs_inFlight st) key = 1 \<and> active (hs_inFlight st) = 1) \<and>
   (\<exists>st. http_reach header_world [(local_request None, Escaped DISCOVERY_LIMIT_KEY)] st \<and>
      slots (hs_inFlight st) DISCOVERY_LIMIT_KEY = 1 \<and> progress_key (Escaped DISCOVERY_LIMIT_KEY) = None)"
proof -
  obtain st key prep hs raw where a: "http_reach principal_world [(alices_call, InMcp key (Some prep) hs raw)] st"
    using alice_run by blast
  obtain st' where s: "http_reach header_world [(local_request None, Escaped DISCOVERY_LIMIT_KEY)] st'"
    using snowman_run by blast
  from slots_are_requests [OF a, of key] have "slots (hs_inFlight st) key = 1" "active (hs_inFlight st) = 1"
    by simp_all
  moreover from slots_are_requests [OF s, of DISCOVERY_LIMIT_KEY] have "slots (hs_inFlight st') DISCOVERY_LIMIT_KEY = 1"
    by simp
  ultimately show ?thesis using a s by (intro conjI exI) auto
qed

theorem credentialed_dispatch_witness:
  "\<exists>cs st key prep hs raw config r. http_reach principal_world cs st \<and> (alices_call, InMcp key prep hs raw) \<in> set cs \<and>
     createPreparedMcpServer prep = Inr (config, None, False, Some []) \<and>
     fst (http_resolve sample_world ModePrincipal (Some (makeCredentialRequest alices_call)) None) = Inr r \<and>
     config = res_config r"
proof -
  obtain st key prep hs raw r where a: "http_reach principal_world [(alices_call, InMcp key (Some prep) hs raw)] st"
      "prep = \<lparr> pr_resolved = r, pr_capabilities = None, pr_credentialsUnavailable = False, pr_authInfo = Some alice \<rparr>"
    using alice_run by blast
  have c: "createPreparedMcpServer (Some prep) = Inr (res_config r, None, False, Some [])"
    by (simp add: createPreparedMcpServer_def a(2) alice_def)
  from credentialed_dispatch [OF a(1) _ c, of alices_call key hs raw]
  obtain r' where "fst (http_resolve sample_world ModePrincipal (Some (makeCredentialRequest alices_call)) None) = Inr r'"
      "res_config r = res_config r'"
    by (auto simp: principal_world_parts)
  with a(1) c show ?thesis by fastforce
qed

end
