(* ===== verification/Spec2Isabelle.thy ===== *)
theory Spec2Isabelle
  imports Tool_Capabilities Config_Cli Token_Bucket Admission Retry Caches Secret_Values
    Toon_Cells Result_Serializer Elicitation Errors Circuit_Breaker Sink_Protocol Sink_Locks
    Report_Scan Unfinished_Uploads Bucket_Resolution Credential_Routing Oauth_Bounds Http_Safety
begin

text \<open>
  A verification development of the B2 MCP server (\<open>src/src/\<close>), a server that gives a language model
  the operations of Backblaze B2 as tools. A tool call enters through the HTTP pipeline or stdio, passes
  admission limits, is registered and visible only if the key's capabilities and the token's scopes allow
  it, is approved by a human when it is destructive, runs against the service with retries behind a
  circuit breaker, and its result or error is stripped of secrets, serialized and returned. The
  development follows that path; the parts that decide are modelled, the wiring of SDKs is not.

  Theories and the code they model:

  \<^item> \<open>Js_Prelude\<close>, \<open>Json_Text\<close>, \<open>Js_Number\<close>, \<open>Js_Num_Value\<close>, \<open>Js_Effects\<close>: JavaScript strings as lists of
    UTF-16 code units, values, numbers as exact decimals, \<open>JSON.stringify\<close>, \<open>Number(text)\<close>, exceptions
    as sums. These model the language, not a file.
  \<^item> \<open>B2_Types\<close>: the configuration (\<open>utils/types.ts\<close>) and the builders of refusals.
  \<^item> \<open>Canonical_Json\<close>, \<open>Destructive_Gate\<close>: \<open>utils/destructive-gate.ts\<close>. Which calls are destructive, the
    digest of their target, the four policies. Shown: the decision table, that the model's \<open>confirm\<close> flag
    has no power under \<open>elicit\<close>, and that a consent binds one tool and one target up to a collision of
    the HMAC, as the canonical text is injective.
  \<^item> \<open>Elicitation_Prompt\<close>, \<open>Elicitation\<close>: \<open>utils/destructive-elicitation.ts\<close>. The prompt a human reads, the
    signed approval state, the wrapper around every destructive handler. Every call reads two clocks, the code's
    own and the codec's. Shown: the prompt's values cannot be multi-line or long, a state verifies for the call it
    was minted for while neither clock says that it has expired, and for no other, and exactly when the wrapped
    call runs.
  \<^item> \<open>Tool_Capabilities\<close>: \<open>utils/tool-capabilities.ts\<close> with the registration predicate of \<open>server.ts\<close> and
    the presigned URL tool (\<open>s3/presigned.ts\<close>). Shown: the filter is a tier order that fails closed,
    annotations agree with the gate.
  \<^item> \<open>Config_Cli\<close>: \<open>utils/config.ts\<close> and \<open>cli.ts\<close>.
  \<^item> \<open>Token_Bucket\<close>: \<open>utils/rate-limiter.ts\<close> and the retry budget of \<open>utils/retry.ts\<close>, refined by a table of
    token levels. \<open>Retry\<close>: the retry loop.
  \<^item> \<open>Admission\<close>: the in-flight limiter of \<open>http-fetch-handler.ts\<close>, refined by a multiset, and
    \<open>utils/concurrency.ts\<close> as a step relation with its invariant and its termination.
  \<^item> \<open>Caches\<close>: the auth-manager and capability caches of \<open>server.ts\<close> with the discovery in flight.
  \<^item> \<open>Error_Chain\<close>, \<open>Errors\<close>, \<open>Circuit_Breaker\<close>: \<open>utils/named-error.ts\<close>, \<open>utils/errors.ts\<close> and
    \<open>utils/circuit-breaker.ts\<close>. Thrown values live in a heap, as causes may be cyclic. Shown: the search
    for a cause returns and is exact, what the breakers count, that the six breakers, objects made on first use
    to which the slots refer, are six breakers alone in whatever order they are called, and that the audit reads an error text back, unless its message looks like a status.
  \<^item> \<open>Secret_Text\<close>, \<open>Secret_Patterns\<close>, \<open>Secret_Values\<close>: \<open>utils/secret-sanitizer.ts\<close>. The regular expressions
    are scanners that return the groups they keep. Shown: no configured secret and no match of the
    expressions is left in any text, and the structured sanitizer returns on every heap.
  \<^item> \<open>Toon\<close>, \<open>Toon_Cells\<close>, \<open>Result_Serializer\<close>: \<open>utils/toon-encoder.ts\<close> and \<open>utils/result-serializer.ts\<close>.
    Shown: which values the encoder rejects, that data cannot forge lines, that rows read back, and that
    the bounds check is its recursive specification.

  \<^item> \<open>Secret_Ledger\<close>, \<open>Sink_Protocol\<close>, \<open>Sink_Locks\<close>: \<open>utils/secret-sink.ts\<close>. Where one-time secrets go, the fingerprints of
    a request, the ledger as bytes with the repair of a torn tail, the lookup of an earlier record; then the
    claim, create, store, commit and release protocol as a step relation over any number of processes that share
    the files, with the provider and the file system as choices and the number of credentials as a history
    variable. In it the locks on the ledger and on its index are flags that a waiting process may break at any time;
    the lock files themselves, with the deadlines, the identities of owners and the reclaim lock that guards the
    breaking of stale locks, are \<open>Sink_Locks\<close>. Shown: at most one credential for a claim in every interleaving, a
    stored record is what the same request gets again, one race in which a record that was replayed is rolled back;
    a lock is exclusive as long as nobody dies while owning a reclaim lock or stays five minutes between the creation
    and the writing of a lock file, and a run in which one does die and two live processes hold the lock.

  \<^item> \<open>Usage_Csv\<close>, \<open>Usage_Rows\<close>, \<open>Civil_Date\<close>, \<open>Report_Scan\<close>: the usage reports of \<open>b2/insights.ts\<close> and their
    reader in \<open>b2/report-client.ts\<close>. The CSV loop over its four variables, the rows and three aggregations
    over insertion-ordered maps, the calendar of \<open>Date\<close>, and the scan of the report bucket under a budget of
    pages, keys, bytes, rows and time, with the bucket and the clock as a world that every call may change.
    Shown: RFC 4180 text reads back, the rankings are grouping and sorting and lose nothing, a period goes
    back by calendar months, a scan stays within its limits on every world and is complete when it is not
    marked truncated, and the latest snapshot is never a stale one.
  \<^item> \<open>Largest_Files\<close>, \<open>Unfinished_Uploads\<close>, \<open>Bucket_Resolution\<close>: the live listing tools of
    \<open>b2/insights.ts\<close>. Shown: the bounded ranking is the sorting of what was scanned, the walk over unfinished
    uploads claims no more than it knows, and a restricted key discloses only names of its scope.

  \<^item> \<open>Credentials\<close>, \<open>Credential_Routing\<close>: \<open>credentials.ts\<close>. The environment, header, server and principal
    providers, the map of principals with its cache, and the keys under which connections and capabilities
    are cached. Shown: the variables of one principal cannot influence another, a principal gets the
    credential of its reference and no other, credential headers have no power where they are refused, and
    every configuration of an HTTP request has the safe defaults.
  \<^item> \<open>Oauth_Config\<close>, \<open>Oauth_Claims\<close>, \<open>Oauth_Jwt\<close>, \<open>Oauth_Verifier\<close>, \<open>Oauth_Trust\<close>, \<open>Oauth_Bounds\<close>:
    \<open>oauth-resource-server.ts\<close>. The settings; the checks on claims; compact JWTs with base64url and the
    choice of keys; the calls of the authorization server with retries and circuits, the token and key caches
    and the two verifiers. Shown: exactly which claims are accepted, and that their subject is the principal
    of the request; that JWT texts are canonical; that on every run an accepted token is backed by the exchanges of this
    verification with the authorization server or by those of an earlier one, at a time that the cache's time to live
    allows; that the caches stay bounded and the circuit is its history.

  \<^item> \<open>Http_Gate\<close>, \<open>Http_Pipeline\<close>, \<open>Http_Slots\<close>, \<open>Http_Safety\<close>: \<open>http-fetch-handler.ts\<close> and
    \<open>utils/http-body-limit.ts\<close>. The decisions on one request; then the handler, whose calls run from one
    \<open>await\<close> to the next and interleave freely on the limiters, caches and shutdown flags: a function from an
    event to the next state, and the reachable states. A segment between two waits is described once
    (\<open>segment\<close>), and the invariant follows for every step from the contract of the slot pool. Shown: which
    requests the host policy lets pass; the slots are the calls in progress and those lost by the exception named
    last, a server is built with the credentials of its own request, a shutdown ends, and
    one exception that leaves \<open>fetch\<close> and loses a slot.

  Interfaces are locales, interpreted on the model: the keyed store, the code whose parts do not run into
  each other (JSON texts and table cells), the token bucket (limiter and retry budget), the slot pool of the
  request pipeline, the approval that binds a target, the redactor that \<open>scan\<close> drives (one interpretation for
  each expression), the report client whose downloads stay within the bytes asked for, the credential provider of an HTTP request,
  and the client of an OAuth dependency. What is third party is a parameter: the HMAC and hashes, the SDK's codec and response
  reader, opossum's breaker, the clock, the retried operation, the listings and
  objects of a bucket, the text decoder, the parser of URLs, the authorization server and jose's signature
  check. Hypotheses on them are named
  (\<open>codec_returns\<close> and its like) and state what their documentation says.

  Loops are recursions with a measure, and no definition takes fuel; the page loops of the live listing
  tools, which only the pages or the clock end, are \<open>partial_function\<close>s into an option, and that they
  return is proved for every listing that ends. The walk over causes is bounded by the
  objects of the heap that were not visited, the sanitizer by the same and its depth limit, the worker
  loop by the work left, the retry loop by its attempts.

  Bounds of the model: numbers are exact decimals and rationals, not doubles; case is folded on ASCII
  letters only; getters, proxies and functions as thrown values are left out; a bounded log message is
  a list of fields. An asynchronous operation is a sequence of its steps; steps of different requests
  interleave where the code awaits.

  Verifications of tokens run one after the other: the sharing of a key set fetch in flight and its race
  with an aborted request are left out, as are OAuth metadata documents and challenge responses, which the
  MCP SDK builds.

  Not modelled: the native client and its token, the S3 adapter and the tool registrations, which are
  mostly calls of SDKs with zod schemas; the handler of the egress ranking and the JSON texts of the
  insight answers; the chunks of a streamed answer; the Node server and the serverless adapters, resources,
  prompts and logging, which are wiring and texts. The
  components of the manifest list every file.
\<close>

end
